(* ===== verification/Prelude.thy ===== *)
theory Prelude
  imports Main "HOL-Library.Word" "HOL-Library.AList" "HOL-Library.Code_Target_Nat"
begin

text \<open>
  Shared vocabulary of the development: the machine integers of the Rust sources, the
  arithmetic whose behaviour depends on the build profile, byte-order helpers, and the
  lemma collections the component theories fill.

  The parameter \<open>chk\<close> that many definitions take is rustc's \<open>overflow-checks\<close>
  setting: \<open>True\<close> is the dev profile (an arithmetic overflow panics), \<open>False\<close>
  the release profile (it wraps). The workspace's Cargo.toml sets no profile, so both occur.
\<close>

unbundle bit_operations_syntax

type_synonym u8 = "8 word"
type_synonym u16 = "16 word"
type_synonym u32 = "32 word"
type_synonym u64 = "64 word"

named_theorems vm_simps "equations that execute one bytecode instruction"
named_theorems emit_intros "introduction rules for facts about emitted code"
named_theorems map_simps "lookups in association-list models of hash maps"

subsection \<open>usize arithmetic\<close>

text \<open>\<open>usize\<close> is 64 bits; its values are kept as \<open>nat\<close> below this bound.\<close>

definition usize_lim :: nat where
  "usize_lim = 2 ^ 64"

text \<open>\<open>a + b\<close> on \<open>usize\<close>: \<open>None\<close> is the overflow panic of the dev profile.\<close>

definition usize_add :: "bool \<Rightarrow> nat \<Rightarrow> nat \<Rightarrow> nat option" where
  "usize_add chk a b =
     (if a + b < usize_lim then Some (a + b)
      else if chk then None else Some (a + b - usize_lim))"

text \<open>\<open>a - b\<close> on \<open>usize\<close>.\<close>

definition usize_sub :: "bool \<Rightarrow> nat \<Rightarrow> nat \<Rightarrow> nat option" where
  "usize_sub chk a b =
     (if b \<le> a then Some (a - b)
      else if chk then None else Some (usize_lim + a - b))"

lemma usize_add_checked: "usize_add True a b = Some c \<Longrightarrow> c = a + b \<and> a + b < usize_lim"
  by (auto simp: usize_add_def split: if_splits)

lemma usize_add_release: "usize_add True a b = Some c \<Longrightarrow> usize_add False a b = Some c"
  by (auto simp: usize_add_def split: if_splits)

lemma usize_sub_release: "usize_sub True a b = Some c \<Longrightarrow> usize_sub False a b = Some c"
  by (auto simp: usize_sub_def split: if_splits)

subsection \<open>u64 arithmetic by profile\<close>

definition u64_add :: "bool \<Rightarrow> u64 \<Rightarrow> u64 \<Rightarrow> u64 option" where
  "u64_add chk l r = (if chk \<and> unat l + unat r \<ge> 2 ^ 64 then None else Some (l + r))"

definition u64_mul :: "bool \<Rightarrow> u64 \<Rightarrow> u64 \<Rightarrow> u64 option" where
  "u64_mul chk l r = (if chk \<and> unat l * unat r \<ge> 2 ^ 64 then None else Some (l * r))"

definition u64_saturating_sub :: "u64 \<Rightarrow> u64 \<Rightarrow> u64" where
  "u64_saturating_sub l r = (if r \<le> l then l - r else 0)"

text \<open>
  \<open>l << (r as u32)\<close>: the cast keeps the low 32 bits; a shift by 64 or more panics in the
  dev profile, in the release profile the amount is taken modulo 64.
\<close>

definition shift_amount :: "bool \<Rightarrow> u64 \<Rightarrow> nat option" where
  "shift_amount chk r =
     (let n = unat r mod 2 ^ 32 in if n < 64 then Some n else if chk then None else Some (n mod 64))"

definition u64_shl :: "bool \<Rightarrow> u64 \<Rightarrow> u64 \<Rightarrow> u64 option" where
  "u64_shl chk l r = map_option (\<lambda>n. push_bit n l) (shift_amount chk r)"

definition u64_shr :: "bool \<Rightarrow> u64 \<Rightarrow> u64 \<Rightarrow> u64 option" where
  "u64_shr chk l r = map_option (\<lambda>n. drop_bit n l) (shift_amount chk r)"

definition of_bool64 :: "bool \<Rightarrow> u64" where
  "of_bool64 b = (if b then 1 else 0)"

lemma u64_add_release: "u64_add True l r = Some v \<Longrightarrow> u64_add False l r = Some v"
  by (auto simp: u64_add_def split: if_splits)

lemma u64_mul_release: "u64_mul True l r = Some v \<Longrightarrow> u64_mul False l r = Some v"
  by (auto simp: u64_mul_def split: if_splits)

lemma shift_amount_release: "shift_amount True r = Some n \<Longrightarrow> shift_amount False r = Some n"
  by (auto simp: shift_amount_def Let_def split: if_splits)

lemma u64_shl_release: "u64_shl True l r = Some v \<Longrightarrow> u64_shl False l r = Some v"
  by (auto simp: u64_shl_def shift_amount_release)

lemma u64_shr_release: "u64_shr True l r = Some v \<Longrightarrow> u64_shr False l r = Some v"
  by (auto simp: u64_shr_def shift_amount_release)

lemmas u64_release = u64_add_release u64_mul_release u64_shl_release u64_shr_release

lemma of_bool64_zero [simp]: "of_bool64 b = 0 \<longleftrightarrow> \<not> b"
  by (simp add: of_bool64_def)

text \<open>\<open>v as u64\<close> for an \<open>i64\<close>: the two's complement bits.\<close>

definition i64_as_u64 :: "int \<Rightarrow> u64" where
  "i64_as_u64 v = word_of_int v"

subsection \<open>Bytes\<close>

definition be_value :: "u8 list \<Rightarrow> nat" where
  "be_value bs = fold (\<lambda>b acc. acc * 256 + unat b) bs 0"

definition le_value :: "u8 list \<Rightarrow> nat" where
  "le_value bs = be_value (rev bs)"

lemma be_value_snoc: "be_value (bs @ [b]) = be_value bs * 256 + unat b"
  by (simp add: be_value_def)

lemma be_value_Nil [simp]: "be_value [] = 0"
  by (simp add: be_value_def)

lemma be_value_bound: "be_value bs < 256 ^ length bs"
proof (induction bs rule: rev_induct)
  case Nil
  then show ?case by simp
next
  case (snoc b bs)
  have "unat b < 256" using unsigned_less [of b] by simp
  moreover have "be_value bs + 1 \<le> 256 ^ length bs" using snoc by simp
  then have "(be_value bs + 1) * 256 \<le> 256 ^ length bs * 256" by (rule mult_le_mono1)
  ultimately show ?case by (simp add: be_value_snoc)
qed

text \<open>\<open>u64::to_be_bytes\<close>.\<close>

definition u64_to_be_bytes :: "u64 \<Rightarrow> u8 list" where
  "u64_to_be_bytes v = map (\<lambda>i. ucast (drop_bit (8 * i) v)) [7, 6, 5, 4, 3, 2, 1, 0]"

lemma length_u64_to_be_bytes [simp]: "length (u64_to_be_bytes v) = 8"
  by (simp add: u64_to_be_bytes_def)

subsection \<open>Text\<close>

text \<open>Decimal rendering, as \<open>format!("{}")\<close> prints an unsigned integer.\<close>

definition digit_char :: "nat \<Rightarrow> char" where
  "digit_char d = ''0123456789'' ! d"

fun dec_string :: "nat \<Rightarrow> string" where
  "dec_string n = (if n < 10 then [digit_char n] else dec_string (n div 10) @ [digit_char (n mod 10)])"

declare dec_string.simps [simp del]

text \<open>Dotted names: \<open>format!("\{\}.\{\}", prefix, name)\<close>.\<close>

definition dotted :: "string \<Rightarrow> string \<Rightarrow> string" where
  "dotted p n = p @ ''.'' @ n"

subsection \<open>Lists\<close>

lemma nth_append_prefix: "i < length xs \<Longrightarrow> (xs @ ys) ! i = xs ! i"
  by (simp add: nth_append)

lemma take_append_prefix: "n \<le> length xs \<Longrightarrow> take n (xs @ ys) = take n xs"
  by simp

lemma drop_take_append:
  "p + n \<le> length xs \<Longrightarrow> take n (drop p (xs @ ys)) = take n (drop p xs)"
  by simp

end
