(* ===== verification/Hash_Map.thy ===== *)
theory Hash_Map
  imports Prelude
begin

text \<open>
  The contract of \<open>std::collections::HashMap\<close> that the runtime's components use
  (\<open>get\<close>, \<open>insert\<close>, \<open>remove\<close>, iteration), as a locale, and its model: an
  association list with distinct keys, which is the map's content in some iteration order.
  Only lookups and the entry set are used by the clients' lemmas, never the order.
\<close>

locale hash_map =
  fixes get :: "'m \<Rightarrow> 'k \<Rightarrow> 'v option"
    and put :: "'k \<Rightarrow> 'v \<Rightarrow> 'm \<Rightarrow> 'm"
    and del :: "'k \<Rightarrow> 'm \<Rightarrow> 'm"
    and entries :: "'m \<Rightarrow> ('k \<times> 'v) list"
    and inv :: "'m \<Rightarrow> bool"
  assumes get_put: "get (put k v m) k' = (if k' = k then Some v else get m k')"
    and get_del: "get (del k m) k' = (if k' = k then None else get m k')"
    and inv_put: "inv m \<Longrightarrow> inv (put k v m)"
    and inv_del: "inv m \<Longrightarrow> inv (del k m)"
    and distinct_entries: "inv m \<Longrightarrow> distinct (map fst (entries m))"
    and entries_get: "inv m \<Longrightarrow> (k, v) \<in> set (entries m) \<longleftrightarrow> get m k = Some v"
begin

text \<open>A loop of insertions (\<open>for (k, v) in kvs \{ m.insert(k, v); \}\<close>).\<close>

definition put_all :: "('k \<times> 'v) list \<Rightarrow> 'm \<Rightarrow> 'm" where
  "put_all kvs m = fold (\<lambda>(k, v). put k v) kvs m"

lemma get_put_all:
  "get (put_all kvs m) k = (case map_of (rev kvs) k of Some v \<Rightarrow> Some v | None \<Rightarrow> get m k)"
proof (induction kvs arbitrary: m)
  case Nil
  then show ?case by (simp add: put_all_def)
next
  case (Cons kv kvs)
  obtain k' v' where "kv = (k', v')" by force
  moreover have "put_all (kv # kvs) m = put_all kvs (put k' v' m)"
    by (simp add: put_all_def \<open>kv = (k', v')\<close>)
  ultimately show ?case
    using Cons by (auto simp: get_put map_add_def split: option.splits)
qed

lemma inv_put_all: "inv m \<Longrightarrow> inv (put_all kvs m)"
  by (induction kvs arbitrary: m) (auto simp: put_all_def inv_put)

lemma length_entries: "inv m \<Longrightarrow> length (entries m) = card {k. get m k \<noteq> None}"
proof -
  assume i: "inv m"
  have "{k. get m k \<noteq> None} = fst ` set (entries m)"
    using entries_get [OF i] by (force simp: image_iff)
  moreover have "card (fst ` set (entries m)) = length (entries m)"
    using distinct_entries [OF i] by (metis distinct_card length_map set_map)
  ultimately show ?thesis by simp
qed

lemma get_None_iff: "inv m \<Longrightarrow> get m k = None \<longleftrightarrow> k \<notin> fst ` set (entries m)"
  using entries_get [of m k] by (cases "get m k") (force simp: image_iff)+

end

type_synonym ('k, 'v) hmap = "('k \<times> 'v) list"

definition hm_get :: "('k, 'v) hmap \<Rightarrow> 'k \<Rightarrow> 'v option" where
  "hm_get m k = map_of m k"

definition hm_put :: "'k \<Rightarrow> 'v \<Rightarrow> ('k, 'v) hmap \<Rightarrow> ('k, 'v) hmap" where
  "hm_put k v m = AList.update k v m"

definition hm_del :: "'k \<Rightarrow> ('k, 'v) hmap \<Rightarrow> ('k, 'v) hmap" where
  "hm_del k m = AList.delete k m"

definition hm_inv :: "('k, 'v) hmap \<Rightarrow> bool" where
  "hm_inv m \<longleftrightarrow> distinct (map fst m)"

interpretation hm: hash_map hm_get hm_put hm_del "\<lambda>m. m" hm_inv
proof (unfold_locales, goal_cases)
  case (1 k v m k')
  then show ?case by (simp add: hm_get_def hm_put_def update_conv')
next
  case (2 k m k')
  then show ?case by (simp add: hm_get_def hm_del_def delete_conv')
next
  case (3 m k v)
  then show ?case by (simp add: hm_inv_def hm_put_def distinct_update)
next
  case (4 m k)
  then show ?case by (simp add: hm_inv_def hm_del_def distinct_delete)
next
  case (5 m)
  then show ?case by (simp add: hm_inv_def)
next
  case (6 m k v)
  then show ?case by (simp add: hm_inv_def hm_get_def map_of_eq_Some_iff)
qed

text \<open>The executable form of the locale's loop of insertions.\<close>

definition hm_put_all :: "('k \<times> 'v) list \<Rightarrow> ('k, 'v) hmap \<Rightarrow> ('k, 'v) hmap" where
  "hm_put_all kvs m = fold (\<lambda>(k, v). hm_put k v) kvs m"

lemma hm_put_all_eq: "hm_put_all = hm.put_all"
  by (intro ext) (simp add: hm_put_all_def hm.put_all_def)

lemmas hm_get_put_all = hm.get_put_all [folded hm_put_all_eq]
lemmas hm_inv_put_all = hm.inv_put_all [folded hm_put_all_eq]

definition hm_contains :: "('k, 'v) hmap \<Rightarrow> 'k \<Rightarrow> bool" where
  "hm_contains m k = (hm_get m k \<noteq> None)"

lemmas hm_get_put [simp, map_simps] = hm.get_put
lemmas hm_get_del [simp, map_simps] = hm.get_del

lemma hm_get_Nil [simp, map_simps]: "hm_get [] k = None"
  by (simp add: hm_get_def)

lemma hm_inv_Nil [simp]: "hm_inv []"
  by (simp add: hm_inv_def)

lemma hm_contains_iff: "hm_inv m \<Longrightarrow> hm_contains m k \<longleftrightarrow> k \<in> fst ` set m"
  using hm.get_None_iff [of m k] by (simp add: hm_contains_def)

lemma hm_put_length: "length (hm_put k v m) = (if hm_contains m k then length m else Suc (length m))"
proof -
  have "hm_contains m k \<longleftrightarrow> k \<in> fst ` set m"
    by (auto simp: hm_contains_def hm_get_def map_of_eq_None_iff)
  moreover have "length (AList.update k v m) = (if k \<in> fst ` set m then length m else Suc (length m))"
    by (induction m) auto
  ultimately show ?thesis by (simp add: hm_put_def)
qed

lemma hm_del_length: "hm_inv m \<Longrightarrow> hm_contains m k \<Longrightarrow> Suc (length (hm_del k m)) = length m"
proof (induction m)
  case Nil
  then show ?case by (simp add: hm_contains_def)
next
  case (Cons kv m)
  obtain k' v' where kv: "kv = (k', v')" by force
  show ?case
  proof (cases "k' = k")
    case True
    with Cons.prems kv have "k \<notin> fst ` set m" by (auto simp: hm_inv_def)
    then have "hm_del k m = m" by (simp add: hm_del_def delete_id)
    with kv True show ?thesis by (simp add: hm_del_def)
  next
    case False
    with Cons kv show ?thesis
      by (auto simp: hm_inv_def hm_contains_def hm_get_def hm_del_def)
  qed
qed

text \<open>What an insertion or a lookup says of the entries.\<close>

lemma hm_put_entries: "kv \<in> set (hm_put k v m) \<Longrightarrow> kv = (k, v) \<or> kv \<in> set m"
  unfolding hm_put_def by (induction m) (auto split: if_splits)

lemma hm_get_entry: "hm_get m k = Some v \<Longrightarrow> (k, v) \<in> set m"
  by (simp add: hm_get_def map_of_SomeD)

lemma hm_inv_map: "hm_inv (map (\<lambda>(k, v). (k, f k v)) m) = hm_inv m"
  by (simp add: hm_inv_def comp_def case_prod_unfold)

lemma hm_get_map: "hm_get (map (\<lambda>(k, v). (k, f v)) m) k = map_option f (hm_get m k)"
  by (induction m) (auto simp: hm_get_def)

end
