(* ===== verification/Bytecode.thy ===== *)
theory Bytecode
  imports Hash_Map
begin

text \<open>
  The bytecode program IR and its interpreter (crates/nfdl-bytecode/src/lib.rs): the
  instruction set, the VM state, one definition per instruction, the interpreter loop and
  its three entry points (\<open>run\<close>, \<open>run_stream\<close>, \<open>resume\<close>).

  A \<open>u16\<close> slot index or jump target is a \<open>nat\<close> below \<open>65536\<close>; a slot value is a
  \<open>64 word\<close>; \<open>usize\<close> cursors are \<open>nat\<close> with the overflow of every addition that
  can overflow written out (\<open>usize_add\<close>). A panic (slot index out of range, arithmetic
  overflow in the dev profile, inverted slice bounds) is the outcome \<open>Panicked\<close>. Since
  the interpreter works on \<open>&mut self\<close>, the VM is returned with every outcome.
\<close>

subsection \<open>Errors, limits, instructions\<close>

datatype bytecode_error = Constraint string | LimitExceeded string

record limits =
  max_instructions :: nat
  max_loop_iterations :: nat

definition limits_default :: limits where
  "limits_default = \<lparr>max_instructions = 100000, max_loop_iterations = 10000\<rparr>"

datatype bytecode_bin_op =
    BAdd | BSub | BMul | BDiv | BMod | BEq | BNe | BGt | BLt | BGe | BLe | BAnd | BOr
  | BBitAnd | BBitOr | BBitXor | BShl | BShr

datatype bytecode_unary_op = BNot | BBitNot | BNeg

datatype instruction =
    ReadU8 nat
  | ReadU16 nat bool
  | ReadU24 nat bool
  | ReadU32 nat bool
  | ReadSlice nat nat
  | ReadBits nat nat
  | ReadRest string nat
  | Validate nat string
  | EmitField string nat
  | LoadConst u64 nat
  | BinOp bytecode_bin_op nat nat nat
  | UnaryOp bytecode_unary_op nat nat
  | CopySlot nat nat
  | UpdateOffset nat
  | Jump nat
  | JumpIfZero nat nat
  | Return

record bytecode_program =
  instructions :: "instruction list"
  slot_count :: nat

subsection \<open>The VM state\<close>

record vm =
  slots :: "u64 list"
  slot_touched :: "bool list"
  input :: "u8 list"
  input_pos :: nat
  bit_offset :: nat
  lims :: limits
  instructions_executed :: nat
  loop_iterations :: nat
  emitted :: "(string \<times> u64) list"
  rest_starts :: "(string \<times> nat) list"

text \<open>\<open>VmContinuation\<close>: the frozen VM with the pending instruction and the byte hint.\<close>

record vm_continuation =
  k_slots :: "u64 list"
  k_slot_touched :: "bool list"
  k_input :: "u8 list"
  k_input_pos :: nat
  k_bit_offset :: nat
  k_ip :: nat
  k_instructions_executed :: nat
  k_loop_iterations :: nat
  k_emitted :: "(string \<times> u64) list"
  k_rest_starts :: "(string \<times> nat) list"
  k_limits :: limits
  bytes_needed :: nat

datatype vm_outcome =
    Complete
  | NeedMoreBytes vm_continuation
  | Failed bytecode_error
  | Panicked

definition vm_with_limits :: "nat \<Rightarrow> limits \<Rightarrow> vm" where
  "vm_with_limits n l =
     \<lparr>slots = replicate (max n 32) 0, slot_touched = replicate (max n 32) False,
      input = [], input_pos = 0, bit_offset = 0, lims = l, instructions_executed = 0,
      loop_iterations = 0, emitted = [], rest_starts = []\<rparr>"

definition vm_new :: "nat \<Rightarrow> vm" where
  "vm_new n = vm_with_limits n limits_default"

definition load_input :: "u8 list \<Rightarrow> vm \<Rightarrow> vm" where
  "load_input data v = v\<lparr>input := data, input_pos := 0, bit_offset := 0\<rparr>"

definition append_input :: "u8 list \<Rightarrow> vm \<Rightarrow> vm" where
  "append_input extra v = v\<lparr>input := input v @ extra\<rparr>"

definition get_slot :: "vm \<Rightarrow> nat \<Rightarrow> u64" where
  "get_slot v s = (if s < length (slots v) then slots v ! s else 0)"

definition set_slot :: "nat \<Rightarrow> u64 \<Rightarrow> vm \<Rightarrow> vm" where
  "set_slot s x v = (if s < length (slots v) then v\<lparr>slots := (slots v)[s := x]\<rparr> else v)"

definition write_slot :: "nat \<Rightarrow> u64 \<Rightarrow> vm \<Rightarrow> vm" where
  "write_slot s x v =
     (if s < length (slots v)
      then v\<lparr>slots := (slots v)[s := x], slot_touched := (slot_touched v)[s := True]\<rparr> else v)"

definition is_slot_touched :: "vm \<Rightarrow> nat \<Rightarrow> bool" where
  "is_slot_touched v s = (s < length (slot_touched v) \<and> slot_touched v ! s)"

definition current_offset :: "vm \<Rightarrow> nat" where
  "current_offset v = input_pos v"

definition input_len :: "vm \<Rightarrow> nat" where
  "input_len v = length (input v)"

text \<open>\<open>self.slots[s as usize]\<close>; \<open>None\<close> is the index panic.\<close>

definition read_slot :: "vm \<Rightarrow> nat \<Rightarrow> u64 option" where
  "read_slot v s = (if s < length (slots v) then Some (slots v ! s) else None)"

definition consumed :: "vm_continuation \<Rightarrow> nat" where
  "consumed c = k_input_pos c"

subsection \<open>Reading from the input\<close>

text \<open>
  \<open>read_bytes::<N>\<close>. The outer \<open>None\<close> is a panic: overflow of \<open>pos + N\<close> in the
  dev profile, inverted slice bounds after the sum wrapped in the release profile.
\<close>

definition read_bytes :: "bool \<Rightarrow> vm \<Rightarrow> nat \<Rightarrow> nat \<Rightarrow> u8 list option option" where
  "read_bytes chk v n pos =
     (case usize_add chk pos n of
        None \<Rightarrow> None
      | Some e \<Rightarrow>
          if e \<le> length (input v)
          then (if pos \<le> e then Some (Some (take (e - pos) (drop pos (input v)))) else None)
          else Some None)"

definition align_to_byte :: "vm \<Rightarrow> vm" where
  "align_to_byte v =
     (if bit_offset v \<noteq> 0 then v\<lparr>input_pos := Suc (input_pos v), bit_offset := 0\<rparr> else v)"

definition bits_remaining :: "vm \<Rightarrow> nat" where
  "bits_remaining v =
     (if length (input v) \<le> input_pos v then 0
      else (8 - bit_offset v) + (length (input v) - input_pos v - 1) * 8)"

text \<open>One iteration's \<open>value\<close>: append the next \<open>tk\<close> of the \<open>avail\<close> unread bits of \<open>byte\<close>.\<close>

definition bits_step :: "u8 \<Rightarrow> nat \<Rightarrow> nat \<Rightarrow> u64 \<Rightarrow> u64" where
  "bits_step byte avail tk value =
     (let mask = (push_bit tk 1 - 1 :: 16 word);
          extracted = (ucast (drop_bit (avail - tk) byte) :: 16 word) AND mask
      in push_bit tk value OR ucast extracted)"

text \<open>
  The \<open>while remaining > 0\<close> loop of \<open>read_bits\<close> over (value, input_pos, bit_offset).
  The third stop condition never holds: \<open>bit_offset < 8\<close> is an invariant of the VM
  (\<open>vm_wf\<close> below).
\<close>

function read_bits_loop :: "u8 list \<Rightarrow> nat \<Rightarrow> u64 \<Rightarrow> nat \<Rightarrow> nat \<Rightarrow> u64 \<times> nat \<times> nat" where
  "read_bits_loop inp remaining value pos off =
     (if remaining = 0 \<or> length inp \<le> pos \<or> 8 \<le> off then (value, pos, off)
      else
        let tk = min (8 - off) remaining;
            value' = bits_step (inp ! pos) (8 - off) tk value
        in if off + tk = 8 then read_bits_loop inp (remaining - tk) value' (Suc pos) 0
           else read_bits_loop inp (remaining - tk) value' pos (off + tk))"
  by pat_completeness auto
termination
  by (relation "measure (\<lambda>(inp, remaining, value, pos, off). remaining)") auto

declare read_bits_loop.simps [simp del]

lemma read_bits_loop_stop:
  "remaining = 0 \<or> length inp \<le> pos \<or> 8 \<le> off \<Longrightarrow>
   read_bits_loop inp remaining value pos off = (value, pos, off)"
  by (simp add: read_bits_loop.simps)

lemma read_bits_loop_more:
  assumes "\<not> (remaining = 0 \<or> length inp \<le> pos \<or> 8 \<le> off)" "tk = min (8 - off) remaining"
  shows "read_bits_loop inp remaining value pos off =
     (if off + tk = 8
      then read_bits_loop inp (remaining - tk) (bits_step (inp ! pos) (8 - off) tk value) (Suc pos) 0
      else read_bits_loop inp (remaining - tk) (bits_step (inp ! pos) (8 - off) tk value) pos (off + tk))"
  using assms by (subst read_bits_loop.simps) (simp only: if_False Let_def)

definition read_bits :: "nat \<Rightarrow> vm \<Rightarrow> u64 \<times> vm" where
  "read_bits bits v =
     (case read_bits_loop (input v) bits 0 (input_pos v) (bit_offset v) of
        (value, pos, off) \<Rightarrow> (value, v\<lparr>input_pos := pos, bit_offset := off\<rparr>))"

subsection \<open>Suspension\<close>

definition snapshot :: "vm \<Rightarrow> nat \<Rightarrow> nat \<Rightarrow> vm_continuation" where
  "snapshot v ip needed =
     \<lparr>k_slots = slots v, k_slot_touched = slot_touched v, k_input = input v,
      k_input_pos = input_pos v, k_bit_offset = bit_offset v, k_ip = ip,
      k_instructions_executed = instructions_executed v,
      k_loop_iterations = loop_iterations v, k_emitted = emitted v,
      k_rest_starts = rest_starts v, k_limits = lims v, bytes_needed = needed\<rparr>"

definition restore :: "vm_continuation \<Rightarrow> vm" where
  "restore c =
     \<lparr>slots = k_slots c, slot_touched = k_slot_touched c, input = k_input c,
      input_pos = k_input_pos c, bit_offset = k_bit_offset c, lims = k_limits c,
      instructions_executed = k_instructions_executed c,
      loop_iterations = k_loop_iterations c, emitted = k_emitted c,
      rest_starts = k_rest_starts c\<rparr>"

subsection \<open>Operators\<close>

fun unary_value :: "bytecode_unary_op \<Rightarrow> u64 \<Rightarrow> u64" where
  "unary_value BNot v = (if v = 0 then 1 else 0)"
| "unary_value BBitNot v = NOT v"
| "unary_value BNeg v = 0 - v"

fun binop_value :: "bool \<Rightarrow> bytecode_bin_op \<Rightarrow> u64 \<Rightarrow> u64 \<Rightarrow> u64 option" where
  "binop_value chk BAdd l r = u64_add chk l r"
| "binop_value chk BSub l r = Some (u64_saturating_sub l r)"
| "binop_value chk BMul l r = u64_mul chk l r"
| "binop_value chk BDiv l r = Some (if r = 0 then 0 else l div r)"
| "binop_value chk BMod l r = Some (if r = 0 then 0 else l mod r)"
| "binop_value chk BEq l r = Some (of_bool64 (l = r))"
| "binop_value chk BNe l r = Some (of_bool64 (l \<noteq> r))"
| "binop_value chk BGt l r = Some (of_bool64 (r < l))"
| "binop_value chk BLt l r = Some (of_bool64 (l < r))"
| "binop_value chk BGe l r = Some (of_bool64 (r \<le> l))"
| "binop_value chk BLe l r = Some (of_bool64 (l \<le> r))"
| "binop_value chk BAnd l r = Some (of_bool64 (l \<noteq> 0 \<and> r \<noteq> 0))"
| "binop_value chk BOr l r = Some (of_bool64 (l \<noteq> 0 \<or> r \<noteq> 0))"
| "binop_value chk BBitAnd l r = Some (l AND r)"
| "binop_value chk BBitOr l r = Some (l OR r)"
| "binop_value chk BBitXor l r = Some (l XOR r)"
| "binop_value chk BShl l r = u64_shl chk l r"
| "binop_value chk BShr l r = u64_shr chk l r"

subsection \<open>One instruction\<close>

text \<open>What executing one instruction does: go on at an instruction pointer, or stop.\<close>

datatype vm_step = Goto vm nat | Stop vm vm_outcome

text \<open>The match arms that read a slot and write one go on at the next instruction.\<close>

definition exec_unary :: "nat \<Rightarrow> bytecode_unary_op \<Rightarrow> nat \<Rightarrow> nat \<Rightarrow> vm \<Rightarrow> vm_step" where
  "exec_unary ip op src dst v =
     (case read_slot v src of
        None \<Rightarrow> Stop v Panicked
      | Some x \<Rightarrow> Goto (write_slot dst (unary_value op x) v) (Suc ip))"

definition exec_copy :: "nat \<Rightarrow> nat \<Rightarrow> nat \<Rightarrow> vm \<Rightarrow> vm_step" where
  "exec_copy ip src dst v =
     (case read_slot v src of
        None \<Rightarrow> Stop v Panicked
      | Some x \<Rightarrow> Goto (write_slot dst x v) (Suc ip))"

definition exec_binop ::
    "bool \<Rightarrow> nat \<Rightarrow> bytecode_bin_op \<Rightarrow> nat \<Rightarrow> nat \<Rightarrow> nat \<Rightarrow> vm \<Rightarrow> vm_step" where
  "exec_binop chk ip op l r dst v =
     (case read_slot v l of
        None \<Rightarrow> Stop v Panicked
      | Some x \<Rightarrow>
          (case read_slot v r of
             None \<Rightarrow> Stop v Panicked
           | Some y \<Rightarrow>
               (case binop_value chk op x y of
                  None \<Rightarrow> Stop v Panicked
                | Some z \<Rightarrow> Goto (write_slot dst z v) (Suc ip))))"

definition exec_read_u8 :: "bool \<Rightarrow> nat \<Rightarrow> nat \<Rightarrow> vm \<Rightarrow> vm_step" where
  "exec_read_u8 stream ip slot v0 =
     (let v = align_to_byte v0 in
      if input_pos v < length (input v)
      then Goto ((write_slot slot (ucast (input v ! input_pos v)) v)
                   \<lparr>input_pos := Suc (input_pos v)\<rparr>) (Suc ip)
      else if stream then Stop v (NeedMoreBytes (snapshot v ip 1))
      else Goto (write_slot slot 0 v) (Suc ip))"

text \<open>The arms of \<open>ReadU16\<close>, \<open>ReadU24\<close>, \<open>ReadU32\<close> differ in the width only.\<close>

definition exec_read_uint :: "bool \<Rightarrow> bool \<Rightarrow> nat \<Rightarrow> nat \<Rightarrow> nat \<Rightarrow> bool \<Rightarrow> vm \<Rightarrow> vm_step" where
  "exec_read_uint chk stream n ip slot le v0 =
     (let v = align_to_byte v0 in
      case read_bytes chk v n (input_pos v) of
        None \<Rightarrow> Stop v Panicked
      | Some (Some b) \<Rightarrow>
          Goto ((write_slot slot (of_nat (if le then le_value b else be_value b)) v)
                  \<lparr>input_pos := input_pos v + n\<rparr>) (Suc ip)
      | Some None \<Rightarrow>
          if stream
          then let have_bytes = length (input v) - input_pos v
               in Stop v (NeedMoreBytes (snapshot v ip (max (n - have_bytes) 1)))
          else Goto (write_slot slot 0 v) (Suc ip))"

text \<open>The \<open>for i in 0..len.min(8)\<close> loop of \<open>ReadSlice\<close>; \<open>None\<close> is a panic.\<close>

fun slice_value :: "bool \<Rightarrow> u8 list \<Rightarrow> nat \<Rightarrow> nat list \<Rightarrow> u64 \<Rightarrow> u64 option" where
  "slice_value chk inp pos [] value = Some value"
| "slice_value chk inp pos (i # is) value =
     (case usize_add chk pos i of
        None \<Rightarrow> None
      | Some j \<Rightarrow>
          slice_value chk inp pos is
            (if j < length inp then push_bit 8 value OR ucast (inp ! j) else value))"

definition slice_len :: "bool \<Rightarrow> nat \<Rightarrow> vm \<Rightarrow> nat option" where
  "slice_len chk len_slot v =
     (if len_slot = 65535
      then map_option (\<lambda>d. min d 16) (usize_sub chk (length (input v)) (input_pos v))
      else Some (if len_slot < length (slots v) then unat (slots v ! len_slot) else 0))"

definition exec_read_slice :: "bool \<Rightarrow> bool \<Rightarrow> nat \<Rightarrow> nat \<Rightarrow> nat \<Rightarrow> vm \<Rightarrow> vm_step" where
  "exec_read_slice chk stream ip len_slot dst v0 =
     (let v = align_to_byte v0 in
      case slice_len chk len_slot v of
        None \<Rightarrow> Stop v Panicked
      | Some len \<Rightarrow>
          (case (if stream \<and> len_slot \<noteq> 65535
                 then map_option (\<lambda>e. length (input v) < e) (usize_add chk (input_pos v) len)
                 else Some False) of
             None \<Rightarrow> Stop v Panicked
           | Some True \<Rightarrow>
               let have_bytes = length (input v) - input_pos v
               in Stop v (NeedMoreBytes (snapshot v ip (max (len - have_bytes) 1)))
           | Some False \<Rightarrow>
               (case slice_value chk (input v) (input_pos v) [0..<min len 8] 0 of
                  None \<Rightarrow> Stop v Panicked
                | Some value \<Rightarrow>
                    (case usize_add chk (input_pos v) len of
                       None \<Rightarrow> Stop (write_slot dst value v) Panicked
                     | Some p \<Rightarrow> Goto ((write_slot dst value v)\<lparr>input_pos := p\<rparr>) (Suc ip)))))"

definition exec_read_bits :: "bool \<Rightarrow> nat \<Rightarrow> nat \<Rightarrow> nat \<Rightarrow> vm \<Rightarrow> vm_step" where
  "exec_read_bits stream ip bits slot v =
     (if stream \<and> bits_remaining v < bits
      then let missing = bits - bits_remaining v
           in Stop v (NeedMoreBytes (snapshot v ip (max ((missing + 7) div 8) 1)))
      else case read_bits bits v of (value, v') \<Rightarrow> Goto (write_slot slot value v') (Suc ip))"

definition exec_read_rest :: "nat \<Rightarrow> string \<Rightarrow> nat \<Rightarrow> vm \<Rightarrow> vm_step" where
  "exec_read_rest ip name slot v0 =
     (let v = align_to_byte v0;
          before = input_pos v;
          remaining = length (input v) - input_pos v;
          w = write_slot slot (of_nat remaining) v
      in Goto (w\<lparr>input_pos := length (input v), rest_starts := rest_starts v @ [(name, before)]\<rparr>)
           (Suc ip))"

definition exec_validate :: "nat \<Rightarrow> nat \<Rightarrow> string \<Rightarrow> vm \<Rightarrow> vm_step" where
  "exec_validate ip pred_slot message v =
     (case read_slot v pred_slot of
        None \<Rightarrow> Stop v Panicked
      | Some p \<Rightarrow> if p = 0 then Stop v (Failed (Constraint message)) else Goto v (Suc ip))"

definition exec_emit_field :: "nat \<Rightarrow> string \<Rightarrow> nat \<Rightarrow> vm \<Rightarrow> vm_step" where
  "exec_emit_field ip name slot v =
     (case read_slot v slot of
        None \<Rightarrow> Stop v Panicked
      | Some x \<Rightarrow> Goto (v\<lparr>emitted := emitted v @ [(name, x)]\<rparr>) (Suc ip))"

definition exec_jump_if_zero :: "nat \<Rightarrow> nat \<Rightarrow> nat \<Rightarrow> vm \<Rightarrow> vm_step" where
  "exec_jump_if_zero ip cond_slot target v =
     (case read_slot v cond_slot of
        None \<Rightarrow> Stop v Panicked
      | Some c \<Rightarrow>
          if c = 0
          then (if target < ip
                then let w = v\<lparr>loop_iterations := Suc (loop_iterations v)\<rparr>
                     in if max_loop_iterations (lims v) < loop_iterations w
                        then Stop w (Failed (LimitExceeded
                               (''exceeded max loop iterations ''
                                 @ dec_string (max_loop_iterations (lims v)))))
                        else Goto w target
                else Goto v target)
          else Goto v (Suc ip))"

fun exec_instr :: "bool \<Rightarrow> bool \<Rightarrow> nat \<Rightarrow> instruction \<Rightarrow> vm \<Rightarrow> vm_step" where
  "exec_instr chk stream ip (UnaryOp op src dst) v = exec_unary ip op src dst v"
| "exec_instr chk stream ip (CopySlot src dst) v = exec_copy ip src dst v"
| "exec_instr chk stream ip (ReadU8 slot) v = exec_read_u8 stream ip slot v"
| "exec_instr chk stream ip (ReadU16 slot le) v = exec_read_uint chk stream 2 ip slot le v"
| "exec_instr chk stream ip (ReadU24 slot le) v = exec_read_uint chk stream 3 ip slot le v"
| "exec_instr chk stream ip (ReadU32 slot le) v = exec_read_uint chk stream 4 ip slot le v"
| "exec_instr chk stream ip (ReadSlice len_slot dst) v =
     exec_read_slice chk stream ip len_slot dst v"
| "exec_instr chk stream ip (ReadBits bits slot) v = exec_read_bits stream ip bits slot v"
| "exec_instr chk stream ip (ReadRest name slot) v = exec_read_rest ip name slot v"
| "exec_instr chk stream ip (Validate p m) v = exec_validate ip p m v"
| "exec_instr chk stream ip (EmitField name slot) v = exec_emit_field ip name slot v"
| "exec_instr chk stream ip (LoadConst value dst) v = Goto (write_slot dst value v) (Suc ip)"
| "exec_instr chk stream ip (BinOp op l r dst) v = exec_binop chk ip op l r dst v"
| "exec_instr chk stream ip (UpdateOffset slot) v =
     Goto (write_slot slot (of_nat (input_pos v)) v) (Suc ip)"
| "exec_instr chk stream ip (Jump target) v = Goto v target"
| "exec_instr chk stream ip (JumpIfZero c target) v = exec_jump_if_zero ip c target v"
| "exec_instr chk stream ip Return v = Stop v Complete"

lemmas exec_defs = exec_unary_def exec_copy_def exec_binop_def exec_read_u8_def
  exec_read_uint_def exec_read_slice_def exec_read_bits_def exec_read_rest_def
  exec_validate_def exec_emit_field_def exec_jump_if_zero_def

subsection \<open>What an instruction leaves alone\<close>

lemma write_slot_frame [simp]:
  "input (write_slot s x v) = input v"
  "input_pos (write_slot s x v) = input_pos v"
  "bit_offset (write_slot s x v) = bit_offset v"
  "lims (write_slot s x v) = lims v"
  "instructions_executed (write_slot s x v) = instructions_executed v"
  "loop_iterations (write_slot s x v) = loop_iterations v"
  "emitted (write_slot s x v) = emitted v"
  "rest_starts (write_slot s x v) = rest_starts v"
  "length (slots (write_slot s x v)) = length (slots v)"
  "length (slot_touched (write_slot s x v)) = length (slot_touched v)"
  by (simp_all add: write_slot_def)

lemma align_frame [simp]:
  "slots (align_to_byte v) = slots v"
  "slot_touched (align_to_byte v) = slot_touched v"
  "input (align_to_byte v) = input v"
  "lims (align_to_byte v) = lims v"
  "bit_offset (align_to_byte v) = 0"
  "instructions_executed (align_to_byte v) = instructions_executed v"
  "loop_iterations (align_to_byte v) = loop_iterations v"
  "emitted (align_to_byte v) = emitted v"
  "rest_starts (align_to_byte v) = rest_starts v"
  by (simp_all add: align_to_byte_def)

lemma read_bits_frame:
  assumes "read_bits n v = (x, w)"
  shows "slots w = slots v \<and> slot_touched w = slot_touched v \<and> input w = input v
    \<and> lims w = lims v \<and> instructions_executed w = instructions_executed v
    \<and> loop_iterations w = loop_iterations v \<and> emitted w = emitted v \<and> rest_starts w = rest_starts v"
  using assms by (auto simp: read_bits_def split: prod.splits)

text \<open>
  The state an instruction leaves, whichever way it ends, in the fields no instruction
  writes: the input, the limits, the instruction counter and the sizes of the tables.
\<close>

fun step_vm :: "vm_step \<Rightarrow> vm" where
  "step_vm (Goto v ip) = v"
| "step_vm (Stop v out) = v"

lemma exec_frame:
  "input (step_vm (exec_instr chk stream ip i v)) = input v \<and>
   lims (step_vm (exec_instr chk stream ip i v)) = lims v \<and>
   instructions_executed (step_vm (exec_instr chk stream ip i v)) = instructions_executed v \<and>
   length (slots (step_vm (exec_instr chk stream ip i v))) = length (slots v) \<and>
   length (slot_touched (step_vm (exec_instr chk stream ip i v))) = length (slot_touched v)"
proof (cases i)
  case (ReadBits bits slot)
  obtain x w where "read_bits bits v = (x, w)" by force
  with read_bits_frame [OF this] ReadBits show ?thesis
    by (simp add: exec_read_bits_def Let_def)
qed (simp_all add: exec_defs Let_def split: option.split bool.split)

lemma exec_Goto_frame:
  assumes "exec_instr chk stream ip i v = Goto w ip'"
  shows "input w = input v" "lims w = lims v"
    "instructions_executed w = instructions_executed v"
    "length (slots w) = length (slots v)" "length (slot_touched w) = length (slot_touched v)"
  using exec_frame [of chk stream ip i v] assms by simp_all

lemma exec_Stop_frame:
  assumes "exec_instr chk stream ip i v = Stop w out"
  shows "input w = input v" "lims w = lims v"
    "instructions_executed w = instructions_executed v"
    "length (slots w) = length (slots v)" "length (slot_touched w) = length (slot_touched v)"
  using exec_frame [of chk stream ip i v] assms by simp_all

subsection \<open>The interpreter loop\<close>

text \<open>\<open>self.instructions_executed += 1\<close>, done before the instruction is dispatched.\<close>

definition tick :: "vm \<Rightarrow> vm" where
  "tick v = v\<lparr>instructions_executed := Suc (instructions_executed v)\<rparr>"

definition instruction_limit_error :: "vm \<Rightarrow> bytecode_error" where
  "instruction_limit_error v =
     LimitExceeded (''exceeded max instructions '' @ dec_string (max_instructions (lims v)))"

lemma tick_simps [simp]:
  "slots (tick v) = slots v" "slot_touched (tick v) = slot_touched v" "input (tick v) = input v"
  "input_pos (tick v) = input_pos v" "bit_offset (tick v) = bit_offset v" "lims (tick v) = lims v"
  "instructions_executed (tick v) = Suc (instructions_executed v)"
  "loop_iterations (tick v) = loop_iterations v" "emitted (tick v) = emitted v"
  "rest_starts (tick v) = rest_starts v"
  by (simp_all add: tick_def)

lemma exec_Goto_tick:
  assumes "exec_instr chk stream ip i (tick v) = Goto w ip'"
  shows "lims w = lims v \<and> instructions_executed w = Suc (instructions_executed v)"
  using exec_Goto_frame [OF assms] by simp

function interpret_vm ::
    "bool \<Rightarrow> instruction list \<Rightarrow> bool \<Rightarrow> nat \<Rightarrow> vm \<Rightarrow> vm \<times> vm_outcome" where
  "interpret_vm chk prog stream ip v =
     (if length prog \<le> ip then (v, Complete)
      else if max_instructions (lims v) < instructions_executed v
           then (v, Failed (instruction_limit_error v))
      else case exec_instr chk stream ip (prog ! ip) (tick v) of
             Goto w ip' \<Rightarrow> interpret_vm chk prog stream ip' w
           | Stop w out \<Rightarrow> (w, out))"
  by pat_completeness auto

text \<open>The instruction limit bounds every run: the loop terminates on every program.\<close>

termination
  by (relation "measure (\<lambda>(chk, prog, stream, ip, v).
        Suc (max_instructions (lims v)) - instructions_executed v)")
     (auto dest!: exec_Goto_tick)

declare interpret_vm.simps [simp del]

text \<open>\<open>BytecodeVm::run\<close> (datagram mode), \<open>run_stream\<close> and \<open>resume\<close>.\<close>

definition reset_counters :: "vm \<Rightarrow> vm" where
  "reset_counters v = v\<lparr>instructions_executed := 0, loop_iterations := 0\<rparr>"

definition run :: "bool \<Rightarrow> bytecode_program \<Rightarrow> vm \<Rightarrow> vm \<times> vm_outcome" where
  "run chk program v =
     (case interpret_vm chk (instructions program) False 0 (reset_counters v) of
        (w, NeedMoreBytes c) \<Rightarrow>
          (w, Failed (Constraint ''internal: datagram run yielded NeedMoreBytes''))
      | (w, out) \<Rightarrow> (w, out))"

definition run_stream :: "bool \<Rightarrow> bytecode_program \<Rightarrow> vm \<Rightarrow> vm \<times> vm_outcome" where
  "run_stream chk program v = interpret_vm chk (instructions program) True 0 (reset_counters v)"

definition resume ::
    "bool \<Rightarrow> vm_continuation \<Rightarrow> bytecode_program \<Rightarrow> u8 list \<Rightarrow> vm \<times> vm_outcome" where
  "resume chk c program extra =
     interpret_vm chk (instructions program) True (k_ip c) (append_input extra (restore c))"

end
