(* ===== verification/Stream_Machine.thy ===== *)
theory Stream_Machine
  imports Main
begin

text \<open>
  Suspendable machines: the interface between an incremental consumer (the bytecode
  interpreter in stream mode) and the code that feeds it one chunk at a time
  (\<open>resume\<close>). The three laws say what a step promises when more input arrives; from them
  follows, once and for all, that feeding in pieces computes what feeding at once does.
\<close>

datatype ('s, 'r) mstep = Cont 's | Done 'r | Wait 's

fun msteps :: "('s \<Rightarrow> ('s, 'r) mstep) \<Rightarrow> nat \<Rightarrow> 's \<Rightarrow> 's \<Rightarrow> bool" where
  "msteps step 0 s t = (s = t)"
| "msteps step (Suc n) s t = (\<exists>u. step s = Cont u \<and> msteps step n u t)"

text \<open>\<open>mhalts step n s x\<close>: after \<open>n\<close> continuing steps the machine stops with \<open>x\<close>.\<close>

definition mhalts :: "('s \<Rightarrow> ('s, 'r) mstep) \<Rightarrow> nat \<Rightarrow> 's \<Rightarrow> ('s, 'r) mstep \<Rightarrow> bool" where
  "mhalts step n s x \<longleftrightarrow> (\<exists>t. msteps step n s t \<and> step t = x \<and> (\<forall>u. x \<noteq> Cont u))"

lemma msteps_trans: "msteps step n s t \<Longrightarrow> msteps step m t u \<Longrightarrow> msteps step (n + m) s u"
  by (induction n arbitrary: s) auto

lemma mhalts_0: "step s = x \<Longrightarrow> (\<And>u. x \<noteq> Cont u) \<Longrightarrow> mhalts step 0 s x"
  by (auto simp: mhalts_def)

lemma mhalts_Suc: "step s = Cont t \<Longrightarrow> mhalts step n t x \<Longrightarrow> mhalts step (Suc n) s x"
  by (auto simp: mhalts_def)

lemma mhalts_SucD: "mhalts step (Suc n) s x \<Longrightarrow> \<exists>t. step s = Cont t \<and> mhalts step n t x"
  by (auto simp: mhalts_def)

lemma mhalts_unique: "mhalts step n s x \<Longrightarrow> mhalts step m s y \<Longrightarrow> n = m \<and> x = y"
proof (induction n arbitrary: s m)
  case 0
  then show ?case by (cases m) (auto simp: mhalts_def)
next
  case (Suc n)
  from Suc.prems(1) obtain u where u: "step s = Cont u" "mhalts step n u x"
    by (auto simp: mhalts_def)
  obtain m' where "m = Suc m'" "mhalts step m' u y"
  proof (cases m)
    case 0
    with Suc.prems(2) have "\<forall>v. step s \<noteq> Cont v" by (auto simp: mhalts_def)
    with u(1) show ?thesis by simp
  next
    case (Suc m')
    with Suc.prems(2) u(1) that show ?thesis by (auto simp: mhalts_def)
  qed
  with Suc.IH u(2) show ?case by blast
qed

locale suspendable =
  fixes step :: "'s \<Rightarrow> ('s, 'r) mstep"
    and feed :: "'d \<Rightarrow> 's \<Rightarrow> 's"
    and feed_result :: "'d \<Rightarrow> 'r \<Rightarrow> 'r"
    and ok :: "'s \<Rightarrow> bool"
  assumes step_Cont: "ok s \<Longrightarrow> step s = Cont t \<Longrightarrow> step (feed d s) = Cont (feed d t)"
    and step_Done: "ok s \<Longrightarrow> step s = Done r \<Longrightarrow> step (feed d s) = Done (feed_result d r)"
    and step_Wait: "ok s \<Longrightarrow> step s = Wait t \<Longrightarrow> step (feed d t) = step (feed d s)"
    and ok_step: "ok s \<Longrightarrow> step s = Cont t \<Longrightarrow> ok t"
    and ok_Wait: "ok s \<Longrightarrow> step s = Wait t \<Longrightarrow> ok t"
    and ok_feed: "ok s \<Longrightarrow> ok (feed d s)"
begin

text \<open>The same laws for a list of chunks.\<close>

definition feeds :: "'d list \<Rightarrow> 's \<Rightarrow> 's" where
  "feeds ds s = fold feed ds s"

lemma ok_feeds: "ok s \<Longrightarrow> ok (feeds ds s)"
  by (induction ds arbitrary: s) (auto simp: feeds_def ok_feed)

lemma feeds_Cont: "ok s \<Longrightarrow> step s = Cont t \<Longrightarrow> step (feeds ds s) = Cont (feeds ds t)"
proof (induction ds arbitrary: s t)
  case Nil
  then show ?case by (simp add: feeds_def)
next
  case (Cons d ds)
  have "step (feeds ds (feed d s)) = Cont (feeds ds (feed d t))"
    using Cons.IH [OF ok_feed [OF Cons.prems(1)] step_Cont [OF Cons.prems]] .
  then show ?case by (simp add: feeds_def)
qed

lemma feeds_Done:
  "ok s \<Longrightarrow> step s = Done r \<Longrightarrow> step (feeds ds s) = Done (fold feed_result ds r)"
proof (induction ds arbitrary: s r)
  case Nil
  then show ?case by (simp add: feeds_def)
next
  case (Cons d ds)
  have "step (feeds ds (feed d s)) = Done (fold feed_result ds (feed_result d r))"
    using Cons.IH [OF ok_feed [OF Cons.prems(1)] step_Done [OF Cons.prems]] .
  then show ?case by (simp add: feeds_def)
qed

text \<open>Two states that step alike keep stepping alike when fed alike.\<close>

lemma same_step_feed:
  assumes "ok s" "ok t" "step s = step t"
  shows "step (feed d s) = step (feed d t)"
proof (cases "step s")
  case (Cont u)
  then show ?thesis using assms step_Cont [of s u d] step_Cont [of t u d] by simp
next
  case (Done r)
  then show ?thesis using assms step_Done [of s r d] step_Done [of t r d] by simp
next
  case (Wait u)
  then show ?thesis using assms step_Wait [of s u d] step_Wait [of t u d] by simp
qed

lemma same_step_feeds:
  "ok s \<Longrightarrow> ok t \<Longrightarrow> step s = step t \<Longrightarrow> step (feeds ds s) = step (feeds ds t)"
proof (induction ds arbitrary: s t)
  case Nil
  then show ?case by (simp add: feeds_def)
next
  case (Cons d ds)
  from Cons.prems have "step (feed d s) = step (feed d t)" by (rule same_step_feed)
  with Cons.prems have "step (feeds ds (feed d s)) = step (feeds ds (feed d t))"
    by (intro Cons.IH ok_feed)
  then show ?case by (simp only: feeds_def fold.simps o_apply)
qed

lemma msteps_feeds: "ok s \<Longrightarrow> msteps step n s t \<Longrightarrow> msteps step n (feeds ds s) (feeds ds t)"
proof (induction n arbitrary: s)
  case 0
  then show ?case by simp
next
  case (Suc n)
  from Suc.prems(2) obtain u where u: "step s = Cont u" "msteps step n u t" by auto
  have "msteps step n (feeds ds u) (feeds ds t)"
    using Suc.IH [OF ok_step [OF Suc.prems(1) u(1)] u(2)] .
  moreover have "step (feeds ds s) = Cont (feeds ds u)"
    using Suc.prems(1) u(1) by (rule feeds_Cont)
  ultimately show ?case by auto
qed

lemma ok_msteps: "ok s \<Longrightarrow> msteps step n s t \<Longrightarrow> ok t"
proof (induction n arbitrary: s)
  case 0
  then show ?case by simp
next
  case (Suc n)
  from Suc.prems(2) obtain u where u: "step s = Cont u" "msteps step n u t" by auto
  show ?case using Suc.IH [OF ok_step [OF Suc.prems(1) u(1)] u(2)] .
qed

text \<open>Resuming a suspended run continues the run on the whole input.\<close>

lemma mhalts_resume:
  assumes "ok s" "mhalts step n s (Wait t)" "mhalts step m (feeds (d # ds) t) x"
  shows "mhalts step (n + m) (feeds (d # ds) s) x"
proof -
  from assms(2) obtain t0 where t0: "msteps step n s t0" "step t0 = Wait t"
    by (auto simp: mhalts_def)
  have ok0: "ok t0" using assms(1) t0(1) by (rule ok_msteps)
  have fed0: "msteps step n (feeds (d # ds) s) (feeds (d # ds) t0)"
    using assms(1) t0(1) by (rule msteps_feeds)
  have "step (feed d t) = step (feed d t0)" using step_Wait ok0 t0(2) by simp
  then have same: "step (feeds (d # ds) t) = step (feeds (d # ds) t0)"
    using same_step_feeds [of "feed d t" "feed d t0" ds] ok_feed ok0 ok_Wait t0(2)
    by (simp add: feeds_def)
  from assms(3) have "mhalts step m (feeds (d # ds) t0) x"
    using same by (cases m) (auto simp: mhalts_def)
  with fed0 show ?thesis by (auto simp: mhalts_def dest: msteps_trans)
qed

text \<open>A driver that feeds chunks while the machine waits; the count is of continuing steps.\<close>

inductive fed :: "'s \<Rightarrow> 'd list \<Rightarrow> nat \<Rightarrow> ('s, 'r) mstep \<Rightarrow> bool" where
  fed_stop: "mhalts step n s x \<Longrightarrow> fed s [] n x"
| fed_done: "mhalts step n s (Done r) \<Longrightarrow> fed s ds n (Done (fold feed_result ds r))"
| fed_more: "mhalts step n s (Wait t) \<Longrightarrow> fed (feed d t) ds m x \<Longrightarrow> fed s (d # ds) (n + m) x"

lemma mhalts_feeds_Done:
  assumes "ok s" "mhalts step n s (Done r)"
  shows "mhalts step n (feeds ds s) (Done (fold feed_result ds r))"
proof -
  from assms(2) obtain t where "msteps step n s t" "step t = Done r" by (auto simp: mhalts_def)
  with assms(1) have "msteps step n (feeds ds s) (feeds ds t)"
      "step (feeds ds t) = Done (fold feed_result ds r)"
    using msteps_feeds feeds_Done ok_msteps by blast+
  then show ?thesis by (auto simp: mhalts_def)
qed

text \<open>Chunked feeding computes what the whole input computes, in as many continuing steps.\<close>

lemma fed_whole: "fed s ds n x \<Longrightarrow> ok s \<Longrightarrow> mhalts step n (feeds ds s) x"
proof (induction rule: fed.induct)
  case (fed_stop n s x)
  then show ?case by (simp add: feeds_def)
next
  case (fed_done n s r ds)
  then show ?case by (simp add: mhalts_feeds_Done)
next
  case (fed_more n s t d ds m x)
  from fed_more.hyps(1) fed_more.prems have "ok t"
    by (auto simp: mhalts_def dest: ok_msteps intro: ok_Wait)
  then have "mhalts step m (feeds ds (feed d t)) x"
    using fed_more.IH ok_feed by simp
  then have "mhalts step m (feeds (d # ds) t) x" by (simp add: feeds_def)
  with fed_more.prems fed_more.hyps(1) show ?case by (rule mhalts_resume)
qed

end

end
