(* ===== verification/Bytecode_Stream.thy ===== *)
theory Bytecode_Stream
  imports Bytecode Stream_Machine
begin

text \<open>
  Stream mode: the interpreter as a suspendable machine. For programs without reads that
  depend on how much input has arrived (\<open>ReadRest\<close>, the \<open>u16::MAX\<close> form of
  \<open>ReadSlice\<close>), suspending and resuming is invisible but for the instruction counter.
\<close>

subsection \<open>The instruction counter is not observed by instructions\<close>

definition with_count :: "nat \<Rightarrow> vm \<Rightarrow> vm" where
  "with_count n v = v\<lparr>instructions_executed := n\<rparr>"

fun count_outcome :: "nat \<Rightarrow> vm_outcome \<Rightarrow> vm_outcome" where
  "count_outcome n (NeedMoreBytes c) = NeedMoreBytes (c\<lparr>k_instructions_executed := n\<rparr>)"
| "count_outcome n out = out"

fun count_step :: "nat \<Rightarrow> vm_step \<Rightarrow> vm_step" where
  "count_step n (Goto v ip) = Goto (with_count n v) ip"
| "count_step n (Stop v out) = Stop (with_count n v) (count_outcome n out)"

lemma with_count_simps [simp]:
  "slots (with_count n v) = slots v" "slot_touched (with_count n v) = slot_touched v"
  "input (with_count n v) = input v" "input_pos (with_count n v) = input_pos v"
  "bit_offset (with_count n v) = bit_offset v" "lims (with_count n v) = lims v"
  "instructions_executed (with_count n v) = n" "loop_iterations (with_count n v) = loop_iterations v"
  "emitted (with_count n v) = emitted v" "rest_starts (with_count n v) = rest_starts v"
  "with_count n (with_count m v) = with_count n v"
  "with_count (instructions_executed v) v = v"
  by (simp_all add: with_count_def)

lemma with_count_updates [simp]:
  "write_slot s x (with_count n v) = with_count n (write_slot s x v)"
  "align_to_byte (with_count n v) = with_count n (align_to_byte v)"
  "read_slot (with_count n v) s = read_slot v s"
  "bits_remaining (with_count n v) = bits_remaining v"
  "read_bytes chk (with_count n v) k p = read_bytes chk v k p"
  "slice_len chk s (with_count n v) = slice_len chk s v"
  "(with_count n v)\<lparr>input_pos := p\<rparr> = with_count n (v\<lparr>input_pos := p\<rparr>)"
  "(with_count n v)\<lparr>loop_iterations := k\<rparr> = with_count n (v\<lparr>loop_iterations := k\<rparr>)"
  "(with_count n v)\<lparr>emitted := es\<rparr> = with_count n (v\<lparr>emitted := es\<rparr>)"
  "(with_count n v)\<lparr>rest_starts := rs\<rparr> = with_count n (v\<lparr>rest_starts := rs\<rparr>)"
  "(with_count n v)\<lparr>input_pos := p, rest_starts := rs\<rparr>
     = with_count n (v\<lparr>input_pos := p, rest_starts := rs\<rparr>)"
  "(with_count n v)\<lparr>input_pos := p, bit_offset := k\<rparr>
     = with_count n (v\<lparr>input_pos := p, bit_offset := k\<rparr>)"
  "snapshot (with_count n v) ip k = (snapshot v ip k)\<lparr>k_instructions_executed := n\<rparr>"
  "append_input d (with_count n v) = with_count n (append_input d v)"
  by (simp_all add: with_count_def write_slot_def align_to_byte_def read_slot_def
      bits_remaining_def read_bytes_def slice_len_def snapshot_def append_input_def
      split: option.split)

lemma read_bits_with_count [simp]:
  "read_bits k (with_count n v) = map_prod id (with_count n) (read_bits k v)"
  by (simp add: read_bits_def split: prod.split)

lemma exec_with_count:
  "exec_instr chk stream ip i (with_count n v) = count_step n (exec_instr chk stream ip i v)"
proof (cases i)
  case (ReadBits bits slot)
  then show ?thesis by (simp add: exec_read_bits_def Let_def split: prod.split)
qed (simp_all add: exec_defs Let_def split: option.split bool.split)

subsection \<open>More input does not disturb an instruction that has enough\<close>

text \<open>Instructions whose effect does not depend on how much input lies beyond what they read.\<close>

fun stream_safe_instr :: "instruction \<Rightarrow> bool" where
  "stream_safe_instr (ReadRest name slot) = False"
| "stream_safe_instr (ReadSlice len_slot dst) = (len_slot \<noteq> 65535)"
| "stream_safe_instr i = True"

definition stream_safe :: "instruction list \<Rightarrow> bool" where
  "stream_safe prog = list_all stream_safe_instr prog"

lemma append_input_simps [simp]:
  "slots (append_input d v) = slots v" "slot_touched (append_input d v) = slot_touched v"
  "input (append_input d v) = input v @ d" "input_pos (append_input d v) = input_pos v"
  "bit_offset (append_input d v) = bit_offset v" "lims (append_input d v) = lims v"
  "instructions_executed (append_input d v) = instructions_executed v"
  "loop_iterations (append_input d v) = loop_iterations v"
  "emitted (append_input d v) = emitted v" "rest_starts (append_input d v) = rest_starts v"
  "append_input b (append_input a v) = append_input (a @ b) v"
  "append_input [] v = v"
  by (simp_all add: append_input_def)

lemma append_input_updates [simp]:
  "write_slot s x (append_input d v) = append_input d (write_slot s x v)"
  "align_to_byte (append_input d v) = append_input d (align_to_byte v)"
  "read_slot (append_input d v) s = read_slot v s"
  "(append_input d v)\<lparr>input_pos := p\<rparr> = append_input d (v\<lparr>input_pos := p\<rparr>)"
  "(append_input d v)\<lparr>loop_iterations := k\<rparr> = append_input d (v\<lparr>loop_iterations := k\<rparr>)"
  "(append_input d v)\<lparr>emitted := es\<rparr> = append_input d (v\<lparr>emitted := es\<rparr>)"
  "(append_input d v)\<lparr>input_pos := p, bit_offset := k\<rparr>
     = append_input d (v\<lparr>input_pos := p, bit_offset := k\<rparr>)"
  "tick (append_input d v) = append_input d (tick v)"
  by (simp_all add: append_input_def write_slot_def align_to_byte_def read_slot_def tick_def)

lemma align_idem [simp]: "align_to_byte (align_to_byte v) = align_to_byte v"
  by (simp add: align_to_byte_def)

lemma read_bytes_append:
  "read_bytes chk v n p = Some (Some b) \<Longrightarrow> read_bytes chk (append_input d v) n p = Some (Some b)"
  by (auto simp: read_bytes_def split: option.splits if_splits)

lemma read_bytes_append_panic:
  "read_bytes True v n p = None \<Longrightarrow> read_bytes True (append_input d v) n p = None"
  by (auto simp: read_bytes_def usize_add_def split: option.splits if_splits)

lemma slice_value_append:
  assumes "\<forall>i \<in> set is. pos + i < length inp"
  shows "slice_value True (inp @ d) pos is x = slice_value True inp pos is x"
  using assms
  by (induction "is" arbitrary: x)
    (auto simp: nth_append dest: usize_add_checked split: option.split)

lemma read_bits_loop_append:
  assumes "remaining \<le> (if length inp \<le> pos then 0 else (8 - off) + (length inp - pos - 1) * 8)"
  shows "read_bits_loop (inp @ d) remaining x pos off = read_bits_loop inp remaining x pos off"
  using assms
proof (induction inp remaining x pos off rule: read_bits_loop.induct)
  case (1 inp remaining x pos off)
  note unfold = read_bits_loop.simps [of "inp @ d" remaining x pos off]
    read_bits_loop.simps [of inp remaining x pos off]
  show ?case
  proof (cases "remaining = 0 \<or> length inp \<le> pos \<or> 8 \<le> off")
    case True
    with "1.prems" have "remaining = 0 \<or> 8 \<le> off" by (auto split: if_splits)
    then show ?thesis by (auto simp: unfold)
  next
    case False
    let ?tk = "min (8 - off) remaining"
    let ?x = "bits_step (inp ! pos) (8 - off) ?tk x"
    have "pos < length inp" "off < 8" using False by auto
    with False have eqs: "read_bits_loop (inp @ d) remaining x pos off =
          (if off + ?tk = 8 then read_bits_loop (inp @ d) (remaining - ?tk) ?x (Suc pos) 0
           else read_bits_loop (inp @ d) (remaining - ?tk) ?x pos (off + ?tk))"
        "read_bits_loop inp remaining x pos off =
          (if off + ?tk = 8 then read_bits_loop inp (remaining - ?tk) ?x (Suc pos) 0
           else read_bits_loop inp (remaining - ?tk) ?x pos (off + ?tk))"
      by (simp_all add: unfold Let_def nth_append)
    show ?thesis
    proof (cases "off + ?tk = 8")
      case True
      have "remaining - ?tk
          \<le> (if length inp \<le> Suc pos then 0 else (8 - 0) + (length inp - Suc pos - 1) * 8)"
        using "1.prems" True \<open>pos < length inp\<close> \<open>off < 8\<close> by (auto split: if_splits)
      then have "read_bits_loop (inp @ d) (remaining - ?tk) ?x (Suc pos) 0 =
          read_bits_loop inp (remaining - ?tk) ?x (Suc pos) 0"
        by (rule "1.IH"(1) [OF False refl refl True])
      with eqs True show ?thesis by simp
    next
      case neq: False
      then have "remaining - ?tk = 0" using \<open>off < 8\<close> by auto
      then have "remaining - ?tk \<le> (if length inp \<le> pos then 0
          else (8 - (off + ?tk)) + (length inp - pos - 1) * 8)" by simp
      then have "read_bits_loop (inp @ d) (remaining - ?tk) ?x pos (off + ?tk) =
          read_bits_loop inp (remaining - ?tk) ?x pos (off + ?tk)"
        by (rule "1.IH"(2) [OF False refl refl neq])
      with eqs neq show ?thesis by simp
    qed
  qed
qed

lemma read_bits_append:
  "k \<le> bits_remaining v \<Longrightarrow> read_bits k (append_input d v) = map_prod id (append_input d) (read_bits k v)"
  by (simp add: read_bits_def bits_remaining_def read_bits_loop_append split: prod.split)

lemma bits_remaining_append: "bits_remaining v \<le> bits_remaining (append_input d v)"
  by (auto simp: bits_remaining_def)

subsection \<open>The three laws of a suspendable machine\<close>

text \<open>What appending input does to an outcome: suspended outcomes are out of its scope.\<close>

fun terminal :: "vm_outcome \<Rightarrow> bool" where
  "terminal (NeedMoreBytes c) = False"
| "terminal out = True"

lemma slice_read_append:
  assumes "\<not> length (input v) < e" "usize_add True (input_pos v) len = Some e"
  shows "slice_value True (input v @ d) (input_pos v) [0..<min len 8] 0
       = slice_value True (input v) (input_pos v) [0..<min len 8] 0"
  using assms by (intro slice_value_append) (auto dest: usize_add_checked)

lemma read_uint_append_Goto:
  assumes "exec_read_uint True True n ip slot le v = Goto w ip'"
  shows "exec_read_uint True True n ip slot le (append_input d v) = Goto (append_input d w) ip'"
  using assms
  by (auto simp: exec_read_uint_def Let_def read_bytes_append split: option.splits)

lemma read_uint_append_Stop:
  assumes "exec_read_uint True True n ip slot le v = Stop w out" "terminal out"
  shows "exec_read_uint True True n ip slot le (append_input d v) = Stop (append_input d w) out"
  using assms
  by (auto simp: exec_read_uint_def Let_def read_bytes_append_panic split: option.splits)

text \<open>The instructions that do not look at the input at all.\<close>

fun reads_input :: "instruction \<Rightarrow> bool" where
  "reads_input (ReadU8 slot) = True"
| "reads_input (ReadU16 slot le) = True"
| "reads_input (ReadU24 slot le) = True"
| "reads_input (ReadU32 slot le) = True"
| "reads_input (ReadSlice l dst) = True"
| "reads_input (ReadBits k slot) = True"
| "reads_input (ReadRest name slot) = True"
| "reads_input i = False"

fun append_step :: "u8 list \<Rightarrow> vm_step \<Rightarrow> vm_step" where
  "append_step d (Goto v ip) = Goto (append_input d v) ip"
| "append_step d (Stop v out) = Stop (append_input d v) out"

lemma exec_append_other:
  assumes "\<not> reads_input i"
  shows "exec_instr chk stream ip i (append_input d v) = append_step d (exec_instr chk stream ip i v)"
  using assms
  by (cases i) (simp_all add: exec_unary_def exec_copy_def exec_binop_def exec_validate_def
      exec_emit_field_def exec_jump_if_zero_def Let_def split: option.split)

lemma exec_append_Goto:
  assumes safe: "stream_safe_instr i" and g: "exec_instr True True ip i v = Goto w ip'"
  shows "exec_instr True True ip i (append_input d v) = Goto (append_input d w) ip'"
proof (cases "reads_input i")
  case False
  with g show ?thesis by (simp add: exec_append_other)
next
  case True
  then show ?thesis
  proof (cases i)
    case (ReadU8 slot)
    with g show ?thesis by (auto simp: exec_read_u8_def Let_def nth_append split: if_splits)
  next
    case (ReadSlice l dst)
    with safe g slice_read_append [of "align_to_byte v" _ _ d] show ?thesis
      by (auto simp: exec_read_slice_def Let_def slice_len_def
          split: option.splits bool.splits if_splits)
  next
    case (ReadBits k slot)
    with g read_bits_append [of k v d] bits_remaining_append [of v d] show ?thesis
      by (auto simp: exec_read_bits_def Let_def split: if_splits prod.splits)
  qed (use safe g in \<open>simp_all add: read_uint_append_Goto\<close>)
qed

lemma exec_append_Stop:
  assumes safe: "stream_safe_instr i" and g: "exec_instr True True ip i v = Stop w out"
    and t: "terminal out"
  shows "exec_instr True True ip i (append_input d v) = Stop (append_input d w) out"
proof (cases "reads_input i")
  case False
  with g show ?thesis by (simp add: exec_append_other)
next
  case True
  then show ?thesis
  proof (cases i)
    case (ReadU8 slot)
    with g t show ?thesis by (auto simp: exec_read_u8_def Let_def nth_append split: if_splits)
  next
    case (ReadSlice l dst)
    with safe g t slice_read_append [of "align_to_byte v" _ _ d] show ?thesis
      by (auto simp: exec_read_slice_def Let_def slice_len_def
          split: option.splits bool.splits if_splits)
  next
    case (ReadBits k slot)
    with g t read_bits_append [of k v d] bits_remaining_append [of v d] show ?thesis
      by (auto simp: exec_read_bits_def Let_def split: if_splits prod.splits)
  qed (use safe g t in \<open>simp_all add: read_uint_append_Stop\<close>)
qed

text \<open>A suspended instruction has only aligned the cursor, which re-execution does again.\<close>

lemma exec_after_align [simp]:
  "exec_read_u8 stream ip slot (align_to_byte v) = exec_read_u8 stream ip slot v"
  "exec_read_uint chk stream n ip slot le (align_to_byte v) = exec_read_uint chk stream n ip slot le v"
  "exec_read_slice chk stream ip l dst (align_to_byte v) = exec_read_slice chk stream ip l dst v"
  by (simp_all add: exec_read_u8_def exec_read_uint_def exec_read_slice_def)

lemma append_align: "append_input d (align_to_byte v) = align_to_byte (append_input d v)"
  by simp

lemma exec_Wait_state:
  assumes g: "exec_instr chk stream ip i v = Stop w (NeedMoreBytes c)"
  shows "c = snapshot w ip (bytes_needed c) \<and> stream \<and> w = (case i of ReadBits k slot \<Rightarrow> v | _ \<Rightarrow> align_to_byte v)"
proof (cases i)
  case (ReadU8 slot)
  with g show ?thesis by (auto simp: exec_read_u8_def Let_def snapshot_def split: if_splits)
next
  case (ReadSlice l dst)
  with g show ?thesis
    by (auto simp: exec_read_slice_def Let_def snapshot_def split: option.splits bool.splits if_splits)
next
  case (ReadBits k slot)
  with g show ?thesis
    by (auto simp: exec_read_bits_def Let_def snapshot_def split: if_splits prod.splits)
qed (use g in \<open>auto simp: exec_unary_def exec_copy_def exec_binop_def exec_validate_def
        exec_read_rest_def exec_read_uint_def snapshot_def
        exec_emit_field_def exec_jump_if_zero_def Let_def split: option.splits if_splits\<close>)

lemma exec_Wait_reads:
  "exec_instr chk stream ip i v = Stop w (NeedMoreBytes c) \<Longrightarrow> reads_input i \<and> (\<forall>name slot. i \<noteq> ReadRest name slot)"
  by (cases i) (auto simp: exec_unary_def exec_copy_def exec_binop_def exec_validate_def
        exec_read_rest_def exec_emit_field_def exec_jump_if_zero_def Let_def
        split: option.splits if_splits)

lemma exec_Wait:
  assumes g: "exec_instr chk stream ip i v = Stop w (NeedMoreBytes c)"
  shows "exec_instr chk stream ip i (append_input d w) = exec_instr chk stream ip i (append_input d v)"
  using exec_Wait_state [OF g] exec_Wait_reads [OF g]
  by (cases i) (auto simp del: append_input_updates simp add: append_align)

lemma terminal_count_outcome [simp]: "terminal (count_outcome n out) = terminal out"
  by (cases out) simp_all

lemma count_outcome_terminal: "terminal out \<Longrightarrow> count_outcome n out = out"
  by (cases out) simp_all

lemma not_terminal: "\<not> terminal out \<longleftrightarrow> (\<exists>c. out = NeedMoreBytes c)"
  by (cases out) simp_all

subsection \<open>The interpreter as a suspendable machine\<close>

fun vm_machine ::
    "instruction list \<times> nat \<times> vm \<Rightarrow> (instruction list \<times> nat \<times> vm, vm \<times> vm_outcome) mstep" where
  "vm_machine (prog, ip, v) =
     (if length prog \<le> ip then Done (v, Complete)
      else case exec_instr True True ip (prog ! ip) v of
             Goto w ip' \<Rightarrow> Cont (prog, ip', w)
           | Stop w out \<Rightarrow> if terminal out then Done (w, out) else Wait (prog, ip, w))"

fun vm_feed :: "u8 list \<Rightarrow> instruction list \<times> nat \<times> vm \<Rightarrow> instruction list \<times> nat \<times> vm" where
  "vm_feed d (prog, ip, v) = (prog, ip, append_input d v)"

fun vm_feed_result :: "u8 list \<Rightarrow> vm \<times> vm_outcome \<Rightarrow> vm \<times> vm_outcome" where
  "vm_feed_result d (v, out) = (append_input d v, out)"

fun machine_safe :: "instruction list \<times> nat \<times> vm \<Rightarrow> bool" where
  "machine_safe (prog, ip, v) = stream_safe prog"

lemma stream_safe_nth: "stream_safe prog \<Longrightarrow> ip < length prog \<Longrightarrow> stream_safe_instr (prog ! ip)"
  by (simp add: stream_safe_def list_all_length)

interpretation stream_vm: suspendable vm_machine vm_feed vm_feed_result machine_safe
proof (unfold_locales, goal_cases)
  case (1 s t d)
  obtain prog ip v where [simp]: "s = (prog, ip, v)" by (cases s)
  from 1 show ?case
    by (auto simp: exec_append_Goto [OF stream_safe_nth] split: if_splits vm_step.splits)
next
  case (2 s r d)
  obtain prog ip v where [simp]: "s = (prog, ip, v)" by (cases s)
  from 2 show ?case
    by (auto simp: exec_append_Stop [OF stream_safe_nth] split: if_splits vm_step.splits)
next
  case (3 s t d)
  obtain prog ip v where [simp]: "s = (prog, ip, v)" by (cases s)
  from 3 obtain w c where ip: "ip < length prog" and t: "t = (prog, ip, w)"
      and "exec_instr True True ip (prog ! ip) v = Stop w (NeedMoreBytes c)"
    by (auto split: if_splits vm_step.splits elim: terminal.elims)
  from exec_Wait [OF this(3), of d] ip show ?case by (simp add: t)
next
  case (4 s t)
  then show ?case by (cases s) (auto split: if_splits vm_step.splits)
next
  case (5 s t)
  then show ?case by (cases s) (auto split: if_splits vm_step.splits)
next
  case (6 s d)
  then show ?case by (cases s) auto
qed

subsection \<open>Bounds on the instruction counter\<close>

lemma interpret_vm_frame:
  "interpret_vm chk prog stream ip v = (w, out) \<Longrightarrow>
   input w = input v \<and> lims w = lims v \<and> instructions_executed v \<le> instructions_executed w
   \<and> length (slots w) = length (slots v) \<and> length (slot_touched w) = length (slot_touched v)
   \<and> (instructions_executed v \<le> Suc (max_instructions (lims v)) \<longrightarrow>
       instructions_executed w \<le> Suc (max_instructions (lims v)))"
proof (induction chk prog stream ip v rule: interpret_vm.induct)
  case (1 chk prog stream ip v)
  show ?case
  proof (cases "length prog \<le> ip \<or> max_instructions (lims v) < instructions_executed v")
    case True
    with "1.prems" show ?thesis
      by (auto simp: interpret_vm.simps [of chk prog stream ip v] split: if_splits)
  next
    case False
    show ?thesis
    proof (cases "exec_instr chk stream ip (prog ! ip) (tick v)")
      case (Goto u ip')
      with False "1.prems" have "interpret_vm chk prog stream ip' u = (w, out)"
        by (simp add: interpret_vm.simps [of chk prog stream ip v])
      moreover note exec_Goto_frame [OF Goto]
      ultimately show ?thesis using "1.IH" False Goto by fastforce
    next
      case (Stop u o')
      with False "1.prems" have "u = w" by (simp add: interpret_vm.simps [of chk prog stream ip v])
      with exec_Stop_frame [OF Stop] False show ?thesis by auto
    qed
  qed
qed

lemma exec_count0:
  "exec_instr chk stream ip i (with_count 0 v) = count_step 0 (exec_instr chk stream ip i (tick v))"
proof -
  have "with_count 0 v = with_count 0 (tick v)" by (simp add: with_count_def tick_def)
  then show ?thesis by (metis exec_with_count)
qed

lemma restore_snapshot [simp]: "restore (snapshot v ip n) = v"
  by (simp add: restore_def snapshot_def)

text \<open>A run of the interpreter that is not cut by the instruction limit is a run of the machine.\<close>

lemma interpret_machine:
  "interpret_vm True prog True ip v = (w, out) \<Longrightarrow> out \<noteq> Failed (instruction_limit_error w) \<Longrightarrow>
   \<exists>n. (if terminal out
        then mhalts vm_machine n (prog, ip, with_count 0 v) (Done (with_count 0 w, out))
          \<and> instructions_executed v + n \<le> instructions_executed w
        else \<exists>c. out = NeedMoreBytes c \<and> restore c = w
          \<and> mhalts vm_machine n (prog, ip, with_count 0 v) (Wait (prog, k_ip c, with_count 0 w))
          \<and> instructions_executed v + n < instructions_executed w)"
proof (induction True prog True ip v rule: interpret_vm.induct)
  case (1 prog ip v)
  note unf = interpret_vm.simps [of True prog True ip v]
  show ?case
  proof (cases "length prog \<le> ip")
    case True
    with "1.prems" have "w = v" "out = Complete" by (auto simp: unf)
    with True show ?thesis by (auto intro!: exI [of _ 0] mhalts_0)
  next
    case False
    with "1.prems" have lim: "\<not> max_instructions (lims v) < instructions_executed v"
      by (auto simp: unf)
    show ?thesis
    proof (cases "exec_instr True True ip (prog ! ip) (tick v)")
      case (Goto u ip')
      with "1.prems" False lim have "interpret_vm True prog True ip' u = (w, out)"
        by (simp add: unf)
      note IH = "1.hyps" [OF False lim Goto this "1.prems"(2)]
      have step: "vm_machine (prog, ip, with_count 0 v) = Cont (prog, ip', with_count 0 u)"
        using False Goto by (simp add: exec_count0)
      have "instructions_executed u = Suc (instructions_executed v)"
        using exec_Goto_frame [OF Goto] by simp
      with IH show ?thesis
        by (auto intro: mhalts_Suc [of vm_machine, OF step] split: if_splits
            intro!: exI [of _ "Suc _"])
    next
      case (Stop u o')
      with "1.prems" False lim have eq: "w = u" "out = o'" by (auto simp: unf)
      have ex: "instructions_executed u = Suc (instructions_executed v)"
        using exec_Stop_frame [OF Stop] by simp
      show ?thesis
      proof (cases "terminal out")
        case True
        then have "count_outcome 0 o' = o'" using eq by (cases o') auto
        with True False Stop eq ex show ?thesis
          by (auto simp: exec_count0 intro!: exI [of _ 0] mhalts_0)
      next
        case nt: False
        then obtain c where c: "out = NeedMoreBytes c" by (cases out) auto
        with Stop eq have "c = snapshot w ip (bytes_needed c)" using exec_Wait_state by blast
        then have "restore c = w" "k_ip c = ip"
          by (metis restore_snapshot, metis snapshot_def vm_continuation.select_convs(6))
        with False Stop eq ex c show ?thesis
          by (auto simp: exec_count0 intro!: exI [of _ 0] mhalts_0)
      qed
    qed
  qed
qed

text \<open>Conversely a halting run of the machine is a run of the interpreter with budget for it.\<close>

lemma machine_interpret:
  "mhalts vm_machine n (prog, ip, with_count 0 v) (Done (w0, out)) \<Longrightarrow>
   instructions_executed v + n \<le> max_instructions (lims v) \<Longrightarrow>
   \<exists>w. interpret_vm True prog True ip v = (w, out) \<and> with_count 0 w = with_count 0 w0"
proof (induction n arbitrary: ip v)
  case 0
  note unf = interpret_vm.simps [of True prog True ip v]
  from 0 have "vm_machine (prog, ip, with_count 0 v) = Done (w0, out)" by (simp add: mhalts_def)
  with 0 show ?case
    by (cases "exec_instr True True ip (prog ! ip) (tick v)")
      (auto simp: unf exec_count0 count_outcome_terminal split: if_splits)
next
  case (Suc n)
  note unf = interpret_vm.simps [of True prog True ip v]
  from mhalts_SucD [OF Suc.prems(1)] obtain s where s: "vm_machine (prog, ip, with_count 0 v) = Cont s"
      "mhalts vm_machine n s (Done (w0, out))"
    by (elim exE conjE)
  then obtain u ip' where g: "\<not> length prog \<le> ip"
      "exec_instr True True ip (prog ! ip) (tick v) = Goto u ip'" "s = (prog, ip', with_count 0 u)"
    by (cases "exec_instr True True ip (prog ! ip) (tick v)")
      (auto simp: exec_count0 split: if_splits)
  have "instructions_executed u + n \<le> max_instructions (lims u)"
    using exec_Goto_frame [OF g(2)] Suc.prems(2) by simp
  with Suc.IH s(2) g obtain w where "interpret_vm True prog True ip' u = (w, out)"
      "with_count 0 w = with_count 0 w0"
    by blast
  moreover have "interpret_vm True prog True ip v = interpret_vm True prog True ip' u"
    using g Suc.prems(2) by (simp add: unf)
  ultimately show ?case by simp
qed

subsection \<open>Feeding a stream chunk by chunk\<close>

text \<open>
  The caller's loop: run, and while the outcome is \<open>NeedMoreBytes\<close> and chunks remain,
  \<open>resume\<close> with the next chunk (the loop of the crate's test
  \<open>resume_equivalence_byte_at_a_time\<close>).
\<close>

fun feed_chunks ::
    "bool \<Rightarrow> bytecode_program \<Rightarrow> vm \<times> vm_outcome \<Rightarrow> u8 list list \<Rightarrow> vm \<times> vm_outcome" where
  "feed_chunks chk program (v, NeedMoreBytes c) (d # ds) =
     feed_chunks chk program (resume chk c program d) ds"
| "feed_chunks chk program st ds = st"

text \<open>The parse state two runs agree on: everything but the raw input and the counter.\<close>

definition same_parse :: "vm \<Rightarrow> vm \<Rightarrow> bool" where
  "same_parse v w \<longleftrightarrow>
     slots v = slots w \<and> slot_touched v = slot_touched w \<and> input_pos v = input_pos w \<and>
     bit_offset v = bit_offset w \<and> loop_iterations v = loop_iterations w \<and>
     emitted v = emitted w \<and> rest_starts v = rest_starts w"

lemma same_parse_with_count: "with_count 0 v = with_count 0 (append_input d w) \<Longrightarrow> same_parse v w"
  by (auto simp: same_parse_def with_count_def append_input_def dest!: arg_cong [where f = "\<lambda>u.
        (slots u, slot_touched u, input_pos u, bit_offset u, loop_iterations u, emitted u, rest_starts u)"])

lemma feeds_concat: "stream_vm.feeds ds (prog, ip, v) = (prog, ip, append_input (concat ds) v)"
  by (induction ds arbitrary: v) (simp_all add: stream_vm.feeds_def)

lemma fold_feed_result: "fold vm_feed_result ds (w, out) = (append_input (concat ds) w, out)"
  by (induction ds arbitrary: w) simp_all

lemma feed_chunks_terminal: "terminal out \<Longrightarrow> feed_chunks chk program (v, out) ds = (v, out)"
  by (cases out) simp_all

lemma feed_chunks_fed:
  "feed_chunks True p (interpret_vm True (instructions p) True ip v) ds = (w, out) \<Longrightarrow>
   terminal out \<Longrightarrow> out \<noteq> Failed (instruction_limit_error w) \<Longrightarrow>
   \<exists>n d. stream_vm.fed (instructions p, ip, with_count 0 v) ds n
           (Done (with_count 0 (append_input d w), out))
       \<and> instructions_executed v + n \<le> instructions_executed w
       \<and> (\<not> terminal (snd (interpret_vm True (instructions p) True ip v)) \<longrightarrow>
            instructions_executed v + n < instructions_executed w)
       \<and> lims w = lims v
       \<and> (instructions_executed v \<le> Suc (max_instructions (lims v)) \<longrightarrow>
            instructions_executed w \<le> Suc (max_instructions (lims v)))"
proof (induction ds arbitrary: ip v)
  case (Nil ip v)
  obtain u o' where r: "interpret_vm True (instructions p) True ip v = (u, o')" by force
  with Nil.prems have eq: "u = w" "o' = out" by (cases o'; simp)+
  from interpret_machine [OF r] eq Nil.prems obtain n
    where "mhalts vm_machine n (instructions p, ip, with_count 0 v) (Done (with_count 0 w, out))"
      "instructions_executed v + n \<le> instructions_executed w"
    by auto
  with r eq Nil.prems interpret_vm_frame [OF r] show ?case
    by (intro exI [of _ n] exI [of _ "[]"]) (auto intro: stream_vm.fed_stop)
next
  case (Cons d ds ip v)
  obtain u o' where r: "interpret_vm True (instructions p) True ip v = (u, o')" by force
  show ?case
  proof (cases "terminal o'")
    case True
    with Cons.prems r have eq: "u = w" "o' = out" by (auto simp: feed_chunks_terminal)
    from interpret_machine [OF r] eq Cons.prems obtain n
      where "mhalts vm_machine n (instructions p, ip, with_count 0 v) (Done (with_count 0 w, out))"
        "instructions_executed v + n \<le> instructions_executed w"
      by auto
    note n = this
    from stream_vm.fed_done [OF n(1), of "d # ds"]
    have "stream_vm.fed (instructions p, ip, with_count 0 v) (d # ds) n
        (Done (with_count 0 (append_input (concat (d # ds)) w), out))"
      by (simp only: fold_feed_result with_count_updates)
    with n(2) r eq True interpret_vm_frame [OF r] show ?thesis
      by (intro exI [of _ n] exI [of _ "concat (d # ds)"]) auto
  next
    case False
    then obtain c where c: "o' = NeedMoreBytes c" by (auto simp: not_terminal)
    with interpret_machine [OF r] obtain n where
      n: "restore c = u" "mhalts vm_machine n (instructions p, ip, with_count 0 v)
            (Wait (instructions p, k_ip c, with_count 0 u))"
        "instructions_executed v + n < instructions_executed u"
      by auto
    let ?u = "append_input d u"
    have "feed_chunks True p (interpret_vm True (instructions p) True (k_ip c) ?u) ds = (w, out)"
      using Cons.prems(1) r c n(1) by (simp add: resume_def)
    from Cons.IH [OF this Cons.prems(2,3)] obtain m e where
      m: "stream_vm.fed (instructions p, k_ip c, with_count 0 ?u) ds m
            (Done (with_count 0 (append_input e w), out))"
        "instructions_executed ?u + m \<le> instructions_executed w" "lims w = lims ?u"
        "instructions_executed ?u \<le> Suc (max_instructions (lims ?u)) \<longrightarrow>
            instructions_executed w \<le> Suc (max_instructions (lims ?u))"
      by blast
    have "stream_vm.fed (instructions p, ip, with_count 0 v) (d # ds) (n + m)
        (Done (with_count 0 (append_input e w), out))"
      using n(2) m(1) by (auto intro: stream_vm.fed_more)
    with n(3) m r interpret_vm_frame [OF r] show ?thesis
      by (intro exI [of _ "n + m"] exI [of _ e]) auto
  qed
qed

text \<open>A run that ends before the input does is not disturbed by what follows.\<close>

lemma interpret_append:
  "stream_safe prog \<Longrightarrow> interpret_vm True prog True ip v = (w, out) \<Longrightarrow> terminal out \<Longrightarrow>
   interpret_vm True prog True ip (append_input d v) = (append_input d w, out)"
proof (induction True prog True ip v rule: interpret_vm.induct)
  case (1 prog ip v)
  note unf = interpret_vm.simps [of True prog True ip v]
    interpret_vm.simps [of True prog True ip "append_input d v"]
  show ?case
  proof (cases "length prog \<le> ip \<or> max_instructions (lims v) < instructions_executed v")
    case True
    with "1.prems" show ?thesis by (auto simp: unf instruction_limit_error_def split: if_splits)
  next
    case False
    then have safe: "stream_safe_instr (prog ! ip)" using "1.prems" by (auto intro: stream_safe_nth)
    show ?thesis
    proof (cases "exec_instr True True ip (prog ! ip) (tick v)")
      case (Goto u ip')
      with "1.prems" "1.hyps" False show ?thesis
        by (auto simp: unf exec_append_Goto [OF safe Goto])
    next
      case (Stop u o')
      with "1.prems" False have "u = w" "o' = out" by (auto simp: unf)
      with "1.prems" Stop False exec_append_Stop [OF safe Stop] show ?thesis by (auto simp: unf)
    qed
  qed
qed

lemma load_input_append:
  "append_input d (reset_counters (load_input a v)) = reset_counters (load_input (a @ d) v)"
  by (simp add: append_input_def reset_counters_def load_input_def)

lemma chunks_whole:
  assumes "stream_safe (instructions p)"
    and "feed_chunks True p (run_stream True p (load_input d0 v)) ds = (w, out)"
    and "terminal out" and "out \<noteq> Failed (instruction_limit_error w)"
  shows "\<exists>u. run_stream True p (load_input (concat (d0 # ds)) v) = (u, out) \<and> same_parse u w"
proof -
  let ?v = "reset_counters (load_input d0 v)"
  have whole: "run_stream True p (load_input (concat (d0 # ds)) v) =
      interpret_vm True (instructions p) True 0 (append_input (concat ds) ?v)"
    by (simp only: run_stream_def load_input_append concat.simps)
  have fc: "feed_chunks True p (interpret_vm True (instructions p) True 0 ?v) ds = (w, out)"
    using assms(2) by (simp add: run_stream_def)
  show ?thesis
  proof (cases "terminal (snd (interpret_vm True (instructions p) True 0 ?v))")
    case True
    then have "interpret_vm True (instructions p) True 0 ?v = (w, out)"
      using fc by (metis feed_chunks_terminal prod.collapse)
    from interpret_append [OF assms(1) this assms(3)]
    have "run_stream True p (load_input (concat (d0 # ds)) v) = (append_input (concat ds) w, out)"
      by (simp only: whole)
    then show ?thesis by (auto simp: same_parse_def)
  next
    case False
    from feed_chunks_fed [OF fc assms(3,4)] False obtain n d where
      n: "stream_vm.fed (instructions p, 0, with_count 0 ?v) ds n
            (Done (with_count 0 (append_input d w), out))"
        "n < instructions_executed w"
        "instructions_executed w \<le> Suc (max_instructions (lims ?v))"
      by (auto simp: reset_counters_def)
    have "mhalts vm_machine n (instructions p, 0, with_count 0 (append_input (concat ds) ?v))
        (Done (with_count 0 (append_input d w), out))"
      using stream_vm.fed_whole [OF n(1)] assms(1) by (simp add: feeds_concat)
    moreover have "instructions_executed (append_input (concat ds) ?v) + n
        \<le> max_instructions (lims (append_input (concat ds) ?v))"
      using n(2,3) by (simp add: reset_counters_def)
    ultimately obtain u where
      "interpret_vm True (instructions p) True 0 (append_input (concat ds) ?v) = (u, out)"
      "with_count 0 u = with_count 0 (append_input d w)"
      using machine_interpret by (metis with_count_simps(11))
    then have "run_stream True p (load_input (concat (d0 # ds)) v) = (u, out)" "same_parse u w"
      by (simp only: whole, intro same_parse_with_count)
    then show ?thesis by blast
  qed
qed

text \<open>C1: resume equivalence, in the dev profile. If a program without a rest-of-input field (no
  \<open>ReadRest\<close> and no \<open>ReadSlice\<close> with the length register 65535) is fed its input in any
  fragmentation, one \<open>run_stream\<close> and then \<open>resume\<close> per chunk, and that ends in an
  outcome other than the instruction limit (completion, a failed \<open>validate\<close>, the loop limit,
  a panic), then one \<open>run_stream\<close> on the whole input ends in the same outcome with the same
  slots, touched slots, cursor, emitted fields and payload starts (spec 06 section 5.3).\<close>

theorem resume_equivalence:
  assumes "stream_safe (instructions p)"
    and "feed_chunks True p (run_stream True p (load_input d0 v)) ds = (w, out)"
    and "terminal out" and "out \<noteq> Failed (instruction_limit_error w)"
  shows "\<exists>u. run_stream True p (load_input (concat (d0 # ds)) v) = (u, out) \<and> same_parse u w"
  by (rule chunks_whole [OF assms])

text \<open>The header program of the crate's tests: \<open>a: u8, b: u8, c: u16be\<close>.\<close>

definition hdr_program :: bytecode_program where
  "hdr_program =
     \<lparr>instructions = [ReadU8 0, ReadU8 1, ReadU16 2 False, Return], slot_count = 4\<rparr>"

theorem resume_equivalence_witness:
  "\<exists>u. run_stream True hdr_program (load_input [0x11, 0x22, 0x33, 0x44] (vm_new 4)) = (u, Complete)
     \<and> get_slot u 2 = 0x3344"
proof -
  let ?r = "feed_chunks True hdr_program
      (run_stream True hdr_program (load_input [0x11] (vm_new 4))) [[0x22, 0x33], [0x44]]"
  have out: "snd ?r = Complete" and slot: "get_slot (fst ?r) 2 = 0x3344" by code_simp+
  have safe: "stream_safe (instructions hdr_program)" by code_simp
  have r: "?r = (fst ?r, Complete)" using out by (metis prod.collapse)
  from resume_equivalence [OF safe r] obtain u where
    "run_stream True hdr_program (load_input [0x11, 0x22, 0x33, 0x44] (vm_new 4)) = (u, Complete)"
    "same_parse u (fst ?r)" by auto
  moreover from this(2) have "get_slot u 2 = get_slot (fst ?r) 2"
    by (simp only: same_parse_def get_slot_def)
  ultimately show ?thesis using slot by (intro exI [of _ u]) (simp only: simp_thms)
qed

end
