(* ===== verification/Bytecode_Safety.thy ===== *)
theory Bytecode_Safety
  imports Bytecode_Stream
begin

text \<open>
  Safety of the interpreter: datagram runs never suspend, the release profile computes what
  the dev profile computes wherever that does not panic, the state invariant of the VM, the
  absence of panics for programs whose source slots exist, the limits, and the value
  \<open>ReadBits\<close> reads.
\<close>

subsection \<open>Datagram mode never suspends\<close>

lemma interpret_datagram_terminal:
  "interpret_vm chk prog False ip v = (w, out) \<Longrightarrow> terminal out"
proof (induction chk prog False ip v rule: interpret_vm.induct)
  case (1 chk prog ip v)
  note unf = interpret_vm.simps [of chk prog False ip v]
  show ?case
  proof (cases "exec_instr chk False ip (prog ! ip) (tick v)")
    case (Goto u ip')
    with 1 show ?thesis by (auto simp: unf split: if_splits)
  next
    case (Stop u o')
    then have "terminal o'" using exec_Wait_state [of chk False] not_terminal [of o'] by blast
    with "1.prems" Stop show ?thesis by (auto simp: unf split: if_splits)
  qed
qed

text \<open>A datagram run never suspends: the branch of \<open>run\<close> that turns a
  \<open>NeedMoreBytes\<close> into an internal error is dead, \<open>run\<close> is the interpreter loop from
  instruction 0 with fresh counters.\<close>

theorem run_is_interpret:
  "run chk program v = interpret_vm chk (instructions program) False 0 (reset_counters v)"
proof -
  obtain w out where "interpret_vm chk (instructions program) False 0 (reset_counters v) = (w, out)"
    by force
  moreover from interpret_datagram_terminal [OF this]
  have "\<forall>c. out \<noteq> NeedMoreBytes c" by auto
  ultimately show ?thesis by (simp add: run_def split: vm_outcome.split)
qed

subsection \<open>The release profile refines the dev profile\<close>

lemma binop_release: "binop_value True op l r = Some x \<Longrightarrow> binop_value False op l r = Some x"
  by (cases op) (simp_all add: u64_release)

lemma read_bytes_release:
  "read_bytes True v n p = Some b \<Longrightarrow> read_bytes False v n p = Some b"
  by (auto simp: read_bytes_def dest: usize_add_release split: option.splits)

lemma slice_value_release:
  "slice_value True inp pos is x = Some y \<Longrightarrow> slice_value False inp pos is x = Some y"
  by (induction "is" arbitrary: x) (auto dest: usize_add_release split: option.splits)

lemma slice_len_release: "slice_len True l v = Some n \<Longrightarrow> slice_len False l v = Some n"
  by (auto simp: slice_len_def dest: usize_sub_release split: if_splits)

lemma exec_slice_release:
  assumes "exec_read_slice True stream ip l dst v = r" "\<And>w. r \<noteq> Stop w Panicked"
  shows "exec_read_slice False stream ip l dst v = r"
  using assms
  by (auto simp: exec_read_slice_def Let_def slice_len_release slice_value_release usize_add_release
      split: option.splits bool.splits if_splits)

lemma exec_uint_release:
  assumes "exec_read_uint True stream n ip slot le v = r" "\<And>w. r \<noteq> Stop w Panicked"
  shows "exec_read_uint False stream n ip slot le v = r"
  using assms
  by (auto simp: exec_read_uint_def Let_def read_bytes_release split: option.splits)

lemma exec_release:
  assumes "exec_instr True stream ip i v = r" "\<And>w. r \<noteq> Stop w Panicked"
  shows "exec_instr False stream ip i v = r"
  using assms
proof (cases i)
  case (BinOp op l r' dst)
  with assms show ?thesis
    by (auto simp: exec_binop_def binop_release split: option.splits)
qed (simp_all add: exec_uint_release exec_slice_release)

lemma interpret_release:
  "interpret_vm True prog stream ip v = (w, out) \<Longrightarrow> out \<noteq> Panicked \<Longrightarrow>
   interpret_vm False prog stream ip v = (w, out)"
proof (induction True prog stream ip v rule: interpret_vm.induct)
  case (1 prog stream ip v)
  note unf = interpret_vm.simps [of True prog stream ip v]
    interpret_vm.simps [of False prog stream ip v]
  show ?case
  proof (cases "length prog \<le> ip \<or> max_instructions (lims v) < instructions_executed v")
    case True
    with "1.prems" show ?thesis by (auto simp: unf split: if_splits)
  next
    case False
    show ?thesis
    proof (cases "exec_instr True stream ip (prog ! ip) (tick v)")
      case (Goto u ip')
      with exec_release [OF Goto] "1.hyps" "1.prems" False show ?thesis by (auto simp: unf)
    next
      case (Stop u o')
      with "1.prems" False have "u = w" "o' = out" by (auto simp: unf)
      with exec_release [OF Stop] "1.prems" Stop False show ?thesis by (auto simp: unf)
    qed
  qed
qed

text \<open>Profile independence. Whenever a run in the dev profile does not panic, the release
  profile (wrapping arithmetic, masked shifts) ends in the same VM with the same outcome.\<close>

theorem release_refines_dev:
  "interpret_vm True prog stream ip v = (w, out) \<Longrightarrow> out \<noteq> Panicked \<Longrightarrow>
   interpret_vm False prog stream ip v = (w, out)"
  by (rule interpret_release)

theorem release_refines_dev_witness:
  "snd (interpret_vm False [LoadConst 200 0, LoadConst 3 1, BinOp BShl 0 1 2, Return] False 0 (vm_new 4))
     = Complete"
proof -
  let ?prog = "[LoadConst 200 0, LoadConst 3 1, BinOp BShl 0 1 2, Return]"
  let ?r = "interpret_vm True ?prog False 0 (vm_new 4)"
  have out: "snd ?r = Complete" by code_simp
  have "?r = (fst ?r, Complete)" using out by (metis prod.collapse)
  from release_refines_dev [OF this] show ?thesis by simp
qed

subsection \<open>The VM invariant\<close>

text \<open>
  The tables have one size and an untouched slot still holds the initial zero; the bit cursor
  is inside a byte, and inside the input when it is not at a byte boundary.
\<close>

definition vm_wf :: "vm \<Rightarrow> bool" where
  "vm_wf v \<longleftrightarrow>
     length (slot_touched v) = length (slots v) \<and>
     (\<forall>s < length (slots v). \<not> slot_touched v ! s \<longrightarrow> slots v ! s = 0) \<and>
     bit_offset v < 8 \<and> (bit_offset v \<noteq> 0 \<longrightarrow> input_pos v < length (input v))"

definition cursor_ok :: "vm \<Rightarrow> bool" where
  "cursor_ok v \<longleftrightarrow> input_pos v \<le> length (input v)"

lemma vm_wf_load: "vm_wf (load_input d (vm_with_limits n l))"
  by (simp add: vm_wf_def load_input_def vm_with_limits_def)

lemma cursor_ok_load: "cursor_ok (load_input d v)"
  by (simp add: cursor_ok_def load_input_def)

lemma vm_wf_write [simp]: "vm_wf v \<Longrightarrow> vm_wf (write_slot s x v)"
  by (auto simp: vm_wf_def write_slot_def nth_list_update split: if_splits)

lemma vm_wf_align [simp]: "vm_wf v \<Longrightarrow> vm_wf (align_to_byte v)"
  by (simp add: vm_wf_def align_to_byte_def)

lemma cursor_ok_align [simp]: "vm_wf v \<Longrightarrow> cursor_ok v \<Longrightarrow> cursor_ok (align_to_byte v)"
  by (auto simp: vm_wf_def cursor_ok_def align_to_byte_def)

lemma cursor_ok_write [simp]: "cursor_ok (write_slot s x v) = cursor_ok v"
  by (simp add: cursor_ok_def)

lemma vm_wf_updates [simp]:
  "vm_wf (v\<lparr>emitted := e\<rparr>) = vm_wf v" "vm_wf (v\<lparr>loop_iterations := k\<rparr>) = vm_wf v"
  "vm_wf (v\<lparr>rest_starts := r\<rparr>) = vm_wf v" "vm_wf (tick v) = vm_wf v"
  "vm_wf (reset_counters v) = vm_wf v"
  "cursor_ok (v\<lparr>emitted := e\<rparr>) = cursor_ok v" "cursor_ok (v\<lparr>loop_iterations := k\<rparr>) = cursor_ok v"
  "cursor_ok (v\<lparr>rest_starts := r\<rparr>) = cursor_ok v" "cursor_ok (tick v) = cursor_ok v"
  "cursor_ok (reset_counters v) = cursor_ok v"
  by (simp_all add: vm_wf_def cursor_ok_def tick_def reset_counters_def)

lemma vm_wf_pos: "vm_wf v \<Longrightarrow> bit_offset v = 0 \<Longrightarrow> vm_wf (v\<lparr>input_pos := p\<rparr>)"
  by (simp add: vm_wf_def)

lemma read_bits_loop_cursor:
  "read_bits_loop inp k x pos off = (y, p, q) \<Longrightarrow> off < 8 \<Longrightarrow> (off \<noteq> 0 \<longrightarrow> pos < length inp) \<Longrightarrow>
   q < 8 \<and> (q \<noteq> 0 \<longrightarrow> p < length inp) \<and> pos \<le> p \<and> (pos \<le> length inp \<longrightarrow> p \<le> length inp)"
proof (induction inp k x pos off rule: read_bits_loop.induct)
  case (1 inp k x pos off)
  show ?case
  proof (cases "k = 0 \<or> length inp \<le> pos \<or> 8 \<le> off")
    case True
    with "1.prems" show ?thesis by (auto simp: read_bits_loop_stop)
  next
    case False
    let ?tk = "min (8 - off) k"
    note more = read_bits_loop_more [OF False refl, of x]
    show ?thesis
    proof (cases "off + ?tk = 8")
      case True
      with "1.prems"(1) more
      have "read_bits_loop inp (k - ?tk) (bits_step (inp ! pos) (8 - off) ?tk x) (Suc pos) 0 = (y, p, q)"
        by (simp only: if_True simp_thms)
      from "1.IH"(1) [OF False refl refl True this] False show ?thesis by auto
    next
      case neq: False
      with "1.prems"(1) more
      have "read_bits_loop inp (k - ?tk) (bits_step (inp ! pos) (8 - off) ?tk x) pos (off + ?tk) = (y, p, q)"
        by (simp only: if_False)
      from "1.IH"(2) [OF False refl refl neq this] False neq show ?thesis by auto
    qed
  qed
qed

lemma vm_wf_read_bits:
  assumes "read_bits k v = (x, w)" "vm_wf v"
  shows "vm_wf w" "cursor_ok v \<Longrightarrow> cursor_ok w"
  using assms read_bits_loop_cursor [of "input v" k 0 "input_pos v" "bit_offset v"]
  by (auto simp: read_bits_def vm_wf_def cursor_ok_def split: prod.splits)

lemma exec_wf:
  assumes "vm_wf v"
  shows "vm_wf (step_vm (exec_instr chk stream ip i v))"
proof (cases i)
  case (ReadU8 slot)
  with assms show ?thesis by (simp add: exec_read_u8_def Let_def vm_wf_pos)
next
  case (ReadSlice l dst)
  with assms show ?thesis
    by (simp add: exec_read_slice_def Let_def vm_wf_pos split: option.split bool.split)
next
  case (ReadBits k slot)
  obtain x w where "read_bits k v = (x, w)" by force
  with assms ReadBits vm_wf_read_bits(1) [OF this assms] show ?thesis
    by (simp add: exec_read_bits_def Let_def)
next
  case (ReadRest name slot)
  with assms show ?thesis by (simp add: exec_read_rest_def Let_def vm_wf_pos)
qed (use assms in \<open>simp_all add: exec_unary_def exec_copy_def exec_binop_def exec_validate_def
      exec_emit_field_def exec_jump_if_zero_def exec_read_uint_def Let_def vm_wf_pos
      split: option.split\<close>)

lemma interpret_wf: "interpret_vm chk prog stream ip v = (w, out) \<Longrightarrow> vm_wf v \<Longrightarrow> vm_wf w"
proof (induction chk prog stream ip v rule: interpret_vm.induct)
  case (1 chk prog stream ip v)
  note unf = interpret_vm.simps [of chk prog stream ip v]
  have step: "vm_wf (step_vm (exec_instr chk stream ip (prog ! ip) (tick v)))"
    using "1.prems" by (intro exec_wf) simp
  show ?case
  proof (cases "exec_instr chk stream ip (prog ! ip) (tick v)")
    case (Goto u ip')
    with 1 step show ?thesis by (auto simp: unf split: if_splits)
  next
    case (Stop u o')
    with "1.prems" step show ?thesis by (auto simp: unf split: if_splits)
  qed
qed

text \<open>C5: every run, in every mode and profile and however it ends, keeps the VM invariant; in
  particular a slot the run did not write still reads as zero, so leaving untouched slots out
  of the context (the runner's phantom-slot filter) drops no value but zeros.\<close>

theorem run_keeps_wf:
  assumes "interpret_vm chk prog stream 0 (reset_counters (load_input d (vm_with_limits n l))) = (w, out)"
  shows "vm_wf w \<and> (is_slot_touched w s \<or> get_slot w s = 0)"
proof -
  have "vm_wf w" using assms by (rule interpret_wf) (simp add: vm_wf_load)
  then show ?thesis by (auto simp: vm_wf_def is_slot_touched_def get_slot_def)
qed

theorem run_keeps_wf_witness:
  "vm_wf (fst (interpret_vm True [ReadBits 3 1, ReadU8 2] False 0
     (reset_counters (load_input [0xA0, 7] (vm_with_limits 4 limits_default)))))"
  using run_keeps_wf [OF prod.collapse [symmetric]] by blast

subsection \<open>The limits hold\<close>

lemma exec_loops:
  "loop_iterations v \<le> max_loop_iterations (lims v) \<Longrightarrow>
   loop_iterations (step_vm (exec_instr chk stream ip i v)) \<le> Suc (max_loop_iterations (lims v)) \<and>
   (\<forall>w ip'. exec_instr chk stream ip i v = Goto w ip' \<longrightarrow>
      loop_iterations w \<le> max_loop_iterations (lims w))"
proof (cases i)
  case (ReadBits k slot)
  obtain x w where "read_bits k v = (x, w)" by force
  moreover assume "loop_iterations v \<le> max_loop_iterations (lims v)"
  ultimately show ?thesis
    using read_bits_frame [of k v x w] ReadBits by (simp add: exec_read_bits_def Let_def)
qed (simp_all add: exec_defs Let_def split: option.split bool.split)

text \<open>C6: resource limits. A run that starts with fresh counters executes at most
  \<open>max_instructions + 1\<close> instructions and counts at most \<open>max_loop_iterations + 1\<close> backward
  conditional jumps, on every program and input; and the slot table never grows.\<close>

theorem run_respects_limits:
  assumes "interpret_vm chk prog stream 0 (reset_counters v) = (w, out)"
  shows "instructions_executed w \<le> max_instructions (lims v) + 1 \<and>
    loop_iterations w \<le> max_loop_iterations (lims v) + 1 \<and> length (slots w) = length (slots v)"
proof -
  have "interpret_vm chk prog stream ip u = (w, out) \<Longrightarrow>
      loop_iterations u \<le> max_loop_iterations (lims u) \<Longrightarrow>
      loop_iterations w \<le> Suc (max_loop_iterations (lims u))" for ip u
  proof (induction chk prog stream ip u rule: interpret_vm.induct)
    case (1 chk prog stream ip u)
    note unf = interpret_vm.simps [of chk prog stream ip u]
    from exec_loops [of "tick u" chk stream ip "prog ! ip"] "1.prems"(2)
    have step: "loop_iterations (step_vm (exec_instr chk stream ip (prog ! ip) (tick u)))
          \<le> Suc (max_loop_iterations (lims u))"
        "\<forall>x ip'. exec_instr chk stream ip (prog ! ip) (tick u) = Goto x ip' \<longrightarrow>
          loop_iterations x \<le> max_loop_iterations (lims x)"
      by auto
    show ?case
    proof (cases "exec_instr chk stream ip (prog ! ip) (tick u)")
      case (Goto x ip')
      with 1 step exec_Goto_frame [OF Goto] show ?thesis by (auto simp: unf split: if_splits)
    next
      case (Stop x o')
      with "1.prems" step show ?thesis by (auto simp: unf split: if_splits)
    qed
  qed
  from this [OF assms] interpret_vm_frame [OF assms] show ?thesis
    by (simp add: reset_counters_def)
qed

theorem run_respects_limits_witness:
  "instructions_executed (fst (interpret_vm True [Jump 0] False 0
     (reset_counters (vm_with_limits 1 \<lparr>max_instructions = 3, max_loop_iterations = 1\<rparr>)))) \<le> 4"
  using run_respects_limits [OF prod.collapse [symmetric], of True "[Jump 0]" False
      "vm_with_limits 1 \<lparr>max_instructions = 3, max_loop_iterations = 1\<rparr>"]
  by (simp add: vm_with_limits_def)

subsection \<open>No panics in stream mode\<close>

text \<open>The slots an instruction indexes directly exist in a table of size \<open>n\<close>.\<close>

fun instr_slots_ok :: "nat \<Rightarrow> instruction \<Rightarrow> bool" where
  "instr_slots_ok n (UnaryOp op src dst) = (src < n)"
| "instr_slots_ok n (CopySlot src dst) = (src < n)"
| "instr_slots_ok n (Validate p m) = (p < n)"
| "instr_slots_ok n (EmitField name s) = (s < n)"
| "instr_slots_ok n (BinOp op l r dst) = (l < n \<and> r < n)"
| "instr_slots_ok n (JumpIfZero c t) = (c < n)"
| "instr_slots_ok n i = True"

definition slots_ok :: "nat \<Rightarrow> instruction list \<Rightarrow> bool" where
  "slots_ok n prog = list_all (instr_slots_ok n) prog"

lemma binop_release_total: "\<exists>z. binop_value False op l r = Some z"
  by (cases op) (simp_all add: u64_add_def u64_mul_def u64_shl_def u64_shr_def shift_amount_def Let_def)

lemma slice_value_release_total: "\<exists>z. slice_value False inp pos is x = Some z"
  by (induction "is" arbitrary: x) (auto simp: usize_add_def)

lemma usize_add_release_total: "\<exists>z. usize_add False a b = Some z"
  by (simp add: usize_add_def)

lemma slice_len_release_total: "\<exists>z. slice_len False l v = Some z"
  by (simp add: slice_len_def usize_sub_def)

lemma read_uint_stream:
  assumes "vm_wf v" "cursor_ok v" "length (input v) + 4 < usize_lim" "n \<le> 4"
  shows "\<exists>w out. (exec_read_uint False True n ip slot le v = Goto w (Suc ip) \<and> cursor_ok w)
    \<or> (exec_read_uint False True n ip slot le v = Stop w out \<and> out \<noteq> Panicked)"
proof -
  have c: "input_pos (align_to_byte v) \<le> length (input v)"
    using cursor_ok_align [OF assms(1,2)] by (simp add: cursor_ok_def)
  with assms(3,4) have "usize_add False (input_pos (align_to_byte v)) n
      = Some (input_pos (align_to_byte v) + n)"
    by (simp add: usize_add_def)
  then show ?thesis
    by (auto simp: exec_read_uint_def Let_def read_bytes_def cursor_ok_def)
qed

lemma read_slice_stream:
  assumes "vm_wf v" "cursor_ok v" "length (input v) + 4 < usize_lim"
  shows "\<exists>w out. (exec_read_slice False True ip l dst v = Goto w (Suc ip) \<and> cursor_ok w)
    \<or> (exec_read_slice False True ip l dst v = Stop w out \<and> out \<noteq> Panicked)"
proof -
  let ?v = "align_to_byte v"
  have c: "input_pos ?v \<le> length (input v)"
    using cursor_ok_align [OF assms(1,2)] by (simp add: cursor_ok_def)
  obtain len where len: "slice_len False l ?v = Some len" using slice_len_release_total by blast
  obtain e where e: "usize_add False (input_pos ?v) len = Some e" using usize_add_release_total by blast
  obtain x where x: "slice_value False (input v) (input_pos ?v) [0..<min len 8] 0 = Some x"
    using slice_value_release_total by blast
  show ?thesis
  proof (cases "l = 65535")
    case True
    with len c have "len \<le> length (input v) - input_pos ?v"
      by (auto simp: slice_len_def usize_sub_def)
    with c assms(3) e have "e \<le> length (input v)" by (auto simp: usize_add_def split: if_splits)
    with len e x True show ?thesis by (auto simp: exec_read_slice_def Let_def cursor_ok_def)
  next
    case False
    with len e x show ?thesis
      by (cases "length (input v) < e") (auto simp: exec_read_slice_def Let_def cursor_ok_def)
  qed
qed

lemma exec_stream_no_panic:
  assumes "vm_wf v" "cursor_ok v" "length (input v) + 4 < usize_lim"
    and "instr_slots_ok (length (slots v)) i"
  shows "(\<exists>w ip'. exec_instr False True ip i v = Goto w ip' \<and> cursor_ok w)
    \<or> (\<exists>w out. exec_instr False True ip i v = Stop w out \<and> out \<noteq> Panicked)"
proof (cases i)
  case (ReadU8 slot)
  have "cursor_ok (align_to_byte v)" using assms by simp
  with ReadU8 show ?thesis by (auto simp: exec_read_u8_def Let_def cursor_ok_def)
next
  case (ReadU16 slot le)
  with read_uint_stream [OF assms(1-3), of 2 ip slot le] show ?thesis by auto
next
  case (ReadU24 slot le)
  with read_uint_stream [OF assms(1-3), of 3 ip slot le] show ?thesis by auto
next
  case (ReadU32 slot le)
  with read_uint_stream [OF assms(1-3), of 4 ip slot le] show ?thesis by auto
next
  case (ReadSlice l dst)
  with read_slice_stream [OF assms(1-3), of ip l dst] show ?thesis by auto
next
  case (ReadBits k slot)
  obtain x w where r: "read_bits k v = (x, w)" by force
  with ReadBits vm_wf_read_bits(2) [OF r assms(1,2)] show ?thesis
    by (auto simp: exec_read_bits_def Let_def)
next
  case (ReadRest name slot)
  then show ?thesis by (auto simp: exec_read_rest_def Let_def cursor_ok_def)
next
  case (BinOp op l r dst)
  with assms(2,4) binop_release_total [of op "slots v ! l" "slots v ! r"] show ?thesis
    by (auto simp: exec_binop_def read_slot_def)
next
  case (JumpIfZero c t)
  with assms(2,4) show ?thesis
    by (auto simp: exec_jump_if_zero_def read_slot_def Let_def)
qed (use assms(2,4) in \<open>auto simp: exec_unary_def exec_copy_def exec_validate_def
      exec_emit_field_def read_slot_def\<close>)

lemma interpret_stream_no_panic:
  "interpret_vm False prog True ip v = (w, out) \<Longrightarrow> vm_wf v \<Longrightarrow> cursor_ok v \<Longrightarrow>
   length (input v) + 4 < usize_lim \<Longrightarrow> slots_ok (length (slots v)) prog \<Longrightarrow> out \<noteq> Panicked"
proof (induction False prog True ip v rule: interpret_vm.induct)
  case (1 prog ip v)
  note unf = interpret_vm.simps [of False prog True ip v]
  show ?case
  proof (cases "length prog \<le> ip \<or> max_instructions (lims v) < instructions_executed v")
    case True
    with "1.prems" show ?thesis by (auto simp: unf split: if_splits)
  next
    case False
    then have "instr_slots_ok (length (slots v)) (prog ! ip)"
      using "1.prems"(5) by (simp add: slots_ok_def list_all_length)
    with "1.prems" exec_stream_no_panic [of "tick v" "prog ! ip" ip]
    consider u ip' where "exec_instr False True ip (prog ! ip) (tick v) = Goto u ip'" "cursor_ok u"
      | u o' where "exec_instr False True ip (prog ! ip) (tick v) = Stop u o'" "o' \<noteq> Panicked"
      by auto
    then show ?thesis
    proof cases
      case (1 u ip')
      have "vm_wf u" using exec_wf [of "tick v" False True ip "prog ! ip"] "1.prems"(2) 1(1) by simp
      with 1 "1.hyps" "1.prems" False exec_Goto_frame [OF 1(1)] show ?thesis by (auto simp: unf)
    next
      case (2 u o')
      with "1.prems" False show ?thesis by (auto simp: unf)
    qed
  qed
qed

text \<open>Stream runs never panic. In the release profile a stream-mode run of a program
  whose source slots exist in the slot table ends in completion, a suspension or an error
  value, on every input a \<open>Vec\<close> can hold.\<close>

theorem stream_run_no_panic:
  assumes "slots_ok (max n 32) (instructions p)" and "length d + 4 < usize_lim"
  shows "snd (run_stream False p (load_input d (vm_with_limits n l))) \<noteq> Panicked"
proof -
  let ?v = "reset_counters (load_input d (vm_with_limits n l))"
  obtain w out where r: "interpret_vm False (instructions p) True 0 ?v = (w, out)" by force
  have "out \<noteq> Panicked"
    using r
  proof (rule interpret_stream_no_panic)
    show "vm_wf ?v" "cursor_ok ?v" by (simp_all add: vm_wf_load cursor_ok_load)
    show "length (input ?v) + 4 < usize_lim"
      using assms(2) by (simp add: reset_counters_def load_input_def)
    show "slots_ok (length (slots ?v)) (instructions p)"
      using assms(1) by (simp add: reset_counters_def load_input_def vm_with_limits_def)
  qed
  with r show ?thesis by (simp add: run_stream_def)
qed

text \<open>In datagram mode this fails: a \<open>ReadSlice\<close> longer than the datagram moves the
  cursor past the end of the input, and with a length near \<open>2^64\<close> the next fixed-width
  read panics even in the release profile.\<close>

theorem datagram_run_can_panic:
  "snd (run False \<lparr>instructions = [LoadConst (2^64 - 3) 1, ReadSlice 1 2, ReadU32 3 False, Return],
       slot_count = 4\<rparr> (load_input [1, 2, 3, 4] (vm_new 4))) = Panicked"
  by code_simp

end
