(* ===== verification/Nfdl_Ast.thy ===== *)
theory Nfdl_Ast
  imports Hash_Map
begin

text \<open>
  The abstract syntax of NFDL protocols (crates/nfdl-syntax/src/ast.rs): types, expressions,
  message bodies, layer bindings and state machines. Structs are records, enums are
  datatypes with the source's constructors (prefixed where HOL owns the name: \<open>Not\<close>,
  \<open>And\<close>, \<open>Or\<close>, \<open>Int\<close>). \<open>u32\<close> source orders are \<open>nat\<close>; an \<open>i64\<close> literal is an
  \<open>int\<close>, converted by \<open>i64_as_u64\<close> where the code casts it.
\<close>

record span =
  span_start :: nat
  span_end :: nat

datatype bin_op =
    OpOr | OpAnd | OpBitOr | OpBitXor | OpBitAnd
  | OpEq | OpNe | OpGt | OpLt | OpGe | OpLe
  | OpShl | OpShr | OpAdd | OpSub | OpMul | OpDiv | OpMod

datatype unary_op = UNot | UBitNot | UNeg

datatype expr =
    Ident string
  | IntLit int
  | StrLit string
  | Binary bin_op expr expr
  | Unary unary_op expr
  | Ternary expr expr expr
  | Coalesce expr expr
  | Call string "expr list"
  | Tuple "expr list"
  | FieldOf expr string

datatype nfdl_type =
    U8 | U16 | U24 | U32
  | Bytes expr
  | BytesRest | BytesEof | BytesStream
  | Bitfield nat
  | MessageRef string

record validate =
  v_expr :: expr
  v_message :: string
  v_order :: nat

record field =
  f_name :: string
  f_ty :: nfdl_type
  f_validate :: "validate option"
  f_conditional :: "expr option"
  f_order :: nat
  f_span :: span

record let_binding =
  l_name :: string
  l_value :: expr
  l_order :: nat

record carry =
  c_name :: string
  c_ty :: nfdl_type
  c_init :: expr

record next_stmt =
  n_name :: string
  n_value :: expr

record loop =
  p_name :: string
  p_carries :: "carry list"
  p_condition :: expr
  p_body :: "field list"
  p_nexts :: "next_stmt list"
  p_order :: nat

text \<open>\<open>Match\<close> and \<open>MatchArm\<close> are mutually recursive, so they are datatypes with selectors.\<close>

datatype match =
    Match (m_tag: expr) (m_arms: "match_arm list") (m_order: nat)
and match_arm =
    MatchArm (a_case: "int option") (a_fields: "field list") (a_lets: "let_binding list")
      (a_loops: "loop list") (a_validates: "validate list") (a_matches: "match list")

record message =
  msg_name :: string
  msg_doc :: "string option"
  msg_fields :: "field list"
  msg_lets :: "let_binding list"
  msg_loops :: "loop list"
  msg_validates :: "validate list"
  msg_matches :: "match list"

record bind =
  b_layer :: string
  b_source :: string
  b_field :: string
  b_when :: expr

datatype action = SetVar string expr | Emit string

record transition =
  t_from_state :: "string option"
  t_msg_type :: string
  t_guard :: "expr option"
  t_to_state :: string
  t_actions :: "action list"

record state =
  s_name :: string
  s_transitions :: "transition list"

record state_machine =
  sm_name :: string
  sm_states :: "state list"
  sm_initial :: string
  sm_key :: "expr option"

record protocol =
  pr_name :: string
  pr_doc :: "string option"
  pr_endian :: string
  pr_mode :: string
  pr_eof :: string
  pr_messages :: "message list"
  pr_binds :: "bind list"
  pr_state_machines :: "state_machine list"

definition protocol_default :: protocol where
  "protocol_default =
     \<lparr>pr_name = [], pr_doc = None, pr_endian = ''big'', pr_mode = ''datagram'', pr_eof = [],
      pr_messages = [], pr_binds = [], pr_state_machines = []\<rparr>"

text \<open>A field with nothing but a name, a type and a position, for the example protocols.\<close>

definition plain_field :: "string \<Rightarrow> nfdl_type \<Rightarrow> nat \<Rightarrow> field" where
  "plain_field name ty ord =
     \<lparr>f_name = name, f_ty = ty, f_validate = None, f_conditional = None, f_order = ord,
      f_span = \<lparr>span_start = 0, span_end = 0\<rparr>\<rparr>"

text \<open>
  The weights that drive the termination of every walk over bodies: a \<open>match\<close> weighs more
  than everything in its arms.
\<close>

definition loop_weight :: "loop \<Rightarrow> nat" where
  "loop_weight lp = Suc (length (p_body lp))"

fun match_weight :: "match \<Rightarrow> nat" and arm_weight :: "match_arm \<Rightarrow> nat" where
  "match_weight (Match tag arms ord) = Suc (sum_list (map arm_weight arms))"
| "arm_weight (MatchArm c fs ls ps vs ms) =
     Suc (length fs + length ls + sum_list (map loop_weight ps) + length vs
       + sum_list (map (Suc \<circ> match_weight) ms))"

lemma arm_weight_in: "a \<in> set (m_arms m) \<Longrightarrow> arm_weight a < match_weight m"
  using member_le_sum_list [of "arm_weight a" "map arm_weight (m_arms m)"] by (cases m) auto

end
