(* ===== verification/Nfdl_Expr.thy ===== *)
theory Nfdl_Expr
  imports Nfdl_Ast Bytecode "HOL-Library.Monad_Syntax" "HOL-Library.Sublist"
begin

text \<open>
  Expressions (crates/nfdl-runtime/src/integration.rs): the direct evaluator \<open>eval_expr\<close>
  and the expression compiler \<open>emit_expr_to_slot\<close>, and the proof that compiled code
  computes what the evaluator computes, with the operand shape on which it does not.

  A \<open>HashMap<String, u64>\<close> is an association list. \<open>None\<close> is a panic: arithmetic overflow
  of \<open>+\<close>, \<open>*\<close>, shifts in the evaluator, of the \<open>u16\<close> slot counter in the compiler (dev
  profile, \<open>chk = True\<close>; in the release profile both wrap).
\<close>

subsection \<open>The evaluator\<close>

fun eval_binop :: "bool \<Rightarrow> bin_op \<Rightarrow> u64 \<Rightarrow> u64 \<Rightarrow> u64 option" where
  "eval_binop chk OpAdd l r = u64_add chk l r"
| "eval_binop chk OpSub l r = Some (u64_saturating_sub l r)"
| "eval_binop chk OpMul l r = u64_mul chk l r"
| "eval_binop chk OpDiv l r = Some (if r = 0 then 0 else l div r)"
| "eval_binop chk OpMod l r = Some (if r = 0 then 0 else l mod r)"
| "eval_binop chk OpEq l r = Some (if l = r then 1 else 0)"
| "eval_binop chk OpNe l r = Some (if l \<noteq> r then 1 else 0)"
| "eval_binop chk OpGt l r = Some (if r < l then 1 else 0)"
| "eval_binop chk OpLt l r = Some (if l < r then 1 else 0)"
| "eval_binop chk OpGe l r = Some (if r \<le> l then 1 else 0)"
| "eval_binop chk OpLe l r = Some (if l \<le> r then 1 else 0)"
| "eval_binop chk OpAnd l r = Some (if l \<noteq> 0 \<and> r \<noteq> 0 then 1 else 0)"
| "eval_binop chk OpOr l r = Some (if l \<noteq> 0 \<or> r \<noteq> 0 then 1 else 0)"
| "eval_binop chk OpBitAnd l r = Some (l AND r)"
| "eval_binop chk OpBitOr l r = Some (l OR r)"
| "eval_binop chk OpBitXor l r = Some (l XOR r)"
| "eval_binop chk OpShl l r = u64_shl chk l r"
| "eval_binop chk OpShr l r = u64_shr chk l r"

fun eval_unop :: "unary_op \<Rightarrow> u64 \<Rightarrow> u64" where
  "eval_unop UNot v = (if v = 0 then 1 else 0)"
| "eval_unop UBitNot v = NOT v"
| "eval_unop UNeg v = 0 - v"

definition var_or_zero :: "(string, u64) hmap \<Rightarrow> string \<Rightarrow> u64" where
  "var_or_zero vars name = (case hm_get vars name of Some v \<Rightarrow> v | None \<Rightarrow> 0)"

definition offset_var :: string where
  "offset_var = ''__current_offset''"

fun eval_expr :: "bool \<Rightarrow> expr \<Rightarrow> (string, u64) hmap \<Rightarrow> u64 option" where
  "eval_expr chk (IntLit v) vars = Some (i64_as_u64 v)"
| "eval_expr chk (Ident name) vars =
     Some (if name = offset_var then var_or_zero vars offset_var else var_or_zero vars name)"
| "eval_expr chk (Binary op left right) vars =
     do { l \<leftarrow> eval_expr chk left vars; r \<leftarrow> eval_expr chk right vars; eval_binop chk op l r }"
| "eval_expr chk (Unary op e) vars =
     do { v \<leftarrow> eval_expr chk e vars; Some (eval_unop op v) }"
| "eval_expr chk (Ternary cond then_branch else_branch) vars =
     do { c \<leftarrow> eval_expr chk cond vars;
          if c \<noteq> 0 then eval_expr chk then_branch vars else eval_expr chk else_branch vars }"
| "eval_expr chk (Coalesce value dflt) vars =
     do { v \<leftarrow> eval_expr chk value vars;
          if v \<noteq> 0 then Some v else eval_expr chk dflt vars }"
| "eval_expr chk (Call name args) vars = Some 0"
| "eval_expr chk (Tuple es) vars = Some 0"
| "eval_expr chk (FieldOf e f) vars = Some 0"
| "eval_expr chk (StrLit s) vars = Some 0"

subsection \<open>The compiler\<close>

text \<open>\<open>slot + 1\<close> on a \<open>u16\<close>.\<close>

definition slot_inc :: "bool \<Rightarrow> nat \<Rightarrow> nat option" where
  "slot_inc chk s = (if s + 1 < 65536 then Some (s + 1) else if chk then None else Some 0)"

text \<open>\<open>instructions.len() as u16\<close>: the cast truncates in every profile.\<close>

definition here :: "instruction list \<Rightarrow> nat" where
  "here code = length code mod 65536"

text \<open>The \<open>if let \<dots> = &mut instructions[idx]\<close> back-patches.\<close>

definition patch_jump_if_zero :: "nat \<Rightarrow> nat \<Rightarrow> instruction list \<Rightarrow> instruction list" where
  "patch_jump_if_zero idx t code =
     (case code ! idx of JumpIfZero c _ \<Rightarrow> code[idx := JumpIfZero c t] | _ \<Rightarrow> code)"

definition patch_jump :: "nat \<Rightarrow> nat \<Rightarrow> instruction list \<Rightarrow> instruction list" where
  "patch_jump idx t code = (case code ! idx of Jump _ \<Rightarrow> code[idx := Jump t] | _ \<Rightarrow> code)"

fun bytecode_binop :: "bin_op \<Rightarrow> bytecode_bin_op" where
  "bytecode_binop OpAdd = BAdd"
| "bytecode_binop OpSub = BSub"
| "bytecode_binop OpMul = BMul"
| "bytecode_binop OpDiv = BDiv"
| "bytecode_binop OpMod = BMod"
| "bytecode_binop OpEq = BEq"
| "bytecode_binop OpNe = BNe"
| "bytecode_binop OpGt = BGt"
| "bytecode_binop OpLt = BLt"
| "bytecode_binop OpGe = BGe"
| "bytecode_binop OpLe = BLe"
| "bytecode_binop OpAnd = BAnd"
| "bytecode_binop OpOr = BOr"
| "bytecode_binop OpBitAnd = BBitAnd"
| "bytecode_binop OpBitOr = BBitOr"
| "bytecode_binop OpBitXor = BBitXor"
| "bytecode_binop OpShl = BShl"
| "bytecode_binop OpShr = BShr"

fun bytecode_unop :: "unary_op \<Rightarrow> bytecode_unary_op" where
  "bytecode_unop UNot = BNot"
| "bytecode_unop UBitNot = BBitNot"
| "bytecode_unop UNeg = BNeg"

text \<open>The slot a dotted or bare field expression resolves to, if any.\<close>

fun field_slot :: "(string, nat) hmap \<Rightarrow> expr \<Rightarrow> string \<Rightarrow> nat option" where
  "field_slot vars (Ident base) fld =
     (case hm_get vars (dotted base fld) of
        Some s \<Rightarrow> Some s
      | None \<Rightarrow> (case hm_get vars fld of Some s \<Rightarrow> Some s | None \<Rightarrow> hm_get vars base))"
| "field_slot vars _ fld = None"

definition emit_zero :: "bool \<Rightarrow> u64 \<Rightarrow> instruction list \<Rightarrow> nat \<Rightarrow> (instruction list \<times> nat \<times> nat) option" where
  "emit_zero chk value code ns =
     do { n \<leftarrow> slot_inc chk ns; Some (code @ [LoadConst value ns], ns, n) }"

text \<open>The result is the extended code, the slot of the value and the next free slot.\<close>

fun emit_expr_to_slot ::
    "bool \<Rightarrow> expr \<Rightarrow> (string, nat) hmap \<Rightarrow> instruction list \<Rightarrow> nat \<Rightarrow> nat
      \<Rightarrow> (instruction list \<times> nat \<times> nat) option" where
  "emit_expr_to_slot chk (IntLit v) vars code ns off = emit_zero chk (i64_as_u64 v) code ns"
| "emit_expr_to_slot chk (Ident name) vars code ns off =
     (if name = offset_var then Some (code, off, ns)
      else case hm_get vars name of
             Some s \<Rightarrow> Some (code, s, ns)
           | None \<Rightarrow> emit_zero chk 0 code ns)"
| "emit_expr_to_slot chk (Binary op left right) vars code ns off =
     do { (code1, l_slot, next1) \<leftarrow> emit_expr_to_slot chk left vars code ns off;
          (code2, r_slot, next2) \<leftarrow> emit_expr_to_slot chk right vars code1 next1 off;
          n \<leftarrow> slot_inc chk next2;
          Some (code2 @ [BinOp (bytecode_binop op) l_slot r_slot next2], next2, n) }"
| "emit_expr_to_slot chk (Unary op e) vars code ns off =
     do { (code1, val_slot, next1) \<leftarrow> emit_expr_to_slot chk e vars code ns off;
          n \<leftarrow> slot_inc chk next1;
          Some (code1 @ [UnaryOp (bytecode_unop op) val_slot next1], next1, n) }"
| "emit_expr_to_slot chk (Ternary cond then_branch else_branch) vars code ns off =
     do { (code1, c_slot, dst) \<leftarrow> emit_expr_to_slot chk cond vars code ns off;
          (code2, t_slot, after_then) \<leftarrow>
             emit_expr_to_slot chk then_branch vars (code1 @ [JumpIfZero c_slot 0]) dst off;
          let code3 = code2 @ [CopySlot t_slot dst, Jump 0];
              code4 = patch_jump_if_zero (length code1) (here code3) code3;
              jmp_to_end = length code2 + 1 in
          do { (code5, e_slot, n3) \<leftarrow> emit_expr_to_slot chk else_branch vars code4 after_then off;
               let code6 = code5 @ [CopySlot e_slot dst] in
               Some (patch_jump jmp_to_end (here code6) code6, dst, n3) } }"
| "emit_expr_to_slot chk (Coalesce value dflt) vars code ns off =
     do { (code1, v_slot, dst) \<leftarrow> emit_expr_to_slot chk value vars code ns off;
          let code2 = code1 @ [JumpIfZero v_slot 0, CopySlot v_slot dst, Jump 0];
              code3 = patch_jump_if_zero (length code1) (here code2) code2;
              jmp_to_end = length code1 + 2 in
          do { (code4, d_slot, n2) \<leftarrow> emit_expr_to_slot chk dflt vars code3 dst off;
               let code5 = code4 @ [CopySlot d_slot dst] in
               Some (patch_jump jmp_to_end (here code5) code5, dst, n2) } }"
| "emit_expr_to_slot chk (Call name args) vars code ns off = emit_zero chk 0 code ns"
| "emit_expr_to_slot chk (Tuple es) vars code ns off = emit_zero chk 0 code ns"
| "emit_expr_to_slot chk (FieldOf e fld) vars code ns off =
     (case field_slot vars e fld of
        Some s \<Rightarrow> Some (code, s, ns)
      | None \<Rightarrow> emit_zero chk 0 code ns)"
| "emit_expr_to_slot chk (StrLit s) vars code ns off = emit_zero chk 0 code ns"

subsection \<open>The shape of emitted code\<close>

lemma here_id [simp]: "length code < 65536 \<Longrightarrow> here code = length code"
  by (simp add: here_def)

lemma slot_inc_SomeD [dest]: "slot_inc True s = Some n \<Longrightarrow> n = Suc s \<and> Suc s < 65536"
  by (auto simp: slot_inc_def split: if_splits)

lemma length_patch [simp]:
  "length (patch_jump_if_zero idx t code) = length code"
  "length (patch_jump idx t code) = length code"
  by (simp_all add: patch_jump_if_zero_def patch_jump_def split: instruction.split)

lemma nth_patch:
  "i \<noteq> idx \<Longrightarrow> patch_jump_if_zero idx t code ! i = code ! i"
  "i \<noteq> idx \<Longrightarrow> patch_jump idx t code ! i = code ! i"
  by (simp_all add: patch_jump_if_zero_def patch_jump_def split: instruction.split)

lemma nth_patched:
  "idx < length code \<Longrightarrow> code ! idx = JumpIfZero c u \<Longrightarrow>
   patch_jump_if_zero idx t code ! idx = JumpIfZero c t"
  "idx < length code \<Longrightarrow> code ! idx = Jump u \<Longrightarrow> patch_jump idx t code ! idx = Jump t"
  by (simp_all add: patch_jump_if_zero_def patch_jump_def)

lemma prefix_patch [emit_intros]:
  assumes "prefix code c" and "length code \<le> idx"
  shows "prefix code (patch_jump_if_zero idx t c)" "prefix code (patch_jump idx t c)"
  using assms
  by (auto simp: patch_jump_if_zero_def patch_jump_def prefix_def list_update_append
      split: instruction.split)

lemma prefix_append_codeD: "prefix (code @ js) c \<Longrightarrow> prefix code c"
  by (auto simp: prefix_def)

lemma prefix_length_append: "prefix (code @ js) c \<Longrightarrow> length code + length js \<le> length c"
  by (auto simp: prefix_def)

lemma emit_zeroD:
  "emit_zero chk x code ns = Some (code', r, n) \<Longrightarrow>
   code' = code @ [LoadConst x ns] \<and> r = ns \<and> slot_inc chk ns = Some n"
  by (auto simp: emit_zero_def bind_eq_Some_conv)

text \<open>The steps of compiling a ternary and a coalesce, with the back-patches placed.\<close>

lemma emit_TernaryE:
  assumes "emit_expr_to_slot chk (Ternary c t f) vars code ns off = Some (code', r, n)"
  obtains code1 c_slot code2 t_slot after_then code3 code5 e_slot code6 where
    "emit_expr_to_slot chk c vars code ns off = Some (code1, c_slot, r)"
    "emit_expr_to_slot chk t vars (code1 @ [JumpIfZero c_slot 0]) r off
       = Some (code2, t_slot, after_then)"
    "code3 = code2 @ [CopySlot t_slot r, Jump 0]"
    "emit_expr_to_slot chk f vars (patch_jump_if_zero (length code1) (here code3) code3)
       after_then off = Some (code5, e_slot, n)"
    "code6 = code5 @ [CopySlot e_slot r]"
    "code' = patch_jump (length code2 + 1) (here code6) code6"
  using assms by (auto simp: bind_eq_Some_conv Let_def)

lemma emit_CoalesceE:
  assumes "emit_expr_to_slot chk (Coalesce v d) vars code ns off = Some (code', r, n)"
  obtains code1 v_slot code2 code4 d_slot code5 where
    "emit_expr_to_slot chk v vars code ns off = Some (code1, v_slot, r)"
    "code2 = code1 @ [JumpIfZero v_slot 0, CopySlot v_slot r, Jump 0]"
    "emit_expr_to_slot chk d vars (patch_jump_if_zero (length code1) (here code2) code2) r off
       = Some (code4, d_slot, n)"
    "code5 = code4 @ [CopySlot d_slot r]"
    "code' = patch_jump (length code1 + 2) (here code5) code5"
  using assms by (auto simp: bind_eq_Some_conv Let_def)

text \<open>The compiler only appends: the code before it is never touched.\<close>

lemma emit_expr_prefix:
  "emit_expr_to_slot chk e vars code ns off = Some (code', r, n) \<Longrightarrow> prefix code code'"
proof (induction e arbitrary: code ns code' r n)
  case (Ternary c t f)
  from Ternary.prems show ?case
  proof (rule emit_TernaryE)
    fix code1 c_slot code2 t_slot after_then code3 code5 e_slot code6
    assume 1: "emit_expr_to_slot chk c vars code ns off = Some (code1, c_slot, r)"
      and 2: "emit_expr_to_slot chk t vars (code1 @ [JumpIfZero c_slot 0]) r off
                = Some (code2, t_slot, after_then)"
      and 3: "code3 = code2 @ [CopySlot t_slot r, Jump 0]"
      and 4: "emit_expr_to_slot chk f vars (patch_jump_if_zero (length code1) (here code3) code3)
                after_then off = Some (code5, e_slot, n)"
      and 5: "code6 = code5 @ [CopySlot e_slot r]"
      and 6: "code' = patch_jump (length code2 + 1) (here code6) code6"
    note p1 = Ternary.IH(1) [OF 1] and p2 = prefix_append_codeD [OF Ternary.IH(2) [OF 2]]
    have pc: "prefix code code3" unfolding 3 using p1 p2 by (metis prefix_order.trans prefix_append)
    have "prefix code code5"
      using prefix_patch(1) [OF pc prefix_length_le [OF p1]] Ternary.IH(3) [OF 4]
      by (metis prefix_order.trans)
    then show "prefix code code'"
      unfolding 6 5 using prefix_length_le [OF p1] prefix_length_le [OF p2]
      by (intro emit_intros) auto
  qed
next
  case (Coalesce v d)
  from Coalesce.prems show ?case
  proof (rule emit_CoalesceE)
    fix code1 v_slot code2 code4 d_slot code5
    assume 1: "emit_expr_to_slot chk v vars code ns off = Some (code1, v_slot, r)"
      and 2: "code2 = code1 @ [JumpIfZero v_slot 0, CopySlot v_slot r, Jump 0]"
      and 3: "emit_expr_to_slot chk d vars (patch_jump_if_zero (length code1) (here code2) code2)
                r off = Some (code4, d_slot, n)"
      and 4: "code5 = code4 @ [CopySlot d_slot r]"
      and 5: "code' = patch_jump (length code1 + 2) (here code5) code5"
    note p1 = Coalesce.IH(1) [OF 1]
    then have pc: "prefix code code2" unfolding 2 by simp
    have "prefix code code4"
      using prefix_patch(1) [OF pc prefix_length_le [OF p1]] Coalesce.IH(2) [OF 3]
      by (metis prefix_order.trans)
    then show "prefix code code'"
      unfolding 5 4 using prefix_length_le [OF p1] by (intro emit_intros) auto
  qed
next
  case (Binary op el er)
  from Binary.prems obtain code1 l_slot next1 code2 r_slot next2 where
    "emit_expr_to_slot chk el vars code ns off = Some (code1, l_slot, next1)"
    "emit_expr_to_slot chk er vars code1 next1 off = Some (code2, r_slot, next2)"
    "code' = code2 @ [BinOp (bytecode_binop op) l_slot r_slot next2]"
    by (auto simp: bind_eq_Some_conv)
  with Binary.IH show ?case by (metis prefix_order.trans prefix_append)
qed (auto simp: bind_eq_Some_conv dest!: emit_zeroD split: if_splits option.splits)

text \<open>
  Well-formed emitted code: every slot it names is at most the next free slot \<open>n\<close>, every
  jump stays within the code emitted so far, every conditional jump goes forward as long as
  the program has fewer than the 65536 instructions a jump target can address.
\<close>

fun instr_ok :: "nat \<Rightarrow> nat \<Rightarrow> nat \<Rightarrow> instruction \<Rightarrow> bool" where
  "instr_ok n ip hi (ReadU8 s) = (s \<le> n)"
| "instr_ok n ip hi (ReadU16 s le) = (s \<le> n)"
| "instr_ok n ip hi (ReadU24 s le) = (s \<le> n)"
| "instr_ok n ip hi (ReadU32 s le) = (s \<le> n)"
| "instr_ok n ip hi (ReadSlice l s) = (l \<le> n \<and> s \<le> n)"
| "instr_ok n ip hi (ReadBits b s) = (s \<le> n)"
| "instr_ok n ip hi (ReadRest nm s) = (s \<le> n)"
| "instr_ok n ip hi (Validate s m) = (s \<le> n)"
| "instr_ok n ip hi (EmitField nm s) = (s \<le> n)"
| "instr_ok n ip hi (LoadConst x s) = (s \<le> n)"
| "instr_ok n ip hi (BinOp op l r d) = (l \<le> n \<and> r \<le> n \<and> d \<le> n)"
| "instr_ok n ip hi (UnaryOp op r d) = (r \<le> n \<and> d \<le> n)"
| "instr_ok n ip hi (CopySlot r d) = (r \<le> n \<and> d \<le> n)"
| "instr_ok n ip hi (UpdateOffset s) = (s \<le> n)"
| "instr_ok n ip hi (Jump t) = (t \<le> hi)"
| "instr_ok n ip hi (JumpIfZero c t) = (c \<le> n \<and> (ip < t \<or> 65536 \<le> hi) \<and> t \<le> hi)"
| "instr_ok n ip hi Return = True"

definition emits :: "nat \<Rightarrow> instruction list \<Rightarrow> nat \<Rightarrow> instruction list \<Rightarrow> bool" where
  "emits n code n' code' \<longleftrightarrow> n \<le> n' \<and> prefix code code' \<and>
     (\<forall>i. length code \<le> i \<and> i < length code' \<longrightarrow> instr_ok n' i (length code') (code' ! i))"

lemma instr_ok_mono:
  "instr_ok n ip hi i \<Longrightarrow> n \<le> n' \<Longrightarrow> hi \<le> hi' \<Longrightarrow> instr_ok n' ip hi' i"
  by (cases i) auto

lemma emits_refl [simp, intro]: "emits n code n code"
  by (auto simp: emits_def)

lemma emits_leD: "emits n code n' code' \<Longrightarrow> n \<le> n'"
  by (simp add: emits_def)

lemma emits_prefixD: "emits n code n' code' \<Longrightarrow> prefix code code'"
  by (simp add: emits_def)

lemma emits_trans:
  assumes "emits n code n1 code1" "emits n1 code1 n2 code2"
  shows "emits n code n2 code2"
proof -
  have "instr_ok n2 i (length code2) (code2 ! i)" if "length code \<le> i" "i < length code2" for i
  proof (cases "i < length code1")
    case True
    with that assms have "instr_ok n1 i (length code1) (code1 ! i)" "code2 ! i = code1 ! i"
      by (auto simp: emits_def prefix_def nth_append)
    with assms show ?thesis
      by (auto simp: emits_def dest: prefix_length_le intro: instr_ok_mono)
  qed (use that assms in \<open>auto simp: emits_def\<close>)
  with assms show ?thesis by (auto simp: emits_def intro: prefix_order.trans)
qed

lemma emits_weaken: "emits n code n1 code1 \<Longrightarrow> n1 \<le> n2 \<Longrightarrow> emits n code n2 code1"
  by (auto simp: emits_def intro: instr_ok_mono)

lemma emits_snoc:
  "emits n code n1 c \<Longrightarrow> n1 \<le> n' \<Longrightarrow> instr_ok n' (length c) (Suc (length c)) i \<Longrightarrow>
   emits n code n' (c @ [i])"
  by (auto simp: emits_def nth_append less_Suc_eq intro: instr_ok_mono)

lemma emits_hole:
  assumes "emits n code n1 c" "emits n1 (c @ [JumpIfZero s u]) n2 c2" "s \<le> n1"
    and "length c < t \<or> 65536 \<le> length c2" "t \<le> length c2"
  shows "emits n code n2 (patch_jump_if_zero (length c) t c2)"
proof -
  let ?p = "patch_jump_if_zero (length c) t c2"
  have at: "c2 ! length c = JumpIfZero s u" and len: "length c < length c2"
    using assms(2) by (auto simp: emits_def prefix_def nth_append)
  have "instr_ok n2 i (length ?p) (?p ! i)" if "length code \<le> i" "i < length ?p" for i
  proof (cases i "length c" rule: linorder_cases)
    case less
    then have "instr_ok n1 i (length c) (c ! i)" "c2 ! i = c ! i"
      using assms(1,2) that by (auto simp: emits_def prefix_def nth_append)
    with less len assms(2) show ?thesis by (auto simp: nth_patch emits_def intro: instr_ok_mono)
  next
    case equal
    with at len assms(2-5) show ?thesis by (auto simp: nth_patched emits_def)
  next
    case greater
    with that assms(2) show ?thesis by (auto simp: nth_patch emits_def)
  qed
  moreover have "prefix code ?p"
    using assms(1,2) by (intro prefix_patch(1)) (auto simp: emits_def prefix_def)
  ultimately show ?thesis using assms(1,2) by (auto simp: emits_def)
qed

lemma emits_patch_jump:
  assumes "emits n code n' c" "length code \<le> idx" "t \<le> length c"
  shows "emits n code n' (patch_jump idx t c)"
proof -
  have "instr_ok n' i (length c) (patch_jump idx t c ! i)"
    if "length code \<le> i" "i < length c" for i
    using assms that
    by (cases "i = idx") (auto simp: emits_def nth_patch patch_jump_def split: instruction.split)
  with assms prefix_patch(2) show ?thesis by (auto simp: emits_def)
qed

text \<open>A slot table whose slots are at most \<open>n\<close>.\<close>

definition slots_le :: "nat \<Rightarrow> (string, nat) hmap \<Rightarrow> bool" where
  "slots_le n m \<longleftrightarrow> (\<forall>k s. hm_get m k = Some s \<longrightarrow> s \<le> n)"

lemma slots_leD: "slots_le n m \<Longrightarrow> hm_get m k = Some s \<Longrightarrow> s \<le> n"
  by (auto simp: slots_le_def)

lemma slots_le_mono: "slots_le n m \<Longrightarrow> n \<le> n' \<Longrightarrow> slots_le n' m"
  by (auto simp: slots_le_def intro: le_trans)

lemma slots_le_put: "slots_le n m \<Longrightarrow> s \<le> n \<Longrightarrow> slots_le n (hm_put k s m)"
  by (auto simp: slots_le_def)

lemma field_slot_le: "field_slot vars e f = Some s \<Longrightarrow> slots_le n vars \<Longrightarrow> s \<le> n"
  by (cases e) (auto split: option.splits dest: slots_leD)

lemma emits_zero:
  "emit_zero True x code ns = Some (code', r, n) \<Longrightarrow> emits ns code n code' \<and> r \<le> n"
  by (auto dest!: emit_zeroD slot_inc_SomeD intro!: emits_snoc [OF emits_refl])

lemma here_le: "here code \<le> length code" "i < length code \<Longrightarrow> i < here code \<or> 65536 \<le> length code"
  by (auto simp: here_def not_le)

text \<open>The dev-profile compiler emits well-formed code for every expression.\<close>

lemma emit_expr_emits:
  assumes "emit_expr_to_slot True e vars code ns off = Some (code', r, n)"
    and "slots_le ns vars" "off \<le> ns"
  shows "emits ns code n code' \<and> r \<le> n"
  using assms
proof (induction e arbitrary: code ns code' r n)
  case (Binary op el er)
  from Binary.prems(1) obtain code1 l_slot next1 code2 r_slot where
    1: "emit_expr_to_slot True el vars code ns off = Some (code1, l_slot, next1)" and
    2: "emit_expr_to_slot True er vars code1 next1 off = Some (code2, r_slot, r)" and
    3: "n = Suc r" "code' = code2 @ [BinOp (bytecode_binop op) l_slot r_slot r]"
    by (auto simp: bind_eq_Some_conv)
  note len = prefix_length_le [OF emit_expr_prefix [OF 2]]
  have e1: "emits ns code next1 code1" "l_slot \<le> next1"
    using Binary.IH(1) [OF 1] Binary.prems 3 len by auto
  have e2: "emits next1 code1 r code2" "r_slot \<le> r"
    using Binary.IH(2) [OF 2] Binary.prems 3 emits_leD [OF e1(1)]
    by (auto intro: slots_le_mono)
  show ?case
    using emits_trans [OF e1(1) e2(1)] e1(2) e2(2) emits_leD [OF e2(1)] 3 by (auto intro!: emits_snoc)
next
  case (Unary op e)
  from Unary.prems(1) obtain code1 s where
    1: "emit_expr_to_slot True e vars code ns off = Some (code1, s, r)" and
    2: "n = Suc r" "code' = code1 @ [UnaryOp (bytecode_unop op) s r]"
    by (auto simp: bind_eq_Some_conv)
  have "emits ns code r code1" "s \<le> r" using Unary.IH [OF 1] Unary.prems 2 by auto
  with 2 show ?case by (auto intro!: emits_snoc)
next
  case (Ternary c t f)
  from Ternary.prems(1) show ?case
  proof (rule emit_TernaryE)
    fix code1 c_slot code2 t_slot a code3 code5 e_slot code6
    assume 1: "emit_expr_to_slot True c vars code ns off = Some (code1, c_slot, r)"
      and 2: "emit_expr_to_slot True t vars (code1 @ [JumpIfZero c_slot 0]) r off
                = Some (code2, t_slot, a)"
      and 3: "code3 = code2 @ [CopySlot t_slot r, Jump 0]"
      and 4: "emit_expr_to_slot True f vars (patch_jump_if_zero (length code1) (here code3) code3)
                a off = Some (code5, e_slot, n)"
      and 5: "code6 = code5 @ [CopySlot e_slot r]"
      and 6: "code' = patch_jump (length code2 + 1) (here code6) code6"
    note len2 = prefix_length_append [OF emit_expr_prefix [OF 2]]
    note len5 = prefix_length_le [OF emit_expr_prefix [OF 4]]
    have e1: "emits ns code r code1" "c_slot \<le> r"
      using Ternary.IH(1) [OF 1] Ternary.prems len2 len5 3 5 by auto
    have e2: "emits r (code1 @ [JumpIfZero c_slot 0]) a code2" "t_slot \<le> a"
      using Ternary.IH(2) [OF 2] Ternary.prems len2 len5 3 5 emits_leD [OF e1(1)]
      by (auto intro: slots_le_mono)
    have e3: "emits r (code1 @ [JumpIfZero c_slot 0]) a code3"
      using emits_snoc [OF emits_snoc [OF e2(1) order_refl, of "CopySlot t_slot r"] order_refl, of "Jump 0"]
        e2 emits_leD [OF e2(1)] 3 by auto
    have e4: "emits ns code a (patch_jump_if_zero (length code1) (here code3) code3)"
      using len2 3 here_le(1) [of code3] here_le(2) [of "length code1" code3]
      by (intro emits_hole [OF e1(1) e3 e1(2)]) auto
    have e5: "emits a (patch_jump_if_zero (length code1) (here code3) code3) n code5" "e_slot \<le> n"
      using Ternary.IH(3) [OF 4] Ternary.prems 5 emits_leD [OF e4] by (auto intro: slots_le_mono)
    note le = emits_leD [OF e2(1)] emits_leD [OF e5(1)]
    have "emits ns code n code6"
      unfolding 5 using e5(2) le by (intro emits_snoc [OF emits_trans [OF e4 e5(1)] order_refl]) auto
    then have "emits ns code n code'"
      unfolding 6 using len2 prefix_length_le [OF emit_expr_prefix [OF 1]]
      by (intro emits_patch_jump here_le) auto
    with le show ?case by auto
  qed
next
  case (Coalesce v d)
  from Coalesce.prems(1) show ?case
  proof (rule emit_CoalesceE)
    fix code1 v_slot code2 code4 d_slot code5
    assume 1: "emit_expr_to_slot True v vars code ns off = Some (code1, v_slot, r)"
      and 2: "code2 = code1 @ [JumpIfZero v_slot 0, CopySlot v_slot r, Jump 0]"
      and 3: "emit_expr_to_slot True d vars (patch_jump_if_zero (length code1) (here code2) code2)
                r off = Some (code4, d_slot, n)"
      and 4: "code5 = code4 @ [CopySlot d_slot r]"
      and 5: "code' = patch_jump (length code1 + 2) (here code5) code5"
    note len = prefix_length_le [OF emit_expr_prefix [OF 3]]
    have e1: "emits ns code r code1" "v_slot \<le> r"
      using Coalesce.IH(1) [OF 1] Coalesce.prems len 2 4 by auto
    have "emits r (code1 @ [JumpIfZero v_slot 0]) r
        (((code1 @ [JumpIfZero v_slot 0]) @ [CopySlot v_slot r]) @ [Jump 0])"
      using e1(2)
      by (intro emits_snoc [OF emits_snoc [OF emits_refl order_refl] order_refl]) auto
    then have e2: "emits r (code1 @ [JumpIfZero v_slot 0]) r code2" using 2 by simp
    have e3: "emits ns code r (patch_jump_if_zero (length code1) (here code2) code2)"
      using 2 here_le(1) [of code2] here_le(2) [of "length code1" code2]
      by (intro emits_hole [OF e1(1) e2 e1(2)]) auto
    have e4: "emits r (patch_jump_if_zero (length code1) (here code2) code2) n code4" "d_slot \<le> n"
      using Coalesce.IH(2) [OF 3] Coalesce.prems 4 emits_leD [OF e3] by (auto intro: slots_le_mono)
    have "emits ns code n code5"
      unfolding 4 using e4(2) emits_leD [OF e4(1)]
      by (intro emits_snoc [OF emits_trans [OF e3 e4(1)] order_refl]) auto
    then have "emits ns code n code'"
      unfolding 5 using prefix_length_le [OF emit_expr_prefix [OF 1]]
      by (intro emits_patch_jump here_le) auto
    with emits_leD [OF e4(1)] show ?case by auto
  qed
qed (auto dest: slots_leD field_slot_le emits_zero split: if_splits option.splits)

end
