(* ===== verification/Expr_Correct.thy ===== *)
theory Expr_Correct
  imports Nfdl_Expr
begin

text \<open>
  Correctness of the expression compiler against the evaluator
  (crates/nfdl-runtime/src/integration.rs): running the code of an expression leaves the
  value \<open>eval_expr\<close> computes in the result slot and changes no slot that was in use, for
  every expression that keeps a dangling result (the slot of a ternary or coalesce whose
  branches allocate nothing, which is also the next free slot) out of the left operand of
  a binary operator; and the expressions for which that fails.
\<close>

subsection \<open>Runs of emitted code\<close>

inductive vm_runs :: "bool \<Rightarrow> instruction list \<Rightarrow> bool \<Rightarrow> nat \<Rightarrow> vm \<Rightarrow> nat \<Rightarrow> vm \<Rightarrow> bool"
  for chk prog stream where
  runs_here: "vm_runs chk prog stream ip v ip v"
| runs_step: "ip < length prog \<Longrightarrow> exec_instr chk stream ip (prog ! ip) (tick v) = Goto w ip1 \<Longrightarrow>
    vm_runs chk prog stream ip1 w ip2 u \<Longrightarrow> vm_runs chk prog stream ip v ip2 u"

lemma vm_runs_trans:
  "vm_runs chk prog stream ip v ip1 w \<Longrightarrow> vm_runs chk prog stream ip1 w ip2 u \<Longrightarrow>
   vm_runs chk prog stream ip v ip2 u"
  by (induction rule: vm_runs.induct) (auto intro: runs_step)

lemma vm_runs_snoc:
  "vm_runs chk prog stream ip v ip1 w \<Longrightarrow> ip1 < length prog \<Longrightarrow>
   exec_instr chk stream ip1 (prog ! ip1) (tick w) = Goto u ip2 \<Longrightarrow>
   vm_runs chk prog stream ip v ip2 u"
  by (rule vm_runs_trans) (auto intro: vm_runs.intros)

lemma vm_runs_frame:
  "vm_runs chk prog stream ip v ip' w \<Longrightarrow>
   lims w = lims v \<and> instructions_executed v \<le> instructions_executed w"
  by (induction rule: vm_runs.induct) (auto dest: exec_Goto_tick)

text \<open>A run within the instruction limit is what the interpreter loop does.\<close>

lemma vm_runs_interpret:
  "vm_runs chk prog stream ip v ip' w \<Longrightarrow>
   instructions_executed w \<le> Suc (max_instructions (lims v)) \<Longrightarrow>
   interpret_vm chk prog stream ip v = interpret_vm chk prog stream ip' w"
proof (induction rule: vm_runs.induct)
  case (runs_step ip v w ip1 ip2 u)
  have "instructions_executed v < instructions_executed u" "lims w = lims v"
    using exec_Goto_tick [OF runs_step.hyps(2)] vm_runs_frame [OF runs_step.hyps(3)] by auto
  with runs_step show ?case by (subst interpret_vm.simps) simp
qed simp

text \<open>
  What the code of an expression may do to the VM: write slots from \<open>n\<close> on, and count at
  most \<open>k\<close> instructions.
\<close>

definition computes :: "nat \<Rightarrow> nat \<Rightarrow> vm \<Rightarrow> vm \<Rightarrow> bool" where
  "computes n k v w \<longleftrightarrow>
     input w = input v \<and> input_pos w = input_pos v \<and> bit_offset w = bit_offset v \<and>
     lims w = lims v \<and> loop_iterations w = loop_iterations v \<and> emitted w = emitted v \<and>
     rest_starts w = rest_starts v \<and> length (slots w) = length (slots v) \<and>
     (\<forall>s<n. slots w ! s = slots v ! s) \<and>
     instructions_executed w \<le> instructions_executed v + k"

lemma computes_refl [simp]: "computes n k v v"
  by (simp add: computes_def)

lemma computes_lengthD: "computes n k v w \<Longrightarrow> length (slots w) = length (slots v)"
  by (simp add: computes_def)

lemma computes_nthD: "computes n k v w \<Longrightarrow> s < n \<Longrightarrow> slots w ! s = slots v ! s"
  by (simp add: computes_def)

lemma computes_trans:
  "computes n k v w \<Longrightarrow> computes m l w u \<Longrightarrow> n \<le> m \<Longrightarrow> k + l \<le> j \<Longrightarrow> computes n j v u"
  by (auto simp: computes_def)

lemma computes_mono: "computes m k v w \<Longrightarrow> n \<le> m \<Longrightarrow> k \<le> j \<Longrightarrow> computes n j v w"
  by (auto simp: computes_def)

lemma computes_tick: "computes n 1 v (tick v)"
  by (simp add: computes_def)

lemma computes_write: "n \<le> s \<Longrightarrow> computes n 1 v (write_slot s x (tick v))"
  by (simp add: computes_def) (simp add: write_slot_def)

lemma slots_write_slot [simp]: "s < length (slots v) \<Longrightarrow> slots (write_slot s x v) ! s = x"
  by (simp add: write_slot_def)

text \<open>Single instructions at the end of a run.\<close>

lemma run_write:
  assumes "vm_runs chk prog stream ip v ip1 w" "computes n k v w"
    and "ip1 < length prog"
    and "exec_instr chk stream ip1 (prog ! ip1) (tick w) = Goto (write_slot s x (tick w)) ip2"
    and "n \<le> s" "Suc k \<le> j"
  shows "vm_runs chk prog stream ip v ip2 (write_slot s x (tick w))"
    and "computes n j v (write_slot s x (tick w))"
  using vm_runs_snoc [OF assms(1,3,4)] computes_trans [OF assms(2) computes_write] assms(5,6) by auto

lemma exec_copy_write:
  "s < length (slots w) \<Longrightarrow>
   exec_instr chk stream ip (CopySlot s d) (tick w) = Goto (write_slot d (slots w ! s) (tick w)) (Suc ip)"
  by (simp add: exec_copy_def read_slot_def)

lemma exec_binop_write:
  "l < length (slots w) \<Longrightarrow> r < length (slots w) \<Longrightarrow>
   binop_value chk op (slots w ! l) (slots w ! r) = Some x \<Longrightarrow>
   exec_instr chk stream ip (BinOp op l r d) (tick w) = Goto (write_slot d x (tick w)) (Suc ip)"
  by (simp add: exec_binop_def read_slot_def)

lemma exec_unary_write:
  "s < length (slots w) \<Longrightarrow>
   exec_instr chk stream ip (UnaryOp op s d) (tick w)
     = Goto (write_slot d (unary_value op (slots w ! s)) (tick w)) (Suc ip)"
  by (simp add: exec_unary_def read_slot_def)

lemma exec_branch:
  "c < length (slots w) \<Longrightarrow> ip < t \<Longrightarrow>
   exec_instr chk stream ip (JumpIfZero c t) (tick w)
     = Goto (tick w) (if slots w ! c = 0 then t else Suc ip)"
  by (simp add: exec_jump_if_zero_def read_slot_def)

lemma binop_agrees: "binop_value chk (bytecode_binop op) l r = eval_binop chk op l r"
  by (cases op) (simp_all add: of_bool64_def)

lemma unop_agrees: "unary_value (bytecode_unop op) v = eval_unop op v"
  by (cases op) simp_all

subsection \<open>Dangling results\<close>

text \<open>Whether compiling the expression takes a new slot.\<close>

fun allocates :: "(string, nat) hmap \<Rightarrow> expr \<Rightarrow> bool" where
  "allocates vars (Ident name) \<longleftrightarrow> name \<noteq> offset_var \<and> hm_get vars name = None"
| "allocates vars (FieldOf e f) \<longleftrightarrow> field_slot vars e f = None"
| "allocates vars (Ternary c t f) \<longleftrightarrow> allocates vars c \<or> allocates vars t \<or> allocates vars f"
| "allocates vars (Coalesce v d) \<longleftrightarrow> allocates vars v \<or> allocates vars d"
| "allocates vars _ \<longleftrightarrow> True"

text \<open>A result slot that later temporaries do not reuse.\<close>

fun solid :: "(string, nat) hmap \<Rightarrow> expr \<Rightarrow> bool" where
  "solid vars (Ternary c t f) \<longleftrightarrow> allocates vars t \<or> allocates vars f"
| "solid vars (Coalesce v d) \<longleftrightarrow> allocates vars d"
| "solid vars _ \<longleftrightarrow> True"

text \<open>An expression that compiles to no code: its value already has a slot.\<close>

fun no_code :: "(string, nat) hmap \<Rightarrow> expr \<Rightarrow> bool" where
  "no_code vars (Ident name) \<longleftrightarrow> name = offset_var \<or> hm_get vars name \<noteq> None"
| "no_code vars _ \<longleftrightarrow> False"

fun clobber_free :: "(string, nat) hmap \<Rightarrow> expr \<Rightarrow> bool" where
  "clobber_free vars (Binary op l r) \<longleftrightarrow>
     clobber_free vars l \<and> clobber_free vars r \<and> (solid vars l \<or> no_code vars r)"
| "clobber_free vars (Unary op e) \<longleftrightarrow> clobber_free vars e"
| "clobber_free vars (Ternary c t f) \<longleftrightarrow>
     clobber_free vars c \<and> clobber_free vars t \<and> clobber_free vars f"
| "clobber_free vars (Coalesce v d) \<longleftrightarrow> clobber_free vars v \<and> clobber_free vars d"
| "clobber_free vars (FieldOf e f) \<longleftrightarrow> field_slot vars e f = None"
| "clobber_free vars _ \<longleftrightarrow> True"

definition slots_lt :: "nat \<Rightarrow> (string, nat) hmap \<Rightarrow> bool" where
  "slots_lt n m \<longleftrightarrow> (\<forall>k s. hm_get m k = Some s \<longrightarrow> s < n)"

lemma slots_ltD: "slots_lt n m \<Longrightarrow> hm_get m k = Some s \<Longrightarrow> s < n"
  by (auto simp: slots_lt_def)

lemma slots_lt_mono: "slots_lt n m \<Longrightarrow> n \<le> n' \<Longrightarrow> slots_lt n' m"
  by (auto simp: slots_lt_def intro: less_le_trans)

lemma slots_lt_le: "slots_lt n m \<Longrightarrow> slots_le n m"
  by (auto simp: slots_lt_def slots_le_def intro: less_imp_le)

lemma field_slot_lt: "field_slot vars e f = Some s \<Longrightarrow> slots_lt n vars \<Longrightarrow> s < n"
  by (cases e) (auto split: option.splits dest: slots_ltD)

lemma emit_expr_alloc:
  "emit_expr_to_slot True e vars code ns off = Some (code', r, n) \<Longrightarrow>
   ns \<le> n \<and> (allocates vars e \<longleftrightarrow> n \<noteq> ns)"
proof (induction e arbitrary: code ns code' r n)
  case (Ternary c t f)
  show ?case
    by (rule emit_TernaryE [OF Ternary.prems])
      (use Ternary.IH in \<open>fastforce simp del: emit_expr_to_slot.simps\<close>)
next
  case (Coalesce v d)
  show ?case
    by (rule emit_CoalesceE [OF Coalesce.prems])
      (use Coalesce.IH in \<open>fastforce simp del: emit_expr_to_slot.simps\<close>)
next
  case (Binary op el er)
  from Binary.prems(1) obtain code1 l_slot next1 code2 r_slot where
    "emit_expr_to_slot True el vars code ns off = Some (code1, l_slot, next1)"
    "emit_expr_to_slot True er vars code1 next1 off = Some (code2, r_slot, r)" "n = Suc r"
    by (auto simp: bind_eq_Some_conv)
  with Binary.IH show ?case by fastforce
next
  case (Unary op e)
  from Unary.prems(1) obtain code1 s where
    "emit_expr_to_slot True e vars code ns off = Some (code1, s, r)" "n = Suc r"
    by (auto simp: bind_eq_Some_conv)
  with Unary.IH show ?case by fastforce
qed (auto dest!: emit_zeroD split: if_splits option.splits)

lemma emit_expr_solid:
  assumes "emit_expr_to_slot True e vars code ns off = Some (code', r, n)"
    and "solid vars e" "slots_lt ns vars" "off < ns"
  shows "r < n"
proof (cases e)
  case (Ternary c t f)
  with assms(2) have "allocates vars t \<or> allocates vars f" by simp
  then show ?thesis
    by (rule_tac emit_TernaryE [OF assms(1) [unfolded Ternary]]) (fastforce dest: emit_expr_alloc)
next
  case (Coalesce v d)
  with assms(2) have "allocates vars d" by simp
  then show ?thesis
    by (rule_tac emit_CoalesceE [OF assms(1) [unfolded Coalesce]]) (fastforce dest: emit_expr_alloc)
qed (use assms in \<open>auto simp: bind_eq_Some_conv dest!: emit_zeroD dest: slots_ltD field_slot_lt
      split: if_splits option.splits\<close>)

subsection \<open>Compiled code in place\<close>

text \<open>The program holds the instructions of \<open>code\<close> at the addresses \<open>lo..<hi\<close>.\<close>

definition holds :: "nat \<Rightarrow> nat \<Rightarrow> instruction list \<Rightarrow> instruction list \<Rightarrow> bool" where
  "holds lo hi code prog \<longleftrightarrow> (\<forall>i. lo \<le> i \<and> i < hi \<longrightarrow> i < length prog \<and> prog ! i = code ! i)"

lemma holdsD: "holds lo hi code prog \<Longrightarrow> lo \<le> i \<Longrightarrow> i < hi \<Longrightarrow> i < length prog \<and> prog ! i = code ! i"
  by (simp add: holds_def)

lemma holds_sub:
  assumes "holds lo hi code prog" "lo \<le> lo'" "hi' \<le> hi"
    and "\<And>i. lo' \<le> i \<Longrightarrow> i < hi' \<Longrightarrow> code' ! i = code ! i"
  shows "holds lo' hi' code' prog"
  using assms by (auto simp: holds_def)

lemma prefix_nth: "prefix c d \<Longrightarrow> i < length c \<Longrightarrow> d ! i = c ! i"
  by (auto simp: prefix_def nth_append)

text \<open>Where the parts of a ternary end up.\<close>

lemma ternary_layout:
  assumes "emit_expr_to_slot True c vars code ns off = Some (code1, c_slot, r)"
    and "emit_expr_to_slot True t vars (code1 @ [JumpIfZero c_slot 0]) r off
           = Some (code2, t_slot, a)"
    and "code3 = code2 @ [CopySlot t_slot r, Jump 0]"
    and "emit_expr_to_slot True f vars (patch_jump_if_zero (length code1) (here code3) code3)
           a off = Some (code5, e_slot, n)"
    and "code6 = code5 @ [CopySlot e_slot r]"
    and "code' = patch_jump (length code2 + 1) (here code6) code6"
    and "length code' < 65536" "holds (length code) (length code') code' prog"
  defines "code4 \<equiv> patch_jump_if_zero (length code1) (here code3) code3"
  shows "holds (length code) (length code1) code1 prog"
    and "holds (length code1) (Suc (length code1)) (code1 @ [JumpIfZero c_slot (length code2 + 2)]) prog"
    and "holds (length (code1 @ [JumpIfZero c_slot 0])) (length code2) code2 prog"
    and "holds (length code2) (Suc (length code2)) (code2 @ [CopySlot t_slot r]) prog"
    and "holds (Suc (length code2)) (Suc (Suc (length code2)))
           (code2 @ [CopySlot t_slot r, Jump (length code')]) prog"
    and "holds (length code4) (length code5) code5 prog"
    and "holds (length code5) (Suc (length code5)) (code5 @ [CopySlot e_slot r]) prog"
    and "length code' = Suc (length code5)" "length code4 = length code2 + 2"
    and "length code \<le> length code1" "length code1 < length code2" "length code2 + 2 \<le> length code5"
proof -
  note p1 = emit_expr_prefix [OF assms(1)] and p2 = emit_expr_prefix [OF assms(2)]
    and p5 = emit_expr_prefix [OF assms(4)]
  note l1 = prefix_length_le [OF p1] and l2 = prefix_length_append [OF p2]
    and l5 = prefix_length_le [OF p5]
  show len: "length code' = Suc (length code5)" "length code4 = length code2 + 2"
    "length code \<le> length code1" "length code1 < length code2" "length code2 + 2 \<le> length code5"
    using l1 l2 l5 assms(3,5,6) by (auto simp: code4_def)
  have h6: "here code6 = length code'" "length code6 = length code'" using assms(5,6,7) by auto
  have h3: "here code3 = length code2 + 2" using len assms(3,7) by simp
  have low: "code' ! i = code4 ! i" if "i < length code2 + 2" "i \<noteq> length code2 + 1" for i
    using that len prefix_nth [OF p5, of i] assms(5,6) by (simp add: nth_patch nth_append code4_def)
  have c4: "code4 ! i = code3 ! i" if "i \<noteq> length code1" for i
    using that by (simp add: code4_def nth_patch)
  have c3: "code3 ! i = code2 ! i" if "i < length code2" for i
    using that assms(3) by (simp add: nth_append)
  have c2: "code2 ! i = code1 ! i" if "i < length code1" for i
    using that prefix_nth [OF p2, of i] by (simp add: nth_append)
  have jz: "code4 ! length code1 = JumpIfZero c_slot (length code2 + 2)"
  proof -
    have "code3 ! length code1 = JumpIfZero c_slot 0"
      using c3 [of "length code1"] len prefix_nth [OF p2, of "length code1"] by (simp add: nth_append)
    then show ?thesis using nth_patched(1) len assms(3) h3 unfolding code4_def by simp
  qed
  have jp: "code' ! Suc (length code2) = Jump (length code')"
  proof -
    have "code6 ! Suc (length code2) = Jump 0"
      using prefix_nth [OF p5, of "Suc (length code2)"] c4 [of "Suc (length code2)"] len assms(3,5)
      by (simp add: nth_append code4_def)
    then have "patch_jump (Suc (length code2)) (here code6) code6 ! Suc (length code2) = Jump (here code6)"
      using len h6(2) by (intro nth_patched(2)) auto
    then show ?thesis unfolding h6(1) using assms(6) [unfolded h6(1)] by (metis Suc_eq_plus1)
  qed
  note sub = holds_sub [OF assms(8)]
  show "holds (length code) (length code1) code1 prog"
    by (rule sub) (use len low c4 c3 c2 in auto)
  show "holds (length code1) (Suc (length code1)) (code1 @ [JumpIfZero c_slot (length code2 + 2)]) prog"
    by (rule sub) (use len low [of "length code1"] jz in \<open>auto simp: less_Suc_eq\<close>)
  show "holds (length (code1 @ [JumpIfZero c_slot 0])) (length code2) code2 prog"
    by (rule sub) (use len low c4 c3 in auto)
  show "holds (length code2) (Suc (length code2)) (code2 @ [CopySlot t_slot r]) prog"
    by (rule sub) (use len low [of "length code2"] c4 assms(3) in \<open>auto simp: less_Suc_eq\<close>)
  show "holds (Suc (length code2)) (Suc (Suc (length code2)))
           (code2 @ [CopySlot t_slot r, Jump (length code')]) prog"
    by (rule sub) (use len jp in \<open>auto simp: less_Suc_eq nth_append\<close>)
  have hi: "code' ! i = code6 ! i" if "length code2 + 2 \<le> i" for i
    using that assms(6) by (simp add: nth_patch)
  show "holds (length code4) (length code5) code5 prog"
    by (rule sub) (use len hi assms(5) in \<open>auto simp: nth_append\<close>)
  show "holds (length code5) (Suc (length code5)) (code5 @ [CopySlot e_slot r]) prog"
    by (rule sub) (use len hi [of "length code5"] assms(5) in \<open>auto simp: less_Suc_eq\<close>)
qed

lemma coalesce_layout:
  assumes "emit_expr_to_slot True v vars code ns off = Some (code1, v_slot, r)"
    and "code2 = code1 @ [JumpIfZero v_slot 0, CopySlot v_slot r, Jump 0]"
    and "emit_expr_to_slot True d vars (patch_jump_if_zero (length code1) (here code2) code2) r off
           = Some (code4, d_slot, n)"
    and "code5 = code4 @ [CopySlot d_slot r]"
    and "code' = patch_jump (length code1 + 2) (here code5) code5"
    and "length code' < 65536" "holds (length code) (length code') code' prog"
  defines "code3 \<equiv> patch_jump_if_zero (length code1) (here code2) code2"
  shows "holds (length code) (length code1) code1 prog"
    and "holds (length code1) (length code1 + 3)
           (code1 @ [JumpIfZero v_slot (length code1 + 3), CopySlot v_slot r, Jump (length code')]) prog"
    and "holds (length code3) (length code4) code4 prog"
    and "holds (length code4) (Suc (length code4)) (code4 @ [CopySlot d_slot r]) prog"
    and "length code' = Suc (length code4)" "length code3 = length code1 + 3"
    and "length code \<le> length code1" "length code1 + 3 \<le> length code4"
proof -
  note p1 = emit_expr_prefix [OF assms(1)] and p4 = emit_expr_prefix [OF assms(3)]
  show len: "length code' = Suc (length code4)" "length code3 = length code1 + 3"
    "length code \<le> length code1" "length code1 + 3 \<le> length code4"
    using prefix_length_le [OF p1] prefix_length_le [OF p4] assms(2,4,5) by (auto simp: code3_def)
  have h5: "here code5 = length code'" "length code5 = length code'" using assms(4,5,6) by auto
  have h2: "here code2 = length code1 + 3" using len assms(2,6) by simp
  have c3: "code3 = code1 @ [JumpIfZero v_slot (length code1 + 3), CopySlot v_slot r, Jump 0]"
    using assms(2) h2 by (simp add: code3_def patch_jump_if_zero_def list_update_append)
  have low: "code' ! i = code3 ! i" if "i < length code1 + 2" for i
    using that len prefix_nth [OF p4, of i] assms(4,5) by (simp add: nth_patch nth_append code3_def)
  have jp: "code' ! (length code1 + 2) = Jump (length code')"
  proof -
    have "code5 ! (length code1 + 2) = Jump 0"
      using prefix_nth [OF p4, of "length code1 + 2"] len assms(4) c3
      by (simp add: nth_append code3_def [symmetric])
    then have "patch_jump (length code1 + 2) (here code5) code5 ! (length code1 + 2) = Jump (here code5)"
      using len h5(2) by (intro nth_patched(2)) auto
    then show ?thesis unfolding h5(1) using assms(5) [unfolded h5(1)] by metis
  qed
  have hi: "code' ! i = code5 ! i" if "length code1 + 3 \<le> i" for i
    using that assms(5) by (simp add: nth_patch)
  note sub = holds_sub [OF assms(7)]
  show "holds (length code) (length code1) code1 prog"
    by (rule sub) (use len low c3 in \<open>auto simp: nth_append\<close>)
  show "holds (length code1) (length code1 + 3)
           (code1 @ [JumpIfZero v_slot (length code1 + 3), CopySlot v_slot r, Jump (length code')]) prog"
  proof (rule sub)
    fix i assume "length code1 \<le> i" "i < length code1 + 3"
    then consider "i = length code1" | "i = length code1 + 1" | "i = length code1 + 2" by linarith
    then show "(code1 @ [JumpIfZero v_slot (length code1 + 3), CopySlot v_slot r, Jump (length code')]) ! i
        = code' ! i"
      by cases (use low [of i] jp c3 in \<open>auto simp: nth_append\<close>)
  qed (use len in auto)
  show "holds (length code3) (length code4) code4 prog"
    by (rule sub) (use len hi assms(4) in \<open>auto simp: nth_append\<close>)
  show "holds (length code4) (Suc (length code4)) (code4 @ [CopySlot d_slot r]) prog"
    by (rule sub) (use len hi [of "length code4"] assms(4) in \<open>auto simp: less_Suc_eq\<close>)
qed

subsection \<open>The compiler computes what the evaluator computes\<close>

text \<open>The evaluator's variables are the values the slot table assigns to the names.\<close>

definition env_matches :: "(string, nat) hmap \<Rightarrow> nat \<Rightarrow> vm \<Rightarrow> (string, u64) hmap \<Rightarrow> bool" where
  "env_matches vars off v env \<longleftrightarrow>
     var_or_zero env offset_var = slots v ! off \<and>
     (\<forall>name. name \<noteq> offset_var \<longrightarrow>
        var_or_zero env name = (case hm_get vars name of Some s \<Rightarrow> slots v ! s | None \<Rightarrow> 0))"

lemma env_matches_computes:
  "env_matches vars off v env \<Longrightarrow> computes n k v w \<Longrightarrow> slots_lt n vars \<Longrightarrow> off < n \<Longrightarrow>
   env_matches vars off w env"
  by (auto simp: env_matches_def computes_def dest: slots_ltD split: option.splits)

lemma no_code_emit:
  assumes "no_code vars e" "emit_expr_to_slot chk e vars code ns off = Some (code', r, n)"
    and "env_matches vars off v env" "eval_expr chk' e env = Some x" "slots_lt m vars" "off < m"
  shows "code' = code \<and> n = ns \<and> r < m \<and> slots v ! r = x"
  using assms by (cases e) (auto simp: env_matches_def dest: slots_ltD split: if_splits option.splits)

text \<open>What the induction shows of the code of one expression.\<close>

definition runs_to_value ::
    "bool \<Rightarrow> instruction list \<Rightarrow> bool \<Rightarrow> nat \<Rightarrow> nat \<Rightarrow> nat \<Rightarrow> nat \<Rightarrow> vm \<Rightarrow> u64 \<Rightarrow> bool" where
  "runs_to_value chk prog stream lo hi ns r v x \<longleftrightarrow>
     (\<exists>w. vm_runs chk prog stream lo v hi w \<and> slots w ! r = x \<and> computes ns (hi - lo) v w)"

lemma value_mono: "runs_to_value chk prog stream lo hi m r v x \<Longrightarrow> n \<le> m \<Longrightarrow>
    runs_to_value chk prog stream lo hi n r v x"
  unfolding runs_to_value_def using computes_mono by blast

lemma value_trans:
  assumes "vm_runs chk prog stream lo v mid w" "computes ns k v w"
    and "runs_to_value chk prog stream mid hi m r w x" "ns \<le> m" "k + (hi - mid) \<le> hi - lo"
  shows "runs_to_value chk prog stream lo hi ns r v x"
proof -
  obtain u where u: "vm_runs chk prog stream mid w hi u" "slots u ! r = x" "computes m (hi - mid) w u"
    using assms(3) by (auto simp: runs_to_value_def)
  from vm_runs_trans [OF assms(1) u(1)] computes_trans [OF assms(2) u(3) assms(4,5)] u(2)
  show ?thesis by (auto simp: runs_to_value_def)
qed

lemma value_copy:
  assumes "runs_to_value chk prog stream lo hi ns s v x" "hi < length prog" "prog ! hi = CopySlot s d"
    and "s < length (slots v)" "d < length (slots v)" "ns \<le> d" "lo \<le> hi"
  shows "runs_to_value chk prog stream lo (Suc hi) ns d v x"
proof -
  obtain w where w: "vm_runs chk prog stream lo v hi w" "slots w ! s = x" "computes ns (hi - lo) v w"
    using assms(1) by (auto simp: runs_to_value_def)
  have ex: "exec_instr chk stream hi (prog ! hi) (tick w) = Goto (write_slot d x (tick w)) (Suc hi)"
    unfolding assms(3) using w(2) assms(4) computes_lengthD [OF w(3)] by (subst exec_copy_write) auto
  from run_write [OF w(1,3) assms(2) ex assms(6) order_refl] show ?thesis
    unfolding runs_to_value_def using assms(5,7) computes_lengthD [OF w(3)]
    by (intro exI [of _ "write_slot d x (tick w)"]) (auto simp: Suc_diff_le)
qed

lemma value_jump:
  assumes "runs_to_value chk prog stream lo hi ns r v x" "hi < length prog" "prog ! hi = Jump t"
    and "lo \<le> hi" "hi < t"
  shows "runs_to_value chk prog stream lo t ns r v x"
proof -
  obtain w where w: "vm_runs chk prog stream lo v hi w" "slots w ! r = x" "computes ns (hi - lo) v w"
    using assms(1) by (auto simp: runs_to_value_def)
  have "vm_runs chk prog stream lo v t (tick w)" using assms(3) by (intro vm_runs_snoc [OF w(1) assms(2)]) simp
  moreover have "computes ns (t - lo) v (tick w)"
    using assms(4,5) by (intro computes_trans [OF w(3) computes_tick]) auto
  ultimately show ?thesis using w(2) unfolding runs_to_value_def by auto
qed

text \<open>A conditional jump on a computed value.\<close>

lemma value_branch:
  assumes "runs_to_value chk prog stream lo hi ns c v y" "hi < length prog"
    and "prog ! hi = JumpIfZero c t" "c < length (slots v)" "hi < t" "lo \<le> hi"
  obtains w where "vm_runs chk prog stream lo v (if y = 0 then t else Suc hi) w"
    "computes ns (Suc (hi - lo)) v w" "slots w ! c = y"
proof -
  obtain w where w: "vm_runs chk prog stream lo v hi w" "slots w ! c = y" "computes ns (hi - lo) v w"
    using assms(1) by (auto simp: runs_to_value_def)
  have ex: "exec_instr chk stream hi (prog ! hi) (tick w) = Goto (tick w) (if y = 0 then t else Suc hi)"
    unfolding assms(3) using w(2) assms(4,5) computes_lengthD [OF w(3)] by (subst exec_branch) auto
  show thesis
  proof (rule that)
    show "vm_runs chk prog stream lo v (if y = 0 then t else Suc hi) (tick w)"
      by (rule vm_runs_snoc [OF w(1) assms(2) ex])
    show "computes ns (Suc (hi - lo)) v (tick w)"
      by (rule computes_trans [OF w(3) computes_tick order_refl]) simp
    show "slots (tick w) ! c = y" using w(2) by simp
  qed
qed

lemma runs_to_zero:
  assumes "emit_zero True x code ns = Some (code', r, n)"
    and "holds (length code) (length code') code' prog" "n < length (slots v)"
  shows "runs_to_value chk prog stream (length code) (length code') ns r v x"
proof -
  have e: "code' = code @ [LoadConst x ns]" "r = ns" "n = Suc ns"
    using assms(1) by (auto dest!: emit_zeroD)
  have at: "length code < length prog" "prog ! length code = LoadConst x ns"
    using holdsD [OF assms(2), of "length code"] e by auto
  have "vm_runs chk prog stream (length code) v (Suc (length code)) (write_slot ns x (tick v))"
    using at by (intro runs_step [OF _ _ runs_here]) auto
  with e assms(3) computes_write [of ns ns v x] show ?thesis
    unfolding runs_to_value_def by (intro exI [of _ "write_slot ns x (tick v)"]) auto
qed

lemma emit_expr_runs:
  assumes "emit_expr_to_slot True e vars code ns off = Some (code', r, n)"
    and "length code' < 65536" "slots_lt ns vars" "off < ns" "clobber_free vars e"
    and "n < length (slots v)" "holds (length code) (length code') code' prog"
    and "eval_expr chk e env = Some x" "env_matches vars off v env"
  shows "runs_to_value chk prog stream (length code) (length code') ns r v x"
  using assms
proof (induction e arbitrary: code ns code' r n v x)
  case (Ident name)
  show ?case
  proof (cases "no_code vars (Ident name)")
    case True
    with Ident no_code_emit [OF True Ident.prems(1,9,8,3,4)] show ?thesis
      unfolding runs_to_value_def by (intro exI [of _ v]) (auto intro: runs_here)
  next
    case False
    with Ident.prems(8,9) have "x = 0" by (auto simp: env_matches_def)
    with False Ident.prems show ?thesis by (auto intro: runs_to_zero)
  qed
next
  case (Unary op e)
  from Unary.prems(1) obtain code1 s where
    1: "emit_expr_to_slot True e vars code ns off = Some (code1, s, r)" and
    2: "n = Suc r" "code' = code1 @ [UnaryOp (bytecode_unop op) s r]"
    by (auto simp: bind_eq_Some_conv)
  from Unary.prems(8) obtain y where
    3: "eval_expr chk e env = Some y" "x = eval_unop op y" by (auto simp: bind_eq_Some_conv)
  note len = prefix_length_le [OF emit_expr_prefix [OF 1]]
  have "runs_to_value chk prog stream (length code) (length code1) ns s v y"
    by (rule Unary.IH [OF 1 _ Unary.prems(3,4) _ _ _ 3(1) Unary.prems(9)])
      (use Unary.prems 2 len in \<open>auto intro: holds_sub simp: nth_append\<close>)
  then obtain w where w: "vm_runs chk prog stream (length code) v (length code1) w"
    "slots w ! s = y" "computes ns (length code1 - length code) v w" by (auto simp: runs_to_value_def)
  have s: "s \<le> r"
    using emit_expr_emits [OF 1 slots_lt_le [OF Unary.prems(3)]] Unary.prems 2 by simp
  have at: "length code1 < length prog" "prog ! length code1 = UnaryOp (bytecode_unop op) s r"
    using holdsD [OF Unary.prems(7), of "length code1"] 2 len by auto
  have ns: "ns \<le> r" using emit_expr_alloc [OF 1] by simp
  have ex: "exec_instr chk stream (length code1) (prog ! length code1) (tick w)
      = Goto (write_slot r x (tick w)) (Suc (length code1))"
    unfolding at(2) using s w(2) computes_lengthD [OF w(3)] Unary.prems(6) 2 3
    by (subst exec_unary_write) (auto simp: unop_agrees)
  from run_write [OF w(1,3) at(1) ex ns order_refl] show ?case
    unfolding runs_to_value_def using 2 len Unary.prems(6) computes_lengthD [OF w(3)]
    by (intro exI [of _ "write_slot r x (tick w)"]) (auto simp: Suc_diff_le)
next
  case (Binary op el er)
  from Binary.prems(1) obtain code1 l_slot next1 code2 r_slot where
    1: "emit_expr_to_slot True el vars code ns off = Some (code1, l_slot, next1)" and
    2: "emit_expr_to_slot True er vars code1 next1 off = Some (code2, r_slot, r)" and
    3: "n = Suc r" "code' = code2 @ [BinOp (bytecode_binop op) l_slot r_slot r]"
    by (auto simp: bind_eq_Some_conv)
  from Binary.prems(8) obtain y z where
    4: "eval_expr chk el env = Some y" "eval_expr chk er env = Some z" "eval_binop chk op y z = Some x"
    by (auto simp: bind_eq_Some_conv)
  note len1 = prefix_length_le [OF emit_expr_prefix [OF 1]]
    and len2 = prefix_length_le [OF emit_expr_prefix [OF 2]]
  have n1: "ns \<le> next1" "next1 \<le> r" using emit_expr_alloc [OF 1] emit_expr_alloc [OF 2] by auto
  have "runs_to_value chk prog stream (length code) (length code1) ns l_slot v y"
    by (rule Binary.IH(1) [OF 1 _ Binary.prems(3,4) _ _ _ 4(1) Binary.prems(9)])
      (use Binary.prems 3 len1 len2 n1 prefix_nth [OF emit_expr_prefix [OF 2]] in
        \<open>auto intro!: holds_sub [OF Binary.prems(7)] simp: nth_append\<close>)
  then obtain w where w: "vm_runs chk prog stream (length code) v (length code1) w"
    "slots w ! l_slot = y" "computes ns (length code1 - length code) v w" by (auto simp: runs_to_value_def)
  note lw = computes_lengthD [OF w(3)]
  have env: "env_matches vars off w env"
    using env_matches_computes [OF Binary.prems(9) w(3) Binary.prems(3,4)] .
  have lt1: "slots_lt next1 vars" "off < next1"
    using slots_lt_mono [OF Binary.prems(3)] Binary.prems(4) n1 by auto
  have "runs_to_value chk prog stream (length code1) (length code2) next1 r_slot w z"
    by (rule Binary.IH(2) [OF 2 _ lt1 _ _ _ 4(2) env])
      (use Binary.prems 3 len1 len2 n1 lw in
        \<open>auto intro!: holds_sub [OF Binary.prems(7)] simp: nth_append\<close>)
  then obtain u where u: "vm_runs chk prog stream (length code1) w (length code2) u"
    "slots u ! r_slot = z" "computes next1 (length code2 - length code1) w u" by (auto simp: runs_to_value_def)
  obtain u' where u': "vm_runs chk prog stream (length code1) w (length code2) u'"
    "slots u' ! r_slot = z" "slots u' ! l_slot = y" "computes next1 (length code2 - length code1) w u'"
  proof (cases "no_code vars er")
    case True
    with no_code_emit [OF True 2 env 4(2) lt1] w that [of w] show ?thesis by (auto intro: runs_here)
  next
    case False
    with Binary.prems(5) have "l_slot < next1"
      by (intro emit_expr_solid [OF 1 _ Binary.prems(3,4)]) auto
    with computes_nthD [OF u(3)] u w that [of u] show ?thesis by auto
  qed
  have run: "vm_runs chk prog stream (length code) v (length code2) u'"
    "computes ns (length code2 - length code) v u'"
    using vm_runs_trans [OF w(1) u'(1)] computes_trans [OF w(3) u'(4) n1(1)] len1 len2 by auto
  have sl: "l_slot \<le> r" "r_slot \<le> r"
    using emit_expr_emits [OF 1 slots_lt_le [OF Binary.prems(3)]]
      emit_expr_emits [OF 2 slots_lt_le [OF lt1(1)]] Binary.prems 3 lt1 len2 n1 by auto
  have at: "length code2 < length prog" "prog ! length code2 = BinOp (bytecode_binop op) l_slot r_slot r"
    using holdsD [OF Binary.prems(7), of "length code2"] 3 len1 len2 by auto
  have ex: "exec_instr chk stream (length code2) (prog ! length code2) (tick u')
      = Goto (write_slot r x (tick u')) (Suc (length code2))"
    unfolding at(2) using sl u' lw computes_lengthD [OF u'(4)] Binary.prems(6) 3 4
    by (subst exec_binop_write) (auto simp: binop_agrees)
  have "ns \<le> r" using n1 by simp
  from run_write [OF run at(1) ex this order_refl] show ?case
    unfolding runs_to_value_def using 3 len1 len2 Binary.prems(6) computes_lengthD [OF run(2)]
    by (intro exI [of _ "write_slot r x (tick u')"]) (auto simp: Suc_diff_le)
next
  case (Ternary c t f)
  note lt = Ternary.prems(3,4)
  show ?case
  proof (rule emit_TernaryE [OF Ternary.prems(1)])
    fix code1 c_slot code2 t_slot a code3 code5 e_slot code6
    assume 1: "emit_expr_to_slot True c vars code ns off = Some (code1, c_slot, r)"
      and 2: "emit_expr_to_slot True t vars (code1 @ [JumpIfZero c_slot 0]) r off
                = Some (code2, t_slot, a)"
      and 3: "code3 = code2 @ [CopySlot t_slot r, Jump 0]"
      and 4: "emit_expr_to_slot True f vars (patch_jump_if_zero (length code1) (here code3) code3)
                a off = Some (code5, e_slot, n)"
      and 5: "code6 = code5 @ [CopySlot e_slot r]"
      and 6: "code' = patch_jump (length code2 + 1) (here code6) code6"
    note lay = ternary_layout [OF 1 2 3 4 5 6 Ternary.prems(2,7)]
    from Ternary.prems(8) obtain y where y: "eval_expr chk c env = Some y"
      "(if y \<noteq> 0 then eval_expr chk t env else eval_expr chk f env) = Some x"
      by (auto simp: bind_eq_Some_conv)
    have le: "ns \<le> r" "r \<le> a" "a \<le> n"
      using emit_expr_alloc [OF 1] emit_expr_alloc [OF 2] emit_expr_alloc [OF 4] by auto
    have ltr: "slots_lt r vars" "off < r" "slots_lt a vars" "off < a"
      using slots_lt_mono [OF lt(1)] lt(2) le by auto
    have sl: "c_slot \<le> r" "t_slot \<le> a" "e_slot \<le> n"
      using emit_expr_emits [OF 1 slots_lt_le [OF lt(1)]]
        emit_expr_emits [OF 2 slots_lt_le [OF ltr(1)]]
        emit_expr_emits [OF 4 slots_lt_le [OF ltr(3)]] lt ltr lay(8-12) Ternary.prems(2) by auto
    have "runs_to_value chk prog stream (length code) (length code1) ns c_slot v y"
      using Ternary.prems lay le by (intro Ternary.IH(1) [OF 1 _ lt _ _ lay(1) y(1)]) auto
    then obtain w where w: "vm_runs chk prog stream (length code) v
          (if y = 0 then length code2 + 2 else Suc (length code1)) w"
        "computes ns (Suc (length code1 - length code)) v w"
      using holdsD [OF lay(2), of "length code1"] sl le lay(8-12) Ternary.prems(6)
      by (elim value_branch [where t = "length code2 + 2"]) auto
    note lw = computes_lengthD [OF w(2)] and env = env_matches_computes [OF Ternary.prems(9) w(2) lt]
    show "runs_to_value chk prog stream (length code) (length code') ns r v x"
    proof (cases "y = 0")
      case True
      have "runs_to_value chk prog stream (length code2 + 2) (length code5) a e_slot w x"
        using Ternary.prems lay True y(2) lw
        by (intro Ternary.IH(3) [OF 4 _ ltr(3,4) _ _ lay(6) _ env, unfolded lay(9)]) auto
      from value_copy [OF value_mono [OF this le(2)]]
      have "runs_to_value chk prog stream (length code2 + 2) (length code') r r w x"
        using holdsD [OF lay(7), of "length code5"] lay(8-12) sl le lw Ternary.prems(6) by auto
      then show ?thesis
        using w True lay(8-12) le by (elim value_trans [rotated 2]) auto
    next
      case False
      have "runs_to_value chk prog stream (Suc (length code1)) (length code2) r t_slot w x"
        using Ternary.prems lay False y(2) lw le
        by (intro Ternary.IH(2) [OF 2 _ ltr(1,2) _ _ lay(3) _ env, simplified]) auto
      from value_copy [OF this]
      have "runs_to_value chk prog stream (Suc (length code1)) (Suc (length code2)) r r w x"
        using holdsD [OF lay(4), of "length code2"] lay(8-12) sl le lw Ternary.prems(6) by auto
      then have "runs_to_value chk prog stream (Suc (length code1)) (length code') r r w x"
        using holdsD [OF lay(5), of "Suc (length code2)"] lay(8-12)
        by (elim value_jump) (auto simp: nth_append)
      then show ?thesis
        using w False lay(8-12) le by (elim value_trans [rotated 2]) auto
    qed
  qed
next
  case (Coalesce vl d)
  note lt = Coalesce.prems(3,4)
  show ?case
  proof (rule emit_CoalesceE [OF Coalesce.prems(1)])
    fix code1 v_slot code2 code4 d_slot code5
    assume 1: "emit_expr_to_slot True vl vars code ns off = Some (code1, v_slot, r)"
      and 2: "code2 = code1 @ [JumpIfZero v_slot 0, CopySlot v_slot r, Jump 0]"
      and 3: "emit_expr_to_slot True d vars (patch_jump_if_zero (length code1) (here code2) code2)
                r off = Some (code4, d_slot, n)"
      and 4: "code5 = code4 @ [CopySlot d_slot r]"
      and 5: "code' = patch_jump (length code1 + 2) (here code5) code5"
    note lay = coalesce_layout [OF 1 2 3 4 5 Coalesce.prems(2,7)]
    from Coalesce.prems(8) obtain y where y: "eval_expr chk vl env = Some y"
      "(if y \<noteq> 0 then Some y else eval_expr chk d env) = Some x"
      by (auto simp: bind_eq_Some_conv)
    have le: "ns \<le> r" "r \<le> n" using emit_expr_alloc [OF 1] emit_expr_alloc [OF 3] by auto
    have ltr: "slots_lt r vars" "off < r" using slots_lt_mono [OF lt(1)] lt(2) le by auto
    have sl: "v_slot \<le> r" "d_slot \<le> n"
      using emit_expr_emits [OF 1 slots_lt_le [OF lt(1)]]
        emit_expr_emits [OF 3 slots_lt_le [OF ltr(1)]] lt ltr lay(5-8) Coalesce.prems(2) by auto
    have at: "length code1 + 2 < length prog"
      "prog ! length code1 = JumpIfZero v_slot (length code1 + 3)"
      "prog ! Suc (length code1) = CopySlot v_slot r"
      "prog ! Suc (Suc (length code1)) = Jump (length code')"
      using holdsD [OF lay(2), of "length code1"] holdsD [OF lay(2), of "Suc (length code1)"]
        holdsD [OF lay(2), of "Suc (Suc (length code1))"] by (auto simp: nth_append)
    have "runs_to_value chk prog stream (length code) (length code1) ns v_slot v y"
      using Coalesce.prems lay le by (intro Coalesce.IH(1) [OF 1 _ lt _ _ lay(1) y(1)]) auto
    then obtain w where w: "vm_runs chk prog stream (length code) v
          (if y = 0 then length code1 + 3 else Suc (length code1)) w"
        "computes ns (Suc (length code1 - length code)) v w" "slots w ! v_slot = y"
      using at sl le lay(5-8) Coalesce.prems(6)
      by (elim value_branch [where t = "length code1 + 3"]) auto
    note lw = computes_lengthD [OF w(2)] and env = env_matches_computes [OF Coalesce.prems(9) w(2) lt]
    show "runs_to_value chk prog stream (length code) (length code') ns r v x"
    proof (cases "y = 0")
      case True
      have "runs_to_value chk prog stream (length code1 + 3) (length code4) r d_slot w x"
        using Coalesce.prems lay True y(2) lw
        by (intro Coalesce.IH(2) [OF 3 _ ltr _ _ lay(3) _ env, unfolded lay(6)]) auto
      from value_copy [OF this]
      have "runs_to_value chk prog stream (length code1 + 3) (length code') r r w x"
        using holdsD [OF lay(4), of "length code4"] lay(5-8) sl le lw Coalesce.prems(6) by auto
      then show ?thesis
        using w True lay(5-8) le by (elim value_trans [rotated 2]) auto
    next
      case False
      have "runs_to_value chk prog stream (Suc (length code1)) (Suc (length code1)) r v_slot w x"
        unfolding runs_to_value_def using w(3) False y(2)
        by (intro exI [of _ w]) (auto intro: runs_here)
      from value_copy [OF this]
      have "runs_to_value chk prog stream (Suc (length code1)) (Suc (Suc (length code1))) r r w x"
        using at sl le lw Coalesce.prems(6) by auto
      then have "runs_to_value chk prog stream (Suc (length code1)) (length code') r r w x"
        using at lay(5-8) by (elim value_jump) auto
      then show ?thesis
        using w False lay(5-8) le by (elim value_trans [rotated 2]) auto
    qed
  qed
next
  case (FieldOf e fld)
  then show ?case by (auto intro: runs_to_zero)
qed (auto intro: runs_to_zero)

text \<open>The variables a compiled expression sees, as the evaluator's table.\<close>

definition slot_env :: "(string, nat) hmap \<Rightarrow> nat \<Rightarrow> vm \<Rightarrow> (string, u64) hmap" where
  "slot_env vars off v = (offset_var, get_slot v off) # map (\<lambda>(name, s). (name, get_slot v s)) vars"

definition slots_below :: "nat \<Rightarrow> (string, nat) hmap \<Rightarrow> bool" where
  "slots_below n vars \<longleftrightarrow> list_all (\<lambda>(name, s). s < n) vars"

lemma slots_below_lt: "slots_below n vars \<Longrightarrow> slots_lt n vars"
  unfolding slots_below_def slots_lt_def hm_get_def list_all_iff
  by (metis (no_types, lifting) case_prodD map_of_SomeD)

lemma map_of_map_values: "map_of (map (\<lambda>(k, s). (k, f s)) m) k = map_option f (map_of m k)"
  by (induction m) auto

lemma env_matches_slot_env:
  assumes "slots_lt n vars" "off < n" "n \<le> length (slots v)"
  shows "env_matches vars off v (slot_env vars off v)"
proof -
  have "get_slot v s = slots v ! s" if "hm_get vars k = Some s" for k s
    using slots_ltD [OF assms(1) that] assms(3) by (simp add: get_slot_def)
  then show ?thesis
    using assms(2,3)
    by (auto simp: env_matches_def slot_env_def var_or_zero_def hm_get_def map_of_map_values
        get_slot_def split: option.splits)
qed

text \<open>C2: the expression compiler is correct. Whenever the dev-profile compiler emits code
  for an expression that keeps dangling results out of left operands and uses no resolvable
  field access, running that code in any mode and profile, from a VM with room for its slots
  and within the instruction limit, is going on after it with the value \<open>eval_expr\<close>
  computes in the result slot, all slots below the first free one and the whole input state
  unchanged.\<close>

theorem compiled_expr_evaluates:
  assumes "emit_expr_to_slot True e vars code ns off = Some (code', r, n)"
    and "length code' < 65536" "slots_below ns vars" "off < ns" "clobber_free vars e"
    and "n < length (slots v)" "take (length code') prog = code'"
    and "instructions_executed v + (length code' - length code) \<le> Suc (max_instructions (lims v))"
    and "eval_expr chk e (slot_env vars off v) = Some x"
  shows "\<exists>w. interpret_vm chk prog stream (length code) v
               = interpret_vm chk prog stream (length code') w
           \<and> get_slot w r = x \<and> computes ns (length code' - length code) v w"
proof -
  note lt = slots_below_lt [OF assms(3)]
  have "ns \<le> n" using emit_expr_alloc [OF assms(1)] by simp
  then have env: "env_matches vars off v (slot_env vars off v)"
    using env_matches_slot_env [OF lt assms(4)] assms(6) by simp
  have "holds (length code) (length code') code' prog"
  proof -
    have "i < length prog \<and> prog ! i = code' ! i" if "i < length code'" for i
    proof -
      have "length code' \<le> length prog" using assms(7) by (metis length_take min.cobounded1)
      moreover have "prog ! i = take (length code') prog ! i" using that by simp
      ultimately show ?thesis using that assms(7) by (metis less_le_trans)
    qed
    then show ?thesis by (simp add: holds_def)
  qed
  then obtain w where w: "vm_runs chk prog stream (length code) v (length code') w"
      "slots w ! r = x" "computes ns (length code' - length code) v w"
    using emit_expr_runs [OF assms(1,2) lt assms(4,5,6) _ assms(9) env, of prog stream]
    by (auto simp: runs_to_value_def)
  have "interpret_vm chk prog stream (length code) v = interpret_vm chk prog stream (length code') w"
    using w(3) assms(8) by (intro vm_runs_interpret [OF w(1)]) (auto simp: computes_def)
  moreover have "get_slot w r = x"
    using w(2) emit_expr_emits [OF assms(1) slots_lt_le [OF lt]] assms(4,6) computes_lengthD [OF w(3)]
    by (simp add: get_slot_def)
  ultimately show ?thesis using w(3) by blast
qed

text \<open>At work on \<open>(a == 0 ? 1 : 2) * b\<close> with \<open>a\<close> in slot 1 and \<open>b\<close> in slot 2.\<close>

definition demo_vm :: vm where
  "demo_vm = set_slot 2 21 (set_slot 1 7 (vm_new 4))"

definition demo_expr :: expr where
  "demo_expr = Binary OpMul (Ternary (Binary OpEq (Ident ''a'') (IntLit 0)) (IntLit 1) (IntLit 2))
     (Ident ''b'')"

definition demo_code :: "instruction list" where
  "demo_code = [LoadConst 0 3, BinOp BEq 1 3 4, JumpIfZero 4 6, LoadConst 1 5, CopySlot 5 5, Jump 8,
     LoadConst 2 6, CopySlot 6 5, BinOp BMul 5 2 7]"

theorem compiled_expr_evaluates_witness:
  "\<exists>w. interpret_vm True (demo_code @ [Return]) False 0 demo_vm
         = interpret_vm True (demo_code @ [Return]) False 9 w
     \<and> get_slot w 7 = 42 \<and> computes 3 9 demo_vm w"
proof -
  have len: "length demo_code = 9" by code_simp
  have hyps: "emit_expr_to_slot True demo_expr [(''a'', 1), (''b'', 2)] [] 3 0 = Some (demo_code, 7, 8)"
    "length demo_code < 65536" "slots_below 3 [(''a'', 1), (''b'', 2)]" "(0::nat) < 3"
    "clobber_free [(''a'', 1), (''b'', 2)] demo_expr" "8 < length (slots demo_vm)"
    "take (length demo_code) (demo_code @ [Return]) = demo_code"
    "instructions_executed demo_vm + (length demo_code - length ([] :: instruction list))
       \<le> Suc (max_instructions (lims demo_vm))"
    "eval_expr True demo_expr (slot_env [(''a'', 1), (''b'', 2)] 0 demo_vm) = Some 42"
    by code_simp+
  show ?thesis using compiled_expr_evaluates [OF hyps, of False] len by simp
qed

end
