(* ===== verification/Nfdl_Compile.thy ===== *)
theory Nfdl_Compile
  imports Expr_Correct "HOL-Library.Multiset"
begin

text \<open>
  The protocol compiler (crates/nfdl-runtime/src/integration.rs): fields, bodies in source
  order, loops, tagged unions, bounded inlining of message references, the choice of the
  root message, and \<open>protocol_to_bytecode_with_map\<close>.

  The four \<open>&mut\<close> parameters \<open>var_slots\<close>, \<open>field_map\<close>, \<open>instructions\<close> and \<open>slot\<close>
  are the record \<open>emitter\<close>. \<open>None\<close> is the overflow panic of the \<open>u16\<close> slot counter.
\<close>

subsection \<open>The emitter\<close>

record emitter =
  e_vars :: "(string, nat) hmap"
  e_fields :: "(string, nat) hmap"
  e_code :: "instruction list"
  e_slot :: nat

definition push :: "instruction \<Rightarrow> emitter \<Rightarrow> emitter" where
  "push i st = st\<lparr>e_code := e_code st @ [i]\<rparr>"

text \<open>\<open>*slot += 1\<close>.\<close>

definition bump :: "bool \<Rightarrow> emitter \<Rightarrow> emitter option" where
  "bump chk st = map_option (\<lambda>n. st\<lparr>e_slot := n\<rparr>) (slot_inc chk (e_slot st))"

text \<open>\<open>let (r, next_s) = emit_expr_to_slot(\<dots>); *slot = next_s\<close>.\<close>

definition emit_value :: "bool \<Rightarrow> nat \<Rightarrow> expr \<Rightarrow> emitter \<Rightarrow> (nat \<times> emitter) option" where
  "emit_value chk off e st =
     do { (code, r, n) \<leftarrow> emit_expr_to_slot chk e (e_vars st) (e_code st) (e_slot st) off;
          Some (r, st\<lparr>e_code := code, e_slot := n\<rparr>) }"

definition full_name :: "string \<Rightarrow> string \<Rightarrow> string" where
  "full_name pre name = (if pre = [] then name else dotted pre name)"

definition max_ref_depth :: nat where
  "max_ref_depth = 8"

subsection \<open>Fields\<close>

text \<open>A read, the refresh of \<open>__current_offset\<close> and the next slot.\<close>

definition emit_read :: "bool \<Rightarrow> nat \<Rightarrow> instruction \<Rightarrow> emitter \<Rightarrow> emitter option" where
  "emit_read chk off i st = bump chk (push (UpdateOffset off) (push i st))"

definition emit_condition :: "bool \<Rightarrow> nat \<Rightarrow> field \<Rightarrow> emitter \<Rightarrow> (nat option \<times> emitter) option" where
  "emit_condition chk off f st =
     (case f_conditional f of
        None \<Rightarrow> Some (None, st)
      | Some cond \<Rightarrow>
          do { (c_slot, st1) \<leftarrow> emit_value chk off cond st;
               Some (Some (length (e_code st1)), push (JumpIfZero c_slot 0) st1) })"

definition register_field :: "string \<Rightarrow> field \<Rightarrow> emitter \<Rightarrow> emitter" where
  "register_field pre f st =
     (let full = full_name pre (f_name f) in
      st\<lparr>e_fields := hm_put full (e_slot st) (e_fields st),
         e_vars := hm_put full (e_slot st) (hm_put (f_name f) (e_slot st) (e_vars st))\<rparr>)"

text \<open>The arms of the type match, but for a reference to a declared message.\<close>

definition emit_type :: "bool \<Rightarrow> nat \<Rightarrow> bool \<Rightarrow> field \<Rightarrow> emitter \<Rightarrow> emitter option" where
  "emit_type chk off le f st =
     (let rslot = e_slot st in
      case f_ty f of
        U8 \<Rightarrow> emit_read chk off (ReadU8 rslot) st
      | U16 \<Rightarrow> emit_read chk off (ReadU16 rslot le) st
      | U24 \<Rightarrow> emit_read chk off (ReadU24 rslot le) st
      | U32 \<Rightarrow> emit_read chk off (ReadU32 rslot le) st
      | Bytes len \<Rightarrow>
          do { (len_slot, st1) \<leftarrow> emit_value chk off len st;
               emit_read chk off (ReadSlice len_slot rslot) st1 }
      | MessageRef ref \<Rightarrow> emit_read chk off (ReadU8 rslot) st
      | Bitfield bits \<Rightarrow> emit_read chk off (ReadBits bits rslot) st
      | BytesRest \<Rightarrow> emit_read chk off (ReadRest (f_name f) rslot) st
      | BytesEof \<Rightarrow> emit_read chk off (ReadRest (f_name f) rslot) st
      | BytesStream \<Rightarrow> emit_read chk off (ReadRest (f_name f) rslot) st)"

fun is_ref :: "nfdl_type \<Rightarrow> bool" where
  "is_ref (MessageRef r) = True"
| "is_ref _ = False"

definition ref_target :: "message list \<Rightarrow> field \<Rightarrow> message option" where
  "ref_target messages f =
     (case f_ty f of
        MessageRef ref \<Rightarrow> find (\<lambda>m. msg_name m = ref) messages
      | _ \<Rightarrow> None)"

definition emit_validate :: "bool \<Rightarrow> nat \<Rightarrow> validate \<Rightarrow> emitter \<Rightarrow> emitter option" where
  "emit_validate chk off v st =
     do { (v_slot, st1) \<leftarrow> emit_value chk off (v_expr v) st;
          Some (push (Validate v_slot (v_message v)) st1) }"

text \<open>The refinement, the \<open>EmitField\<close> of a leaf field and the patch of the skip jump.\<close>

definition finish_field ::
    "bool \<Rightarrow> nat \<Rightarrow> field \<Rightarrow> nat \<Rightarrow> nat option \<Rightarrow> emitter \<Rightarrow> emitter option" where
  "finish_field chk off f rslot jmp st =
     do { st1 \<leftarrow> (case f_validate f of None \<Rightarrow> Some st | Some v \<Rightarrow> emit_validate chk off v st);
          let st2 = (if is_ref (f_ty f) then st1 else push (EmitField (f_name f) rslot) st1) in
          Some (case jmp of
                  None \<Rightarrow> st2
                | Some idx \<Rightarrow>
                    st2\<lparr>e_code := patch_jump_if_zero idx (here (e_code st2)) (e_code st2)\<rparr>) }"

subsection \<open>Bodies\<close>

datatype item =
    ItemF field
  | ItemL let_binding
  | ItemV validate
  | ItemP loop
  | ItemM match

text \<open>\<open>sort_by_key\<close> is stable, as is \<open>sort_key\<close>.\<close>

definition body_items ::
    "field list \<Rightarrow> let_binding list \<Rightarrow> loop list \<Rightarrow> validate list \<Rightarrow> match list \<Rightarrow> item list" where
  "body_items fs lets loops validates matches =
     map snd (sort_key fst
       (map (\<lambda>f. (f_order f, ItemF f)) fs @ map (\<lambda>l. (l_order l, ItemL l)) lets @
        map (\<lambda>v. (v_order v, ItemV v)) validates @ map (\<lambda>p. (p_order p, ItemP p)) loops @
        map (\<lambda>m. (m_order m, ItemM m)) matches))"

definition message_items :: "message \<Rightarrow> item list" where
  "message_items m =
     body_items (msg_fields m) (msg_lets m) (msg_loops m) (msg_validates m) (msg_matches m)"

definition arm_items :: "match_arm \<Rightarrow> item list" where
  "arm_items a = body_items (a_fields a) (a_lets a) (a_loops a) (a_validates a) (a_matches a)"

definition emit_let :: "bool \<Rightarrow> nat \<Rightarrow> string \<Rightarrow> let_binding \<Rightarrow> emitter \<Rightarrow> emitter option" where
  "emit_let chk off pre l st =
     do { (val_slot, st1) \<leftarrow> emit_value chk off (l_value l) st;
          let snap = e_slot st1 in
          do { st2 \<leftarrow> bump chk (push (CopySlot val_slot snap) st1);
               Some (st2\<lparr>e_vars := hm_put (l_name l) snap (e_vars st2),
                         e_fields := hm_put (full_name pre (l_name l)) snap (e_fields st2)\<rparr>) } }"

text \<open>The carries of a loop; \<open>cs\<close> is the local table \<open>carry_slots\<close>.\<close>

fun emit_carries ::
    "bool \<Rightarrow> nat \<Rightarrow> string \<Rightarrow> carry list \<Rightarrow> (string, nat) hmap \<Rightarrow> emitter
      \<Rightarrow> ((string, nat) hmap \<times> emitter) option" where
  "emit_carries chk off loop_pre [] cs st = Some (cs, st)"
| "emit_carries chk off loop_pre (c # carries) cs st =
     do { (init_slot, st1) \<leftarrow> emit_value chk off (c_init c) st;
          emit_carries chk off loop_pre carries (hm_put (c_name c) init_slot cs)
            (st1\<lparr>e_vars := hm_put (c_name c) init_slot
                   (hm_put (dotted loop_pre (c_name c)) init_slot (e_vars st1))\<rparr>) }"

definition next_target :: "string \<Rightarrow> next_stmt \<Rightarrow> emitter \<Rightarrow> nat" where
  "next_target loop_pre n st =
     (case hm_get (e_vars st) (dotted loop_pre (n_name n)) of
        Some s \<Rightarrow> s
      | None \<Rightarrow> (case hm_get (e_vars st) (n_name n) of Some s \<Rightarrow> s | None \<Rightarrow> e_slot st))"

fun emit_nexts ::
    "bool \<Rightarrow> nat \<Rightarrow> string \<Rightarrow> next_stmt list \<Rightarrow> emitter \<Rightarrow> emitter option" where
  "emit_nexts chk off loop_pre [] st = Some st"
| "emit_nexts chk off loop_pre (n # nexts) st =
     do { (val_slot, st1) \<leftarrow> emit_value chk off (n_value n) st;
          emit_nexts chk off loop_pre nexts (push (CopySlot val_slot (next_target loop_pre n st)) st1) }"

fun register_carries :: "string \<Rightarrow> carry list \<Rightarrow> (string, nat) hmap \<Rightarrow> emitter \<Rightarrow> emitter" where
  "register_carries loop_pre [] cs st = st"
| "register_carries loop_pre (c # carries) cs st =
     (let final_name = dotted (dotted loop_pre ''carries'') (c_name c);
          carry_slot = (case hm_get cs (c_name c) of Some s \<Rightarrow> s | None \<Rightarrow> 0)
      in register_carries loop_pre carries cs
           (st\<lparr>e_fields := hm_put final_name carry_slot (e_fields st),
               e_vars := hm_put final_name carry_slot (e_vars st)\<rparr>))"

text \<open>The loop up to its body, and from the end of its body.\<close>

definition emit_loop_head ::
    "bool \<Rightarrow> nat \<Rightarrow> string \<Rightarrow> loop \<Rightarrow> emitter
      \<Rightarrow> ((string, nat) hmap \<times> nat \<times> nat \<times> emitter) option" where
  "emit_loop_head chk off loop_pre lp st =
     do { (cs, st1) \<leftarrow> emit_carries chk off loop_pre (p_carries lp) [] st;
          (cond_slot, st2) \<leftarrow> emit_value chk off (p_condition lp) st1;
          Some (cs, here (e_code st1), length (e_code st2), push (JumpIfZero cond_slot 0) st2) }"

definition emit_loop_tail ::
    "bool \<Rightarrow> nat \<Rightarrow> string \<Rightarrow> loop \<Rightarrow> (string, nat) hmap \<Rightarrow> nat \<Rightarrow> nat \<Rightarrow> emitter \<Rightarrow> emitter option" where
  "emit_loop_tail chk off loop_pre lp cs loop_start exit_jump st =
     do { st1 \<leftarrow> emit_nexts chk off loop_pre (p_nexts lp) st;
          let st2 = push (Jump loop_start) st1 in
          Some (register_carries loop_pre (p_carries lp) cs
            (st2\<lparr>e_code := patch_jump_if_zero exit_jump (here (e_code st2)) (e_code st2)\<rparr>)) }"

text \<open>The test of a \<open>case\<close> arm: the constant, the comparison, the skip jump (whose index it returns).\<close>

definition emit_case_test :: "bool \<Rightarrow> nat \<Rightarrow> int \<Rightarrow> emitter \<Rightarrow> (nat \<times> emitter) option" where
  "emit_case_test chk tag_slot cv st =
     do { let const_slot = e_slot st in
          do { st1 \<leftarrow> bump chk (push (LoadConst (i64_as_u64 cv) const_slot) st);
               let cmp_slot = e_slot st1 in
               do { st2 \<leftarrow> bump chk (push (BinOp BEq tag_slot const_slot cmp_slot) st1);
                    Some (length (e_code st2), push (JumpIfZero cmp_slot 0) st2) } } }"

definition finish_case :: "nat \<Rightarrow> emitter \<Rightarrow> emitter" where
  "finish_case skip_idx st =
     (let st1 = push (Jump 0) st
      in st1\<lparr>e_code := patch_jump_if_zero skip_idx (here (e_code st1)) (e_code st1)\<rparr>)"

definition patch_ends :: "nat list \<Rightarrow> emitter \<Rightarrow> emitter" where
  "patch_ends end_jumps st =
     st\<lparr>e_code := fold (\<lambda>ej. patch_jump ej (here (e_code st))) end_jumps (e_code st)\<rparr>"

subsection \<open>The mutually recursive emitters\<close>

text \<open>
  \<open>emit_field_bytecode\<close>, \<open>emit_body_block\<close> (on the ordered items) and \<open>emit_match\<close>, with
  the \<open>for\<close> loops over loop bodies and arms as functions of their own. \<open>emit_arms\<close>
  returns the jumps to the end label and the default arm.
\<close>

fun item_weight :: "item \<Rightarrow> nat" where
  "item_weight (ItemP lp) = loop_weight lp"
| "item_weight (ItemM m) = Suc (match_weight m)"
| "item_weight _ = 1"

lemma sum_list_sort_key: "sum_list (map g (sort_key f xs)) = (sum_list (map g xs) :: nat)"
  by (metis mset_map mset_sort sum_mset_sum_list)

lemma body_items_weight:
  "sum_list (map item_weight (body_items fs ls ps vs ms)) =
   length fs + length ls + length vs + sum_list (map loop_weight ps)
     + sum_list (map (Suc \<circ> match_weight) ms)"
proof -
  have "sum_list (map item_weight (body_items fs ls ps vs ms)) =
      sum_list (map (item_weight \<circ> snd)
       (map (\<lambda>f. (f_order f, ItemF f)) fs @ map (\<lambda>l. (l_order l, ItemL l)) ls @
        map (\<lambda>v. (v_order v, ItemV v)) vs @ map (\<lambda>p. (p_order p, ItemP p)) ps @
        map (\<lambda>m. (m_order m, ItemM m)) ms))"
    unfolding body_items_def by (simp only: map_map sum_list_sort_key)
  also have "\<dots> = length fs + length ls + length vs + sum_list (map loop_weight ps)
     + sum_list (map (Suc \<circ> match_weight) ms)"
    by (simp add: comp_def sum_list_triv)
  finally show ?thesis .
qed

lemma arm_items_weight: "sum_list (map item_weight (arm_items a)) < arm_weight a"
  by (cases a) (simp add: arm_items_def body_items_weight)

lemma arm_items_in:
  assumes "a \<in> set (m_arms m)"
  shows "sum_list (map item_weight (arm_items a)) < match_weight m"
  using arm_items_weight [of a] arm_weight_in [OF assms] by simp

lemma default_in: "filter P xs = a # as \<Longrightarrow> last (a # as) \<in> set xs"
  by (metis filter_is_subset last_in_set list.distinct(1) subset_code(1))

lemma default_weight:
  assumes "filter P (m_arms m) = a # as"
  shows "as = [] \<Longrightarrow> sum_list (map item_weight (arm_items a)) < match_weight m"
    and "as \<noteq> [] \<Longrightarrow> sum_list (map item_weight (arm_items (last as))) < match_weight m"
  using arm_items_in [OF default_in [OF assms]] by auto

lemma weight_pos: "0 < item_weight i" "0 < arm_weight a"
  by (cases i, simp_all add: loop_weight_def, cases a, simp)

lemma arms_weight: "sum_list (map arm_weight (m_arms m)) < match_weight m"
  by (cases m) simp

function
  emit_field ::
    "bool \<Rightarrow> message list \<Rightarrow> nat \<Rightarrow> bool \<Rightarrow> nat \<Rightarrow> string \<Rightarrow> field \<Rightarrow> emitter \<Rightarrow> emitter option" and
  emit_loop_body ::
    "bool \<Rightarrow> message list \<Rightarrow> nat \<Rightarrow> bool \<Rightarrow> nat \<Rightarrow> string \<Rightarrow> field list \<Rightarrow> emitter \<Rightarrow> emitter option" and
  emit_items ::
    "bool \<Rightarrow> message list \<Rightarrow> nat \<Rightarrow> bool \<Rightarrow> nat \<Rightarrow> string \<Rightarrow> item list \<Rightarrow> emitter \<Rightarrow> emitter option" and
  emit_match ::
    "bool \<Rightarrow> message list \<Rightarrow> nat \<Rightarrow> bool \<Rightarrow> nat \<Rightarrow> string \<Rightarrow> match \<Rightarrow> emitter \<Rightarrow> emitter option" and
  emit_arms ::
    "bool \<Rightarrow> message list \<Rightarrow> nat \<Rightarrow> bool \<Rightarrow> nat \<Rightarrow> string \<Rightarrow> nat \<Rightarrow> match_arm list \<Rightarrow> nat list
      \<Rightarrow> emitter \<Rightarrow> (nat list \<times> emitter) option"
where
  "emit_field chk msgs off le depth pre f st =
     (if max_ref_depth < depth then emit_read chk off (ReadU8 (e_slot st)) st
      else do { (jmp, st1) \<leftarrow> emit_condition chk off f st;
                let rslot = e_slot st1; st2 = register_field pre f st1 in
                do { st3 \<leftarrow> (case ref_target msgs f of
                               None \<Rightarrow> emit_type chk off le f st2
                             | Some m \<Rightarrow>
                                 map_option (\<lambda>s. s\<lparr>e_vars := e_vars st2\<rparr>)
                                   (emit_items chk msgs off le (Suc depth) (full_name pre (f_name f))
                                      (message_items m) st2));
                     finish_field chk off f rslot jmp st3 } })"
| "emit_loop_body chk msgs off le depth pre [] st = Some st"
| "emit_loop_body chk msgs off le depth pre (f # fs) st =
     do { st1 \<leftarrow> emit_field chk msgs off le depth pre f st;
          emit_loop_body chk msgs off le depth pre fs st1 }"
| "emit_items chk msgs off le depth pre [] st = Some st"
| "emit_items chk msgs off le depth pre (i # is) st =
     do { st1 \<leftarrow> (case i of
            ItemF f \<Rightarrow> emit_field chk msgs off le depth pre f st
          | ItemL l \<Rightarrow> emit_let chk off pre l st
          | ItemV v \<Rightarrow> emit_validate chk off v st
          | ItemP lp \<Rightarrow>
              let loop_pre = full_name pre (p_name lp) in
              do { (cs, loop_start, exit_jump, st2) \<leftarrow> emit_loop_head chk off loop_pre lp st;
                   st3 \<leftarrow> emit_loop_body chk msgs off le depth loop_pre (p_body lp) st2;
                   emit_loop_tail chk off loop_pre lp cs loop_start exit_jump st3 }
          | ItemM m \<Rightarrow> emit_match chk msgs off le depth pre m st);
          emit_items chk msgs off le depth pre is st1 }"
| "emit_match chk msgs off le depth pre m st =
     do { (tag_slot, st1) \<leftarrow> emit_value chk off (m_tag m) st;
          (end_jumps, st2) \<leftarrow> emit_arms chk msgs off le depth pre tag_slot (m_arms m) [] st1;
          st3 \<leftarrow> (case filter (\<lambda>a. a_case a = None) (m_arms m) of
                    [] \<Rightarrow> Some st2
                  | a # as \<Rightarrow> emit_items chk msgs off le depth pre (arm_items (last (a # as))) st2);
          Some (patch_ends end_jumps st3) }"
| "emit_arms chk msgs off le depth pre tag_slot [] end_jumps st = Some (end_jumps, st)"
| "emit_arms chk msgs off le depth pre tag_slot (a # as) end_jumps st =
     (case a_case a of
        None \<Rightarrow> emit_arms chk msgs off le depth pre tag_slot as end_jumps st
      | Some cv \<Rightarrow>
          do { (skip_idx, st1) \<leftarrow> emit_case_test chk tag_slot cv st;
               st2 \<leftarrow> emit_items chk msgs off le depth pre (arm_items a) st1;
               emit_arms chk msgs off le depth pre tag_slot as (end_jumps @ [length (e_code st2)])
                 (finish_case skip_idx st2) })"
  by pat_completeness auto

termination
proof (relation "inv_image (less_than <*lex*> less_than)
    (\<lambda>x. case x of
        Inl (Inl (chk, msgs, off, le, depth, pre, f, st)) \<Rightarrow> (10 - depth, 0)
      | Inl (Inr (chk, msgs, off, le, depth, pre, fs, st)) \<Rightarrow> (10 - depth, length fs)
      | Inr (Inl (chk, msgs, off, le, depth, pre, is, st)) \<Rightarrow>
          (10 - depth, sum_list (map item_weight is))
      | Inr (Inr (Inl (chk, msgs, off, le, depth, pre, m, st))) \<Rightarrow> (10 - depth, match_weight m)
      | Inr (Inr (Inr (chk, msgs, off, le, depth, pre, t, as, ej, st))) \<Rightarrow>
          (10 - depth, sum_list (map arm_weight as)))", goal_cases)
  case 1 then show ?case by (intro wf_inv_image wf_lex_prod wf_less_than)
qed (auto simp: max_ref_depth_def loop_weight_def weight_pos arms_weight default_weight
      arm_items_weight trans_less_add1)

declare emit_field.simps [simp del] emit_match.simps [simp del]

subsection \<open>The root message and the whole protocol\<close>

text \<open>
  The \<open>HashSet<String>\<close> of referenced names is a list in the order of insertion, used for
  membership only.
\<close>

definition field_refs :: "field list \<Rightarrow> string list" where
  "field_refs fs = concat (map (\<lambda>f. case f_ty f of MessageRef r \<Rightarrow> [r] | _ \<Rightarrow> []) fs)"

fun collect_match_refs :: "match \<Rightarrow> string list" and collect_arm_refs :: "match_arm \<Rightarrow> string list" where
  "collect_match_refs (Match tag arms ord) = concat (map collect_arm_refs arms)"
| "collect_arm_refs (MatchArm c fs ls ps vs ms) =
     field_refs fs @ concat (map (field_refs \<circ> p_body) ps) @ concat (map collect_match_refs ms)"

definition collect_msg_refs :: "message \<Rightarrow> string list" where
  "collect_msg_refs m =
     field_refs (msg_fields m) @ concat (map (field_refs \<circ> p_body) (msg_loops m)) @
     concat (map collect_match_refs (msg_matches m))"

fun first_unreferenced :: "string list \<Rightarrow> nat \<Rightarrow> message list \<Rightarrow> nat" where
  "first_unreferenced refs i [] = 0"
| "first_unreferenced refs i (m # ms) =
     (if msg_name m \<notin> set refs then i else first_unreferenced refs (Suc i) ms)"

definition root_message_index :: "protocol \<Rightarrow> nat" where
  "root_message_index proto =
     first_unreferenced (concat (map collect_msg_refs (pr_messages proto))) 0 (pr_messages proto)"

text \<open>Slot 0 is \<open>__current_offset\<close>, initialised to 0.\<close>

definition initial_emitter :: emitter where
  "initial_emitter = \<lparr>e_vars = [], e_fields = [], e_code = [LoadConst 0 0], e_slot = 1\<rparr>"

definition protocol_to_bytecode_with_map ::
    "bool \<Rightarrow> protocol \<Rightarrow> (bytecode_program \<times> (string, nat) hmap) option" where
  "protocol_to_bytecode_with_map chk proto =
     (let root_idx = root_message_index proto in
      do { st \<leftarrow> (if root_idx < length (pr_messages proto)
                  then emit_items chk (pr_messages proto) 0 (pr_endian proto = ''little'') 0 []
                         (message_items (pr_messages proto ! root_idx))
                         (initial_emitter\<lparr>e_vars := hm_put offset_var 0 []\<rparr>)
                  else Some initial_emitter);
           Some (\<lparr>instructions = e_code st @ [Return], slot_count = max (e_slot st) 32 + 16\<rparr>,
                 e_fields st) })"

definition protocol_to_bytecode :: "bool \<Rightarrow> protocol \<Rightarrow> bytecode_program option" where
  "protocol_to_bytecode chk proto = map_option fst (protocol_to_bytecode_with_map chk proto)"

text \<open>
  \<open>extract_context_for_message\<close>: the result of the run is discarded (\<open>let _ = vm.run(..)\<close>),
  only a panic is seen.
\<close>

definition field_context :: "(string, nat) hmap \<Rightarrow> vm \<Rightarrow> (string, u64) hmap" where
  "field_context field_map v = map (\<lambda>(name, s). (name, get_slot v s)) field_map"

definition extract_context_for_message ::
    "bool \<Rightarrow> protocol \<Rightarrow> string \<Rightarrow> u8 list \<Rightarrow> (string, u64) hmap option" where
  "extract_context_for_message chk proto nm data =
     do { (program, field_map) \<leftarrow> protocol_to_bytecode_with_map chk proto;
          let (v, out) = run chk program (load_input data (vm_new (slot_count program))) in
          if out = Panicked then None
          else Some (hm_put offset_var (of_nat (current_offset v)) (field_context field_map v)) }"

definition extract_context :: "bool \<Rightarrow> protocol \<Rightarrow> u8 list \<Rightarrow> (string, u64) hmap option" where
  "extract_context chk proto data =
     (case pr_messages proto of
        [] \<Rightarrow> Some []
      | m # ms \<Rightarrow> extract_context_for_message chk proto (msg_name m) data)"

end
