(* ===== verification/Compile_Release.thy ===== *)
theory Compile_Release
  imports Nfdl_Compile
begin

text \<open>
  The two build profiles of the compiler (crates/nfdl-runtime/src/integration.rs). In the
  release profile compiling never fails; when the dev profile does not panic on the slot
  counter, both profiles produce the same program and field map.
\<close>

subsection \<open>The release compiler is total\<close>

named_theorems release_total

lemma slot_inc_total [release_total]: "\<exists>n. slot_inc False s = Some n"
  by (simp add: slot_inc_def)

lemma emit_zero_total [release_total]: "\<exists>c r n. emit_zero False v code ns = Some (c, r, n)"
  by (simp add: emit_zero_def slot_inc_def)

lemma bump_total [release_total]: "\<exists>st'. bump False st = Some st'"
  by (simp add: bump_def slot_inc_def)

lemma emit_expr_total [release_total]: "\<exists>x. emit_expr_to_slot False e vars code ns off = Some x"
proof (induction e arbitrary: code ns)
  case (Binary op l r)
  then obtain code1 s1 n1 where 1: "emit_expr_to_slot False l vars code ns off = Some (code1, s1, n1)"
    by (metis prod_cases3)
  obtain code2 s2 n2 where 2: "emit_expr_to_slot False r vars code1 n1 off = Some (code2, s2, n2)"
    using Binary.IH(2) by (metis prod_cases3)
  from 1 2 show ?case by (simp add: slot_inc_def)
next
  case (Unary op e)
  then obtain code1 s1 n1 where "emit_expr_to_slot False e vars code ns off = Some (code1, s1, n1)"
    by (metis prod_cases3)
  then show ?case by (simp add: slot_inc_def)
next
  case (Ternary c t f)
  obtain code1 s1 n1 where 1: "emit_expr_to_slot False c vars code ns off = Some (code1, s1, n1)"
    using Ternary.IH(1) by (metis prod_cases3)
  obtain code2 s2 n2 where
    2: "emit_expr_to_slot False t vars (code1 @ [JumpIfZero s1 0]) n1 off = Some (code2, s2, n2)"
    using Ternary.IH(2) by (metis prod_cases3)
  let ?code3 = "code2 @ [CopySlot s2 n1, Jump 0]"
  obtain code3 s3 n3 where
    "emit_expr_to_slot False f vars (patch_jump_if_zero (length code1) (here ?code3) ?code3) n2 off
       = Some (code3, s3, n3)"
    using Ternary.IH(3) by (metis prod_cases3)
  with 1 2 show ?case by (simp add: Let_def)
next
  case (Coalesce v d)
  obtain code1 s1 n1 where 1: "emit_expr_to_slot False v vars code ns off = Some (code1, s1, n1)"
    using Coalesce.IH(1) by (metis prod_cases3)
  let ?code2 = "code1 @ [JumpIfZero s1 0, CopySlot s1 n1, Jump 0]"
  obtain code3 s3 n3 where
    "emit_expr_to_slot False d vars (patch_jump_if_zero (length code1) (here ?code2) ?code2) n1 off
       = Some (code3, s3, n3)"
    using Coalesce.IH(2) by (metis prod_cases3)
  with 1 show ?case by (simp add: Let_def)
qed (simp_all add: emit_zero_total split: option.split)

lemma emit_value_total: "\<exists>r st'. emit_value False off e st = Some (r, st')"
  using emit_expr_total [of e "e_vars st" "e_code st" "e_slot st" off] by (auto simp: emit_value_def)

text \<open>A bind whose first action never fails fails only when its continuation does.\<close>

lemma bind_total:
  "\<exists>a. m = Some a \<Longrightarrow> (\<And>a. m = Some a \<Longrightarrow> \<exists>x. f a = Some x) \<Longrightarrow> \<exists>x. Option.bind m f = Some x"
  by auto

lemma value_bind_total:
  "(\<And>r st'. \<exists>x. f (r, st') = Some x) \<Longrightarrow> \<exists>x. Option.bind (emit_value False off e st) f = Some x"
  using emit_value_total [of off e st] by auto

lemma emit_read_total [release_total]: "\<exists>st'. emit_read False off i st = Some st'"
  by (simp add: emit_read_def bump_total)

lemma emit_condition_total: "\<exists>j st'. emit_condition False off f st = Some (j, st')"
proof (cases "f_conditional f")
  case (Some c)
  obtain r st' where "emit_value False off c st = Some (r, st')" using emit_value_total by blast
  with Some show ?thesis by (simp add: emit_condition_def)
qed (simp add: emit_condition_def)

lemma emit_type_total: "\<exists>st'. emit_type False off le f st = Some st'"
  unfolding emit_type_def Let_def
  by (cases "f_ty f") (auto simp: emit_read_total intro!: value_bind_total)

lemma emit_validate_total: "\<exists>st'. emit_validate False off v st = Some st'"
  unfolding emit_validate_def by (rule value_bind_total) simp

lemma finish_field_total: "\<exists>st'. finish_field False off f rs jmp st = Some st'"
  unfolding finish_field_def Let_def
  by (rule bind_total) (auto simp: emit_validate_total split: option.split)

lemma emit_let_total: "\<exists>st'. emit_let False off pre l st = Some st'"
  unfolding emit_let_def Let_def by (intro value_bind_total) (auto intro!: bind_total bump_total)

lemma emit_carries_total: "\<exists>cs' st'. emit_carries False off pre carries cs st = Some (cs', st')"
proof (induction carries arbitrary: cs st)
  case (Cons c carries)
  obtain r st1 where "emit_value False off (c_init c) st = Some (r, st1)" using emit_value_total by blast
  with Cons.IH show ?case by simp
qed simp

lemma emit_nexts_total: "\<exists>st'. emit_nexts False off pre nexts st = Some st'"
proof (induction nexts arbitrary: st)
  case (Cons n nexts)
  obtain r st1 where "emit_value False off (n_value n) st = Some (r, st1)" using emit_value_total by blast
  with Cons.IH show ?case by simp
qed simp

lemma emit_loop_head_total: "\<exists>cs a b st'. emit_loop_head False off pre lp st = Some (cs, a, b, st')"
proof -
  obtain cs st1 where "emit_carries False off pre (p_carries lp) [] st = Some (cs, st1)"
    using emit_carries_total by blast
  moreover obtain r st2 where "emit_value False off (p_condition lp) st1 = Some (r, st2)"
    using emit_value_total by blast
  ultimately show ?thesis by (simp add: emit_loop_head_def)
qed

lemma emit_loop_tail_total: "\<exists>st'. emit_loop_tail False off pre lp cs a b st = Some st'"
  using emit_nexts_total [of off pre "p_nexts lp" st] by (auto simp: emit_loop_tail_def Let_def)

lemma emit_case_test_total: "\<exists>i st'. emit_case_test False tag cv st = Some (i, st')"
  by (auto simp: emit_case_test_def bump_def slot_inc_def Let_def)

lemma emit_total:
  "\<exists>st'. emit_field False msgs off le depth pre f st = Some st'"
  "\<exists>st'. emit_loop_body False msgs off le depth pre fs st = Some st'"
  "\<exists>st'. emit_items False msgs off le depth pre is st = Some st'"
  "\<exists>st'. emit_match False msgs off le depth pre m st = Some st'"
  "\<exists>ends' st'. emit_arms False msgs off le depth pre tag arms ends st = Some (ends', st')"
proof (induction False msgs off le depth pre f st and False msgs off le depth pre fs st and
    False msgs off le depth pre "is" st and False msgs off le depth pre m st and
    False msgs off le depth pre tag arms ends st
    rule: emit_field_emit_loop_body_emit_items_emit_match_emit_arms.induct)
  case (1 msgs off le depth pre f st)
  show ?case
  proof (cases "max_ref_depth < depth")
    case True
    then show ?thesis by (simp add: emit_field.simps emit_read_total)
  next
    case False
    obtain j st1 where c: "emit_condition False off f st = Some (j, st1)"
      using emit_condition_total by blast
    have "\<exists>st3. (case ref_target msgs f of
                 None \<Rightarrow> emit_type False off le f (register_field pre f st1)
               | Some m \<Rightarrow> map_option (\<lambda>s. s\<lparr>e_vars := e_vars (register_field pre f st1)\<rparr>)
                   (emit_items False msgs off le (Suc depth) (full_name pre (f_name f))
                      (message_items m) (register_field pre f st1))) = Some st3"
      using 1 [OF False c refl refl refl] by (auto simp: emit_type_total split: option.split)
    with False c show ?thesis by (auto simp: emit_field.simps Let_def finish_field_total)
  qed
next
  case (3 msgs off le depth pre f fs st)
  then show ?case by auto
next
  case (5 msgs off le depth pre i is' st)
  show ?case
  proof (cases i)
    case (ItemP lp)
    obtain cs a b st2 where h: "emit_loop_head False off (full_name pre (p_name lp)) lp st = Some (cs, a, b, st2)"
      using emit_loop_head_total by blast
    obtain st3 where b: "emit_loop_body False msgs off le depth (full_name pre (p_name lp)) (p_body lp) st2 = Some st3"
      using "5.hyps"(2) [OF ItemP refl h refl refl refl] by blast
    obtain st4 where t: "emit_loop_tail False off (full_name pre (p_name lp)) lp cs a b st3 = Some st4"
      using emit_loop_tail_total by blast
    from ItemP h b t "5.hyps"(4) show ?thesis by (simp add: Let_def)
  next
    case (ItemF f)
    with "5.hyps"(1,4) show ?thesis by fastforce
  next
    case (ItemL l)
    with "5.hyps"(4) emit_let_total [of off pre l st] show ?thesis by auto
  next
    case (ItemV v)
    with "5.hyps"(4) emit_validate_total [of off v st] show ?thesis by auto
  next
    case (ItemM m)
    with "5.hyps"(3,4) show ?thesis by fastforce
  qed
next
  case (6 msgs off le depth pre m st)
  obtain tag st1 where v: "emit_value False off (m_tag m) st = Some (tag, st1)"
    using emit_value_total by blast
  obtain ends st2 where a: "emit_arms False msgs off le depth pre tag (m_arms m) [] st1 = Some (ends, st2)"
    using "6.hyps"(1) [OF v refl] by blast
  from v a "6.hyps"(2) [OF v refl a refl] show ?case
    by (auto simp: emit_match.simps split: list.split)
next
  case (8 msgs off le depth pre tag_slot a as end_jumps st)
  show ?case
  proof (cases "a_case a")
    case None
    with "8.hyps"(1) show ?thesis by auto
  next
    case (Some cv)
    obtain i st1 where t: "emit_case_test False tag_slot cv st = Some (i, st1)"
      using emit_case_test_total by blast
    with Some "8.hyps"(2) [OF Some t refl] "8.hyps"(3) [OF Some t refl] show ?thesis by auto
  qed
qed auto

text \<open>C7: in the release profile the compiler terminates with a program for every protocol:
  mutually recursive messages included, whose references are inlined to a bounded depth.\<close>

theorem compile_total: "\<exists>p fm. protocol_to_bytecode_with_map False proto = Some (p, fm)"
  using emit_total(3) [of "pr_messages proto" 0 "pr_endian proto = ''little''" 0 "[]"]
  by (simp add: protocol_to_bytecode_with_map_def Let_def bind_eq_Some_conv)

subsection \<open>The two profiles agree\<close>

text \<open>
  The profiles differ only in what the increment of the 16-bit slot counter does on overflow. Each
  emitter of the dev profile is below its release counterpart in the order \<open>sub_opt\<close> (what it
  returns, the other returns too), by one rule per construct of the option monad.
\<close>

definition sub_opt :: "'a option \<Rightarrow> 'a option \<Rightarrow> bool" where
  "sub_opt m n \<longleftrightarrow> (\<forall>x. m = Some x \<longrightarrow> n = Some x)"

named_theorems profile_ok

lemma sub_opt_refl [profile_ok]: "sub_opt m m"
  by (simp add: sub_opt_def)

lemma sub_opt_bind [profile_ok]:
  "sub_opt m m' \<Longrightarrow> (\<And>x. m = Some x \<Longrightarrow> sub_opt (f x) (f' x)) \<Longrightarrow> sub_opt (Option.bind m f) (Option.bind m' f')"
  by (auto simp: sub_opt_def bind_eq_Some_conv)

lemma sub_opt_prod [profile_ok]: "(\<And>a b. p = (a, b) \<Longrightarrow> sub_opt (f a b) (f' a b)) \<Longrightarrow> sub_opt (case p of (a, b) \<Rightarrow> f a b) (case p of (a, b) \<Rightarrow> f' a b)"
  by (cases p) simp

lemma sub_opt_if [profile_ok]: "(c \<Longrightarrow> sub_opt m m') \<Longrightarrow> (\<not> c \<Longrightarrow> sub_opt n n') \<Longrightarrow> sub_opt (if c then m else n) (if c then m' else n')"
  by simp

lemma sub_opt_case [profile_ok]: "(x = None \<Longrightarrow> sub_opt m m') \<Longrightarrow> (\<And>y. x = Some y \<Longrightarrow> sub_opt (f y) (f' y)) \<Longrightarrow>
    sub_opt (case x of None \<Rightarrow> m | Some y \<Rightarrow> f y) (case x of None \<Rightarrow> m' | Some y \<Rightarrow> f' y)"
  by (cases x) simp_all

lemma sub_opt_list [profile_ok]: "(xs = [] \<Longrightarrow> sub_opt m m') \<Longrightarrow> (\<And>y ys. xs = y # ys \<Longrightarrow> sub_opt (f y ys) (f' y ys)) \<Longrightarrow>
    sub_opt (case xs of [] \<Rightarrow> m | y # ys \<Rightarrow> f y ys) (case xs of [] \<Rightarrow> m' | y # ys \<Rightarrow> f' y ys)"
  by (cases xs) simp_all

lemma sub_opt_map [profile_ok]: "sub_opt m m' \<Longrightarrow> sub_opt (map_option f m) (map_option f m')"
  by (auto simp: sub_opt_def)

lemma slot_inc_profile [profile_ok]: "sub_opt (slot_inc True s) (slot_inc False s)"
  by (simp add: sub_opt_def slot_inc_def)

lemma emit_zero_profile [profile_ok]: "sub_opt (emit_zero True v code ns) (emit_zero False v code ns)"
  unfolding emit_zero_def by (intro profile_ok)

lemma bump_profile [profile_ok]: "sub_opt (bump True st) (bump False st)"
  unfolding bump_def by (intro profile_ok)

lemma emit_expr_profile [profile_ok]:
  "sub_opt (emit_expr_to_slot True e vars code ns off) (emit_expr_to_slot False e vars code ns off)"
  by (induction e arbitrary: code ns) (simp_all only: emit_expr_to_slot.simps Let_def, (intro profile_ok | assumption)+)

lemma emit_value_profile [profile_ok]: "sub_opt (emit_value True off e st) (emit_value False off e st)"
  unfolding emit_value_def by (intro profile_ok)

lemma emit_read_profile [profile_ok]: "sub_opt (emit_read True off i st) (emit_read False off i st)"
  unfolding emit_read_def by (intro profile_ok)

lemma emit_condition_profile [profile_ok]: "sub_opt (emit_condition True off f st) (emit_condition False off f st)"
  unfolding emit_condition_def by (intro profile_ok)

lemma emit_type_profile [profile_ok]: "sub_opt (emit_type True off le f st) (emit_type False off le f st)"
  unfolding emit_type_def Let_def by (cases "f_ty f"; simp only: nfdl_type.simps; intro profile_ok)

lemma emit_validate_profile [profile_ok]: "sub_opt (emit_validate True off v st) (emit_validate False off v st)"
  unfolding emit_validate_def by (intro profile_ok)

lemma finish_field_profile [profile_ok]: "sub_opt (finish_field True off f rs jmp st) (finish_field False off f rs jmp st)"
  unfolding finish_field_def Let_def by (intro profile_ok)

lemma emit_let_profile [profile_ok]: "sub_opt (emit_let True off pre l st) (emit_let False off pre l st)"
  unfolding emit_let_def Let_def by (intro profile_ok)

lemma emit_carries_profile [profile_ok]: "sub_opt (emit_carries True off pre cs acc st) (emit_carries False off pre cs acc st)"
  by (induction cs arbitrary: acc st) (simp_all only: emit_carries.simps, (intro profile_ok | assumption)+)

lemma emit_nexts_profile [profile_ok]: "sub_opt (emit_nexts True off pre ns st) (emit_nexts False off pre ns st)"
  by (induction ns arbitrary: st) (simp_all only: emit_nexts.simps, (intro profile_ok | assumption)+)

lemma emit_loop_head_profile [profile_ok]: "sub_opt (emit_loop_head True off pre lp st) (emit_loop_head False off pre lp st)"
  unfolding emit_loop_head_def by (intro profile_ok)

lemma emit_loop_tail_profile [profile_ok]: "sub_opt (emit_loop_tail True off pre lp cs a b st) (emit_loop_tail False off pre lp cs a b st)"
  unfolding emit_loop_tail_def Let_def by (intro profile_ok)

lemma emit_case_test_profile [profile_ok]: "sub_opt (emit_case_test True tag cv st) (emit_case_test False tag cv st)"
  unfolding emit_case_test_def Let_def by (intro profile_ok)

lemma emit_profile:
  "sub_opt (emit_field True msgs off le depth pre f st) (emit_field False msgs off le depth pre f st)"
  "sub_opt (emit_loop_body True msgs off le depth pre fs st) (emit_loop_body False msgs off le depth pre fs st)"
  "sub_opt (emit_items True msgs off le depth pre is st) (emit_items False msgs off le depth pre is st)"
  "sub_opt (emit_match True msgs off le depth pre m st) (emit_match False msgs off le depth pre m st)"
  "sub_opt (emit_arms True msgs off le depth pre tag arms ends st) (emit_arms False msgs off le depth pre tag arms ends st)"
proof (induction True msgs off le depth pre f st and True msgs off le depth pre fs st and
    True msgs off le depth pre "is" st and True msgs off le depth pre m st and
    True msgs off le depth pre tag arms ends st
    rule: emit_field_emit_loop_body_emit_items_emit_match_emit_arms.induct)
  case (1 msgs off le depth pre f st)
  then show ?case unfolding emit_field.simps Let_def by (intro profile_ok) blast+
next
  case (3 msgs off le depth pre f fs st)
  then show ?case by (simp only: emit_loop_body.simps) (intro profile_ok; blast)
next
  case (5 msgs off le depth pre i is' st)
  show ?case
  proof (cases i)
    case (ItemF f)
    with 5 show ?thesis by (simp only: emit_items.simps item.simps) (intro profile_ok; blast)
  next
    case (ItemP lp)
    show ?thesis unfolding emit_items.simps ItemP item.simps Let_def
      by (intro profile_ok) (use "5.hyps"(2) [OF ItemP] in blast, use "5.hyps"(4) ItemP in \<open>simp add: Let_def\<close>)
  next
    case (ItemL l)
    with 5 show ?thesis by (simp only: emit_items.simps item.simps) (intro profile_ok; blast)
  next
    case (ItemV v)
    with 5 show ?thesis by (simp only: emit_items.simps item.simps) (intro profile_ok; blast)
  next
    case (ItemM m)
    with 5 show ?thesis by (simp only: emit_items.simps item.simps) (intro profile_ok; blast)
  qed
next
  case (6 msgs off le depth pre m st)
  show ?case unfolding emit_match.simps
    by (intro profile_ok) (use "6.hyps"(1) in blast, use "6.hyps"(2) in blast)
next
  case (8 msgs off le depth pre tag a as ends st)
  show ?case
  proof (cases "a_case a")
    case None
    with "8.hyps"(1) show ?thesis by simp
  next
    case (Some cv)
    note step = "8.hyps"(2) [OF Some _ refl] "8.hyps"(3) [OF Some _ refl]
    show ?thesis unfolding emit_arms.simps Some option.case
      by (intro profile_ok) (use step(1) in blast, use step(2) in blast)
  qed
qed (simp_all add: sub_opt_refl)

lemma compile_profiles_agree:
  "protocol_to_bytecode_with_map True proto = Some x \<Longrightarrow> protocol_to_bytecode_with_map False proto = Some x"
proof -
  have "sub_opt (protocol_to_bytecode_with_map True proto) (protocol_to_bytecode_with_map False proto)"
    unfolding protocol_to_bytecode_with_map_def Let_def by (intro profile_ok emit_profile)
  then show "protocol_to_bytecode_with_map True proto = Some x \<Longrightarrow> protocol_to_bytecode_with_map False proto = Some x"
    by (simp add: sub_opt_def)
qed
end
