(* ===== verification/Compile_Safety.thy ===== *)
theory Compile_Safety
  imports Compile_Release Bytecode_Safety
begin

text \<open>
  What the protocol compiler guarantees of its output: every slot exists in the VM the
  program asks for, every jump stays in the program, conditional jumps only go forward.
  From this: compiled programs never panic in stream mode, and the interpreter's loop
  counter never moves on them.
\<close>

subsection \<open>The emitter invariant\<close>

definition est_ok :: "nat \<Rightarrow> emitter \<Rightarrow> bool" where
  "est_ok off st \<longleftrightarrow> off \<le> e_slot st \<and> slots_le (e_slot st) (e_vars st) \<and> slots_le (e_slot st) (e_fields st)"

definition grows :: "nat \<Rightarrow> emitter \<Rightarrow> emitter \<Rightarrow> bool" where
  "grows off st st' \<longleftrightarrow> est_ok off st' \<and> emits (e_slot st) (e_code st) (e_slot st') (e_code st')"

lemma grows_ok: "grows off st st' \<Longrightarrow> est_ok off st'"
  by (simp add: grows_def)

lemma grows_slot: "grows off st st' \<Longrightarrow> e_slot st \<le> e_slot st'"
  by (simp add: grows_def emits_def)

lemma grows_length: "grows off st st' \<Longrightarrow> length (e_code st) \<le> length (e_code st')"
  by (auto simp: grows_def emits_def dest: prefix_length_le)

lemma grows_refl: "est_ok off st \<Longrightarrow> grows off st st"
  by (simp add: grows_def)

lemma grows_trans [trans]: "grows off st st1 \<Longrightarrow> grows off st1 st2 \<Longrightarrow> grows off st st2"
  by (auto simp: grows_def intro: emits_trans)

lemma grows_push:
  "grows off st st1 \<Longrightarrow> instr_ok (e_slot st1) (length (e_code st1)) (Suc (length (e_code st1))) i \<Longrightarrow>
   grows off st (push i st1)"
  by (auto simp: grows_def push_def est_ok_def intro: emits_snoc)

lemma grows_bump:
  assumes "bump True st1 = Some st2" "grows off st st1"
  shows "grows off st st2"
proof -
  have "st2 = st1\<lparr>e_slot := Suc (e_slot st1)\<rparr>" using assms(1) by (auto simp: bump_def)
  then show ?thesis
    using assms(2) emits_weaken [OF _ le_SucI [OF order_refl]]
    by (auto simp: grows_def est_ok_def slots_le_def le_Suc_eq)
qed

text \<open>Changes of the name tables only.\<close>

lemma grows_tables:
  "grows off st st1 \<Longrightarrow> e_code st2 = e_code st1 \<Longrightarrow> e_slot st2 = e_slot st1 \<Longrightarrow>
   slots_le (e_slot st1) (e_vars st2) \<Longrightarrow> slots_le (e_slot st1) (e_fields st2) \<Longrightarrow> grows off st st2"
  by (simp add: grows_def est_ok_def)

lemma est_okD:
  "est_ok off st \<Longrightarrow> slots_le (e_slot st) (e_vars st)" "est_ok off st \<Longrightarrow> slots_le (e_slot st) (e_fields st)"
  "est_ok off st \<Longrightarrow> off \<le> e_slot st"
  by (simp_all add: est_ok_def)

lemma grows_put_tables:
  "grows off st st1 \<Longrightarrow> s \<le> e_slot st1 \<Longrightarrow>
   grows off st (st1\<lparr>e_vars := hm_put k s (e_vars st1), e_fields := hm_put l s (e_fields st1)\<rparr>)"
  "grows off st st1 \<Longrightarrow> s \<le> e_slot st1 \<Longrightarrow>
   grows off st (st1\<lparr>e_fields := hm_put l s (e_fields st1), e_vars := hm_put k s (e_vars st1)\<rparr>)"
  "grows off st st1 \<Longrightarrow> s \<le> e_slot st1 \<Longrightarrow>
   grows off st (st1\<lparr>e_vars := hm_put k s (hm_put l s (e_vars st1))\<rparr>)"
  by (simp_all add: grows_def est_ok_def slots_le_put)

text \<open>A skip jump whose target is patched in later.\<close>

lemma grows_hole:
  assumes "grows off st st1" "c \<le> e_slot st1" "grows off (push (JumpIfZero c u) st1) st2"
  shows "grows off st (st2\<lparr>e_code := patch_jump_if_zero (length (e_code st1)) (here (e_code st2)) (e_code st2)\<rparr>)"
proof -
  have "emits (e_slot st1) (e_code st1 @ [JumpIfZero c u]) (e_slot st2) (e_code st2)"
    using assms(3) by (simp add: grows_def push_def)
  moreover from this have "length (e_code st1) < length (e_code st2)"
    using prefix_length_append [OF emits_prefixD] by fastforce
  ultimately have "emits (e_slot st) (e_code st) (e_slot st2)
      (patch_jump_if_zero (length (e_code st1)) (here (e_code st2)) (e_code st2))"
    using assms(1,2) here_le by (intro emits_hole [where u = u]) (auto simp: grows_def)
  with assms(3) show ?thesis by (simp add: grows_def est_ok_def)
qed

lemma emit_value_grows:
  assumes "emit_value True off e st = Some (r, st')" "est_ok off st"
  shows "grows off st st' \<and> r \<le> e_slot st'"
proof -
  obtain code n where "emit_expr_to_slot True e (e_vars st) (e_code st) (e_slot st) off = Some (code, r, n)"
    "st' = st\<lparr>e_code := code, e_slot := n\<rparr>"
    using assms(1) by (auto simp: emit_value_def bind_eq_Some_conv)
  with emit_expr_emits [OF this(1)] assms(2) show ?thesis
    by (auto simp: grows_def est_ok_def dest: emits_leD intro: slots_le_mono)
qed

lemma emit_read_grows:
  assumes "emit_read True off i st1 = Some st2" "grows off st st1"
    and "instr_ok (e_slot st1) (length (e_code st1)) (Suc (length (e_code st1))) i"
  shows "grows off st st2"
proof -
  have "grows off st (push i st1)" using grows_push [OF assms(2,3)] .
  then have "grows off st (push (UpdateOffset off) (push i st1))"
    by (rule grows_push) (use \<open>grows off st (push i st1)\<close> in \<open>simp add: grows_def est_ok_def\<close>)
  then show ?thesis by (rule grows_bump [OF assms(1) [unfolded emit_read_def]])
qed

subsection \<open>The pieces of a field\<close>

lemma register_field_frame [simp]:
  "e_code (register_field pre f st) = e_code st" "e_slot (register_field pre f st) = e_slot st"
  by (simp_all add: register_field_def Let_def)

lemma register_field_ok: "est_ok off st \<Longrightarrow> est_ok off (register_field pre f st)"
  by (simp add: register_field_def Let_def est_ok_def slots_le_put)

lemma emit_type_grows:
  assumes "emit_type True off le f st = Some st'" "est_ok off st"
  shows "grows off st st'"
proof (cases "f_ty f")
  case (Bytes len)
  then obtain l st1 where 1: "emit_value True off len st = Some (l, st1)"
      "emit_read True off (ReadSlice l (e_slot st)) st1 = Some st'"
    using assms(1) by (auto simp: emit_type_def bind_eq_Some_conv)
  with emit_value_grows [OF 1(1) assms(2)] grows_slot show ?thesis
    by (intro emit_read_grows [OF 1(2)]) auto
qed (use assms in \<open>auto simp: emit_type_def Let_def intro: emit_read_grows [OF _ grows_refl]\<close>)

lemma emit_validate_grows:
  assumes "emit_validate True off v st = Some st'" "est_ok off st"
  shows "grows off st st'"
  using assms emit_value_grows [of off "v_expr v" st]
  by (auto simp: emit_validate_def bind_eq_Some_conv intro: grows_push)

lemma finish_field_grows:
  assumes "finish_field True off f rs None st = Some st'" "est_ok off st" "rs \<le> e_slot st"
  shows "grows off st st'"
proof -
  obtain st1 where 1: "(case f_validate f of None \<Rightarrow> Some st | Some v \<Rightarrow> emit_validate True off v st) = Some st1"
    and 2: "st' = (if is_ref (f_ty f) then st1 else push (EmitField (f_name f) rs) st1)"
    using assms(1) by (auto simp: finish_field_def bind_eq_Some_conv Let_def)
  have g: "grows off st st1"
    using 1 assms(2) by (auto intro: grows_refl emit_validate_grows split: option.splits)
  with 2 assms(3) grows_slot [OF g] show ?thesis by (auto intro: grows_push)
qed

lemma finish_field_patch:
  assumes "finish_field chk off f rs (Some idx) st = Some st'"
  obtains st2 where "finish_field chk off f rs None st = Some st2"
    "st' = st2\<lparr>e_code := patch_jump_if_zero idx (here (e_code st2)) (e_code st2)\<rparr>"
  using assms by (auto simp: finish_field_def bind_eq_Some_conv Let_def)

text \<open>A field whose body, from the registration on, grows the emitter, grows it.\<close>

lemma field_grows:
  assumes "emit_condition True off f st = Some (jmp, st1)" "est_ok off st"
    and "grows off (register_field pre f st1) st3"
    and "finish_field True off f (e_slot st1) jmp st3 = Some st'"
  shows "grows off st st'"
proof (cases "f_conditional f")
  case None
  with assms(1) have e: "jmp = None" "st1 = st" by (auto simp: emit_condition_def)
  have "grows off st (register_field pre f st)"
    using register_field_ok [OF assms(2)] by (simp add: grows_def est_ok_def)
  with assms(3) e have g: "grows off st st3" by (auto intro: grows_trans)
  with finish_field_grows [OF _ grows_ok [OF g]] grows_slot [OF g] assms(4) e show ?thesis
    by (auto intro: grows_trans)
next
  case (Some c)
  then obtain cs st0 where c: "emit_value True off c st = Some (cs, st0)" "jmp = Some (length (e_code st0))"
      "st1 = push (JumpIfZero cs 0) st0"
    using assms(1) by (auto simp: emit_condition_def bind_eq_Some_conv)
  note v = emit_value_grows [OF c(1) assms(2)]
  have ok1: "est_ok off st1" using v c(3) by (simp add: grows_def est_ok_def push_def)
  from assms(4) c(2) obtain st4 where f: "finish_field True off f (e_slot st1) None st3 = Some st4"
      "st' = st4\<lparr>e_code := patch_jump_if_zero (length (e_code st0)) (here (e_code st4)) (e_code st4)\<rparr>"
    by (auto elim: finish_field_patch)
  have "grows off st1 (register_field pre f st1)"
    using register_field_ok [OF ok1] by (simp add: grows_def est_ok_def)
  then have g: "grows off st1 st3" using assms(3) by (rule grows_trans)
  have "grows off st1 st4"
    using g finish_field_grows [OF f(1) grows_ok [OF g] grows_slot [OF g]] by (rule grows_trans)
  then show ?thesis unfolding f(2) using v c(3) by (intro grows_hole [where c = cs and u = 0]) auto
qed

subsection \<open>The pieces of a body\<close>

lemma emit_let_grows:
  assumes "emit_let True off pre l st = Some st'" "est_ok off st"
  shows "grows off st st'"
proof -
  obtain r st1 st2 where 1: "emit_value True off (l_value l) st = Some (r, st1)"
    and 2: "bump True (push (CopySlot r (e_slot st1)) st1) = Some st2"
    and 3: "st' = st2\<lparr>e_vars := hm_put (l_name l) (e_slot st1) (e_vars st2),
              e_fields := hm_put (full_name pre (l_name l)) (e_slot st1) (e_fields st2)\<rparr>"
    using assms(1) by (auto simp: emit_let_def bind_eq_Some_conv Let_def)
  note v = emit_value_grows [OF 1 assms(2)]
  have g: "grows off st st2" using v by (intro grows_bump [OF 2] grows_push) auto
  have "e_slot st1 \<le> e_slot st2" using 2 by (auto simp: bump_def push_def)
  with g show ?thesis unfolding 3 by (rule grows_put_tables(1))
qed

lemma emit_carries_grows:
  "emit_carries True off pre carries cs st = Some (cs', st') \<Longrightarrow> est_ok off st \<Longrightarrow>
   slots_le (e_slot st) cs \<Longrightarrow> grows off st st' \<and> slots_le (e_slot st') cs'"
proof (induction carries arbitrary: cs st)
  case (Cons c carries)
  obtain r st1 where 1: "emit_value True off (c_init c) st = Some (r, st1)"
    and 2: "emit_carries True off pre carries (hm_put (c_name c) r cs)
        (st1\<lparr>e_vars := hm_put (c_name c) r (hm_put (dotted pre (c_name c)) r (e_vars st1))\<rparr>)
        = Some (cs', st')"
    using Cons.prems(1) by (auto simp: bind_eq_Some_conv)
  note v = emit_value_grows [OF 1 Cons.prems(2)]
  let ?st2 = "st1\<lparr>e_vars := hm_put (c_name c) r (hm_put (dotted pre (c_name c)) r (e_vars st1))\<rparr>"
  have g: "grows off st ?st2" using v by (intro grows_put_tables(3)) auto
  have "slots_le (e_slot ?st2) (hm_put (c_name c) r cs)"
    using v slots_le_mono [OF Cons.prems(3) grows_slot [of off st st1]] by (simp add: slots_le_put)
  from Cons.IH [OF 2 grows_ok [OF g] this] g show ?case by (auto intro: grows_trans)
qed (simp add: grows_refl)

lemma next_target_le: "est_ok off st \<Longrightarrow> next_target pre n st \<le> e_slot st"
  by (auto simp: next_target_def est_ok_def dest: slots_leD split: option.splits)

lemma emit_nexts_grows:
  "emit_nexts True off pre nexts st = Some st' \<Longrightarrow> est_ok off st \<Longrightarrow> grows off st st'"
proof (induction nexts arbitrary: st)
  case (Cons n nexts)
  obtain r st1 where 1: "emit_value True off (n_value n) st = Some (r, st1)"
    and 2: "emit_nexts True off pre nexts (push (CopySlot r (next_target pre n st)) st1) = Some st'"
    using Cons.prems(1) by (auto simp: bind_eq_Some_conv)
  note v = emit_value_grows [OF 1 Cons.prems(2)]
  have g: "grows off st (push (CopySlot r (next_target pre n st)) st1)"
    using v next_target_le [OF Cons.prems(2), of pre n] by (auto intro!: grows_push dest: grows_slot)
  from Cons.IH [OF 2 grows_ok [OF g]] g show ?case by (auto intro: grows_trans)
qed (simp add: grows_refl)

lemma register_carries_grows:
  "grows off st0 st \<Longrightarrow> slots_le (e_slot st) cs \<Longrightarrow> grows off st0 (register_carries pre carries cs st)"
proof (induction carries arbitrary: st)
  case (Cons c carries)
  have "(case hm_get cs (c_name c) of Some s \<Rightarrow> s | None \<Rightarrow> 0) \<le> e_slot st"
    using Cons.prems(2) by (auto dest: slots_leD split: option.splits)
  with Cons.prems show ?case
    unfolding register_carries.simps Let_def by (intro Cons.IH grows_put_tables(2)) auto
qed simp

lemma emit_loop_head_grows:
  assumes "emit_loop_head True off pre lp st = Some (cs, start, exit, st')" "est_ok off st"
  obtains st2 c where "grows off st st2" "c \<le> e_slot st2" "st' = push (JumpIfZero c 0) st2"
    "exit = length (e_code st2)" "start \<le> length (e_code st2)" "slots_le (e_slot st') cs"
proof -
  obtain st1 st2 c where 1: "emit_carries True off pre (p_carries lp) [] st = Some (cs, st1)"
    and 2: "emit_value True off (p_condition lp) st1 = Some (c, st2)"
    and 3: "start = here (e_code st1)" "exit = length (e_code st2)" "st' = push (JumpIfZero c 0) st2"
    using assms(1) by (auto simp: emit_loop_head_def bind_eq_Some_conv)
  have c: "grows off st st1 \<and> slots_le (e_slot st1) cs"
    using emit_carries_grows [OF 1 assms(2)] by (simp add: slots_le_def hm_get_def)
  then have v: "grows off st1 st2" "c \<le> e_slot st2"
    using emit_value_grows [OF 2] by (auto dest: grows_ok)
  have "start \<le> length (e_code st2)"
    using 3(1) here_le(1) [of "e_code st1"] grows_length [OF v(1)] by simp
  with c v 3 show thesis
    by (intro that [of st2 c]) (auto simp: push_def intro: grows_trans slots_le_mono dest: grows_slot)
qed

lemma emit_loop_tail_grows:
  assumes "grows off st st2" "c \<le> e_slot st2" "grows off (push (JumpIfZero c 0) st2) st3"
    and "emit_loop_tail True off pre lp cs start (length (e_code st2)) st3 = Some st'"
    and "start \<le> length (e_code st2)" "slots_le (e_slot st2) cs"
  shows "grows off st st'"
proof -
  obtain st4 where 1: "emit_nexts True off pre (p_nexts lp) st3 = Some st4"
    and 2: "st' = register_carries pre (p_carries lp) cs
       ((push (Jump start) st4)\<lparr>e_code := patch_jump_if_zero (length (e_code st2))
          (here (e_code (push (Jump start) st4))) (e_code (push (Jump start) st4))\<rparr>)"
    using assms(4) by (auto simp: emit_loop_tail_def bind_eq_Some_conv Let_def)
  have g4: "grows off (push (JumpIfZero c 0) st2) st4"
    using assms(3) emit_nexts_grows [OF 1 grows_ok [OF assms(3)]] by (rule grows_trans)
  have "start \<le> length (e_code st4)"
    using assms(5) g4 by (auto simp: grows_def push_def dest!: emits_prefixD prefix_length_append)
  then have "grows off (push (JumpIfZero c 0) st2) (push (Jump start) st4)"
    using g4 by (intro grows_push) auto
  from grows_hole [OF assms(1,2) this]
  show ?thesis
    unfolding 2 using assms(6) grows_slot [OF g4]
    by (intro register_carries_grows) (auto simp: push_def intro: slots_le_mono)
qed

lemma emit_case_test_grows:
  assumes "emit_case_test True tag cv st = Some (idx, st')" "est_ok off st" "tag \<le> e_slot st"
  obtains st2 c where "grows off st st2" "c \<le> e_slot st2" "st' = push (JumpIfZero c 0) st2"
    "idx = length (e_code st2)"
proof -
  obtain st1 st2 where 1: "bump True (push (LoadConst (i64_as_u64 cv) (e_slot st)) st) = Some st1"
    and 2: "bump True (push (BinOp BEq tag (e_slot st) (e_slot st1)) st1) = Some st2"
    and 3: "idx = length (e_code st2)" "st' = push (JumpIfZero (e_slot st1) 0) st2"
    using assms(1) by (auto simp: emit_case_test_def bind_eq_Some_conv Let_def)
  have s: "e_slot st1 = Suc (e_slot st)" "e_slot st2 = Suc (e_slot st1)"
    using 1 2 by (auto simp: bump_def push_def)
  have g1: "grows off st st1"
    by (rule grows_bump [OF 1]) (auto intro!: grows_push grows_refl assms(2))
  have "grows off st st2"
    by (rule grows_bump [OF 2]) (use assms(3) s in \<open>auto intro!: grows_push g1\<close>)
  with 3 s show thesis by (intro that) auto
qed

lemma finish_case_grows:
  assumes "grows off st st2" "c \<le> e_slot st2" "grows off (push (JumpIfZero c 0) st2) st3"
  shows "grows off st (finish_case (length (e_code st2)) st3)"
proof -
  have "grows off (push (JumpIfZero c 0) st2) (push (Jump 0) st3)"
    using assms(3) by (rule grows_push) simp
  from grows_hole [OF assms(1,2) this] show ?thesis by (simp add: finish_case_def Let_def)
qed

lemma patch_ends_grows:
  assumes "grows off st st1" "\<forall>j\<in>set ends. length (e_code st) \<le> j"
  shows "grows off st (patch_ends ends st1)"
proof -
  have "emits (e_slot st) (e_code st) (e_slot st1) (fold (\<lambda>j. patch_jump j t) ends c)"
    if "emits (e_slot st) (e_code st) (e_slot st1) c" "t \<le> length c" for t c
    using assms(2) that by (induction ends arbitrary: c) (simp_all add: emits_patch_jump)
  with assms(1) here_le(1) show ?thesis by (simp add: patch_ends_def grows_def est_ok_def)
qed

subsection \<open>The whole compiler\<close>

lemma restore_vars_grows:
  "grows off st st1 \<Longrightarrow> est_ok off st \<Longrightarrow> grows off st (st1\<lparr>e_vars := e_vars st\<rparr>)"
  by (auto simp: grows_def est_ok_def dest: emits_leD intro: slots_le_mono)

theorem emit_grows:
  "emit_field True msgs off le depth pre f st = Some st' \<Longrightarrow> est_ok off st \<Longrightarrow> grows off st st'"
  "emit_loop_body True msgs off le depth pre fs st = Some st' \<Longrightarrow> est_ok off st \<Longrightarrow> grows off st st'"
  "emit_items True msgs off le depth pre is st = Some st' \<Longrightarrow> est_ok off st \<Longrightarrow> grows off st st'"
  "emit_match True msgs off le depth pre m st = Some st' \<Longrightarrow> est_ok off st \<Longrightarrow> grows off st st'"
  "emit_arms True msgs off le depth pre tag arms ends st = Some (ends', st2) \<Longrightarrow> est_ok off st \<Longrightarrow>
     tag \<le> e_slot st \<Longrightarrow>
     grows off st st2 \<and> (\<forall>j\<in>set ends'. j \<in> set ends \<or> length (e_code st) \<le> j)"
proof (induction True msgs off le depth pre f st and True msgs off le depth pre fs st and
    True msgs off le depth pre "is" st and True msgs off le depth pre m st and
    True msgs off le depth pre tag arms ends st arbitrary: st' and st' and st' and st' and ends' st2
    rule: emit_field_emit_loop_body_emit_items_emit_match_emit_arms.induct)
  case (1 msgs off le depth pre f st)
  show ?case
  proof (cases "max_ref_depth < depth")
    case True
    with "1.prems" show ?thesis
      by (auto simp: emit_field.simps intro: emit_read_grows [OF _ grows_refl])
  next
    case False
    then obtain jmp st1 st3 where 1: "emit_condition True off f st = Some (jmp, st1)"
      and 2: "(case ref_target msgs f of
                 None \<Rightarrow> emit_type True off le f (register_field pre f st1)
               | Some m \<Rightarrow> map_option (\<lambda>s. s\<lparr>e_vars := e_vars (register_field pre f st1)\<rparr>)
                   (emit_items True msgs off le (Suc depth) (full_name pre (f_name f))
                      (message_items m) (register_field pre f st1))) = Some st3"
      and 3: "finish_field True off f (e_slot st1) jmp st3 = Some st'"
      using "1.prems"(1) by (auto simp: emit_field.simps bind_eq_Some_conv Let_def)
    have ok: "est_ok off (register_field pre f st1)"
      using 1 "1.prems"(2) emit_value_grows [of off _ st]
      by (fastforce simp: emit_condition_def bind_eq_Some_conv est_ok_def grows_def push_def
          intro!: register_field_ok split: option.splits)
    have "grows off (register_field pre f st1) st3"
    proof (cases "ref_target msgs f")
      case None
      with 2 emit_type_grows [OF _ ok] show ?thesis by simp
    next
      case (Some m)
      with 2 obtain s where s: "emit_items True msgs off le (Suc depth) (full_name pre (f_name f))
          (message_items m) (register_field pre f st1) = Some s"
          "st3 = s\<lparr>e_vars := e_vars (register_field pre f st1)\<rparr>" by auto
      have "grows off (register_field pre f st1) s"
        using "1.hyps" [OF False 1 refl refl refl Some s(1) ok] .
      then show ?thesis unfolding s(2) using ok by (rule restore_vars_grows)
    qed
    from field_grows [OF 1 "1.prems"(2) this 3] show ?thesis .
  qed
next
  case (3 msgs off le depth pre f fs st)
  then obtain st1 where "emit_field True msgs off le depth pre f st = Some st1"
    "emit_loop_body True msgs off le depth pre fs st1 = Some st'"
    by (auto simp: bind_eq_Some_conv)
  with 3 show ?case by (blast intro: grows_trans dest: grows_ok)
next
  case (5 msgs off le depth pre i is' st)
  let ?item = "case i of
       ItemF f \<Rightarrow> emit_field True msgs off le depth pre f st
     | ItemL l \<Rightarrow> emit_let True off pre l st
     | ItemV v \<Rightarrow> emit_validate True off v st
     | ItemP lp \<Rightarrow>
         let loop_pre = full_name pre (p_name lp) in
         do { (cs, loop_start, exit_jump, st2) \<leftarrow> emit_loop_head True off loop_pre lp st;
              st3 \<leftarrow> emit_loop_body True msgs off le depth loop_pre (p_body lp) st2;
              emit_loop_tail True off loop_pre lp cs loop_start exit_jump st3 }
     | ItemM m \<Rightarrow> emit_match True msgs off le depth pre m st"
  from "5.prems"(1) obtain st1 where e: "?item = Some st1"
    and rest: "emit_items True msgs off le depth pre is' st1 = Some st'"
    by (auto simp: bind_eq_Some_conv)
  have g: "grows off st st1"
  proof (cases i)
    case (ItemP lp)
    with e obtain cs start exit st2 st3 where
      h: "emit_loop_head True off (full_name pre (p_name lp)) lp st = Some (cs, start, exit, st2)" and
      b: "emit_loop_body True msgs off le depth (full_name pre (p_name lp)) (p_body lp) st2 = Some st3" and
      t: "emit_loop_tail True off (full_name pre (p_name lp)) lp cs start exit st3 = Some st1"
      by (auto simp: bind_eq_Some_conv Let_def)
    from h "5.prems"(2) obtain st0 c where hd: "grows off st st0" "c \<le> e_slot st0"
      "st2 = push (JumpIfZero c 0) st0" "exit = length (e_code st0)" "start \<le> length (e_code st0)"
      "slots_le (e_slot st2) cs" by (rule emit_loop_head_grows)
    have ok2: "est_ok off st2" using hd(1,3) by (simp add: grows_def est_ok_def push_def)
    have body: "grows off st2 st3"
      using "5.hyps"(2) [OF ItemP refl h refl refl refl b ok2] .
    have "slots_le (e_slot st0) cs" using hd(3,6) by (simp add: push_def)
    then show ?thesis
      using emit_loop_tail_grows [OF hd(1,2) body [unfolded hd(3)] t [unfolded hd(4)] hd(5)] by simp
  qed (use e "5.prems"(2) "5.hyps"(1,3) in \<open>auto intro: emit_let_grows emit_validate_grows\<close>)
  from g "5.hyps"(4) [OF e rest grows_ok [OF g]] show ?case by (rule grows_trans)
next
  case (6 msgs off le depth pre m st)
  then obtain tag st1 ends st2 st3 where 1: "emit_value True off (m_tag m) st = Some (tag, st1)"
    and 2: "emit_arms True msgs off le depth pre tag (m_arms m) [] st1 = Some (ends, st2)"
    and 3: "(case filter (\<lambda>a. a_case a = None) (m_arms m) of [] \<Rightarrow> Some st2
             | a # as \<Rightarrow> emit_items True msgs off le depth pre (arm_items (last (a # as))) st2) = Some st3"
    and 4: "st' = patch_ends ends st3"
    by (auto simp: emit_match.simps bind_eq_Some_conv)
  note v = emit_value_grows [OF 1 "6.prems"(2)]
  have arms: "grows off st1 st2" "\<forall>j\<in>set ends. length (e_code st1) \<le> j"
    using "6.hyps"(1) [OF 1 refl 2] v grows_ok by auto
  have "grows off st2 st3"
  proof (cases "filter (\<lambda>a. a_case a = None) (m_arms m)")
    case Nil
    with 3 grows_refl [OF grows_ok [OF arms(1)]] show ?thesis by simp
  next
    case (Cons a as)
    with 3 have e: "emit_items True msgs off le depth pre (arm_items (last (a # as))) st2 = Some st3" by simp
    from "6.hyps"(2) [OF 1 refl 2 refl Cons e grows_ok [OF arms(1)]] show ?thesis .
  qed
  then have "grows off st st3" using v arms(1) by (blast intro: grows_trans)
  then show ?case
    unfolding 4 using arms(2) grows_length [of off st st1] v by (intro patch_ends_grows) auto
next
  case (8 msgs off le depth pre tag_slot a as end_jumps st)
  show ?case
  proof (cases "a_case a")
    case None
    with "8.prems" "8.hyps"(1) show ?thesis by auto
  next
    case (Some cv)
    then obtain idx st1 st3 where 1: "emit_case_test True tag_slot cv st = Some (idx, st1)"
      and 2: "emit_items True msgs off le depth pre (arm_items a) st1 = Some st3"
      and 3: "emit_arms True msgs off le depth pre tag_slot as (end_jumps @ [length (e_code st3)])
         (finish_case idx st3) = Some (ends', st2)"
      using "8.prems"(1) by (auto simp: bind_eq_Some_conv)
    from 1 "8.prems"(2,3) obtain st0 c where hd: "grows off st st0" "c \<le> e_slot st0"
      "st1 = push (JumpIfZero c 0) st0" "idx = length (e_code st0)" by (rule emit_case_test_grows)
    have ok1: "est_ok off st1" using hd(1,3) by (simp add: grows_def est_ok_def push_def)
    have b: "grows off st1 st3" using "8.hyps"(2) [OF Some 1 refl 2 ok1] .
    have f: "grows off st (finish_case idx st3)"
      unfolding hd(4) using finish_case_grows [OF hd(1,2) b [unfolded hd(3)]] .
    have "tag_slot \<le> e_slot (finish_case idx st3)" using "8.prems"(3) grows_slot [OF f] by simp
    from "8.hyps"(3) [OF Some 1 refl 2 3 grows_ok [OF f] this]
    have "grows off (finish_case idx st3) st2"
      "\<forall>j\<in>set ends'. j \<in> set (end_jumps @ [length (e_code st3)]) \<or> length (e_code (finish_case idx st3)) \<le> j"
      by auto
    moreover have "length (e_code st) \<le> length (e_code st3)"
      using grows_length [OF hd(1)] grows_length [OF b] hd(3) by (simp add: push_def)
    ultimately show ?thesis using grows_trans [OF f] grows_length [OF f] by fastforce
  qed
qed (auto intro: grows_refl)

subsection \<open>Compiled programs\<close>


lemma compile_grows:
  assumes "protocol_to_bytecode_with_map True proto = Some (p, fm)"
  obtains st where "grows 0 initial_emitter st"
    "p = \<lparr>instructions = e_code st @ [Return], slot_count = max (e_slot st) 32 + 16\<rparr>" "fm = e_fields st"
proof -
  have ok0: "est_ok 0 initial_emitter" by (simp add: est_ok_def initial_emitter_def slots_le_def hm_get_def)
  have ok1: "est_ok 0 (initial_emitter\<lparr>e_vars := hm_put offset_var 0 []\<rparr>)"
    using ok0 slots_le_put [of "e_slot initial_emitter" "[]" 0 offset_var]
    by (simp add: est_ok_def initial_emitter_def)
  from assms obtain st where
    1: "(if root_message_index proto < length (pr_messages proto)
         then emit_items True (pr_messages proto) 0 (pr_endian proto = ''little'') 0 []
                (message_items (pr_messages proto ! root_message_index proto))
                (initial_emitter\<lparr>e_vars := hm_put offset_var 0 []\<rparr>)
         else Some initial_emitter) = Some st" and
    2: "p = \<lparr>instructions = e_code st @ [Return], slot_count = max (e_slot st) 32 + 16\<rparr>" "fm = e_fields st"
    by (auto simp: protocol_to_bytecode_with_map_def Let_def bind_eq_Some_conv)
  have "grows 0 initial_emitter st"
  proof (cases "root_message_index proto < length (pr_messages proto)")
    case True
    with 1 emit_grows(3) [OF _ ok1] show ?thesis by (simp add: grows_def)
  next
    case False
    with 1 grows_refl [OF ok0] show ?thesis by simp
  qed
  with 2 that show thesis by blast
qed

lemma compiled_instr_ok:
  assumes "protocol_to_bytecode_with_map True proto = Some (p, fm)" "i < length (instructions p)"
  shows "instr_ok (slot_count p - 16) i (length (instructions p)) (instructions p ! i)"
proof -
  obtain st where st: "grows 0 initial_emitter st"
    and p: "p = \<lparr>instructions = e_code st @ [Return], slot_count = max (e_slot st) 32 + 16\<rparr>"
    using compile_grows [OF assms(1)] by blast
  have e: "emits 1 [LoadConst 0 0] (e_slot st) (e_code st)" using st by (simp add: grows_def initial_emitter_def)
  have "instr_ok (e_slot st) i (length (e_code st)) (e_code st ! i)" if "i < length (e_code st)"
  proof (cases i)
    case 0
    with prefix_nth [OF emits_prefixD [OF e], of 0] show ?thesis by simp
  next
    case (Suc j)
    with e that show ?thesis by (auto simp: emits_def)
  qed
  then show ?thesis
    using assms(2) unfolding p by (auto simp: nth_append less_Suc_eq intro: instr_ok_mono)
qed


lemma compiled_slot_count:
  "protocol_to_bytecode_with_map chk proto = Some (p, fm) \<Longrightarrow> 48 \<le> slot_count p"
  by (auto simp: protocol_to_bytecode_with_map_def Let_def bind_eq_Some_conv)

lemma compiled_slots_ok:
  assumes "protocol_to_bytecode_with_map True proto = Some (p, fm)"
  shows "slots_ok (max (slot_count p) 32) (instructions p)"
proof -
  have "instr_slots_ok (max (slot_count p) 32) (instructions p ! i)" if "i < length (instructions p)" for i
    using compiled_instr_ok [OF assms that] compiled_slot_count [OF assms]
    by (cases "instructions p ! i") auto
  then show ?thesis by (simp add: slots_ok_def list_all_length)
qed

text \<open>C4: a program the release compiler emits for a protocol within the 16-bit slot counter (one
  the dev profile compiles too) never panics in a release-profile stream run, whatever the
  bytes (fewer than the address space) and limits.\<close>

theorem compiled_stream_no_panic:
  assumes "protocol_to_bytecode_with_map True proto \<noteq> None"
    and "protocol_to_bytecode_with_map False proto = Some (p, fm)" "length d + 4 < usize_lim"
  shows "snd (run_stream False p (load_input d (vm_with_limits (slot_count p) l))) \<noteq> Panicked"
proof -
  from assms(1,2) compile_profiles_agree [of proto] have "protocol_to_bytecode_with_map True proto = Some (p, fm)"
    by auto
  from stream_run_no_panic [OF compiled_slots_ok [OF this] assms(3)] show ?thesis .
qed

subsection \<open>The loop limit\<close>

definition forward_only :: "instruction list \<Rightarrow> bool" where
  "forward_only prog \<longleftrightarrow> (\<forall>i<length prog. \<forall>c t. prog ! i = JumpIfZero c t \<longrightarrow> i < t)"

lemma exec_loop_iterations:
  assumes "\<And>c t. i = JumpIfZero c t \<Longrightarrow> ip < t"
  shows "loop_iterations (step_vm (exec_instr chk stream ip i v)) = loop_iterations v"
proof (cases i)
  case (ReadBits bits s)
  obtain x w where "read_bits bits v = (x, w)" by force
  with read_bits_frame [OF this] ReadBits show ?thesis by (simp add: exec_read_bits_def Let_def)
next
  case (JumpIfZero c t)
  with assms show ?thesis by (auto simp: exec_jump_if_zero_def split: option.split)
qed (simp_all add: exec_defs Let_def split: option.split bool.split)

lemma interpret_loop_iterations:
  "interpret_vm chk prog stream ip v = (w, out) \<Longrightarrow> forward_only prog \<Longrightarrow>
   loop_iterations w = loop_iterations v"
proof (induction chk prog stream ip v rule: interpret_vm.induct)
  case (1 chk prog stream ip v)
  note unf = interpret_vm.simps [of chk prog stream ip v]
  show ?case
  proof (cases "length prog \<le> ip \<or> max_instructions (lims v) < instructions_executed v")
    case True
    with "1.prems" show ?thesis by (auto simp: unf split: if_splits)
  next
    case False
    then have "loop_iterations (step_vm (exec_instr chk stream ip (prog ! ip) (tick v))) = loop_iterations v"
      using "1.prems"(2) by (subst exec_loop_iterations) (auto simp: forward_only_def)
    with False "1.prems" "1.IH" show ?thesis
      by (cases "exec_instr chk stream ip (prog ! ip) (tick v)") (auto simp: unf)
  qed
qed

lemma compiled_forward_only:
  assumes "protocol_to_bytecode_with_map True proto = Some (p, fm)" "length (instructions p) < 65536"
  shows "forward_only (instructions p)"
  unfolding forward_only_def using compiled_instr_ok [OF assms(1)] assms(2) by fastforce

text \<open>The limit \<open>max_loop_iterations\<close> never acts on a compiled protocol of fewer than
  65536 instructions. The interpreter counts backward conditional jumps only; the compiler
  closes its loops with an unconditional backward \<open>Jump\<close>, so the counter stays at zero
  and only the instruction limit bounds a compiled loop.\<close>

theorem compiled_loops_uncounted:
  assumes "protocol_to_bytecode_with_map True proto = Some (p, fm)" "length (instructions p) < 65536"
  shows "loop_iterations (fst (run chk p v)) = 0"
proof -
  obtain w out where r: "interpret_vm chk (instructions p) False 0 (reset_counters v) = (w, out)" by force
  have "loop_iterations w = 0"
    using interpret_loop_iterations [OF r compiled_forward_only [OF assms]] by (simp add: reset_counters_def)
  with r show ?thesis by (cases out) (simp_all add: run_def)
qed

subsection \<open>A protocol at work\<close>

text \<open>
  A list of tagged items: \<open>count\<close>, then a loop that parses \<open>count\<close> messages \<open>Item\<close> by
  reference, each a tagged union on its first byte.
\<close>

definition item_message :: message where
  "item_message =
     \<lparr>msg_name = ''Item'', msg_doc = None, msg_fields = [plain_field ''tag'' U8 0], msg_lets = [],
      msg_loops = [], msg_validates = [],
      msg_matches = [Match (Ident ''tag'')
        [MatchArm (Some 1) [plain_field ''a'' U8 0] [] [] [] [],
         MatchArm None [plain_field ''b'' U16 0] [] [] [] []] 1]\<rparr>"

definition list_message :: message where
  "list_message =
     \<lparr>msg_name = ''Items'', msg_doc = None, msg_fields = [plain_field ''count'' U8 0], msg_lets = [],
      msg_loops = [\<lparr>p_name = ''items'',
        p_carries = [\<lparr>c_name = ''left'', c_ty = U8, c_init = Binary OpAdd (Ident ''count'') (IntLit 0)\<rparr>],
        p_condition = Binary OpGt (Ident ''left'') (IntLit 0),
        p_body = [plain_field ''item'' (MessageRef ''Item'') 0],
        p_nexts = [\<lparr>n_name = ''left'', n_value = Binary OpSub (Ident ''left'') (IntLit 1)\<rparr>],
        p_order = 1\<rparr>],
      msg_validates = [], msg_matches = []\<rparr>"

definition demo_protocol :: protocol where
  "demo_protocol = protocol_default\<lparr>pr_name := ''demo'', pr_messages := [item_message, list_message]\<rparr>"

definition demo_compiled :: "bytecode_program \<times> (string, nat) hmap" where
  "demo_compiled = the (protocol_to_bytecode_with_map True demo_protocol)"

lemma demo_compiles: "protocol_to_bytecode_with_map True demo_protocol = Some demo_compiled"
  by code_simp

lemma demo_root: "root_message_index demo_protocol = 1"
  by code_simp


theorem compiled_stream_no_panic_witness:
  "snd (run_stream False (fst demo_compiled)
     (load_input [2, 1, 7] (vm_with_limits (slot_count (fst demo_compiled)) limits_default))) \<noteq> Panicked"
  using demo_compiles compile_profiles_agree [OF demo_compiles]
  by (intro compiled_stream_no_panic [where fm = "snd demo_compiled" and proto = demo_protocol])
    (simp_all add: usize_lim_def)

theorem compiled_loops_uncounted_witness:
  "loop_iterations (fst (run True (fst demo_compiled) (load_input [2, 1, 7, 2, 1, 1] (vm_new 64)))) = 0"
proof (rule compiled_loops_uncounted [where fm = "snd demo_compiled"])
  show "protocol_to_bytecode_with_map True demo_protocol = Some (fst demo_compiled, snd demo_compiled)"
    using demo_compiles by simp
  show "length (instructions (fst demo_compiled)) < 65536" by code_simp
qed

end
