(* ===== verification/Compile_Clobber.thy ===== *)
theory Compile_Clobber
  imports Compile_Safety
begin

text \<open>
  Protocols whose compiled code (crates/nfdl-runtime/src/integration.rs) does not compute
  what their source says, run end to end with \<open>extract_context\<close>: the two places where a
  dangling result slot is overwritten before it is used, and the loop carry that shares the
  slot of the field it is initialised from.
\<close>

definition clobber_message :: "let_binding list \<Rightarrow> match list \<Rightarrow> message" where
  "clobber_message lets matches =
     \<lparr>msg_name = ''M'', msg_doc = None,
      msg_fields = [plain_field ''a'' U8 0, plain_field ''b'' U8 1, plain_field ''c'' U8 2],
      msg_lets = lets, msg_loops = [], msg_validates = [], msg_matches = matches\<rparr>"

definition coalesce_sum :: expr where
  "coalesce_sum = Binary OpAdd (Coalesce (Ident ''a'') (Ident ''b'')) (IntLit 1)"

definition coalesce_protocol :: protocol where
  "coalesce_protocol = protocol_default\<lparr>pr_messages :=
     [clobber_message [\<lparr>l_name = ''x'', l_value = coalesce_sum, l_order = 3\<rparr>] []]\<rparr>"

text \<open>C12: \<open>let x = (a ?? b) + 1\<close> on the bytes \<open>0 5 0\<close>. The evaluator gives 6; the compiled
  message stores 2 in \<open>x\<close>, because the constant 1 is loaded into the slot that holds the
  left operand.\<close>

theorem coalesce_operand_clobbered:
  "eval_expr True coalesce_sum [(''a'', 0), (''b'', 5)] = Some 6 \<and>
   map_option (\<lambda>ctx. hm_get ctx ''x'') (extract_context True coalesce_protocol [0, 5, 0]) = Some (Some 2)"
  by code_simp

definition ternary_match_protocol :: protocol where
  "ternary_match_protocol = protocol_default\<lparr>pr_messages :=
     [clobber_message []
        [Match (Ternary (Ident ''c'') (Ident ''a'') (Ident ''b''))
          [MatchArm (Some 1) [plain_field ''one'' U8 0] [] [] [] [],
           MatchArm (Some 2) [plain_field ''two'' U8 0] [] [] [] []] 3]]\<rparr>"

text \<open>C13: \<open>match (c ? a : b) { case 1 => one; case 2 => two }\<close> on the bytes \<open>2 2 1 9\<close>. The
  tag is 2, but the arm of 1 parses the payload: the constant of the first \<open>case\<close> is
  loaded into the tag's slot and compared with itself.\<close>

theorem match_tag_clobbered:
  "eval_expr True (Ternary (Ident ''c'') (Ident ''a'') (Ident ''b'')) [(''a'', 2), (''b'', 2), (''c'', 1)]
     = Some 2 \<and>
   map_option (\<lambda>ctx. (hm_get ctx ''one'', hm_get ctx ''two''))
     (extract_context True ternary_match_protocol [2, 2, 1, 9]) = Some (Some 9, Some 0)"
  by code_simp

definition carry_protocol :: protocol where
  "carry_protocol = protocol_default\<lparr>pr_messages :=
     [\<lparr>msg_name = ''M'', msg_doc = None, msg_fields = [plain_field ''count'' U8 0], msg_lets = [],
       msg_loops = [\<lparr>p_name = ''xs'',
         p_carries = [\<lparr>c_name = ''left'', c_ty = U8, c_init = Ident ''count''\<rparr>],
         p_condition = Binary OpGt (Ident ''left'') (IntLit 0),
         p_body = [plain_field ''x'' U8 0],
         p_nexts = [\<lparr>n_name = ''left'', n_value = Binary OpSub (Ident ''left'') (IntLit 1)\<rparr>],
         p_order = 1\<rparr>],
       msg_validates = [], msg_matches = []\<rparr>]\<rparr>"

text \<open>A loop with \<open>carry left = count\<close> and \<open>next left = left - 1\<close> on the bytes
  \<open>2 7 8\<close>. The field \<open>count\<close> was read as 2, but the context reports 0: the carry is not
  copied out of the field's slot, so \<open>next\<close> overwrites the field.\<close>

theorem carry_overwrites_field:
  "map_option (\<lambda>ctx. hm_get ctx ''count'') (extract_context True carry_protocol [2, 7, 8])
     = Some (Some 0)"
  by code_simp

end
