(* ===== verification/Op_System.thy ===== *)
theory Op_System
  imports Main
begin

text \<open>
  The interface of a component driven by a sequence of operations: a state, one function
  per operation (\<open>None\<close> where the operation panics), an invariant every operation keeps.
  Clients get the invariant of every state any sequence of operations can reach.
\<close>

fun run_ops :: "('op \<Rightarrow> 's \<Rightarrow> 's option) \<Rightarrow> 'op list \<Rightarrow> 's \<Rightarrow> 's option" where
  "run_ops apply_op [] s = Some s"
| "run_ops apply_op (x # xs) s =
     (case apply_op x s of None \<Rightarrow> None | Some t \<Rightarrow> run_ops apply_op xs t)"

lemma run_ops_append:
  "run_ops apply_op (xs @ ys) s = Option.bind (run_ops apply_op xs s) (run_ops apply_op ys)"
  by (induction xs arbitrary: s) (auto split: option.split)

locale op_system =
  fixes apply_op :: "'op \<Rightarrow> 's \<Rightarrow> 's option"
    and inv :: "'s \<Rightarrow> bool"
  assumes inv_step: "inv s \<Longrightarrow> apply_op x s = Some t \<Longrightarrow> inv t"
begin

lemma inv_run: "run_ops apply_op xs s = Some t \<Longrightarrow> inv s \<Longrightarrow> inv t"
  by (induction xs arbitrary: s) (auto intro: inv_step split: option.splits)

text \<open>A measure that no operation moves by more than one step grows at most by the number of operations.\<close>

lemma count_run:
  assumes "\<And>x s t. inv s \<Longrightarrow> apply_op x s = Some t \<Longrightarrow> m t \<le> Suc (m s)"
  shows "run_ops apply_op xs s = Some t \<Longrightarrow> inv s \<Longrightarrow> m t \<le> m s + length xs"
proof (induction xs arbitrary: s)
  case (Cons x xs)
  then obtain u where u: "apply_op x s = Some u" "run_ops apply_op xs u = Some t"
    by (auto split: option.splits)
  with Cons.IH [OF u(2) inv_step [OF Cons.prems(2) u(1)]] assms [OF Cons.prems(2) u(1)]
  show ?case by simp
qed simp

end

end
