(* ===== verification/Session.thy ===== *)
theory Session
  imports Hash_Map Op_System
begin

text \<open>
  The session database (crates/nfdl-runtime/src/session.rs): creation with LRU eviction at
  capacity, state transitions, idle expiration on a logical clock.

  The \<open>u64\<close> clock is a \<open>nat\<close> with the saturation written out. \<open>HashMap\<close> iteration, which
  picks the least recently used session, is iteration over the association list; ticks
  are distinct until the clock saturates, so the order does not matter before that.
\<close>

record flow_key =
  key_data :: "u8 list"

record session_context =
  sc_state :: u32
  sc_vars :: "(string, u64) hmap"
  sc_last_access :: nat

record session_db =
  sessions :: "(flow_key, session_context) hmap"
  max_sessions :: nat
  clock :: nat

definition u64_max :: nat where
  "u64_max = 2 ^ 64 - 1"

definition u64_saturating_add :: "nat \<Rightarrow> nat \<Rightarrow> nat" where
  "u64_saturating_add a b = min (a + b) u64_max"

definition session_db_new :: "nat \<Rightarrow> session_db" where
  "session_db_new n = \<lparr>sessions = [], max_sessions = n, clock = 0\<rparr>"

definition tick_of :: "session_db \<Rightarrow> nat" where
  "tick_of db = clock db"

definition db_bump :: "session_db \<Rightarrow> nat \<times> session_db" where
  "db_bump db = (let now = u64_saturating_add (clock db) 1 in (now, db\<lparr>clock := now\<rparr>))"

text \<open>\<open>min_by_key\<close>: the first entry with the least access tick.\<close>

fun lru_entry :: "(flow_key, session_context) hmap \<Rightarrow> flow_key option" where
  "lru_entry [] = None"
| "lru_entry ((k, s) # m) =
     (if list_all (\<lambda>(k', s'). sc_last_access s \<le> sc_last_access s') m then Some k else lru_entry m)"

definition evict_lru :: "session_db \<Rightarrow> flow_key option \<times> session_db" where
  "evict_lru db =
     (case lru_entry (sessions db) of
        None \<Rightarrow> (None, db)
      | Some k \<Rightarrow> (Some k, db\<lparr>sessions := hm_del k (sessions db)\<rparr>))"

definition db_len :: "session_db \<Rightarrow> nat" where
  "db_len db = length (sessions db)"

definition db_is_empty :: "session_db \<Rightarrow> bool" where
  "db_is_empty db = (sessions db = [])"

text \<open>\<open>entry(key).or_insert(..)\<close> followed by \<open>sess.last_access = now\<close>.\<close>

definition touch_session :: "flow_key \<Rightarrow> nat \<Rightarrow> session_db \<Rightarrow> session_db" where
  "touch_session key now db =
     (let sess = (case hm_get (sessions db) key of
                    Some s \<Rightarrow> s
                  | None \<Rightarrow> \<lparr>sc_state = 0, sc_vars = [], sc_last_access = now\<rparr>)
      in db\<lparr>sessions := hm_put key (sess\<lparr>sc_last_access := now\<rparr>) (sessions db)\<rparr>)"

definition get_or_create :: "flow_key \<Rightarrow> session_db \<Rightarrow> flow_key option \<times> session_db" where
  "get_or_create key db =
     (let (now, db1) = db_bump db;
          (evicted, db2) =
            (if max_sessions db1 \<le> db_len db1 \<and> \<not> hm_contains (sessions db1) key
             then evict_lru db1 else (None, db1))
      in (evicted, touch_session key now db2))"

definition db_transition ::
    "flow_key \<Rightarrow> u32 \<Rightarrow> (string \<times> u64) option \<Rightarrow> session_db \<Rightarrow> session_db" where
  "db_transition key new_state var db =
     (let (now, db1) = db_bump db in
      case hm_get (sessions db1) key of
        None \<Rightarrow> db1
      | Some sess \<Rightarrow>
          let sess1 = sess\<lparr>sc_state := new_state, sc_last_access := now\<rparr>;
              sess2 = (case var of
                         None \<Rightarrow> sess1
                       | Some (k, v) \<Rightarrow> sess1\<lparr>sc_vars := hm_put k v (sc_vars sess1)\<rparr>)
          in db1\<lparr>sessions := hm_put key sess2 (sessions db1)\<rparr>)"

definition expire_older_than :: "nat \<Rightarrow> session_db \<Rightarrow> nat \<times> session_db" where
  "expire_older_than threshold db =
     (let db' = db\<lparr>sessions := filter (\<lambda>(k, s). threshold \<le> sc_last_access s) (sessions db)\<rparr>
      in (db_len db - db_len db', db'))"

text \<open>The operations of the database as one type, for sequences of them.\<close>

datatype session_op =
    GetOrCreate flow_key
  | DbTransition flow_key u32 "(string \<times> u64) option"
  | ExpireOlderThan nat

fun session_apply :: "session_op \<Rightarrow> session_db \<Rightarrow> session_db option" where
  "session_apply (GetOrCreate key) db = Some (snd (get_or_create key db))"
| "session_apply (DbTransition key st var) db = Some (db_transition key st var db)"
| "session_apply (ExpireOlderThan t) db = Some (snd (expire_older_than t db))"

subsection \<open>The invariant\<close>

text \<open>
  Keys are unique, the capacity is kept (one session is always allowed), no session is
  newer than the clock, and ticks are unique until the clock saturates.
\<close>

definition ticks :: "session_db \<Rightarrow> nat list" where
  "ticks db = map (\<lambda>p. sc_last_access (snd p)) (sessions db)"

definition session_inv :: "session_db \<Rightarrow> bool" where
  "session_inv db \<longleftrightarrow>
     hm_inv (sessions db) \<and> db_len db \<le> max 1 (max_sessions db) \<and>
     (\<forall>t\<in>set (ticks db). t \<le> clock db) \<and> (clock db < u64_max \<longrightarrow> distinct (ticks db))"

lemma put_values_set: "(\<lambda>p. f (snd p)) ` set (hm_put k v m) \<subseteq> insert (f v) ((\<lambda>p. f (snd p)) ` set m)"
  unfolding hm_put_def by (induction m) auto

lemma put_values_distinct:
  "distinct (map (\<lambda>p. f (snd p)) m) \<Longrightarrow> f v \<notin> (\<lambda>p. f (snd p)) ` set m \<Longrightarrow>
   distinct (map (\<lambda>p. f (snd p)) (hm_put k v m))"
proof (induction m)
  case (Cons p m)
  obtain k' v' where p: "p = (k', v')" by force
  have "f v' \<notin> (\<lambda>p. f (snd p)) ` set (hm_put k v m)"
    using put_values_set [of f k v m] Cons.prems p by auto
  moreover have "hm_put k v (p # m) = (if k' = k then (k, v) # m else p # hm_put k v m)"
    by (simp add: hm_put_def p)
  ultimately show ?case using p Cons by auto
qed (simp add: hm_put_def)

lemma del_filter: "hm_del k m = filter (\<lambda>p. fst p \<noteq> k) m"
  unfolding hm_del_def by (auto simp: AList.delete_eq intro: filter_cong)

lemma filter_inv: "hm_inv m \<Longrightarrow> hm_inv (filter P m)"
  by (simp add: hm_inv_def distinct_map_filter)

lemma filter_get:
  "hm_inv m \<Longrightarrow> hm_get (filter (\<lambda>(k, v). P v) m) k
     = (case hm_get m k of None \<Rightarrow> None | Some v \<Rightarrow> if P v then Some v else None)"
proof (induction m)
  case (Cons p m)
  obtain k' v' where p: "p = (k', v')" by force
  have "hm_get (filter (\<lambda>(k, v). P v) m) k' = None"
    using Cons.prems p by (auto simp: hm_inv_def hm_get_def map_of_eq_None_iff)
  moreover have "hm_inv m" using Cons.prems by (simp add: hm_inv_def)
  ultimately show ?case using Cons.IH p by (auto simp: hm_get_def)
qed simp

text \<open>Writing a session whose tick is the new clock.\<close>

lemma put_session_inv:
  assumes "hm_inv (sessions db)" "\<forall>t\<in>set (ticks db). t \<le> c" "c \<le> now" "clock db = now"
    and "c < now \<Longrightarrow> distinct (ticks db)" "now = c \<Longrightarrow> now = u64_max"
    and "db_len db < max 1 (max_sessions db) \<or> hm_contains (sessions db) key"
    and "db_len db \<le> max 1 (max_sessions db)" "sc_last_access s = now"
  shows "session_inv (db\<lparr>sessions := hm_put key s (sessions db)\<rparr>)"
proof -
  let ?m = "hm_put key s (sessions db)"
  have "hm_inv ?m" by (rule hm.inv_put [OF assms(1)])
  moreover have "length ?m \<le> max 1 (max_sessions db)"
    using assms(7,8) by (auto simp: hm_put_length db_len_def)
  moreover have "\<forall>t\<in>set (map (\<lambda>p. sc_last_access (snd p)) ?m). t \<le> now"
  proof -
    have "set (map (\<lambda>p. sc_last_access (snd p)) ?m) \<subseteq> insert now (set (ticks db))"
      using put_values_set [of sc_last_access key s "sessions db"] assms(9)
      by (simp add: ticks_def)
    with assms(2,3) show ?thesis using le_trans by blast
  qed
  moreover have "distinct (map (\<lambda>p. sc_last_access (snd p)) ?m)" if "now < u64_max"
  proof (rule put_values_distinct)
    have lt: "c < now" using that assms(3,6) by (cases "now = c") auto
    then show "distinct (map (\<lambda>p. sc_last_access (snd p)) (sessions db))" using assms(5) by (simp add: ticks_def)
    show "sc_last_access s \<notin> (\<lambda>p. sc_last_access (snd p)) ` set (sessions db)"
      using lt assms(2,9) by (auto simp: ticks_def)
  qed
  ultimately show ?thesis using assms(4) by (simp add: session_inv_def ticks_def db_len_def)
qed

lemma lru_entry_min:
  "lru_entry m = Some k \<Longrightarrow> \<exists>s. (k, s) \<in> set m \<and> (\<forall>(k', s')\<in>set m. sc_last_access s \<le> sc_last_access s')"
proof (induction m)
  case (Cons p m)
  obtain k' s' where p: "p = (k', s')" by force
  show ?case
  proof (cases "list_all (\<lambda>(k'', s''). sc_last_access s' \<le> sc_last_access s'') m")
    case True
    with Cons.prems p show ?thesis by (auto simp: list_all_iff)
  next
    case False
    with Cons.prems p have l: "lru_entry m = Some k" by simp
    from False obtain k2 s2 where k2: "(k2, s2) \<in> set m" "sc_last_access s2 < sc_last_access s'"
      by (auto simp: list_all_iff)
    from Cons.IH [OF l] obtain s where s: "(k, s) \<in> set m"
      "\<forall>(k', s')\<in>set m. sc_last_access s \<le> sc_last_access s'" by blast
    with k2 have "sc_last_access s \<le> sc_last_access s'" by fastforce
    with s p show ?thesis by auto
  qed
qed simp

lemma lru_entry_Some: "m \<noteq> [] \<Longrightarrow> \<exists>k. lru_entry m = Some k"
proof (induction m)
  case (Cons p m)
  then show ?case by (cases p; cases m) auto
qed simp

lemma bump_clock:
  "clock db \<le> u64_max \<Longrightarrow> db_bump db = (now, db1) \<Longrightarrow>
   db1 = db\<lparr>clock := now\<rparr> \<and> clock db \<le> now \<and> now \<le> u64_max \<and> (now = clock db \<longrightarrow> now = u64_max)"
  by (auto simp: db_bump_def u64_saturating_add_def Let_def)

definition clock_ok :: "session_db \<Rightarrow> bool" where
  "clock_ok db \<longleftrightarrow> clock db \<le> u64_max"

lemma filter_ticks: "set (map f (filter P m)) \<subseteq> set (map f m)" "distinct (map f m) \<Longrightarrow> distinct (map f (filter P m))"
  by (auto simp: distinct_map_filter)

lemma evict_room:
  assumes "hm_inv (sessions db)" "evict_lru db = (ev, db2)" "max_sessions db \<le> db_len db"
    and "db_len db \<le> max 1 (max_sessions db)"
  shows "db_len db2 < max 1 (max_sessions db2)" "clock db2 = clock db" "max_sessions db2 = max_sessions db"
    "sessions db2 = filter (\<lambda>p. Some (fst p) \<noteq> ev) (sessions db)"
proof -
  have ev: "ev = lru_entry (sessions db)" and db2: "db2 = (case lru_entry (sessions db) of
      None \<Rightarrow> db | Some k \<Rightarrow> db\<lparr>sessions := hm_del k (sessions db)\<rparr>)"
    using assms(2) by (auto simp: evict_lru_def split: option.splits)
  show "clock db2 = clock db" "max_sessions db2 = max_sessions db"
    unfolding db2 by (simp_all split: option.split)
  show "sessions db2 = filter (\<lambda>p. Some (fst p) \<noteq> ev) (sessions db)"
    unfolding db2 ev by (simp add: del_filter split: option.split)
  show "db_len db2 < max 1 (max_sessions db2)"
  proof (cases "sessions db = []")
    case True
    with assms(2) show ?thesis by (simp add: evict_lru_def db_len_def)
  next
    case False
    then obtain k where k: "lru_entry (sessions db) = Some k" using lru_entry_Some by blast
    with lru_entry_min have "hm_contains (sessions db) k"
      using assms(1) hm.entries_get [OF assms(1)] by (fastforce simp: hm_contains_def)
    from hm_del_length [OF assms(1) this] assms(4)
    have "length (hm_del k (sessions db)) < max 1 (max_sessions db)" by (simp add: db_len_def)
    then show ?thesis unfolding db2 k by (simp add: db_len_def)
  qed
qed

lemma get_or_create_inv:
  assumes "session_inv db" "clock_ok db"
  shows "session_inv (snd (get_or_create key db)) \<and> clock_ok (snd (get_or_create key db))"
proof -
  obtain now db1 where b: "db_bump db = (now, db1)" by force
  obtain ev db2 where e: "(if max_sessions db1 \<le> db_len db1 \<and> \<not> hm_contains (sessions db1) key
      then evict_lru db1 else (None, db1)) = (ev, db2)" by force
  have g: "get_or_create key db = (ev, touch_session key now db2)"
    using b e by (simp add: get_or_create_def)
  note bc = bump_clock [OF assms(2) [unfolded clock_ok_def] b]
  have s: "sessions db1 = sessions db" "db_len db1 = db_len db" "ticks db1 = ticks db"
    "max_sessions db1 = max_sessions db" "clock db1 = now"
    using bc by (simp_all add: db_len_def ticks_def)
  have room: "(db_len db2 < max 1 (max_sessions db2) \<or> hm_contains (sessions db2) key) \<and>
      db_len db2 \<le> max 1 (max_sessions db2) \<and> clock db2 = now \<and> hm_inv (sessions db2) \<and>
      set (ticks db2) \<subseteq> set (ticks db) \<and> (distinct (ticks db) \<longrightarrow> distinct (ticks db2))"
  proof (cases "max_sessions db1 \<le> db_len db1 \<and> \<not> hm_contains (sessions db1) key")
    case True
    with e have "evict_lru db1 = (ev, db2)" by simp
    note ev = evict_room [OF _ this]
    show ?thesis
      using ev True assms(1) s by (auto simp: session_inv_def ticks_def filter_inv distinct_map_filter)
  next
    case False
    with e have "db2 = db1" by (auto split: if_splits)
    with False assms(1) s show ?thesis by (auto simp: session_inv_def)
  qed
  have "session_inv (touch_session key now db2)"
    using room assms(1) bc
    unfolding touch_session_def Let_def
    by (intro put_session_inv [where c = "clock db" and now = now]) (auto simp: session_inv_def)
  moreover have "clock (touch_session key now db2) = now"
    using room by (simp add: touch_session_def Let_def)
  ultimately show ?thesis using g bc by (simp add: clock_ok_def)
qed

lemma db_transition_inv:
  assumes "session_inv db" "clock_ok db"
  shows "session_inv (db_transition key st var db) \<and> clock_ok (db_transition key st var db)"
proof -
  obtain now db1 where b: "db_bump db = (now, db1)" by force
  note bc = bump_clock [OF assms(2) [unfolded clock_ok_def] b]
  show ?thesis
  proof (cases "hm_get (sessions db) key")
    case None
    then have "db_transition key st var db = db\<lparr>clock := now\<rparr>"
      using b bc by (simp add: db_transition_def)
    with assms bc show ?thesis
      by (auto simp: session_inv_def clock_ok_def ticks_def db_len_def intro: le_trans)
  next
    case (Some sess)
    define s where "s = (let s1 = sess\<lparr>sc_state := st, sc_last_access := now\<rparr> in
        case var of None \<Rightarrow> s1 | Some (k, v) \<Rightarrow> s1\<lparr>sc_vars := hm_put k v (sc_vars s1)\<rparr>)"
    have "db_transition key st var db = db1\<lparr>sessions := hm_put key s (sessions db1)\<rparr>"
      using b bc Some by (simp add: db_transition_def s_def Let_def)
    moreover have "sc_last_access s = now" by (simp add: s_def Let_def split: option.split prod.split)
    ultimately show ?thesis
      using assms bc Some put_session_inv [of db1 "clock db" now key s]
      by (auto simp: session_inv_def clock_ok_def ticks_def db_len_def hm_contains_def)
  qed
qed

lemma expire_inv:
  assumes "session_inv db" "clock_ok db"
  shows "session_inv (snd (expire_older_than t db)) \<and> clock_ok (snd (expire_older_than t db))"
  using assms by (auto simp: expire_older_than_def session_inv_def clock_ok_def ticks_def db_len_def
      Let_def filter_inv distinct_map_filter intro: le_trans [OF length_filter_le])

lemma session_apply_frame:
  assumes "session_apply x db = Some db'"
  shows "max_sessions db' = max_sessions db \<and> clock db' \<le> Suc (clock db)"
proof (cases x)
  case (GetOrCreate key)
  with assms show ?thesis
    by (auto simp: get_or_create_def touch_session_def db_bump_def evict_lru_def u64_saturating_add_def
        Let_def split: if_splits option.splits)
next
  case (DbTransition key st var)
  with assms show ?thesis
    by (auto simp: db_transition_def db_bump_def u64_saturating_add_def Let_def split: option.splits)
qed (use assms in \<open>auto simp: expire_older_than_def Let_def\<close>)

lemma session_apply_total: "\<exists>db'. session_apply x db = Some db'"
  by (cases x) auto

interpretation session: op_system session_apply
  "\<lambda>db. session_inv db \<and> clock_ok db \<and> max_sessions db = n" for n
proof
  fix db op db'
  assume "session_inv db \<and> clock_ok db \<and> max_sessions db = n" "session_apply op db = Some db'"
  then show "session_inv db' \<and> clock_ok db' \<and> max_sessions db' = n"
    using get_or_create_inv db_transition_inv expire_inv session_apply_frame [of op db db']
    by (cases op) auto
qed

lemma session_new_inv:
  "session_inv (session_db_new n) \<and> clock_ok (session_db_new n) \<and> max_sessions (session_db_new n) = n"
  by (simp add: session_db_new_def session_inv_def clock_ok_def ticks_def db_len_def)

lemmas session_reach = session.inv_run [OF _ session_new_inv]

lemma session_clock:
  assumes "run_ops session_apply ops (session_db_new n) = Some db"
  shows "clock db \<le> length ops"
  using session.count_run [where m = clock, OF _ assms session_new_inv] session_apply_frame
  by (auto simp: session_db_new_def)

text \<open>Capacity. Whatever is done to a session database created for \<open>n\<close> sessions, it
  holds at most \<open>n\<close> of them (one, if \<open>n\<close> is 0).\<close>

theorem session_capacity:
  assumes "run_ops session_apply ops (session_db_new n) = Some db"
  shows "db_len db \<le> max 1 n"
  using session_reach [OF assms] by (auto simp: session_inv_def)

subsection \<open>Uses of a session\<close>

text \<open>
  What the operations do to keys, read off the operation sequence alone: an operation uses
  the key it names, and \<open>last_use\<close> is the position of the last operation that did.
\<close>

fun op_uses :: "session_op \<Rightarrow> flow_key option" where
  "op_uses (GetOrCreate key) = Some key"
| "op_uses (DbTransition key st var) = Some key"
| "op_uses (ExpireOlderThan t) = None"

definition last_use :: "session_op list \<Rightarrow> flow_key \<Rightarrow> nat option" where
  "last_use ops key =
     (case filter (\<lambda>i. op_uses (ops ! i) = Some key) [0..<length ops] of
        [] \<Rightarrow> None
      | i # is \<Rightarrow> Some (List.last (i # is)))"

definition use_count :: "session_op list \<Rightarrow> nat" where
  "use_count ops = length (filter (\<lambda>x. op_uses x \<noteq> None) ops)"

lemma last_use_snoc:
  "last_use (ops @ [x]) key = (if op_uses x = Some key then Some (length ops) else last_use ops key)"
proof -
  have "filter (\<lambda>i. op_uses ((ops @ [x]) ! i) = Some key) [0..<length ops] =
        filter (\<lambda>i. op_uses (ops ! i) = Some key) [0..<length ops]"
    by (rule filter_cong) (auto simp: nth_append)
  moreover have "List.last (y # ys) = z" if "xs @ [z] = y # ys" for xs ys and y z :: nat
    using that by (metis last_snoc)
  ultimately show ?thesis by (auto simp: last_use_def split: list.split)
qed

lemma last_use_nth: "last_use ops key = Some i \<Longrightarrow> i < length ops \<and> op_uses (ops ! i) = Some key"
proof (induction ops rule: rev_induct)
  case (snoc x ops)
  then show ?case by (auto simp: last_use_snoc nth_append split: if_splits)
qed (simp add: last_use_def)

lemma use_count_snoc [simp]:
  "use_count (ops @ [x]) = (if op_uses x = None then use_count ops else Suc (use_count ops))"
  by (simp add: use_count_def)

lemma use_count_mono: "i \<le> j \<Longrightarrow> use_count (take i ops) \<le> use_count (take j ops)"
proof -
  assume "i \<le> j"
  then have "take j ops = take i ops @ take (j - i) (drop i ops)" by (metis le_add_diff_inverse take_add)
  then show ?thesis by (simp add: use_count_def)
qed

text \<open>One operation: the clock ticks exactly on uses, a used session carries the new tick,
  any other session that is still there is unchanged.\<close>

lemma session_step_use:
  assumes "session_apply x db = Some db'" "hm_inv (sessions db)" "clock db < u64_max"
  shows "clock db' = (if op_uses x = None then clock db else Suc (clock db))"
    and "hm_get (sessions db') k = Some s \<Longrightarrow>
      (if op_uses x = Some k then sc_last_access s = clock db' else hm_get (sessions db) k = Some s)"
proof -
  have bump: "db_bump db = (Suc (clock db), db\<lparr>clock := Suc (clock db)\<rparr>)"
    using assms(3) by (simp add: db_bump_def u64_saturating_add_def Let_def)
  have ev: "hm_inv (sessions (snd (evict_lru d))) \<and>
      (hm_get (sessions (snd (evict_lru d))) k = Some s \<longrightarrow> hm_get (sessions d) k = Some s) \<and>
      clock (snd (evict_lru d)) = clock d" if "hm_inv (sessions d)" for d k s
    using that by (auto simp: evict_lru_def hm.get_del hm.inv_del split: option.splits if_splits)
  have tc: "clock (touch_session key now d) = clock d" for key now d
    by (simp add: touch_session_def Let_def)
  have "clock db' = (if op_uses x = None then clock db else Suc (clock db)) \<and>
    (hm_get (sessions db') k = Some s \<longrightarrow>
      (if op_uses x = Some k then sc_last_access s = clock db' else hm_get (sessions db) k = Some s))"
  proof (cases x)
    case (GetOrCreate key)
    define d2 where "d2 = snd (if max_sessions db \<le> length (sessions db) \<and> \<not> hm_contains (sessions db) key
      then evict_lru (db\<lparr>clock := Suc (clock db)\<rparr>) else (None, db\<lparr>clock := Suc (clock db)\<rparr>))"
    have d: "db' = touch_session key (Suc (clock db)) d2"
      using assms(1) GetOrCreate bump
      by (auto simp: get_or_create_def db_len_def d2_def Let_def split: prod.splits)
    have d2: "hm_inv (sessions d2) \<and> (hm_get (sessions d2) k = Some s \<longrightarrow> hm_get (sessions db) k = Some s) \<and>
      clock d2 = Suc (clock db)" for k s
      using ev [of "db\<lparr>clock := Suc (clock db)\<rparr>"] assms(2) by (auto simp: d2_def)
    then show ?thesis using GetOrCreate d tc
      by (auto simp: touch_session_def Let_def hm.get_put split: if_splits)
  next
    case (DbTransition key st var)
    with assms bump show ?thesis
      by (auto simp: db_transition_def Let_def hm.get_put split: option.splits if_splits prod.splits)
  next
    case (ExpireOlderThan t)
    with assms show ?thesis
      by (auto simp: expire_older_than_def Let_def filter_get split: option.splits if_splits)
  qed
  then show "clock db' = (if op_uses x = None then clock db else Suc (clock db))"
    and "hm_get (sessions db') k = Some s \<Longrightarrow>
      (if op_uses x = Some k then sc_last_access s = clock db' else hm_get (sessions db) k = Some s)"
    by auto
qed

text \<open>So the recorded tick of a session counts the uses up to its last one.\<close>

lemma session_tick_counts_uses:
  assumes "run_ops session_apply ops (session_db_new n) = Some db" "length ops < u64_max"
  shows "clock db = use_count ops \<and> (\<forall>k s. hm_get (sessions db) k = Some s \<longrightarrow>
    (\<exists>i. last_use ops k = Some i \<and> sc_last_access s = use_count (take (Suc i) ops)))"
  using assms
proof (induction ops arbitrary: db rule: rev_induct)
  case Nil
  then show ?case by (auto simp: session_db_new_def use_count_def hm_get_def)
next
  case (snoc x ops)
  from snoc.prems obtain d where d: "run_ops session_apply ops (session_db_new n) = Some d"
    "session_apply x d = Some db"
    by (cases "run_ops session_apply ops (session_db_new n)")
      (auto simp: run_ops_append simp del: session_apply.simps split: option.splits)
  have IH: "clock d = use_count ops" "\<And>k s. hm_get (sessions d) k = Some s \<Longrightarrow>
    \<exists>i. last_use ops k = Some i \<and> sc_last_access s = use_count (take (Suc i) ops)"
    using snoc.IH [OF d(1)] snoc.prems(2) by auto
  have inv: "hm_inv (sessions d)" using session_reach [OF d(1)] by (simp add: session_inv_def)
  have lt: "clock d < u64_max" using session_clock [OF d(1)] snoc.prems(2) by simp
  note st = session_step_use [OF d(2) inv lt]
  show ?case
  proof (intro conjI allI impI)
    show "clock db = use_count (ops @ [x])" using st(1) IH(1) by simp
    fix k s assume g: "hm_get (sessions db) k = Some s"
    show "\<exists>i. last_use (ops @ [x]) k = Some i \<and> sc_last_access s = use_count (take (Suc i) (ops @ [x]))"
    proof (cases "op_uses x = Some k")
      case True
      then show ?thesis using st(2) [OF g] st(1) IH(1) by (simp add: last_use_snoc)
    next
      case False
      then have "hm_get (sessions d) k = Some s" using st(2) [OF g] by simp
      from IH(2) [OF this] obtain i where i: "last_use ops k = Some i"
        "sc_last_access s = use_count (take (Suc i) ops)" by blast
      with last_use_nth [OF i(1)] False show ?thesis by (simp add: last_use_snoc)
    qed
  qed
qed

text \<open>C8: eviction is least recently used, measured on the operations and not on the
  recorded ticks. Run any sequence of fewer than \<open>2^64 - 1\<close> operations on an empty database; if
  the next \<open>get_or_create\<close> evicts a session, then it was asked for a key that is not there, the
  evicted session is gone, every other session is kept as it was, and the last operation
  of the sequence that named the evicted key (by \<open>get_or_create\<close> or \<open>transition\<close>) comes strictly
  before the last one that named any other session that is there.\<close>

theorem eviction_is_lru:
  assumes "run_ops session_apply ops (session_db_new n) = Some db" "length ops < u64_max"
    and "get_or_create key db = (Some k, db')"
    and "hm_get (sessions db) k' = Some s'" "k' \<noteq> k"
  shows "hm_get (sessions db) key = None \<and> (k \<noteq> key \<and> hm_get (sessions db') k = None) \<and>
    hm_get (sessions db') k' = Some s' \<and>
    (\<exists>i j. last_use ops k = Some i \<and> last_use ops k' = Some j \<and> i < j)"
proof -
  have inv: "hm_inv (sessions db)" and dist: "distinct (ticks db)"
    using session_reach [OF assms(1)] session_clock [OF assms(1)] assms(2) by (auto simp: session_inv_def)
  have l: "lru_entry (sessions db) = Some k" and nk: "hm_get (sessions db) key = None"
    and db': "sessions db' = hm_put key \<lparr>sc_state = 0, sc_vars = [], sc_last_access = fst (db_bump db)\<rparr>
        (hm_del k (sessions db))"
    using assms(3) hm.get_del [of k "sessions db" key]
    by (auto simp: get_or_create_def evict_lru_def db_bump_def Let_def hm_contains_def touch_session_def
        split: if_splits option.splits)
  then obtain s where s: "(k, s) \<in> set (sessions db)"
    "\<forall>(k', s')\<in>set (sessions db). sc_last_access s \<le> sc_last_access s'" using lru_entry_min by blast
  have gk: "hm_get (sessions db) k = Some s" using s(1) hm.entries_get [OF inv] by simp
  have m: "(k', s') \<in> set (sessions db)" using hm.entries_get [OF inv] assms(4) by blast
  have "sc_last_access s \<noteq> sc_last_access s'"
    using dist s(1) m assms(5) unfolding ticks_def distinct_map inj_on_def by fastforce
  with s(2) m have lt: "sc_last_access s < sc_last_access s'" by fastforce
  obtain i j where ij: "last_use ops k = Some i" "sc_last_access s = use_count (take (Suc i) ops)"
    "last_use ops k' = Some j" "sc_last_access s' = use_count (take (Suc j) ops)"
    using session_tick_counts_uses [OF assms(1,2)] gk assms(4) by blast
  have "i < j" using lt ij(2,4) use_count_mono [of "Suc j" "Suc i" ops] by (cases "i < j") auto
  moreover have "k \<noteq> key" "k' \<noteq> key" using nk gk assms(4) by auto
  ultimately show ?thesis using nk ij(1,3) assms(4,5) inv
    by (auto simp: db' hm.get_put hm.get_del hm.inv_del)
qed

text \<open>Idle expiry. \<open>expire_older_than\<close> keeps exactly the sessions accessed at or after
  the threshold, untouched, in every reachable database.\<close>

theorem expire_keeps_recent:
  assumes "run_ops session_apply ops (session_db_new n) = Some db"
  shows "hm_get (sessions (snd (expire_older_than t db))) k =
    (case hm_get (sessions db) k of
       None \<Rightarrow> None
     | Some s \<Rightarrow> if t \<le> sc_last_access s then Some s else None)"
  using session_reach [OF assms] filter_get [of "sessions db" "\<lambda>s. t \<le> sc_last_access s" k]
  by (simp add: expire_older_than_def Let_def session_inv_def)

subsection \<open>A database at work\<close>

definition fkey :: "nat \<Rightarrow> flow_key" where
  "fkey n = \<lparr>key_data = replicate 16 (of_nat n)\<rparr>"

definition demo_session_ops :: "session_op list" where
  "demo_session_ops = [GetOrCreate (fkey 1), GetOrCreate (fkey 2), DbTransition (fkey 1) 1 None]"

definition demo_db :: session_db where
  "demo_db = the (run_ops session_apply demo_session_ops (session_db_new 2))"

lemma demo_db_run: "run_ops session_apply demo_session_ops (session_db_new 2) = Some demo_db"
  by code_simp

theorem session_capacity_witness: "db_len demo_db \<le> max 1 2"
  using session_capacity [OF demo_db_run] .

theorem eviction_is_lru_witness:
  "\<exists>i j. last_use demo_session_ops (fkey 2) = Some i \<and> last_use demo_session_ops (fkey 1) = Some j \<and> i < j"
proof -
  have h: "length demo_session_ops < u64_max"
    "get_or_create (fkey 3) demo_db = (Some (fkey 2), snd (get_or_create (fkey 3) demo_db))"
    "hm_get (sessions demo_db) (fkey 1) = Some \<lparr>sc_state = 1, sc_vars = [], sc_last_access = 3\<rparr>"
    "fkey 1 \<noteq> fkey 2"
    by code_simp+
  show ?thesis using eviction_is_lru [OF demo_db_run h] by blast
qed

theorem expire_keeps_recent_witness:
  "hm_get (sessions (snd (expire_older_than 3 demo_db))) (fkey 2) = None"
proof -
  have "hm_get (sessions demo_db) (fkey 2) = Some \<lparr>sc_state = 0, sc_vars = [], sc_last_access = 2\<rparr>"
    by code_simp
  then show ?thesis using expire_keeps_recent [OF demo_db_run, of 3 "fkey 2"] by simp
qed

end
