(* ===== verification/Efsm.thy ===== *)
theory Efsm
  imports Session Nfdl_Expr
begin

text \<open>
  The extended finite state machine engine (crates/nfdl-runtime/src/efsm.rs) and its event
  type (event_bus.rs): loading machines from the AST, feeding a message to a flow (guards,
  \<open>set\<close> and \<open>emit\<close> actions, eviction), named timers on a logical clock, idle expiry.

  \<open>None\<close> is the panic of \<open>eval_expr\<close> (arithmetic overflow in the dev profile). \<open>HashMap\<close> fixes no
  iteration order, and the outcome of a feed depends on the order in which the machines are
  visited (\<open>machine_order_matters\<close>): the order is a parameter \<open>ord\<close> of \<open>load_from_ast\<close>, which leaves
  the association list of the machines in the order \<open>feed\<close> will visit them. Every theorem
  holds for all \<open>ord\<close>. The events of \<open>expire_idle\<close> come in the order of the association list of
  the sessions; the source emits the same events in the order its map happens to have.
\<close>

datatype event =
    Message string nat
  | FsmTransition u32 u32 string
  | EmitEvent string
  | SessionExpired u64
  | Diagnostic string string
  | Anomaly string

definition idle_state :: string where
  "idle_state = ''IDLE''"

definition state_numeric :: "string \<Rightarrow> u32" where
  "state_numeric s =
     (if s = ''IDLE'' \<or> s = ''CLOSED'' then 0
      else if s = ''PENDING'' \<or> s = ''SYN_SENT'' \<or> s = ''ESTABLISHED'' then 1
      else if s = ''FIN_WAIT'' then 2 else 0)"

text \<open>The FNV-1a loop over the 16 key bytes, with the multiplier the source has.\<close>

definition flow_key_hash :: "flow_key \<Rightarrow> u64" where
  "flow_key_hash key =
     fold (\<lambda>b h. (h XOR ucast b) * 0x1000000001b3) (key_data key) 0xcbf29ce484222325"

record armed_timer =
  deadline :: nat
  insertion_id :: nat

record fired_timer =
  ft_key :: flow_key
  ft_timer :: string
  ft_new_state :: string
  ft_events :: "event list"

record fsm_engine =
  fe_db :: session_db
  fe_machines :: "(string, (string, transition list) hmap) hmap"
  fe_keys :: "(string, expr option) hmap"
  fe_initials :: "(string, string) hmap"
  fe_current_states :: "(flow_key, string) hmap"
  fe_variables :: "(flow_key, (string, u64) hmap) hmap"
  fe_timers :: "(flow_key, (string, armed_timer) hmap) hmap"
  fe_timer_now :: nat
  fe_timer_seq :: nat

definition engine_new :: "nat \<Rightarrow> fsm_engine" where
  "engine_new n =
     \<lparr>fe_db = session_db_new n, fe_machines = [], fe_keys = [], fe_initials = [],
      fe_current_states = [], fe_variables = [], fe_timers = [], fe_timer_now = 0,
      fe_timer_seq = 0\<rparr>"

definition machine_states :: "state_machine \<Rightarrow> (string, transition list) hmap" where
  "machine_states sm = fold (\<lambda>st. hm_put (s_name st) (s_transitions st)) (sm_states sm) []"

definition load_machine :: "state_machine \<Rightarrow> fsm_engine \<Rightarrow> fsm_engine" where
  "load_machine sm e =
     e\<lparr>fe_machines := hm_put (sm_name sm) (machine_states sm) (fe_machines e),
       fe_keys := hm_put (sm_name sm) (sm_key sm) (fe_keys e),
       fe_initials := hm_put (sm_name sm) (sm_initial sm) (fe_initials e)\<rparr>"

type_synonym machine_map = "(string, (string, transition list) hmap) hmap"

definition load_from_ast ::
    "(machine_map \<Rightarrow> machine_map) \<Rightarrow> state_machine list \<Rightarrow> fsm_engine \<Rightarrow> fsm_engine" where
  "load_from_ast ord sms e =
     (let e1 = fold load_machine sms (e\<lparr>fe_machines := [], fe_keys := [], fe_initials := []\<rparr>)
      in e1\<lparr>fe_machines := ord (fe_machines e1)\<rparr>)"

definition get_current_state :: "fsm_engine \<Rightarrow> flow_key \<Rightarrow> string" where
  "get_current_state e key =
     (case hm_get (fe_current_states e) key of Some s \<Rightarrow> s | None \<Rightarrow> idle_state)"

definition set_current_state :: "flow_key \<Rightarrow> string \<Rightarrow> fsm_engine \<Rightarrow> fsm_engine" where
  "set_current_state key st e = e\<lparr>fe_current_states := hm_put key st (fe_current_states e)\<rparr>"

subsection \<open>Guards and actions\<close>

text \<open>Per-flow variables shadow the parsed fields.\<close>

definition flow_env :: "fsm_engine \<Rightarrow> (string, u64) hmap \<Rightarrow> flow_key \<Rightarrow> (string, u64) hmap" where
  "flow_env e ctx key =
     (case hm_get (fe_variables e) key of
        None \<Rightarrow> ctx
      | Some flow_vars \<Rightarrow> hm_put_all flow_vars ctx)"

definition efsm_eval ::
    "bool \<Rightarrow> fsm_engine \<Rightarrow> expr \<Rightarrow> (string, u64) hmap \<Rightarrow> flow_key \<Rightarrow> u64 option" where
  "efsm_eval chk e ex ctx key = eval_expr chk ex (flow_env e ctx key)"

definition eval_guard ::
    "bool \<Rightarrow> fsm_engine \<Rightarrow> expr option \<Rightarrow> (string, u64) hmap \<Rightarrow> flow_key \<Rightarrow> bool option" where
  "eval_guard chk e guard ctx key =
     (case guard of
        None \<Rightarrow> Some True
      | Some g \<Rightarrow> map_option (\<lambda>v. v \<noteq> 0) (efsm_eval chk e g ctx key))"

definition set_variable :: "flow_key \<Rightarrow> string \<Rightarrow> u64 \<Rightarrow> fsm_engine \<Rightarrow> fsm_engine" where
  "set_variable key var val e =
     (let vars = (case hm_get (fe_variables e) key of Some m \<Rightarrow> m | None \<Rightarrow> [])
      in e\<lparr>fe_variables := hm_put key (hm_put var val vars) (fe_variables e)\<rparr>)"

fun run_actions ::
    "bool \<Rightarrow> (string, u64) hmap \<Rightarrow> flow_key \<Rightarrow> action list \<Rightarrow> fsm_engine \<Rightarrow> event list
      \<Rightarrow> (fsm_engine \<times> event list) option" where
  "run_actions chk ctx key [] e evs = Some (e, evs)"
| "run_actions chk ctx key (SetVar var value # as) e evs =
     do { val \<leftarrow> efsm_eval chk e value ctx key;
          run_actions chk ctx key as (set_variable key var val e)
            (evs @ [Diagnostic ''SET'' (var @ ''='' @ dec_string (unat val))]) }"
| "run_actions chk ctx key (Emit name # as) e evs =
     run_actions chk ctx key as e (evs @ [EmitEvent name])"

text \<open>The first transition of the state whose message type matches and whose guard holds.\<close>

fun first_enabled ::
    "bool \<Rightarrow> fsm_engine \<Rightarrow> (string, u64) hmap \<Rightarrow> flow_key \<Rightarrow> string \<Rightarrow> transition list
      \<Rightarrow> transition option option" where
  "first_enabled chk e ctx key msg_type [] = Some None"
| "first_enabled chk e ctx key msg_type (tr # trs) =
     (if t_msg_type tr = msg_type
      then do { g \<leftarrow> eval_guard chk e (t_guard tr) ctx key;
                if g then Some (Some tr) else first_enabled chk e ctx key msg_type trs }
      else first_enabled chk e ctx key msg_type trs)"

subsection \<open>Feeding a message\<close>

text \<open>
  The loop over the machines carries \<open>current\<close>, \<open>new_state\<close> and the events from one
  machine to the next, as the source does.
\<close>

definition seed_state :: "fsm_engine \<Rightarrow> string \<Rightarrow> string \<Rightarrow> string \<Rightarrow> string \<times> string" where
  "seed_state e machine current new_state =
     (if current = idle_state
      then case hm_get (fe_initials e) machine of
             Some init \<Rightarrow> (init, init)
           | None \<Rightarrow> (current, new_state)
      else (current, new_state))"

definition feed_machine ::
    "bool \<Rightarrow> (string, u64) hmap \<Rightarrow> flow_key \<Rightarrow> string \<Rightarrow> string \<Rightarrow> (string, transition list) hmap
      \<Rightarrow> fsm_engine \<times> string \<times> string \<times> event list
      \<Rightarrow> (fsm_engine \<times> string \<times> string \<times> event list) option" where
  "feed_machine chk ctx key msg_type machine states st =
     (let (e, current0, new0, evs) = st;
          (current, new_state) = seed_state e machine current0 new0 in
      case hm_get states current of
        None \<Rightarrow> Some (e, current, new_state, evs)
      | Some trs \<Rightarrow>
          do { r \<leftarrow> first_enabled chk e ctx key msg_type trs;
               case r of
                 None \<Rightarrow> Some (e, current, new_state, evs)
               | Some tr \<Rightarrow>
                   do { (e', evs') \<leftarrow> run_actions chk ctx key (t_actions tr) e evs;
                        Some (e', current, t_to_state tr,
                          evs' @ [FsmTransition (state_numeric current)
                                    (state_numeric (t_to_state tr)) machine]) } })"

fun feed_machines ::
    "bool \<Rightarrow> (string, u64) hmap \<Rightarrow> flow_key \<Rightarrow> string \<Rightarrow> (string, (string, transition list) hmap) hmap
      \<Rightarrow> fsm_engine \<times> string \<times> string \<times> event list
      \<Rightarrow> (fsm_engine \<times> string \<times> string \<times> event list) option" where
  "feed_machines chk ctx key msg_type [] st = Some st"
| "feed_machines chk ctx key msg_type ((machine, states) # ms) st =
     do { st1 \<leftarrow> feed_machine chk ctx key msg_type machine states st;
          feed_machines chk ctx key msg_type ms st1 }"

definition drop_flow_maps :: "flow_key \<Rightarrow> fsm_engine \<Rightarrow> fsm_engine" where
  "drop_flow_maps key e =
     e\<lparr>fe_current_states := hm_del key (fe_current_states e),
       fe_variables := hm_del key (fe_variables e),
       fe_timers := hm_del key (fe_timers e)\<rparr>"

definition feed ::
    "bool \<Rightarrow> flow_key \<Rightarrow> string \<Rightarrow> (string, u64) hmap \<Rightarrow> fsm_engine
      \<Rightarrow> (string \<times> event list \<times> fsm_engine) option" where
  "feed chk key msg_type ctx e =
     (let (evicted, db) = get_or_create key (fe_db e);
          e1 = e\<lparr>fe_db := db\<rparr>;
          e2 = (case evicted of None \<Rightarrow> e1 | Some k \<Rightarrow> drop_flow_maps k e1);
          current = get_current_state e2 key in
      do { (e3, _, new_state, evs) \<leftarrow>
             feed_machines chk ctx key msg_type (fe_machines e2) (e2, current, current, []);
           let e4 = set_current_state key new_state e3 in
           Some (new_state, evs,
             e4\<lparr>fe_db := db_transition key (state_numeric new_state) None (fe_db e4)\<rparr>) })"

subsection \<open>Timers and idle expiry\<close>

definition has_timer :: "fsm_engine \<Rightarrow> flow_key \<Rightarrow> string \<Rightarrow> bool" where
  "has_timer e key name =
     (case hm_get (fe_timers e) key of None \<Rightarrow> False | Some m \<Rightarrow> hm_contains m name)"

definition schedule_timer :: "flow_key \<Rightarrow> string \<Rightarrow> nat \<Rightarrow> fsm_engine \<Rightarrow> fsm_engine" where
  "schedule_timer key name delay e =
     (let seq = u64_saturating_add (fe_timer_seq e) 1;
          dl = u64_saturating_add (fe_timer_now e) delay;
          m = (case hm_get (fe_timers e) key of Some m \<Rightarrow> m | None \<Rightarrow> [])
      in e\<lparr>fe_timer_seq := seq,
           fe_timers := hm_put key (hm_put name \<lparr>deadline = dl, insertion_id = seq\<rparr> m) (fe_timers e)\<rparr>)"

definition cancel_timer :: "flow_key \<Rightarrow> string \<Rightarrow> fsm_engine \<Rightarrow> bool \<times> fsm_engine" where
  "cancel_timer key name e =
     (case hm_get (fe_timers e) key of
        None \<Rightarrow> (False, e)
      | Some m \<Rightarrow>
          let m' = hm_del name m in
          (hm_contains m name,
           e\<lparr>fe_timers := (if m' = [] then hm_del key (fe_timers e)
                            else hm_put key m' (fe_timers e))\<rparr>))"

text \<open>The due timers, in the order \<open>(deadline, insertion_id)\<close>; both sorts are stable.\<close>

definition due_timers :: "fsm_engine \<Rightarrow> (nat \<times> nat \<times> flow_key \<times> string) list" where
  "due_timers e =
     sort_key fst (sort_key (\<lambda>d. fst (snd d))
       (concat (map (\<lambda>(key, m).
          map (\<lambda>(name, t). (deadline t, insertion_id t, key, name))
            (filter (\<lambda>(name, t). deadline t \<le> fe_timer_now e) m)) (fe_timers e))))"

fun fire_list ::
    "bool \<Rightarrow> (nat \<times> nat \<times> flow_key \<times> string) list \<Rightarrow> fsm_engine \<Rightarrow> (fired_timer list \<times> fsm_engine) option" where
  "fire_list chk [] e = Some ([], e)"
| "fire_list chk ((_, _, key, name) # due) e =
     (if \<not> has_timer e key name then fire_list chk due e
      else do { (st, evs, e1) \<leftarrow> feed chk key (''timer:'' @ name) [] (snd (cancel_timer key name e));
                (fired, e2) \<leftarrow> fire_list chk due e1;
                Some (\<lparr>ft_key = key, ft_timer = name, ft_new_state = st, ft_events = evs\<rparr> # fired, e2) })"

definition fire_due_timers :: "bool \<Rightarrow> fsm_engine \<Rightarrow> (fired_timer list \<times> fsm_engine) option" where
  "fire_due_timers chk e = fire_list chk (due_timers e) e"

definition advance_and_fire :: "bool \<Rightarrow> nat \<Rightarrow> fsm_engine \<Rightarrow> (fired_timer list \<times> fsm_engine) option" where
  "advance_and_fire chk n e =
     fire_due_timers chk (e\<lparr>fe_timer_now := u64_saturating_add (fe_timer_now e) n\<rparr>)"

definition expire_idle :: "nat \<Rightarrow> fsm_engine \<Rightarrow> nat \<times> event list \<times> fsm_engine" where
  "expire_idle timeout e =
     (let threshold = tick_of (fe_db e) - timeout;
          expired_keys = map fst (filter (\<lambda>(k, s). sc_last_access s < threshold) (sessions (fe_db e)));
          (n, db) = expire_older_than threshold (fe_db e)
      in (n, map (\<lambda>k. SessionExpired (flow_key_hash k)) expired_keys,
          fold drop_flow_maps expired_keys (e\<lparr>fe_db := db\<rparr>)))"

end
