(* ===== verification/Efsm_Props.thy ===== *)
theory Efsm_Props
  imports Efsm
begin

text \<open>
  Properties of the state machine engine (crates/nfdl-runtime/src/efsm.rs): every flow the
  engine tracks is a live session, so its tables stay within the session capacity; what
  feeding a message does on one machine; due timers; and the dependence on the iteration
  order of the machines.
\<close>

subsection \<open>Tracked flows are sessions\<close>

definition live :: "fsm_engine \<Rightarrow> flow_key \<Rightarrow> bool" where
  "live e k = hm_contains (sessions (fe_db e)) k"

definition engine_inv :: "fsm_engine \<Rightarrow> bool" where
  "engine_inv e \<longleftrightarrow>
     session_inv (fe_db e) \<and> clock_ok (fe_db e) \<and>
     hm_inv (fe_current_states e) \<and> hm_inv (fe_variables e) \<and>
     (\<forall>k. hm_contains (fe_current_states e) k \<longrightarrow> live e k) \<and>
     (\<forall>k. hm_contains (fe_variables e) k \<longrightarrow> live e k)"

lemma hm_contains_put [simp]: "hm_contains (hm_put k v m) k' \<longleftrightarrow> k' = k \<or> hm_contains m k'"
  by (simp add: hm_contains_def)

lemma hm_contains_del [simp]: "hm_contains (hm_del k m) k' \<longleftrightarrow> k' \<noteq> k \<and> hm_contains m k'"
  by (simp add: hm_contains_def)

lemma get_or_create_keys:
  assumes "get_or_create key db = (ev, db')"
  shows "hm_contains (sessions db') k \<longleftrightarrow> k = key \<or> (ev \<noteq> Some k \<and> hm_contains (sessions db) k)"
    and "ev \<noteq> Some key" and "max_sessions db' = max_sessions db"
proof -
  show "hm_contains (sessions db') k \<longleftrightarrow> k = key \<or> (ev \<noteq> Some k \<and> hm_contains (sessions db) k)"
    using assms by (auto simp: get_or_create_def db_bump_def Let_def evict_lru_def touch_session_def
        split: if_splits option.splits)
  show "max_sessions db' = max_sessions db"
    using session_apply_frame [of "GetOrCreate key" db db'] assms by simp
  show "ev \<noteq> Some key"
  proof
    assume ev: "ev = Some key"
    with assms have "\<not> hm_contains (sessions db) key" "lru_entry (sessions db) = Some key"
      by (auto simp: get_or_create_def db_bump_def Let_def evict_lru_def split: if_splits option.splits)
    then obtain s where "(key, s) \<in> set (sessions db)" using lru_entry_min by blast
    with \<open>\<not> hm_contains (sessions db) key\<close> show False
      by (force simp: hm_contains_def hm_get_def map_of_eq_None_iff)
  qed
qed

lemma db_transition_keys:
  "hm_contains (sessions (db_transition key st var db)) k = hm_contains (sessions db) k"
  "max_sessions (db_transition key st var db) = max_sessions db"
  by (auto simp: db_transition_def db_bump_def Let_def hm_contains_def split: option.split)

text \<open>Actions and machines change the variables of the fed flow and nothing else.\<close>

definition vars_only :: "flow_key \<Rightarrow> fsm_engine \<Rightarrow> fsm_engine \<Rightarrow> bool" where
  "vars_only key e e' \<longleftrightarrow>
     fe_db e' = fe_db e \<and> fe_machines e' = fe_machines e \<and> fe_keys e' = fe_keys e \<and>
     fe_initials e' = fe_initials e \<and> fe_current_states e' = fe_current_states e \<and>
     fe_timers e' = fe_timers e \<and> fe_timer_now e' = fe_timer_now e \<and>
     fe_timer_seq e' = fe_timer_seq e \<and>
     (hm_inv (fe_variables e) \<longrightarrow> hm_inv (fe_variables e')) \<and>
     (\<forall>k. k \<noteq> key \<longrightarrow> hm_get (fe_variables e') k = hm_get (fe_variables e) k)"

lemma vars_only_refl [simp]: "vars_only key e e"
  by (simp add: vars_only_def)

lemma vars_only_trans: "vars_only key e e1 \<Longrightarrow> vars_only key e1 e2 \<Longrightarrow> vars_only key e e2"
  by (simp add: vars_only_def)

lemma set_variable_only: "vars_only key e (set_variable key var val e)"
  by (simp add: vars_only_def set_variable_def Let_def hm.inv_put)

lemma run_actions_only:
  "run_actions chk ctx key acts e evs = Some (e', evs') \<Longrightarrow> vars_only key e e'"
proof (induction acts arbitrary: e evs)
  case (Cons a acts)
  show ?case
  proof (cases a)
    case (SetVar var val)
    with Cons show ?thesis
      by (auto simp: bind_eq_Some_conv intro: vars_only_trans [OF set_variable_only])
  qed (use Cons in auto)
qed simp

lemma feed_machine_only:
  assumes "feed_machine chk ctx key mt mc sts (e, c, n, evs) = Some (e', c', n', evs')"
  shows "vars_only key e e'"
  using assms
  by (auto simp: feed_machine_def Let_def bind_eq_Some_conv dest: run_actions_only
      split: prod.splits option.splits)

lemma feed_machines_only:
  "feed_machines chk ctx key mt ms (e, c, n, evs) = Some (e', c', n', evs') \<Longrightarrow> vars_only key e e'"
proof (induction ms arbitrary: e c n evs)
  case (Cons m ms)
  obtain mc sts where m: "m = (mc, sts)" by force
  with Cons.prems obtain e1 c1 n1 evs1 where
    1: "feed_machine chk ctx key mt mc sts (e, c, n, evs) = Some (e1, c1, n1, evs1)" and
    2: "feed_machines chk ctx key mt ms (e1, c1, n1, evs1) = Some (e', c', n', evs')"
    by (auto simp: bind_eq_Some_conv)
  from vars_only_trans [OF feed_machine_only [OF 1] Cons.IH [OF 2]] show ?case .
qed simp

lemma vars_only_contains:
  assumes "vars_only key e e'" "hm_contains (fe_variables e') k"
  shows "k = key \<or> hm_contains (fe_variables e) k"
  using assms by (cases "k = key") (auto simp: vars_only_def hm_contains_def)

lemma feedE:
  assumes "feed chk key mt ctx e = Some (st, evs, e')"
  obtains ev db e2 e3 c where "get_or_create key (fe_db e) = (ev, db)"
    "e2 = (case ev of None \<Rightarrow> e\<lparr>fe_db := db\<rparr> | Some k \<Rightarrow> drop_flow_maps k (e\<lparr>fe_db := db\<rparr>))"
    "feed_machines chk ctx key mt (fe_machines e) (e2, get_current_state e2 key, get_current_state e2 key, [])
       = Some (e3, c, st, evs)"
    "e' = (set_current_state key st e3)\<lparr>fe_db := db_transition key (state_numeric st) None db\<rparr>"
    "vars_only key e2 e3"
proof -
  obtain ev db where g: "get_or_create key (fe_db e) = (ev, db)" by force
  define e2 where "e2 = (case ev of None \<Rightarrow> e\<lparr>fe_db := db\<rparr> | Some k \<Rightarrow> drop_flow_maps k (e\<lparr>fe_db := db\<rparr>))"
  have m: "fe_machines e2 = fe_machines e" "fe_db e2 = db"
    by (simp_all add: e2_def drop_flow_maps_def split: option.split)
  from assms g obtain e3 c where
    f: "feed_machines chk ctx key mt (fe_machines e2) (e2, get_current_state e2 key, get_current_state e2 key, [])
       = Some (e3, c, st, evs)" and
    e': "e' = (set_current_state key st e3)\<lparr>fe_db :=
       db_transition key (state_numeric st) None (fe_db (set_current_state key st e3))\<rparr>"
    by (auto simp: feed_def Let_def e2_def [symmetric] bind_eq_Some_conv)
  note o = feed_machines_only [OF f]
  then have "fe_db (set_current_state key st e3) = db" using m by (simp add: set_current_state_def vars_only_def)
  with e' f m g o show thesis by (intro that [of ev db e2 e3 c]) (auto simp: e2_def)
qed

lemma feed_inv:
  assumes "feed chk key mt ctx e = Some (st, evs, e')" "engine_inv e"
  shows "engine_inv e'"
proof -
  from assms(1) obtain ev db e2 e3 c where
    g: "get_or_create key (fe_db e) = (ev, db)" and
    e2: "e2 = (case ev of None \<Rightarrow> e\<lparr>fe_db := db\<rparr> | Some k \<Rightarrow> drop_flow_maps k (e\<lparr>fe_db := db\<rparr>))" and
    e': "e' = (set_current_state key st e3)\<lparr>fe_db := db_transition key (state_numeric st) None db\<rparr>" and
    o: "vars_only key e2 e3"
    by (rule feedE)
  have s: "session_inv db \<and> clock_ok db"
    using get_or_create_inv [of "fe_db e" key] assms(2) g by (simp add: engine_inv_def)
  have inv2: "hm_inv (fe_current_states e2)" "hm_inv (fe_variables e2)"
    using assms(2) by (auto simp: e2 engine_inv_def drop_flow_maps_def hm.inv_del split: option.split)
  have live2: "hm_contains (sessions db) k" if "hm_contains (fe_current_states e2) k \<or> hm_contains (fe_variables e2) k" for k
    using that assms(2) get_or_create_keys(1) [OF g, of k]
    by (auto simp: e2 engine_inv_def live_def drop_flow_maps_def split: option.splits)
  have key: "hm_contains (sessions db) key" using get_or_create_keys(1) [OF g, of key] by simp
  have c3: "fe_current_states e3 = fe_current_states e2" "hm_inv (fe_variables e3)"
    using o inv2 by (simp_all add: vars_only_def)
  show ?thesis
    unfolding engine_inv_def live_def
    using db_transition_inv [of db key "state_numeric st" None] s inv2 c3 key live2 vars_only_contains [OF o]
    by (auto simp: e' set_current_state_def hm.inv_put db_transition_keys)
qed

text \<open>The operations of the engine as one type.\<close>

datatype engine_op =
    Feed flow_key string "(string, u64) hmap"
  | ScheduleTimer flow_key string nat
  | CancelTimer flow_key string
  | AdvanceAndFire nat
  | ExpireIdle nat
  | LoadMachines "machine_map \<Rightarrow> machine_map" "state_machine list"

fun engine_apply :: "bool \<Rightarrow> engine_op \<Rightarrow> fsm_engine \<Rightarrow> fsm_engine option" where
  "engine_apply chk (Feed key mt ctx) e = map_option (\<lambda>(st, evs, e'). e') (feed chk key mt ctx e)"
| "engine_apply chk (ScheduleTimer key name delay) e = Some (schedule_timer key name delay e)"
| "engine_apply chk (CancelTimer key name) e = Some (snd (cancel_timer key name e))"
| "engine_apply chk (AdvanceAndFire n) e = map_option snd (advance_and_fire chk n e)"
| "engine_apply chk (ExpireIdle t) e = Some (snd (snd (expire_idle t e)))"
| "engine_apply chk (LoadMachines ord sms) e = Some (load_from_ast ord sms e)"

lemma engine_inv_cong:
  "fe_db e' = fe_db e \<Longrightarrow> fe_current_states e' = fe_current_states e \<Longrightarrow> fe_variables e' = fe_variables e \<Longrightarrow>
   engine_inv e' = engine_inv e"
  by (simp add: engine_inv_def live_def)

lemma cancel_timer_frame:
  "fe_db (snd (cancel_timer key name e)) = fe_db e"
  "fe_current_states (snd (cancel_timer key name e)) = fe_current_states e"
  "fe_variables (snd (cancel_timer key name e)) = fe_variables e"
  "fe_timer_now (snd (cancel_timer key name e)) = fe_timer_now e"
  by (simp_all add: cancel_timer_def Let_def split: option.split)

lemma load_frame:
  "fe_db (load_from_ast ord sms e) = fe_db e"
  "fe_current_states (load_from_ast ord sms e) = fe_current_states e"
  "fe_variables (load_from_ast ord sms e) = fe_variables e"
proof -
  have "fe_db (fold load_machine sms e) = fe_db e \<and>
    fe_current_states (fold load_machine sms e) = fe_current_states e \<and>
    fe_variables (fold load_machine sms e) = fe_variables e" for e
    by (induction sms arbitrary: e) (simp_all add: load_machine_def)
  then show "fe_db (load_from_ast ord sms e) = fe_db e"
    "fe_current_states (load_from_ast ord sms e) = fe_current_states e"
    "fe_variables (load_from_ast ord sms e) = fe_variables e" by (simp_all add: load_from_ast_def Let_def)
qed

lemma feed_max_sessions:
  assumes "feed chk key mt ctx e = Some (st, evs, e')"
  shows "max_sessions (fe_db e') = max_sessions (fe_db e)"
  by (rule feedE [OF assms]) (simp add: set_current_state_def db_transition_keys get_or_create_keys(3))

lemma fire_list_inv:
  "fire_list chk due e = Some (fired, e') \<Longrightarrow> engine_inv e \<Longrightarrow>
   engine_inv e' \<and> max_sessions (fe_db e') = max_sessions (fe_db e)"
proof (induction due arbitrary: e fired)
  case (Cons d due)
  obtain a b key name where d: "d = (a, b, key, name)" by (metis prod_cases4)
  show ?case
  proof (cases "has_timer e key name")
    case True
    with Cons.prems d obtain st evs e1 f2 where
      1: "feed chk key (''timer:'' @ name) [] (snd (cancel_timer key name e)) = Some (st, evs, e1)" and
      2: "fire_list chk due e1 = Some (f2, e')"
      by (auto simp: bind_eq_Some_conv)
    have "engine_inv e1"
      using feed_inv [OF 1] engine_inv_cong [OF cancel_timer_frame(1-3)] Cons.prems(2) by blast
    with Cons.IH [OF 2] feed_max_sessions [OF 1] show ?thesis by (simp add: cancel_timer_frame)
  qed (use Cons d in simp)
qed simp

lemma drop_all:
  "fe_db (fold drop_flow_maps ks e) = fe_db e"
  "hm_contains (fe_current_states (fold drop_flow_maps ks e)) k \<longleftrightarrow>
     k \<notin> set ks \<and> hm_contains (fe_current_states e) k"
  "hm_contains (fe_variables (fold drop_flow_maps ks e)) k \<longleftrightarrow>
     k \<notin> set ks \<and> hm_contains (fe_variables e) k"
  "hm_inv (fe_current_states e) \<Longrightarrow> hm_inv (fe_current_states (fold drop_flow_maps ks e))"
  "hm_inv (fe_variables e) \<Longrightarrow> hm_inv (fe_variables (fold drop_flow_maps ks e))"
  by (induction ks arbitrary: e) (auto simp: drop_flow_maps_def hm.inv_del)

lemma expire_idle_inv:
  assumes "engine_inv e"
  shows "engine_inv (snd (snd (expire_idle t e))) \<and>
    max_sessions (fe_db (snd (snd (expire_idle t e)))) = max_sessions (fe_db e)"
proof -
  define th where "th = tick_of (fe_db e) - t"
  define ks where "ks = map fst (filter (\<lambda>(k, s). sc_last_access s < th) (sessions (fe_db e)))"
  define db where "db = snd (expire_older_than th (fe_db e))"
  have e': "snd (snd (expire_idle t e)) = fold drop_flow_maps ks (e\<lparr>fe_db := db\<rparr>)"
    by (simp add: expire_idle_def Let_def th_def ks_def db_def split_beta)
  have inv: "hm_inv (sessions (fe_db e))" using assms by (simp add: engine_inv_def session_inv_def)
  have live: "hm_contains (sessions db) k" if "hm_contains (sessions (fe_db e)) k" "k \<notin> set ks" for k
  proof -
    from that(1) obtain s where s: "hm_get (sessions (fe_db e)) k = Some s" by (auto simp: hm_contains_def)
    then have "(k, s) \<in> set (sessions (fe_db e))" using hm.entries_get [OF inv] by blast
    with that(2) have "th \<le> sc_last_access s" by (force simp: ks_def)
    with s filter_get [OF inv, of "\<lambda>s. th \<le> sc_last_access s" k] show ?thesis
      by (simp add: db_def expire_older_than_def Let_def hm_contains_def)
  qed
  have "session_inv db \<and> clock_ok db" using expire_inv assms by (simp add: db_def engine_inv_def)
  moreover have "max_sessions db = max_sessions (fe_db e)" by (simp add: db_def expire_older_than_def Let_def)
  ultimately show ?thesis
    using assms live unfolding e' engine_inv_def live_def
    by (auto simp: drop_all)
qed

lemma engine_apply_inv:
  assumes "engine_inv e" "engine_apply chk op e = Some e'"
  shows "engine_inv e' \<and> max_sessions (fe_db e') = max_sessions (fe_db e)"
proof (cases op)
  case (Feed key mt ctx)
  with assms feed_inv feed_max_sessions show ?thesis by fastforce
next
  case (ScheduleTimer key name delay)
  with assms engine_inv_cong [of e' e] show ?thesis by (auto simp: schedule_timer_def Let_def)
next
  case (CancelTimer key name)
  with assms engine_inv_cong [of e' e] cancel_timer_frame [of key name e] show ?thesis by auto
next
  case (AdvanceAndFire n)
  have "engine_inv (e\<lparr>fe_timer_now := u64_saturating_add (fe_timer_now e) n\<rparr>)"
    using assms(1) engine_inv_cong [of "e\<lparr>fe_timer_now := u64_saturating_add (fe_timer_now e) n\<rparr>" e] by simp
  with AdvanceAndFire assms(2) fire_list_inv show ?thesis
    by (fastforce simp: advance_and_fire_def fire_due_timers_def)
next
  case (ExpireIdle t)
  with assms expire_idle_inv show ?thesis by auto
next
  case (LoadMachines ord sms)
  with assms engine_inv_cong [of e' e] load_frame [of ord sms e] show ?thesis by auto
qed

interpretation engine: op_system "engine_apply chk"
  "\<lambda>e. engine_inv e \<and> max_sessions (fe_db e) = n" for chk n
  using engine_apply_inv by unfold_locales auto

lemma engine_new_inv: "engine_inv (engine_new n) \<and> max_sessions (fe_db (engine_new n)) = n"
  using session_new_inv by (simp add: engine_new_def engine_inv_def hm_contains_def)

lemmas engine_reach = engine.inv_run [OF _ engine_new_inv]

text \<open>Whatever happens to an engine created for \<open>n\<close> sessions (messages, timers, expiry,
  loading machines), every flow it keeps a state name or variables for has a live session:
  eviction and expiry clean up after themselves.\<close>

theorem tracked_flows_are_sessions:
  assumes "run_ops (engine_apply chk) ops (engine_new n) = Some e"
    and "hm_contains (fe_current_states e) k \<or> hm_contains (fe_variables e) k"
  shows "hm_contains (sessions (fe_db e)) k"
  using engine_reach [OF assms(1)] assms(2) by (auto simp: engine_inv_def live_def)

lemma keys_card:
  assumes "hm_inv m" "hm_inv m'" "\<And>k. hm_contains m k \<Longrightarrow> hm_contains m' k"
  shows "length m \<le> length m'"
proof -
  have "fst ` set m \<subseteq> fst ` set m'" 
    using assms(3) unfolding hm_contains_iff [OF assms(1)] hm_contains_iff [OF assms(2)] by (rule subsetI)
  then have "card (fst ` set m) \<le> card (fst ` set m')" by (intro card_mono) auto
  with distinct_card [of "map fst m"] distinct_card [of "map fst m'"] assms(1,2) show ?thesis
    by (simp add: hm_inv_def)
qed

text \<open>The per-flow tables are bounded by the session capacity in every reachable state.\<close>

theorem engine_tables_bounded:
  assumes "run_ops (engine_apply chk) ops (engine_new n) = Some e"
  shows "max (length (fe_current_states e)) (length (fe_variables e)) \<le> max 1 n"
proof -
  have "length (fe_current_states e) \<le> length (sessions (fe_db e))"
    "length (fe_variables e) \<le> length (sessions (fe_db e))"
    using engine_reach [OF assms] by (auto simp: engine_inv_def live_def session_inv_def intro!: keys_card)
  moreover have "length (sessions (fe_db e)) \<le> max 1 n"
    using engine_reach [OF assms] by (auto simp: engine_inv_def session_inv_def db_len_def)
  ultimately show ?thesis by simp
qed

subsection \<open>Timers\<close>

definition armed :: "fsm_engine \<Rightarrow> flow_key \<Rightarrow> string \<Rightarrow> armed_timer option" where
  "armed e key name = Option.bind (hm_get (fe_timers e) key) (\<lambda>m. hm_get m name)"

lemma has_timer_armed: "has_timer e key name \<longleftrightarrow> armed e key name \<noteq> None"
  by (auto simp: has_timer_def armed_def hm_contains_def split: option.split)

lemma cancel_armed:
  "armed (snd (cancel_timer key name e)) k n = (if k = key \<and> n = name then None else armed e k n)"
proof (cases "hm_get (fe_timers e) key")
  case (Some m)
  have "hm_del name m = [] \<Longrightarrow> hm_get m n = None \<or> n = name"
    using hm_get_del [of name m n] by (auto split: if_splits)
  with Some show ?thesis by (auto simp: cancel_timer_def armed_def Let_def)
qed (auto simp: cancel_timer_def armed_def)

lemma feed_armed:
  assumes "feed chk key mt ctx e = Some (st, evs, e')" "armed e' k n = Some t"
  shows "armed e k n = Some t \<and> fe_timer_now e' = fe_timer_now e"
proof (rule feedE [OF assms(1)])
  fix ev db e2 e3 c
  assume e2: "e2 = (case ev of None \<Rightarrow> e\<lparr>fe_db := db\<rparr> | Some k \<Rightarrow> drop_flow_maps k (e\<lparr>fe_db := db\<rparr>))"
    and e': "e' = (set_current_state key st e3)\<lparr>fe_db := db_transition key (state_numeric st) None db\<rparr>"
    and o: "vars_only key e2 e3"
  have "fe_timers e' = fe_timers e2" "fe_timer_now e' = fe_timer_now e2"
    using o by (simp_all add: e' set_current_state_def vars_only_def)
  moreover have "fe_timer_now e2 = fe_timer_now e"
    by (simp add: e2 drop_flow_maps_def split: option.split)
  moreover have "armed e2 k n = Some t \<Longrightarrow> armed e k n = Some t"
    by (auto simp: e2 armed_def drop_flow_maps_def split: option.splits if_splits)
  ultimately show ?thesis using assms(2) by (simp add: armed_def)
qed

lemma feed_timer_now:
  assumes "feed chk key mt ctx e = Some (st, evs, e')"
  shows "fe_timer_now e' = fe_timer_now e"
  by (rule feedE [OF assms])
    (auto simp: set_current_state_def vars_only_def drop_flow_maps_def split: option.splits)

lemma fire_list_armed:
  "fire_list chk due e = Some (fired, e') \<Longrightarrow>
   fe_timer_now e' = fe_timer_now e \<and>
   (\<forall>k n t. armed e' k n = Some t \<longrightarrow> armed e k n = Some t \<and> (\<forall>a b. (a, b, k, n) \<notin> set due))"
proof (induction due arbitrary: e fired)
  case (Cons d due)
  obtain a b key name where d: "d = (a, b, key, name)" by (metis prod_cases4)
  show ?case
  proof (cases "has_timer e key name")
    case True
    with Cons.prems d obtain st evs e1 f2 where
      1: "feed chk key (''timer:'' @ name) [] (snd (cancel_timer key name e)) = Some (st, evs, e1)" and
      2: "fire_list chk due e1 = Some (f2, e')"
      by (auto simp: bind_eq_Some_conv)
    have e1: "armed e k n = Some t \<and> \<not> (k = key \<and> n = name)" if "armed e1 k n = Some t" for k n t
      using feed_armed [OF 1 that] by (auto simp: cancel_armed split: if_splits)
    have "armed e k n = Some t \<and> (\<forall>a b. (a, b, k, n) \<notin> set (d # due))" if "armed e' k n = Some t" for k n t
    proof -
      from Cons.IH [OF 2] that have "armed e1 k n = Some t" "\<forall>a b. (a, b, k, n) \<notin> set due" by auto
      with e1 [OF this(1)] show ?thesis by (auto simp: d)
    qed
    with Cons.IH [OF 2] feed_timer_now [OF 1] show ?thesis by (simp add: cancel_timer_frame)
  next
    case False
    with Cons.prems d have f: "fire_list chk due e = Some (fired, e')" by simp
    from False have "armed e key name = None" by (simp add: has_timer_armed)
    with Cons.IH [OF f] show ?thesis by (auto simp: d)
  qed
qed simp

lemma due_complete:
  assumes "armed e k n = Some t" "deadline t \<le> fe_timer_now e"
  shows "(deadline t, insertion_id t, k, n) \<in> set (due_timers e)"
proof -
  from assms(1) obtain m where "(k, m) \<in> set (fe_timers e)" "(n, t) \<in> set m"
    by (auto simp: armed_def bind_eq_Some_conv hm_get_def dest: map_of_SomeD)
  with assms(2) show ?thesis by (force simp: due_timers_def)
qed

text \<open>C40: No timer is left behind. After the clock has advanced and the due timers have
  fired (each of which may evict other flows), every timer still armed has its deadline
  strictly in the future.\<close>

theorem no_due_timer_left:
  assumes "advance_and_fire chk n e = Some (fired, e')" "armed e' key name = Some t"
  shows "fe_timer_now e' < deadline t"
proof (rule ccontr)
  let ?e = "e\<lparr>fe_timer_now := u64_saturating_add (fe_timer_now e) n\<rparr>"
  assume "\<not> fe_timer_now e' < deadline t"
  have f: "fire_list chk (due_timers ?e) ?e = Some (fired, e')"
    using assms(1) by (simp add: advance_and_fire_def fire_due_timers_def)
  have "armed ?e key name = Some t" "fe_timer_now e' = fe_timer_now ?e"
    "(deadline t, insertion_id t, key, name) \<notin> set (due_timers ?e)"
    using fire_list_armed [OF f] assms(2) by auto
  with due_complete [of ?e key name t] \<open>\<not> fe_timer_now e' < deadline t\<close> show False by simp
qed

subsection \<open>One machine\<close>

text \<open>The abstract machine: the state a message leads to from \<open>current\<close>.\<close>

definition target_state ::
    "bool \<Rightarrow> fsm_engine \<Rightarrow> (string, u64) hmap \<Rightarrow> flow_key \<Rightarrow> string \<Rightarrow>
      (string, transition list) hmap \<Rightarrow> string \<Rightarrow> string option" where
  "target_state chk e ctx key mt states current =
     (case hm_get states current of
        None \<Rightarrow> Some current
      | Some trs \<Rightarrow>
          map_option (\<lambda>r. case r of None \<Rightarrow> current | Some tr \<Rightarrow> t_to_state tr)
            (first_enabled chk e ctx key mt trs))"

lemma feed_tracked:
  assumes "feed chk key mt ctx e = Some (st, evs, e')"
  shows "hm_get (fe_current_states e') key = Some st"
  by (rule feedE [OF assms]) (simp add: set_current_state_def)

text \<open>Feeding a message to an engine with one machine moves the flow as that machine
  says: a new flow (no state recorded, or \<open>IDLE\<close>) starts in the machine's initial state;
  from the current state the first transition with the message's type whose guard holds is
  taken, otherwise the flow stays; and the new state is what the engine records.\<close>

theorem feed_one_machine:
  assumes "fe_machines e = [(machine, states)]"
    and "hm_get (fe_initials e) machine = Some init"
    and "hm_contains (sessions (fe_db e)) key"
    and "feed chk key mt ctx e = Some (st, evs, e')"
  shows "target_state chk e ctx key mt states
           (if get_current_state e key = idle_state then init else get_current_state e key) = Some st
         \<and> hm_get (fe_current_states e') key = Some st"
proof
  show "hm_get (fe_current_states e') key = Some st" using feed_tracked [OF assms(4)] .
  show "target_state chk e ctx key mt states
      (if get_current_state e key = idle_state then init else get_current_state e key) = Some st"
  proof (rule feedE [OF assms(4)])
    fix ev db e2 e3 c
    assume g: "get_or_create key (fe_db e) = (ev, db)"
      and e2: "e2 = (case ev of None \<Rightarrow> e\<lparr>fe_db := db\<rparr> | Some k \<Rightarrow> drop_flow_maps k (e\<lparr>fe_db := db\<rparr>))"
      and f: "feed_machines chk ctx key mt (fe_machines e)
        (e2, get_current_state e2 key, get_current_state e2 key, []) = Some (e3, c, st, evs)"
    have "ev = None" using g assms(3) by (auto simp: get_or_create_def db_bump_def Let_def split: if_splits)
    then have e2': "e2 = e\<lparr>fe_db := db\<rparr>" by (simp add: e2)
    have cur: "get_current_state e2 key = get_current_state e key" by (simp add: e2' get_current_state_def)
    have seed: "seed_state e2 machine (get_current_state e key) (get_current_state e key) =
        (let s = (if get_current_state e key = idle_state then init else get_current_state e key) in (s, s))"
      using assms(2) by (simp add: seed_state_def e2' Let_def)
    have env: "eval_guard chk e2 g ctx key = eval_guard chk e g ctx key" for g
      by (cases g) (simp_all add: eval_guard_def efsm_eval_def flow_env_def e2')
    have en: "first_enabled chk e2 ctx key mt trs = first_enabled chk e ctx key mt trs" for trs
      by (induction trs) (simp_all add: env cong: Option.bind_cong if_cong)
    show ?thesis
      using f unfolding assms(1)
      by (auto simp: cur feed_machine_def seed Let_def en target_state_def bind_eq_Some_conv
          split: option.splits prod.splits)
  qed
qed

subsection \<open>An engine at work\<close>

definition plain_transition :: "string \<Rightarrow> expr option \<Rightarrow> string \<Rightarrow> action list \<Rightarrow> transition" where
  "plain_transition mt guard to acts =
     \<lparr>t_from_state = None, t_msg_type = mt, t_guard = guard, t_to_state = to, t_actions = acts\<rparr>"

definition tcp_machine :: state_machine where
  "tcp_machine =
     \<lparr>sm_name = ''tcp'',
      sm_states =
        [\<lparr>s_name = ''CLOSED'', s_transitions =
            [plain_transition ''Syn'' (Some (Binary OpEq (Ident ''flags'') (IntLit 2))) ''SYN_SENT''
               [SetVar ''n'' (IntLit 1), Emit ''opened'']]\<rparr>,
         \<lparr>s_name = ''SYN_SENT'', s_transitions = [plain_transition ''Ack'' None ''ESTABLISHED'' []]\<rparr>],
      sm_initial = ''CLOSED'', sm_key = None\<rparr>"

definition demo_engine_ops :: "engine_op list" where
  "demo_engine_ops =
     [LoadMachines (\<lambda>ms. ms) [tcp_machine], Feed (fkey 1) ''Syn'' [(''flags'', 2)],
      ScheduleTimer (fkey 1) ''rto'' 5]"

definition demo_engine :: fsm_engine where
  "demo_engine = the (run_ops (engine_apply True) demo_engine_ops (engine_new 4))"

lemma demo_engine_run: "run_ops (engine_apply True) demo_engine_ops (engine_new 4) = Some demo_engine"
  by code_simp

theorem tracked_flows_are_sessions_witness: "hm_contains (sessions (fe_db demo_engine)) (fkey 1)"
proof (rule tracked_flows_are_sessions [OF demo_engine_run])
  show "hm_contains (fe_current_states demo_engine) (fkey 1) \<or> hm_contains (fe_variables demo_engine) (fkey 1)"
    by code_simp
qed

theorem engine_tables_bounded_witness:
  "max (length (fe_current_states demo_engine)) (length (fe_variables demo_engine)) \<le> max 1 4"
  using engine_tables_bounded [OF demo_engine_run] .

theorem no_due_timer_left_witness:
  "fe_timer_now (snd (the (advance_and_fire True 3 demo_engine))) < 5"
proof -
  let ?r = "the (advance_and_fire True 3 demo_engine)"
  have 1: "advance_and_fire True 3 demo_engine = Some (fst ?r, snd ?r)" by code_simp
  have 2: "armed (snd ?r) (fkey 1) ''rto'' = Some \<lparr>deadline = 5, insertion_id = 1\<rparr>" by code_simp
  from no_due_timer_left [OF 1 2] show ?thesis by simp
qed

theorem feed_one_machine_witness:
  "hm_get (fe_current_states (snd (snd (the (feed True (fkey 1) ''Ack'' [] demo_engine))))) (fkey 1)
     = Some ''ESTABLISHED''"
proof -
  let ?r = "the (feed True (fkey 1) ''Ack'' [] demo_engine)"
  have f: "feed True (fkey 1) ''Ack'' [] demo_engine = Some (fst ?r, fst (snd ?r), snd (snd ?r))"
    by code_simp
  have m: "fe_machines demo_engine = [(''tcp'', machine_states tcp_machine)]"
    "hm_get (fe_initials demo_engine) ''tcp'' = Some ''CLOSED''"
    "hm_contains (sessions (fe_db demo_engine)) (fkey 1)" by code_simp+
  have "fst ?r = ''ESTABLISHED''" by code_simp
  with conjunct2 [OF feed_one_machine [OF m f]] show ?thesis by (simp only:)
qed

definition step_machine :: "string \<Rightarrow> string \<Rightarrow> string \<Rightarrow> state_machine" where
  "step_machine name from to =
     \<lparr>sm_name = name, sm_states = [\<lparr>s_name = from, s_transitions = [plain_transition ''M'' None to []]\<rparr>],
      sm_initial = from, sm_key = None\<rparr>"

text \<open>With two machines the outcome depends on the iteration order of the machine map,
  which \<open>HashMap\<close> leaves unspecified: the first machine's initial state becomes the current
  state the second one looks up. Visiting \<open>a\<close> before \<open>b\<close> the flow ends in \<open>a1\<close>, visiting
  \<open>b\<close> before \<open>a\<close> it ends in \<open>b1\<close>.\<close>

theorem machine_order_matters:
  "map_option fst (feed True (fkey 1) ''M'' []
      (load_from_ast (\<lambda>ms. ms) [step_machine ''a'' ''a0'' ''a1'', step_machine ''b'' ''b0'' ''b1''] (engine_new 4)))
     = Some ''a1'' \<and>
   map_option fst (feed True (fkey 1) ''M'' []
      (load_from_ast rev [step_machine ''a'' ''a0'' ''a1'', step_machine ''b'' ''b0'' ''b1''] (engine_new 4)))
     = Some ''b1''"
  by code_simp

end
