(* ===== verification/Reassembly.thy ===== *)
theory Reassembly
  imports Hash_Map
begin

text \<open>
  TCP reassembly (crates/nfdl-runtime/src/reassembly.rs): in-order delivery, the
  out-of-order buffer and its drain loop, compaction.

  Sequence numbers are \<open>32 word\<close>s compared and advanced as \<open>u32\<close>s. The \<open>BTreeMap\<close> is an
  association list, \<open>range(s..).next()\<close> its entry with the least key at or above \<open>s\<close>.
\<close>

datatype reassembly_error = NeedMore nat | OverlapConflict | ReassemblyLimit

record reassembler =
  base_seq :: u32
  contiguous :: "u8 list"
  ooo :: "(u32, u8 list) hmap"
  next_seq :: u32
  max_buffer :: nat

definition reassembler_new :: "u32 \<Rightarrow> reassembler" where
  "reassembler_new initial_seq =
     \<lparr>base_seq = initial_seq, contiguous = [], ooo = [], next_seq = initial_seq,
      max_buffer = 2 ^ 20\<rparr>"

fun range_first :: "u32 \<Rightarrow> (u32, u8 list) hmap \<Rightarrow> (u32 \<times> u8 list) option" where
  "range_first s [] = None"
| "range_first s ((k, d) # m) =
     (case range_first s m of
        None \<Rightarrow> if s \<le> k then Some (k, d) else None
      | Some (k', d') \<Rightarrow> if s \<le> k \<and> k \<le> k' then Some (k, d) else Some (k', d'))"

lemma range_first_mem: "range_first s m = Some (k, d) \<Longrightarrow> (k, d) \<in> set m \<and> s \<le> k"
  by (induction m arbitrary: k d) (auto split: option.splits if_splits)

lemma hm_del_less: "(k, d) \<in> set m \<Longrightarrow> length (hm_del k m) < length m"
  unfolding hm_del_def AList.delete_eq by (rule length_filter_less) auto

text \<open>The drain loop over (contiguous, next_seq, ooo).\<close>

function drain :: "u8 list \<Rightarrow> u32 \<Rightarrow> (u32, u8 list) hmap \<Rightarrow> u8 list \<times> u32 \<times> (u32, u8 list) hmap" where
  "drain buf s m =
     (case range_first s m of
        None \<Rightarrow> (buf, s, m)
      | Some (k, seg) \<Rightarrow>
          if k = s then drain (buf @ seg) (s + of_nat (length seg)) (hm_del k m)
          else (buf, s, m))"
  by pat_completeness auto

termination
  by (relation "measure (\<lambda>(buf, s, m). length m)") (auto dest!: range_first_mem intro: hm_del_less)

declare drain.simps [simp del]

text \<open>\<open>accept_segment\<close>; the error leaves the state as it was.\<close>

definition accept_segment ::
    "u32 \<Rightarrow> u8 list \<Rightarrow> reassembler \<Rightarrow> reassembly_error option \<times> reassembler" where
  "accept_segment seq data r =
     (if max_buffer r < length (contiguous r) + length data then (Some ReassemblyLimit, r)
      else if seq = next_seq r then
        (case drain (contiguous r @ data) (next_seq r + of_nat (length data)) (ooo r) of
           (buf, s, m) \<Rightarrow> (None, r\<lparr>contiguous := buf, next_seq := s, ooo := m\<rparr>))
      else if next_seq r < seq then
        (case hm_get (ooo r) seq of
           Some existing \<Rightarrow>
             (None, if length existing < length data then r\<lparr>ooo := hm_put seq data (ooo r)\<rparr> else r)
         | None \<Rightarrow> (None, r\<lparr>ooo := hm_put seq data (ooo r)\<rparr>))
      else (None, r))"

definition has_data :: "reassembler \<Rightarrow> bool" where
  "has_data r = (contiguous r \<noteq> [])"

definition segment_bytes_needed :: "reassembler \<Rightarrow> nat \<Rightarrow> nat option" where
  "segment_bytes_needed r target =
     (if target \<le> length (contiguous r) then None else Some (target - length (contiguous r)))"

definition compact :: "nat \<Rightarrow> reassembler \<Rightarrow> reassembler" where
  "compact keep r =
     (if keep < length (contiguous r)
      then let n = length (contiguous r) - keep
           in r\<lparr>contiguous := drop n (contiguous r), base_seq := base_seq r + of_nat n\<rparr>
      else r)"

text \<open>Feeding a sequence of segments, errors ignored.\<close>

definition accept_all :: "(u32 \<times> u8 list) list \<Rightarrow> reassembler \<Rightarrow> reassembler" where
  "accept_all segs r = fold (\<lambda>(s, d) r. snd (accept_segment s d r)) segs r"

subsection \<open>Draining\<close>

text \<open>The loop goes on exactly while the buffer has an entry for the next byte.\<close>

lemma range_first_key:
  assumes "hm_inv m" "hm_get m s = Some d"
  shows "range_first s m = Some (s, d)"
  using assms
proof (induction m)
  case (Cons p m)
  obtain k v where p: "p = (k, v)" by force
  have inv: "hm_inv m" "hm_get m k = None"
    using Cons.prems(1) p by (auto simp: hm_inv_def hm_get_def map_of_eq_None_iff)
  show ?case
  proof (cases "k = s")
    case True
    with Cons.prems p have d: "v = d" by (simp add: hm_get_def)
    show ?thesis
    proof (cases "range_first s m")
      case (Some q)
      obtain k' v' where q: "q = (k', v')" by force
      with Some range_first_mem have "s \<le> k'" by blast
      with Some q p True d show ?thesis by simp
    qed (use p True d in simp)
  next
    case False
    with Cons p inv(1) have "range_first s m = Some (s, d)" by (simp add: hm_get_def)
    with p False show ?thesis by auto
  qed
qed simp

lemma drain_step:
  assumes "hm_inv m"
  shows "drain buf s m =
    (case hm_get m s of
       Some seg \<Rightarrow> drain (buf @ seg) (s + of_nat (length seg)) (hm_del s m)
     | None \<Rightarrow> (buf, s, m))"
proof (cases "hm_get m s")
  case (Some seg)
  with range_first_key [OF assms Some] show ?thesis by (subst drain.simps) simp
next
  case None
  have "k \<noteq> s" if "range_first s m = Some (k, d)" for k d
    using range_first_mem [OF that] None by (force simp: hm_get_def map_of_eq_None_iff)
  with None show ?thesis by (subst drain.simps) (auto split: option.split)
qed

subsection \<open>Delivered bytes are a prefix of the stream\<close>

text \<open>
  The sequence number of the byte at offset \<open>off\<close> of a stream that starts at \<open>isn\<close> and
  does not wrap around.
\<close>

definition seq_at :: "u32 \<Rightarrow> nat \<Rightarrow> u32" where
  "seq_at isn off = isn + of_nat off"

lemma unat_seq_at: "unat isn + off < 2 ^ 32 \<Longrightarrow> unat (seq_at isn off) = unat isn + off"
  unfolding seq_at_def by (simp add: unat_word_ariths unat_of_nat)

lemma seq_at_add: "seq_at isn off + of_nat n = seq_at isn (off + n)"
  by (simp add: seq_at_def)

lemma seq_at_inj:
  "unat isn + a < 2 ^ 32 \<Longrightarrow> unat isn + b < 2 ^ 32 \<Longrightarrow> seq_at isn a = seq_at isn b \<longleftrightarrow> a = b"
  by (metis add_left_cancel unat_seq_at)

lemma seq_at_less:
  "unat isn + a < 2 ^ 32 \<Longrightarrow> unat isn + b < 2 ^ 32 \<Longrightarrow> seq_at isn a < seq_at isn b \<longleftrightarrow> a < b"
  by (simp add: word_less_nat_alt unat_seq_at)

text \<open>A segment that carries bytes of the stream at their place.\<close>

definition segment_of :: "u32 \<Rightarrow> u8 list \<Rightarrow> u32 \<Rightarrow> u8 list \<Rightarrow> bool" where
  "segment_of isn stream s d \<longleftrightarrow>
     unat isn \<le> unat s \<and> unat s - unat isn + length d \<le> length stream \<and>
     d = take (length d) (drop (unat s - unat isn) stream)"

definition stream_inv :: "u32 \<Rightarrow> u8 list \<Rightarrow> reassembler \<Rightarrow> bool" where
  "stream_inv isn stream r \<longleftrightarrow>
     (\<exists>n\<le>length stream. contiguous r = take n stream \<and> next_seq r = seq_at isn n) \<and>
     hm_inv (ooo r) \<and> (\<forall>k d. hm_get (ooo r) k = Some d \<longrightarrow> segment_of isn stream k d)"

lemma segment_extends:
  assumes "segment_of isn stream (seq_at isn n) d" "unat isn + length stream < 2 ^ 32" "n \<le> length stream"
  shows "take n stream @ d = take (n + length d) stream \<and> n + length d \<le> length stream"
proof -
  have "unat (seq_at isn n) = unat isn + n" using assms(2,3) by (intro unat_seq_at) simp
  with assms(1) show ?thesis by (auto simp: segment_of_def take_add)
qed

lemma drain_stream:
  assumes "drain (take n stream) (seq_at isn n) m = (buf, s, m')"
    and "hm_inv m" "\<And>k d. hm_get m k = Some d \<Longrightarrow> segment_of isn stream k d" "n \<le> length stream"
    and "unat isn + length stream < 2 ^ 32"
  shows "\<exists>n'. n \<le> n' \<and> n' \<le> length stream \<and> buf = take n' stream \<and> s = seq_at isn n' \<and> hm_inv m' \<and>
    (\<forall>k d. hm_get m' k = Some d \<longrightarrow> segment_of isn stream k d)"
  using assms
proof (induction "length m" arbitrary: m n rule: less_induct)
  case less
  show ?case
  proof (cases "hm_get m (seq_at isn n)")
    case None
    with less.prems(1) drain_step [OF less.prems(2)] less.prems(2-4) show ?thesis by auto
  next
    case (Some d)
    note ext = segment_extends [OF less.prems(3) [OF Some] less.prems(5,4)]
    have dr: "drain (take (n + length d) stream) (seq_at isn (n + length d)) (hm_del (seq_at isn n) m)
        = (buf, s, m')"
      using less.prems(1) Some ext by (simp add: drain_step [OF less.prems(2)] seq_at_add)
    have len: "length (hm_del (seq_at isn n) m) < length m"
      using Some by (auto simp: hm_get_def intro: hm_del_less dest: map_of_SomeD)
    have seg: "segment_of isn stream k d'" if "hm_get (hm_del (seq_at isn n) m) k = Some d'" for k d'
      using that less.prems(3) by (simp split: if_splits)
    note less.hyps [OF len dr hm.inv_del [OF less.prems(2)] seg conjunct2 [OF ext] less.prems(5)]
    then show ?thesis by (meson add_leD1)
  qed
qed

lemma accept_stream_inv:
  assumes "stream_inv isn stream r" "segment_of isn stream s d" "unat isn + length stream < 2 ^ 32"
  shows "stream_inv isn stream (snd (accept_segment s d r))"
proof -
  obtain n where n: "n \<le> length stream" "contiguous r = take n stream" "next_seq r = seq_at isn n"
    and inv: "hm_inv (ooo r)" and seg: "\<And>k d. hm_get (ooo r) k = Some d \<Longrightarrow> segment_of isn stream k d"
    using assms(1) by (auto simp: stream_inv_def)
  show ?thesis
  proof (cases "\<not> max_buffer r < length (contiguous r) + length d \<and> s = next_seq r")
    case True
    note ext = segment_extends [OF assms(2) [unfolded conjunct2 [OF True] n(3)] assms(3) n(1)]
    obtain buf s' m' where dr: "drain (contiguous r @ d) (next_seq r + of_nat (length d)) (ooo r) = (buf, s', m')"
      by (metis prod_cases3)
    have dr': "drain (take (n + length d) stream) (seq_at isn (n + length d)) (ooo r) = (buf, s', m')"
      using dr ext n by (simp add: seq_at_add)
    from drain_stream [OF dr' inv seg _ assms(3)] ext
    show ?thesis using True dr by (auto simp: accept_segment_def stream_inv_def)
  next
    case False
    with assms show ?thesis
      by (auto simp: accept_segment_def stream_inv_def hm.inv_put split: option.split)
  qed
qed

text \<open>C30: whatever consistent segments arrive, in any order, with losses, duplicates and
  overlaps, what the reassembler delivers is a prefix of the sender's stream, as long as the
  sequence numbers do not wrap around.\<close>

theorem delivered_is_prefix:
  assumes "\<forall>(s, d)\<in>set segs. segment_of isn stream s d" "unat isn + length stream < 2 ^ 32"
  shows "contiguous (accept_all segs (reassembler_new isn))
    = take (length (contiguous (accept_all segs (reassembler_new isn)))) stream"
proof -
  have "stream_inv isn stream (accept_all segs r)" if "stream_inv isn stream r" for r
    using that assms(1)
    by (induction segs arbitrary: r) (auto simp: accept_all_def accept_stream_inv [OF _ _ assms(2)])
  moreover have "stream_inv isn stream (reassembler_new isn)"
    by (auto simp: stream_inv_def reassembler_new_def seq_at_def intro!: exI [of _ 0])
  ultimately obtain n where "contiguous (accept_all segs (reassembler_new isn)) = take n stream"
    unfolding stream_inv_def by blast
  then show ?thesis by (simp add: min_def)
qed

theorem delivered_is_prefix_witness:
  "contiguous (accept_all [(1002, [2, 3]), (1001, [1, 2, 3]), (1000, [0, 1]), (1000, [0])] (reassembler_new 1000))
    = take (length (contiguous (accept_all [(1002, [2, 3]), (1001, [1, 2, 3]), (1000, [0, 1]), (1000, [0])]
        (reassembler_new 1000)))) [0, 1, 2, 3]"
  by (rule delivered_is_prefix) (simp_all add: segment_of_def)

subsection \<open>Every order delivers the whole stream\<close>

text \<open>The stream cut into chunks: the offset of a chunk, and the segment that carries it.\<close>

definition chunk_start :: "u8 list list \<Rightarrow> nat \<Rightarrow> nat" where
  "chunk_start ds i = length (concat (take i ds))"

definition chunk_segment :: "u32 \<Rightarrow> u8 list list \<Rightarrow> nat \<Rightarrow> u32 \<times> u8 list" where
  "chunk_segment isn ds i = (seq_at isn (chunk_start ds i), ds ! i)"

definition chunks_ok :: "u32 \<Rightarrow> u8 list list \<Rightarrow> bool" where
  "chunks_ok isn ds \<longleftrightarrow>
     list_all (\<lambda>d. d \<noteq> []) ds \<and> length (concat ds) \<le> 2 ^ 20 \<and>
     unat isn + length (concat ds) < 2 ^ 32"

lemma chunk_start_Suc: "i < length ds \<Longrightarrow> chunk_start ds (Suc i) = chunk_start ds i + length (ds ! i)"
  by (simp add: chunk_start_def take_Suc_conv_app_nth)

lemma chunk_start_le: "chunk_start ds i \<le> length (concat ds)"
  unfolding chunk_start_def by (metis append_take_drop_id concat_append le_add1 length_append)

lemma chunk_start_mono:
  assumes "list_all (\<lambda>d. d \<noteq> []) ds" "i < j" "j \<le> length ds"
  shows "chunk_start ds i < chunk_start ds j"
  using assms(2,3)
proof (induction j)
  case (Suc j)
  then have "0 < length (ds ! j)" using assms(1) by (simp add: list_all_length)
  with Suc chunk_start_Suc [of j ds] show ?case by (cases "i = j") auto
qed simp

lemma chunk_seq:
  assumes "chunks_ok isn ds" "i \<le> length ds" "j \<le> length ds"
  shows "seq_at isn (chunk_start ds i) = seq_at isn (chunk_start ds j) \<longleftrightarrow> i = j"
    and "seq_at isn (chunk_start ds i) < seq_at isn (chunk_start ds j) \<longleftrightarrow> i < j"
proof -
  have lt: "unat isn + chunk_start ds k < 2 ^ 32" for k
    using chunk_start_le [of ds k] assms(1) by (simp add: chunks_ok_def)
  have mono: "a < b \<Longrightarrow> b \<le> length ds \<Longrightarrow> chunk_start ds a < chunk_start ds b" for a b
    using chunk_start_mono assms(1) by (simp add: chunks_ok_def)
  have "chunk_start ds i = chunk_start ds j \<longleftrightarrow> i = j"
    using mono [of i j] mono [of j i] assms(2,3) by (cases i j rule: linorder_cases) auto
  then show "seq_at isn (chunk_start ds i) = seq_at isn (chunk_start ds j) \<longleftrightarrow> i = j"
    using seq_at_inj [OF lt lt] by simp
  have "chunk_start ds i < chunk_start ds j \<longleftrightarrow> i < j"
    using mono [of i j] mono [of j i] assms(2,3) by (cases i j rule: linorder_cases) auto
  then show "seq_at isn (chunk_start ds i) < seq_at isn (chunk_start ds j) \<longleftrightarrow> i < j"
    using seq_at_less [OF lt lt] by simp
qed

text \<open>The buffer holds exactly the accepted chunks from \<open>m\<close> on.\<close>

definition holds_chunks :: "u32 \<Rightarrow> u8 list list \<Rightarrow> nat set \<Rightarrow> nat \<Rightarrow> (u32, u8 list) hmap \<Rightarrow> bool" where
  "holds_chunks isn ds A m buf \<longleftrightarrow>
     hm_inv buf \<and>
     (\<forall>i<length ds. hm_get buf (seq_at isn (chunk_start ds i)) = (if i \<in> A \<and> m \<le> i then Some (ds ! i) else None)) \<and>
     (\<forall>k. hm_get buf k \<noteq> None \<longrightarrow> (\<exists>i<length ds. k = seq_at isn (chunk_start ds i)))"

definition got_chunks :: "u32 \<Rightarrow> u8 list list \<Rightarrow> nat set \<Rightarrow> reassembler \<Rightarrow> bool" where
  "got_chunks isn ds A r \<longleftrightarrow>
     (\<exists>m\<le>length ds. contiguous r = concat (take m ds) \<and> next_seq r = seq_at isn (chunk_start ds m) \<and>
        holds_chunks isn ds A m (ooo r) \<and> {..<m} \<subseteq> A \<and> m \<notin> A) \<and> max_buffer r = 2 ^ 20"

lemma drain_chunks:
  assumes "chunks_ok isn ds" "m \<le> length ds" "holds_chunks isn ds A m buf" "{..<m} \<subseteq> A"
    and "A \<subseteq> {..<length ds}"
    and "drain (concat (take m ds)) (seq_at isn (chunk_start ds m)) buf = (b, s, buf')"
  shows "\<exists>m'. m' \<le> length ds \<and> b = concat (take m' ds) \<and> s = seq_at isn (chunk_start ds m') \<and>
    holds_chunks isn ds A m' buf' \<and> {..<m'} \<subseteq> A \<and> m' \<notin> A"
  using assms(2-4,6)
proof (induction "length ds - m" arbitrary: m buf)
  case 0
  then have m: "m = length ds" by simp
  have "hm_get buf (seq_at isn (chunk_start ds m)) = None"
  proof (rule ccontr)
    assume "hm_get buf (seq_at isn (chunk_start ds m)) \<noteq> None"
    then obtain i where "i < length ds" "seq_at isn (chunk_start ds m) = seq_at isn (chunk_start ds i)"
      using "0.prems"(2) by (auto simp: holds_chunks_def)
    with chunk_seq(1) [OF assms(1), of m i] m show False by simp
  qed
  with "0.prems" m assms(5) show ?case
    by (intro exI [of _ m]) (auto simp: drain_step holds_chunks_def)
next
  case (Suc k)
  then have m: "m < length ds" by simp
  have inv: "hm_inv buf" and get: "hm_get buf (seq_at isn (chunk_start ds m)) = (if m \<in> A then Some (ds ! m) else None)"
    using Suc.prems(2) m by (auto simp: holds_chunks_def)
  show ?case
  proof (cases "m \<in> A")
    case False
    with get inv Suc.prems show ?thesis by (intro exI [of _ m]) (simp add: drain_step)
  next
    case True
    let ?buf = "hm_del (seq_at isn (chunk_start ds m)) buf"
    have h: "holds_chunks isn ds A (Suc m) ?buf"
      using Suc.prems(2) m chunk_seq(1) [OF assms(1)]
      by (auto simp: holds_chunks_def hm.inv_del)
    have d: "drain (concat (take (Suc m) ds)) (seq_at isn (chunk_start ds (Suc m))) ?buf = (b, s, buf')"
      using Suc.prems(4) get True m
      by (simp add: drain_step [OF inv] seq_at_add chunk_start_Suc take_Suc_conv_app_nth)
    show ?thesis
      using Suc.hyps(2) m h True Suc.prems(3) d by (intro Suc.hyps(1)) (auto simp: less_Suc_eq)
  qed
qed

text \<open>A chunk that is still missing fits into the buffer, so it is accepted.\<close>

lemma chunk_room:
  assumes "chunks_ok isn ds" "got_chunks isn ds A r" "A \<subseteq> {..<length ds}" "i < length ds" "i \<notin> A"
  shows "\<not> max_buffer r < length (contiguous r) + length (ds ! i)"
proof -
  obtain m where m: "m \<le> length ds" "contiguous r = concat (take m ds)" "{..<m} \<subseteq> A"
    and mb: "max_buffer r = 2 ^ 20"
    using assms(2) by (auto simp: got_chunks_def)
  have mi: "m \<le> i" using m(3) assms(5) by (meson lessThan_iff linorder_not_less subsetD)
  have "chunk_start ds m \<le> chunk_start ds i"
    using mi chunk_start_mono [of ds m i] assms(1,4) by (cases "m = i") (auto simp: chunks_ok_def)
  then have "length (contiguous r) + length (ds ! i) \<le> chunk_start ds (Suc i)"
    using chunk_start_Suc [OF assms(4)] m(2) by (simp add: chunk_start_def)
  also have "\<dots> \<le> 2 ^ 20" using chunk_start_le [of ds "Suc i"] assms(1) by (simp add: chunks_ok_def)
  finally show ?thesis using mb by simp
qed

lemma accept_chunk_ok:
  assumes "chunks_ok isn ds" "got_chunks isn ds A r" "A \<subseteq> {..<length ds}" "i < length ds" "i \<notin> A"
  shows "fst (accept_segment s (ds ! i) r) = None"
  using chunk_room [OF assms] by (simp add: accept_segment_def split: prod.split option.split)

lemma accept_chunk:
  assumes "chunks_ok isn ds" "got_chunks isn ds A r" "A \<subseteq> {..<length ds}" "i < length ds" "i \<notin> A"
  shows "got_chunks isn ds (insert i A) (snd (accept_segment (seq_at isn (chunk_start ds i)) (ds ! i) r))"
proof -
  obtain m where m: "m \<le> length ds" "contiguous r = concat (take m ds)"
      "next_seq r = seq_at isn (chunk_start ds m)" "holds_chunks isn ds A m (ooo r)" "{..<m} \<subseteq> A" "m \<notin> A"
    and mb: "max_buffer r = 2 ^ 20"
    using assms(2) by (auto simp: got_chunks_def)
  have mi: "m \<le> i" using m(5) assms(5) by (meson lessThan_iff linorder_not_less subsetD)
  note room = chunk_room [OF assms]
  show ?thesis
  proof (cases "i = m")
    case True
    obtain b s buf where dr: "drain (contiguous r @ ds ! i) (next_seq r + of_nat (length (ds ! i))) (ooo r) = (b, s, buf)"
      by (metis prod_cases3)
    have dr': "drain (concat (take (Suc m) ds)) (seq_at isn (chunk_start ds (Suc m))) (ooo r) = (b, s, buf)"
      using dr True assms(4) m(2,3) by (simp add: take_Suc_conv_app_nth seq_at_add chunk_start_Suc)
    have h: "holds_chunks isn ds (insert i A) (Suc m) (ooo r)"
      using m(4,6) True by (auto simp: holds_chunks_def Suc_le_eq le_less)
    have sub: "{..<Suc m} \<subseteq> insert i A" using m(5) True by (auto simp: less_Suc_eq)
    from drain_chunks [OF assms(1) _ h sub _ dr'] True assms(3,4)
    obtain m' where "m' \<le> length ds" "b = concat (take m' ds)" "s = seq_at isn (chunk_start ds m')"
      "holds_chunks isn ds (insert i A) m' buf" "{..<m'} \<subseteq> insert i A" "m' \<notin> insert i A" by auto
    with room dr True m(3) mb show ?thesis
      unfolding got_chunks_def by (intro conjI exI [of _ m']) (auto simp: accept_segment_def)
  next
    case False
    with mi have lt: "m < i" by simp
    then have sq: "seq_at isn (chunk_start ds i) \<noteq> next_seq r" "next_seq r < seq_at isn (chunk_start ds i)"
      using chunk_seq [OF assms(1), of i m] chunk_seq [OF assms(1), of m i] m(1,3) assms(4) by auto
    have none: "hm_get (ooo r) (seq_at isn (chunk_start ds i)) = None"
      using m(4) assms(4,5) by (simp add: holds_chunks_def)
    have "holds_chunks isn ds (insert i A) m (hm_put (seq_at isn (chunk_start ds i)) (ds ! i) (ooo r))"
      using m(4) mi assms(4) chunk_seq(1) [OF assms(1)]
      by (auto simp: holds_chunks_def hm.inv_put)
    with room sq none m lt mb show ?thesis
      unfolding got_chunks_def by (intro conjI exI [of _ m]) (auto simp: accept_segment_def)
  qed
qed

text \<open>A sequence of missing chunks is accepted without an error and ends with all of them.\<close>

inductive accepts :: "(u32 \<times> u8 list) list \<Rightarrow> reassembler \<Rightarrow> reassembler \<Rightarrow> bool" where
  accepts_Nil: "accepts [] r r"
| accepts_Cons: "accept_segment s d r = (None, r') \<Longrightarrow> accepts segs r' r'' \<Longrightarrow> accepts ((s, d) # segs) r r''"

lemma accepts_all: "accepts segs r r' \<Longrightarrow> accept_all segs r = r'"
  by (induction rule: accepts.induct) (simp_all add: accept_all_def)

lemma accepts_chunks:
  assumes "chunks_ok isn ds"
  shows "got_chunks isn ds A r \<Longrightarrow> distinct xs \<Longrightarrow> set xs \<subseteq> {..<length ds} \<Longrightarrow> A \<subseteq> {..<length ds} \<Longrightarrow>
    A \<inter> set xs = {} \<Longrightarrow>
    \<exists>r'. accepts (map (chunk_segment isn ds) xs) r r' \<and> got_chunks isn ds (A \<union> set xs) r'"
proof (induction xs arbitrary: A r)
  case Nil
  then show ?case by (auto intro: accepts_Nil)
next
  case (Cons i xs)
  let ?acc = "accept_segment (seq_at isn (chunk_start ds i)) (ds ! i) r"
  have g: "got_chunks isn ds (insert i A) (snd ?acc)"
    using Cons.prems by (intro accept_chunk [OF assms]) auto
  have ok: "?acc = (None, snd ?acc)"
    using accept_chunk_ok [OF assms Cons.prems(1,4), of i] Cons.prems by (simp add: prod_eq_iff)
  from Cons.IH [OF g] Cons.prems obtain r' where
    r': "accepts (map (chunk_segment isn ds) xs) (snd ?acc) r'" "got_chunks isn ds (insert i A \<union> set xs) r'"
    by auto
  from accepts_Cons [OF ok r'(1)] r'(2) show ?case
    by (intro exI [of _ r']) (simp add: chunk_segment_def [of isn ds i])
qed

lemma got_chunks_new: "got_chunks isn ds {} (reassembler_new isn)"
  unfolding got_chunks_def
  by (intro conjI exI [of _ 0])
    (auto simp: reassembler_new_def chunk_start_def seq_at_def holds_chunks_def)

lemma got_all_chunks: "got_chunks isn ds {..<length ds} r \<Longrightarrow> contiguous r = concat ds"
  by (auto simp: got_chunks_def)

lemma all_chunks:
  assumes "chunks_ok isn ds" "distinct order" "set order = {..<length ds}"
  shows "\<exists>r. accepts (map (chunk_segment isn ds) order) (reassembler_new isn) r \<and> contiguous r = concat ds"
  using accepts_chunks [OF assms(1) got_chunks_new assms(2)] assms(3) got_all_chunks by auto

text \<open>C31: reassembly is complete. Cut a stream of at most \<open>2^20\<close> bytes that does not wrap
  around into non-empty segments and deliver each of them once, in any order: the
  reassembler ends with the whole stream.\<close>

theorem reassembly_complete:
  assumes "chunks_ok isn ds" "distinct order" "set order = {..<length ds}"
  shows "contiguous (accept_all (map (chunk_segment isn ds) order) (reassembler_new isn)) = concat ds"
  using all_chunks [OF assms] accepts_all by auto

theorem reassembly_complete_witness:
  "contiguous (accept_all (map (chunk_segment 1000 [[0, 1], [2], [3, 4]]) [2, 1, 0]) (reassembler_new 1000))
    = [0, 1, 2, 3, 4]"
proof -
  have "chunks_ok 1000 [[0, 1], [2], [3, 4]]" "distinct [2, 1, 0 :: nat]"
    "set [2, 1, 0 :: nat] = {..<length [[0, 1], [2], [3, 4 :: u8]]}"
    by (simp add: chunks_ok_def, simp, auto)
  from reassembly_complete [OF this] show ?thesis by simp
qed

text \<open>Across the wrap-around of the sequence space segments are lost. The stream starts
  at \<open>2^32 - 2\<close>; its third byte has sequence number 0. Arriving before the first two, it
  compares as old, is dropped without an error, and is missing for good.\<close>

theorem wraparound_segment_lost:
  "accept_segment 0 [3, 4] (reassembler_new (- 2)) = (None, reassembler_new (- 2)) \<and>
   contiguous (accept_all [(0, [3, 4]), (- 2, [1, 2])] (reassembler_new (- 2))) = [1, 2]"
  by code_simp

text \<open>The overlap policy is \<open>longest wins\<close>: a later segment with the same sequence
  number replaces a buffered one exactly when it is longer.\<close>

lemma overlap_longest_wins:
  assumes "next_seq r < seq" "hm_get (ooo r) seq = Some old"
    and "length (contiguous r) + length data \<le> max_buffer r"
  shows "hm_get (ooo (snd (accept_segment seq data r))) seq =
    Some (if length old < length data then data else old)"
  using assms by (auto simp: accept_segment_def)

end
