(* ===== verification/Runner.thy ===== *)
theory Runner
  imports Efsm Nfdl_Compile Reassembly
begin

text \<open>
  The runner (crates/nfdl-runtime/src/runner.rs): canonical flow keys, the choice of the root
  message and of the messages it needs, running a protocol on a datagram, feeding its state
  machines and the layered \<open>bind\<close> dispatch. The entry points are modelled from the parsed
  protocol on. A result is \<open>None\<close> for a panic, \<open>Some (Inl e)\<close> for an \<open>Err\<close>,
  \<open>Some (Inr x)\<close> for an \<open>Ok\<close>.
\<close>

subsection \<open>Errors (error.rs)\<close>

datatype runtime_error =
    RtParse string
  | RtConstraint string
  | RtMalformed string
  | RtNeedMoreBytes
  | RtLimitExceeded string
  | RtWithLocation string nat

fun runtime_error_of :: "bytecode_error \<Rightarrow> runtime_error" where
  "runtime_error_of (Constraint s) = RtConstraint s"
| "runtime_error_of (LimitExceeded s) = RtLimitExceeded s"

subsection \<open>Flow keys\<close>

text \<open>\<open>Vec<u8>\<close> is ordered lexicographically.\<close>

fun bytes_less :: "u8 list \<Rightarrow> u8 list \<Rightarrow> bool" where
  "bytes_less xs [] = False"
| "bytes_less [] (y # ys) = True"
| "bytes_less (x # xs) (y # ys) = (x < y \<or> x = y \<and> bytes_less xs ys)"

definition eval_endpoint :: "bool \<Rightarrow> expr \<Rightarrow> (string, u64) hmap \<Rightarrow> u8 list option" where
  "eval_endpoint chk e ctx =
     (case e of
        Tuple elems \<Rightarrow>
          map_option (concat \<circ> map u64_to_be_bytes) (those (map (\<lambda>el. eval_expr chk el ctx) elems))
      | other \<Rightarrow> map_option u64_to_be_bytes (eval_expr chk other ctx))"

text \<open>The first 16 bytes of the two endpoints, zero-padded.\<close>

definition key_bytes :: "u8 list \<Rightarrow> u8 list" where
  "key_bytes bs = take 16 (bs @ replicate 16 0)"

definition bidir_tuple_key :: "u8 list \<Rightarrow> u8 list \<Rightarrow> flow_key" where
  "bidir_tuple_key a0 b0 =
     (let (a, b) = (if bytes_less b0 a0 then (b0, a0) else (a0, b0))
      in \<lparr>key_data = key_bytes (a @ b)\<rparr>)"

definition bidir_key :: "u64 \<Rightarrow> u64 \<Rightarrow> flow_key" where
  "bidir_key av bv =
     (let (lo, hi) = (if av \<le> bv then (av, bv) else (bv, av))
      in \<lparr>key_data = u64_to_be_bytes lo @ u64_to_be_bytes hi\<rparr>)"

definition compute_flow_key :: "bool \<Rightarrow> expr option \<Rightarrow> (string, u64) hmap \<Rightarrow> flow_key option" where
  "compute_flow_key chk key_expr ctx =
     (case key_expr of
        Some (Call name [x, y]) \<Rightarrow>
          if name = ''bidir_tuple''
          then do { a \<leftarrow> eval_endpoint chk x ctx; b \<leftarrow> eval_endpoint chk y ctx;
                    Some (bidir_tuple_key a b) }
          else if name = ''bidir''
          then do { av \<leftarrow> eval_expr chk x ctx; bv \<leftarrow> eval_expr chk y ctx; Some (bidir_key av bv) }
          else Some \<lparr>key_data = replicate 16 0\<rparr>
      | _ \<Rightarrow> Some \<lparr>key_data = replicate 16 0\<rparr>)"

subsection \<open>The root message and the messages it needs\<close>

text \<open>The \<open>HashSet\<close> of referenced names, filled by insertion.\<close>

definition insert_field_refs :: "field list \<Rightarrow> string list \<Rightarrow> string list" where
  "insert_field_refs fs out =
     fold (\<lambda>f out. case f_ty f of MessageRef r \<Rightarrow> List.insert r out | _ \<Rightarrow> out) fs out"

fun collect_match_refs_name :: "match \<Rightarrow> string list \<Rightarrow> string list"
  and collect_arm_refs_name :: "match_arm \<Rightarrow> string list \<Rightarrow> string list"
where
  "collect_match_refs_name (Match tag arms ord) out = fold collect_arm_refs_name arms out"
| "collect_arm_refs_name (MatchArm c fs ls ps vs ms) out =
     fold collect_match_refs_name ms
       (fold (\<lambda>lp. insert_field_refs (p_body lp)) ps (insert_field_refs fs out))"

definition referenced_names :: "protocol \<Rightarrow> string list" where
  "referenced_names proto =
     fold (\<lambda>m out. fold collect_match_refs_name (msg_matches m)
         (fold (\<lambda>lp. insert_field_refs (p_body lp)) (msg_loops m) (insert_field_refs (msg_fields m) out)))
       (pr_messages proto) []"

definition root_message_name :: "protocol \<Rightarrow> string" where
  "root_message_name proto =
     (case find (\<lambda>m. msg_name m \<notin> set (referenced_names proto)) (pr_messages proto) of
        Some m \<Rightarrow> msg_name m
      | None \<Rightarrow> (case pr_messages proto of m # _ \<Rightarrow> msg_name m | [] \<Rightarrow> []))"

text \<open>\<open>to_visit.push\<close> for every reference of a body; the top of the stack is the head.\<close>

definition push_field_refs :: "field list \<Rightarrow> string list \<Rightarrow> string list" where
  "push_field_refs fs to_visit =
     fold (\<lambda>f stk. case f_ty f of MessageRef r \<Rightarrow> r # stk | _ \<Rightarrow> stk) fs to_visit"

fun visit_match :: "match \<Rightarrow> string list \<Rightarrow> string list"
  and visit_arm :: "match_arm \<Rightarrow> string list \<Rightarrow> string list"
where
  "visit_match (Match tag arms ord) to_visit = fold visit_arm arms to_visit"
| "visit_arm (MatchArm c fs ls ps vs ms) to_visit =
     fold visit_match ms
       (fold (\<lambda>lp. push_field_refs (p_body lp)) ps (push_field_refs fs to_visit))"

definition push_msg_refs :: "message \<Rightarrow> string list \<Rightarrow> string list" where
  "push_msg_refs m to_visit =
     fold visit_match (msg_matches m)
       (fold (\<lambda>lp. push_field_refs (p_body lp)) (msg_loops m) (push_field_refs (msg_fields m) to_visit))"

definition find_message :: "message list \<Rightarrow> string \<Rightarrow> message option" where
  "find_message msgs name = find (\<lambda>m. msg_name m = name) msgs"

lemma find_message_Some: "find_message msgs name = Some m \<Longrightarrow> m \<in> set msgs \<and> msg_name m = name"
  by (auto simp: find_message_def find_Some_iff)

text \<open>The \<open>while let Some(name) = to_visit.pop()\<close> loop.\<close>

definition unvisited :: "message list \<Rightarrow> string list \<Rightarrow> nat" where
  "unvisited msgs visited = card (msg_name ` set msgs - set visited)"

lemma unvisited_declared:
  assumes "find_message msgs name = Some m" "name \<notin> set visited"
  shows "unvisited msgs (name # visited) < unvisited msgs visited"
proof -
  have "name \<in> msg_name ` set msgs - set visited" using find_message_Some [OF assms(1)] assms(2) by auto
  then show ?thesis unfolding unvisited_def by (intro psubset_card_mono) auto
qed

lemma unvisited_undeclared: "unvisited msgs (name # visited) \<le> unvisited msgs visited"
  unfolding unvisited_def by (intro card_mono) auto

function collect_loop :: "message list \<Rightarrow> string list \<Rightarrow> string list \<Rightarrow> message list \<Rightarrow> message list" where
  "collect_loop msgs [] visited needed = needed"
| "collect_loop msgs (name # to_visit) visited needed =
     (if name \<in> set visited then collect_loop msgs to_visit visited needed
      else case find_message msgs name of
             None \<Rightarrow> collect_loop msgs to_visit (name # visited) needed
           | Some m \<Rightarrow>
               collect_loop msgs (push_msg_refs m to_visit) (name # visited) (needed @ [m]))"
  by pat_completeness auto
termination
proof (relation "(\<lambda>(msgs, to_visit, visited, needed). unvisited msgs visited) <*mlex*>
    measure (\<lambda>(msgs, to_visit, visited, needed). length to_visit)", goal_cases)
  case 1
  then show ?case by (intro wf_mlex wf_measure)
next
  case (2 msgs name to_visit visited needed)
  then show ?case by (intro mlex_leq) auto
next
  case (3 msgs name to_visit visited needed)
  then show ?case by (intro mlex_leq) (auto simp: unvisited_undeclared)
next
  case (4 msgs name to_visit visited needed m)
  then show ?case by (intro mlex_less) (auto simp: unvisited_declared)
qed

definition collect_needed_messages :: "protocol \<Rightarrow> string \<Rightarrow> message list" where
  "collect_needed_messages proto root_name = collect_loop (pr_messages proto) [root_name] [] []"

subsection \<open>Running a protocol\<close>

text \<open>\<open>vm.run(&program)?\<close>. A datagram run never yields \<open>NeedMoreBytes\<close>.\<close>

definition run_program ::
    "bool \<Rightarrow> bytecode_program \<Rightarrow> vm \<Rightarrow> (runtime_error + vm) option" where
  "run_program chk program v =
     (case run chk program v of
        (w, Complete) \<Rightarrow> Some (Inr w)
      | (w, Failed e) \<Rightarrow> Some (Inl (runtime_error_of e))
      | (w, NeedMoreBytes c) \<Rightarrow> Some (Inl RtNeedMoreBytes)
      | (w, Panicked) \<Rightarrow> None)"

text \<open>The slots the VM wrote, by field name, and the final cursor.\<close>

definition touched_context :: "(string, nat) hmap \<Rightarrow> vm \<Rightarrow> (string, u64) hmap" where
  "touched_context field_map v =
     map (\<lambda>(name, s). (name, get_slot v s)) (filter (\<lambda>(name, s). is_slot_touched v s) field_map)"

definition run_context :: "(string, nat) hmap \<Rightarrow> vm \<Rightarrow> (string, u64) hmap" where
  "run_context field_map v =
     hm_put offset_var (of_nat (current_offset v)) (touched_context field_map v)"

definition flow_key_expr :: "protocol \<Rightarrow> expr option" where
  "flow_key_expr proto = (case pr_state_machines proto of [] \<Rightarrow> None | sm # _ \<Rightarrow> sm_key sm)"

text \<open>A fresh engine, the protocol's machines, one message.\<close>

definition feed_fresh ::
    "bool \<Rightarrow> (machine_map \<Rightarrow> machine_map) \<Rightarrow> protocol \<Rightarrow> flow_key \<Rightarrow> string \<Rightarrow> (string, u64) hmap
      \<Rightarrow> (string \<times> event list \<times> fsm_engine) option" where
  "feed_fresh chk ord proto key root_msg ctx =
     feed chk key root_msg ctx (load_from_ast ord (pr_state_machines proto) (engine_new 1000))"

definition merge_variables :: "fsm_engine \<Rightarrow> flow_key \<Rightarrow> (string, u64) hmap \<Rightarrow> (string, u64) hmap" where
  "merge_variables fsm key ctx =
     (case hm_get (fe_variables fsm) key of None \<Rightarrow> ctx | Some vars \<Rightarrow> hm_put_all vars ctx)"

definition run_layer ::
    "bool \<Rightarrow> protocol \<Rightarrow> string \<Rightarrow> u8 list \<Rightarrow> limits
      \<Rightarrow> (runtime_error + (string, u64) hmap \<times> event list) option" where
  "run_layer chk proto layer data limits =
     (let needed = collect_needed_messages proto layer in
      if needed = [] then Some (Inr ([], []))
      else
        do { (program, field_map) \<leftarrow> protocol_to_bytecode_with_map chk (proto\<lparr>pr_messages := needed\<rparr>);
             r \<leftarrow> run_program chk program (load_input data (vm_with_limits (slot_count program) limits));
             Some (map_sum id (\<lambda>v. (run_context field_map v, [Message layer (length data)])) r) })"

text \<open>\<open>&data[start..]\<close> panics when \<open>start\<close> is past the end.\<close>

definition slice_from :: "u8 list \<Rightarrow> nat \<Rightarrow> u8 list option" where
  "slice_from data start = (if start \<le> length data then Some (drop start data) else None)"

definition payload_start :: "vm \<Rightarrow> string \<Rightarrow> nat option" where
  "payload_start v field = map_of (rest_starts v) field"

definition dispatch_bind ::
    "bool \<Rightarrow> protocol \<Rightarrow> string \<Rightarrow> u8 list \<Rightarrow> limits \<Rightarrow> vm \<Rightarrow> bind
      \<Rightarrow> (string, u64) hmap \<times> event list \<Rightarrow> ((string, u64) hmap \<times> event list) option" where
  "dispatch_bind chk proto root_msg data limits v b st =
     (let (ctx, evs) = st in
      if b_source b \<noteq> root_msg then Some st
      else
        do { w \<leftarrow> eval_expr chk (b_when b) ctx;
             if w = 0 \<or> \<not> list_ex (\<lambda>m. msg_name m = b_layer b) (pr_messages proto) then Some st
             else (case payload_start v (b_field b) of
                     None \<Rightarrow> Some st
                   | Some start \<Rightarrow>
                       do { tail \<leftarrow> slice_from data start;
                            r \<leftarrow> run_layer chk proto (b_layer b) tail limits;
                            Some (case r of
                                    Inl _ \<Rightarrow> st
                                  | Inr (layer_ctx, layer_evs) \<Rightarrow>
                                      (hm_put_all (map (\<lambda>(k, x). (dotted (b_layer b) k, x)) layer_ctx) ctx,
                                       evs @ layer_evs)) }) })"

fun dispatch_binds ::
    "bool \<Rightarrow> protocol \<Rightarrow> string \<Rightarrow> u8 list \<Rightarrow> limits \<Rightarrow> vm \<Rightarrow> bind list
      \<Rightarrow> (string, u64) hmap \<times> event list \<Rightarrow> ((string, u64) hmap \<times> event list) option" where
  "dispatch_binds chk proto root_msg data limits v [] st = Some st"
| "dispatch_binds chk proto root_msg data limits v (b # bs) st =
     do { st1 \<leftarrow> dispatch_bind chk proto root_msg data limits v b st;
          dispatch_binds chk proto root_msg data limits v bs st1 }"

text \<open>\<open>parse_and_run_with_data_and_limits\<close>, from the parsed protocol on.\<close>

definition needed_protocol :: "protocol \<Rightarrow> string \<Rightarrow> protocol" where
  "needed_protocol proto root_msg =
     (let needed = collect_needed_messages proto root_msg
      in proto\<lparr>pr_messages := (if needed = [] then pr_messages proto else needed)\<rparr>)"

definition run_on_data ::
    "bool \<Rightarrow> (machine_map \<Rightarrow> machine_map) \<Rightarrow> protocol \<Rightarrow> u8 list \<Rightarrow> limits
      \<Rightarrow> (runtime_error + (string, u64) hmap \<times> string \<times> event list) option" where
  "run_on_data chk ord proto data limits =
     (let root_msg = root_message_name proto in
      do { (program, field_map) \<leftarrow> protocol_to_bytecode_with_map chk (needed_protocol proto root_msg);
           r \<leftarrow> run_program chk program (load_input data (vm_with_limits (slot_count program) limits));
           case r of
             Inl e \<Rightarrow> Some (Inl e)
           | Inr v \<Rightarrow>
               let ctx = run_context field_map v in
               if 1024 < length ctx
               then Some (Inl (RtLimitExceeded
                      (''context too large: '' @ dec_string (length ctx) @ '' entries'')))
               else
                 do { key \<leftarrow> compute_flow_key chk (flow_key_expr proto) ctx;
                      (final_state, fsm_evs, fsm) \<leftarrow> feed_fresh chk ord proto key root_msg ctx;
                      (ctx2, evs) \<leftarrow> dispatch_binds chk proto root_msg data limits v (pr_binds proto)
                        (merge_variables fsm key ctx, Message root_msg (length data) # fsm_evs);
                      Some (Inr (ctx2, final_state, evs)) } })"

text \<open>\<open>parse_and_run_with_data\<close>, from the parsed protocol on.\<close>

definition run_on_datagram ::
    "bool \<Rightarrow> (machine_map \<Rightarrow> machine_map) \<Rightarrow> protocol \<Rightarrow> u8 list
      \<Rightarrow> (runtime_error + (string, u64) hmap \<times> string \<times> event list) option" where
  "run_on_datagram chk ord proto data = run_on_data chk ord proto data limits_default"

text \<open>\<open>parse_and_run_stream\<close>: reassemble the segments, then run on the contiguous bytes.\<close>

fun reassembly_error_debug :: "reassembly_error \<Rightarrow> string" where
  "reassembly_error_debug (NeedMore n) = ''NeedMoreBytes('' @ dec_string n @ '')''"
| "reassembly_error_debug OverlapConflict = ''OverlapConflict''"
| "reassembly_error_debug ReassemblyLimit = ''LimitExceeded''"

fun reassemble :: "(u32 \<times> u8 list) list \<Rightarrow> reassembler \<Rightarrow> runtime_error + reassembler" where
  "reassemble [] r = Inr r"
| "reassemble ((s, data) # segs) r =
     (case accept_segment s data r of
        (None, r') \<Rightarrow> reassemble segs r'
      | (Some e, _) \<Rightarrow> Inl (RtLimitExceeded (''reassembly: '' @ reassembly_error_debug e)))"

definition run_on_segments ::
    "bool \<Rightarrow> (machine_map \<Rightarrow> machine_map) \<Rightarrow> protocol \<Rightarrow> u32 \<Rightarrow> (u32 \<times> u8 list) list
      \<Rightarrow> (runtime_error + (string, u64) hmap \<times> string \<times> event list) option" where
  "run_on_segments chk ord proto initial_seq segs =
     (case reassemble segs (reassembler_new initial_seq) of
        Inl e \<Rightarrow> Some (Inl e)
      | Inr r \<Rightarrow> run_on_datagram chk ord proto (contiguous r))"

subsection \<open>The demonstration run\<close>

definition sample_radius_access_request :: "u8 list" where
  "sample_radius_access_request =
     [1, 42, 0, 22] @
     [0x11, 0x22, 0x33, 0x44, 0x55, 0x66, 0x77, 0x88, 0x99, 0xaa, 0xbb, 0xcc, 0xdd, 0xee, 0xff, 0x00] @
     [0, 2]"

definition fsm_diagnostic :: "string \<Rightarrow> (string, u64) hmap \<Rightarrow> event" where
  "fsm_diagnostic new_state ctx =
     Diagnostic ''fsm'' (''EFSM after bytecode+loops: '' @ new_state @ '' (code='' @
       dec_string (unat (var_or_zero ctx ''code'')) @ '')'')"

definition run_protocol :: "bool \<Rightarrow> (machine_map \<Rightarrow> machine_map) \<Rightarrow> protocol \<Rightarrow> (runtime_error + event list) option" where
  "run_protocol chk ord proto =
     do { (program, field_map) \<leftarrow> protocol_to_bytecode_with_map chk proto;
          r \<leftarrow> run_program chk program
                 (load_input sample_radius_access_request
                   (vm_with_limits (slot_count program)
                      \<lparr>max_instructions = 100000, max_loop_iterations = 10000\<rparr>));
          case r of
            Inl e \<Rightarrow> Some (Inl e)
          | Inr v \<Rightarrow>
              let msg_evs = map (\<lambda>m. Message (msg_name m) (length sample_radius_access_request))
                              (pr_messages proto) in
              if pr_state_machines proto = [] then Some (Inr msg_evs)
              else
                let ctx = touched_context field_map v in
                do { key \<leftarrow> compute_flow_key chk (flow_key_expr proto) ctx;
                     let ctx1 = (if hm_contains ctx ''code'' then ctx else hm_put ''code'' 1 ctx);
                         ctx2 = hm_put offset_var (of_nat (current_offset v)) ctx1 in
                     do { (new_state, evs, fsm) \<leftarrow> feed_fresh chk ord proto key (root_message_name proto) ctx2;
                          Some (Inr (msg_evs @ evs @ [fsm_diagnostic new_state ctx2])) } } }"

end
