(* ===== verification/Continuation.thy ===== *)
theory Continuation
  imports Runner Bytecode_Stream
begin

text \<open>
  Resumable parses (crates/nfdl-runtime/src/continuation.rs): the continuation handle, one
  step of a stream parse, \<open>resume\<close> and \<open>finalize\<close>, from the parsed protocol on.
\<close>

record stream_continuation =
  sc_vm_cont :: vm_continuation
  sc_program :: bytecode_program
  sc_field_map :: "(string, nat) hmap"
  sc_proto :: protocol
  sc_limits :: limits
  sc_root_msg :: string

definition sc_bytes_needed :: "stream_continuation \<Rightarrow> nat" where
  "sc_bytes_needed c = bytes_needed (sc_vm_cont c)"

definition sc_consumed :: "stream_continuation \<Rightarrow> nat" where
  "sc_consumed c = consumed (sc_vm_cont c)"

datatype stream_parse_step =
    StepDone protocol "(string, u64) hmap" string "event list"
  | StepNeedMore nat stream_continuation

fun into_complete ::
    "stream_parse_step \<Rightarrow> runtime_error + protocol \<times> (string, u64) hmap \<times> string \<times> event list" where
  "into_complete (StepDone proto ctx st evs) = Inr (proto, ctx, st, evs)"
| "into_complete (StepNeedMore n c) = Inl RtNeedMoreBytes"

definition finalize ::
    "bool \<Rightarrow> (machine_map \<Rightarrow> machine_map) \<Rightarrow> protocol \<Rightarrow> (string, nat) hmap \<Rightarrow> string \<Rightarrow> vm \<Rightarrow> stream_parse_step option" where
  "finalize chk ord proto field_map root_msg v =
     (let ctx = run_context field_map v in
      do { key \<leftarrow> compute_flow_key chk (flow_key_expr proto) ctx;
           (final_state, fsm_evs, fsm) \<leftarrow> feed_fresh chk ord proto key root_msg ctx;
           Some (StepDone proto (merge_variables fsm key ctx) final_state
                  (Message root_msg (input_len v) # fsm_evs)) })"

text \<open>The common end of \<open>parse_stream_start\<close> and \<open>resume\<close>: what the VM's outcome becomes.\<close>

definition stream_step ::
    "bool \<Rightarrow> (machine_map \<Rightarrow> machine_map) \<Rightarrow> bytecode_program \<Rightarrow> (string, nat) hmap \<Rightarrow> protocol \<Rightarrow> limits \<Rightarrow> string
      \<Rightarrow> vm \<times> vm_outcome \<Rightarrow> (runtime_error + stream_parse_step) option" where
  "stream_step chk ord program field_map proto limits root_msg r =
     (case r of
        (v, Complete) \<Rightarrow> map_option Inr (finalize chk ord proto field_map root_msg v)
      | (v, NeedMoreBytes c) \<Rightarrow>
          Some (Inr (StepNeedMore (bytes_needed c)
            \<lparr>sc_vm_cont = c, sc_program = program, sc_field_map = field_map, sc_proto = proto,
             sc_limits = limits, sc_root_msg = root_msg\<rparr>))
      | (v, Failed e) \<Rightarrow> Some (Inl (runtime_error_of e))
      | (v, Panicked) \<Rightarrow> None)"

definition parse_stream_start ::
    "bool \<Rightarrow> (machine_map \<Rightarrow> machine_map) \<Rightarrow> protocol \<Rightarrow> u8 list \<Rightarrow> limits \<Rightarrow> (runtime_error + stream_parse_step) option" where
  "parse_stream_start chk ord proto data limits =
     (let root_msg = root_message_name proto in
      do { (program, field_map) \<leftarrow> protocol_to_bytecode_with_map chk proto;
           stream_step chk ord program field_map proto limits root_msg
             (run_stream chk program (load_input data (vm_with_limits (slot_count program) limits))) })"

definition resume_parse ::
    "bool \<Rightarrow> (machine_map \<Rightarrow> machine_map) \<Rightarrow> stream_continuation \<Rightarrow> u8 list \<Rightarrow> (runtime_error + stream_parse_step) option" where
  "resume_parse chk ord c extra =
     stream_step chk ord (sc_program c) (sc_field_map c) (sc_proto c) (sc_limits c) (sc_root_msg c)
       (resume chk (sc_vm_cont c) (sc_program c) extra)"

subsection \<open>A caller that feeds a stream in chunks\<close>

text \<open>
  The chunks are fed as long as the parse asks for more; a chunk left over has no
  continuation to be fed to (\<open>None\<close>).
\<close>

fun parse_chunks ::
    "bool \<Rightarrow> (machine_map \<Rightarrow> machine_map) \<Rightarrow> (runtime_error + stream_parse_step) option \<Rightarrow> u8 list list
      \<Rightarrow> (runtime_error + stream_parse_step) option" where
  "parse_chunks chk ord st [] = st"
| "parse_chunks chk ord (Some (Inr (StepNeedMore n c))) (d # ds) = parse_chunks chk ord (resume_parse chk ord c d) ds"
| "parse_chunks chk ord st (d # ds) = None"

lemma stream_step_Done:
  assumes "stream_step chk ord p fm proto l root (v, out) = Some (Inr (StepDone pr ctx st evs))"
  shows "out = Complete" "finalize chk ord proto fm root v = Some (StepDone pr ctx st evs)"
  using assms by (auto simp: stream_step_def split: vm_outcome.splits)

lemma finalize_Done: "finalize chk ord proto fm root v \<noteq> Some (StepNeedMore n c)"
  by (auto simp: finalize_def Let_def split: Option.bind_splits)

lemma stream_step_NeedMore:
  assumes "stream_step chk ord p fm proto l root (v, out) = Some (Inr (StepNeedMore n c))"
  shows "out = NeedMoreBytes (sc_vm_cont c)"
    "resume_parse chk ord c d = stream_step chk ord p fm proto l root (resume chk (sc_vm_cont c) p d)"
proof -
  from assms obtain k where k: "out = NeedMoreBytes k" "sc_vm_cont c = k" "sc_program c = p"
    "sc_field_map c = fm" "sc_proto c = proto" "sc_limits c = l" "sc_root_msg c = root"
    by (auto simp: stream_step_def finalize_Done split: vm_outcome.splits)
  then show "out = NeedMoreBytes (sc_vm_cont c)" by simp
  show "resume_parse chk ord c d = stream_step chk ord p fm proto l root (resume chk (sc_vm_cont c) p d)"
    by (simp only: resume_parse_def k(2-))
qed

lemma suspended_state:
  assumes "interpret_vm True prog True ip v = (w, NeedMoreBytes c)"
  shows "restore c = w"
  using interpret_machine [OF assms] by auto

text \<open>A chunked parse that ends in \<open>StepDone\<close> is a chunked run of the VM that completes,
  having appended every chunk.\<close>

lemma parse_chunks_Done:
  assumes "parse_chunks True ord (stream_step True ord p fm proto l root (interpret_vm True (instructions p) True ip v)) ds
    = Some (Inr (StepDone pr ctx st evs))"
  shows "\<exists>w. feed_chunks True p (interpret_vm True (instructions p) True ip v) ds = (w, Complete)
    \<and> input w = input v @ concat ds \<and> finalize True ord proto fm root w = Some (StepDone pr ctx st evs)"
  using assms
proof (induction ds arbitrary: ip v)
  case (Nil ip v)
  obtain u out where r: "interpret_vm True (instructions p) True ip v = (u, out)" by force
  with Nil stream_step_Done [of True ord p fm proto l root u out] interpret_vm_frame [OF r]
  show ?case by simp
next
  case (Cons d ds ip v)
  obtain u out where r: "interpret_vm True (instructions p) True ip v = (u, out)" by force
  then obtain n c where c: "stream_step True ord p fm proto l root (u, out) = Some (Inr (StepNeedMore n c))"
    using Cons.prems
    by (cases "(True, ord, stream_step True ord p fm proto l root (u, out), d # ds)" rule: parse_chunks.cases) auto
  note out = stream_step_NeedMore [OF c]
  have u: "restore (sc_vm_cont c) = u" using suspended_state r out(1) by blast
  have res: "resume True (sc_vm_cont c) p d =
      interpret_vm True (instructions p) True (k_ip (sc_vm_cont c)) (append_input d u)"
    by (simp add: resume_def u)
  have "parse_chunks True ord (stream_step True ord p fm proto l root (resume True (sc_vm_cont c) p d)) ds
      = Some (Inr (StepDone pr ctx st evs))"
    using Cons.prems r c out(2) by simp
  from Cons.IH [OF this [unfolded res]] show ?case
    using r out(1) res interpret_vm_frame [OF r] by auto
qed

lemma finalize_same_parse:
  "same_parse u w \<Longrightarrow> input u = input w \<Longrightarrow>
   finalize chk ord proto fm root u = finalize chk ord proto fm root w"
proof -
  assume same: "same_parse u w" and i: "input u = input w"
  have "run_context fm u = run_context fm w"
    using same by (simp only: run_context_def touched_context_def same_parse_def get_slot_def
        is_slot_touched_def current_offset_def)
  with i show ?thesis by (simp only: finalize_def input_len_def)
qed

text \<open>C32: resumable parsing, in the dev profile. If a protocol whose program is \<open>stream_safe\<close> (it
  has no field that takes the rest of the input) is parsed from a stream in any
  fragmentation and the last chunk completes the parse, then one parse of the whole input
  completes with the same context, final state and events, when both visit the state
  machines in the same order. A rest field takes what has arrived, so for it the claim is
  false and the hypothesis is needed.\<close>

theorem stream_parse_equivalence:
  assumes "protocol_to_bytecode_with_map True proto = Some (p, fm)" "stream_safe (instructions p)"
    and "parse_chunks True ord (parse_stream_start True ord proto d0 l) ds = Some (Inr (StepDone pr ctx st evs))"
  shows "parse_stream_start True ord proto (concat (d0 # ds)) l = Some (Inr (StepDone pr ctx st evs))"
proof -
  let ?v = "vm_with_limits (slot_count p) l"
  let ?w = "reset_counters (load_input d0 ?v)"
  have start: "parse_stream_start True ord proto d l = stream_step True ord p fm proto l (root_message_name proto)
      (run_stream True p (load_input d ?v))" for d
    using assms(1) by (simp only: parse_stream_start_def Let_def Option.bind.bind_lunit prod.case)
  have i: "input ?w = d0" by (simp add: reset_counters_def load_input_def)
  from parse_chunks_Done [OF assms(3) [unfolded start run_stream_def]] obtain w where
    w: "feed_chunks True p (run_stream True p (load_input d0 ?v)) ds = (w, Complete)"
      "input w = concat (d0 # ds)"
      "finalize True ord proto fm (root_message_name proto) w = Some (StepDone pr ctx st evs)"
    unfolding run_stream_def i by auto
  from chunks_whole [OF assms(2) w(1)] obtain u where
    u: "run_stream True p (load_input (concat (d0 # ds)) ?v) = (u, Complete)" "same_parse u w"
    by auto
  from interpret_vm_frame [OF u(1) [unfolded run_stream_def]] w(2) have "input u = input w"
    by (simp add: reset_counters_def load_input_def)
  from finalize_same_parse [OF u(2) this] w(3) show ?thesis
    by (simp only: start u(1)) (simp add: stream_step_def)
qed

text \<open>A header \<open>a: u8, b: u16\<close> in three chunks.\<close>

definition header_protocol :: protocol where
  "header_protocol = protocol_default\<lparr>pr_messages :=
     [\<lparr>msg_name = ''Hdr'', msg_doc = None,
       msg_fields = [plain_field ''a'' U8 0, plain_field ''b'' U16 1],
       msg_lets = [], msg_loops = [], msg_validates = [], msg_matches = []\<rparr>]\<rparr>"

definition header_program :: "bytecode_program \<times> (string, nat) hmap" where
  "header_program = the (protocol_to_bytecode_with_map True header_protocol)"

definition header_context :: "(string, u64) hmap" where
  "header_context = [(''a'', 7), (''b'', 258), (offset_var, 3)]"

theorem stream_parse_equivalence_witness:
  "parse_stream_start True (\<lambda>ms. ms) header_protocol [7, 1, 2] limits_default
     = Some (Inr (StepDone header_protocol header_context ''IDLE'' [Message ''Hdr'' 3]))"
proof -
  have c: "protocol_to_bytecode_with_map True header_protocol = Some (fst header_program, snd header_program)"
    by code_simp
  have s: "stream_safe (instructions (fst header_program))" by code_simp
  have r: "parse_chunks True (\<lambda>ms. ms) (parse_stream_start True (\<lambda>ms. ms) header_protocol [7] limits_default) [[1], [], [2]]
      = Some (Inr (StepDone header_protocol header_context ''IDLE'' [Message ''Hdr'' 3]))"
    by code_simp
  show ?thesis using stream_parse_equivalence [OF c s r] by simp
qed

end
