(* ===== verification/Runner_Props.thy ===== *)
theory Runner_Props
  imports Runner
begin

text \<open>
  What the runner guarantees: flow keys do not depend on the direction of a packet, the
  runner and the compiler agree on the root message, exactly the reachable messages are
  compiled, segments may arrive in any order. And where it fails: the key of two
  16-byte endpoints drops the second one, a bound payload past the end of the data panics.
\<close>

definition pair_protocol :: protocol where
  "pair_protocol = protocol_default\<lparr>pr_messages :=
     [\<lparr>msg_name = ''Pair'', msg_doc = None,
       msg_fields = [plain_field ''a'' U8 0, plain_field ''b'' U16 1],
       msg_lets = [], msg_loops = [], msg_validates = [], msg_matches = []\<rparr>]\<rparr>"

subsection \<open>Flow keys\<close>

lemma bytes_less_antisym: "\<not> bytes_less xs ys \<Longrightarrow> \<not> bytes_less ys xs \<Longrightarrow> xs = ys"
  by (induction xs ys rule: bytes_less.induct) (auto elim: bytes_less.elims split: if_splits)

lemma bytes_less_asym: "bytes_less xs ys \<Longrightarrow> \<not> bytes_less ys xs"
  by (induction xs ys rule: bytes_less.induct) auto

lemma bidir_tuple_key_commute: "bidir_tuple_key a b = bidir_tuple_key b a"
  using bytes_less_antisym [of a b] bytes_less_asym [of a b]
  by (auto simp: bidir_tuple_key_def Let_def)

lemma bidir_key_commute: "bidir_key a b = bidir_key b a"
  by (auto simp: bidir_key_def Let_def)

text \<open>Canonical flow keys. If two parsed packets have their endpoints swapped, both
  \<open>bidir_tuple(x, y)\<close> and \<open>bidir(x, y)\<close> give them the same flow key.\<close>

theorem flow_key_direction:
  assumes "eval_endpoint chk x ctx = eval_endpoint chk y ctx'" "eval_endpoint chk y ctx = eval_endpoint chk x ctx'"
    and "eval_expr chk x ctx = eval_expr chk y ctx'" "eval_expr chk y ctx = eval_expr chk x ctx'"
    and "f \<in> {''bidir_tuple'', ''bidir''}"
  shows "compute_flow_key chk (Some (Call f [x, y])) ctx = compute_flow_key chk (Some (Call f [x, y])) ctx'"
  using assms(5)
  by (auto simp: compute_flow_key_def assms(1-4) bidir_tuple_key_commute bidir_key_commute
      split: Option.bind_splits intro!: bidir_tuple_key_commute bidir_key_commute)

text \<open>Only the first 16 bytes of the sorted endpoints are kept, and an endpoint that is a
  pair has 16 bytes already. So the key \<open>bidir_tuple((ip, port), (ip, port))\<close>, which the
  specification prescribes for TCP, is the smaller endpoint alone: all the flows of a
  server whose endpoint is the smaller one share one key, one session and one state.\<close>

theorem second_endpoint_ignored:
  assumes "eval_endpoint chk (Tuple [p, q]) ctx = Some a" "eval_endpoint chk (Tuple [r, s]) ctx = Some b"
  shows "compute_flow_key chk (Some (Call ''bidir_tuple'' [Tuple [p, q], Tuple [r, s]])) ctx
    = Some \<lparr>key_data = (if bytes_less b a then b else a)\<rparr>"
proof -
  have "length a = 16" "length b = 16"
    using assms by (auto simp: eval_endpoint_def split: option.splits)
  then have "bidir_tuple_key a b = \<lparr>key_data = (if bytes_less b a then b else a)\<rparr>"
    by (simp add: bidir_tuple_key_def key_bytes_def)
  with assms show ?thesis by (simp add: compute_flow_key_def)
qed

definition tcp_key :: expr where
  "tcp_key = Call ''bidir_tuple''
     [Tuple [Ident ''src_ip'', Ident ''src_port''], Tuple [Ident ''dst_ip'', Ident ''dst_port'']]"

definition tcp_context :: "u64 \<Rightarrow> u64 \<Rightarrow> u64 \<Rightarrow> u64 \<Rightarrow> (string, u64) hmap" where
  "tcp_context a p b q = [(''src_ip'', a), (''src_port'', p), (''dst_ip'', b), (''dst_port'', q)]"

theorem flow_key_direction_witness:
  "compute_flow_key True (Some tcp_key) (tcp_context 1 80 2 1000)
   = compute_flow_key True (Some tcp_key) (tcp_context 2 1000 1 80)"
  unfolding tcp_key_def
  by (rule flow_key_direction) (code_simp, code_simp, simp_all)

text \<open>Two clients of the server \<open>1:80\<close>, two different flows, one key.\<close>

theorem second_endpoint_ignored_witness:
  "compute_flow_key True (Some tcp_key) (tcp_context 1 80 2 1000)
   = compute_flow_key True (Some tcp_key) (tcp_context 1 80 3 2000)"
proof -
  note key = second_endpoint_ignored [where chk = True and p = "Ident ''src_ip''" and q = "Ident ''src_port''"
      and r = "Ident ''dst_ip''" and s = "Ident ''dst_port''", folded tcp_key_def]
  have e: "eval_endpoint True (Tuple [Ident ''src_ip'', Ident ''src_port'']) (tcp_context 1 80 b q)
      = Some (u64_to_be_bytes 1 @ u64_to_be_bytes 80)" for b q
    by (simp add: eval_endpoint_def tcp_context_def var_or_zero_def hm_get_def offset_var_def)
  have f: "eval_endpoint True (Tuple [Ident ''dst_ip'', Ident ''dst_port'']) (tcp_context 1 80 b q)
      = Some (u64_to_be_bytes b @ u64_to_be_bytes q)" for b q
    by (simp add: eval_endpoint_def tcp_context_def var_or_zero_def hm_get_def offset_var_def)
  have "\<not> bytes_less (u64_to_be_bytes 2 @ u64_to_be_bytes 1000) (u64_to_be_bytes 1 @ u64_to_be_bytes 80)"
    "\<not> bytes_less (u64_to_be_bytes 3 @ u64_to_be_bytes 2000) (u64_to_be_bytes 1 @ u64_to_be_bytes 80)"
    by code_simp+
  then show ?thesis by (simp only: key [OF e f] if_False)
qed

subsection \<open>The root message\<close>

lemma insert_field_refs_set [simp]: "set (insert_field_refs fs out) = set out \<union> set (field_refs fs)"
  by (induction fs arbitrary: out)
    (auto simp: insert_field_refs_def field_refs_def split: nfdl_type.split)

text \<open>A loop that inserts what each element contributes.\<close>

lemma fold_union:
  assumes "\<And>x out. x \<in> set xs \<Longrightarrow> set (f x out) = set out \<union> g x"
  shows "set (fold f xs out) = set out \<union> (\<Union>x\<in>set xs. g x)"
  using assms by (induction xs arbitrary: out) auto

lemma match_refs_set:
  "set (collect_match_refs_name m out) = set out \<union> set (collect_match_refs m)"
  "set (collect_arm_refs_name a out) = set out \<union> set (collect_arm_refs a)"
proof (induction m and a arbitrary: out and out)
  case (Match tag arms ord)
  then show ?case by (simp add: fold_union [where g = "set \<circ> collect_arm_refs"])
next
  case (MatchArm c fs ls ps vs ms)
  then show ?case
    by (simp add: fold_union [where g = "set \<circ> collect_match_refs"]
        fold_union [where g = "set \<circ> field_refs \<circ> p_body"] Un_assoc)
qed

lemma referenced_names_set:
  "set (referenced_names proto) = set (concat (map collect_msg_refs (pr_messages proto)))"
  by (simp add: referenced_names_def collect_msg_refs_def match_refs_set Un_assoc
      fold_union [where g = "set \<circ> collect_match_refs"] fold_union [where g = "set \<circ> field_refs \<circ> p_body"]
      fold_union [where g = "\<lambda>m. set (field_refs (msg_fields m)) \<union> (\<Union>p\<in>set (msg_loops m). set (field_refs (p_body p)))
        \<union> (\<Union>x\<in>set (msg_matches m). set (collect_match_refs x))"])

lemma first_unreferenced_find:
  "(case find (\<lambda>m. msg_name m \<notin> set refs) ms of
      Some m \<Rightarrow> i \<le> first_unreferenced refs i ms \<and> ms ! (first_unreferenced refs i ms - i) = m
    | None \<Rightarrow> first_unreferenced refs i ms = 0)"
proof (induction ms arbitrary: i)
  case (Cons m ms)
  from Cons [of "Suc i"] show ?case
    by (auto simp: nth_Cons' Suc_diff_le split: option.splits)
qed simp

text \<open>The runner's root message is the message the compiler compiles: the two separate
  walks over fields, loops and match arms agree.\<close>

theorem root_names_agree:
  assumes "pr_messages proto \<noteq> []"
  shows "root_message_name proto = msg_name (pr_messages proto ! root_message_index proto)"
  using first_unreferenced_find [of "concat (map collect_msg_refs (pr_messages proto))" 0 "pr_messages proto"] assms
  by (auto simp: root_message_name_def root_message_index_def referenced_names_set
      split: option.splits list.split)

theorem root_names_agree_witness:
  "root_message_name pair_protocol = ''Pair''"
proof -
  have "pr_messages pair_protocol \<noteq> []" by (simp add: pair_protocol_def)
  from root_names_agree [OF this] show ?thesis by (simp add: pair_protocol_def root_message_index_def)
qed

subsection \<open>The messages that are compiled\<close>

inductive needs :: "message list \<Rightarrow> string \<Rightarrow> string \<Rightarrow> bool" for msgs root where
  needs_root: "needs msgs root root"
| needs_ref: "needs msgs root n \<Longrightarrow> find_message msgs n = Some m \<Longrightarrow> r \<in> set (collect_msg_refs m) \<Longrightarrow>
    needs msgs root r"

lemma push_field_refs_set [simp]: "set (push_field_refs fs stk) = set stk \<union> set (field_refs fs)"
  by (induction fs arbitrary: stk)
    (auto simp: push_field_refs_def field_refs_def split: nfdl_type.split)

lemma visit_match_set:
  "set (visit_match m stk) = set stk \<union> set (collect_match_refs m)"
  "set (visit_arm a stk) = set stk \<union> set (collect_arm_refs a)"
proof (induction m and a arbitrary: stk and stk)
  case (Match tag arms ord)
  then show ?case by (simp add: fold_union [where g = "set \<circ> collect_arm_refs"])
next
  case (MatchArm c fs ls ps vs ms)
  then show ?case
    by (simp add: fold_union [where g = "set \<circ> collect_match_refs"]
        fold_union [where g = "set \<circ> field_refs \<circ> p_body"] Un_assoc)
qed

lemma push_msg_refs_set: "set (push_msg_refs m stk) = set stk \<union> set (collect_msg_refs m)"
  by (simp add: push_msg_refs_def collect_msg_refs_def visit_match_set Un_assoc
      fold_union [where g = "set \<circ> collect_match_refs"] fold_union [where g = "set \<circ> field_refs \<circ> p_body"])

text \<open>The invariant of the walk: what is visited or stacked is needed, the visited names are
  closed up to the stack, and \<open>needed\<close> holds the declared visited messages, once each.\<close>

definition walk_inv :: "message list \<Rightarrow> string \<Rightarrow> string list \<Rightarrow> string list \<Rightarrow> message list \<Rightarrow> bool" where
  "walk_inv msgs root stk visited needed \<longleftrightarrow>
     (\<forall>n\<in>set stk \<union> set visited. needs msgs root n) \<and> root \<in> set stk \<union> set visited \<and>
     (\<forall>n\<in>set visited. \<forall>m. find_message msgs n = Some m \<longrightarrow> set (collect_msg_refs m) \<subseteq> set stk \<union> set visited) \<and>
     (\<forall>m. m \<in> set needed \<longleftrightarrow> (\<exists>n\<in>set visited. find_message msgs n = Some m)) \<and>
     distinct (map msg_name needed)"

lemma walk_skip: "walk_inv msgs root (n # stk) visited needed \<Longrightarrow> n \<in> set visited \<Longrightarrow>
    walk_inv msgs root stk visited needed"
  unfolding walk_inv_def by (intro conjI; auto)

lemma walk_undeclared: "walk_inv msgs root (n # stk) visited needed \<Longrightarrow> find_message msgs n = None \<Longrightarrow>
    walk_inv msgs root stk (n # visited) needed"
  unfolding walk_inv_def by (intro conjI; auto)

lemma walk_visit:
  assumes "walk_inv msgs root (n # stk) visited needed" "find_message msgs n = Some m" "n \<notin> set visited"
  shows "walk_inv msgs root (push_msg_refs m stk) (n # visited) (needed @ [m])"
proof -
  have "needs msgs root n" using assms(1) by (simp add: walk_inv_def)
  note needed = needs_ref [OF this assms(2)]
  have "msg_name m \<notin> msg_name ` set needed"
  proof
    assume "msg_name m \<in> msg_name ` set needed"
    then obtain n' m' where "n' \<in> set visited" "find_message msgs n' = Some m'" "msg_name m = msg_name m'"
      using assms(1) by (auto simp: walk_inv_def)
    with assms(2,3) show False by (auto dest!: find_message_Some)
  qed
  note fresh = this
  note inv = assms(1) [unfolded walk_inv_def]
  have closed: "set (collect_msg_refs m') \<subseteq> set (push_msg_refs m stk) \<union> set (n # visited)"
    if "n' \<in> set (n # visited)" "find_message msgs n' = Some m'" for n' m'
  proof (cases "n' = n")
    case True
    with that(2) assms(2) show ?thesis by (auto simp: push_msg_refs_set)
  next
    case False
    with that inv have "set (collect_msg_refs m') \<subseteq> set (n # stk) \<union> set visited" by simp
    then show ?thesis by (auto simp: push_msg_refs_set)
  qed
  have members: "x \<in> set (needed @ [m]) \<longleftrightarrow> (\<exists>n'\<in>set (n # visited). find_message msgs n' = Some x)" for x
    using inv assms(2) by auto
  have reached: "\<forall>n'\<in>set (push_msg_refs m stk) \<union> set (n # visited). needs msgs root n'"
    using inv needed by (auto simp: push_msg_refs_set)
  have "root \<in> set (push_msg_refs m stk) \<union> set (n # visited)" "distinct (map msg_name (needed @ [m]))"
    using inv fresh by (auto simp: push_msg_refs_set)
  with closed members reached show ?thesis unfolding walk_inv_def by blast
qed

lemma walk_end:
  assumes "walk_inv msgs root [] visited needed"
  shows "m \<in> set needed \<longleftrightarrow> (\<exists>n. needs msgs root n \<and> find_message msgs n = Some m)"
proof -
  have "n \<in> set visited" if "needs msgs root n" for n
    using that by induction (use assms in \<open>auto simp: walk_inv_def\<close>)
  with assms show ?thesis unfolding walk_inv_def by auto
qed

lemma collect_loop_walk:
  "walk_inv msgs root stk visited needed \<Longrightarrow>
   \<exists>visited'. walk_inv msgs root [] visited' (collect_loop msgs stk visited needed)"
proof (induction msgs stk visited needed rule: collect_loop.induct)
  case (2 msgs n stk visited needed)
  show ?case
  proof (cases "n \<in> set visited")
    case True
    with 2 show ?thesis by (simp add: walk_skip)
  next
    case False
    show ?thesis
    proof (cases "find_message msgs n")
      case None
      with 2 False show ?thesis by (simp add: walk_undeclared)
    next
      case (Some m)
      with False "2.IH"(3) [OF False Some walk_visit [OF "2.prems" Some False]] show ?thesis by simp
    qed
  qed
qed auto

text \<open>The compiled subset. \<open>collect_needed_messages\<close> ends with exactly the declared
  messages that are reachable from the root through message references in fields, loop
  bodies and match arms, each once, on cyclic references too.\<close>

theorem collect_needed_exact:
  "distinct (map msg_name (collect_needed_messages proto root)) \<and>
   (m \<in> set (collect_needed_messages proto root) \<longleftrightarrow>
      (\<exists>n. needs (pr_messages proto) root n \<and> find_message (pr_messages proto) n = Some m))"
proof -
  have "walk_inv (pr_messages proto) root [root] [] []"
    by (auto simp: walk_inv_def intro: needs_root)
  from collect_loop_walk [OF this] obtain visited where
    v: "walk_inv (pr_messages proto) root [] visited (collect_needed_messages proto root)"
    by (auto simp: collect_needed_messages_def)
  from walk_end [OF v] v show ?thesis by (auto simp: walk_inv_def)
qed

subsection \<open>Running on segments\<close>

lemma accepts_reassemble: "accepts segs r r' \<Longrightarrow> reassemble segs r = Inr r'"
  by (induction rule: accepts.induct) simp_all

text \<open>C33: reassembly in front of the parser. A stream of at most \<open>2^20\<close> bytes whose sequence
  numbers do not wrap around, cut into segments that arrive in any order, each once, is
  parsed as the one datagram it was cut from, in either build profile, when both visit the
  state machines in the same order.\<close>

theorem segments_run_as_datagram:
  assumes "chunks_ok isn ds" "distinct order" "set order = {..<length ds}"
  shows "run_on_segments chk ord proto isn (map (chunk_segment isn ds) order)
    = run_on_datagram chk ord proto (concat ds)"
  using all_chunks [OF assms] by (auto simp: run_on_segments_def accepts_reassemble)

theorem segments_run_as_datagram_witness:
  "run_on_segments True (\<lambda>ms. ms) pair_protocol 1000 [(1001, [1, 2]), (1000, [7])]
     = Some (Inr ([(''a'', 7), (''b'', 258), (offset_var, 3)], ''IDLE'', [Message ''Pair'' 3]))"
proof -
  have "chunks_ok 1000 [[7], [1, 2]]" "distinct [1, 0 :: nat]" "set [1, 0 :: nat] = {..<length [[7], [1, 2 :: u8]]}"
    by (simp add: chunks_ok_def, simp, auto)
  note run = segments_run_as_datagram [OF this, where chk = True and ord = "\<lambda>ms. ms" and proto = pair_protocol]
  have "run_on_datagram True (\<lambda>ms. ms) pair_protocol (concat [[7], [1, 2]])
      = Some (Inr ([(''a'', 7), (''b'', 258), (offset_var, 3)], ''IDLE'', [Message ''Pair'' 3]))"
    by code_simp
  with run show ?thesis by (simp add: chunk_segment_def seq_at_def chunk_start_def)
qed

subsection \<open>Layered dispatch\<close>

text \<open>A message whose payload is bound to the layer \<open>Inner\<close>.\<close>

definition layered_protocol :: protocol where
  "layered_protocol = protocol_default\<lparr>pr_messages :=
     [\<lparr>msg_name = ''Outer'', msg_doc = None,
       msg_fields = [plain_field ''len'' U8 0, plain_field ''options'' (Bytes (Ident ''len'')) 1,
                     plain_field ''payload'' BytesRest 2],
       msg_lets = [], msg_loops = [], msg_validates = [], msg_matches = []\<rparr>,
      \<lparr>msg_name = ''Inner'', msg_doc = None, msg_fields = [plain_field ''kind'' U8 0],
       msg_lets = [], msg_loops = [], msg_validates = [], msg_matches = []\<rparr>],
     pr_binds := [\<lparr>b_layer = ''Inner'', b_source = ''Outer'', b_field = ''payload'', b_when = IntLit 1\<rparr>]\<rparr>"

definition inner_kind :: "bool \<Rightarrow> bool" where
  "inner_kind chk =
     (case run_on_datagram chk (\<lambda>ms. ms) layered_protocol [2, 0, 0, 9] of
        Some (Inr (ctx, _)) \<Rightarrow> hm_get ctx ''Inner.kind'' = Some 9 | _ \<Rightarrow> False)"

text \<open>A short packet can crash the layered dispatch. On \<open>2 0 0 9\<close> the payload is sub-parsed
  and its field appears as \<open>Inner.kind\<close>. On the one byte \<open>5\<close> the options run past the end
  of the data (in datagram mode the cursor just moves on), the payload is recorded as starting
  at offset 6, and \<open>&data[6..]\<close> panics in either build profile.\<close>

theorem layered_dispatch_panics:
  "inner_kind chk \<and> run_on_datagram chk (\<lambda>ms. ms) layered_protocol [5] = None"
proof (cases chk)
  case True
  have "inner_kind True" "run_on_datagram True (\<lambda>ms. ms) layered_protocol [5] = None" by code_simp+
  with True show ?thesis by (simp only: simp_thms)
next
  case False
  have "inner_kind False" "run_on_datagram False (\<lambda>ms. ms) layered_protocol [5] = None" by code_simp+
  with False show ?thesis by (simp only: simp_thms)
qed

end
