(* ===== verification/Adgl_Types.thy ===== *)
theory Adgl_Types
  imports Hash_Map "HOL-Library.Multiset"
begin

text \<open>
  The value types of the diagnostic language (crates/airpulse_dsl-types): three-valued logic,
  confidence and weight, event time and duration, severity, the scope hierarchy and partition
  keys, identifiers. An \<open>i64\<close> is an \<open>int\<close> with saturation and range checks written out,
  hashes are \<open>64 word\<close>s.
\<close>

subsection \<open>Three-valued logic (t3.rs)\<close>

datatype t3 = TTrue | TFalse | TUnknown

fun t3_and :: "t3 \<Rightarrow> t3 \<Rightarrow> t3" where
  "t3_and a b =
     (if a = TFalse \<or> b = TFalse then TFalse
      else if a = TTrue \<and> b = TTrue then TTrue else TUnknown)"

fun t3_or :: "t3 \<Rightarrow> t3 \<Rightarrow> t3" where
  "t3_or a b =
     (if a = TTrue \<or> b = TTrue then TTrue
      else if a = TFalse \<and> b = TFalse then TFalse else TUnknown)"

fun t3_not :: "t3 \<Rightarrow> t3" where
  "t3_not TTrue = TFalse"
| "t3_not TFalse = TTrue"
| "t3_not TUnknown = TUnknown"

definition is_true :: "t3 \<Rightarrow> bool" where
  "is_true t = (t = TTrue)"

definition is_false :: "t3 \<Rightarrow> bool" where
  "is_false t = (t = TFalse)"

definition is_unknown :: "t3 \<Rightarrow> bool" where
  "is_unknown t = (t = TUnknown)"

definition t3_of_bool :: "bool \<Rightarrow> t3" where
  "t3_of_bool b = (if b then TTrue else TFalse)"

declare t3_and.simps [simp del] t3_or.simps [simp del]

lemma t3_not_not [simp]: "t3_not (t3_not a) = a"
  by (cases a) simp_all

text \<open>The information order: \<open>Unknown\<close> is below both truth values.\<close>

definition t3_le :: "t3 \<Rightarrow> t3 \<Rightarrow> bool" where
  "t3_le a b \<longleftrightarrow> a = TUnknown \<or> a = b"

lemma t3_le_refl [simp]: "t3_le a a"
  by (simp add: t3_le_def)

lemma t3_le_Unknown [simp]: "t3_le TUnknown b"
  by (simp add: t3_le_def)

lemma t3_and_mono: "t3_le a a' \<Longrightarrow> t3_le b b' \<Longrightarrow> t3_le (t3_and a b) (t3_and a' b')"
  by (auto simp: t3_le_def t3_and.simps)

lemma t3_or_mono: "t3_le a a' \<Longrightarrow> t3_le b b' \<Longrightarrow> t3_le (t3_or a b) (t3_or a' b')"
  by (auto simp: t3_le_def t3_or.simps)

lemma t3_not_mono: "t3_le a a' \<Longrightarrow> t3_le (t3_not a) (t3_not a')"
  by (cases a; cases a') (auto simp: t3_le_def)

subsection \<open>Confidence and weight (confidence.rs)\<close>

text \<open>\<open>Confidence(u8)\<close> and \<open>Weight(i8)\<close>; \<open>apply\<close> adds in \<open>i16\<close>.\<close>

datatype confidence = Confidence (conf_value: nat)

datatype weight = Weight (weight_value: int)

definition conf_min :: confidence where "conf_min = Confidence 0"

definition conf_max :: confidence where "conf_max = Confidence 100"

definition confidence_new :: "u8 \<Rightarrow> confidence option" where
  "confidence_new v = (if unat v \<le> 100 then Some (Confidence (unat v)) else None)"

definition confidence_new_clamped :: "u8 \<Rightarrow> confidence" where
  "confidence_new_clamped v = (if unat v \<le> 100 then Confidence (unat v) else conf_max)"

definition apply_weight :: "confidence \<Rightarrow> weight \<Rightarrow> confidence" where
  "apply_weight c w =
     (let sum = int (conf_value c) + weight_value w;
          clamped = (if sum < 0 then 0 else if sum > 100 then 100 else sum)
      in Confidence (nat clamped))"

definition is_candidate :: "confidence \<Rightarrow> bool" where
  "is_candidate c = (10 \<le> conf_value c \<and> conf_value c \<le> 39)"

definition is_probable :: "confidence \<Rightarrow> bool" where
  "is_probable c = (40 \<le> conf_value c \<and> conf_value c \<le> 79)"

definition is_confirmed :: "confidence \<Rightarrow> bool" where
  "is_confirmed c = (80 \<le> conf_value c)"

definition weight_new :: "8 word \<Rightarrow> weight option" where
  "weight_new v = (if - 100 \<le> sint v \<and> sint v \<le> 100 then Some (Weight (sint v)) else None)"

definition is_supporting :: "weight \<Rightarrow> bool" where
  "is_supporting w = (0 \<le> weight_value w)"

definition conf_ok :: "confidence \<Rightarrow> bool" where
  "conf_ok c = (conf_value c \<le> 100)"

definition weight_ok :: "weight \<Rightarrow> bool" where
  "weight_ok w = (- 100 \<le> weight_value w \<and> weight_value w \<le> 100)"

lemma apply_weight_value: "int (conf_value (apply_weight c w)) = max 0 (min 100 (int (conf_value c) + weight_value w))"
  by (auto simp: apply_weight_def Let_def)

definition apply_weights :: "weight list \<Rightarrow> confidence \<Rightarrow> confidence" where
  "apply_weights ws c = fold (\<lambda>w c. apply_weight c w) ws c"

text \<open>The confidence domain. Every constructor yields a confidence of at most 100, every
  sequence of weights keeps it there, and the \<open>i16\<close> sum inside \<open>apply\<close> cannot overflow.\<close>

theorem confidence_stays_in_range:
  "conf_ok (confidence_new_clamped v) \<and> pred_option conf_ok (confidence_new v)
   \<and> conf_ok (apply_weights (w # ws) c)
   \<and> (conf_ok c \<and> weight_ok w \<longrightarrow> \<bar>int (conf_value c) + weight_value w\<bar> < 2 ^ 15)"
proof -
  have a: "conf_ok (apply_weight c w)" for c w
    using apply_weight_value [of c w] by (simp add: conf_ok_def)
  have "conf_ok c \<Longrightarrow> conf_ok (apply_weights ws c)" for ws c
    by (induction ws arbitrary: c) (simp_all add: apply_weights_def a)
  then have "conf_ok (apply_weights (w # ws) c)"
    using a [of c w] by (simp add: apply_weights_def)
  then show ?thesis
    by (auto simp: conf_ok_def weight_ok_def confidence_new_clamped_def confidence_new_def conf_max_def)
qed

theorem confidence_stays_in_range_witness:
  "\<bar>int (conf_value conf_max) + weight_value (Weight 100)\<bar> < 2 ^ 15"
proof -
  have "conf_ok conf_max \<and> weight_ok (Weight 100)" by (simp add: conf_ok_def weight_ok_def conf_max_def)
  with confidence_stays_in_range [where c = conf_max and w = "Weight 100"] show ?thesis by blast
qed

text \<open>The sum of the weights, while no partial sum leaves the scale.\<close>

fun stays_inside :: "weight list \<Rightarrow> confidence \<Rightarrow> bool" where
  "stays_inside [] c = True"
| "stays_inside (w # ws) c =
     (0 \<le> int (conf_value c) + weight_value w \<and> int (conf_value c) + weight_value w \<le> 100 \<and>
      stays_inside ws (apply_weight c w))"

lemma apply_weights_sum:
  "stays_inside ws c \<Longrightarrow>
   int (conf_value (apply_weights ws c)) = int (conf_value c) + sum_list (map weight_value ws)"
proof (induction ws arbitrary: c)
  case (Cons w ws)
  from Cons.IH [of "apply_weight c w"] Cons.prems apply_weight_value [of c w] show ?case
    by (simp add: apply_weights_def)
qed (simp add: apply_weights_def)

text \<open>Weights commute as long as no partial sum leaves the scale 0..100: two orders of the
  same weights end in the same confidence.\<close>

theorem weights_commute_inside:
  assumes "stays_inside ws c" "stays_inside ws' c" "mset ws = mset ws'"
  shows "apply_weights ws c = apply_weights ws' c"
proof -
  have "mset (map weight_value ws) = mset (map weight_value ws')" using assms(3) by simp
  then have "sum_list (map weight_value ws) = sum_list (map weight_value ws')"
    by (metis sum_mset_sum_list)
  with apply_weights_sum assms(1,2) have "int (conf_value (apply_weights ws c)) = int (conf_value (apply_weights ws' c))"
    by simp
  then show ?thesis by (simp add: confidence.expand)
qed

theorem weights_commute_inside_witness:
  "apply_weights [Weight 20, Weight 30, Weight (- 10)] (Confidence 10)
   = apply_weights [Weight 30, Weight (- 10), Weight 20] (Confidence 10)"
  by (rule weights_commute_inside) (code_simp, code_simp, simp)

text \<open>They do not commute at the bounds, although the documentation of \<open>apply\<close> calls
  the mutation commutative: the order of two pieces of evidence decides whether a cause of
  confidence 75 ends up confirmed.\<close>

theorem weights_do_not_commute:
  "\<not> is_confirmed (apply_weights [Weight 40, Weight (- 30)] (Confidence 75)) \<and>
   is_confirmed (apply_weights [Weight (- 30), Weight 40] (Confidence 75))"
  by code_simp

subsection \<open>Event time and duration (time.rs)\<close>

definition i64_min :: int where "i64_min = - (2 ^ 63)"

definition i64_max :: int where "i64_max = 2 ^ 63 - 1"

definition i64_ok :: "int \<Rightarrow> bool" where
  "i64_ok x = (i64_min \<le> x \<and> x \<le> i64_max)"

definition i64_saturate :: "int \<Rightarrow> int" where
  "i64_saturate x = max i64_min (min i64_max x)"

lemmas i64_defs = i64_min_def i64_max_def i64_ok_def i64_saturate_def

lemma i64_saturate_ok: "i64_ok (i64_saturate x)"
  by (simp add: i64_defs)

lemma i64_saturate_mono: "x \<le> y \<Longrightarrow> i64_saturate x \<le> i64_saturate y"
  by (auto simp: i64_saturate_def)

text \<open>\<open>EventTime(i64)\<close> and \<open>DurationMs(i64)\<close> are their milliseconds.\<close>

type_synonym event_time = int
type_synonym duration_ms = int

definition duration_from_millis :: "int \<Rightarrow> duration_ms option" where
  "duration_from_millis ms = (if 0 \<le> ms then Some ms else None)"

definition time_add :: "event_time \<Rightarrow> duration_ms \<Rightarrow> event_time" where
  "time_add t d = i64_saturate (t + d)"

definition time_sub :: "event_time \<Rightarrow> duration_ms \<Rightarrow> event_time" where
  "time_sub t d = i64_saturate (t - d)"

lemma time_sub_le: "i64_ok t \<Longrightarrow> 0 \<le> d \<Longrightarrow> time_sub t d \<le> t"
  by (simp add: time_sub_def i64_defs)

subsection \<open>Severity (severity.rs)\<close>

datatype severity = Critical | High | Medium | Low | Recommended | Optional

text \<open>The derived order: declaration order, most severe first.\<close>

fun severity_rank :: "severity \<Rightarrow> nat" where
  "severity_rank Critical = 0"
| "severity_rank High = 1"
| "severity_rank Medium = 2"
| "severity_rank Low = 3"
| "severity_rank Recommended = 4"
| "severity_rank Optional = 5"

lemma severity_rank_inj: "severity_rank a = severity_rank b \<Longrightarrow> a = b"
  by (cases a; cases b) simp_all

instantiation severity :: linorder
begin

definition less_eq_severity :: "severity \<Rightarrow> severity \<Rightarrow> bool" where
  "a \<le> b \<longleftrightarrow> severity_rank a \<le> severity_rank b"

definition less_severity :: "severity \<Rightarrow> severity \<Rightarrow> bool" where
  "a < b \<longleftrightarrow> severity_rank a < severity_rank b"

instance
  by standard (auto simp: less_eq_severity_def less_severity_def severity_rank_inj)

end

fun severity_str :: "severity \<Rightarrow> string" where
  "severity_str Critical = ''Critical''"
| "severity_str High = ''High''"
| "severity_str Medium = ''Medium''"
| "severity_str Low = ''Low''"
| "severity_str Recommended = ''Recommended''"
| "severity_str Optional = ''Optional''"

subsection \<open>Scope types and their hierarchy (scope.rs)\<close>

datatype scope_type = Session | Port | ClientMac | Vlan | AccessPoint | Global

fun scope_parent :: "scope_type \<Rightarrow> scope_type option" where
  "scope_parent Session = Some Vlan"
| "scope_parent ClientMac = Some Vlan"
| "scope_parent Vlan = Some Global"
| "scope_parent Port = Some Global"
| "scope_parent AccessPoint = Some Global"
| "scope_parent Global = None"

fun scope_height :: "scope_type \<Rightarrow> nat" where
  "scope_height Global = 0"
| "scope_height Vlan = 1"
| "scope_height Port = 1"
| "scope_height AccessPoint = 1"
| "scope_height ClientMac = 2"
| "scope_height Session = 2"

lemma scope_parent_height: "scope_parent s = Some p \<Longrightarrow> scope_height p < scope_height s"
  by (cases s) auto

text \<open>The \<open>loop\<close> that walks up the hierarchy.\<close>

function is_subsumed_by :: "scope_type \<Rightarrow> scope_type \<Rightarrow> bool" where
  "is_subsumed_by cur other =
     (if cur = other then True
      else case scope_parent cur of None \<Rightarrow> False | Some p \<Rightarrow> is_subsumed_by p other)"
  by pat_completeness auto
termination by (relation "measure (\<lambda>(s, t). scope_height s)") (auto simp: scope_parent_height)

declare is_subsumed_by.simps [simp del]

definition subsumes :: "scope_type \<Rightarrow> scope_type \<Rightarrow> bool" where
  "subsumes s other = is_subsumed_by other s"

lemma is_subsumed_by_refl [simp]: "is_subsumed_by s s"
  by (simp add: is_subsumed_by.simps)

lemma is_subsumed_by_rtrancl: "is_subsumed_by s t \<longleftrightarrow> (\<lambda>s p. scope_parent s = Some p)\<^sup>*\<^sup>* s t"
proof
  show "is_subsumed_by s t \<Longrightarrow> (\<lambda>s p. scope_parent s = Some p)\<^sup>*\<^sup>* s t"
  proof (induction s t rule: is_subsumed_by.induct)
    case (1 cur other)
    then show ?case
      by (cases "scope_parent cur")
        (auto simp: is_subsumed_by.simps [of cur other] split: if_splits intro: converse_rtranclp_into_rtranclp)
  qed
  show "(\<lambda>s p. scope_parent s = Some p)\<^sup>*\<^sup>* s t \<Longrightarrow> is_subsumed_by s t"
    by (induction rule: converse_rtranclp_induct) (simp_all add: is_subsumed_by.simps)
qed

lemma is_subsumed_by_height: "is_subsumed_by s t \<Longrightarrow> s = t \<or> scope_height t < scope_height s"
proof (induction s t rule: is_subsumed_by.induct)
  case (1 cur other)
  then show ?case
    by (cases "scope_parent cur")
      (auto simp: is_subsumed_by.simps [of cur other] split: if_splits dest: scope_parent_height)
qed

interpretation scope_order: ordering is_subsumed_by "\<lambda>s t. is_subsumed_by s t \<and> s \<noteq> t"
proof
  show "is_subsumed_by a c" if "is_subsumed_by a b" "is_subsumed_by b c" for a b c
    using that by (simp add: is_subsumed_by_rtrancl)
  show "a = b" if "is_subsumed_by a b" "is_subsumed_by b a" for a b
    using is_subsumed_by_height [OF that(1)] is_subsumed_by_height [OF that(2)] by auto
qed simp_all

text \<open>The scope hierarchy. The loop terminates, computes the reflexive and transitive
  closure of \<open>parent\<close>, is antisymmetric, and has \<open>Global\<close> as its only greatest scope.\<close>

theorem scope_subsumption_order:
  "(is_subsumed_by a b = (\<lambda>s p. scope_parent s = Some p)\<^sup>*\<^sup>* a b)
   \<and> (is_subsumed_by a b \<and> is_subsumed_by b a \<longleftrightarrow> a = b)
   \<and> is_subsumed_by a Global \<and> (is_subsumed_by Global a \<longleftrightarrow> a = Global)"
proof -
  have "is_subsumed_by a Global" by (cases a) (simp_all add: is_subsumed_by.simps)
  then show ?thesis
    using scope_order.antisym is_subsumed_by_rtrancl by (auto simp: is_subsumed_by.simps [of Global])
qed

subsection \<open>Partition keys (scope.rs, value\_encoding.rs)\<close>

record scope_id =
  si_type :: scope_type
  si_key :: u64

definition fnv_offset :: u64 where "fnv_offset = 0xcbf29ce484222325"

definition fnv_prime :: u64 where "fnv_prime = 0x100000001b3"

definition fnv1a :: "u64 \<Rightarrow> u8 list \<Rightarrow> u64" where
  "fnv1a h bs = fold (\<lambda>b h. (h XOR ucast b) * fnv_prime) bs h"

definition fnv1a_u64 :: "u64 \<Rightarrow> u64 \<Rightarrow> u64" where
  "fnv1a_u64 h v = fnv1a h (u64_to_be_bytes v)"

definition u128_to_be_bytes :: "128 word \<Rightarrow> u8 list" where
  "u128_to_be_bytes v = map (\<lambda>i. ucast (drop_bit (8 * i) v)) (rev [0..<16])"

definition fnv1a_u128 :: "u64 \<Rightarrow> 128 word \<Rightarrow> u64" where
  "fnv1a_u128 h v = fnv1a h (u128_to_be_bytes v)"

definition scope_global :: scope_id where
  "scope_global = \<lparr>si_type = Global, si_key = 0\<rparr>"

text \<open>The order on endpoint pairs is lexicographic.\<close>

definition endpoint_le :: "128 word \<times> u16 \<Rightarrow> 128 word \<times> u16 \<Rightarrow> bool" where
  "endpoint_le a b = (fst a < fst b \<or> fst a = fst b \<and> snd a \<le> snd b)"

definition scope_session :: "128 word \<times> u16 \<Rightarrow> 128 word \<times> u16 \<Rightarrow> scope_id" where
  "scope_session a b =
     (let (lo, hi) = (if endpoint_le a b then (a, b) else (b, a));
          h1 = fnv1a_u128 fnv_offset (fst lo);
          h2 = fnv1a_u64 h1 (ucast (snd lo));
          h3 = fnv1a_u128 h2 (fst hi);
          h4 = fnv1a_u64 h3 (ucast (snd hi))
      in \<lparr>si_type = Session, si_key = h4\<rparr>)"

definition scope_port :: "u64 \<Rightarrow> u32 \<Rightarrow> scope_id" where
  "scope_port switch_id port_id =
     \<lparr>si_type = Port, si_key = fnv1a_u64 (fnv1a_u64 fnv_offset switch_id) (ucast port_id)\<rparr>"

definition scope_client_mac :: "u64 \<Rightarrow> scope_id" where
  "scope_client_mac mac = \<lparr>si_type = ClientMac, si_key = fnv1a_u64 fnv_offset mac\<rparr>"

definition scope_vlan :: "u16 \<Rightarrow> scope_id" where
  "scope_vlan vlan_id = \<lparr>si_type = Vlan, si_key = fnv1a_u64 fnv_offset (ucast vlan_id)\<rparr>"

definition scope_access_point :: "u64 \<Rightarrow> scope_id" where
  "scope_access_point bssid = \<lparr>si_type = AccessPoint, si_key = fnv1a_u64 fnv_offset bssid\<rparr>"

fun scope_discriminant :: "scope_type \<Rightarrow> u8" where
  "scope_discriminant Session = 0"
| "scope_discriminant Port = 1"
| "scope_discriminant ClientMac = 2"
| "scope_discriminant Vlan = 3"
| "scope_discriminant AccessPoint = 4"
| "scope_discriminant Global = 5"

definition hash_key :: "scope_id \<Rightarrow> u64" where
  "hash_key s = fnv1a_u64 (fnv1a fnv_offset [scope_discriminant (si_type s)]) (si_key s)"

definition scope_id_subsumed :: "scope_id \<Rightarrow> scope_id \<Rightarrow> bool" where
  "scope_id_subsumed a b = is_subsumed_by (si_type a) (si_type b)"

text \<open>A session key does not depend on the direction of the flow.\<close>

theorem session_scope_symmetric: "scope_session a b = scope_session b a"
proof -
  have "endpoint_le a b \<or> endpoint_le b a" and "endpoint_le a b \<and> endpoint_le b a \<longrightarrow> a = b"
    by (auto simp: endpoint_le_def prod_eq_iff)
  then show ?thesis by (auto simp: scope_session_def Let_def)
qed

definition stable_hash_u64 :: "u8 list \<Rightarrow> u64" where
  "stable_hash_u64 bs = fnv1a fnv_offset bs"

text \<open>\<open>i64::from_ne_bytes(h.to_ne_bytes())\<close>: the two's complement reading. A Rust string is
  given by its UTF-8 bytes.\<close>

definition stable_string_i64 :: "u8 list \<Rightarrow> int" where
  "stable_string_i64 bs = sint (stable_hash_u64 bs)"

definition scope_key_i64 :: "scope_id \<Rightarrow> int" where
  "scope_key_i64 s = sint (hash_key s)"

lemma scope_key_i64_ok: "i64_ok (scope_key_i64 s)"
  using sint_range_size [of "hash_key s"] by (simp add: scope_key_i64_def i64_defs word_size)

end
