(* ===== verification/Adgl_Ir.thy ===== *)
theory Adgl_Ir
  imports Adgl_Types "HOL-Library.Char_ord" "HOL-Library.List_Lexorder" "HOL-Library.Product_Lexorder"
begin

text \<open>
  The verified intermediate representation (crates/airpulse_dsl-ir): predicate opcodes over
  slot registers, rules with their anchors, correlates, branches and intents, the program
  image with its anchor index, and the order of suspended matches.

  Symbolic identifiers (\<open>RuleId\<close>, \<open>EventType\<close>, \<open>CauseKind\<close>, \<dots>) are strings; \<open>EventId\<close> and
  \<open>NodeId\<close> are the numbers they wrap.
\<close>

type_synonym rule_id = string
type_synonym symbol = string
type_synonym event_type = string
type_synonym cause_kind = string
type_synonym problem_kind = string
type_synonym sarif_id = string
type_synonym metric_path = string
type_synonym event_id = nat
type_synonym node_id = nat
type_synonym field_idx = nat
type_synonym binding_idx = nat
type_synonym topo_func_idx = nat

subsection \<open>Predicates (predicate.rs)\<close>

definition max_slots :: nat where "max_slots = 16"

datatype slot_idx = SlotIdx (slot_index: nat)

definition slot_idx_new :: "u8 \<Rightarrow> slot_idx option" where
  "slot_idx_new raw = (if unat raw < max_slots then Some (SlotIdx (unat raw)) else None)"

datatype pred_op =
    PLoadEventField binding_idx field_idx slot_idx
  | PLoadCauseField binding_idx field_idx slot_idx
  | PLoadProblemField binding_idx field_idx slot_idx
  | PLoadConst int slot_idx
  | PLoadDuration duration_ms slot_idx
  | PLoadScopeKey slot_idx
  | PAdd slot_idx slot_idx slot_idx
  | PSub slot_idx slot_idx slot_idx
  | PMul slot_idx slot_idx slot_idx
  | PDiv slot_idx slot_idx slot_idx
  | PMod slot_idx slot_idx slot_idx
  | PCmpEq slot_idx slot_idx slot_idx
  | PCmpNe slot_idx slot_idx slot_idx
  | PCmpLt slot_idx slot_idx slot_idx
  | PCmpLe slot_idx slot_idx slot_idx
  | PCmpGt slot_idx slot_idx slot_idx
  | PCmpGe slot_idx slot_idx slot_idx
  | PAnd slot_idx slot_idx slot_idx
  | POr slot_idx slot_idx slot_idx
  | PNot slot_idx slot_idx
  | PPresent binding_idx slot_idx
  | PAbsent binding_idx slot_idx
  | PTopoCall topo_func_idx slot_idx slot_idx slot_idx
  | PWinBack slot_idx slot_idx slot_idx
  | PWinFwd slot_idx slot_idx slot_idx
  | PWinIn slot_idx slot_idx slot_idx slot_idx

record predicate =
  pd_ops :: "pred_op list"
  pd_result :: slot_idx

definition always_true :: predicate where
  "always_true = \<lparr>pd_ops = [PLoadConst 1 (SlotIdx 0)], pd_result = SlotIdx 0\<rparr>"

subsection \<open>Intents (intent.rs)\<close>

record prov_key =
  pk_rule :: rule_id
  pk_cause :: cause_kind
  pk_target_hash :: u64

datatype action_kind = RequestObservation | RunCheck | SuppressSymptom | MarkAmbiguousAct | RequestTopology

fun action_str :: "action_kind \<Rightarrow> string" where
  "action_str RequestObservation = ''request_observation''"
| "action_str RunCheck = ''run_check''"
| "action_str SuppressSymptom = ''suppress_symptom''"
| "action_str MarkAmbiguousAct = ''mark_ambiguous''"
| "action_str RequestTopology = ''request_topology''"

datatype intent =
    InferCause (ic_cause: cause_kind) (ic_target: metric_path) (ic_weight: weight)
      (ic_evidence: "symbol list") (ic_prov: prov_key) (ic_pii: "metric_path list")
  | EmitProblem (ep_problem: problem_kind) (ep_target: "metric_path option") (ep_severity: severity)
      (ep_evidence: "symbol list") (ep_sarif: sarif_id) (ep_pii: "metric_path list")
  | EmitAction (ea_kind: action_kind) (ea_arg: "symbol option") (ea_target: "metric_path option")
      (ea_reason: "string option") (ea_evidence: "symbol list")
  | SupersedeProblem (su_problem: problem_kind) (su_target: metric_path)
  | MarkAmbiguous (ma_causes: "cause_kind \<times> cause_kind") (ma_target: metric_path)

subsection \<open>Rules (rule.rs)\<close>

datatype rule_kind = Evidence | Decision

datatype anchor_source =
    AnchorEvent event_type
  | AnchorCause cause_kind
  | AnchorProblem problem_kind

record anchor_spec =
  an_binding :: symbol
  an_source :: anchor_source
  an_predicate :: predicate

datatype correlate_source =
    CorrEvent event_type
  | CorrProblem problem_kind
  | CorrCause cause_kind

record topo_call =
  tc_func :: string
  tc_func_idx :: topo_func_idx
  tc_args :: "metric_path list"

datatype window_proof = Calculable (wp_back: duration_ms) (wp_forward: duration_ms) | RuntimeCheck

record correlate_spec =
  co_binding :: symbol
  co_source :: correlate_source
  co_topo :: topo_call
  co_window :: window_proof
  co_min_match :: nat

record branch_table =
  br_cond :: predicate
  br_then :: "intent list"
  br_else :: "intent list option"
  br_unknown :: "intent list"

record verified_annotations =
  va_max_backward :: duration_ms
  va_max_forward :: duration_ms
  va_target_scope :: "scope_type option"

fun widen :: "correlate_spec \<Rightarrow> duration_ms \<times> duration_ms \<Rightarrow> duration_ms \<times> duration_ms" where
  "widen c (mb, mf) =
     (case co_window c of
        Calculable back forward \<Rightarrow> (max mb back, max mf forward)
      | RuntimeCheck \<Rightarrow> (mb, mf))"

definition from_correlates :: "correlate_spec list \<Rightarrow> scope_type option \<Rightarrow> verified_annotations" where
  "from_correlates cs target_scope =
     (let (mb, mf) = fold widen cs (0, 0)
      in \<lparr>va_max_backward = mb, va_max_forward = mf, va_target_scope = target_scope\<rparr>)"

record rule_instance =
  ru_id :: rule_id
  ru_kind :: rule_kind
  ru_scope :: scope_type
  ru_anchor :: anchor_spec
  ru_correlates :: "correlate_spec list"
  ru_branches :: "branch_table option"
  ru_body :: "intent list"
  ru_annotations :: verified_annotations

definition rule_max_forward :: "rule_instance \<Rightarrow> duration_ms" where
  "rule_max_forward r = va_max_forward (ru_annotations r)"

text \<open>The annotations cover every calculable window.\<close>

lemma widen_fold:
  "fold widen cs (mb, mf) = (b, f) \<Longrightarrow>
   mb \<le> b \<and> mf \<le> f \<and> (\<forall>c\<in>set cs. \<forall>back fwd. co_window c = Calculable back fwd \<longrightarrow> back \<le> b \<and> fwd \<le> f)"
proof (induction cs arbitrary: mb mf)
  case (Cons c cs)
  obtain mb' mf' where w: "widen c (mb, mf) = (mb', mf')" by force
  with Cons have "mb' \<le> b \<and> mf' \<le> f \<and>
      (\<forall>c\<in>set cs. \<forall>back fwd. co_window c = Calculable back fwd \<longrightarrow> back \<le> b \<and> fwd \<le> f)" by simp
  with w show ?case by (cases "co_window c") auto
qed simp

lemma from_correlates_cover:
  assumes "c \<in> set cs" "co_window c = Calculable back fwd"
  shows "back \<le> va_max_backward (from_correlates cs t) \<and> fwd \<le> va_max_forward (from_correlates cs t)"
  using widen_fold [of cs 0 0] assms by (auto simp: from_correlates_def split: prod.split)

subsection \<open>The program image (image.rs)\<close>

record exclusivity_group =
  xg_causes :: "cause_kind list"

record rule_index =
  ri_by_event :: "(event_type, nat list) hmap"
  ri_by_cause :: "(cause_kind, nat list) hmap"
  ri_by_problem :: "(problem_kind, nat list) hmap"

record program_image =
  im_version :: nat
  im_ruleset_id :: string
  im_requires :: "string list"
  im_exclusivity :: "exclusivity_group list"
  im_rules :: "rule_instance list"
  im_catalog_ref :: "string \<times> string"
  im_index :: rule_index

definition pack_version :: "u8 \<Rightarrow> u8 \<Rightarrow> u8 \<Rightarrow> u32" where
  "pack_version major minor patch = push_bit 16 (ucast major) OR push_bit 8 (ucast minor) OR ucast patch"

text \<open>\<open>entry(k).or_default().push(pos)\<close>; positions saturate at \<open>u32::MAX\<close>.\<close>

definition entry_push :: "'k \<Rightarrow> nat \<Rightarrow> ('k, nat list) hmap \<Rightarrow> ('k, nat list) hmap" where
  "entry_push k pos m = hm_put k ((case hm_get m k of Some v \<Rightarrow> v | None \<Rightarrow> []) @ [pos]) m"

definition index_rule :: "nat \<times> rule_instance \<Rightarrow> rule_index \<Rightarrow> rule_index" where
  "index_rule pr ix =
     (let pos = min (fst pr) (2 ^ 32 - 1) in
      case an_source (ru_anchor (snd pr)) of
        AnchorEvent t \<Rightarrow> ix\<lparr>ri_by_event := entry_push t pos (ri_by_event ix)\<rparr>
      | AnchorCause k \<Rightarrow> ix\<lparr>ri_by_cause := entry_push k pos (ri_by_cause ix)\<rparr>
      | AnchorProblem p \<Rightarrow> ix\<lparr>ri_by_problem := entry_push p pos (ri_by_problem ix)\<rparr>)"

definition build_index :: "rule_instance list \<Rightarrow> rule_index" where
  "build_index rules =
     fold index_rule (enumerate 0 rules) \<lparr>ri_by_event = [], ri_by_cause = [], ri_by_problem = []\<rparr>"

definition image_new ::
    "nat \<Rightarrow> string \<Rightarrow> string list \<Rightarrow> exclusivity_group list \<Rightarrow> rule_instance list \<Rightarrow> string \<times> string
      \<Rightarrow> program_image" where
  "image_new version ruleset_id requires exclusivity rules catalog_ref =
     \<lparr>im_version = version, im_ruleset_id = ruleset_id, im_requires = requires,
      im_exclusivity = exclusivity, im_rules = rules, im_catalog_ref = catalog_ref,
      im_index = build_index rules\<rparr>"

text \<open>\<open>AnchorKey\<close> borrows what an \<open>AnchorSource\<close> owns; the model uses the latter for both.\<close>

definition index_positions :: "rule_index \<Rightarrow> anchor_source \<Rightarrow> nat list" where
  "index_positions ix key =
     (case (case key of
              AnchorEvent t \<Rightarrow> hm_get (ri_by_event ix) t
            | AnchorCause k \<Rightarrow> hm_get (ri_by_cause ix) k
            | AnchorProblem p \<Rightarrow> hm_get (ri_by_problem ix) p) of
        Some v \<Rightarrow> v | None \<Rightarrow> [])"

definition rules_for :: "program_image \<Rightarrow> anchor_source \<Rightarrow> scope_type \<Rightarrow> rule_kind \<Rightarrow> rule_instance list" where
  "rules_for im key scope kind =
     filter (\<lambda>r. ru_kind r = kind \<and> ru_scope r = scope)
       (map (\<lambda>pos. im_rules im ! pos)
          (filter (\<lambda>pos. pos < length (im_rules im)) (index_positions (im_index im) key)))"

lemma index_rule_positions:
  "index_positions (index_rule (pos, r) ix) key =
     index_positions ix key @ (if an_source (ru_anchor r) = key then [min pos (2 ^ 32 - 1)] else [])"
  by (cases "an_source (ru_anchor r)"; cases key)
    (auto simp: index_rule_def index_positions_def entry_push_def Let_def)

lemma index_positions_fold:
  "index_positions (fold index_rule prs ix) key =
     index_positions ix key @ map (\<lambda>(pos, r). min pos (2 ^ 32 - 1))
       (filter (\<lambda>(pos, r). an_source (ru_anchor r) = key) prs)"
proof (induction prs arbitrary: ix)
  case (Cons pr prs)
  then show ?case by (cases pr) (simp add: index_rule_positions)
qed simp

text \<open>C39: Rule dispatch. The anchor index of an image answers every lookup as a scan of the rules
  in declaration order would: exactly the rules with that anchor, scope and kind, in that
  order (ordered firing), for rulesets of less than \<open>2^32\<close> rules.\<close>

theorem rules_for_declaration_order:
  assumes "length rules < 2 ^ 32"
  shows "rules_for (image_new v i req x rules c) key scope kind
    = filter (\<lambda>r. an_source (ru_anchor r) = key \<and> ru_kind r = kind \<and> ru_scope r = scope) rules"
proof -
  have e: "(pos, r) \<in> set (enumerate 0 rules) \<Longrightarrow> pos < length rules \<and> rules ! pos = r" for pos r
    by (auto simp: in_set_enumerate_eq)
  let ?P = "\<lambda>pr. an_source (ru_anchor (snd pr)) = key"
  have m: "(pos, r) \<in> set (enumerate 0 rules) \<Longrightarrow> min pos (2 ^ 32 - 1) = pos" for pos r
    using e [of pos r] assms by simp
  have pos: "index_positions (build_index rules) key = map fst (filter ?P (enumerate 0 rules))"
    unfolding build_index_def index_positions_fold
    using m by (auto simp: index_positions_def case_prod_unfold split: anchor_source.split intro!: map_cong)
  have all: "filter (\<lambda>pos. pos < length rules) (map fst (filter ?P (enumerate 0 rules)))
      = map fst (filter ?P (enumerate 0 rules))"
    using e by (intro filter_True) auto
  have "map (\<lambda>pos. rules ! pos) (map fst (filter ?P (enumerate 0 rules))) = map snd (filter ?P (enumerate 0 rules))"
    using e by (auto intro!: map_cong)
  also have "\<dots> = filter (\<lambda>r. an_source (ru_anchor r) = key) rules"
    by (metis (mono_tags, lifting) filter_cong filter_map map_snd_enumerate o_def)
  finally show ?thesis
    by (simp add: rules_for_def image_new_def pos all filter_filter conj_commute conj_left_commute)
qed

definition sample_rule :: "string \<Rightarrow> string \<Rightarrow> rule_kind \<Rightarrow> rule_instance" where
  "sample_rule i t kind =
     \<lparr>ru_id = i, ru_kind = kind, ru_scope = Session,
      ru_anchor = \<lparr>an_binding = ''e'', an_source = AnchorEvent t, an_predicate = always_true\<rparr>,
      ru_correlates = [], ru_branches = None, ru_body = [],
      ru_annotations = from_correlates [] None\<rparr>"

theorem rules_for_declaration_order_witness:
  "map ru_id (rules_for (image_new 1 ''set'' [] []
       [sample_rule ''r1'' ''tcp.reset'' Evidence, sample_rule ''r2'' ''dns.error'' Evidence,
        sample_rule ''r3'' ''tcp.reset'' Decision, sample_rule ''r4'' ''tcp.reset'' Evidence]
       (''catalog'', ''1'')) (AnchorEvent ''tcp.reset'') Session Evidence) = [''r1'', ''r4'']"
  by (subst rules_for_declaration_order) (simp_all add: sample_rule_def)

subsection \<open>Suspended matches\<close>

record pending_match =
  pm_rule :: rule_id
  pm_anchor_event :: event_id
  pm_upper_bound :: event_time
  pm_scope :: scope_id

text \<open>\<open>Ord for PendingMatch\<close>: lexicographic on this key. Matches with equal keys compare
  \<open>Equal\<close>; they can differ only in scopes whose hashes collide.\<close>

definition pm_key :: "pending_match \<Rightarrow> int \<times> u64 \<times> string \<times> nat" where
  "pm_key p = (pm_upper_bound p, hash_key (pm_scope p), pm_rule p, pm_anchor_event p)"

lemma pm_key_upper: "pm_key p \<le> pm_key q \<Longrightarrow> pm_upper_bound p \<le> pm_upper_bound q"
  by (auto simp: pm_key_def)

subsection \<open>Inserting after equal keys\<close>

text \<open>\<open>partition_point(|y| y <= x)\<close> followed by \<open>insert\<close>: the insertion of the time-sorted
  buffers, after the entries with an equal key.\<close>

definition insert_after :: "('a \<Rightarrow> 'k :: linorder) \<Rightarrow> 'a \<Rightarrow> 'a list \<Rightarrow> 'a list" where
  "insert_after k x xs =
     takeWhile (\<lambda>y. k y \<le> k x) xs @ [x] @ dropWhile (\<lambda>y. k y \<le> k x) xs"

lemma insert_after_mset [simp]: "mset (insert_after k x xs) = add_mset x (mset xs)"
proof -
  have "mset xs = mset (takeWhile (\<lambda>y. k y \<le> k x) xs @ dropWhile (\<lambda>y. k y \<le> k x) xs)" by simp
  also have "\<dots> = mset (takeWhile (\<lambda>y. k y \<le> k x) xs) + mset (dropWhile (\<lambda>y. k y \<le> k x) xs)"
    by (simp only: mset_append)
  finally show ?thesis by (simp add: insert_after_def)
qed

lemma insert_after_set [simp]: "set (insert_after k x xs) = insert x (set xs)"
  by (metis insert_after_mset set_mset_add_mset_insert set_mset_mset)

lemma insert_after_length [simp]: "length (insert_after k x xs) = Suc (length xs)"
  by (metis insert_after_mset size_add_mset size_mset)

lemma insert_after_Cons:
  "insert_after k x (y # ys) = (if k y \<le> k x then y # insert_after k x ys else x # y # ys)"
  by (simp add: insert_after_def)

lemma insert_after_sorted: "sorted (map k xs) \<Longrightarrow> sorted (map k (insert_after k x xs))"
  by (induction xs) (auto simp: insert_after_Cons, auto simp: insert_after_def)

text \<open>On a sorted list it is what appending and sorting (stably) gives.\<close>

lemma insert_after_sort_key:
  assumes "sorted (map k xs)"
  shows "insert_after k x xs = sort_key k (xs @ [x])"
proof (rule sym, rule properties_for_sort_key)
  show "mset (insert_after k x xs) = mset (xs @ [x])" by simp
  show "sorted (map k (insert_after k x xs))" by (rule insert_after_sorted [OF assms])
  fix y assume "y \<in> set (insert_after k x xs)"
  show "filter (\<lambda>z. k y = k z) (insert_after k x xs) = filter (\<lambda>z. k y = k z) (xs @ [x])"
    using assms
  proof (induction xs)
    case (Cons a xs)
    then show ?case
    proof (cases "k a \<le> k x")
      case False
      then have ins: "insert_after k x (a # xs) = [x] @ (a # xs)" by (simp add: insert_after_Cons)
      have "k x < k z" if "z \<in> set (a # xs)" for z using that False Cons.prems by auto
      then have none: "filter (\<lambda>z. k x = k z) (a # xs) = []" by (intro filter_False) force
      show ?thesis
      proof (cases "k y = k x")
        case True
        then show ?thesis by (simp only: ins filter_append none append_Nil append_Nil2)
      next
        case False
        then have "filter (\<lambda>z. k y = k z) [x] = []" by simp
        then show ?thesis by (simp only: ins filter_append append_Nil append_Nil2)
      qed
    qed (auto simp: insert_after_Cons)
  qed (simp add: insert_after_def)
qed

lemma sorted_takeWhile_filter: "sorted (map k xs) \<Longrightarrow> takeWhile (\<lambda>x. k x < c) xs = filter (\<lambda>x. k x < c) xs"
  by (induction xs) (auto simp: filter_empty_conv, (metis filter_False leD le_less_trans)+)

lemma sorted_takeWhile_filter_le: "sorted (map k xs) \<Longrightarrow> takeWhile (\<lambda>x. k x \<le> c) xs = filter (\<lambda>x. k x \<le> c) xs"
  by (induction xs) (auto simp: filter_empty_conv, (metis filter_False order_trans)+)

lemma sorted_dropWhile_filter: "sorted (map k xs) \<Longrightarrow> dropWhile (\<lambda>x. k x < c) xs = filter (\<lambda>x. c \<le> k x) xs"
  by (induction xs) (auto simp: filter_id_conv intro!: filter_True [symmetric])

lemma sorted_filter_map: "sorted (map k xs) \<Longrightarrow> sorted (map k (filter P xs))"
  by (induction xs) auto

end
