(* ===== verification/Adgl_Ring.thy ===== *)
theory Adgl_Ring
  imports Adgl_Ir Op_System
begin

text \<open>
  Events and the time-sorted ring buffer of a scope, with the store's limits and spill
  diagnostics (crates/airpulse_dsl-store: event.rs, ring.rs, limits.rs, diag.rs).
\<close>

subsection \<open>Limits and spill diagnostics (limits.rs, diag.rs)\<close>

record store_limits =
  max_ring_events :: nat
  max_pending :: nat
  max_causes :: nat
  max_firings :: nat
  max_topo_hops :: nat
  li_max_lookback :: duration_ms
  li_slack :: duration_ms
  li_dedup_window :: duration_ms
  li_max_disorder :: duration_ms
  li_allowed_lateness :: duration_ms
  li_idle_timeout :: duration_ms

definition dur :: "int \<Rightarrow> duration_ms" where
  "dur ms = (case duration_from_millis ms of Some d \<Rightarrow> d | None \<Rightarrow> 0)"

definition store_limits_default :: store_limits where
  "store_limits_default =
     \<lparr>max_ring_events = 4096, max_pending = 1024, max_causes = 256, max_firings = 64,
      max_topo_hops = 16, li_max_lookback = dur 60000, li_slack = dur 0, li_dedup_window = dur 1000,
      li_max_disorder = dur 0, li_allowed_lateness = dur 0, li_idle_timeout = dur 30000\<rparr>"

datatype store_diagnostic =
    RingBufferSpill scope_id event_id nat
  | WaitQueueSpill scope_id pending_match nat

fun store_diag_code :: "store_diagnostic \<Rightarrow> string" where
  "store_diag_code (RingBufferSpill s d c) = ''ADGL3005''"
| "store_diag_code (WaitQueueSpill s d c) = ''ADGL3004''"

subsection \<open>Events (event.rs)\<close>

record event_provenance =
  ev_frame :: "nat option"
  ev_source :: "string option"

record event_node =
  en_id :: event_id
  en_type :: event_type
  en_time :: event_time
  en_scope :: scope_id
  en_fields :: "(field_idx \<times> int) list"
  en_int_lists :: "(field_idx \<times> int list) list"
  en_provenance :: event_provenance

text \<open>\<open>dedup_by_key\<close> removes all but the first of consecutive elements with the same key.\<close>

fun dedup_key :: "('a \<times> 'b) list \<Rightarrow> ('a \<times> 'b) list" where
  "dedup_key [] = []"
| "dedup_key [x] = [x]"
| "dedup_key (x # y # xs) =
     (if fst x = fst y then dedup_key (x # xs) else x # dedup_key (y # xs))"

definition event_new ::
    "event_id \<Rightarrow> event_type \<Rightarrow> event_time \<Rightarrow> scope_id \<Rightarrow> (field_idx \<times> int) list \<Rightarrow> event_provenance
      \<Rightarrow> event_node" where
  "event_new eid ty t sc fs prov =
     \<lparr>en_id = eid, en_type = ty, en_time = t, en_scope = sc,
      en_fields = dedup_key (sort_key fst fs), en_int_lists = [], en_provenance = prov\<rparr>"

text \<open>\<open>binary_search_by_key\<close> on the fields, which are sorted and have distinct indices.\<close>

definition event_field :: "event_node \<Rightarrow> field_idx \<Rightarrow> int option" where
  "event_field e i = map_of (en_fields e) i"

definition max_int_list_values :: nat where "max_int_list_values = 64"

fun put_sorted :: "field_idx \<Rightarrow> 'v \<Rightarrow> (field_idx \<times> 'v) list \<Rightarrow> (field_idx \<times> 'v) list" where
  "put_sorted i v [] = [(i, v)]"
| "put_sorted i v ((j, w) # xs) =
     (if i = j then (i, v) # xs else if i < j then (i, v) # (j, w) # xs else (j, w) # put_sorted i v xs)"

definition with_int_list_field :: "field_idx \<Rightarrow> int list \<Rightarrow> event_node \<Rightarrow> event_node" where
  "with_int_list_field i values e =
     e\<lparr>en_int_lists := put_sorted i (take max_int_list_values (remdups_adj (sort values))) (en_int_lists e)\<rparr>"

definition int_list_field :: "event_node \<Rightarrow> field_idx \<Rightarrow> int list option" where
  "int_list_field e i = map_of (en_int_lists e) i"

lemma dedup_key_fst: "fst ` set (dedup_key xs) = fst ` set xs"
  by (induction xs rule: dedup_key.induct) auto

lemma dedup_key_sorted: "sorted (map fst xs) \<Longrightarrow> sorted (map fst (dedup_key xs)) \<and> distinct (map fst (dedup_key xs))"
proof (induction xs rule: dedup_key.induct)
  case (3 x y xs)
  have "fst ` set (dedup_key (y # xs)) = fst ` set (y # xs)" by (rule dedup_key_fst)
  then have keys: "fst z \<in> fst ` set (y # xs)" if "z \<in> set (dedup_key (y # xs))" for z
    using that by blast
  show ?case
  proof (cases "fst x = fst y")
    case True
    with 3 show ?thesis by simp
  next
    case False
    with "3.prems" have "fst x < fst z" if "z \<in> set (y # xs)" for z using that by fastforce
    with keys have "\<forall>z\<in>set (dedup_key (y # xs)). fst x < fst z" by fastforce
    with 3 False show ?thesis by fastforce
  qed
qed auto

lemma dedup_key_map_of: "sorted (map fst xs) \<Longrightarrow> map_of (dedup_key xs) = map_of xs"
proof (induction xs rule: dedup_key.induct)
  case (3 x y xs)
  then show ?case by (cases x; cases y; cases "fst x = fst y") auto
qed auto

lemma map_of_sort_key: "map_of (sort_key fst xs) (i :: 'a :: linorder) = map_of xs i"
proof -
  have m: "map_of ys i = map_option snd (find (\<lambda>p. fst p = i) ys)" for ys :: "('a \<times> 'b) list"
    by (induction ys) auto
  have "find (\<lambda>p. fst p = i) ys = (case filter (\<lambda>p. fst p = i) ys of [] \<Rightarrow> None | p # _ \<Rightarrow> Some p)"
    for ys :: "('a \<times> 'b) list"
    by (induction ys) auto
  then have "find (\<lambda>p. fst p = i) (sort_key fst xs) = find (\<lambda>p. fst p = i) xs"
    by (simp add: sort_key_stable)
  then show ?thesis by (simp add: m)
qed

text \<open>Event fields. Looking a field up in a constructed event finds the first value the
  caller supplied for it (\<open>Duplicate indices keep the first occurrence\<close>), and the
  stored fields are sorted by index without duplicates, as the binary search needs.\<close>

theorem event_new_fields:
  "event_field (event_new eid ty t sc fs prov) i = map_of fs i \<and>
   sorted_wrt (<) (map fst (en_fields (event_new eid ty t sc fs prov)))"
proof -
  have "sorted (map fst (sort_key fst fs))" by simp
  from dedup_key_sorted [OF this] dedup_key_map_of [OF this] show ?thesis
    by (simp add: event_field_def event_new_def map_of_sort_key strict_sorted_iff)
qed

subsection \<open>The ring buffer (ring.rs)\<close>

record ring_buffer =
  rb_buf :: "event_node list"
  rb_scope :: scope_id
  rb_capacity :: nat

definition ring_new :: "scope_id \<Rightarrow> nat \<Rightarrow> ring_buffer" where
  "ring_new sc cap = \<lparr>rb_buf = [], rb_scope = sc, rb_capacity = max cap 1\<rparr>"

definition ring_push :: "event_node \<Rightarrow> ring_buffer \<Rightarrow> store_diagnostic option \<times> ring_buffer" where
  "ring_push e r =
     (let (spill, buf) =
        (if length (rb_buf r) = rb_capacity r
         then (case rb_buf r of
                 [] \<Rightarrow> (None, [])
               | dropped # rest \<Rightarrow>
                   (Some (RingBufferSpill (rb_scope r) (en_id dropped) (rb_capacity r)), rest))
         else (None, rb_buf r))
      in (spill, r\<lparr>rb_buf := insert_after en_time e buf\<rparr>))"

definition scan_window :: "event_time \<Rightarrow> duration_ms \<Rightarrow> duration_ms \<Rightarrow> ring_buffer \<Rightarrow> event_node list" where
  "scan_window anchor back fwd r =
     (let lo = time_sub anchor back; hi = time_add anchor fwd;
          start = length (takeWhile (\<lambda>e. en_time e < lo) (rb_buf r))
      in takeWhile (\<lambda>e. en_time e \<le> hi) (drop start (rb_buf r)))"

definition ring_get :: "event_id \<Rightarrow> ring_buffer \<Rightarrow> event_node option" where
  "ring_get eid r = find (\<lambda>e. en_id e = eid) (rb_buf r)"

text \<open>The \<open>while let Some(front)\<close> loop of \<open>gc\<close>.\<close>

fun evict_front :: "event_time \<Rightarrow> event_node list \<Rightarrow> nat \<times> event_node list" where
  "evict_front cutoff [] = (0, [])"
| "evict_front cutoff (e # es) =
     (if en_time e < cutoff then (case evict_front cutoff es of (n, rest) \<Rightarrow> (Suc n, rest))
      else (0, e # es))"

definition ring_gc :: "event_time \<Rightarrow> duration_ms \<Rightarrow> ring_buffer \<Rightarrow> nat \<times> ring_buffer" where
  "ring_gc watermark max_lookback r =
     (case evict_front (time_sub watermark max_lookback) (rb_buf r) of
        (n, buf) \<Rightarrow> (n, r\<lparr>rb_buf := buf\<rparr>))"

datatype ring_op = RingPush event_node | RingGc event_time duration_ms

fun ring_apply :: "ring_op \<Rightarrow> ring_buffer \<Rightarrow> ring_buffer option" where
  "ring_apply (RingPush e) r = Some (snd (ring_push e r))"
| "ring_apply (RingGc wm lb) r = Some (snd (ring_gc wm lb r))"

definition ring_inv :: "nat \<Rightarrow> ring_buffer \<Rightarrow> bool" where
  "ring_inv cap r \<longleftrightarrow>
     sorted (map en_time (rb_buf r)) \<and> length (rb_buf r) \<le> rb_capacity r \<and> rb_capacity r = max cap 1"

lemma evict_front_filter:
  assumes "sorted (map en_time es)" "evict_front c es = (n, es')"
  shows "es' = filter (\<lambda>e. c \<le> en_time e) es \<and> n + length es' = length es"
proof -
  have "evict_front c es = (length (takeWhile (\<lambda>e. en_time e < c) es), dropWhile (\<lambda>e. en_time e < c) es)"
    by (induction es) auto
  with assms sorted_dropWhile_filter [of en_time es c] show ?thesis
    by (metis Pair_inject length_append takeWhile_dropWhile_id)
qed

lemma ring_push_inv: "ring_inv cap r \<Longrightarrow> ring_inv cap (snd (ring_push e r))"
  unfolding ring_inv_def ring_push_def
  by (cases "rb_buf r") (auto simp: insert_after_sorted le_less)

lemma ring_gc_inv: "ring_inv cap r \<Longrightarrow> ring_inv cap (snd (ring_gc wm lb r))"
  unfolding ring_inv_def ring_gc_def
  using evict_front_filter [of "rb_buf r" "time_sub wm lb"]
  by (auto simp: sorted_filter_map split: prod.split)

interpretation ring: op_system ring_apply "ring_inv cap"
proof
  fix s x t
  assume "ring_inv cap s" "ring_apply x s = Some t"
  then show "ring_inv cap t" by (cases x) (auto simp: ring_push_inv ring_gc_inv)
qed

lemma ring_new_inv: "ring_inv cap (ring_new sc cap)"
  by (simp add: ring_inv_def ring_new_def)

text \<open>The ring buffer. Whatever events are pushed, in whatever order, and whenever it is
  collected, the buffer is sorted by time and never exceeds its capacity.\<close>

theorem ring_sorted_bounded:
  assumes "run_ops ring_apply ops (ring_new sc cap) = Some r"
  shows "sorted (map en_time (rb_buf r)) \<and> length (rb_buf r) \<le> max cap 1"
  using ring.inv_run [OF assms ring_new_inv] by (simp add: ring_inv_def)

text \<open>C38: window scans. In every reachable ring, \<open>scan_window\<close> yields exactly the buffered
  events of \<open>[anchor - back, anchor + fwd]\<close>, both ends included, in time order; and garbage
  collection removes exactly the events older than the horizon.\<close>

theorem ring_window_exact:
  assumes "run_ops ring_apply ops (ring_new sc cap) = Some r"
  shows "scan_window a back fwd r
      = filter (\<lambda>e. time_sub a back \<le> en_time e \<and> en_time e \<le> time_add a fwd) (rb_buf r)
    \<and> rb_buf (snd (ring_gc wm lb r)) = filter (\<lambda>e. time_sub wm lb \<le> en_time e) (rb_buf r)"
proof
  have sorted: "sorted (map en_time (rb_buf r))"
    using ring.inv_run [OF assms ring_new_inv] by (simp add: ring_inv_def)
  have "drop (length (takeWhile P xs)) xs = dropWhile P xs" for P and xs :: "event_node list"
    by (rule dropWhile_eq_drop [symmetric])
  then show "scan_window a back fwd r
      = filter (\<lambda>e. time_sub a back \<le> en_time e \<and> en_time e \<le> time_add a fwd) (rb_buf r)"
    using sorted
    by (simp add: scan_window_def Let_def sorted_dropWhile_filter sorted_filter_map
        sorted_takeWhile_filter_le filter_filter conj_commute)
  show "rb_buf (snd (ring_gc wm lb r)) = filter (\<lambda>e. time_sub wm lb \<le> en_time e) (rb_buf r)"
    using evict_front_filter [OF sorted] by (auto simp: ring_gc_def split: prod.split)
qed

definition plain_event :: "event_id \<Rightarrow> event_time \<Rightarrow> event_node" where
  "plain_event eid t =
     event_new eid ''tcp.retransmission_burst'' t (scope_global) [(0, 1500)] \<lparr>ev_frame = None, ev_source = None\<rparr>"

definition demo_ring :: ring_buffer where
  "demo_ring = the (run_ops ring_apply (map (\<lambda>(i, t). RingPush (plain_event i t)) [(1, 30), (2, 10), (3, 20), (4, 20)])
     (ring_new (scope_global) 3))"

lemma demo_ring_runs:
  "run_ops ring_apply (map (\<lambda>(i, t). RingPush (plain_event i t)) [(1, 30), (2, 10), (3, 20), (4, 20)])
     (ring_new (scope_global) 3) = Some demo_ring"
  by (simp add: demo_ring_def)

theorem ring_sorted_bounded_witness: "length (rb_buf demo_ring) \<le> 3"
  using ring_sorted_bounded [OF demo_ring_runs] by simp

theorem ring_window_exact_witness:
  "map en_id (scan_window 30 10 0 demo_ring) = [3, 4, 1]"
proof -
  have "map en_id (filter (\<lambda>e. time_sub 30 10 \<le> en_time e \<and> en_time e \<le> time_add 30 0) (rb_buf demo_ring)) = [3, 4, 1]"
    by code_simp
  with ring_window_exact [OF demo_ring_runs, of 30 10 0] show ?thesis by simp
qed

text \<open>A late event that is older than everything in a full ring replaces a newer one. The
  documentation says the oldest event is dropped; the buffer drops its front before it looks
  at the new event, so it loses the event of time 10 and keeps the one of time 5, which the
  next collection may remove.\<close>

theorem full_ring_keeps_late_event:
  "let r = snd (ring_push (plain_event 2 20) (snd (ring_push (plain_event 1 10) (ring_new (scope_global) 2))));
       (spill, r') = ring_push (plain_event 3 5) r
   in spill = Some (RingBufferSpill (scope_global) 1 2) \<and> map en_time (rb_buf r') = [5, 20]"
  by code_simp

end
