(* ===== verification/Adgl_Store.thy ===== *)
theory Adgl_Store
  imports Adgl_Ring
begin

text \<open>
  The wait queue of suspended matches, the diagnostic subgraph with its deduplication and
  cooldown sets, and the graph store with its monotone watermark (crates/airpulse_dsl-store:
  waitqueue.rs, subgraph.rs, store.rs). A \<open>DashMap\<close> operation is atomic; hash maps are
  association lists, hash sets are lists without duplicates.
\<close>

subsection \<open>The wait queue (waitqueue.rs)\<close>

text \<open>The \<open>BinaryHeap<Reverse<PendingMatch>>\<close> is the list of its elements in the order
  \<open>pop\<close> yields them.\<close>

record wait_queue =
  wq_heap :: "pending_match list"
  wq_scope :: scope_id
  wq_capacity :: nat

definition wq_new :: "scope_id \<Rightarrow> nat \<Rightarrow> wait_queue" where
  "wq_new sc cap = \<lparr>wq_heap = [], wq_scope = sc, wq_capacity = max cap 1\<rparr>"

definition wq_len :: "wait_queue \<Rightarrow> nat" where
  "wq_len q = length (wq_heap q)"

definition wq_push :: "pending_match \<Rightarrow> wait_queue \<Rightarrow> store_diagnostic option \<times> wait_queue" where
  "wq_push p q =
     (if length (wq_heap q) < wq_capacity q
      then (None, q\<lparr>wq_heap := insert_after pm_key p (wq_heap q)\<rparr>)
      else if wq_heap q \<noteq> [] \<and> pm_key p < pm_key (last (wq_heap q))
      then (Some (WaitQueueSpill (wq_scope q) (last (wq_heap q)) (wq_capacity q)),
            q\<lparr>wq_heap := insert_after pm_key p (butlast (wq_heap q))\<rparr>)
      else (Some (WaitQueueSpill (wq_scope q) p (wq_capacity q)), q))"

definition wq_peek :: "wait_queue \<Rightarrow> pending_match option" where
  "wq_peek q = (case wq_heap q of [] \<Rightarrow> None | p # _ \<Rightarrow> Some p)"

text \<open>The \<open>while let Some(top) = peek()\<close> loop.\<close>

fun pop_while :: "event_time \<Rightarrow> pending_match list \<Rightarrow> pending_match list \<times> pending_match list" where
  "pop_while wm [] = ([], [])"
| "pop_while wm (p # ps) =
     (if pm_upper_bound p < wm then (case pop_while wm ps of (ex, rest) \<Rightarrow> (p # ex, rest))
      else ([], p # ps))"

definition wq_pop_expired :: "event_time \<Rightarrow> wait_queue \<Rightarrow> pending_match list \<times> wait_queue" where
  "wq_pop_expired wm q =
     (case pop_while wm (wq_heap q) of (ex, rest) \<Rightarrow> (ex, q\<lparr>wq_heap := rest\<rparr>))"

definition wq_drain_all :: "wait_queue \<Rightarrow> pending_match list \<times> wait_queue" where
  "wq_drain_all q = (sort_key pm_key (wq_heap q), q\<lparr>wq_heap := []\<rparr>)"

datatype wq_op = WqPush pending_match | WqPop event_time | WqDrain

fun wq_apply :: "wq_op \<Rightarrow> wait_queue \<Rightarrow> wait_queue option" where
  "wq_apply (WqPush p) q = Some (snd (wq_push p q))"
| "wq_apply (WqPop wm) q = Some (snd (wq_pop_expired wm q))"
| "wq_apply WqDrain q = Some (snd (wq_drain_all q))"

definition wq_inv :: "nat \<Rightarrow> wait_queue \<Rightarrow> bool" where
  "wq_inv cap q \<longleftrightarrow>
     sorted (map pm_key (wq_heap q)) \<and> length (wq_heap q) \<le> wq_capacity q \<and> wq_capacity q = max cap 1"

lemma sorted_butlast: "sorted (map k xs) \<Longrightarrow> sorted (map k (butlast xs))"
  by (metis append_butlast_last_id butlast.simps(1) map_append sorted_append)

lemma wq_push_inv: "wq_inv cap q \<Longrightarrow> wq_inv cap (snd (wq_push p q))"
  by (auto simp: wq_inv_def wq_push_def insert_after_sorted sorted_butlast)

lemma pop_while_eq:
  "pop_while wm ps = (takeWhile (\<lambda>p. pm_upper_bound p < wm) ps, dropWhile (\<lambda>p. pm_upper_bound p < wm) ps)"
  by (induction ps) auto

text \<open>The heap order refines the order of the upper bounds.\<close>

lemma pm_sorted_upper: "sorted (map pm_key ps) \<Longrightarrow> sorted (map pm_upper_bound ps)"
  by (induction ps) (auto dest: pm_key_upper)

lemma pop_while_filter:
  assumes "sorted (map pm_key ps)"
  shows "pop_while wm ps = (filter (\<lambda>p. pm_upper_bound p < wm) ps, filter (\<lambda>p. wm \<le> pm_upper_bound p) ps)"
  using pm_sorted_upper [OF assms]
  by (simp add: pop_while_eq sorted_takeWhile_filter sorted_dropWhile_filter)

lemma wq_pop_inv: "wq_inv cap q \<Longrightarrow> wq_inv cap (snd (wq_pop_expired wm q))"
  by (auto simp: wq_inv_def wq_pop_expired_def pop_while_filter sorted_filter_map
      intro: le_trans [OF length_filter_le])

interpretation wait: op_system wq_apply "wq_inv cap"
proof
  fix s x t
  assume "wq_inv cap s" "wq_apply x s = Some t"
  then show "wq_inv cap t"
    by (cases x) (auto simp: wq_push_inv wq_pop_inv, auto simp: wq_inv_def wq_drain_all_def)
qed

lemma wq_new_inv: "wq_inv cap (wq_new sc cap)"
  by (simp add: wq_inv_def wq_new_def)

lemma take_sort_full:
  assumes "sorted (map k xs)" "xs \<noteq> []" "k x < k (last xs)"
  shows "take (length xs) (insert_after k x xs) = insert_after k x (butlast xs)"
proof -
  obtain ys y where xs: "xs = ys @ [y]" using assms(2) by (metis append_butlast_last_id)
  have "insert_after k x (ys @ [y]) = insert_after k x ys @ [y]"
    using assms(3) by (auto simp: insert_after_def xs takeWhile_tail dropWhile_append)
  then show ?thesis by (simp add: xs)
qed

lemma take_sort_least:
  assumes "sorted (map k xs)" "\<not> k x < k (last xs)" "xs \<noteq> []"
  shows "take (length xs) (insert_after k x xs) = xs"
proof -
  obtain ys y where xs: "xs = ys @ [y]" using assms(3) by (metis append_butlast_last_id)
  with assms(1,2) have "\<forall>z\<in>set xs. k z \<le> k x" by (auto simp: sorted_append)
  then have "insert_after k x xs = xs @ [x]"
    by (simp add: insert_after_def takeWhile_eq_all_conv [THEN iffD2] dropWhile_eq_Nil_conv [THEN iffD2])
  then show ?thesis by simp
qed

text \<open>The wait queue. In every reachable queue, suspending a match leaves the \<open>capacity\<close>
  most urgent of the matches held and the new one (all of them, while there is room), in
  resume order, and a spilled match is none of those kept; the sweep at a watermark returns
  exactly the matches whose window has closed, most urgent first.\<close>

theorem wait_queue_keeps_most_urgent:
  assumes "run_ops wq_apply ops (wq_new sc cap) = Some q"
  shows "wq_heap (snd (wq_push p q)) = take (max cap 1) (sort_key pm_key (wq_heap q @ [p]))
    \<and> fst (wq_pop_expired wm q) = filter (\<lambda>p. pm_upper_bound p < wm) (wq_heap q)
    \<and> sorted (map pm_key (fst (wq_pop_expired wm q)))"
proof -
  have inv: "sorted (map pm_key (wq_heap q))" "length (wq_heap q) \<le> max cap 1" "wq_capacity q = max cap 1"
    using wait.inv_run [OF assms wq_new_inv] by (auto simp: wq_inv_def)
  have "wq_heap (snd (wq_push p q)) = take (max cap 1) (insert_after pm_key p (wq_heap q))"
  proof (cases "length (wq_heap q) < max cap 1")
    case True
    then show ?thesis using inv by (simp add: wq_push_def)
  next
    case False
    then have full: "max cap 1 = length (wq_heap q)" "wq_heap q \<noteq> []" using inv(2) by auto
    show ?thesis
    proof (cases "pm_key p < pm_key (last (wq_heap q))")
      case True
      with full inv(3) take_sort_full [OF inv(1) full(2) True] show ?thesis
        by (simp only: wq_push_def) simp
    next
      case False
      with full inv(3) take_sort_least [OF inv(1) False full(2)] show ?thesis
        by (simp only: wq_push_def) simp
    qed
  qed
  then show ?thesis
    using inv by (simp add: insert_after_sort_key wq_pop_expired_def pop_while_filter sorted_filter_map)
qed

definition plain_pending :: "rule_id \<Rightarrow> event_id \<Rightarrow> event_time \<Rightarrow> pending_match" where
  "plain_pending r a ub = \<lparr>pm_rule = r, pm_anchor_event = a, pm_upper_bound = ub, pm_scope = scope_global\<rparr>"

theorem wait_queue_keeps_most_urgent_witness:
  "map pm_upper_bound (wq_heap (snd (wq_push (plain_pending ''r'' 3 15)
     (snd (wq_push (plain_pending ''r'' 2 10) (snd (wq_push (plain_pending ''r'' 1 20) (wq_new (scope_global) 2))))))))
   = [10, 15]"
proof -
  let ?q = "snd (wq_push (plain_pending ''r'' 2 10) (snd (wq_push (plain_pending ''r'' 1 20) (wq_new (scope_global) 2))))"
  have "run_ops wq_apply [WqPush (plain_pending ''r'' 1 20), WqPush (plain_pending ''r'' 2 10)] (wq_new (scope_global) 2)
      = Some ?q" by simp
  from wait_queue_keeps_most_urgent [OF this, of "plain_pending ''r'' 3 15"]
  have "wq_heap (snd (wq_push (plain_pending ''r'' 3 15) ?q))
      = take (max 2 1) (sort_key pm_key (wq_heap ?q @ [plain_pending ''r'' 3 15]))" by blast
  moreover have "map pm_upper_bound (take (max 2 1) (sort_key pm_key (wq_heap ?q @ [plain_pending ''r'' 3 15]))) = [10, 15]"
    by (simp add: wq_push_def wq_new_def insert_after_def pm_key_def plain_pending_def numeral_2_eq_2)
  ultimately show ?thesis by (simp only:)
qed

subsection \<open>The subgraph (subgraph.rs)\<close>

record runtime_prov_key =
  rp_key :: prov_key
  rp_window :: int

text \<open>Euclidean division by the positive window length is \<open>div\<close>.\<close>

definition window_id :: "event_time \<Rightarrow> duration_ms \<Rightarrow> int" where
  "window_id t dedup_window = t div max dedup_window 1"

record cause_node =
  cn_id :: node_id
  cn_kind :: cause_kind
  cn_target :: scope_id
  cn_time :: event_time
  cn_confidence :: confidence
  cn_evidence :: "node_id list"
  cn_provenance :: "runtime_prov_key list"

record problem_node =
  pn_id :: node_id
  pn_kind :: problem_kind
  pn_target :: scope_id
  pn_time :: event_time
  pn_severity :: severity
  pn_evidence :: "node_id list"
  pn_sarif_id :: sarif_id
  pn_superseded :: bool

datatype ambiguity_state = Active | Resolved

record ambiguity_node =
  am_id :: node_id
  am_causes :: "cause_kind \<times> cause_kind"
  am_target :: scope_id
  am_state :: ambiguity_state

datatype evidence_edge_kind = Supports | Contradicts | Explains | RollsUp

datatype edge_endpoint = EndEvent event_id | EndNode node_id

record evidence_edge =
  ee_kind :: evidence_edge_kind
  ee_src :: edge_endpoint
  ee_dst :: node_id

record subgraph =
  sg_causes :: "(cause_kind \<times> scope_id, cause_node) hmap"
  sg_problems :: "problem_node list"
  sg_ambiguities :: "((cause_kind \<times> cause_kind) \<times> scope_id, ambiguity_node) hmap"
  sg_edges :: "evidence_edge list"
  sg_seen :: "runtime_prov_key list"
  sg_emitted :: "(rule_id \<times> problem_kind \<times> scope_id \<times> int) list"

definition subgraph_new :: subgraph where
  "subgraph_new =
     \<lparr>sg_causes = [], sg_problems = [], sg_ambiguities = [], sg_edges = [], sg_seen = [], sg_emitted = []\<rparr>"

text \<open>\<open>HashSet::insert\<close>: whether the element was new.\<close>

definition set_insert :: "'a \<Rightarrow> 'a list \<Rightarrow> bool \<times> 'a list" where
  "set_insert x xs = (x \<notin> set xs, List.insert x xs)"

definition try_insert_provenance :: "runtime_prov_key \<Rightarrow> subgraph \<Rightarrow> bool \<times> subgraph" where
  "try_insert_provenance k sg =
     (case set_insert k (sg_seen sg) of (new, seen) \<Rightarrow> (new, sg\<lparr>sg_seen := seen\<rparr>))"

definition has_provenance :: "runtime_prov_key \<Rightarrow> subgraph \<Rightarrow> bool" where
  "has_provenance k sg = (k \<in> set (sg_seen sg))"

definition within_cooldown ::
    "rule_id \<Rightarrow> problem_kind \<Rightarrow> scope_id \<Rightarrow> event_time \<Rightarrow> duration_ms
      \<Rightarrow> (rule_id \<times> problem_kind \<times> scope_id \<times> int) list \<Rightarrow> bool" where
  "within_cooldown rule problem target wm cooldown emitted =
     list_ex (\<lambda>(r, p, t, prev_wm).
       r = rule \<and> p = problem \<and> t = target \<and> i64_saturate (wm - prev_wm) \<le> cooldown) emitted"

definition try_mark_emitted ::
    "rule_id \<Rightarrow> problem_kind \<Rightarrow> scope_id \<Rightarrow> event_time \<Rightarrow> duration_ms \<Rightarrow> subgraph \<Rightarrow> bool \<times> subgraph" where
  "try_mark_emitted rule problem target wm cooldown sg =
     (if within_cooldown rule problem target wm cooldown (sg_emitted sg) then (False, sg)
      else
        (case set_insert (rule, problem, target, wm)
                (filter (\<lambda>(r, p, t, _). \<not> (r = rule \<and> p = problem \<and> t = target)) (sg_emitted sg)) of
           (new, emitted) \<Rightarrow> (new, sg\<lparr>sg_emitted := emitted\<rparr>)))"

definition sg_prune_emitted :: "event_time \<Rightarrow> duration_ms \<Rightarrow> subgraph \<Rightarrow> nat \<times> subgraph" where
  "sg_prune_emitted wm max_cooldown sg =
     (let horizon = time_sub wm max_cooldown;
          kept = filter (\<lambda>(_, _, _, e). horizon \<le> e) (sg_emitted sg)
      in (length (sg_emitted sg) - length kept, sg\<lparr>sg_emitted := kept\<rparr>))"

definition prune_provenance ::
    "event_time \<Rightarrow> duration_ms \<Rightarrow> duration_ms \<Rightarrow> subgraph \<Rightarrow> nat \<times> subgraph" where
  "prune_provenance wm max_lookback dedup_window sg =
     (let horizon = window_id (time_sub wm max_lookback) dedup_window;
          kept = filter (\<lambda>k. horizon \<le> rp_window k) (sg_seen sg)
      in (length (sg_seen sg) - length kept, sg\<lparr>sg_seen := kept\<rparr>))"

definition push_problem :: "problem_node \<Rightarrow> subgraph \<Rightarrow> subgraph" where
  "push_problem p sg = sg\<lparr>sg_problems := sg_problems sg @ [p]\<rparr>"

fun supersede_list :: "problem_kind \<Rightarrow> scope_id \<Rightarrow> problem_node list \<Rightarrow> nat \<times> problem_node list" where
  "supersede_list kind target [] = (0, [])"
| "supersede_list kind target (p # ps) =
     (case supersede_list kind target ps of
        (n, ps') \<Rightarrow>
          if \<not> pn_superseded p \<and> pn_kind p = kind \<and> pn_target p = target
          then (Suc n, p\<lparr>pn_superseded := True\<rparr> # ps') else (n, p # ps'))"

definition supersede_problems :: "problem_kind \<Rightarrow> scope_id \<Rightarrow> subgraph \<Rightarrow> nat \<times> subgraph" where
  "supersede_problems kind target sg =
     (case supersede_list kind target (sg_problems sg) of (n, ps) \<Rightarrow> (n, sg\<lparr>sg_problems := ps\<rparr>))"

text \<open>Deduplication: an \<open>infer\<close> is admitted once per key, until its key is pruned.\<close>

lemma provenance_once:
  "fst (try_insert_provenance k sg) = (\<not> has_provenance k sg)"
  "has_provenance k' (snd (try_insert_provenance k sg)) = (k' = k \<or> has_provenance k' sg)"
  by (auto simp: try_insert_provenance_def has_provenance_def set_insert_def)

text \<open>Pruning the deduplication set is safe. After garbage collection at a watermark, a key
  of any event that collection keeps (an event not older than the horizon) is answered as
  before: no dedup window is reopened.\<close>

theorem prune_provenance_safe:
  assumes "time_sub wm max_lookback \<le> t" "rp_window k = window_id t dedup_window"
  shows "has_provenance k (snd (prune_provenance wm max_lookback dedup_window sg)) = has_provenance k sg
    \<and> fst (try_insert_provenance k (snd (prune_provenance wm max_lookback dedup_window sg)))
      = fst (try_insert_provenance k sg)"
proof -
  have "window_id (time_sub wm max_lookback) dedup_window \<le> rp_window k"
    unfolding assms(2) window_id_def by (rule zdiv_mono1) (use assms(1) in simp_all)
  then show ?thesis
    by (simp add: prune_provenance_def has_provenance_def provenance_once Let_def)
qed

text \<open>The recorded watermarks are \<open>i64\<close> values.\<close>

definition emitted_ok :: "subgraph \<Rightarrow> bool" where
  "emitted_ok sg = list_all (\<lambda>(r, p, t, e). i64_ok e) (sg_emitted sg)"

text \<open>Pruning the cooldown set is safe. If no rule cools down for longer than
  \<open>max_cooldown\<close>, then after \<open>prune_emitted\<close> at a watermark every later \<open>try_mark_emitted\<close>
  decides as it would have without the pruning. The cooldown must be below the largest
  \<open>i64\<close>: there the saturating difference would suppress forever.\<close>

theorem prune_emitted_safe:
  assumes "emitted_ok sg" "wm \<le> wm'" "cooldown \<le> max_cooldown" "cooldown < i64_max" "i64_ok wm'"
  shows "fst (try_mark_emitted rule problem target wm' cooldown (snd (sg_prune_emitted wm max_cooldown sg)))
    = fst (try_mark_emitted rule problem target wm' cooldown sg)"
proof -
  have "time_sub wm max_cooldown \<le> e" if "i64_ok e" "i64_saturate (wm' - e) \<le> cooldown" for e
    using that assms(2-5) by (auto simp: time_sub_def i64_defs)
  then have "within_cooldown rule problem target wm' cooldown (sg_emitted (snd (sg_prune_emitted wm max_cooldown sg)))
      = within_cooldown rule problem target wm' cooldown (sg_emitted sg)"
    using assms(1) by (fastforce simp: within_cooldown_def sg_prune_emitted_def list_ex_iff emitted_ok_def list_all_iff Let_def)
  moreover have "fst (try_mark_emitted rule problem target wm' cooldown sg) =
      (\<not> within_cooldown rule problem target wm' cooldown (sg_emitted sg))" for sg
    by (auto simp: try_mark_emitted_def set_insert_def)
  ultimately show ?thesis by simp
qed

definition demo_key :: "int \<Rightarrow> runtime_prov_key" where
  "demo_key w = \<lparr>rp_key = \<lparr>pk_rule = ''r'', pk_cause = ''C'', pk_target_hash = 7\<rparr>, rp_window = w\<rparr>"

theorem prune_provenance_safe_witness:
  "has_provenance (demo_key 9) (snd (prune_provenance 10000 1500 1000 (snd (try_insert_provenance (demo_key 9) subgraph_new))))"
proof -
  have "time_sub 10000 1500 \<le> 9000" "rp_window (demo_key 9) = window_id 9000 1000"
    by (simp_all add: time_sub_def i64_defs window_id_def demo_key_def)
  from prune_provenance_safe [OF this] show ?thesis by (simp add: provenance_once)
qed

theorem prune_emitted_safe_witness:
  "\<not> fst (try_mark_emitted ''r'' ''P'' (scope_global) 150 100
     (snd (sg_prune_emitted 120 100 (snd (try_mark_emitted ''r'' ''P'' (scope_global) 60 100 subgraph_new)))))"
proof -
  let ?sg = "snd (try_mark_emitted ''r'' ''P'' (scope_global) 60 100 subgraph_new)"
  have "emitted_ok ?sg" "\<not> fst (try_mark_emitted ''r'' ''P'' (scope_global) 150 100 ?sg)"
    by (simp_all add: try_mark_emitted_def subgraph_new_def within_cooldown_def set_insert_def emitted_ok_def i64_defs)
  with prune_emitted_safe [OF this(1), of 120 150 100 100 "''r''" "''P''" "scope_global"] show ?thesis
    by (simp add: i64_defs)
qed

text \<open>The cooldown set holds one entry per key at most: re-emission replaces the expired one.\<close>

definition emitted_once :: "subgraph \<Rightarrow> bool" where
  "emitted_once sg = distinct (map (\<lambda>(r, p, t, e). (r, p, t)) (sg_emitted sg))"

lemma mark_emitted_once: "emitted_once sg \<Longrightarrow> emitted_once (snd (try_mark_emitted rule problem target wm cooldown sg))"
  by (auto simp: emitted_once_def try_mark_emitted_def set_insert_def distinct_map_filter)

subsection \<open>The graph store (store.rs)\<close>

record graph_store =
  gs_partitions :: "(scope_id, subgraph) hmap"
  gs_rings :: "(scope_id, ring_buffer) hmap"
  gs_watermark :: event_time
  gs_pending :: "(scope_id, wait_queue) hmap"
  gs_limits :: store_limits

definition store_new :: "store_limits \<Rightarrow> graph_store" where
  "store_new li =
     \<lparr>gs_partitions = [], gs_rings = [], gs_watermark = i64_min, gs_pending = [], gs_limits = li\<rparr>"

definition advance_watermark :: "event_time \<Rightarrow> graph_store \<Rightarrow> event_time \<times> graph_store" where
  "advance_watermark t gs =
     (let wm = max (gs_watermark gs) t in (wm, gs\<lparr>gs_watermark := wm\<rparr>))"

definition push_event :: "event_node \<Rightarrow> graph_store \<Rightarrow> store_diagnostic option \<times> graph_store" where
  "push_event e gs =
     (let sc = en_scope e;
          r = (case hm_get (gs_rings gs) sc of
                 Some r \<Rightarrow> r | None \<Rightarrow> ring_new sc (max_ring_events (gs_limits gs)))
      in case ring_push e r of (spill, r') \<Rightarrow> (spill, gs\<lparr>gs_rings := hm_put sc r' (gs_rings gs)\<rparr>))"

definition store_ring :: "scope_id \<Rightarrow> graph_store \<Rightarrow> ring_buffer option" where
  "store_ring sc gs = hm_get (gs_rings gs) sc"

text \<open>\<open>partition_mut(scope)\<close> hands out the subgraph for mutation, created on first use.\<close>

definition partition :: "scope_id \<Rightarrow> graph_store \<Rightarrow> subgraph" where
  "partition sc gs = (case hm_get (gs_partitions gs) sc of Some sg \<Rightarrow> sg | None \<Rightarrow> subgraph_new)"

definition partition_mut :: "scope_id \<Rightarrow> (subgraph \<Rightarrow> 'a \<times> subgraph) \<Rightarrow> graph_store \<Rightarrow> 'a \<times> graph_store" where
  "partition_mut sc f gs =
     (case f (partition sc gs) of (x, sg) \<Rightarrow> (x, gs\<lparr>gs_partitions := hm_put sc sg (gs_partitions gs)\<rparr>))"

definition suspend :: "pending_match \<Rightarrow> graph_store \<Rightarrow> store_diagnostic option \<times> graph_store" where
  "suspend p gs =
     (let sc = pm_scope p;
          q = (case hm_get (gs_pending gs) sc of
                 Some q \<Rightarrow> q | None \<Rightarrow> wq_new sc (max_pending (gs_limits gs)))
      in case wq_push p q of (spill, q') \<Rightarrow> (spill, gs\<lparr>gs_pending := hm_put sc q' (gs_pending gs)\<rparr>))"

definition pop_expired :: "event_time \<Rightarrow> graph_store \<Rightarrow> pending_match list \<times> graph_store" where
  "pop_expired wm gs =
     (sort_key pm_key (concat (map (\<lambda>(sc, q). fst (wq_pop_expired wm q)) (gs_pending gs))),
      gs\<lparr>gs_pending := map (\<lambda>(sc, q). (sc, snd (wq_pop_expired wm q))) (gs_pending gs)\<rparr>)"

definition store_gc :: "event_time \<Rightarrow> duration_ms \<Rightarrow> graph_store \<Rightarrow> nat \<times> graph_store" where
  "store_gc wm max_lookback gs =
     (sum_list (map (\<lambda>(sc, r). fst (ring_gc wm max_lookback r)) (gs_rings gs)),
      gs\<lparr>gs_rings := map (\<lambda>(sc, r). (sc, snd (ring_gc wm max_lookback r))) (gs_rings gs),
         gs_partitions := map (\<lambda>(sc, sg).
           (sc, snd (prune_provenance wm max_lookback (li_dedup_window (gs_limits gs)) sg))) (gs_partitions gs)\<rparr>)"

definition store_prune_emitted :: "event_time \<Rightarrow> duration_ms \<Rightarrow> graph_store \<Rightarrow> nat \<times> graph_store" where
  "store_prune_emitted wm max_cooldown gs =
     (sum_list (map (\<lambda>(sc, sg). fst (sg_prune_emitted wm max_cooldown sg)) (gs_partitions gs)),
      gs\<lparr>gs_partitions := map (\<lambda>(sc, sg). (sc, snd (sg_prune_emitted wm max_cooldown sg))) (gs_partitions gs)\<rparr>)"

definition pending_len :: "scope_id \<Rightarrow> graph_store \<Rightarrow> nat" where
  "pending_len sc gs = (case hm_get (gs_pending gs) sc of None \<Rightarrow> 0 | Some q \<Rightarrow> wq_len q)"

datatype store_op =
    OpAdvance event_time
  | OpPushEvent event_node
  | OpSuspend pending_match
  | OpPopExpired event_time
  | OpGc event_time duration_ms
  | OpPruneEmitted event_time duration_ms
  | OpPartition scope_id "subgraph \<Rightarrow> subgraph"

fun store_apply :: "store_op \<Rightarrow> graph_store \<Rightarrow> graph_store option" where
  "store_apply (OpAdvance t) gs = Some (snd (advance_watermark t gs))"
| "store_apply (OpPushEvent e) gs = Some (snd (push_event e gs))"
| "store_apply (OpSuspend p) gs = Some (snd (suspend p gs))"
| "store_apply (OpPopExpired wm) gs = Some (snd (pop_expired wm gs))"
| "store_apply (OpGc wm lb) gs = Some (snd (store_gc wm lb gs))"
| "store_apply (OpPruneEmitted wm c) gs = Some (snd (store_prune_emitted wm c gs))"
| "store_apply (OpPartition sc f) gs = Some (snd (partition_mut sc (\<lambda>sg. ((), f sg)) gs))"

text \<open>Every ring and queue is well-formed and holds the events and matches of its scope.\<close>

definition store_inv :: "store_limits \<Rightarrow> graph_store \<Rightarrow> bool" where
  "store_inv li gs \<longleftrightarrow>
     gs_limits gs = li \<and> hm_inv (gs_rings gs) \<and> hm_inv (gs_pending gs) \<and>
     (\<forall>(sc, r)\<in>set (gs_rings gs). ring_inv (max_ring_events li) r \<and> (\<forall>e\<in>set (rb_buf r). en_scope e = sc)) \<and>
     (\<forall>(sc, q)\<in>set (gs_pending gs). wq_inv (max_pending li) q \<and> (\<forall>p\<in>set (wq_heap q). pm_scope p = sc))"

lemma store_inv_ring:
  "store_inv li gs \<Longrightarrow> (sc, r) \<in> set (gs_rings gs) \<Longrightarrow>
   ring_inv (max_ring_events li) r \<and> (\<forall>e\<in>set (rb_buf r). en_scope e = sc)"
  by (auto simp: store_inv_def)

lemma store_inv_queue:
  "store_inv li gs \<Longrightarrow> (sc, q) \<in> set (gs_pending gs) \<Longrightarrow>
   wq_inv (max_pending li) q \<and> (\<forall>p\<in>set (wq_heap q). pm_scope p = sc)"
  by (auto simp: store_inv_def)

lemma ring_push_contents: "set (rb_buf (snd (ring_push e r))) \<subseteq> insert e (set (rb_buf r))"
  by (cases "rb_buf r") (auto simp: ring_push_def)

lemma ring_gc_contents: "ring_inv cap r \<Longrightarrow> set (rb_buf (snd (ring_gc wm lb r))) \<subseteq> set (rb_buf r)"
  using evict_front_filter [of "rb_buf r" "time_sub wm lb"]
  by (auto simp: ring_gc_def ring_inv_def split: prod.split)

lemma wq_push_contents: "set (wq_heap (snd (wq_push p q))) \<subseteq> insert p (set (wq_heap q))"
  by (auto simp: wq_push_def dest: in_set_butlastD)

lemma wq_pop_contents: "set (wq_heap (snd (wq_pop_expired wm q))) \<subseteq> set (wq_heap q)"
  by (auto simp: wq_pop_expired_def pop_while_eq dest: set_dropWhileD)

lemma store_push_event_inv:
  assumes "store_inv li gs"
  shows "store_inv li (snd (push_event e gs))"
proof -
  let ?r = "case hm_get (gs_rings gs) (en_scope e) of
      Some r \<Rightarrow> r | None \<Rightarrow> ring_new (en_scope e) (max_ring_events (gs_limits gs))"
  have r: "ring_inv (max_ring_events li) ?r \<and> (\<forall>e'\<in>set (rb_buf ?r). en_scope e' = en_scope e)"
    using assms ring_new_inv
    by (auto simp: store_inv_def ring_new_def split: option.split dest!: hm_get_entry)
  obtain spill r' where p: "ring_push e ?r = (spill, r')" by force
  have r': "ring_inv (max_ring_events li) r' \<and> (\<forall>e'\<in>set (rb_buf r'). en_scope e' = en_scope e)"
    using r ring_push_inv [of "max_ring_events li" ?r e] ring_push_contents [of e ?r] p by auto
  show ?thesis
    using assms r' p by (auto simp: store_inv_def push_event_def Let_def hm.inv_put dest!: hm_put_entries)
qed

lemma store_suspend_inv:
  assumes "store_inv li gs"
  shows "store_inv li (snd (suspend p gs))"
proof -
  let ?q = "case hm_get (gs_pending gs) (pm_scope p) of
      Some q \<Rightarrow> q | None \<Rightarrow> wq_new (pm_scope p) (max_pending (gs_limits gs))"
  have q: "wq_inv (max_pending li) ?q \<and> (\<forall>p'\<in>set (wq_heap ?q). pm_scope p' = pm_scope p)"
    using assms wq_new_inv by (auto simp: store_inv_def wq_new_def split: option.split dest!: hm_get_entry)
  obtain spill q' where w: "wq_push p ?q = (spill, q')" by force
  have q': "wq_inv (max_pending li) q' \<and> (\<forall>p'\<in>set (wq_heap q'). pm_scope p' = pm_scope p)"
    using q wq_push_inv [of "max_pending li" ?q p] wq_push_contents [of p ?q] w by auto
  show ?thesis
    using assms q' w by (auto simp: store_inv_def suspend_def Let_def hm.inv_put dest!: hm_put_entries)
qed

lemma store_pop_inv:
  assumes "store_inv li gs"
  shows "store_inv li (snd (pop_expired wm gs))"
proof -
  have "wq_inv (max_pending li) (snd (wq_pop_expired wm q))
      \<and> (\<forall>p\<in>set (wq_heap (snd (wq_pop_expired wm q))). pm_scope p = sc)" if "(sc, q) \<in> set (gs_pending gs)" for sc q
    using store_inv_queue [OF assms that] wq_pop_inv [of "max_pending li" q wm] wq_pop_contents [of wm q] by blast
  with assms show ?thesis by (auto simp: store_inv_def pop_expired_def hm_inv_map)
qed

lemma store_gc_inv:
  assumes "store_inv li gs"
  shows "store_inv li (snd (store_gc wm lb gs))"
proof -
  have "ring_inv (max_ring_events li) (snd (ring_gc wm lb r))
      \<and> (\<forall>e\<in>set (rb_buf (snd (ring_gc wm lb r))). en_scope e = sc)" if "(sc, r) \<in> set (gs_rings gs)" for sc r
    using store_inv_ring [OF assms that] ring_gc_inv [of "max_ring_events li" r wm lb]
      ring_gc_contents [of "max_ring_events li" r wm lb] by blast
  with assms show ?thesis by (auto simp: store_inv_def store_gc_def hm_inv_map)
qed

interpretation store: op_system store_apply "store_inv li"
proof
  fix s x t
  assume inv: "store_inv li s" and "store_apply x s = Some t"
  then show "store_inv li t"
    by (cases x)
      (auto simp: store_push_event_inv store_suspend_inv store_pop_inv store_gc_inv,
       auto simp: store_inv_def advance_watermark_def store_prune_emitted_def partition_mut_def Let_def)
qed

lemma store_new_inv: "store_inv li (store_new li)"
  by (simp add: store_inv_def store_new_def)

lemmas store_reach = store.inv_run [OF _ store_new_inv]

text \<open>C34: the graph store. After any sequence of operations every ring is sorted by event time and
  every wait queue by its resume order, both kinds of buffers respect their configured limits (a
  limit of 0 counts as 1), and events and suspended matches sit in the partition of their own scope.\<close>

theorem store_well_formed:
  assumes "run_ops store_apply ops (store_new li) = Some gs"
    and "hm_get (gs_rings gs) sc = Some r" "hm_get (gs_pending gs) sc = Some q"
  shows "sorted (map en_time (rb_buf r)) \<and> length (rb_buf r) \<le> max (max_ring_events li) 1
    \<and> sorted (map pm_key (wq_heap q)) \<and> wq_len q \<le> max (max_pending li) 1
    \<and> en_scope ` set (rb_buf r) \<union> pm_scope ` set (wq_heap q) \<subseteq> {sc}"
  using store_reach [OF assms(1)] assms(2,3)
  by (auto simp: store_inv_def ring_inv_def wq_inv_def wq_len_def dest!: hm_get_entry)

text \<open>C35: the resume sweep. In every reachable store, \<open>pop_expired\<close> returns, in resume order,
  exactly the suspended matches whose window has closed, whatever the iteration order of the
  shards, and leaves every other match in its queue.\<close>

theorem resume_sweep_exact:
  assumes "run_ops store_apply ops (store_new li) = Some gs"
  shows "sorted (map pm_key (fst (pop_expired wm gs)))
    \<and> mset (fst (pop_expired wm gs))
      = filter_mset (\<lambda>p. pm_upper_bound p < wm) (mset (concat (map (wq_heap \<circ> snd) (gs_pending gs))))
    \<and> concat (map (wq_heap \<circ> snd) (gs_pending (snd (pop_expired wm gs))))
      = filter (\<lambda>p. wm \<le> pm_upper_bound p) (concat (map (wq_heap \<circ> snd) (gs_pending gs)))"
proof -
  have q: "wq_pop_expired wm q = (filter (\<lambda>p. pm_upper_bound p < wm) (wq_heap q),
      q\<lparr>wq_heap := filter (\<lambda>p. wm \<le> pm_upper_bound p) (wq_heap q)\<rparr>)" if "(sc, q) \<in> set (gs_pending gs)" for sc q
    using that store_reach [OF assms]
    by (auto simp: store_inv_def wq_inv_def wq_pop_expired_def pop_while_filter)
  have "map (\<lambda>(sc, q). fst (wq_pop_expired wm q)) (gs_pending gs)
      = map (\<lambda>(sc, q). filter (\<lambda>p. pm_upper_bound p < wm) (wq_heap q)) (gs_pending gs)"
    using q by (auto intro!: map_cong)
  moreover have "map (wq_heap \<circ> snd) (map (\<lambda>(sc, q). (sc, snd (wq_pop_expired wm q))) (gs_pending gs))
      = map (\<lambda>(sc, q). filter (\<lambda>p. wm \<le> pm_upper_bound p) (wq_heap q)) (gs_pending gs)"
    using q by (auto intro!: map_cong)
  ultimately show ?thesis
    by (simp add: pop_expired_def filter_concat comp_def case_prod_unfold cong: map_cong flip: mset_filter)
qed

text \<open>The watermark never regresses.\<close>

theorem watermark_monotone:
  assumes "run_ops store_apply ops gs = Some gs'"
  shows "gs_watermark gs \<le> gs_watermark gs'"
proof -
  have "gs_watermark gs \<le> gs_watermark t" if "store_apply x gs = Some t" for x gs t
    using that
    by (cases x) (auto simp: advance_watermark_def push_event_def suspend_def pop_expired_def store_gc_def
        store_prune_emitted_def partition_mut_def Let_def split: prod.splits)
  note step = this
  from assms show ?thesis
  proof (induction ops arbitrary: gs)
    case (Cons x ops)
    then obtain t where "store_apply x gs = Some t" "run_ops store_apply ops t = Some gs'"
      by (auto split: option.splits)
    with step Cons.IH show ?case by (meson order_trans)
  qed simp
qed

text \<open>Collection keeps every event that is at most the lookback older than the watermark, so the
  anchor of a match that has not expired at it.\<close>

lemma store_gc_keeps_anchor:
  assumes "hm_get (gs_rings gs) sc = Some r" "sorted (map en_time (rb_buf r))" "e \<in> set (rb_buf r)" "i64_ok (en_time e)"
    and "wm \<le> time_add (en_time e) fwd" "0 \<le> fwd" "fwd \<le> lb"
  shows "\<exists>r'. hm_get (gs_rings (snd (store_gc wm lb gs))) sc = Some r' \<and> e \<in> set (rb_buf r')"
proof -
  have "rb_buf (snd (ring_gc wm lb r)) = filter (\<lambda>e. time_sub wm lb \<le> en_time e) (rb_buf r)"
    using evict_front_filter [OF assms(2)] by (auto simp: ring_gc_def split: prod.split)
  moreover have "time_sub wm lb \<le> en_time e"
    using assms(4-7) by (auto simp: time_sub_def time_add_def i64_defs)
  ultimately have "e \<in> set (rb_buf (snd (ring_gc wm lb r)))" using assms(3) by simp
  moreover have "hm_get (gs_rings (snd (store_gc wm lb gs))) sc = Some (snd (ring_gc wm lb r))"
    using assms(1) by (simp add: store_gc_def hm_get_map)
  ultimately show ?thesis by blast
qed

subsection \<open>A store at work\<close>

definition demo_store_ops :: "store_op list" where
  "demo_store_ops =
     [OpPushEvent (plain_event 1 100), OpSuspend (plain_pending ''r'' 1 150),
      OpSuspend (plain_pending ''r'' 2 110), OpAdvance 120]"

definition demo_store :: graph_store where
  "demo_store = the (run_ops store_apply demo_store_ops (store_new store_limits_default))"

definition demo_buffer :: ring_buffer where
  "demo_buffer = \<lparr>rb_buf = [plain_event 1 100], rb_scope = scope_global, rb_capacity = 4096\<rparr>"

definition demo_queue :: wait_queue where
  "demo_queue = \<lparr>wq_heap = [plain_pending ''r'' 2 110, plain_pending ''r'' 1 150],
     wq_scope = scope_global, wq_capacity = 1024\<rparr>"

lemma demo_store_runs: "run_ops store_apply demo_store_ops (store_new store_limits_default) = Some demo_store"
  by (simp add: demo_store_def demo_store_ops_def)

lemma demo_store_state:
  "demo_store = \<lparr>gs_partitions = [], gs_rings = [(scope_global, demo_buffer)], gs_watermark = 120,
     gs_pending = [(scope_global, demo_queue)], gs_limits = store_limits_default\<rparr>"
  by (simp add: demo_store_def demo_store_ops_def store_new_def push_event_def suspend_def
      advance_watermark_def plain_event_def plain_pending_def event_new_def demo_buffer_def demo_queue_def
      ring_push_def ring_new_def wq_push_def wq_new_def insert_after_def hm_put_def pm_key_def
      store_limits_default_def hm_get_def i64_defs Let_def)

theorem store_well_formed_witness: "wq_len demo_queue \<le> 1024 \<and> sorted (map pm_key (wq_heap demo_queue))"
proof -
  have "hm_get (gs_rings demo_store) (scope_global) = Some demo_buffer"
    "hm_get (gs_pending demo_store) (scope_global) = Some demo_queue"
    by (simp_all add: demo_store_state hm_get_def)
  from store_well_formed [OF demo_store_runs this] show ?thesis by (simp add: store_limits_default_def)
qed

theorem resume_sweep_exact_witness:
  "mset (fst (pop_expired 120 demo_store)) = {#plain_pending ''r'' 2 110#}"
  using resume_sweep_exact [OF demo_store_runs, of 120]
  by (simp add: demo_store_state demo_queue_def plain_pending_def)

theorem watermark_monotone_witness: "i64_min \<le> gs_watermark demo_store"
  using watermark_monotone [OF demo_store_runs] by (simp add: store_new_def)

end
