(* ===== verification/Adgl_Predicate.thy ===== *)
theory Adgl_Predicate
  imports Adgl_Store "HOL-Library.Signed_Division"
begin

text \<open>
  Binding values, the scope-key intern table and the predicate interpreter
  (crates/airpulse_dsl-evaluator: binding.rs, interner.rs, schema.rs, error.rs,
  predicate.rs), and the proof that it is monotone in the information order of Kleene logic.

  A topology provider is a function from a topology function and two scopes to \<open>T3\<close>.
\<close>

subsection \<open>Errors and reserved fields (error.rs, schema.rs)\<close>

datatype correlate_error =
    ArithOverflow
  | DivisionByZero
  | TypeMismatch string
  | UnknownBinding nat
  | UnknownTopoFunction nat

definition event_field_target :: field_idx where "event_field_target = 65535"

definition event_field_time :: field_idx where "event_field_time = 65534"

text \<open>The cause and problem field indices of the catalog (airpulse\_dsl-catalog/src/lib.rs).\<close>

definition cause_field_confidence :: field_idx where "cause_field_confidence = 2"

definition cause_field_target :: field_idx where "cause_field_target = 0"

definition cause_field_time :: field_idx where "cause_field_time = 1"

definition problem_field_target :: field_idx where "problem_field_target = 0"

definition problem_field_time :: field_idx where "problem_field_time = 1"

subsection \<open>The scope-key intern table (interner.rs)\<close>

type_synonym scope_interner = "(int, scope_id) hmap"

definition intern_scope :: "scope_id \<Rightarrow> scope_interner \<Rightarrow> int \<times> scope_interner" where
  "intern_scope sc m = (let key = scope_key_i64 sc in (key, hm_put key sc m))"

definition resolve_scope :: "scope_interner \<Rightarrow> int \<Rightarrow> scope_id option" where
  "resolve_scope m key = hm_get m key"

text \<open>Interning round trip. A scope interned by any sequence of interning resolves back
  from its key to itself, unless a later one with the same hash replaced it.\<close>

theorem intern_roundtrip:
  assumes "\<forall>s\<in>set later. scope_key_i64 s = scope_key_i64 sc \<longrightarrow> s = sc"
  shows "resolve_scope (fold (\<lambda>s m. snd (intern_scope s m)) later (snd (intern_scope sc m))) (scope_key_i64 sc)
    = Some sc"
proof -
  have "hm_get m' (scope_key_i64 sc) = Some sc \<Longrightarrow>
      hm_get (fold (\<lambda>s m. snd (intern_scope s m)) later m') (scope_key_i64 sc) = Some sc" for m'
    using assms by (induction later arbitrary: m') (auto simp: intern_scope_def Let_def)
  then show ?thesis by (simp add: resolve_scope_def intern_scope_def Let_def)
qed

theorem intern_roundtrip_witness:
  "resolve_scope (snd (intern_scope scope_global (snd (intern_scope scope_global [])))) (scope_key_i64 scope_global)
   = Some scope_global"
  using intern_roundtrip [of "[scope_global]" scope_global "[]"] by simp

subsection \<open>Bindings (binding.rs)\<close>

record cause_snapshot =
  cs_node :: node_id
  cs_kind :: cause_kind
  cs_target :: scope_id
  cs_time :: event_time
  cs_confidence :: confidence

record problem_snapshot =
  ps_node :: node_id
  ps_kind :: problem_kind
  ps_target :: scope_id
  ps_time :: event_time

datatype bound = BEvent event_node | BCause cause_snapshot | BProblem problem_snapshot

datatype binding = Bound bound | Absent | Unbound

fun bound_time :: "bound \<Rightarrow> event_time" where
  "bound_time (BEvent e) = en_time e"
| "bound_time (BCause c) = cs_time c"
| "bound_time (BProblem p) = ps_time p"

fun bound_target :: "scope_interner \<Rightarrow> bound \<Rightarrow> scope_id option" where
  "bound_target m (BEvent e) =
     (case event_field e event_field_target of
        Some key \<Rightarrow> resolve_scope m key
      | None \<Rightarrow> Some (en_scope e))"
| "bound_target m (BCause c) = Some (cs_target c)"
| "bound_target m (BProblem p) = Some (ps_target p)"

fun bound_endpoint :: "bound \<Rightarrow> edge_endpoint" where
  "bound_endpoint (BEvent e) = EndEvent (en_id e)"
| "bound_endpoint (BCause c) = EndNode (cs_node c)"
| "bound_endpoint (BProblem p) = EndNode (ps_node p)"

fun binding_bound :: "binding \<Rightarrow> bound option" where
  "binding_bound (Bound b) = Some b"
| "binding_bound Absent = None"
| "binding_bound Unbound = None"

subsection \<open>Topology functions (topology.rs)\<close>

datatype topo_func = SameSession | SameClient | SamePort | SameAp | SameVlan | UpstreamOf

definition topo_from_idx :: "topo_func_idx \<Rightarrow> topo_func option" where
  "topo_from_idx i =
     (if i = 0 then Some SameSession else if i = 1 then Some SameClient else if i = 2 then Some SamePort
      else if i = 3 then Some SameAp else if i = 4 then Some SameVlan else if i = 5 then Some UpstreamOf
      else None)"

type_synonym topology = "topo_func \<Rightarrow> scope_id \<Rightarrow> scope_id \<Rightarrow> t3"

subsection \<open>The interpreter (predicate.rs)\<close>

record pred_ctx =
  px_bindings :: "binding list"
  px_scope :: scope_id
  px_interner :: scope_interner
  px_topo :: topology

datatype slot = Empty | SInt int | STruth t3

fun as_num :: "slot \<Rightarrow> string \<Rightarrow> correlate_error + int option" where
  "as_num (SInt i) op = Inr (Some i)"
| "as_num (STruth TUnknown) op = Inr None"
| "as_num _ op = Inl (TypeMismatch op)"

fun as_truth :: "slot \<Rightarrow> string \<Rightarrow> correlate_error + t3" where
  "as_truth (STruth t) op = Inr t"
| "as_truth (SInt i) op = Inr (t3_of_bool (i \<noteq> 0))"
| "as_truth Empty op = Inl (TypeMismatch op)"

text \<open>The \<open>?\<close> operator.\<close>

fun try_bind :: "'e + 'a \<Rightarrow> ('a \<Rightarrow> 'e + 'b) \<Rightarrow> 'e + 'b" where
  "try_bind (Inl e) f = Inl e"
| "try_bind (Inr x) f = f x"

definition ctx_binding :: "pred_ctx \<Rightarrow> binding_idx \<Rightarrow> correlate_error + binding" where
  "ctx_binding ctx i =
     (if i < length (px_bindings ctx) then Inr (px_bindings ctx ! i) else Inl (UnknownBinding i))"

fun load_event_field :: "binding \<Rightarrow> field_idx \<Rightarrow> correlate_error + slot" where
  "load_event_field (Bound (BEvent e)) f =
     Inr (if f = event_field_time then SInt (en_time e)
          else if f = event_field_target
          then SInt (case event_field e event_field_target of Some v \<Rightarrow> v | None \<Rightarrow> scope_key_i64 (en_scope e))
          else (case event_field e f of Some v \<Rightarrow> SInt v | None \<Rightarrow> STruth TUnknown))"
| "load_event_field (Bound b) f = Inl (TypeMismatch ''LOAD_EVENT_FIELD'')"
| "load_event_field b f = Inr (STruth TUnknown)"

fun load_cause_field :: "binding \<Rightarrow> field_idx \<Rightarrow> correlate_error + slot" where
  "load_cause_field (Bound (BCause c)) f =
     Inr (if f = cause_field_confidence then SInt (int (conf_value (cs_confidence c)))
          else if f = cause_field_target then SInt (scope_key_i64 (cs_target c))
          else if f = cause_field_time then SInt (cs_time c)
          else STruth TUnknown)"
| "load_cause_field (Bound b) f = Inl (TypeMismatch ''LOAD_CAUSE_FIELD'')"
| "load_cause_field b f = Inr (STruth TUnknown)"

fun load_problem_field :: "binding \<Rightarrow> field_idx \<Rightarrow> correlate_error + slot" where
  "load_problem_field (Bound (BProblem p)) f =
     Inr (if f = problem_field_target then SInt (scope_key_i64 (ps_target p))
          else if f = problem_field_time then SInt (ps_time p)
          else STruth TUnknown)"
| "load_problem_field (Bound b) f = Inl (TypeMismatch ''LOAD_PROBLEM_FIELD'')"
| "load_problem_field b f = Inr (STruth TUnknown)"

definition arith ::
    "slot \<Rightarrow> slot \<Rightarrow> string \<Rightarrow> (int \<Rightarrow> int \<Rightarrow> correlate_error + int option) \<Rightarrow> correlate_error + slot" where
  "arith lhs rhs op f =
     try_bind (as_num lhs op) (\<lambda>a. try_bind (as_num rhs op) (\<lambda>b.
       case (a, b) of
         (Some x, Some y) \<Rightarrow>
           try_bind (f x y) (\<lambda>r. Inr (case r of Some v \<Rightarrow> SInt v | None \<Rightarrow> STruth TUnknown))
       | _ \<Rightarrow> Inr (STruth TUnknown)))"

definition cmp :: "slot \<Rightarrow> slot \<Rightarrow> string \<Rightarrow> (int \<Rightarrow> int \<Rightarrow> bool) \<Rightarrow> correlate_error + slot" where
  "cmp lhs rhs op f =
     try_bind (as_num lhs op) (\<lambda>a. try_bind (as_num rhs op) (\<lambda>b.
       case (a, b) of
         (Some x, Some y) \<Rightarrow> Inr (STruth (t3_of_bool (f x y)))
       | _ \<Rightarrow> Inr (STruth TUnknown)))"

text \<open>The checked operations of \<open>i64\<close>: division truncates, \<open>MIN / -1\<close> and \<open>MIN % -1\<close> overflow.\<close>

definition checked :: "int option \<Rightarrow> correlate_error + int option" where
  "checked r = (case r of Some v \<Rightarrow> Inr (Some v) | None \<Rightarrow> Inl ArithOverflow)"

definition i64_checked :: "int \<Rightarrow> int option" where
  "i64_checked x = (if i64_ok x then Some x else None)"

definition checked_div :: "int \<Rightarrow> int \<Rightarrow> int option" where
  "checked_div a b = (if b = 0 \<or> a = i64_min \<and> b = - 1 then None else Some (a sdiv b))"

definition checked_rem :: "int \<Rightarrow> int \<Rightarrow> int option" where
  "checked_rem a b = (if b = 0 \<or> a = i64_min \<and> b = - 1 then None else Some (a smod b))"

definition get_reg :: "slot list \<Rightarrow> slot_idx \<Rightarrow> slot" where
  "get_reg slots i = slots ! slot_index i"

definition set_reg :: "slot_idx \<Rightarrow> slot list \<Rightarrow> slot \<Rightarrow> slot list" where
  "set_reg i slots v = slots[slot_index i := v]"

definition present_of :: "binding \<Rightarrow> t3" where
  "present_of b = (case b of Bound _ \<Rightarrow> TTrue | Absent \<Rightarrow> TFalse | Unbound \<Rightarrow> TUnknown)"

definition absent_of :: "binding \<Rightarrow> t3" where
  "absent_of b = (case b of Absent \<Rightarrow> TTrue | Bound _ \<Rightarrow> TFalse | Unbound \<Rightarrow> TUnknown)"

text \<open>The destination register of an opcode and the value it computes.\<close>

fun op_dst :: "pred_op \<Rightarrow> slot_idx" where
  "op_dst (PLoadEventField b f d) = d"
| "op_dst (PLoadCauseField b f d) = d"
| "op_dst (PLoadProblemField b f d) = d"
| "op_dst (PLoadConst i d) = d"
| "op_dst (PLoadDuration i d) = d"
| "op_dst (PLoadScopeKey d) = d"
| "op_dst (PAdd l r d) = d"
| "op_dst (PSub l r d) = d"
| "op_dst (PMul l r d) = d"
| "op_dst (PDiv l r d) = d"
| "op_dst (PMod l r d) = d"
| "op_dst (PCmpEq l r d) = d"
| "op_dst (PCmpNe l r d) = d"
| "op_dst (PCmpLt l r d) = d"
| "op_dst (PCmpLe l r d) = d"
| "op_dst (PCmpGt l r d) = d"
| "op_dst (PCmpGe l r d) = d"
| "op_dst (PAnd l r d) = d"
| "op_dst (POr l r d) = d"
| "op_dst (PNot s d) = d"
| "op_dst (PPresent b d) = d"
| "op_dst (PAbsent b d) = d"
| "op_dst (PTopoCall f a b d) = d"
| "op_dst (PWinBack t u d) = d"
| "op_dst (PWinFwd t u d) = d"
| "op_dst (PWinIn x l h d) = d"

definition topo_value :: "pred_ctx \<Rightarrow> topo_func \<Rightarrow> int option \<Rightarrow> int option \<Rightarrow> t3" where
  "topo_value ctx f a b =
     (case (a, b) of
        (Some ka, Some kb) \<Rightarrow>
          (case (resolve_scope (px_interner ctx) ka, resolve_scope (px_interner ctx) kb) of
             (Some sa, Some sb) \<Rightarrow> px_topo ctx f sa sb
           | _ \<Rightarrow> TUnknown)
      | _ \<Rightarrow> TUnknown)"

fun op_value :: "pred_ctx \<Rightarrow> slot list \<Rightarrow> pred_op \<Rightarrow> correlate_error + slot" where
  "op_value ctx slots (PLoadEventField b f d) = try_bind (ctx_binding ctx b) (\<lambda>x. load_event_field x f)"
| "op_value ctx slots (PLoadCauseField b f d) = try_bind (ctx_binding ctx b) (\<lambda>x. load_cause_field x f)"
| "op_value ctx slots (PLoadProblemField b f d) = try_bind (ctx_binding ctx b) (\<lambda>x. load_problem_field x f)"
| "op_value ctx slots (PLoadConst imm d) = Inr (SInt imm)"
| "op_value ctx slots (PLoadDuration ms d) = Inr (SInt ms)"
| "op_value ctx slots (PLoadScopeKey d) = Inr (SInt (scope_key_i64 (px_scope ctx)))"
| "op_value ctx slots (PAdd l r d) =
     arith (get_reg slots l) (get_reg slots r) ''ADD'' (\<lambda>a b. checked (i64_checked (a + b)))"
| "op_value ctx slots (PSub l r d) =
     arith (get_reg slots l) (get_reg slots r) ''SUB'' (\<lambda>a b. checked (i64_checked (a - b)))"
| "op_value ctx slots (PMul l r d) =
     arith (get_reg slots l) (get_reg slots r) ''MUL'' (\<lambda>a b. checked (i64_checked (a * b)))"
| "op_value ctx slots (PDiv l r d) =
     arith (get_reg slots l) (get_reg slots r) ''DIV''
       (\<lambda>a b. if b = 0 then Inl DivisionByZero else checked (checked_div a b))"
| "op_value ctx slots (PMod l r d) =
     arith (get_reg slots l) (get_reg slots r) ''MOD''
       (\<lambda>a b. if b = 0 then Inl DivisionByZero else checked (checked_rem a b))"
| "op_value ctx slots (PCmpEq l r d) = cmp (get_reg slots l) (get_reg slots r) ''CMP_EQ'' (\<lambda>a b. a = b)"
| "op_value ctx slots (PCmpNe l r d) = cmp (get_reg slots l) (get_reg slots r) ''CMP_NE'' (\<lambda>a b. a \<noteq> b)"
| "op_value ctx slots (PCmpLt l r d) = cmp (get_reg slots l) (get_reg slots r) ''CMP_LT'' (\<lambda>a b. a < b)"
| "op_value ctx slots (PCmpLe l r d) = cmp (get_reg slots l) (get_reg slots r) ''CMP_LE'' (\<lambda>a b. a \<le> b)"
| "op_value ctx slots (PCmpGt l r d) = cmp (get_reg slots l) (get_reg slots r) ''CMP_GT'' (\<lambda>a b. b < a)"
| "op_value ctx slots (PCmpGe l r d) = cmp (get_reg slots l) (get_reg slots r) ''CMP_GE'' (\<lambda>a b. b \<le> a)"
| "op_value ctx slots (PAnd l r d) =
     try_bind (as_truth (get_reg slots l) ''AND'') (\<lambda>a.
       try_bind (as_truth (get_reg slots r) ''AND'') (\<lambda>b. Inr (STruth (t3_and a b))))"
| "op_value ctx slots (POr l r d) =
     try_bind (as_truth (get_reg slots l) ''OR'') (\<lambda>a.
       try_bind (as_truth (get_reg slots r) ''OR'') (\<lambda>b. Inr (STruth (t3_or a b))))"
| "op_value ctx slots (PNot s d) =
     try_bind (as_truth (get_reg slots s) ''NOT'') (\<lambda>a. Inr (STruth (t3_not a)))"
| "op_value ctx slots (PPresent b d) = try_bind (ctx_binding ctx b) (\<lambda>x. Inr (STruth (present_of x)))"
| "op_value ctx slots (PAbsent b d) = try_bind (ctx_binding ctx b) (\<lambda>x. Inr (STruth (absent_of x)))"
| "op_value ctx slots (PTopoCall func a b d) =
     (case topo_from_idx func of
        None \<Rightarrow> Inl (UnknownTopoFunction func)
      | Some f \<Rightarrow>
          try_bind (as_num (get_reg slots a) ''TOPO_CALL'') (\<lambda>ka.
            try_bind (as_num (get_reg slots b) ''TOPO_CALL'') (\<lambda>kb. Inr (STruth (topo_value ctx f ka kb)))))"
| "op_value ctx slots (PWinBack t u d) =
     arith (get_reg slots t) (get_reg slots u) ''WIN_BACK'' (\<lambda>a b. checked (i64_checked (a - b)))"
| "op_value ctx slots (PWinFwd t u d) =
     arith (get_reg slots t) (get_reg slots u) ''WIN_FWD'' (\<lambda>a b. checked (i64_checked (a + b)))"
| "op_value ctx slots (PWinIn x l h d) =
     try_bind (as_num (get_reg slots x) ''WIN_IN'') (\<lambda>a.
       try_bind (as_num (get_reg slots l) ''WIN_IN'') (\<lambda>lo.
         try_bind (as_num (get_reg slots h) ''WIN_IN'') (\<lambda>hi.
           Inr (STruth (case (a, lo, hi) of
             (Some v, Some lv, Some hv) \<Rightarrow> t3_of_bool (lv \<le> v \<and> v \<le> hv)
           | _ \<Rightarrow> TUnknown)))))"

fun eval_ops :: "pred_ctx \<Rightarrow> pred_op list \<Rightarrow> slot list \<Rightarrow> correlate_error + slot list" where
  "eval_ops ctx [] slots = Inr slots"
| "eval_ops ctx (i # ops) slots =
     try_bind (op_value ctx slots i) (\<lambda>v. eval_ops ctx ops (set_reg (op_dst i) slots v))"

definition eval_predicate :: "predicate \<Rightarrow> pred_ctx \<Rightarrow> correlate_error + t3" where
  "eval_predicate p ctx =
     try_bind (eval_ops ctx (pd_ops p) (replicate max_slots Empty))
       (\<lambda>slots. as_truth (get_reg slots (pd_result p)) ''RESULT'')"

subsection \<open>Monotonicity\<close>

text \<open>Less information: an unknown value or binding may become any definite one.\<close>

definition slot_le :: "slot \<Rightarrow> slot \<Rightarrow> bool" where
  "slot_le a b \<longleftrightarrow> a = STruth TUnknown \<or> a = b"

definition binding_le :: "binding \<Rightarrow> binding \<Rightarrow> bool" where
  "binding_le a b \<longleftrightarrow> a = Unbound \<or> a = b"

definition ctx_le :: "pred_ctx \<Rightarrow> pred_ctx \<Rightarrow> bool" where
  "ctx_le c c' \<longleftrightarrow>
     list_all2 binding_le (px_bindings c) (px_bindings c') \<and> px_scope c = px_scope c' \<and>
     px_interner c = px_interner c' \<and> (\<forall>f a b. t3_le (px_topo c f a b) (px_topo c' f a b))"

lemma as_num_mono: "slot_le s s' \<Longrightarrow> as_num s op = Inr a \<Longrightarrow> as_num s' op = Inr a' \<Longrightarrow> a = None \<or> a = a'"
  by (auto simp: slot_le_def)

lemma as_truth_mono: "slot_le s s' \<Longrightarrow> as_truth s op = Inr a \<Longrightarrow> as_truth s' op = Inr a' \<Longrightarrow> t3_le a a'"
  by (auto simp: slot_le_def)

lemma try_bind_Inr: "try_bind r f = Inr y \<longleftrightarrow> (\<exists>x. r = Inr x \<and> f x = Inr y)"
  by (cases r) auto

lemma slot_le_Unknown [simp]: "slot_le (STruth TUnknown) s"
  by (simp add: slot_le_def)

lemma slot_le_refl [simp]: "slot_le s s"
  by (simp add: slot_le_def)

lemma slot_le_Truth: "t3_le a b \<Longrightarrow> slot_le (STruth a) (STruth b)"
  by (auto simp: t3_le_def)

lemma arith_mono:
  assumes "slot_le l l'" "slot_le r r'" "arith l r op f = Inr v" "arith l' r' op f = Inr v'"
  shows "slot_le v v'"
proof -
  from assms(3,4) obtain a b a' b' where
    n: "as_num l op = Inr a" "as_num r op = Inr b" "as_num l' op = Inr a'" "as_num r' op = Inr b'"
    by (auto simp: arith_def try_bind_Inr)
  with as_num_mono [OF assms(1) n(1,3)] as_num_mono [OF assms(2) n(2,4)] assms(3,4) show ?thesis
    by (cases a; cases b) (auto simp: arith_def)
qed

lemma cmp_mono:
  assumes "slot_le l l'" "slot_le r r'" "cmp l r op f = Inr v" "cmp l' r' op f = Inr v'"
  shows "slot_le v v'"
proof -
  from assms(3,4) obtain a b a' b' where
    n: "as_num l op = Inr a" "as_num r op = Inr b" "as_num l' op = Inr a'" "as_num r' op = Inr b'"
    by (auto simp: cmp_def try_bind_Inr)
  with as_num_mono [OF assms(1) n(1,3)] as_num_mono [OF assms(2) n(2,4)] assms(3,4) show ?thesis
    by (cases a; cases b) (auto simp: cmp_def)
qed

lemma load_mono:
  "binding_le b b' \<Longrightarrow> load_event_field b f = Inr v \<Longrightarrow> load_event_field b' f = Inr v' \<Longrightarrow> slot_le v v'"
  "binding_le b b' \<Longrightarrow> load_cause_field b f = Inr v \<Longrightarrow> load_cause_field b' f = Inr v' \<Longrightarrow> slot_le v v'"
  "binding_le b b' \<Longrightarrow> load_problem_field b f = Inr v \<Longrightarrow> load_problem_field b' f = Inr v' \<Longrightarrow> slot_le v v'"
  by (auto simp: binding_le_def)

lemma present_mono: "binding_le b b' \<Longrightarrow> t3_le (present_of b) (present_of b') \<and> t3_le (absent_of b) (absent_of b')"
  by (auto simp: binding_le_def present_of_def absent_of_def)

lemma ctx_binding_mono:
  "ctx_le c c' \<Longrightarrow> ctx_binding c i = Inr b \<Longrightarrow> ctx_binding c' i = Inr b' \<Longrightarrow> binding_le b b'"
  by (auto simp: ctx_le_def ctx_binding_def list_all2_conv_all_nth split: if_splits)

lemma topo_value_mono:
  "ctx_le c c' \<Longrightarrow> a = None \<or> a = a' \<Longrightarrow> b = None \<or> b = b' \<Longrightarrow>
   t3_le (topo_value c f a b) (topo_value c' f a' b')"
  by (auto simp: ctx_le_def topo_value_def split: option.splits)

lemma t3_of_bool_le: "t3_le (case (a, lo, hi) of (Some v, Some l, Some h) \<Rightarrow> t3_of_bool (l \<le> v \<and> v \<le> h) | _ \<Rightarrow> TUnknown)
    (case (a', lo', hi') of (Some v, Some l, Some h) \<Rightarrow> t3_of_bool (l \<le> v \<and> v \<le> h) | _ \<Rightarrow> TUnknown)"
  if "a = None \<or> a = a'" "lo = None \<or> lo = lo'" "hi = None \<or> hi = (hi' :: int option)"
  using that by (auto split: option.splits)

text \<open>The slots an opcode reads and writes.\<close>

fun op_reads :: "pred_op \<Rightarrow> slot_idx list" where
  "op_reads (PAdd l r d) = [l, r]"
| "op_reads (PSub l r d) = [l, r]"
| "op_reads (PMul l r d) = [l, r]"
| "op_reads (PDiv l r d) = [l, r]"
| "op_reads (PMod l r d) = [l, r]"
| "op_reads (PCmpEq l r d) = [l, r]"
| "op_reads (PCmpNe l r d) = [l, r]"
| "op_reads (PCmpLt l r d) = [l, r]"
| "op_reads (PCmpLe l r d) = [l, r]"
| "op_reads (PCmpGt l r d) = [l, r]"
| "op_reads (PCmpGe l r d) = [l, r]"
| "op_reads (PAnd l r d) = [l, r]"
| "op_reads (POr l r d) = [l, r]"
| "op_reads (PNot s d) = [s]"
| "op_reads (PTopoCall f a b d) = [a, b]"
| "op_reads (PWinBack t u d) = [t, u]"
| "op_reads (PWinFwd t u d) = [t, u]"
| "op_reads (PWinIn x l h d) = [x, l, h]"
| "op_reads _ = []"

definition predicate_ok :: "predicate \<Rightarrow> bool" where
  "predicate_ok p =
     (slot_index (pd_result p) < max_slots \<and>
      list_all (\<lambda>i. list_all (\<lambda>s. slot_index s < max_slots) (op_dst i # op_reads i)) (pd_ops p))"

lemma op_value_mono:
  assumes "ctx_le c c'" "list_all (\<lambda>s. slot_le (get_reg slots s) (get_reg slots' s)) (op_reads i)"
    and "op_value c slots i = Inr v" "op_value c' slots' i = Inr v'"
  shows "slot_le v v'"
proof (cases i)
  case (PLoadEventField b f d)
  with assms show ?thesis by (auto simp: try_bind_Inr intro: load_mono ctx_binding_mono)
next
  case (PLoadCauseField b f d)
  with assms show ?thesis by (auto simp: try_bind_Inr intro: load_mono ctx_binding_mono)
next
  case (PLoadProblemField b f d)
  with assms show ?thesis by (auto simp: try_bind_Inr intro: load_mono ctx_binding_mono)
next
  case (PLoadScopeKey d)
  with assms show ?thesis by (simp add: ctx_le_def)
next
  case (PAnd l r d)
  with assms show ?thesis by (auto simp: try_bind_Inr intro!: slot_le_Truth t3_and_mono intro: as_truth_mono)
next
  case (POr l r d)
  with assms show ?thesis by (auto simp: try_bind_Inr intro!: slot_le_Truth t3_or_mono intro: as_truth_mono)
next
  case (PNot s d)
  with assms show ?thesis by (auto simp: try_bind_Inr intro!: slot_le_Truth t3_not_mono intro: as_truth_mono)
next
  case (PPresent b d)
  with assms show ?thesis
    by (auto simp: try_bind_Inr intro!: slot_le_Truth present_mono [THEN conjunct1] intro: ctx_binding_mono)
next
  case (PAbsent b d)
  with assms show ?thesis
    by (auto simp: try_bind_Inr intro!: slot_le_Truth present_mono [THEN conjunct2] intro: ctx_binding_mono)
next
  case (PTopoCall f a b d)
  with assms(3,4) obtain g ka kb ka' kb' where
    k: "as_num (get_reg slots a) ''TOPO_CALL'' = Inr ka" "as_num (get_reg slots b) ''TOPO_CALL'' = Inr kb"
      "as_num (get_reg slots' a) ''TOPO_CALL'' = Inr ka'" "as_num (get_reg slots' b) ''TOPO_CALL'' = Inr kb'"
      "v = STruth (topo_value c g ka kb)" "v' = STruth (topo_value c' g ka' kb')"
    by (auto simp: try_bind_Inr split: option.splits)
  have "ka = None \<or> ka = ka'" "kb = None \<or> kb = kb'"
    using assms(2) PTopoCall as_num_mono [OF _ k(1,3)] as_num_mono [OF _ k(2,4)] by auto
  from slot_le_Truth [OF topo_value_mono [OF assms(1) this]] show ?thesis by (simp only: k)
next
  case (PWinIn x l h d)
  with assms(3,4) obtain a lo hi a' lo' hi' where
    k: "as_num (get_reg slots x) ''WIN_IN'' = Inr a" "as_num (get_reg slots l) ''WIN_IN'' = Inr lo"
      "as_num (get_reg slots h) ''WIN_IN'' = Inr hi" "as_num (get_reg slots' x) ''WIN_IN'' = Inr a'"
      "as_num (get_reg slots' l) ''WIN_IN'' = Inr lo'" "as_num (get_reg slots' h) ''WIN_IN'' = Inr hi'"
    by (auto simp: try_bind_Inr)
  have "a = None \<or> a = a'" "lo = None \<or> lo = lo'" "hi = None \<or> hi = hi'"
    using assms(2) PWinIn as_num_mono [OF _ k(1,4)] as_num_mono [OF _ k(2,5)] as_num_mono [OF _ k(3,6)] by auto
  from slot_le_Truth [OF t3_of_bool_le [OF this]] assms(3,4) PWinIn k show ?thesis by simp
qed (use assms in \<open>auto intro: arith_mono cmp_mono\<close>)

lemma eval_ops_mono:
  "ctx_le c c' \<Longrightarrow> list_all2 slot_le slots slots' \<Longrightarrow> length slots = max_slots \<Longrightarrow>
   list_all (\<lambda>i. list_all (\<lambda>s. slot_index s < max_slots) (op_dst i # op_reads i)) ops \<Longrightarrow>
   eval_ops c ops slots = Inr r \<Longrightarrow> eval_ops c' ops slots' = Inr r' \<Longrightarrow>
   list_all2 slot_le r r' \<and> length r = max_slots"
proof (induction ops arbitrary: slots slots')
  case (Cons i ops)
  from Cons.prems obtain v v' where v: "op_value c slots i = Inr v" "op_value c' slots' i = Inr v'"
    "eval_ops c ops (set_reg (op_dst i) slots v) = Inr r" "eval_ops c' ops (set_reg (op_dst i) slots' v') = Inr r'"
    by (auto simp: try_bind_Inr)
  have "list_all (\<lambda>s. slot_le (get_reg slots s) (get_reg slots' s)) (op_reads i)"
    using Cons.prems by (auto simp: list_all_iff get_reg_def list_all2_conv_all_nth)
  with Cons.prems(1) v(1,2) have "slot_le v v'" by (intro op_value_mono)
  then have "list_all2 slot_le (set_reg (op_dst i) slots v) (set_reg (op_dst i) slots' v')"
    using Cons.prems(2) by (simp add: set_reg_def list_all2_update_cong)
  from Cons.IH [OF Cons.prems(1) this _ _ v(3,4)] Cons.prems show ?case by (simp add: set_reg_def)
qed simp

text \<open>C37: more information never reverses a verdict. If bindings or topology answers that were
  \<open>Unknown\<close> become definite, a predicate that was \<open>True\<close> or \<open>False\<close> keeps its value (or
  stops with an error value); only an \<open>Unknown\<close> verdict can change (ADR-010).\<close>

theorem predicate_monotone:
  assumes "predicate_ok p" "ctx_le c c'"
    and "eval_predicate p c = Inr t" "eval_predicate p c' = Inr t'"
  shows "t3_le t t'"
proof -
  from assms(3,4) obtain r r' where r: "eval_ops c (pd_ops p) (replicate max_slots Empty) = Inr r"
    "eval_ops c' (pd_ops p) (replicate max_slots Empty) = Inr r'"
    "as_truth (get_reg r (pd_result p)) ''RESULT'' = Inr t" "as_truth (get_reg r' (pd_result p)) ''RESULT'' = Inr t'"
    by (auto simp: eval_predicate_def try_bind_Inr)
  have "list_all2 slot_le (replicate max_slots Empty) (replicate max_slots Empty)"
    by (simp add: list_all2_conv_all_nth)
  from eval_ops_mono [OF assms(2) this _ _ r(1,2)] assms(1)
  have "slot_le (get_reg r (pd_result p)) (get_reg r' (pd_result p))"
    by (auto simp: predicate_ok_def list_all2_conv_all_nth get_reg_def)
  from as_truth_mono [OF this r(3,4)] show ?thesis .
qed

text \<open>\<open>present(x) and x.segment_size > 1400\<close> or \<open>1\<close>, on an unknown and on a bound \<open>x\<close>.\<close>

definition guarded_ops :: "pred_op list" where
  "guarded_ops =
     [PPresent 0 (SlotIdx 0), PLoadEventField 0 0 (SlotIdx 1), PLoadConst 1400 (SlotIdx 2),
      PCmpGt (SlotIdx 1) (SlotIdx 2) (SlotIdx 3), PAnd (SlotIdx 0) (SlotIdx 3) (SlotIdx 4)]"

definition guarded_predicate :: "predicate" where
  "guarded_predicate =
     \<lparr>pd_ops = guarded_ops @ [PLoadConst 1 (SlotIdx 5), POr (SlotIdx 4) (SlotIdx 5) (SlotIdx 6)], pd_result = SlotIdx 6\<rparr>"

definition demo_ctx :: "binding \<Rightarrow> pred_ctx" where
  "demo_ctx b = \<lparr>px_bindings = [b], px_scope = scope_global, px_interner = [], px_topo = (\<lambda>f a b. TUnknown)\<rparr>"

theorem predicate_monotone_witness:
  "t3_le TTrue (case eval_predicate guarded_predicate (demo_ctx (Bound (BEvent (plain_event 1 100)))) of
     Inr t \<Rightarrow> t | Inl _ \<Rightarrow> TUnknown)"
proof -
  have v: "eval_predicate guarded_predicate (demo_ctx Unbound) = Inr TTrue"
    "eval_predicate guarded_predicate (demo_ctx (Bound (BEvent (plain_event 1 100)))) = Inr TTrue"
    by code_simp+
  have "predicate_ok guarded_predicate"
    by (simp add: predicate_ok_def guarded_predicate_def guarded_ops_def max_slots_def)
  moreover have "ctx_le (demo_ctx Unbound) (demo_ctx (Bound (BEvent (plain_event 1 100))))"
    by (simp add: ctx_le_def demo_ctx_def binding_le_def)
  ultimately show ?thesis using predicate_monotone [OF _ _ v] v(2) by simp
qed

subsection \<open>Register values are 64-bit\<close>

fun bound_ok :: "bound \<Rightarrow> bool" where
  "bound_ok (BEvent e) = (i64_ok (en_time e) \<and> list_all (\<lambda>(f, v). i64_ok v) (en_fields e))"
| "bound_ok (BCause c) = (i64_ok (cs_time c) \<and> conf_ok (cs_confidence c))"
| "bound_ok (BProblem p) = i64_ok (ps_time p)"

fun binding_ok :: "binding \<Rightarrow> bool" where
  "binding_ok (Bound b) = bound_ok b"
| "binding_ok _ = True"

fun slot_ok :: "slot \<Rightarrow> bool" where
  "slot_ok (SInt i) = i64_ok i"
| "slot_ok _ = True"

fun literal_ok :: "pred_op \<Rightarrow> bool" where
  "literal_ok (PLoadConst i d) = i64_ok i"
| "literal_ok (PLoadDuration i d) = i64_ok i"
| "literal_ok _ = True"

lemma conf_i64_ok: "conf_ok c \<Longrightarrow> i64_ok (int (conf_value c))"
  by (simp add: conf_ok_def i64_defs)

lemma load_ok:
  "binding_ok b \<Longrightarrow> load_event_field b f = Inr v \<Longrightarrow> slot_ok v"
  "binding_ok b \<Longrightarrow> load_cause_field b f = Inr v \<Longrightarrow> slot_ok v"
  "binding_ok b \<Longrightarrow> load_problem_field b f = Inr v \<Longrightarrow> slot_ok v"
proof -
  show "binding_ok b \<Longrightarrow> load_event_field b f = Inr v \<Longrightarrow> slot_ok v"
    by (cases "(b, f)" rule: load_event_field.cases)
      (auto simp: event_field_def scope_key_i64_ok list_all_iff split: option.split dest!: map_of_SomeD)
  show "binding_ok b \<Longrightarrow> load_cause_field b f = Inr v \<Longrightarrow> slot_ok v"
    by (cases "(b, f)" rule: load_cause_field.cases) (auto simp: scope_key_i64_ok conf_i64_ok)
  show "binding_ok b \<Longrightarrow> load_problem_field b f = Inr v \<Longrightarrow> slot_ok v"
    by (cases "(b, f)" rule: load_problem_field.cases) (auto simp: scope_key_i64_ok)
qed

lemma arith_ok:
  assumes "arith l r op f = Inr v" "slot_ok l" "slot_ok r"
    and "\<And>x y z. i64_ok x \<Longrightarrow> i64_ok y \<Longrightarrow> f x y = Inr (Some z) \<Longrightarrow> i64_ok z"
  shows "slot_ok v"
proof -
  have n: "as_num s op = Inr (Some x) \<Longrightarrow> slot_ok s \<Longrightarrow> i64_ok x" for s x
    by (cases "(s, op)" rule: as_num.cases) auto
  obtain a b where ab: "as_num l op = Inr a" "as_num r op = Inr b"
    using assms(1) by (auto simp: arith_def try_bind_Inr)
  show ?thesis
  proof (cases "a = None \<or> b = None")
    case True
    with ab assms(1) show ?thesis by (cases a; cases b) (auto simp: arith_def)
  next
    case False
    then obtain x y where xy: "a = Some x" "b = Some y" by auto
    with ab assms(1) obtain z where z: "f x y = Inr z" "v = (case z of Some i \<Rightarrow> SInt i | None \<Rightarrow> STruth TUnknown)"
      by (auto simp: arith_def try_bind_Inr)
    have "i64_ok x" "i64_ok y" using n ab xy assms(2,3) by auto
    with z assms(4) [of x y] show ?thesis by (cases z) auto
  qed
qed

lemma cmp_ok: "cmp l r op f = Inr v \<Longrightarrow> slot_ok v"
proof -
  assume c: "cmp l r op f = Inr v"
  then obtain a b where "as_num l op = Inr a" "as_num r op = Inr b" by (auto simp: cmp_def try_bind_Inr)
  with c show "slot_ok v" by (cases a; cases b) (auto simp: cmp_def)
qed

lemma checked_ok: "checked (i64_checked x) = Inr (Some z) \<Longrightarrow> i64_ok z"
  by (auto simp: checked_def i64_checked_def split: if_splits)

lemma arith_checked_ok:
  assumes "arith l r op (\<lambda>a b. checked (i64_checked (g a b))) = Inr v" "slot_ok l" "slot_ok r"
  shows "slot_ok v"
  by (rule arith_ok [OF assms]) (rule checked_ok)

lemma checked_div_ok:
  assumes "checked (checked_div a b) = Inr (Some z)" "i64_ok a"
  shows "i64_ok z"
proof -
  have z: "z = a sdiv b" "\<not> (a = i64_min \<and> b = - 1)"
    using assms(1) by (auto simp: checked_def checked_div_def split: if_splits)
  have "- \<bar>a\<bar> \<le> z" "z \<le> \<bar>a\<bar>" using sdiv_int_range [of a b] z(1) by auto
  moreover have "z \<noteq> - a" if "a = i64_min" using z that int_sdiv_negated_is_minus1 [of a b] by (auto simp: i64_defs)
  ultimately show ?thesis
    using assms(2) by (cases "a = i64_min") (auto simp: i64_defs abs_if split: if_splits)
qed

lemma checked_rem_ok:
  assumes "checked (checked_rem a b) = Inr (Some z)" "i64_ok b"
  shows "i64_ok z"
proof -
  have z: "z = sgn a * (\<bar>a\<bar> mod \<bar>b\<bar>)" "b \<noteq> 0"
    using assms(1) by (auto simp: checked_def checked_rem_def smod_int_alt_def split: if_splits)
  have "0 \<le> \<bar>a\<bar> mod \<bar>b\<bar>" "\<bar>a\<bar> mod \<bar>b\<bar> < \<bar>b\<bar>" using z(2) by simp_all
  moreover have "\<bar>b\<bar> \<le> 2 ^ 63" using assms(2) by (auto simp: i64_defs)
  ultimately show ?thesis unfolding z(1) by (auto simp: i64_defs sgn_if)
qed

lemma arith_div_ok:
  assumes "arith l r op (\<lambda>a b. if b = 0 then Inl DivisionByZero else checked (checked_div a b)) = Inr v"
    "slot_ok l" "slot_ok r"
  shows "slot_ok v"
proof (rule arith_ok [OF assms])
  fix x y z
  assume "i64_ok x" "(if y = 0 then Inl DivisionByZero else checked (checked_div x y)) = Inr (Some z)"
  then show "i64_ok z" using checked_div_ok [of x y z] by (simp split: if_splits)
qed

lemma arith_rem_ok:
  assumes "arith l r op (\<lambda>a b. if b = 0 then Inl DivisionByZero else checked (checked_rem a b)) = Inr v"
    "slot_ok l" "slot_ok r"
  shows "slot_ok v"
proof (rule arith_ok [OF assms])
  fix x y z
  assume "i64_ok y" "(if y = 0 then Inl DivisionByZero else checked (checked_rem x y)) = Inr (Some z)"
  then show "i64_ok z" using checked_rem_ok [of x y z] by (simp split: if_splits)
qed

lemma op_value_ok:
  assumes "list_all binding_ok (px_bindings ctx)" "literal_ok i" "list_all (\<lambda>s. slot_ok (get_reg slots s)) (op_reads i)"
    and "op_value ctx slots i = Inr v"
  shows "slot_ok v"
proof -
  have b: "ctx_binding ctx n = Inr x \<Longrightarrow> binding_ok x" for n x
    using assms(1) by (auto simp: ctx_binding_def list_all_length split: if_splits)
  show ?thesis
  proof (cases i)
    case (PLoadEventField n f d)
    with assms(4) obtain x where "ctx_binding ctx n = Inr x" "load_event_field x f = Inr v"
      by (auto simp: try_bind_Inr)
    with load_ok(1) [OF b] show ?thesis by blast
  next
    case (PLoadCauseField n f d)
    with assms(4) obtain x where "ctx_binding ctx n = Inr x" "load_cause_field x f = Inr v"
      by (auto simp: try_bind_Inr)
    with load_ok(2) [OF b] show ?thesis by blast
  next
    case (PLoadProblemField n f d)
    with assms(4) obtain x where "ctx_binding ctx n = Inr x" "load_problem_field x f = Inr v"
      by (auto simp: try_bind_Inr)
    with load_ok(3) [OF b] show ?thesis by blast
  next
    case (PDiv l r d)
    with assms show ?thesis by (simp add: arith_div_ok)
  next
    case (PMod l r d)
    with assms show ?thesis by (simp add: arith_rem_ok)
  qed (use assms in \<open>simp_all add: try_bind_Inr scope_key_i64_ok arith_checked_ok cmp_ok split: option.splits\<close>,
      (use assms in \<open>auto simp: try_bind_Inr scope_key_i64_ok\<close>)?)
qed

text \<open>The registers of the model hold unbounded integers, those of the source \<open>Slot::Int(i64)\<close>. Whatever
  opcodes run on bindings whose fields are \<open>i64\<close>, every integer in a register stays an \<open>i64\<close>, so
  the model's registers are those of the source.\<close>

theorem registers_stay_i64:
  assumes "list_all binding_ok (px_bindings ctx)"
    and "list_all (\<lambda>i. literal_ok i \<and> list_all (\<lambda>s. slot_index s < max_slots) (op_dst i # op_reads i)) ops"
    and "list_all slot_ok slots" "length slots = max_slots" "eval_ops ctx ops slots = Inr r"
  shows "list_all slot_ok r"
  using assms(2-)
proof (induction ops arbitrary: slots)
  case (Cons i ops)
  then obtain v where v: "op_value ctx slots i = Inr v" "eval_ops ctx ops (set_reg (op_dst i) slots v) = Inr r"
    by (auto simp: try_bind_Inr)
  have "list_all (\<lambda>s. slot_ok (get_reg slots s)) (op_reads i)"
    using Cons.prems by (auto simp: list_all_iff get_reg_def)
  with op_value_ok [OF assms(1) _ this v(1)] Cons.prems(1) have "slot_ok v" by simp
  then have "list_all slot_ok (set_reg (op_dst i) slots v)"
    using Cons.prems(2) by (auto simp: set_reg_def list_all_iff dest!: set_update_subset_insert [THEN subsetD])
  with Cons v(2) show ?case by (simp add: set_reg_def)
qed simp

theorem registers_stay_i64_witness:
  "list_all slot_ok (case eval_ops (demo_ctx (Bound (BEvent (plain_event 1 100)))) guarded_ops (replicate max_slots Empty) of
     Inr r \<Rightarrow> r | Inl _ \<Rightarrow> [])"
proof (cases "eval_ops (demo_ctx (Bound (BEvent (plain_event 1 100)))) guarded_ops (replicate max_slots Empty)")
  case (Inr r)
  have "list_all slot_ok r"
    by (rule registers_stay_i64 [OF _ _ _ _ Inr])
      (simp_all add: demo_ctx_def guarded_ops_def max_slots_def plain_event_def event_new_def i64_defs eval_nat_numeral)
  with Inr show ?thesis by simp
qed simp

end
