(* ===== verification/Adgl_Topology.thy ===== *)
theory Adgl_Topology
  imports Adgl_Predicate
begin

text \<open>
  \<open>StaticTopology\<close> (crates/airpulse_dsl-evaluator/src/topology.rs): symmetric relations, the
  directed upstream graph and its depth-bounded search with cycle detection. A \<open>BTreeSet\<close> of
  scopes is a list in iteration order (scope type, then key); a query returns the diagnostics
  it records.
\<close>

datatype topology_diagnostic = UpstreamCycle scope_id | HopBoundExceeded scope_id

definition topology_diag_code :: "topology_diagnostic \<Rightarrow> string" where
  "topology_diag_code d = ''ADGL3006''"

record static_topology =
  st_known :: "scope_id list"
  st_relations :: "(scope_id \<times> scope_id) list list"
  st_upstream :: "(scope_id, scope_id list) hmap"
  st_max_hops :: nat
  st_diagnostics :: "topology_diagnostic list"

text \<open>The derived order of \<open>ScopeId\<close>.\<close>

definition scope_ord :: "scope_id \<Rightarrow> u8 \<times> u64" where
  "scope_ord s = (scope_discriminant (si_type s), si_key s)"

definition norm_pair :: "scope_id \<Rightarrow> scope_id \<Rightarrow> scope_id \<times> scope_id" where
  "norm_pair a b = (if scope_ord a \<le> scope_ord b then (a, b) else (b, a))"

definition bt_insert :: "scope_id \<Rightarrow> scope_id list \<Rightarrow> scope_id list" where
  "bt_insert s xs = (if s \<in> set xs then xs else insert_after scope_ord s xs)"

definition topology_new :: "nat \<Rightarrow> static_topology" where
  "topology_new max_hops =
     \<lparr>st_known = [], st_relations = replicate 5 [], st_upstream = [], st_max_hops = max max_hops 1,
      st_diagnostics = []\<rparr>"

definition declare_scope :: "scope_id \<Rightarrow> static_topology \<Rightarrow> static_topology" where
  "declare_scope s st = st\<lparr>st_known := bt_insert s (st_known st)\<rparr>"

definition relate :: "nat \<Rightarrow> scope_id \<Rightarrow> scope_id \<Rightarrow> static_topology \<Rightarrow> static_topology" where
  "relate rel a b st =
     st\<lparr>st_known := bt_insert b (bt_insert a (st_known st)),
        st_relations := (st_relations st)[rel := List.insert (norm_pair a b) (st_relations st ! rel)]\<rparr>"

definition upstream_edge :: "scope_id \<Rightarrow> scope_id \<Rightarrow> static_topology \<Rightarrow> static_topology" where
  "upstream_edge up down st =
     st\<lparr>st_known := bt_insert down (bt_insert up (st_known st)),
        st_upstream := hm_put down
          (bt_insert up (case hm_get (st_upstream st) down of Some ups \<Rightarrow> ups | None \<Rightarrow> [])) (st_upstream st)\<rparr>"

definition query :: "static_topology \<Rightarrow> nat \<Rightarrow> scope_id \<Rightarrow> scope_id \<Rightarrow> t3" where
  "query st rel a b =
     (if a = b then TTrue
      else if norm_pair a b \<in> set (st_relations st ! rel) then TTrue
      else if a \<in> set (st_known st) \<and> b \<in> set (st_known st) then TFalse
      else TUnknown)"

subsection \<open>The upstream search\<close>

record dfs_state =
  df_on_path :: "scope_id list"
  df_done :: "scope_id list"
  df_cycle :: bool
  df_overrun :: bool
  df_found :: bool

definition upstream_of_node :: "static_topology \<Rightarrow> scope_id \<Rightarrow> scope_id list" where
  "upstream_of_node st node = (case hm_get (st_upstream st) node of Some ups \<Rightarrow> ups | None \<Rightarrow> [])"

text \<open>\<open>dfs\<close> and its loop over the upstream neighbours.\<close>

function dfs :: "static_topology \<Rightarrow> scope_id \<Rightarrow> nat \<Rightarrow> scope_id \<Rightarrow> dfs_state \<Rightarrow> dfs_state"
  and dfs_nexts :: "static_topology \<Rightarrow> scope_id \<Rightarrow> nat \<Rightarrow> scope_id list \<Rightarrow> dfs_state \<Rightarrow> dfs_state"
where
  "dfs st target hops node s =
     (let s1 = dfs_nexts st target hops (upstream_of_node st node)
                 (s\<lparr>df_on_path := List.insert node (df_on_path s)\<rparr>)
      in s1\<lparr>df_on_path := removeAll node (df_on_path s1), df_done := List.insert node (df_done s1)\<rparr>)"
| "dfs_nexts st target hops [] s = s"
| "dfs_nexts st target hops (n # ns) s =
     (let s1 = (if n = target then s\<lparr>df_found := True\<rparr> else s);
          s2 = (if n \<in> set (df_on_path s1) then s1\<lparr>df_cycle := True\<rparr>
                else if n \<in> set (df_done s1) then s1
                else case hops of
                       0 \<Rightarrow> s1\<lparr>df_overrun := True\<rparr>
                     | Suc h \<Rightarrow> dfs st target h n s1)
      in dfs_nexts st target hops ns s2)"
  by pat_completeness auto
termination
  by (relation "inv_image (less_than <*lex*> less_than)
       (\<lambda>x. case x of Inl (st, t, hops, node, s) \<Rightarrow> (hops, Suc (length (upstream_of_node st node)))
                   | Inr (st, t, hops, ns, s) \<Rightarrow> (hops, length ns))") auto

declare dfs.simps [simp del]

definition dfs_start :: dfs_state where
  "dfs_start = \<lparr>df_on_path = [], df_done = [], df_cycle = False, df_overrun = False, df_found = False\<rparr>"

definition upstream_search :: "static_topology \<Rightarrow> scope_id \<Rightarrow> scope_id \<Rightarrow> dfs_state" where
  "upstream_search st up down = dfs st up (st_max_hops st) down dfs_start"

definition upstream_of :: "static_topology \<Rightarrow> scope_id \<Rightarrow> scope_id \<Rightarrow> t3 \<times> topology_diagnostic list" where
  "upstream_of st up down =
     (if up = down then (TFalse, [])
      else if up \<notin> set (st_known st) \<or> down \<notin> set (st_known st) then (TUnknown, [])
      else
        let r = upstream_search st up down in
        if df_cycle r then (TFalse, [UpstreamCycle down])
        else if df_overrun r \<and> \<not> df_found r then (TFalse, [HopBoundExceeded down])
        else (t3_of_bool (df_found r), []))"

text \<open>The provider, as the predicate interpreter uses it.\<close>

fun static_provider :: "static_topology \<Rightarrow> topology" where
  "static_provider st SameSession a b = query st 0 a b"
| "static_provider st SameClient a b = query st 1 a b"
| "static_provider st SamePort a b = query st 2 a b"
| "static_provider st SameAp a b = query st 3 a b"
| "static_provider st SameVlan a b = query st 4 a b"
| "static_provider st UpstreamOf a b = fst (upstream_of st a b)"

subsection \<open>Relations\<close>

lemma norm_pair_commute: "norm_pair a b = norm_pair b a"
proof (cases "scope_ord a = scope_ord b")
  case True
  have "scope_discriminant x = scope_discriminant y \<Longrightarrow> x = y" for x y
    by (cases x; cases y) simp_all
  with True have "a = b" by (simp add: scope_ord_def scope_id.equality)
  then show ?thesis by simp
next
  case False
  then show ?thesis by (auto simp: norm_pair_def)
qed

lemma bt_insert_set [simp]: "set (bt_insert s xs) = insert s (set xs)"
  by (auto simp: bt_insert_def)

text \<open>Relation queries. A query is symmetric and reflexive; a pair just related is \<open>True\<close>, in
  either direction; a scope the topology does not know makes the answer \<open>Unknown\<close>, never
  \<open>False\<close> (ADR-010), unless the two scopes are the same or related.\<close>

theorem relation_queries:
  assumes "rel < length (st_relations st)"
  shows "query st rel a b = query st rel b a \<and> query st rel a a = TTrue
    \<and> query (relate rel a b st) rel b a = TTrue
    \<and> (query st rel a b = TFalse \<longrightarrow> a \<in> set (st_known st) \<and> b \<in> set (st_known st))"
  using assms norm_pair_commute [of a b] by (auto simp: query_def relate_def split: if_splits)

theorem relation_queries_witness:
  "query (relate 0 (scope_vlan 1) scope_global (topology_new 16)) 0 scope_global (scope_vlan 1) = TTrue"
proof -
  have "0 < length (st_relations (topology_new 16))" by (simp add: topology_new_def)
  from relation_queries [OF this] show ?thesis by blast
qed

subsection \<open>The search is sound\<close>

text \<open>Paths along declared upstream edges, with their length.\<close>

inductive upstream_path :: "static_topology \<Rightarrow> scope_id \<Rightarrow> nat \<Rightarrow> scope_id \<Rightarrow> bool" for st where
  path_edge: "b \<in> set (upstream_of_node st a) \<Longrightarrow> upstream_path st a 1 b"
| path_step: "b \<in> set (upstream_of_node st a) \<Longrightarrow> upstream_path st b n c \<Longrightarrow> upstream_path st a (Suc n) c"

lemma dfs_found_path:
  "df_found (dfs st target hops node s) \<Longrightarrow>
     df_found s \<or> (\<exists>n\<le>Suc hops. upstream_path st node n target)"
  "df_found (dfs_nexts st target hops ns s) \<Longrightarrow>
     (\<forall>a. set ns \<subseteq> set (upstream_of_node st a) \<longrightarrow>
        df_found s \<or> (\<exists>n\<le>Suc hops. upstream_path st a n target))"
proof (induction st target hops node s and st target hops ns s rule: dfs_dfs_nexts.induct)
  case (1 st target hops node s)
  from "1.prems" have "df_found (dfs_nexts st target hops (upstream_of_node st node)
      (s\<lparr>df_on_path := List.insert node (df_on_path s)\<rparr>))"
    by (simp add: dfs.simps Let_def)
  from "1.IH" [OF this, rule_format, of node] show ?case by simp
next
  case (3 st target hops n ns s)
  define s1 where "s1 = (if n = target then s\<lparr>df_found := True\<rparr> else s)"
  define s2 where "s2 = (if n \<in> set (df_on_path s1) then s1\<lparr>df_cycle := True\<rparr>
                else if n \<in> set (df_done s1) then s1
                else case hops of
                       0 \<Rightarrow> s1\<lparr>df_overrun := True\<rparr>
                     | Suc h \<Rightarrow> dfs st target h n s1)"
  have unfold: "dfs_nexts st target hops (n # ns) s = dfs_nexts st target hops ns s2"
    by (simp only: dfs_nexts.simps Let_def s1_def s2_def)
  show ?case
  proof (intro allI impI)
    fix a assume sub: "set (n # ns) \<subseteq> set (upstream_of_node st a)"
    have edge: "n \<in> set (upstream_of_node st a)" using sub by simp
    have s1: "df_found s1 \<Longrightarrow> df_found s \<or> (\<exists>k\<le>Suc hops. upstream_path st a k target)"
      using path_edge [OF edge] by (auto simp: s1_def split: if_splits intro!: exI [of _ "1::nat"])
    have s2: "df_found s2 \<Longrightarrow> df_found s1 \<or> (\<exists>k\<le>Suc hops. upstream_path st a k target)"
    proof -
      assume f: "df_found s2"
      show ?thesis
      proof (cases "n \<in> set (df_on_path s1) \<or> n \<in> set (df_done s1) \<or> hops = 0")
        case True
        then show ?thesis using f by (auto simp: s2_def split: if_splits)
      next
        case False
        then obtain h where h: "hops = Suc h" by (cases hops) auto
        have "df_found (dfs st target h n s1)" using f False h by (simp add: s2_def)
        moreover have "n \<notin> set (df_on_path s1)" "n \<notin> set (df_done s1)" using False by auto
        ultimately have "df_found s1 \<or> (\<exists>k\<le>Suc h. upstream_path st n k target)"
          using "3.IH"(1) [OF s1_def _ _ h] by blast
        then show ?thesis using path_step [OF edge] h by (meson Suc_le_mono)
      qed
    qed
    have "df_found s2 \<or> (\<exists>k\<le>Suc hops. upstream_path st a k target)"
      using "3.IH"(2) [OF s1_def s2_def] "3.prems" sub unfold by auto
    then show "df_found s \<or> (\<exists>k\<le>Suc hops. upstream_path st a k target)" using s1 s2 by blast
  qed
qed simp

text \<open>A \<open>True\<close> answer of the upstream query is justified: there is a chain of declared
  upstream edges from the lower scope to the upper one, of at most \<open>max_hops + 1\<close> edges, both
  scopes are known, and the query met no cycle and records no diagnostic.\<close>

theorem upstream_true_sound:
  assumes "fst (upstream_of st up down) = TTrue"
  shows "(\<exists>n\<le>Suc (st_max_hops st). upstream_path st down n up)
    \<and> up \<in> set (st_known st) \<and> down \<in> set (st_known st) \<and> snd (upstream_of st up down) = []"
proof -
  let ?r = "upstream_search st up down"
  have "up \<noteq> down" and known: "up \<in> set (st_known st)" "down \<in> set (st_known st)"
    and found: "df_found ?r" and nocyc: "\<not> df_cycle ?r"
    using assms by (auto simp: upstream_of_def Let_def t3_of_bool_def split: if_splits)
  have "\<not> df_found dfs_start" by (simp add: dfs_start_def)
  with dfs_found_path(1) [OF found [unfolded upstream_search_def]]
  have "\<exists>n\<le>Suc (st_max_hops st). upstream_path st down n up" by blast
  moreover have "snd (upstream_of st up down) = []"
    using \<open>up \<noteq> down\<close> known found nocyc by (simp add: upstream_of_def Let_def)
  ultimately show ?thesis using known by blast
qed

definition port_scope :: "u64 \<Rightarrow> scope_id" where
  "port_scope n = \<lparr>si_type = Port, si_key = n\<rparr>"

text \<open>A chain 0 <- 1 <- 2 of upstream edges under a bound of one hop.\<close>

definition chain_topology :: static_topology where
  "chain_topology = upstream_edge (port_scope 1) (port_scope 2)
     (upstream_edge (port_scope 0) (port_scope 1) (topology_new 1))"

text \<open>Port 5 is three hops above port 0 (0, 3, 4, 5), under a bound of three; a longer way
  (0, 1, 2, 3) to port 3 is searched first.\<close>

definition detour_topology :: static_topology where
  "detour_topology =
     upstream_edge (port_scope 5) (port_scope 4)
    (upstream_edge (port_scope 4) (port_scope 3)
    (upstream_edge (port_scope 3) (port_scope 0)
    (upstream_edge (port_scope 3) (port_scope 2)
    (upstream_edge (port_scope 2) (port_scope 1)
    (upstream_edge (port_scope 1) (port_scope 0) (topology_new 3))))))"

lemma port_scope_eq [simp]: "port_scope a = port_scope b \<longleftrightarrow> a = b"
  by (simp add: port_scope_def)

lemma scope_ord_port [simp]: "scope_ord (port_scope a) = (scope_discriminant Port, a)"
  by (simp add: scope_ord_def port_scope_def)

lemma chain_upstream:
  "st_upstream chain_topology =
     [(port_scope 1, [port_scope 0]), (port_scope 2, [port_scope 1])]"
  "st_known chain_topology = [port_scope 0, port_scope 1, port_scope 2]"
  "st_max_hops chain_topology = 1"
  by (simp_all add: chain_topology_def upstream_edge_def topology_new_def bt_insert_def
      hm_put_def hm_get_def insert_after_def)

lemma detour_upstream:
  "st_upstream detour_topology =
     [(port_scope 0, [port_scope 1, port_scope 3]), (port_scope 1, [port_scope 2]),
      (port_scope 2, [port_scope 3]), (port_scope 3, [port_scope 4]), (port_scope 4, [port_scope 5])]"
  "set (st_known detour_topology) = port_scope ` {0, 1, 2, 3, 4, 5}"
  "st_max_hops detour_topology = 3"
  by (simp_all add: detour_topology_def upstream_edge_def topology_new_def bt_insert_def
      hm_put_def hm_get_def insert_after_def)

lemma chain_two_hops: "upstream_of chain_topology (port_scope 0) (port_scope 2) = (TTrue, [])"
  by (simp add: upstream_of_def upstream_search_def chain_upstream dfs.simps upstream_of_node_def
      hm_get_def dfs_start_def t3_of_bool_def)

text \<open>The search bound is one edge looser and, with its memo, also tighter than documented.
  A chain of two upstream edges is found under a bound of one hop. And in the detour topology
  port 5 is three edges above port 0 under a bound of three, but the search reaches port 3
  first by the longer way, marks it done when its budget is spent, and does not search it again
  by the shorter way: the answer is \<open>False\<close>, with a hop-bound diagnostic.\<close>

theorem hop_bound_inexact:
  "upstream_of chain_topology (port_scope 0) (port_scope 2) = (TTrue, [])
   \<and> st_max_hops chain_topology = 1
   \<and> upstream_path detour_topology (port_scope 0) 3 (port_scope 5)
   \<and> st_max_hops detour_topology = 3
   \<and> upstream_of detour_topology (port_scope 5) (port_scope 0)
       = (TFalse, [HopBoundExceeded (port_scope 0)])"
proof (intro conjI)
  have e: "port_scope 3 \<in> set (upstream_of_node detour_topology (port_scope 0))"
    "port_scope 4 \<in> set (upstream_of_node detour_topology (port_scope 3))"
    "port_scope 5 \<in> set (upstream_of_node detour_topology (port_scope 4))"
    by (simp_all add: upstream_of_node_def detour_upstream hm_get_def)
  show "upstream_path detour_topology (port_scope 0) 3 (port_scope 5)"
    using path_step [OF e(1) path_step [OF e(2) path_edge [OF e(3)]]]
    by (simp add: numeral_3_eq_3)
  show "upstream_of detour_topology (port_scope 5) (port_scope 0)
      = (TFalse, [HopBoundExceeded (port_scope 0)])"
    by (simp add: upstream_of_def upstream_search_def detour_upstream dfs.simps upstream_of_node_def
        hm_get_def dfs_start_def t3_of_bool_def numeral_3_eq_3)
qed (simp_all add: chain_two_hops chain_upstream detour_upstream)

theorem upstream_true_sound_witness:
  "\<exists>n\<le>2. upstream_path chain_topology (port_scope 2) n (port_scope 0)"
proof -
  have "fst (upstream_of chain_topology (port_scope 0) (port_scope 2)) = TTrue"
    by (simp add: chain_two_hops)
  from upstream_true_sound [OF this] show ?thesis
    by (simp add: chain_upstream numeral_2_eq_2)
qed

end
