(* ===== verification/Adgl_Catalog.thy ===== *)
theory Adgl_Catalog
  imports Adgl_Topology
begin

text \<open>
  The ADGL catalog (crates/airpulse_dsl-catalog/src): the schemas of events, causes and problems
  with their builders, the resolution functions, and the tables themselves, one definition per
  group of rows of the source. The tables are translated row by row; a cause, event or problem
  identifier is its name.
\<close>

subsection \<open>Schemas (lib.rs)\<close>

datatype field_type =
    FInt | FString | FSeverity | FConfidence | FSarifId | FScopeId scope_type | FScopeIdList
  | FIntList | FNodeIdList

record field_schema =
  fs_name :: string
  fs_type :: field_type
  fs_pii :: bool
  fs_idx :: field_idx

record scope_route =
  sr_scope :: scope_type
  sr_path :: string

record event_schema =
  es_name :: string
  es_event_type :: event_type
  es_fields :: "field_schema list"
  es_routes :: "scope_route list"

record cause_schema =
  ca_name :: string
  ca_kind :: cause_kind
  ca_scopes :: "scope_type list"
  ca_severity :: "severity option"

record problem_schema =
  pb_name :: string
  pb_kind :: problem_kind
  pb_scopes :: "scope_type list"
  pb_sarif :: sarif_id
  pb_severity :: "severity option"

subsection \<open>Builders (helpers.rs)\<close>

definition int_field :: "string \<Rightarrow> field_idx \<Rightarrow> field_schema" where
  "int_field name idx = field_schema.make name FInt False idx"

definition session_target :: field_schema where
  "session_target = field_schema.make ''target'' (FScopeId Session) False 0"

definition global_target :: field_schema where
  "global_target = field_schema.make ''target'' (FScopeId Global) False 0"

definition cat_event :: "string \<Rightarrow> field_schema list \<Rightarrow> scope_route list \<Rightarrow> event_schema" where
  "cat_event name fs routes = event_schema.make name name fs routes"

definition l3_session_flag_event :: "string \<Rightarrow> event_schema" where
  "l3_session_flag_event name =
     cat_event name [session_target, int_field ''time'' 1, int_field ''count'' 2]
       [scope_route.make Session ''target'']"

definition cat_cause :: "string \<Rightarrow> scope_type list \<Rightarrow> severity option \<Rightarrow> cause_schema" where
  "cat_cause name scopes sev = cause_schema.make name name scopes sev"

definition cat_problem ::
    "string \<Rightarrow> scope_type list \<Rightarrow> sarif_id \<Rightarrow> severity option \<Rightarrow> problem_schema" where
  "cat_problem name scopes sarif sev = problem_schema.make name name scopes sarif sev"

subsection \<open>Events (events.rs)\<close>

definition seed_tcp_events :: "event_schema list" where
  "seed_tcp_events =
     [
      cat_event ''tcp.retransmission_burst'' [field_schema.make ''segment_size'' FInt False 0,
        field_schema.make ''target'' (FScopeId Session) False 1,
        field_schema.make ''time'' FInt False 2,
        field_schema.make ''vlan'' (FScopeId Vlan) False 3,
        field_schema.make ''path'' FScopeIdList False 4,
        field_schema.make ''dst_ip'' FInt True 5, field_schema.make ''src_ip'' FInt True 6]
        [scope_route.make Session ''target'', scope_route.make Vlan ''vlan'',
        scope_route.make Vlan ''path''],
      cat_event ''icmp.ptb'' [session_target, int_field ''time'' 1, int_field ''quoted_mtu'' 2,
        field_schema.make ''path'' FScopeIdList False 3,
        field_schema.make ''dst_ip'' FInt True 4] [scope_route.make Session ''target''],
      cat_event ''wifi.deauth_burst''
        [field_schema.make ''target'' (FScopeId AccessPoint) False 0, int_field ''time'' 1,
        int_field ''count'' 2, field_schema.make ''bssid'' FInt True 3,
        field_schema.make ''client_macs'' FIntList True 4, int_field ''window_ms'' 5]
        [scope_route.make AccessPoint ''target''],
      cat_event ''wifi.rf_telemetry''
        [field_schema.make ''target'' (FScopeId AccessPoint) False 0, int_field ''time'' 1,
        int_field ''rssi'' 2, int_field ''noise'' 3, int_field ''channel'' 4]
        [scope_route.make AccessPoint ''target'']]"

definition seed_link_events :: "event_schema list" where
  "seed_link_events =
     [
      cat_event ''stp.topology_change'' [field_schema.make ''target'' (FScopeId Vlan) False 0,
        int_field ''time'' 1, field_schema.make ''vlan'' (FScopeId Vlan) False 2]
        [scope_route.make Vlan ''target''],
      cat_event ''dhcp.timeout'' [field_schema.make ''target'' (FScopeId ClientMac) False 0,
        int_field ''time'' 1, field_schema.make ''vlan'' (FScopeId Vlan) False 2,
        field_schema.make ''client_mac'' FInt True 3] [scope_route.make ClientMac ''target'',
        scope_route.make Vlan ''vlan''],
      cat_event ''radius.access_request''
        [field_schema.make ''target'' (FScopeId ClientMac) False 0, int_field ''time'' 1,
        field_schema.make ''vlan'' (FScopeId Vlan) False 2]
        [scope_route.make ClientMac ''target'', scope_route.make Vlan ''vlan''],
      cat_event ''dot1x.eapol_start'' [field_schema.make ''target'' (FScopeId ClientMac) False 0,
        int_field ''time'' 1, field_schema.make ''vlan'' (FScopeId Vlan) False 2]
        [scope_route.make ClientMac ''target'', scope_route.make Vlan ''vlan''],
      cat_event ''port.crc_errors'' [field_schema.make ''target'' (FScopeId Port) False 0,
        int_field ''time'' 1, int_field ''count'' 2] [scope_route.make Port ''target'']]"

definition seed_state_events :: "event_schema list" where
  "seed_state_events =
     [
      cat_event ''port.link_flap'' [field_schema.make ''target'' (FScopeId Port) False 0,
        int_field ''time'' 1, int_field ''count'' 2] [scope_route.make Port ''target''],
      cat_event ''port.admin_state'' [field_schema.make ''target'' (FScopeId Port) False 0,
        int_field ''time'' 1, field_schema.make ''state'' FString False 2]
        [scope_route.make Port ''target''],
      cat_event ''port.oper_state'' [field_schema.make ''target'' (FScopeId Port) False 0,
        int_field ''time'' 1, field_schema.make ''state'' FString False 2]
        [scope_route.make Port ''target'']]"

definition tcp_summary_events :: "event_schema list" where
  "tcp_summary_events =
     [
      cat_event ''tcp.session_summary'' [session_target, int_field ''loss_rate_pm'' 1,
        int_field ''burst_count'' 2, int_field ''loss_type'' 3, int_field ''rto_ratio_pm'' 4,
        int_field ''rtt_mean_ms'' 5, int_field ''rtt_p95_ms'' 6,
        int_field ''rtt_inflation_centi'' 7, int_field ''cwnd_rwin_ratio_centi'' 8,
        int_field ''rwin_median'' 9, int_field ''cwnd_median'' 10, int_field ''bdp_gap'' 11,
        int_field ''bufferbloat'' 12, int_field ''buffer_mean_ratio_centi'' 13,
        int_field ''throughput_mean_kbps'' 14, int_field ''zero_window_events'' 15,
        int_field ''acked_unseen_count'' 16, int_field ''checksum_bad_count'' 17,
        int_field ''completeness'' 18, int_field ''sack_scoreboard_retrans'' 19,
        int_field ''tail_loss_probe_events'' 20, int_field ''rst_count'' 21,
        int_field ''fast_retransmissions'' 22, int_field ''rto_count'' 23,
        int_field ''duration_ms'' 24, int_field ''total_bytes'' 25, int_field ''time'' 26,
        int_field ''lost_packets'' 27, int_field ''packet_count'' 28,
        int_field ''session_is_ipv6'' 29] [scope_route.make Session ''target'']]"

definition l3_flag_events :: "event_schema list" where
  "l3_flag_events =
     [
      l3_session_flag_event ''icmp.unreach'',
      l3_session_flag_event ''icmp.ttl_exceeded'',
      l3_session_flag_event ''icmp.redirect'',
      l3_session_flag_event ''icmp.tcp_mss'',
      l3_session_flag_event ''icmp.tcp_blackhole'',
      l3_session_flag_event ''arp.storm'',
      l3_session_flag_event ''arp.dup_ip'',
      l3_session_flag_event ''ndp.rs_only'',
      l3_session_flag_event ''dhcp.ether_issue'',
      l3_session_flag_event ''dhcp.dns_mismatch'',
      l3_session_flag_event ''dhcpv6.ether_issue'',
      l3_session_flag_event ''dns.onboard_anomaly'',
      l3_session_flag_event ''dns.tls_name_mismatch'',
      l3_session_flag_event ''tls.slow_handshake'',
      l3_session_flag_event ''tls.alerts'',
      l3_session_flag_event ''http.redirect_burst'',
      l3_session_flag_event ''http.errors'',
      l3_session_flag_event ''quic.tcp_coexist'',
      l3_session_flag_event ''dot1x.wired'',
      l3_session_flag_event ''stp.tcn'',
      l3_session_flag_event ''stp.tcp_burst'',
      l3_session_flag_event ''igmp.mld_heavy'',
      l3_session_flag_event ''zeroconf.udp_burst'',
      l3_session_flag_event ''vlan.qinq'',
      l3_session_flag_event ''ntp.udp_heavy'',
      l3_session_flag_event ''lldp.seen'',
      l3_session_flag_event ''tunnel.icmp_mtu'']"

definition protocol_summary_events :: "event_schema list" where
  "protocol_summary_events =
     [
      cat_event ''radius.summary'' [global_target, int_field ''reject_rate_pm'' 1,
        int_field ''access_request'' 2, int_field ''retransmissions'' 3,
        int_field ''latency_median_ms'' 4] [scope_route.make Global ''target''],
      cat_event ''diameter.summary'' [global_target, int_field ''dwr_dwa_gap'' 1,
        int_field ''result_errors_total'' 2, int_field ''cer'' 3, int_field ''cea'' 4,
        int_field ''malformed'' 5, int_field ''session_term_gap'' 6]
        [scope_route.make Global ''target''],
      cat_event ''gtp.summary'' [global_target, int_field ''echo_request'' 1,
        int_field ''echo_response'' 2, int_field ''create_session_failure_rate_pm'' 3,
        int_field ''create_session_req'' 4, int_field ''user_only'' 5,
        int_field ''delete_session_req'' 6, int_field ''delete_session_resp'' 7,
        int_field ''modify_session_req'' 8, int_field ''modify_session_resp'' 9]
        [scope_route.make Global ''target''],
      cat_event ''dhcp.summary'' [global_target, int_field ''nak_rate_pm'' 1,
        int_field ''nak'' 2, int_field ''discover_without_offer'' 3,
        int_field ''lease_latency_median_ms'' 4] [scope_route.make Global ''target'']]"

subsection \<open>Wi-Fi events (wifi/events_data.rs, wifi/mod.rs)\<close>

record wifi_event_spec =
  we_name :: string
  we_scope :: scope_type
  we_extra :: "string list"
  we_pii :: "string list"

definition wifi_frame_specs :: "wifi_event_spec list" where
  "wifi_frame_specs =
     [
      wifi_event_spec.make ''wifi.mgmt.beacon'' AccessPoint [''channel'', ''rssi_dbm'',
        ''dtim_period'', ''has_rsn''] [],
      wifi_event_spec.make ''wifi.mgmt.probe_req'' ClientMac [''freq_mhz''] [],
      wifi_event_spec.make ''wifi.mgmt.probe_resp'' AccessPoint [''rssi_dbm''] [],
      wifi_event_spec.make ''wifi.mgmt.auth'' ClientMac [''seq'', ''status'', ''algorithm'']
        [''bssid''],
      wifi_event_spec.make ''wifi.mgmt.assoc_req'' ClientMac [''ft_pmkid_hint''] [''bssid''],
      wifi_event_spec.make ''wifi.mgmt.assoc_resp'' AccessPoint [''status''] [],
      wifi_event_spec.make ''wifi.mgmt.deauth'' ClientMac [''initiator'', ''reason'',
        ''protected'', ''is_deauth_or_disassoc'', ''initiator_code''] [],
      wifi_event_spec.make ''wifi.mgmt.action'' AccessPoint [''category'', ''protected'',
        ''initiator_code'', ''associated'', ''csa_present''] [],
      wifi_event_spec.make ''wifi.mgmt.cts'' AccessPoint [''nav_us''] [],
      wifi_event_spec.make ''wifi.ctrl.rts'' ClientMac [] [],
      wifi_event_spec.make ''wifi.ctrl.bar'' AccessPoint [] [],
      wifi_event_spec.make ''wifi.data.frame'' ClientMac [''retry'', ''protected'', ''tid'',
        ''rate_kbps'', ''rssi_dbm''] [],
      wifi_event_spec.make ''wifi.eapol.frame'' ClientMac [''frame_type''] []]"

definition wifi_outcome_specs :: "wifi_event_spec list" where
  "wifi_outcome_specs =
     [
      wifi_event_spec.make ''wifi.client.auth_outcome'' ClientMac [''auth_failed'',
        ''deauth_reason''] [],
      wifi_event_spec.make ''wifi.client.eap_outcome'' ClientMac [''outcome_code'',
        ''state_code'', ''nak_method_count'', ''idle_timeout'', ''retry_count''] [],
      wifi_event_spec.make ''wifi.client.roam_outcome'' ClientMac [''success'', ''latency_ms'',
        ''reassoc'', ''status_code'', ''ft''] [],
      wifi_event_spec.make ''wifi.client.dhcp_outcome'' ClientMac [''pending_ms'', ''ack_seen'',
        ''outcome_code''] [],
      wifi_event_spec.make ''wifi.client.dhcpv6_outcome'' ClientMac [''pending_ms'',
        ''reply_seen''] [],
      wifi_event_spec.make ''wifi.client.dns_outcome'' ClientMac [''pending_ms'',
        ''response_seen'', ''latency_ms'', ''resolver_mismatch''] [],
      wifi_event_spec.make ''wifi.client.assoc_pending'' ClientMac [''pending_ms'',
        ''response_seen''] [],
      wifi_event_spec.make ''wifi.client.sae_outcome'' ClientMac [''sae_seen'', ''deauth_seen'',
        ''eap_seen''] [],
      wifi_event_spec.make ''wifi.client.twt_outcome'' ClientMac [''twt_rejected''] []]"

definition wifi_summary_specs :: "wifi_event_spec list" where
  "wifi_summary_specs =
     [
      wifi_event_spec.make ''wifi.ap.summary'' AccessPoint [''gap_us'', ''expected_interval_us'',
        ''missed_count'', ''jitter_centi_ratio'', ''sample_count'', ''probe_age_ms'',
        ''beacon_age_ms'', ''beacon_rates_hash'', ''assoc_rates_hash'', ''consecutive_count'',
        ''max_gap_ms'', ''bar_count'', ''window_ms'', ''peer_rates_hash'', ''rates_hash'',
        ''ap_count'', ''has_rsn'', ''max_rate_kbps'', ''has_ht_cap'', ''streak'',
        ''channel_count'', ''rssi_dbm'', ''delta_db'', ''frame_count'', ''retry_permille'',
        ''weak_security'', ''client_count'', ''target_is_dfs'', ''ssid_count'', ''dtim_period'',
        ''util_centipercent'', ''security_fingerprint_count'', ''active_sta_count'',
        ''min_sta_frames'', ''ap_retry_permille'', ''client_retry_mean_permille'',
        ''peer_bssid_count'', ''high_co_channel_present'', ''is_6ghz'', ''has_he_cap'',
        ''eht_width_code'', ''has_eht_cap'', ''has_puncturing_bitmap'', ''has_visible_ssid'',
        ''has_supported_rates'', ''collision'', ''unencrypted_traffic_leak''] [''bssid''],
      wifi_event_spec.make ''wifi.client.summary'' ClientMac [''streak'', ''ps_poll_count'',
        ''state_code'', ''count'', ''window_ms'', ''connected'', ''snr_db'', ''rate_kbps'',
        ''data_frame_count'', ''absence_ms'', ''has_ul'', ''has_dl'', ''ps_beacon_streak'',
        ''ft'', ''pmkid_count'', ''protected'', ''assoc_age_ms'', ''tid'', ''rssi_dbm'',
        ''neighbor_delta_db'', ''distinct_ap_count'', ''probe_count'', ''probe_5g_count'',
        ''probe_24g_count'', ''associated_5g'', ''failed_count'', ''ft_or_bss_tm'',
        ''seq_delta'', ''retry'', ''client_generation_code'', ''ap_generation_code'',
        ''mlo_present'', ''saw_6ghz'', ''saw_psc'', ''unique_servfail_count'',
        ''nxdomain_count'', ''server_rst_count'', ''ap_retry_permille'', ''auth_latency_ms'',
        ''summary_kind_code'', ''probe_count_10s'', ''deauth_count_30s'',
        ''disconnect_count_60s'', ''distinct_ap_count_60s'', ''emlsr_transition_count_60s'',
        ''band_probe_count_60s'', ''band_probe_5g_count_60s'', ''band_probe_24g_count_60s'',
        ''psc_probe_count_120s'', ''dns_servfail_unique_count'', ''dns_nxdomain_count'',
        ''captive_rst_count_120s'', ''ft_failure_count_60s'', ''tid_has_ul'', ''tid_has_dl'',
        ''saw_eapol''] [''client_mac'']]"

definition wifi_sample_specs :: "wifi_event_spec list" where
  "wifi_sample_specs =
     [
      wifi_event_spec.make ''tcp.throughput_sample'' Session [''before_peak_kbps'',
        ''after_trough_kbps'', ''mean_throughput_kbps''] [],
      wifi_event_spec.make ''tcp.rtt_sample'' Session [''rtt_ms'', ''baseline_rtt_ms''] []]"

definition wifi_event_specs :: "wifi_event_spec list" where
  "wifi_event_specs = wifi_frame_specs @ wifi_outcome_specs @ wifi_summary_specs @ wifi_sample_specs"

definition scoped_target :: "scope_type \<Rightarrow> field_schema" where
  "scoped_target sc = field_schema.make ''target'' (FScopeId sc) False 0"

definition scoped_field :: "string \<Rightarrow> scope_type \<Rightarrow> field_idx \<Rightarrow> field_schema" where
  "scoped_field name sc idx = field_schema.make name (FScopeId sc) False idx"

text \<open>The two loops over the field names, with the running index.\<close>

fun number_fields :: "bool \<Rightarrow> string list \<Rightarrow> field_idx \<Rightarrow> field_schema list" where
  "number_fields pii [] next_idx = []"
| "number_fields pii (n # ns) next_idx =
     field_schema.make n FInt pii next_idx # number_fields pii ns (Suc next_idx)"

definition build_wifi_event :: "wifi_event_spec \<Rightarrow> event_schema" where
  "build_wifi_event spec =
     (let pii = number_fields True (we_pii spec) 2;
          extra = number_fields False (we_extra spec) (2 + length pii);
          n = 2 + length pii + length extra;
          sibling =
            (if we_name spec = ''wifi.mgmt.deauth''
             then [field_schema.make ''bssid'' FInt True n, scoped_field ''ap_target'' AccessPoint (Suc n)]
             else if we_name spec = ''wifi.mgmt.action''
             then [scoped_field ''client_target'' ClientMac n]
             else []);
          routes =
            (if we_name spec = ''wifi.mgmt.deauth''
             then [scope_route.make ClientMac ''target'', scope_route.make AccessPoint ''ap_target'']
             else if we_name spec = ''wifi.mgmt.action''
             then [scope_route.make AccessPoint ''target'', scope_route.make ClientMac ''client_target'']
             else [scope_route.make (we_scope spec) ''target''])
      in cat_event (we_name spec)
           ([scoped_target (we_scope spec), int_field ''time'' 1] @ pii @ extra @ sibling) routes)"

definition wifi_events :: "event_schema list" where
  "wifi_events = map build_wifi_event wifi_event_specs"

definition all_events :: "event_schema list" where
  "all_events = seed_tcp_events @ seed_link_events @ seed_state_events @ tcp_summary_events
     @ l3_flag_events @ protocol_summary_events @ wifi_events"

subsection \<open>Wi-Fi mappings (wifi/mappings.rs)\<close>

record wifi_mapping =
  wm_problem :: problem_kind
  wm_cause :: cause_kind
  wm_sarif :: sarif_id
  wm_scope :: scope_type

definition wifi_rows_1 :: "wifi_mapping list" where
  "wifi_rows_1 =
     [
      wifi_mapping.make ''WifiApBeaconLoss'' ''WifiApBeaconLossSignal'' ''wifi_ap_beacon_loss'' AccessPoint,
      wifi_mapping.make ''WifiApMalformedBeacon'' ''WifiApMalformedBeaconSignal'' ''wifi_ap_malformed_beacon'' AccessPoint,
      wifi_mapping.make ''WifiApBeaconJitter'' ''WifiApBeaconJitterSignal'' ''wifi_ap_beacon_jitter'' AccessPoint,
      wifi_mapping.make ''WifiApRadioHang'' ''WifiApRadioHangSignal'' ''wifi_ap_radio_hang'' AccessPoint,
      wifi_mapping.make ''WifiApAssocRateMismatch'' ''WifiApAssocRateMismatchSignal'' ''wifi_ap_assoc_rate_mismatch'' AccessPoint,
      wifi_mapping.make ''WifiApRtsFlood'' ''WifiApRtsFloodSignal'' ''wifi_ap_rts_flood'' AccessPoint,
      wifi_mapping.make ''WifiApUnprotectedAction'' ''WifiApUnprotectedActionSignal'' ''wifi_ap_unprotected_action'' AccessPoint,
      wifi_mapping.make ''WifiApCsa'' ''WifiApCsaSignal'' ''wifi_ap_csa'' AccessPoint,
      wifi_mapping.make ''WifiApRateMismatch'' ''WifiApRateMismatchSignal'' ''wifi_ap_rate_mismatch'' AccessPoint,
      wifi_mapping.make ''WifiApHighCoChannel'' ''WifiApHighCoChannelSignal'' ''wifi_ap_high_co_channel'' AccessPoint,
      wifi_mapping.make ''WifiApUnencryptedLeak'' ''WifiApUnencryptedLeakSignal'' ''wifi_ap_unencrypted_leak'' AccessPoint,
      wifi_mapping.make ''WifiApMissingHtCap'' ''WifiApMissingHtCapSignal'' ''wifi_ap_missing_ht_cap'' AccessPoint,
      wifi_mapping.make ''WifiApTimStuck'' ''WifiApTimStuckSignal'' ''wifi_ap_tim_stuck'' AccessPoint,
      wifi_mapping.make ''WifiApDuplicateBssid'' ''WifiApDuplicateBssidSignal'' ''wifi_ap_duplicate_bssid'' AccessPoint,
      wifi_mapping.make ''WifiApLowBeaconRssi'' ''WifiApLowBeaconRssiSignal'' ''wifi_ap_low_beacon_rssi'' AccessPoint,
      wifi_mapping.make ''WifiApProbePowerMismatch'' ''WifiApProbePowerMismatchSignal'' ''wifi_ap_probe_power_mismatch'' AccessPoint,
      wifi_mapping.make ''WifiApExcessiveRetries'' ''WifiApExcessiveRetriesSignal'' ''wifi_ap_excessive_retries'' AccessPoint,
      wifi_mapping.make ''WifiApBarFlood'' ''WifiApBarFloodSignal'' ''wifi_ap_bar_flood'' AccessPoint,
      wifi_mapping.make ''WifiApLargeNavCts'' ''WifiApLargeNavCtsSignal'' ''wifi_ap_large_nav_cts'' AccessPoint,
      wifi_mapping.make ''WifiApPmfDeauth'' ''WifiApPmfDeauthSignal'' ''wifi_ap_pmf_deauth'' AccessPoint,
      wifi_mapping.make ''WifiApWeakSecurity'' ''WifiApWeakSecuritySignal'' ''wifi_ap_weak_security'' AccessPoint,
      wifi_mapping.make ''WifiApDfsEvent'' ''WifiApDfsEventSignal'' ''wifi_ap_dfs_event'' AccessPoint,
      wifi_mapping.make ''WifiApOverlappingBss'' ''WifiApOverlappingBssSignal'' ''wifi_ap_overlapping_bss'' AccessPoint,
      wifi_mapping.make ''WifiApSuboptimalDtim'' ''WifiApSuboptimalDtimSignal'' ''wifi_ap_suboptimal_dtim'' AccessPoint,
      wifi_mapping.make ''WifiApQbssOverload'' ''WifiApQbssOverloadSignal'' ''wifi_ap_qbss_overload'' AccessPoint]"

definition wifi_rows_2 :: "wifi_mapping list" where
  "wifi_rows_2 =
     [
      wifi_mapping.make ''WifiApRogueCandidate'' ''WifiApRogueCandidateSignal'' ''wifi_ap_rogue_candidate'' AccessPoint,
      wifi_mapping.make ''WifiApCollisionStress'' ''WifiApCollisionStressSignal'' ''wifi_ap_collision_stress'' AccessPoint,
      wifi_mapping.make ''WifiApNonWifiInterference'' ''WifiApNonWifiInterferenceSignal'' ''wifi_ap_non_wifi_interference'' AccessPoint,
      wifi_mapping.make ''WifiApDeauthFlood'' ''WifiApDeauthFloodSignal'' ''wifi_ap_deauth_flood'' AccessPoint,
      wifi_mapping.make ''WifiApMissingHeCap'' ''WifiApMissingHeCapSignal'' ''wifi_ap_missing_he_cap'' AccessPoint,
      wifi_mapping.make ''WifiApWidth320WithoutEht'' ''WifiApWidth320WithoutEhtSignal'' ''wifi_ap_width320_without_eht'' AccessPoint,
      wifi_mapping.make ''WifiApPuncturingMismatch'' ''WifiApPuncturingMismatchSignal'' ''wifi_ap_puncturing_mismatch'' AccessPoint,
      wifi_mapping.make ''WifiClientHighRetries'' ''WifiClientHighRetriesSignal'' ''wifi_client_high_retries'' ClientMac,
      wifi_mapping.make ''WifiClientSleepPattern'' ''WifiClientSleepPatternSignal'' ''wifi_client_sleep_pattern'' ClientMac,
      wifi_mapping.make ''WifiClientExcessiveProbing'' ''WifiClientExcessiveProbingSignal'' ''wifi_client_excessive_probing'' ClientMac,
      wifi_mapping.make ''WifiClientFailedPskAuth'' ''WifiClientFailedPskAuthSignal'' ''wifi_client_failed_psk_auth'' ClientMac,
      wifi_mapping.make ''WifiClientEapAuthFailure'' ''WifiClientEapAuthFailureSignal'' ''wifi_client_eap_auth_failure'' ClientMac,
      wifi_mapping.make ''WifiClientEapMethodMismatch'' ''WifiClientEapMethodMismatchSignal'' ''wifi_client_eap_method_mismatch'' ClientMac,
      wifi_mapping.make ''WifiClientRoamingFailure'' ''WifiClientRoamingFailureSignal'' ''wifi_client_roaming_failure'' ClientMac,
      wifi_mapping.make ''WifiClientSlowRoaming'' ''WifiClientSlowRoamingSignal'' ''wifi_client_slow_roaming'' ClientMac,
      wifi_mapping.make ''WifiClientUnprotectedAction'' ''WifiClientUnprotectedActionSignal'' ''wifi_client_unprotected_action'' ClientMac,
      wifi_mapping.make ''WifiClientRateSnrMismatch'' ''WifiClientRateSnrMismatchSignal'' ''wifi_client_rate_snr_mismatch'' ClientMac,
      wifi_mapping.make ''WifiClientOneWayTraffic'' ''WifiClientOneWayTrafficSignal'' ''wifi_client_one_way_traffic'' ClientMac,
      wifi_mapping.make ''WifiClientDeauthLoop'' ''WifiClientDeauthLoopSignal'' ''wifi_client_deauth_loop'' ClientMac,
      wifi_mapping.make ''WifiClientPowerSaveStuck'' ''WifiClientPowerSaveStuckSignal'' ''wifi_client_power_save_stuck'' ClientMac,
      wifi_mapping.make ''WifiClientInvalidPmkid'' ''WifiClientInvalidPmkidSignal'' ''wifi_client_invalid_pmkid'' ClientMac,
      wifi_mapping.make ''WifiClientNullPmkidFt'' ''WifiClientNullPmkidFtSignal'' ''wifi_client_null_pmkid_ft'' ClientMac,
      wifi_mapping.make ''WifiClientSlowAuth'' ''WifiClientSlowAuthSignal'' ''wifi_client_slow_auth'' ClientMac,
      wifi_mapping.make ''WifiClientEncryptedBeforeM4'' ''WifiClientEncryptedBeforeM4Signal'' ''wifi_client_encrypted_before_m4'' ClientMac,
      wifi_mapping.make ''WifiClientPerTidAsymmetry'' ''WifiClientPerTidAsymmetrySignal'' ''wifi_client_per_tid_asymmetry'' ClientMac]"

definition wifi_rows_3 :: "wifi_mapping list" where
  "wifi_rows_3 =
     [
      wifi_mapping.make ''WifiClientSaeDeauthNoEap'' ''WifiClientSaeDeauthNoEapSignal'' ''wifi_client_sae_deauth_no_eap'' ClientMac,
      wifi_mapping.make ''WifiClientSentDeauth'' ''WifiClientSentDeauthSignal'' ''wifi_client_sent_deauth'' ClientMac,
      wifi_mapping.make ''WifiClientSticky'' ''WifiClientStickySignal'' ''wifi_client_sticky'' ClientMac,
      wifi_mapping.make ''WifiClientAssocTimeout'' ''WifiClientAssocTimeoutSignal'' ''wifi_client_assoc_timeout'' ClientMac,
      wifi_mapping.make ''WifiClientFrequentDisconnects'' ''WifiClientFrequentDisconnectsSignal'' ''wifi_client_frequent_disconnects'' ClientMac,
      wifi_mapping.make ''WifiClientBandSteeringResistance'' ''WifiClientBandSteeringResistanceSignal'' ''wifi_client_band_steering_resistance'' ClientMac,
      wifi_mapping.make ''WifiClientUplinkAsymmetry'' ''WifiClientUplinkAsymmetrySignal'' ''wifi_client_uplink_asymmetry'' ClientMac,
      wifi_mapping.make ''WifiClientFtKvCompat'' ''WifiClientFtKvCompatSignal'' ''wifi_client_ft_kv_compat'' ClientMac,
      wifi_mapping.make ''WifiClientMacSpoofSuspected'' ''WifiClientMacSpoofSuspectedSignal'' ''wifi_client_mac_spoof_suspected'' ClientMac,
      wifi_mapping.make ''WifiClientGenerationMismatch'' ''WifiClientGenerationMismatchSignal'' ''wifi_client_generation_mismatch'' ClientMac,
      wifi_mapping.make ''WifiClientEmlsrChurn'' ''WifiClientEmlsrChurnSignal'' ''wifi_client_emlsr_churn'' ClientMac,
      wifi_mapping.make ''WifiClientNoPscScan'' ''WifiClientNoPscScanSignal'' ''wifi_client_no_psc_scan'' ClientMac,
      wifi_mapping.make ''WifiClientEapRadiusTimeout'' ''WifiClientEapRadiusTimeoutSignal'' ''wifi_client_eap_radius_timeout'' ClientMac,
      wifi_mapping.make ''WifiClientEapAccessReject'' ''WifiClientEapAccessRejectSignal'' ''wifi_client_eap_access_reject'' ClientMac,
      wifi_mapping.make ''WifiClientEapTlsCert'' ''WifiClientEapTlsCertSignal'' ''wifi_client_eap_tls_cert'' ClientMac,
      wifi_mapping.make ''WifiClientDhcpTimeout'' ''WifiClientDhcpTimeoutSignal'' ''wifi_client_dhcp_timeout'' ClientMac,
      wifi_mapping.make ''WifiClientDhcpNak'' ''WifiClientDhcpNakSignal'' ''wifi_client_dhcp_nak'' ClientMac,
      wifi_mapping.make ''WifiClientDhcpDnsMismatch'' ''WifiClientDhcpDnsMismatchSignal'' ''wifi_client_dhcp_dns_mismatch'' ClientMac,
      wifi_mapping.make ''WifiClientDhcpv6Timeout'' ''WifiClientDhcpv6TimeoutSignal'' ''wifi_client_dhcpv6_timeout'' ClientMac,
      wifi_mapping.make ''WifiClientDnsTimeout'' ''WifiClientDnsTimeoutSignal'' ''wifi_client_dns_timeout'' ClientMac,
      wifi_mapping.make ''WifiClientDnsSlow'' ''WifiClientDnsSlowSignal'' ''wifi_client_dns_slow'' ClientMac,
      wifi_mapping.make ''WifiClientDnsServfail'' ''WifiClientDnsServfailSignal'' ''wifi_client_dns_servfail'' ClientMac,
      wifi_mapping.make ''WifiClientCaptivePortal'' ''WifiClientCaptivePortalSignal'' ''wifi_client_captive_portal'' ClientMac,
      wifi_mapping.make ''WifiXlayerRoamingStall'' ''WifiXlayerRoamingStallSignal'' ''wifi_xlayer_roaming_stall'' Session,
      wifi_mapping.make ''WifiXlayerRetriesLoss'' ''WifiXlayerRetriesLossSignal'' ''wifi_xlayer_retries_loss'' Session]"

definition wifi_rows_4 :: "wifi_mapping list" where
  "wifi_rows_4 =
     [
      wifi_mapping.make ''WifiXlayerRateThroughputDrop'' ''WifiXlayerRateThroughputDropSignal'' ''wifi_xlayer_rate_throughput_drop'' Session,
      wifi_mapping.make ''WifiXlayerSleepRto'' ''WifiXlayerSleepRtoSignal'' ''wifi_xlayer_sleep_rto'' Session,
      wifi_mapping.make ''WifiXlayerDeauthDisconnect'' ''WifiXlayerDeauthDisconnectSignal'' ''wifi_xlayer_deauth_disconnect'' Session,
      wifi_mapping.make ''WifiXlayerCsaGap'' ''WifiXlayerCsaGapSignal'' ''wifi_xlayer_csa_gap'' Session,
      wifi_mapping.make ''WifiXlayerL3HintTcp'' ''WifiXlayerL3HintTcpSignal'' ''wifi_xlayer_l3_hint_tcp'' Session,
      wifi_mapping.make ''WifiXlayerBssColorLoss'' ''WifiXlayerBssColorLossSignal'' ''wifi_xlayer_bss_color_loss'' Session,
      wifi_mapping.make ''WifiXlayerTwtRto'' ''WifiXlayerTwtRtoSignal'' ''wifi_xlayer_twt_rto'' Session,
      wifi_mapping.make ''WifiXlayerCsaThroughputDrop'' ''WifiXlayerCsaThroughputDropSignal'' ''wifi_xlayer_csa_throughput_drop'' Session]"

definition wifi_mappings :: "wifi_mapping list" where
  "wifi_mappings = wifi_rows_1 @ wifi_rows_2 @ wifi_rows_3 @ wifi_rows_4"

definition wifi_problems :: "problem_schema list" where
  "wifi_problems = map (\<lambda>r. cat_problem (wm_problem r) [wm_scope r] (wm_sarif r) None) wifi_mappings"

definition wifi_causes :: "cause_schema list" where
  "wifi_causes = map (\<lambda>r. cat_cause (wm_cause r) [wm_scope r] None) wifi_mappings"

subsection \<open>Causes (causes.rs)\<close>

definition seed_causes :: "cause_schema list" where
  "seed_causes =
     [
      cat_cause ''PmtudBlackhole'' [Session, Vlan] None,
      cat_cause ''Congestion'' [Session] None,
      cat_cause ''TransientL2Disruption'' [Session, Vlan] None,
      cat_cause ''PhysicalCableDamage'' [Port] None,
      cat_cause ''AuthServerOutage'' [Vlan] None,
      cat_cause ''RfInterference'' [AccessPoint] None,
      cat_cause ''UpstreamOutage'' [Global] None,
      cat_cause ''PhysicalLinkAbsent'' [Port] None]"

definition parity_causes :: "cause_schema list" where
  "parity_causes =
     [
      cat_cause ''PacketLossPath'' [Session] None,
      cat_cause ''SpuriousRetransmission'' [Session] None,
      cat_cause ''RadioChannelDegradation'' [Session] None,
      cat_cause ''ReceiverWindowLimit'' [Session] None,
      cat_cause ''SenderBufferLimit'' [Session] None,
      cat_cause ''BufferbloatQueue'' [Session] None,
      cat_cause ''MiddleboxInterference'' [Session, Vlan] None,
      cat_cause ''UplinkLatencyPath'' [Session] None,
      cat_cause ''SlowStartRamp'' [Session] None,
      cat_cause ''CaptureScopeArtifact'' [Session] None,
      cat_cause ''LanL2Instability'' [Session, Vlan] None,
      cat_cause ''AddressingEdgeIssue'' [Session, Vlan, ClientMac] None,
      cat_cause ''TlsPathInterference'' [Session] None,
      cat_cause ''ControlPlaneAnomaly'' [Global, Vlan] None,
      cat_cause ''CoexistencePressure'' [Session, Vlan] None]"

definition family_causes :: "cause_schema list" where
  "family_causes =
     [
      cat_cause ''PmtudPathIssue'' [Session] None,
      cat_cause ''IcmpUnreachablePath'' [Session] None,
      cat_cause ''IcmpControlPlaneNoise'' [Session] None,
      cat_cause ''ArpDuplicateAddress'' [Session] None,
      cat_cause ''ArpStormPressure'' [Session] None,
      cat_cause ''NdpVisibilityGap'' [Session] None,
      cat_cause ''StpReconvergence'' [Session] None,
      cat_cause ''DhcpDnsEdgeIssue'' [Session] None,
      cat_cause ''DnsResolutionPath'' [Session] None,
      cat_cause ''DnsTlsInconsistency'' [Session] None,
      cat_cause ''TlsHandshakeSlowness'' [Session] None,
      cat_cause ''HttpPolicyChain'' [Session] None,
      cat_cause ''QuicCoexistence'' [Session] None,
      cat_cause ''Dot1xOnboarding'' [Session] None,
      cat_cause ''MulticastLanLoad'' [Session] None,
      cat_cause ''ZeroconfNoise'' [Session] None,
      cat_cause ''VlanStackingVisibility'' [Session] None,
      cat_cause ''NtpChatter'' [Session] None,
      cat_cause ''LldpContextOnly'' [Session] None,
      cat_cause ''IncompleteHandshakeCapture'' [Session] None]"

definition protocol_causes :: "cause_schema list" where
  "protocol_causes =
     [
      cat_cause ''RadiusHighRejectSignal'' [Global] None,
      cat_cause ''RadiusRetransSignal'' [Global] None,
      cat_cause ''RadiusSlowAuthSignal'' [Global] None,
      cat_cause ''DiameterCerNoCeaSignal'' [Global] None,
      cat_cause ''DiameterWatchdogUnansweredSignal'' [Global] None,
      cat_cause ''DiameterResultErrorsSignal'' [Global] None,
      cat_cause ''DiameterMalformedSignal'' [Global] None,
      cat_cause ''DiameterSessionTermImbalanceSignal'' [Global] None,
      cat_cause ''GtpCreateSessionFailuresSignal'' [Global] None,
      cat_cause ''GtpEchoUnansweredSignal'' [Global] None,
      cat_cause ''GtpDeleteSessionImbalanceSignal'' [Global] None,
      cat_cause ''GtpModifySessionImbalanceSignal'' [Global] None,
      cat_cause ''GtpUserOnlySignal'' [Global] None,
      cat_cause ''DhcpHighNakSignal'' [Global] None,
      cat_cause ''DhcpMissingOfferSignal'' [Global] None,
      cat_cause ''DhcpSlowLeaseSignal'' [Global] None]"

definition all_causes :: "cause_schema list" where
  "all_causes = seed_causes @ parity_causes @ family_causes @ protocol_causes @ wifi_causes"

subsection \<open>Problems (problems.rs)\<close>

definition seed_problems :: "problem_schema list" where
  "seed_problems =
     [
      cat_problem ''XlIcmpTcpMss'' [Session] ''l3_pmtud_blackhole'' None,
      cat_problem ''CableDisconnected'' [Port] ''ap_port_cable_disconnected'' None,
      cat_problem ''SpanningTreeInstability'' [Vlan] ''l3_stp_spanning_tree'' None,
      cat_problem ''ClientOnboardingFailure'' [Vlan] ''l3_dot1x_wired'' None,
      cat_problem ''WlanRadiusOutage'' [Vlan] ''ap_wlan_radius_outage'' None,
      cat_problem ''DeviceUnreachable'' [Global] ''ap_device_unreachable'' None,
      cat_problem ''AmbiguousDiagnosis'' [Session, Port, ClientMac, Vlan, AccessPoint,
        Global] ''ap_ambiguous'' (Some Medium)]"

definition tcp_problems :: "problem_schema list" where
  "tcp_problems =
     [
      cat_problem ''TcpZeroWindow'' [Session] ''tcp_zero_window'' None,
      cat_problem ''TcpCaptureScopeMiddlebox'' [Session] ''tcp_capture_scope_middlebox'' None,
      cat_problem ''TcpChecksumLink'' [Session] ''tcp_checksum_link'' None,
      cat_problem ''TcpIncompleteHandshake'' [Session] ''tcp_incomplete_handshake'' None,
      cat_problem ''TcpLossSack'' [Session] ''tcp_loss_sack'' None,
      cat_problem ''TcpSpuriousReordering'' [Session] ''tcp_spurious_reordering'' None,
      cat_problem ''TcpPacketLoss'' [Session] ''tcp_packet_loss'' None,
      cat_problem ''TcpRadioChannel'' [Session] ''tcp_radio_channel'' None,
      cat_problem ''TcpRwinLimited'' [Session] ''tcp_rwin_limited'' None,
      cat_problem ''TcpBufferbloat'' [Session] ''tcp_bufferbloat'' None,
      cat_problem ''TcpSenderBuffer'' [Session] ''tcp_sender_buffer'' None,
      cat_problem ''TcpUplinkLatency'' [Session] ''tcp_uplink_latency'' None,
      cat_problem ''TcpMiddlebox'' [Session] ''tcp_middlebox'' None,
      cat_problem ''TcpSlowRamping'' [Session] ''tcp_slow_ramping'' None]"

definition l3_problems :: "problem_schema list" where
  "l3_problems =
     [
      cat_problem ''L3IcmpUnreachablePath'' [Session] ''l3_icmp_unreachable_path'' None,
      cat_problem ''L3IcmpControlPlane'' [Session] ''l3_icmp_control_plane'' None,
      cat_problem ''L3ArpDuplicateL2'' [Session, Vlan] ''l3_arp_duplicate_l2'' None,
      cat_problem ''L3ArpStormSegment'' [Session, Vlan] ''l3_arp_storm_segment'' None,
      cat_problem ''L3NdpIpv6Visibility'' [Session] ''l3_ndp_ipv6_visibility'' None,
      cat_problem ''L3DhcpDnsEdge'' [Session, Vlan] ''l3_dhcp_dns_edge'' None,
      cat_problem ''L3DnsResolution'' [Session] ''l3_dns_resolution'' None,
      cat_problem ''L3DnsTlsConsistency'' [Session] ''l3_dns_tls_consistency'' None,
      cat_problem ''L3TlsHsSlow'' [Session] ''l3_tls_hs_slow'' None,
      cat_problem ''L3HttpRedirectChain'' [Session] ''l3_http_redirect_chain'' None,
      cat_problem ''L3QuicCoexistPath'' [Session] ''l3_quic_coexist_path'' None,
      cat_problem ''L3MulticastLan'' [Session, Vlan] ''l3_multicast_lan'' None,
      cat_problem ''L3ZeroconfNoise'' [Session, Vlan] ''l3_zeroconf_noise'' None,
      cat_problem ''L3VlanStackVisibility'' [Session, Vlan] ''l3_vlan_stack_visibility'' None,
      cat_problem ''L3NtpChatter'' [Session] ''l3_ntp_chatter'' None,
      cat_problem ''L3LldpContext'' [Session] ''l3_lldp_context'' None,
      cat_problem ''L3StpSpanningTree'' [Session] ''l3_stp_spanning_tree'' None,
      cat_problem ''L3Dot1xWired'' [Session] ''l3_dot1x_wired'' None]"

definition protocol_problems :: "problem_schema list" where
  "protocol_problems =
     [
      cat_problem ''RadiusHighReject'' [Global] ''radius_high_reject'' None,
      cat_problem ''RadiusRetrans'' [Global] ''radius_retrans'' None,
      cat_problem ''RadiusSlowAuth'' [Global] ''radius_slow_auth'' None,
      cat_problem ''DiameterCerNoCea'' [Global] ''diameter_cer_no_cea'' None,
      cat_problem ''DiameterWatchdogUnanswered'' [Global] ''diameter_watchdog_unanswered'' None,
      cat_problem ''DiameterResultErrors'' [Global] ''diameter_result_errors'' None,
      cat_problem ''DiameterMalformed'' [Global] ''diameter_malformed'' None,
      cat_problem ''DiameterSessionTermImbalance''
        [Global] ''diameter_session_term_imbalance'' None,
      cat_problem ''GtpCreateSessionFailures'' [Global] ''gtp_create_session_failures'' None,
      cat_problem ''GtpEchoUnanswered'' [Global] ''gtp_echo_unanswered'' None,
      cat_problem ''GtpDeleteSessionImbalance'' [Global] ''gtp_delete_session_imbalance'' None,
      cat_problem ''GtpModifySessionImbalance'' [Global] ''gtp_modify_session_imbalance'' None,
      cat_problem ''GtpUserOnly'' [Global] ''gtp_user_only'' None,
      cat_problem ''DhcpHighNak'' [Global] ''dhcp_high_nak'' None,
      cat_problem ''DhcpMissingOffer'' [Global] ''dhcp_missing_offer'' None,
      cat_problem ''DhcpSlowLease'' [Global] ''dhcp_slow_lease'' None]"

definition all_problems :: "problem_schema list" where
  "all_problems = seed_problems @ tcp_problems @ l3_problems @ protocol_problems @ wifi_problems"

subsection \<open>Exclusivity, topology functions and actions (lib.rs)\<close>

definition exclusivity_defaults :: "(cause_kind \<times> cause_kind) list" where
  "exclusivity_defaults =
     [
      (''Congestion'', ''PmtudBlackhole''),
      (''Congestion'', ''TransientL2Disruption''),
      (''PmtudBlackhole'', ''TransientL2Disruption''),
      (''PhysicalCableDamage'', ''PhysicalLinkAbsent''),
      (''AuthServerOutage'', ''RfInterference''),
      (''PacketLossPath'', ''SpuriousRetransmission''),
      (''PacketLossPath'', ''RadioChannelDegradation''),
      (''BufferbloatQueue'', ''MiddleboxInterference''),
      (''PmtudPathIssue'', ''PacketLossPath'')]"

datatype action_target_type = TargetScope | TargetScopeList

datatype action_arg_kind = ObservationKind | CheckKind | ProblemRefBinding | NoArg

record action_schema =
  as_kind :: action_kind
  as_name :: string
  as_arg :: action_arg_kind
  as_targets :: "action_target_type list"
  as_kinds :: "string list"

definition observation_kinds :: "string list" where
  "observation_kinds = [''icmp.visibility'', ''aaa.telemetry'', ''wifi.rf_metrics'']"

definition check_kinds :: "string list" where
  "check_kinds = [''cable_loopback'', ''lldp_poll'', ''stp_root_check'']"

definition all_actions :: "action_schema list" where
  "all_actions =
     [action_schema.make RequestObservation ''request_observation'' ObservationKind
        [TargetScope, TargetScopeList] observation_kinds,
      action_schema.make RunCheck ''run_check'' CheckKind [TargetScope] check_kinds,
      action_schema.make SuppressSymptom ''suppress_symptom'' ProblemRefBinding [] [],
      action_schema.make MarkAmbiguousAct ''mark_ambiguous'' NoArg [TargetScope] [],
      action_schema.make RequestTopology ''request_topology'' NoArg [TargetScope] []]"

text \<open>Every topology function takes scopes only; the argument types are their number.\<close>

record topo_fn_schema =
  tf_name :: string
  tf_idx :: topo_func_idx
  tf_arity :: nat

definition topo_functions :: "topo_fn_schema list" where
  "topo_functions =
     [topo_fn_schema.make ''same_session'' 0 2, topo_fn_schema.make ''same_client'' 1 2,
      topo_fn_schema.make ''same_port'' 2 2, topo_fn_schema.make ''same_ap'' 3 2,
      topo_fn_schema.make ''same_vlan'' 4 2, topo_fn_schema.make ''upstream_of'' 5 2]"

definition capabilities :: "string list" where
  "capabilities = [''l3-deep'', ''topology'', ''wifi-ota'', ''radio-nemo'']"

subsection \<open>Resolution (lib.rs)\<close>

definition resolve_event :: "string \<Rightarrow> event_schema option" where
  "resolve_event name = find (\<lambda>s. es_name s = name) all_events"

definition resolve_cause :: "string \<Rightarrow> cause_schema option" where
  "resolve_cause name = find (\<lambda>s. ca_name s = name) all_causes"

definition resolve_problem :: "string \<Rightarrow> problem_schema option" where
  "resolve_problem name = find (\<lambda>s. pb_name s = name) all_problems"

definition resolve_problem_by_sarif :: "string \<Rightarrow> problem_schema option" where
  "resolve_problem_by_sarif sarif = find (\<lambda>s. pb_sarif s = sarif) all_problems"

definition resolve_action :: "string \<Rightarrow> action_schema option" where
  "resolve_action name = find (\<lambda>s. as_name s = name) all_actions"

definition resolve_topo_fn :: "string \<Rightarrow> topo_fn_schema option" where
  "resolve_topo_fn name = find (\<lambda>s. tf_name s = name) topo_functions"

definition capability_for :: "string \<Rightarrow> string option" where
  "capability_for name = find (\<lambda>c. c = name) capabilities"

definition cause_fields :: "field_schema list" where
  "cause_fields =
     [field_schema.make ''target'' (FScopeId Global) False cause_field_target,
      field_schema.make ''time'' FInt False cause_field_time,
      field_schema.make ''confidence'' FConfidence False cause_field_confidence,
      field_schema.make ''evidence'' FNodeIdList False 3]"

definition problem_fields :: "field_schema list" where
  "problem_fields =
     [field_schema.make ''target'' (FScopeId Global) False problem_field_target,
      field_schema.make ''time'' FInt False problem_field_time,
      field_schema.make ''severity'' FSeverity False 2,
      field_schema.make ''evidence'' FNodeIdList False 3,
      field_schema.make ''sarif_id'' FSarifId False 4]"

text \<open>\<open>rsplit('.').next()\<close>: the part after the last dot.\<close>

definition last_segment :: "string \<Rightarrow> string" where
  "last_segment path = rev (takeWhile (\<lambda>c. c \<noteq> CHR ''.'') (rev path))"

datatype binding_type = EventOf event_type | CauseOf cause_kind | ProblemOf problem_kind

fun schema_fields :: "binding_type \<Rightarrow> field_schema list option" where
  "schema_fields (EventOf t) = map_option es_fields (resolve_event t)"
| "schema_fields (CauseOf k) = map_option (\<lambda>_. cause_fields) (resolve_cause k)"
| "schema_fields (ProblemOf p) = map_option (\<lambda>_. problem_fields) (resolve_problem p)"

definition resolve_metric_path :: "binding_type \<Rightarrow> string \<Rightarrow> (field_idx \<times> field_type) option" where
  "resolve_metric_path ty path =
     Option.bind (schema_fields ty) (\<lambda>fs.
       map_option (\<lambda>f. (fs_idx f, fs_type f)) (find (\<lambda>f. fs_name f = last_segment path) fs))"

subsection \<open>The tables are consistent\<close>

lemmas schema_make = event_schema.make_def cause_schema.make_def problem_schema.make_def
  field_schema.make_def scope_route.make_def wifi_event_spec.make_def wifi_mapping.make_def

lemmas builder_defs = int_field_def session_target_def global_target_def cat_event_def
  l3_session_flag_event_def cat_cause_def cat_problem_def scoped_target_def scoped_field_def

lemma find_distinct: "distinct (map f xs) \<Longrightarrow> x \<in> set xs \<Longrightarrow> find (\<lambda>y. f y = f x) xs = Some x"
  by (induction xs) force+

text \<open>What makes a schema consistent: fields are numbered by position, field names differ, the
  numbers stay below the reserved indices of \<open>schema.rs\<close>, routes name fields, names have no dot.\<close>

definition event_schema_ok :: "event_schema \<Rightarrow> bool" where
  "event_schema_ok s \<longleftrightarrow>
     map fs_idx (es_fields s) = [0..<length (es_fields s)] \<and> distinct (map fs_name (es_fields s))
     \<and> length (es_fields s) < event_field_time \<and> es_event_type s = es_name s
     \<and> list_all (\<lambda>r. sr_path r \<in> set (map fs_name (es_fields s))) (es_routes s)
     \<and> list_all (\<lambda>f. CHR ''.'' \<notin> set (fs_name f)) (es_fields s)"

lemmas event_tables = seed_tcp_events_def seed_link_events_def seed_state_events_def
  tcp_summary_events_def l3_flag_events_def protocol_summary_events_def

lemmas wifi_tables = wifi_event_specs_def wifi_frame_specs_def wifi_outcome_specs_def
  wifi_summary_specs_def wifi_sample_specs_def

lemma base_events_ok:
  "list_all event_schema_ok (seed_tcp_events @ seed_link_events @ seed_state_events @ tcp_summary_events
     @ l3_flag_events @ protocol_summary_events)"
  by (simp add: event_tables builder_defs schema_make event_schema_ok_def event_field_time_def upt_rec)

lemma wifi_events_ok: "list_all event_schema_ok wifi_events"
  by (simp add: wifi_events_def wifi_tables build_wifi_event_def builder_defs schema_make
      event_schema_ok_def event_field_time_def upt_rec Let_def)

lemma event_names_distinct: "distinct (map es_name all_events)"
  by (simp add: all_events_def wifi_events_def wifi_tables event_tables build_wifi_event_def
      builder_defs schema_make Let_def)

lemma event_ok: "s \<in> set all_events \<Longrightarrow> event_schema_ok s"
  using base_events_ok wifi_events_ok by (auto simp: all_events_def list_all_iff)

text \<open>The rows of the Wi-Fi table share long prefixes: they are told apart from the end.\<close>

lemmas wifi_row_tables = wifi_mappings_def wifi_rows_1_def wifi_rows_2_def wifi_rows_3_def wifi_rows_4_def

lemma distinct_rev: "distinct (map (rev \<circ> f) xs) = distinct (map f xs)"
  by (simp add: distinct_map inj_on_def)

lemma wifi_sarif_distinct: "distinct (map wm_sarif wifi_mappings)"
proof -
  have "distinct (map (rev \<circ> wm_sarif) wifi_mappings)" by (simp add: wifi_row_tables schema_make)
  then show ?thesis by (simp only: distinct_rev)
qed

lemma wifi_problem_distinct: "distinct (map wm_problem wifi_mappings)"
proof -
  have "distinct (map (rev \<circ> wm_problem) wifi_mappings)" by (simp add: wifi_row_tables schema_make)
  then show ?thesis by (simp only: distinct_rev)
qed

lemma wifi_cause_signal: "list_all (\<lambda>r. wm_cause r = wm_problem r @ ''Signal'') wifi_mappings"
  by (simp add: wifi_row_tables schema_make)

lemma wifi_prefix: "list_all (\<lambda>r. take 4 (wm_problem r) = ''Wifi'') wifi_mappings"
  by (simp add: wifi_row_tables schema_make)

lemmas cause_tables = seed_causes_def parity_causes_def family_causes_def protocol_causes_def

lemmas problem_tables = seed_problems_def tcp_problems_def l3_problems_def protocol_problems_def

lemma base_cause_names:
  "distinct (map ca_name (seed_causes @ parity_causes @ family_causes @ protocol_causes))
   \<and> list_all (\<lambda>s. take 4 (ca_name s) \<noteq> ''Wifi'') (seed_causes @ parity_causes @ family_causes @ protocol_causes)"
  by (simp add: cause_tables builder_defs schema_make)

lemma base_problem_names:
  "distinct (map pb_name (seed_problems @ tcp_problems @ l3_problems @ protocol_problems))
   \<and> list_all (\<lambda>s. take 4 (pb_name s) \<noteq> ''Wifi'') (seed_problems @ tcp_problems @ l3_problems @ protocol_problems)"
  by (simp add: problem_tables builder_defs schema_make)

lemma wifi_cause_distinct: "distinct (map wm_cause wifi_mappings)"
proof -
  have "map wm_cause wifi_mappings = map ((\<lambda>n. n @ ''Signal'') \<circ> wm_problem) wifi_mappings"
    using wifi_cause_signal by (auto simp: list_all_iff)
  moreover have "inj (\<lambda>n. n @ ''Signal'')" by (simp add: inj_def)
  ultimately show ?thesis
    using wifi_problem_distinct by (simp add: distinct_map comp_inj_on_iff inj_on_def) 
qed

lemma wifi_cause_prefix: "r \<in> set wifi_mappings \<Longrightarrow> take 4 (wm_cause r) = ''Wifi''"
proof -
  assume r: "r \<in> set wifi_mappings"
  then have p: "take 4 (wm_problem r) = ''Wifi''" and c: "wm_cause r = wm_problem r @ ''Signal''"
    using wifi_prefix wifi_cause_signal by (auto simp: list_all_iff)
  have "length (take 4 (wm_problem r)) = 4" unfolding p by simp
  then have "4 \<le> length (wm_problem r)" by simp
  then show ?thesis using p c by simp
qed

lemma cause_names_distinct: "distinct (map ca_name all_causes)"
proof -
  have w: "map ca_name wifi_causes = map wm_cause wifi_mappings"
    by (simp add: wifi_causes_def cat_cause_def cause_schema.make_def comp_def)
  have "set (map ca_name (seed_causes @ parity_causes @ family_causes @ protocol_causes)) \<inter> set (map wm_cause wifi_mappings) = {}"
    using base_cause_names wifi_cause_prefix by (force simp: list_all_iff)
  then show ?thesis
    using base_cause_names wifi_cause_distinct unfolding all_causes_def map_append w append_assoc [symmetric]
    by (subst distinct_append) (simp only: map_append append_assoc)
qed

lemma problem_names_distinct: "distinct (map pb_name all_problems)"
proof -
  have w: "map pb_name wifi_problems = map wm_problem wifi_mappings"
    by (simp add: wifi_problems_def cat_problem_def problem_schema.make_def comp_def)
  have "set (map pb_name (seed_problems @ tcp_problems @ l3_problems @ protocol_problems)) \<inter> set (map wm_problem wifi_mappings) = {}"
    using base_problem_names wifi_prefix by (force simp: list_all_iff)
  then show ?thesis
    using base_problem_names wifi_problem_distinct unfolding all_problems_def map_append w append_assoc [symmetric]
    by (subst distinct_append) (simp only: map_append append_assoc)
qed

lemma resolve_event_self: "s \<in> set all_events \<Longrightarrow> resolve_event (es_name s) = Some s"
  unfolding resolve_event_def by (rule find_distinct [OF event_names_distinct])

lemma resolve_cause_self: "s \<in> set all_causes \<Longrightarrow> resolve_cause (ca_name s) = Some s"
  unfolding resolve_cause_def by (rule find_distinct [OF cause_names_distinct])

lemma resolve_problem_self: "s \<in> set all_problems \<Longrightarrow> resolve_problem (pb_name s) = Some s"
  unfolding resolve_problem_def by (rule find_distinct [OF problem_names_distinct])

lemma last_segment_plain: "CHR ''.'' \<notin> set n \<Longrightarrow> last_segment n = n"
  by (subst last_segment_def, subst takeWhile_eq_all_conv [THEN iffD2]) auto

lemma last_segment_qualified: "CHR ''.'' \<notin> set n \<Longrightarrow> last_segment (b @ CHR ''.'' # n) = n"
  using last_segment_plain [of n] by (simp add: last_segment_def takeWhile_tail)

text \<open>C29: metric paths. A field of a catalogued event resolves, by its bare name and by its name
  qualified with any binding (\<open>binding.field\<close>), to its own index and type; the index is its position in
  the schema and none of the two reserved ones, so the field a predicate loads by index is the
  one the rule named.\<close>

theorem metric_path_resolves:
  assumes "s \<in> set all_events" "i < length (es_fields s)"
  shows "resolve_metric_path (EventOf (es_event_type s)) (fs_name (es_fields s ! i))
      = Some (i, fs_type (es_fields s ! i))
    \<and> resolve_metric_path (EventOf (es_event_type s)) (binding @ CHR ''.'' # fs_name (es_fields s ! i))
      = Some (i, fs_type (es_fields s ! i))
    \<and> i \<noteq> event_field_target \<and> i \<noteq> event_field_time"
proof -
  let ?f = "es_fields s ! i"
  have ok: "event_schema_ok s" by (rule event_ok [OF assms(1)])
  have f: "?f \<in> set (es_fields s)" using assms(2) by simp
  have "map fs_idx (es_fields s) ! i = [0..<length (es_fields s)] ! i" using ok by (simp add: event_schema_ok_def)
  then have idx: "fs_idx ?f = i" using assms(2) by simp
  have plain: "CHR ''.'' \<notin> set (fs_name ?f)" using ok f by (simp add: event_schema_ok_def list_all_iff)
  have "find (\<lambda>g. fs_name g = fs_name ?f) (es_fields s) = Some ?f"
    using ok f by (intro find_distinct) (simp_all add: event_schema_ok_def)
  moreover have "resolve_event (es_event_type s) = Some s"
    using ok resolve_event_self [OF assms(1)] by (simp add: event_schema_ok_def)
  ultimately show ?thesis using ok idx assms(2) last_segment_plain [OF plain] last_segment_qualified [OF plain, of binding]
    by (simp add: resolve_metric_path_def event_schema_ok_def event_field_time_def event_field_target_def)
qed

theorem metric_path_resolves_witness:
  "resolve_metric_path (EventOf ''tcp.retransmission_burst'') ''rtx.vlan'' = Some (3, FScopeId Vlan)"
proof -
  let ?s = "hd seed_tcp_events"
  have s: "?s \<in> set all_events" "es_event_type ?s = ''tcp.retransmission_burst''"
    "3 < length (es_fields ?s)" "es_fields ?s ! 3 = field_schema.make ''vlan'' (FScopeId Vlan) False 3"
    by (simp_all add: all_events_def seed_tcp_events_def builder_defs schema_make)
  from metric_path_resolves [OF s(1,3), of "''rtx''"] s(2,4) show ?thesis by (simp add: schema_make)
qed

text \<open>The Wi-Fi table. Every row of the W0 table is a pair of its own: its problem resolves
  to the row's SARIF id and scope, its cause to the row's scope, and no two rows share a
  problem, a cause or a SARIF id (so the mapping is a bijection, as the table's header says).\<close>

theorem wifi_rows_isolated:
  assumes "r \<in> set wifi_mappings"
  shows "resolve_problem (wm_problem r) = Some (cat_problem (wm_problem r) [wm_scope r] (wm_sarif r) None)
    \<and> resolve_cause (wm_cause r) = Some (cat_cause (wm_cause r) [wm_scope r] None)
    \<and> (\<forall>r'\<in>set wifi_mappings. wm_sarif r' = wm_sarif r \<or> wm_cause r' = wm_cause r \<or> wm_problem r' = wm_problem r
         \<longrightarrow> r' = r)"
proof -
  have inj: "inj_on wm_sarif (set wifi_mappings)" "inj_on wm_cause (set wifi_mappings)"
    "inj_on wm_problem (set wifi_mappings)"
    using wifi_sarif_distinct wifi_cause_distinct wifi_problem_distinct by (simp_all add: distinct_map)
  have "cat_problem (wm_problem r) [wm_scope r] (wm_sarif r) None \<in> set all_problems"
    using assms by (auto simp: all_problems_def wifi_problems_def)
  from resolve_problem_self [OF this]
  have p: "resolve_problem (wm_problem r) = Some (cat_problem (wm_problem r) [wm_scope r] (wm_sarif r) None)"
    by (simp add: cat_problem_def problem_schema.make_def)
  have "cat_cause (wm_cause r) [wm_scope r] None \<in> set all_causes"
    using assms by (auto simp: all_causes_def wifi_causes_def)
  from resolve_cause_self [OF this]
  have c: "resolve_cause (wm_cause r) = Some (cat_cause (wm_cause r) [wm_scope r] None)"
    by (simp add: cat_cause_def cause_schema.make_def)
  from p c inj assms show ?thesis by (meson inj_onD)
qed

theorem wifi_rows_isolated_witness:
  "resolve_cause ''WifiApBeaconLossSignal'' = Some (cat_cause ''WifiApBeaconLossSignal'' [AccessPoint] None)"
proof -
  let ?r = "hd wifi_rows_1"
  have "?r \<in> set wifi_mappings" "wm_cause ?r = ''WifiApBeaconLossSignal''" "wm_scope ?r = AccessPoint"
    by (simp_all add: wifi_mappings_def wifi_rows_1_def schema_make)
  from wifi_rows_isolated [OF this(1)] this(2,3) show ?thesis by simp
qed

end
