(* ===== verification/Adgl_Sink.thy ===== *)
theory Adgl_Sink
  imports Adgl_Catalog
begin

text \<open>
  Action sinks and engine diagnostics (crates/airpulse_dsl-evaluator/src/sink.rs, diag.rs): the
  resolved action a rule emits, the audit log of the two sinks the crate ships, and the
  diagnostics the engine records instead of failing. The engine is generic in its sink; the
  laws it may rely on are the locale \<open>audit_only\<close>, which both sinks meet in replay.
\<close>

datatype run_mode = Offline | Live

datatype sink_outcome = Audited | NoOpInReplay | Applied | NotSupported

record action_intent =
  ai_kind :: action_kind
  ai_rule :: rule_id
  ai_arg :: "symbol option"
  ai_target :: "scope_id option"
  ai_path :: "metric_path option"
  ai_reason :: "string option"
  ai_evidence :: "edge_endpoint list"
  ai_causes :: "(cause_kind \<times> cause_kind) option"

definition is_control_plane :: "action_intent \<Rightarrow> bool" where
  "is_control_plane i \<longleftrightarrow> ai_kind i \<in> {RequestObservation, RequestTopology, RunCheck}"

record audit_entry =
  ae_code :: "string option"
  ae_intent :: action_intent
  ae_wm :: event_time

text \<open>\<open>OfflineAuditSink\<close> and \<open>LiveActionSink\<close> have the same two fields.\<close>

record audit_sink =
  sk_entries :: "audit_entry list"
  sk_outcomes :: "sink_outcome list"

definition sink_new :: audit_sink where
  "sink_new = \<lparr>sk_entries = [], sk_outcomes = []\<rparr>"

definition offline_record ::
    "action_intent \<Rightarrow> run_mode \<Rightarrow> event_time \<Rightarrow> audit_sink \<Rightarrow> sink_outcome \<times> audit_sink" where
  "offline_record i mode wm s =
     (let (code, outcome) =
        (if mode = Offline \<and> ai_kind i = RequestObservation then (Some ''ADGL3001'', NoOpInReplay)
         else (None, Audited))
      in (outcome, s\<lparr>sk_entries := sk_entries s @ [\<lparr>ae_code = code, ae_intent = i, ae_wm = wm\<rparr>],
                     sk_outcomes := sk_outcomes s @ [outcome]\<rparr>))"

definition offline_emit :: "action_intent \<Rightarrow> run_mode \<Rightarrow> event_time \<Rightarrow> audit_sink \<Rightarrow> audit_sink" where
  "offline_emit i mode wm s = snd (offline_record i mode wm s)"

definition live_record ::
    "action_intent \<Rightarrow> run_mode \<Rightarrow> event_time \<Rightarrow> audit_sink \<Rightarrow> sink_outcome \<times> audit_sink" where
  "live_record i mode wm s =
     (let (code, outcome) =
        (case mode of
           Offline \<Rightarrow>
             (case ai_kind i of
                RequestObservation \<Rightarrow> (Some ''ADGL3001'', NoOpInReplay)
              | _ \<Rightarrow> (None, Audited))
         | Live \<Rightarrow> if is_control_plane i then (None, NotSupported) else (None, Audited))
      in (outcome, s\<lparr>sk_entries := sk_entries s @ [\<lparr>ae_code = code, ae_intent = i, ae_wm = wm\<rparr>],
                     sk_outcomes := sk_outcomes s @ [outcome]\<rparr>))"

definition live_emit :: "action_intent \<Rightarrow> run_mode \<Rightarrow> event_time \<Rightarrow> audit_sink \<Rightarrow> audit_sink" where
  "live_emit i mode wm s = snd (live_record i mode wm s)"

text \<open>The contract of a sink that never acts: it keeps one record per action, in order, and
  reports no effect.\<close>

locale audit_only =
  fixes emit :: "action_intent \<Rightarrow> run_mode \<Rightarrow> event_time \<Rightarrow> 's \<Rightarrow> 's"
    and entries :: "'s \<Rightarrow> audit_entry list"
    and outcomes :: "'s \<Rightarrow> sink_outcome list"
  assumes emit_entries: "\<exists>code. entries (emit i m wm s) = entries s @ [\<lparr>ae_code = code, ae_intent = i, ae_wm = wm\<rparr>]"
    and emit_outcomes: "\<exists>out. outcomes (emit i m wm s) = outcomes s @ [out] \<and> out \<noteq> Applied"
begin

definition emit_all :: "(action_intent \<times> run_mode \<times> event_time) list \<Rightarrow> 's \<Rightarrow> 's" where
  "emit_all xs s = fold (\<lambda>(i, m, wm). emit i m wm) xs s"

lemma emit_all_log:
  "map (\<lambda>e. (ae_intent e, ae_wm e)) (entries (emit_all xs s))
     = map (\<lambda>e. (ae_intent e, ae_wm e)) (entries s) @ map (\<lambda>(i, m, wm). (i, wm)) xs"
proof (induction xs arbitrary: s)
  case (Cons x xs)
  obtain i m wm where x: "x = (i, m, wm)" by (cases x) auto
  obtain code where "entries (emit i m wm s) = entries s @ [\<lparr>ae_code = code, ae_intent = i, ae_wm = wm\<rparr>]"
    using emit_entries [of i m wm s] by blast
  then show ?case using Cons [of "emit i m wm s"] by (simp add: emit_all_def x)
qed (simp add: emit_all_def)

lemma emit_all_never_applied: "Applied \<notin> set (outcomes s) \<Longrightarrow> Applied \<notin> set (outcomes (emit_all xs s))"
proof (induction xs arbitrary: s)
  case (Cons x xs)
  obtain i m wm where x: "x = (i, m, wm)" by (cases x) auto
  have "Applied \<notin> set (outcomes (emit i m wm s))" using emit_outcomes [of i m wm s] Cons.prems by auto
  then show ?case using Cons.IH [of "emit i m wm s"] by (simp add: emit_all_def x)
qed (simp add: emit_all_def)

end

interpretation offline_sink: audit_only offline_emit sk_entries sk_outcomes
  by unfold_locales (simp_all add: offline_emit_def offline_record_def Let_def)

interpretation live_sink: audit_only live_emit sk_entries sk_outcomes
  by unfold_locales
    (simp_all add: live_emit_def live_record_def Let_def split: run_mode.split action_kind.split)

text \<open>In replay the two sinks are the same.\<close>

lemma sinks_agree_offline: "live_emit i Offline wm s = offline_emit i Offline wm s"
  by (simp add: live_emit_def live_record_def offline_emit_def offline_record_def split: action_kind.split)

text \<open>No side effects. Whatever sequence of actions the engine emits, in whatever mode, the two
  sinks of the crate record every action once, in order, and none is ever reported as applied.\<close>

theorem sinks_never_act:
  "map (\<lambda>e. (ae_intent e, ae_wm e)) (sk_entries (fold (\<lambda>(i, m, wm). offline_emit i m wm) xs sink_new))
     = map (\<lambda>(i, m, wm). (i, wm)) xs
   \<and> map (\<lambda>e. (ae_intent e, ae_wm e)) (sk_entries (fold (\<lambda>(i, m, wm). live_emit i m wm) xs sink_new))
     = map (\<lambda>(i, m, wm). (i, wm)) xs
   \<and> Applied \<notin> set (sk_outcomes (fold (\<lambda>(i, m, wm). offline_emit i m wm) xs sink_new))
   \<and> Applied \<notin> set (sk_outcomes (fold (\<lambda>(i, m, wm). live_emit i m wm) xs sink_new))"
  using offline_sink.emit_all_log [of xs sink_new] live_sink.emit_all_log [of xs sink_new]
    offline_sink.emit_all_never_applied [of sink_new xs] live_sink.emit_all_never_applied [of sink_new xs]
  by (simp add: offline_sink.emit_all_def live_sink.emit_all_def sink_new_def)

subsection \<open>Engine diagnostics (diag.rs)\<close>

datatype engine_diagnostic =
    StoreDiag store_diagnostic
  | PredicateError rule_id correlate_error
  | UnresolvedTarget rule_id metric_path
  | UnsupportedTargetTail rule_id metric_path string string
  | CauseCapacity scope_id
  | RuleFiringsExceeded scope_id
  | RuntimeCheckWindow rule_id
  | MissingAnchor rule_id
  | RuleNotInImage rule_id
  | LateEvidence scope_id rule_id event_id event_type event_time
  | LateEventDropped scope_id event_id event_time event_time

fun engine_diag_code :: "engine_diagnostic \<Rightarrow> string option" where
  "engine_diag_code (StoreDiag s) = Some (store_diag_code s)"
| "engine_diag_code (PredicateError r e) = Some ''ADGL3007''"
| "engine_diag_code (UnsupportedTargetTail r p b t) = Some ''ADGL3008''"
| "engine_diag_code (CauseCapacity s) = Some ''ADGL3102''"
| "engine_diag_code (RuleFiringsExceeded s) = Some ''ADGL3103''"
| "engine_diag_code (LateEvidence s r e t w) = Some ''ADGL3002''"
| "engine_diag_code (LateEventDropped s e t w) = Some ''ADGL3003''"
| "engine_diag_code (UnresolvedTarget r p) = None"
| "engine_diag_code (RuntimeCheckWindow r) = None"
| "engine_diag_code (MissingAnchor r) = None"
| "engine_diag_code (RuleNotInImage r) = None"

end
