(* ===== verification/Adgl_Engine.thy ===== *)
theory Adgl_Engine
  imports Adgl_Sink
begin

text \<open>
  The execution engine (crates/airpulse_dsl-evaluator/src/engine.rs): watermark policy, anchor
  matching, suspension and resumption, correlation, the five intents, confidence roll-up,
  decision cascades and ambiguity synthesis.

  What an \<open>Engine\<close> never changes (the image, the topology oracle, the sink's \<open>emit\<close>, the mode)
  is the record \<open>engine_env\<close>; what it mutates is the record \<open>engine\<close>, polymorphic in the sink's
  state. The firing budget, a \<open>&mut usize\<close> in the code, is threaded beside the engine.

  A rule that fires may mutate a cause, which fires decision rules, and so on. The handlers take
  the function that fires a nested rule as a parameter (\<open>fire\<close>); \<open>run_rule\<close> ties the knot with a
  depth that every nested firing decreases. The budget decreases with it, so a depth of one
  more than the budget is never exhausted (see \<open>Adgl_Cascade\<close>).
\<close>

record 's engine_env =
  ev_image :: program_image
  ev_topo :: topology
  ev_emit :: "action_intent \<Rightarrow> run_mode \<Rightarrow> event_time \<Rightarrow> 's \<Rightarrow> 's"
  ev_mode :: run_mode

record resolved_absent =
  ra_scope :: scope_id
  ra_rule :: rule_id
  ra_event_type :: event_type
  ra_lo :: event_time
  ra_hi :: event_time

record source_wm =
  sw_local :: event_time
  sw_last_seen :: event_time

text \<open>
  The node counter \<open>next_node_id: u64\<close> only ever grows, by 1 per node, and node ids are copies of
  it that the engine stores but does not compute with. It is kept as the number of nodes
  created: the source's counter and ids are these numbers modulo \<open>2^64\<close> (in a release build; a
  debug build would panic at the wrap). \<open>node_u64\<close> is the stored form.
\<close>

definition node_u64 :: "node_id \<Rightarrow> u64" where
  "node_u64 i = of_nat i"

record 's engine =
  eg_store :: graph_store
  eg_sink :: 's
  eg_interner :: scope_interner
  eg_diags :: "engine_diagnostic list"
  eg_touched :: "scope_id list"
  eg_next_node :: nat
  eg_last_event :: "event_time option"
  eg_max_forward :: duration_ms
  eg_cooldown :: duration_ms
  eg_strict :: bool
  eg_finished :: bool
  eg_suspended :: nat
  eg_resumed :: nat
  eg_late :: "event_node list"
  eg_absent :: "resolved_absent list"
  eg_sources :: "(scope_id, source_wm) hmap"
  eg_wall :: event_time

definition mix_target :: "u64 \<Rightarrow> u64 \<Rightarrow> u64" where
  "mix_target expr_hash target_key =
     (let z0 = expr_hash XOR (target_key * 0x9E3779B97F4A7C15);
          z1 = (z0 XOR drop_bit 30 z0) * 0xBF58476D1CE4E5B9;
          z2 = (z1 XOR drop_bit 27 z1) * 0x94D049BB133111EB
      in z2 XOR drop_bit 31 z2)"

definition adgl_new :: "'s engine_env \<Rightarrow> 's \<Rightarrow> store_limits \<Rightarrow> 's engine" where
  "adgl_new env sink limits =
     \<lparr>eg_store = store_new limits, eg_sink = sink, eg_interner = [], eg_diags = [], eg_touched = [],
      eg_next_node = 0, eg_last_event = None,
      eg_max_forward = fold max (map rule_max_forward (im_rules (ev_image env))) 0,
      eg_cooldown = li_dedup_window limits, eg_strict = False, eg_finished = False,
      eg_suspended = 0, eg_resumed = 0, eg_late = [], eg_absent = [], eg_sources = [],
      eg_wall = i64_min\<rparr>"

definition with_problem_cooldown :: "duration_ms \<Rightarrow> 's engine \<Rightarrow> 's engine" where
  "with_problem_cooldown cooldown eg = eg\<lparr>eg_cooldown := cooldown\<rparr>"

definition with_strict_privacy :: "bool \<Rightarrow> 's engine \<Rightarrow> 's engine" where
  "with_strict_privacy strict eg = eg\<lparr>eg_strict := strict\<rparr>"

definition engine_intern :: "scope_id \<Rightarrow> 's engine \<Rightarrow> int \<times> 's engine" where
  "engine_intern sc eg =
     (case intern_scope sc (eg_interner eg) of (key, m) \<Rightarrow> (key, eg\<lparr>eg_interner := m\<rparr>))"

definition push_diag :: "engine_diagnostic \<Rightarrow> 's engine \<Rightarrow> 's engine" where
  "push_diag d eg = eg\<lparr>eg_diags := eg_diags eg @ [d]\<rparr>"

definition push_store_diag :: "store_diagnostic option \<Rightarrow> 's engine \<Rightarrow> 's engine" where
  "push_store_diag d eg = (case d of None \<Rightarrow> eg | Some d \<Rightarrow> push_diag (StoreDiag d) eg)"

definition touch :: "scope_id \<Rightarrow> 's engine \<Rightarrow> 's engine" where
  "touch sc eg =
     eg\<lparr>eg_touched := bt_insert sc (eg_touched eg),
        eg_interner := snd (intern_scope sc (eg_interner eg))\<rparr>"

text \<open>A mutation of one partition, under its guard.\<close>

definition on_partition :: "scope_id \<Rightarrow> (subgraph \<Rightarrow> 'a \<times> subgraph) \<Rightarrow> 's engine \<Rightarrow> 'a \<times> 's engine" where
  "on_partition sc f eg =
     (case partition_mut sc f (eg_store eg) of (x, gs) \<Rightarrow> (x, eg\<lparr>eg_store := gs\<rparr>))"

definition emit_action :: "'s engine_env \<Rightarrow> action_intent \<Rightarrow> 's engine \<Rightarrow> 's engine" where
  "emit_action env i eg =
     eg\<lparr>eg_sink := ev_emit env i (ev_mode env) (gs_watermark (eg_store eg)) (eg_sink eg)\<rparr>"

subsection \<open>Names, targets, predicates\<close>

text \<open>\<open>MetricPath::segments\<close>, that is \<open>split('.')\<close>.\<close>

fun segments :: "string \<Rightarrow> string list" where
  "segments [] = [[]]"
| "segments (c # cs) =
     (if c = CHR ''.'' then [] # segments cs
      else case segments cs of s # ss \<Rightarrow> (c # s) # ss | [] \<Rightarrow> [[c]])"

fun position :: "('a \<Rightarrow> bool) \<Rightarrow> 'a list \<Rightarrow> nat option" where
  "position P [] = None"
| "position P (x # xs) = (if P x then Some 0 else map_option Suc (position P xs))"

definition binding_index_of :: "rule_instance \<Rightarrow> string \<Rightarrow> nat option" where
  "binding_index_of rule name =
     (if an_binding (ru_anchor rule) = name then Some 0
      else map_option Suc (position (\<lambda>c. co_binding c = name) (ru_correlates rule)))"

definition nth_bound :: "binding list \<Rightarrow> nat \<Rightarrow> bound option" where
  "nth_bound bindings i = (if i < length bindings then binding_bound (bindings ! i) else None)"

fun is_scope_field :: "field_type \<Rightarrow> bool" where
  "is_scope_field (FScopeId sc) = True"
| "is_scope_field _ = False"

text \<open>The arm of an event binding with a tail other than \<open>target\<close>: the scope, or whether the
  tail is unsupported.\<close>

datatype tail_scope = TailScope "scope_id option" | TailUnsupported

definition event_tail :: "scope_interner \<Rightarrow> event_node \<Rightarrow> string \<Rightarrow> tail_scope" where
  "event_tail m e tail =
     (case resolve_event (en_type e) of
        None \<Rightarrow> TailScope None
      | Some schema \<Rightarrow>
          (case resolve_metric_path (EventOf (en_type e)) tail of
             None \<Rightarrow> TailUnsupported
           | Some (idx, ty) \<Rightarrow>
               if list_ex (\<lambda>r. sr_path r = tail) (es_routes schema) \<or> is_scope_field ty
               then TailScope (Option.bind (event_field e idx) (resolve_scope m))
               else TailUnsupported))"

definition bound_tail :: "scope_interner \<Rightarrow> bound \<Rightarrow> string option \<Rightarrow> tail_scope" where
  "bound_tail m b tail =
     (case tail of
        None \<Rightarrow> TailScope (bound_target m b)
      | Some t \<Rightarrow>
          if t = ''target'' then TailScope (bound_target m b)
          else (case b of BEvent e \<Rightarrow> event_tail m e t | _ \<Rightarrow> TailUnsupported))"

definition resolve_scope_path ::
    "rule_instance \<Rightarrow> metric_path \<Rightarrow> string \<Rightarrow> bound \<Rightarrow> 's engine \<Rightarrow> scope_id option \<times> 's engine" where
  "resolve_scope_path rule path name b eg =
     (case segments path of
        [] \<Rightarrow> (None, eg)
      | [h] \<Rightarrow> (case bound_tail (eg_interner eg) b None of
                  TailScope sc \<Rightarrow> (sc, eg) | TailUnsupported \<Rightarrow> (None, eg))
      | [h, t] \<Rightarrow> (case bound_tail (eg_interner eg) b (Some t) of
                    TailScope sc \<Rightarrow> (sc, eg)
                  | TailUnsupported \<Rightarrow> (None, push_diag (UnsupportedTargetTail (ru_id rule) path name t) eg))
      | h # t # u # us \<Rightarrow> (None, push_diag (UnsupportedTargetTail (ru_id rule) path name t) eg))"

definition resolve_target ::
    "rule_instance \<Rightarrow> metric_path \<Rightarrow> binding list \<Rightarrow> 's engine \<Rightarrow> scope_id option \<times> 's engine" where
  "resolve_target rule path bindings eg =
     (let head = hd (segments path) in
      case Option.bind (binding_index_of rule head) (nth_bound bindings) of
        None \<Rightarrow> (None, eg)
      | Some b \<Rightarrow> resolve_scope_path rule path head b eg)"

definition eval_pred ::
    "'s engine_env \<Rightarrow> rule_instance \<Rightarrow> predicate \<Rightarrow> binding list \<Rightarrow> scope_id \<Rightarrow> 's engine
      \<Rightarrow> t3 option \<times> 's engine" where
  "eval_pred env rule p bindings scope eg =
     (case eval_predicate p \<lparr>px_bindings = bindings, px_scope = scope, px_interner = eg_interner eg,
                              px_topo = ev_topo env\<rparr> of
        Inr t \<Rightarrow> (Some t, eg)
      | Inl e \<Rightarrow> (None, push_diag (PredicateError (ru_id rule) e) eg))"

definition evidence_endpoints :: "rule_instance \<Rightarrow> symbol list \<Rightarrow> binding list \<Rightarrow> edge_endpoint list" where
  "evidence_endpoints rule evidence bindings =
     List.map_filter (\<lambda>sym. map_option bound_endpoint
       (Option.bind (binding_index_of rule sym) (nth_bound bindings))) evidence"

subsection \<open>Correlation\<close>

fun bound_sort_key :: "bound \<Rightarrow> int \<times> nat" where
  "bound_sort_key (BEvent e) = (en_time e, en_id e)"
| "bound_sort_key (BCause c) = (cs_time c, cs_node c)"
| "bound_sort_key (BProblem p) = (ps_time p, ps_node p)"

definition event_candidates ::
    "graph_store \<Rightarrow> scope_id \<Rightarrow> bound \<Rightarrow> event_type \<Rightarrow> duration_ms \<Rightarrow> duration_ms \<Rightarrow> bound list" where
  "event_candidates gs scope anchor ty back fwd =
     (case store_ring scope gs of
        None \<Rightarrow> []
      | Some r \<Rightarrow> map BEvent
          (filter (\<lambda>e. en_type e = ty \<and> \<not> (case anchor of BEvent a \<Rightarrow> en_id a = en_id e | _ \<Rightarrow> False))
             (scan_window (bound_time anchor) back fwd r)))"

definition problem_candidates ::
    "graph_store \<Rightarrow> scope_id \<Rightarrow> bound \<Rightarrow> problem_kind \<Rightarrow> event_time \<Rightarrow> event_time \<Rightarrow> bound list" where
  "problem_candidates gs scope anchor kind lo hi =
     sort_key bound_sort_key
       (map (\<lambda>p. BProblem \<lparr>ps_node = pn_id p, ps_kind = pn_kind p, ps_target = pn_target p, ps_time = pn_time p\<rparr>)
         (filter (\<lambda>p. pn_kind p = kind \<and> lo \<le> pn_time p \<and> pn_time p \<le> hi
                    \<and> \<not> (case anchor of BProblem a \<Rightarrow> ps_node a = pn_id p | _ \<Rightarrow> False))
            (sg_problems (partition scope gs))))"

definition cause_candidates ::
    "graph_store \<Rightarrow> scope_id \<Rightarrow> bound \<Rightarrow> cause_kind \<Rightarrow> event_time \<Rightarrow> event_time \<Rightarrow> bound list" where
  "cause_candidates gs scope anchor kind lo hi =
     sort_key bound_sort_key
       (map (\<lambda>((k, target), n). BCause \<lparr>cs_node = cn_id n, cs_kind = k, cs_target = target,
                                          cs_time = cn_time n, cs_confidence = cn_confidence n\<rparr>)
         (filter (\<lambda>((k, target), n). k = kind \<and> lo \<le> cn_time n \<and> cn_time n \<le> hi
                    \<and> \<not> (case anchor of BCause a \<Rightarrow> cs_node a = cn_id n | _ \<Rightarrow> False))
            (sg_causes (partition scope gs))))"

definition correlate_candidates ::
    "graph_store \<Rightarrow> scope_id \<Rightarrow> bound \<Rightarrow> correlate_source \<Rightarrow> duration_ms \<Rightarrow> duration_ms \<Rightarrow> bound list" where
  "correlate_candidates gs scope anchor source back fwd =
     (let lo = time_sub (bound_time anchor) back; hi = time_add (bound_time anchor) fwd in
      case source of
        CorrEvent ty \<Rightarrow> event_candidates gs scope anchor ty back fwd
      | CorrProblem kind \<Rightarrow> problem_candidates gs scope anchor kind lo hi
      | CorrCause kind \<Rightarrow> cause_candidates gs scope anchor kind lo hi)"

text \<open>An argument of a topology call, the candidate standing for the correlate's own binding.\<close>

definition resolve_topo_arg ::
    "correlate_spec \<Rightarrow> rule_instance \<Rightarrow> binding list \<Rightarrow> bound \<Rightarrow> metric_path \<Rightarrow> 's engine
      \<Rightarrow> scope_id option \<times> 's engine" where
  "resolve_topo_arg spec rule partial candidate path eg =
     (let head = hd (segments path) in
      if head = co_binding spec then resolve_scope_path rule path head candidate eg
      else case Option.bind (binding_index_of rule head) (nth_bound partial) of
             None \<Rightarrow> (None, eg)
           | Some b \<Rightarrow> resolve_scope_path rule path head b eg)"

definition eval_topo ::
    "'s engine_env \<Rightarrow> correlate_spec \<Rightarrow> topo_func option \<Rightarrow> rule_instance \<Rightarrow> binding list \<Rightarrow> bound
      \<Rightarrow> 's engine \<Rightarrow> t3 \<times> 's engine" where
  "eval_topo env spec func rule partial candidate eg =
     (case func of
        None \<Rightarrow> (TUnknown, eg)
      | Some f \<Rightarrow>
          (case tc_args (co_topo spec) of
             [p, q] \<Rightarrow>
               (case resolve_topo_arg spec rule partial candidate p eg of
                  (a, eg1) \<Rightarrow>
                    (case resolve_topo_arg spec rule partial candidate q eg1 of
                       (b, eg2) \<Rightarrow>
                         (case (a, b) of
                            (Some a, Some b) \<Rightarrow> (ev_topo env f a b, eg2)
                          | _ \<Rightarrow> (TUnknown, eg2))))
           | _ \<Rightarrow> (TUnknown, eg)))"

text \<open>The loop over the candidates: the saturating count, the earliest witness, whether an
  \<open>Unknown\<close> was seen. It stops once \<open>min_match\<close> are true.\<close>

fun count_candidates ::
    "'s engine_env \<Rightarrow> correlate_spec \<Rightarrow> topo_func option \<Rightarrow> rule_instance \<Rightarrow> binding list \<Rightarrow> bound list
      \<Rightarrow> nat \<times> bound option \<times> bool \<Rightarrow> 's engine \<Rightarrow> (nat \<times> bound option \<times> bool) \<times> 's engine" where
  "count_candidates env spec func rule partial [] acc eg = (acc, eg)"
| "count_candidates env spec func rule partial (cand # cands) (n, witness, unknown) eg =
     (case eval_topo env spec func rule partial cand eg of
        (TTrue, eg') \<Rightarrow>
          (let n' = min (Suc n) 255;
               witness' = (case witness of None \<Rightarrow> Some cand | Some w \<Rightarrow> Some w)
           in if co_min_match spec \<le> n' then ((n', witness', unknown), eg')
              else count_candidates env spec func rule partial cands (n', witness', unknown) eg')
      | (TUnknown, eg') \<Rightarrow> count_candidates env spec func rule partial cands (n, witness, True) eg'
      | (TFalse, eg') \<Rightarrow> count_candidates env spec func rule partial cands (n, witness, unknown) eg')"

definition binding_of_count :: "nat \<Rightarrow> nat \<times> bound option \<times> bool \<Rightarrow> binding" where
  "binding_of_count min_match acc =
     (case acc of (n, witness, unknown) \<Rightarrow>
        if min_match \<le> n
        then (case witness of Some w \<Rightarrow> Bound w | None \<Rightarrow> Unbound)
        else if unknown then Unbound else Absent)"

definition resolve_correlate ::
    "'s engine_env \<Rightarrow> rule_instance \<Rightarrow> bound \<Rightarrow> scope_id \<Rightarrow> correlate_spec \<Rightarrow> binding list \<Rightarrow> 's engine
      \<Rightarrow> binding \<times> 's engine" where
  "resolve_correlate env rule anchor scope spec partial eg =
     (case co_window spec of
        RuntimeCheck \<Rightarrow> (Absent, push_diag (RuntimeCheckWindow (ru_id rule)) eg)
      | Calculable back fwd \<Rightarrow>
          (let candidates = correlate_candidates (eg_store eg) scope anchor (co_source spec) back fwd;
               func = topo_from_idx (tc_func_idx (co_topo spec));
               eg1 = (if func = None
                      then push_diag (PredicateError (ru_id rule)
                             (UnknownTopoFunction (tc_func_idx (co_topo spec)))) eg
                      else eg)
           in case count_candidates env spec func rule partial candidates (0, None, False) eg1 of
                (acc, eg2) \<Rightarrow> (binding_of_count (co_min_match spec) acc, eg2)))"

fun resolve_correlates ::
    "'s engine_env \<Rightarrow> rule_instance \<Rightarrow> bound \<Rightarrow> scope_id \<Rightarrow> correlate_spec list \<Rightarrow> binding list \<Rightarrow> 's engine
      \<Rightarrow> binding list \<times> 's engine" where
  "resolve_correlates env rule anchor scope [] bindings eg = (bindings, eg)"
| "resolve_correlates env rule anchor scope (spec # specs) bindings eg =
     (case resolve_correlate env rule anchor scope spec bindings eg of
        (b, eg') \<Rightarrow> resolve_correlates env rule anchor scope specs (bindings @ [b]) eg')"

definition resolve_bindings ::
    "'s engine_env \<Rightarrow> rule_instance \<Rightarrow> bound \<Rightarrow> scope_id \<Rightarrow> 's engine \<Rightarrow> binding list \<times> 's engine" where
  "resolve_bindings env rule anchor scope eg =
     resolve_correlates env rule anchor scope (ru_correlates rule) [Bound anchor] eg"

definition absent_window :: "rule_instance \<Rightarrow> bound \<Rightarrow> scope_id \<Rightarrow> correlate_spec \<times> binding \<Rightarrow> resolved_absent option" where
  "absent_window rule anchor scope sb =
     (case sb of (spec, b) \<Rightarrow>
        (case (b, co_source spec, co_window spec) of
           (Absent, CorrEvent ty, Calculable back fwd) \<Rightarrow>
             Some \<lparr>ra_scope = scope, ra_rule = ru_id rule, ra_event_type = ty,
                   ra_lo = time_sub (bound_time anchor) back, ra_hi = time_add (bound_time anchor) fwd\<rparr>
         | _ \<Rightarrow> None))"

definition record_resolved_absent ::
    "rule_instance \<Rightarrow> binding list \<Rightarrow> bound \<Rightarrow> scope_id \<Rightarrow> 's engine \<Rightarrow> 's engine" where
  "record_resolved_absent rule bindings anchor scope eg =
     eg\<lparr>eg_absent := eg_absent eg @
          List.map_filter (absent_window rule anchor scope) (zip (ru_correlates rule) (tl bindings))\<rparr>"

end
