(* ===== verification/Adgl_Intents.thy ===== *)
theory Adgl_Intents
  imports Adgl_Engine
begin

text \<open>
  Intent execution and decision cascades of the engine
  (crates/airpulse_dsl-evaluator/src/engine.rs): \<open>infer\<close> with its deduplication and its roll-up to
  a parent scope, \<open>emit\<close> with its cooldown, actions, suppression, ambiguity, and \<open>run_rule\<close>.

  \<open>fire\<close> is the function that runs a nested rule; states are pairs of the engine and the budget.
\<close>

type_synonym 's firing = "rule_instance \<Rightarrow> bound \<Rightarrow> scope_id \<Rightarrow> 's engine \<times> nat \<Rightarrow> 's engine \<times> nat"

subsection \<open>Decision rules\<close>

text \<open>The loops of \<open>on_confidence_mutation\<close> and \<open>on_problem_emission\<close>.\<close>

definition fire_decision ::
    "'s engine_env \<Rightarrow> 's firing \<Rightarrow> bound \<Rightarrow> scope_id \<Rightarrow> rule_instance \<Rightarrow> 's engine \<times> nat \<Rightarrow> 's engine \<times> nat" where
  "fire_decision env fire b scope rule st =
     (case eval_pred env rule (an_predicate (ru_anchor rule)) [Bound b] scope (fst st) of
        (Some TTrue, eg) \<Rightarrow> fire rule b scope (eg, snd st)
      | (_, eg) \<Rightarrow> (eg, snd st))"

definition fire_decisions ::
    "'s engine_env \<Rightarrow> 's firing \<Rightarrow> anchor_source \<Rightarrow> bound \<Rightarrow> scope_id \<Rightarrow> 's engine \<times> nat \<Rightarrow> 's engine \<times> nat" where
  "fire_decisions env fire key b scope st =
     fold (fire_decision env fire b scope) (rules_for (ev_image env) key (si_type scope) Decision) st"

subsection \<open>Ambiguity\<close>

definition same_pair :: "cause_kind \<times> cause_kind \<Rightarrow> exclusivity_group \<Rightarrow> bool" where
  "same_pair p g \<longleftrightarrow> xg_causes g = [fst p, snd p] \<or> xg_causes g = [snd p, fst p]"

definition effective_exclusivity_groups :: "program_image \<Rightarrow> exclusivity_group list" where
  "effective_exclusivity_groups im =
     fold (\<lambda>p groups. if list_ex (same_pair p) groups then groups
                      else groups @ [\<lparr>xg_causes = [fst p, snd p]\<rparr>])
       exclusivity_defaults (im_exclusivity im)"

definition ordered_pair :: "cause_kind \<Rightarrow> cause_kind \<Rightarrow> cause_kind \<times> cause_kind" where
  "ordered_pair a b = (if a \<le> b then (a, b) else (b, a))"

definition abs_diff :: "nat \<Rightarrow> nat \<Rightarrow> nat" where
  "abs_diff a b = (if a \<le> b then b - a else a - b)"

text \<open>The two identities of the synthesised problem.\<close>

definition ambiguous_identity :: "sarif_id \<times> severity" where
  "ambiguous_identity =
     (case resolve_problem ''AmbiguousDiagnosis'' of
        Some s \<Rightarrow> (pb_sarif s, case pb_severity s of Some v \<Rightarrow> v | None \<Rightarrow> Medium)
      | None \<Rightarrow> (''ap_ambiguous'', Medium))"

definition mark_in_partition ::
    "cause_snapshot \<Rightarrow> cause_kind \<Rightarrow> cause_kind \<times> cause_kind \<Rightarrow> event_time \<Rightarrow> node_id \<Rightarrow> subgraph
      \<Rightarrow> bool \<times> subgraph" where
  "mark_in_partition snap other pair wm amb_id sg =
     (let target = cs_target snap;
          other_node = map_option cn_id (hm_get (sg_causes sg) (other, target))
      in case hm_get (sg_ambiguities sg) (pair, target) of
           Some a \<Rightarrow> (False, sg)
         | None \<Rightarrow>
             let evidence = cs_node snap # (case other_node of
                                              Some n \<Rightarrow> if n = cs_node snap then [] else [n]
                                            | None \<Rightarrow> [])
             in (True, push_problem
                  \<lparr>pn_id = Suc amb_id, pn_kind = ''AmbiguousDiagnosis'', pn_target = target, pn_time = wm,
                   pn_severity = snd ambiguous_identity, pn_evidence = evidence,
                   pn_sarif_id = fst ambiguous_identity, pn_superseded = False\<rparr>
                  (sg\<lparr>sg_ambiguities := hm_put (pair, target)
                        \<lparr>am_id = amb_id, am_causes = pair, am_target = target, am_state = Active\<rparr>
                        (sg_ambiguities sg)\<rparr>)))"

definition resolve_in_partition :: "cause_kind \<times> cause_kind \<Rightarrow> scope_id \<Rightarrow> subgraph \<Rightarrow> unit \<times> subgraph" where
  "resolve_in_partition pair target sg =
     ((), case hm_get (sg_ambiguities sg) (pair, target) of
            Some a \<Rightarrow> sg\<lparr>sg_ambiguities := hm_put (pair, target) (a\<lparr>am_state := Resolved\<rparr>) (sg_ambiguities sg)\<rparr>
          | None \<Rightarrow> sg)"

definition close_rivals :: "confidence \<Rightarrow> confidence \<Rightarrow> bool" where
  "close_rivals c1 c2 \<longleftrightarrow> is_probable c1 \<and> is_probable c2 \<and> abs_diff (conf_value c1) (conf_value c2) < 15"

definition separated :: "confidence \<Rightarrow> confidence \<Rightarrow> bool" where
  "separated c1 c2 \<longleftrightarrow>
     is_confirmed (if conf_value c1 \<le> conf_value c2 then c2 else c1)
     \<or> \<not> abs_diff (conf_value c1) (conf_value c2) < 15"

definition synthesize_pair ::
    "'s engine_env \<Rightarrow> cause_snapshot \<Rightarrow> scope_id \<Rightarrow> cause_kind \<Rightarrow> 's engine \<Rightarrow> 's engine" where
  "synthesize_pair env snap scope other eg =
     (let target = cs_target snap;
          pair = ordered_pair (cs_kind snap) other;
          c1 = cs_confidence snap;
          c2 = (case hm_get (sg_causes (partition scope (eg_store eg))) (other, target) of
                  Some n \<Rightarrow> cn_confidence n | None \<Rightarrow> conf_min);
          wm = gs_watermark (eg_store eg)
      in if close_rivals c1 c2
         then (case on_partition scope (mark_in_partition snap other pair wm (Suc (eg_next_node eg))) eg of
                 (created, eg1) \<Rightarrow>
                   if created
                   then emit_action env
                          \<lparr>ai_kind = MarkAmbiguousAct, ai_rule = im_ruleset_id (ev_image env), ai_arg = None,
                           ai_target = Some target, ai_path = None, ai_reason = None, ai_evidence = [],
                           ai_causes = Some pair\<rparr>
                          (eg1\<lparr>eg_next_node := Suc (Suc (eg_next_node eg))\<rparr>)
                   else eg1)
         else if separated c1 c2
         then snd (on_partition scope (resolve_in_partition pair target) eg)
         else eg)"

definition synthesize_ambiguity ::
    "'s engine_env \<Rightarrow> cause_snapshot \<Rightarrow> scope_id \<Rightarrow> 's engine \<Rightarrow> 's engine" where
  "synthesize_ambiguity env snap scope eg =
     fold (\<lambda>g. if cs_kind snap \<in> set (xg_causes g)
               then fold (synthesize_pair env snap scope) (filter (\<lambda>k. k \<noteq> cs_kind snap) (xg_causes g))
               else id)
       (effective_exclusivity_groups (ev_image env)) eg"

definition on_confidence_mutation ::
    "'s engine_env \<Rightarrow> 's firing \<Rightarrow> cause_snapshot \<Rightarrow> scope_id \<Rightarrow> 's engine \<times> nat \<Rightarrow> 's engine \<times> nat" where
  "on_confidence_mutation env fire snap scope st =
     map_prod (synthesize_ambiguity env snap scope) id
       (fire_decisions env fire (AnchorCause (cs_kind snap)) (BCause snap) scope st)"

subsection \<open>Infer\<close>

text \<open>What the block under the partition guard ends with.\<close>

datatype infer_result = AtCapacity | Duplicate | Inferred cause_snapshot bool

definition cause_entry ::
    "cause_kind \<Rightarrow> scope_id \<Rightarrow> event_time \<Rightarrow> node_id \<Rightarrow> subgraph \<Rightarrow> bool \<times> cause_node" where
  "cause_entry cause target t fresh sg =
     (case hm_get (sg_causes sg) (cause, target) of
        Some n \<Rightarrow> (False, n)
      | None \<Rightarrow> (True, \<lparr>cn_id = fresh, cn_kind = cause, cn_target = target, cn_time = t,
                        cn_confidence = conf_min, cn_evidence = [], cn_provenance = []\<rparr>))"

definition snapshot_of :: "cause_kind \<Rightarrow> scope_id \<Rightarrow> cause_node \<Rightarrow> cause_snapshot" where
  "snapshot_of cause target n =
     \<lparr>cs_node = cn_id n, cs_kind = cause, cs_target = target, cs_time = cn_time n, cs_confidence = cn_confidence n\<rparr>"

definition at_capacity :: "nat \<Rightarrow> cause_kind \<Rightarrow> scope_id \<Rightarrow> subgraph \<Rightarrow> bool" where
  "at_capacity cap cause target sg \<longleftrightarrow>
     hm_get (sg_causes sg) (cause, target) = None \<and> cap \<le> length (sg_causes sg)"

definition infer_in_partition ::
    "nat \<Rightarrow> cause_kind \<Rightarrow> scope_id \<Rightarrow> weight \<Rightarrow> runtime_prov_key \<Rightarrow> edge_endpoint list \<Rightarrow> event_time \<Rightarrow> node_id
      \<Rightarrow> subgraph \<Rightarrow> infer_result \<times> subgraph" where
  "infer_in_partition cap cause target w key endpoints t fresh sg =
     (if at_capacity cap cause target sg then (AtCapacity, sg)
      else case try_insert_provenance key sg of
             (False, sg1) \<Rightarrow> (Duplicate, sg1)
           | (True, sg1) \<Rightarrow>
               (case cause_entry cause target t fresh sg1 of
                  (created, n) \<Rightarrow>
                    let n' = n\<lparr>cn_confidence := apply_weight (cn_confidence n) w,
                               cn_provenance := cn_provenance n @ [key]\<rparr>;
                        kind = (if is_supporting w then Supports else Contradicts)
                    in (Inferred (snapshot_of cause target n') created,
                        sg1\<lparr>sg_causes := hm_put (cause, target) n' (sg_causes sg1),
                            sg_edges := sg_edges sg1 @
                              map (\<lambda>src. \<lparr>ee_kind = kind, ee_src = src, ee_dst = cn_id n\<rparr>) endpoints\<rparr>)))"

definition child_confidence ::
    "graph_store \<Rightarrow> cause_kind \<Rightarrow> scope_id \<Rightarrow> scope_id \<Rightarrow> confidence \<Rightarrow> confidence" where
  "child_confidence gs cause parent sc c =
     (if sc = parent \<or> \<not> is_subsumed_by (si_type sc) (si_type parent) then c
      else case hm_get (sg_causes (partition sc gs)) (cause, parent) of
             Some n \<Rightarrow> if conf_value c \<le> conf_value (cn_confidence n) then cn_confidence n else c
           | None \<Rightarrow> c)"

definition rollup_in_partition ::
    "nat \<Rightarrow> cause_kind \<Rightarrow> scope_id \<Rightarrow> confidence \<Rightarrow> node_id option \<Rightarrow> event_time \<Rightarrow> node_id \<Rightarrow> subgraph
      \<Rightarrow> infer_result \<times> subgraph" where
  "rollup_in_partition cap cause target max_conf child t fresh sg =
     (if at_capacity cap cause target sg then (AtCapacity, sg)
      else case cause_entry cause target t fresh sg of
             (created, n) \<Rightarrow>
               let n' = n\<lparr>cn_confidence := max_conf\<rparr>;
                   edges = (case child of
                              None \<Rightarrow> sg_edges sg
                            | Some src \<Rightarrow>
                                let e = \<lparr>ee_kind = RollsUp, ee_src = EndNode src, ee_dst = cn_id n\<rparr>
                                in if e \<in> set (sg_edges sg) then sg_edges sg else sg_edges sg @ [e])
               in (Inferred (snapshot_of cause target n') created,
                   sg\<lparr>sg_causes := hm_put (cause, target) n' (sg_causes sg), sg_edges := edges\<rparr>))"

text \<open>What follows the guarded block, in \<open>exec_infer\<close> and in \<open>rollup_cause_to_parent\<close>. The
  continuation is what runs when the cause was mutated.\<close>

definition after_infer ::
    "infer_result \<Rightarrow> scope_id \<Rightarrow> (cause_snapshot \<Rightarrow> 's engine \<times> nat \<Rightarrow> 's engine \<times> nat)
      \<Rightarrow> 's engine \<times> nat \<Rightarrow> 's engine \<times> nat" where
  "after_infer r scope k st =
     (case r of
        AtCapacity \<Rightarrow> (push_diag (CauseCapacity scope) (fst st), snd st)
      | Duplicate \<Rightarrow> st
      | Inferred snap created \<Rightarrow>
          k snap (if created then (fst st)\<lparr>eg_next_node := Suc (eg_next_node (fst st))\<rparr> else fst st, snd st))"

definition rollup_cause_to_parent ::
    "'s engine_env \<Rightarrow> 's firing \<Rightarrow> cause_kind \<Rightarrow> scope_id \<Rightarrow> scope_id \<Rightarrow> 's engine \<times> nat \<Rightarrow> 's engine \<times> nat" where
  "rollup_cause_to_parent env fire cause target child_scope st =
     (let eg = fst st;
          max_conf = fold (child_confidence (eg_store eg) cause target) (eg_touched eg) conf_min;
          child = map_option cn_id (hm_get (sg_causes (partition child_scope (eg_store eg))) (cause, target));
          eg1 = touch target eg
      in case on_partition target
                (rollup_in_partition (max_causes (gs_limits (eg_store eg))) cause target max_conf child
                   (gs_watermark (eg_store eg)) (Suc (eg_next_node eg))) eg1 of
           (r, eg2) \<Rightarrow> after_infer r target (\<lambda>snap. on_confidence_mutation env fire snap target) (eg2, snd st))"

definition exec_infer ::
    "'s engine_env \<Rightarrow> 's firing \<Rightarrow> rule_instance \<Rightarrow> cause_kind \<Rightarrow> metric_path \<Rightarrow> weight \<Rightarrow> symbol list \<Rightarrow> prov_key
      \<Rightarrow> binding list \<Rightarrow> bound \<Rightarrow> scope_id \<Rightarrow> 's engine \<times> nat \<Rightarrow> 's engine \<times> nat" where
  "exec_infer env fire rule cause path w evidence prov bindings anchor scope st =
     (case resolve_target rule path bindings (fst st) of
        (None, eg) \<Rightarrow> (push_diag (UnresolvedTarget (ru_id rule) path) eg, snd st)
      | (Some target, eg) \<Rightarrow>
          (let limits = gs_limits (eg_store eg);
               key = \<lparr>rp_key = \<lparr>pk_rule = pk_rule prov, pk_cause = pk_cause prov,
                                pk_target_hash = mix_target (pk_target_hash prov) (hash_key target)\<rparr>,
                      rp_window = window_id (bound_time anchor) (li_dedup_window limits)\<rparr>
           in case on_partition scope
                     (infer_in_partition (max_causes limits) cause target w key
                        (evidence_endpoints rule evidence bindings) (bound_time anchor)
                        (Suc (eg_next_node eg))) eg of
                (r, eg1) \<Rightarrow>
                  after_infer r scope
                    (\<lambda>snap st1.
                       let st2 = on_confidence_mutation env fire snap scope st1
                       in if scope \<noteq> target \<and> is_subsumed_by (si_type scope) (si_type target)
                          then rollup_cause_to_parent env fire cause target scope st2 else st2)
                    (eg1, snd st)))"

subsection \<open>Emit, act, suppress, mark\<close>

definition evidence_nodes :: "rule_instance \<Rightarrow> symbol list \<Rightarrow> binding list \<Rightarrow> node_id list" where
  "evidence_nodes rule evidence bindings =
     List.map_filter (\<lambda>sym.
       case Option.bind (binding_index_of rule sym) (nth_bound bindings) of
         Some (BCause c) \<Rightarrow> Some (cs_node c)
       | Some (BProblem p) \<Rightarrow> Some (ps_node p)
       | _ \<Rightarrow> None) evidence"

definition emit_in_partition ::
    "rule_id \<Rightarrow> event_time \<Rightarrow> duration_ms \<Rightarrow> problem_node \<Rightarrow> subgraph \<Rightarrow> bool \<times> subgraph" where
  "emit_in_partition rule wm cooldown p sg =
     (case try_mark_emitted rule (pn_kind p) (pn_target p) wm cooldown sg of
        (False, sg1) \<Rightarrow> (False, sg1)
      | (True, sg1) \<Rightarrow> (True, push_problem p sg1))"

definition on_problem_emission ::
    "'s engine_env \<Rightarrow> 's firing \<Rightarrow> problem_snapshot \<Rightarrow> scope_id \<Rightarrow> 's engine \<times> nat \<Rightarrow> 's engine \<times> nat" where
  "on_problem_emission env fire snap scope st =
     fire_decisions env fire (AnchorProblem (ps_kind snap)) (BProblem snap) scope st"

text \<open>The target of an optional path, the rule's scope when it is omitted.\<close>

definition resolve_optional_target ::
    "rule_instance \<Rightarrow> metric_path option \<Rightarrow> binding list \<Rightarrow> scope_id \<Rightarrow> 's engine \<Rightarrow> scope_id option \<times> 's engine" where
  "resolve_optional_target rule path bindings scope eg =
     (case path of
        None \<Rightarrow> (Some scope, eg)
      | Some p \<Rightarrow>
          (case resolve_target rule p bindings eg of
             (Some t, eg1) \<Rightarrow> (Some t, eg1)
           | (None, eg1) \<Rightarrow> (None, push_diag (UnresolvedTarget (ru_id rule) p) eg1)))"

definition exec_emit_problem ::
    "'s engine_env \<Rightarrow> 's firing \<Rightarrow> rule_instance \<Rightarrow> problem_kind \<Rightarrow> metric_path option \<Rightarrow> severity \<Rightarrow> symbol list
      \<Rightarrow> sarif_id \<Rightarrow> binding list \<Rightarrow> scope_id \<Rightarrow> 's engine \<times> nat \<Rightarrow> 's engine \<times> nat" where
  "exec_emit_problem env fire rule problem path sev evidence sarif bindings scope st =
     (case resolve_optional_target rule path bindings scope (fst st) of
        (None, eg) \<Rightarrow> (eg, snd st)
      | (Some target, eg) \<Rightarrow>
          (let wm = gs_watermark (eg_store eg);
               node = Suc (eg_next_node eg);
               p = \<lparr>pn_id = node, pn_kind = problem, pn_target = target, pn_time = wm, pn_severity = sev,
                    pn_evidence = evidence_nodes rule evidence bindings, pn_sarif_id = sarif,
                    pn_superseded = False\<rparr>
           in case on_partition scope (emit_in_partition (ru_id rule) wm (eg_cooldown eg) p) eg of
                (False, eg1) \<Rightarrow> (eg1, snd st)
              | (True, eg1) \<Rightarrow>
                  on_problem_emission env fire
                    \<lparr>ps_node = node, ps_kind = problem, ps_target = target, ps_time = wm\<rparr> scope
                    (eg1\<lparr>eg_next_node := node\<rparr>, snd st)))"

definition exec_action ::
    "'s engine_env \<Rightarrow> rule_instance \<Rightarrow> action_kind \<Rightarrow> symbol option \<Rightarrow> metric_path option \<Rightarrow> string option
      \<Rightarrow> symbol list \<Rightarrow> binding list \<Rightarrow> 's engine \<Rightarrow> 's engine" where
  "exec_action env rule kind arg path reason evidence bindings eg =
     (case (case path of None \<Rightarrow> (None, eg) | Some p \<Rightarrow> resolve_target rule p bindings eg) of
        (target, eg1) \<Rightarrow>
          emit_action env
            \<lparr>ai_kind = kind, ai_rule = ru_id rule, ai_arg = arg, ai_target = target, ai_path = path,
             ai_reason = reason, ai_evidence = evidence_endpoints rule evidence bindings, ai_causes = None\<rparr> eg1)"

definition exec_supersede ::
    "rule_instance \<Rightarrow> problem_kind \<Rightarrow> metric_path \<Rightarrow> binding list \<Rightarrow> scope_id \<Rightarrow> 's engine \<Rightarrow> 's engine" where
  "exec_supersede rule problem path bindings scope eg =
     (case resolve_target rule path bindings eg of
        (None, eg1) \<Rightarrow> push_diag (UnresolvedTarget (ru_id rule) path) eg1
      | (Some target, eg1) \<Rightarrow> snd (on_partition scope (supersede_problems problem target) eg1))"

definition ambiguity_entry ::
    "cause_kind \<times> cause_kind \<Rightarrow> scope_id \<Rightarrow> node_id \<Rightarrow> subgraph \<Rightarrow> bool \<times> subgraph" where
  "ambiguity_entry pair target node sg =
     (case hm_get (sg_ambiguities sg) (pair, target) of
        Some a \<Rightarrow> (False, sg)
      | None \<Rightarrow> (True, sg\<lparr>sg_ambiguities := hm_put (pair, target)
                   \<lparr>am_id = node, am_causes = pair, am_target = target, am_state = Active\<rparr>
                   (sg_ambiguities sg)\<rparr>))"

definition exec_mark_ambiguous ::
    "'s engine_env \<Rightarrow> rule_instance \<Rightarrow> cause_kind \<times> cause_kind \<Rightarrow> metric_path \<Rightarrow> binding list \<Rightarrow> scope_id
      \<Rightarrow> 's engine \<Rightarrow> 's engine" where
  "exec_mark_ambiguous env rule causes path bindings scope eg =
     (case resolve_target rule path bindings eg of
        (None, eg1) \<Rightarrow> push_diag (UnresolvedTarget (ru_id rule) path) eg1
      | (Some target, eg1) \<Rightarrow>
          (let pair = ordered_pair (fst causes) (snd causes);
               node = Suc (eg_next_node eg1)
           in case on_partition scope (ambiguity_entry pair target node) eg1 of
                (created, eg2) \<Rightarrow>
                  emit_action env
                    \<lparr>ai_kind = MarkAmbiguousAct, ai_rule = ru_id rule, ai_arg = None, ai_target = Some target,
                     ai_path = Some path, ai_reason = None, ai_evidence = [], ai_causes = Some pair\<rparr>
                    (if created then eg2\<lparr>eg_next_node := node\<rparr> else eg2)))"

fun exec_intent ::
    "'s engine_env \<Rightarrow> 's firing \<Rightarrow> rule_instance \<Rightarrow> binding list \<Rightarrow> bound \<Rightarrow> scope_id \<Rightarrow> intent
      \<Rightarrow> 's engine \<times> nat \<Rightarrow> 's engine \<times> nat" where
  "exec_intent env fire rule bindings anchor scope (InferCause cause target w evidence prov pii) st =
     exec_infer env fire rule cause target w evidence prov bindings anchor scope st"
| "exec_intent env fire rule bindings anchor scope (EmitProblem problem target sev evidence sarif pii) st =
     exec_emit_problem env fire rule problem target sev evidence sarif bindings scope st"
| "exec_intent env fire rule bindings anchor scope (EmitAction kind arg target reason evidence) st =
     map_prod (exec_action env rule kind arg target reason evidence bindings) id st"
| "exec_intent env fire rule bindings anchor scope (SupersedeProblem problem target) st =
     map_prod (exec_supersede rule problem target bindings scope) id st"
| "exec_intent env fire rule bindings anchor scope (MarkAmbiguous causes target) st =
     map_prod (exec_mark_ambiguous env rule causes target bindings scope) id st"

definition exec_intents ::
    "'s engine_env \<Rightarrow> 's firing \<Rightarrow> rule_instance \<Rightarrow> binding list \<Rightarrow> bound \<Rightarrow> scope_id \<Rightarrow> intent list
      \<Rightarrow> 's engine \<times> nat \<Rightarrow> 's engine \<times> nat" where
  "exec_intents env fire rule bindings anchor scope intents st =
     fold (exec_intent env fire rule bindings anchor scope) intents st"

subsection \<open>Running a rule\<close>

definition select_body :: "'s engine_env \<Rightarrow> rule_instance \<Rightarrow> binding list \<Rightarrow> scope_id \<Rightarrow> 's engine \<Rightarrow> intent list \<times> 's engine" where
  "select_body env rule bindings scope eg =
     (case ru_branches rule of
        None \<Rightarrow> (ru_body rule, eg)
      | Some bt \<Rightarrow>
          (case eval_pred env rule (br_cond bt) bindings scope eg of
             (Some TTrue, eg1) \<Rightarrow> (br_then bt, eg1)
           | (Some TFalse, eg1) \<Rightarrow> (case br_else bt of Some body \<Rightarrow> body | None \<Rightarrow> [], eg1)
           | (Some TUnknown, eg1) \<Rightarrow> (br_unknown bt, eg1)
           | (None, eg1) \<Rightarrow> ([], eg1)))"

text \<open>The part of \<open>run_rule\<close> after the budget check.\<close>

definition run_body ::
    "'s engine_env \<Rightarrow> 's firing \<Rightarrow> 's firing" where
  "run_body env fire rule anchor scope st =
     (case resolve_bindings env rule anchor scope (fst st) of
        (bindings, eg1) \<Rightarrow>
          (case select_body env rule bindings scope (record_resolved_absent rule bindings anchor scope eg1) of
             (body, eg2) \<Rightarrow> exec_intents env fire rule bindings anchor scope body (eg2, snd st)))"

fun run_rule :: "'s engine_env \<Rightarrow> nat \<Rightarrow> 's firing" where
  "run_rule env 0 rule anchor scope st = st"
| "run_rule env (Suc depth) rule anchor scope (eg, 0) = (push_diag (RuleFiringsExceeded scope) eg, 0)"
| "run_rule env (Suc depth) rule anchor scope (eg, Suc budget) =
     run_body env (run_rule env depth) rule anchor scope (eg, budget)"

text \<open>A root firing: the depth is one more than the budget.\<close>

definition fire_rule :: "'s engine_env \<Rightarrow> 's firing" where
  "fire_rule env rule anchor scope st = run_rule env (Suc (snd st)) rule anchor scope st"

end
