(* ===== verification/Adgl_Pipeline.thy ===== *)
theory Adgl_Pipeline
  imports Adgl_Intents
begin

text \<open>
  The pipeline of the engine (crates/airpulse_dsl-evaluator/src/engine.rs): the two watermark
  policies, late events, the resume sweep, garbage collection, anchor matching, explicit
  watermark advance and the end-of-stream flush.
\<close>

subsection \<open>Resumption and anchors\<close>

definition resume_match :: "'s engine_env \<Rightarrow> pending_match \<Rightarrow> 's engine \<Rightarrow> 's engine" where
  "resume_match env m eg =
     (case Option.bind (store_ring (pm_scope m) (eg_store eg)) (ring_get (pm_anchor_event m)) of
        None \<Rightarrow> push_diag (MissingAnchor (pm_rule m)) eg
      | Some e \<Rightarrow>
          (case find (\<lambda>r. ru_id r = pm_rule m) (im_rules (ev_image env)) of
             None \<Rightarrow> push_diag (RuleNotInImage (pm_rule m)) eg
           | Some rule \<Rightarrow>
               fst (fire_rule env rule (BEvent e) (pm_scope m)
                 (eg\<lparr>eg_resumed := Suc (eg_resumed eg)\<rparr>, max_firings (gs_limits (eg_store eg))))))"

definition resume_expired :: "'s engine_env \<Rightarrow> event_time \<Rightarrow> 's engine \<Rightarrow> 's engine" where
  "resume_expired env wm eg =
     (case pop_expired wm (eg_store eg) of
        (expired, gs) \<Rightarrow> fold (resume_match env) expired (eg\<lparr>eg_store := gs\<rparr>))"

definition gc_sweep :: "event_time \<Rightarrow> 's engine \<Rightarrow> 's engine" where
  "gc_sweep wm eg =
     (let gs1 = snd (store_gc wm (li_max_lookback (gs_limits (eg_store eg))) (eg_store eg));
          gs2 = snd (store_prune_emitted wm (eg_cooldown eg) gs1)
      in eg\<lparr>eg_store := gs2\<rparr>)"

definition suspend_match :: "pending_match \<Rightarrow> 's engine \<Rightarrow> 's engine" where
  "suspend_match p eg =
     (case suspend p (eg_store eg) of
        (spill, gs) \<Rightarrow> push_store_diag spill
                        (eg\<lparr>eg_suspended := Suc (eg_suspended eg), eg_store := gs\<rparr>))"

definition match_anchor ::
    "'s engine_env \<Rightarrow> event_node \<Rightarrow> event_time \<Rightarrow> rule_instance \<Rightarrow> 's engine \<times> nat \<Rightarrow> 's engine \<times> nat" where
  "match_anchor env e wm rule st =
     (case eval_pred env rule (an_predicate (ru_anchor rule)) [Bound (BEvent e)] (en_scope e) (fst st) of
        (Some TTrue, eg) \<Rightarrow>
          (let upper = time_add (en_time e) (rule_max_forward rule) in
           if wm < upper
           then (suspend_match \<lparr>pm_rule = ru_id rule, pm_anchor_event = en_id e, pm_upper_bound = upper,
                                 pm_scope = en_scope e\<rparr> eg, snd st)
           else fire_rule env rule (BEvent e) (en_scope e) (eg, snd st))
      | (_, eg) \<Rightarrow> (eg, snd st))"

definition match_anchors :: "'s engine_env \<Rightarrow> event_node \<Rightarrow> event_time \<Rightarrow> 's engine \<Rightarrow> 's engine" where
  "match_anchors env e wm eg =
     fst (fold (match_anchor env e wm)
       (rules_for (ev_image env) (AnchorEvent (en_type e)) (si_type (en_scope e)) Evidence)
       (eg, max_firings (gs_limits (eg_store eg))))"

subsection \<open>Watermarks\<close>

definition store_advance :: "event_time \<Rightarrow> 's engine \<Rightarrow> event_time \<times> 's engine" where
  "store_advance t eg =
     (case advance_watermark t (eg_store eg) of (wm, gs) \<Rightarrow> (wm, eg\<lparr>eg_store := gs\<rparr>))"

definition advance_wall :: "event_time \<Rightarrow> 's engine \<Rightarrow> 's engine" where
  "advance_wall t eg =
     (if eg_wall eg = i64_min \<or> eg_wall eg < t then eg\<lparr>eg_wall := t\<rparr> else eg)"

definition advance_wall_clock :: "'s engine_env \<Rightarrow> event_time \<Rightarrow> 's engine \<Rightarrow> 's engine" where
  "advance_wall_clock env t eg = (if ev_mode env \<noteq> Live then eg else advance_wall t eg)"

text \<open>A source is idle when its last event is \<open>idle_timeout\<close> or more behind the wall clock
  (saturating subtraction).\<close>

definition source_idle :: "duration_ms \<Rightarrow> event_time \<Rightarrow> source_wm \<Rightarrow> bool" where
  "source_idle idle wall s \<longleftrightarrow> idle \<le> i64_saturate (wall - sw_last_seen s)"

definition min_active :: "duration_ms \<Rightarrow> event_time \<Rightarrow> (scope_id \<times> source_wm) list \<Rightarrow> event_time option" where
  "min_active idle wall sources =
     fold (\<lambda>(sc, s) g.
         if source_idle idle wall s then g
         else case g of None \<Rightarrow> Some (sw_local s)
              | Some g \<Rightarrow> Some (if sw_local s < g then sw_local s else g))
       sources None"

definition note_source :: "scope_id \<Rightarrow> event_time \<Rightarrow> event_time \<Rightarrow> (scope_id, source_wm) hmap \<Rightarrow> (scope_id, source_wm) hmap" where
  "note_source sc candidate wall m =
     (let s = (case hm_get m sc of Some s \<Rightarrow> s | None \<Rightarrow> \<lparr>sw_local = candidate, sw_last_seen = wall\<rparr>)
      in hm_put sc \<lparr>sw_local = (if sw_local s < candidate then candidate else sw_local s), sw_last_seen = wall\<rparr> m)"

definition advance_live_watermark :: "scope_id \<Rightarrow> event_time \<Rightarrow> 's engine \<Rightarrow> event_time \<times> 's engine" where
  "advance_live_watermark sc t eg =
     (let eg1 = advance_wall t eg;
          limits = gs_limits (eg_store eg);
          sources = note_source sc (time_sub t (li_max_disorder limits)) (eg_wall eg1) (eg_sources eg1);
          target = (case min_active (li_idle_timeout limits) (eg_wall eg1) sources of
                      Some g \<Rightarrow> g | None \<Rightarrow> gs_watermark (eg_store eg))
      in store_advance target (eg1\<lparr>eg_sources := sources\<rparr>))"

definition audit_offline_late_evidence :: "event_node \<Rightarrow> event_time \<Rightarrow> 's engine \<Rightarrow> 's engine" where
  "audit_offline_late_evidence e wm eg =
     (case find (\<lambda>ra. ra_scope ra = en_scope e \<and> ra_event_type ra = en_type e
                    \<and> ra_lo ra \<le> en_time e \<and> en_time e \<le> ra_hi ra) (eg_absent eg) of
        None \<Rightarrow> eg
      | Some ra \<Rightarrow> push_diag (LateEvidence (en_scope e) (ra_rule ra) (en_id e) (en_type e) wm) eg)"

subsection \<open>Ingest\<close>

definition note_event :: "event_node \<Rightarrow> 's engine \<Rightarrow> 's engine" where
  "note_event e eg =
     (touch (en_scope e) eg)
       \<lparr>eg_last_event := Some (max (case eg_last_event eg of Some t \<Rightarrow> t | None \<Rightarrow> en_time e) (en_time e))\<rparr>"

definition is_late :: "event_node \<Rightarrow> 's engine \<Rightarrow> bool" where
  "is_late e eg \<longleftrightarrow> gs_watermark (eg_store eg) \<noteq> i64_min \<and> en_time e \<le> gs_watermark (eg_store eg)"

definition beyond_lateness :: "event_node \<Rightarrow> 's engine \<Rightarrow> bool" where
  "beyond_lateness e eg \<longleftrightarrow>
     en_time e \<le> time_sub (gs_watermark (eg_store eg)) (li_allowed_lateness (gs_limits (eg_store eg)))"

definition drop_late :: "event_node \<Rightarrow> 's engine \<Rightarrow> 's engine" where
  "drop_late e eg =
     (push_diag (LateEventDropped (en_scope e) (en_id e) (en_time e) (gs_watermark (eg_store eg))) eg)
       \<lparr>eg_late := eg_late eg @ [e]\<rparr>"

text \<open>What follows the lateness checks.\<close>

definition accept_event :: "'s engine_env \<Rightarrow> event_node \<Rightarrow> 's engine \<Rightarrow> 's engine" where
  "accept_event env e eg =
     (case (case ev_mode env of
              Offline \<Rightarrow> store_advance (en_time e) eg
            | Live \<Rightarrow> advance_live_watermark (en_scope e) (en_time e) eg) of
        (wm, eg1) \<Rightarrow>
          (case push_event e (eg_store eg1) of
             (spill, gs) \<Rightarrow>
               match_anchors env e wm
                 (gc_sweep wm (resume_expired env wm (push_store_diag spill (eg1\<lparr>eg_store := gs\<rparr>))))))"

definition ingest :: "'s engine_env \<Rightarrow> event_node \<Rightarrow> 's engine \<Rightarrow> 's engine" where
  "ingest env e eg0 =
     (let eg = note_event e eg0;
          late = is_late e eg
      in if ev_mode env = Live \<and> late \<and> beyond_lateness e eg then drop_late e eg
         else accept_event env e
                (if ev_mode env = Offline \<and> late
                 then audit_offline_late_evidence e (gs_watermark (eg_store eg)) eg else eg))"

definition engine_advance_watermark :: "'s engine_env \<Rightarrow> event_time \<Rightarrow> 's engine \<Rightarrow> 's engine" where
  "engine_advance_watermark env t eg =
     (case store_advance t eg of (wm, eg1) \<Rightarrow> gc_sweep wm (resume_expired env wm eg1))"

definition finish :: "'s engine_env \<Rightarrow> 's engine \<Rightarrow> 's engine" where
  "finish env eg =
     (if eg_finished eg then eg
      else let eg1 = eg\<lparr>eg_finished := True\<rparr> in
           case eg_last_event eg1 of
             None \<Rightarrow> eg1
           | Some t \<Rightarrow> engine_advance_watermark env (time_add (time_add t (eg_max_forward eg1)) 1) eg1)"

text \<open>The mutating operations of the engine, as one type.\<close>

datatype adgl_op =
    Ingest event_node
  | AdvanceWatermark event_time
  | AdvanceWallClock event_time
  | InternScope scope_id
  | Finish

fun adgl_apply :: "'s engine_env \<Rightarrow> adgl_op \<Rightarrow> 's engine \<Rightarrow> 's engine option" where
  "adgl_apply env (Ingest e) eg = Some (ingest env e eg)"
| "adgl_apply env (AdvanceWatermark t) eg = Some (engine_advance_watermark env t eg)"
| "adgl_apply env (AdvanceWallClock t) eg = Some (advance_wall_clock env t eg)"
| "adgl_apply env (InternScope sc) eg = Some (snd (engine_intern sc eg))"
| "adgl_apply env Finish eg = Some (finish env eg)"

end
