(* ===== verification/Adgl_Cascade.thy ===== *)
theory Adgl_Cascade
  imports Adgl_Pipeline
begin

text \<open>
  What a firing of a rule can do to the engine: it is a sequence of atomic acts (a diagnostic, an
  action, a mutation of one partition with the node ids it takes). Every handler of
  \<open>Adgl_Intents\<close> is shown to be such a sequence once, for all its clients, in the locale
  \<open>cascade\<close>; invariants are then case analyses over the acts. The same locale shows that the
  depth of \<open>run_rule\<close> is never exhausted.
\<close>

subsection \<open>Atomic acts\<close>

text \<open>The node counter after an \<open>infer\<close> or a roll-up.\<close>

fun nodes_after :: "infer_result \<Rightarrow> nat \<Rightarrow> nat" where
  "nodes_after (Inferred snap created) n = (if created then Suc n else n)"
| "nodes_after _ n = n"

text \<open>A mutation of a partition: the cap on causes, the node counter before and after.\<close>

inductive sub_act :: "nat \<Rightarrow> nat \<Rightarrow> subgraph \<Rightarrow> nat \<Rightarrow> subgraph \<Rightarrow> bool" for cap where
  sub_infer: "infer_in_partition cap cause target w key eps t (Suc n) sg = (r, sg') \<Longrightarrow>
     sub_act cap n sg (nodes_after r n) sg'"
| sub_mark: "mark_in_partition snap other pair wm (Suc n) sg = (created, sg') \<Longrightarrow>
     sub_act cap n sg (if created then Suc (Suc n) else n) sg'"
| sub_resolve: "sub_act cap n sg n (snd (resolve_in_partition pair target sg))"
| sub_emit: "emit_in_partition rule wm cooldown p sg = (created, sg') \<Longrightarrow> pn_id p = Suc n \<Longrightarrow>
     sub_act cap n sg (if created then Suc n else n) sg'"
| sub_supersede: "sub_act cap n sg n (snd (supersede_problems problem target sg))"
| sub_ambiguity: "ambiguity_entry pair target (Suc n) sg = (created, sg') \<Longrightarrow>
     sub_act cap n sg (if created then Suc n else n) sg'"

text \<open>Diagnostics that report a suspended match as lost; no firing records one.\<close>

fun is_lost :: "engine_diagnostic \<Rightarrow> bool" where
  "is_lost (MissingAnchor r) = True"
| "is_lost (RuleNotInImage r) = True"
| "is_lost (StoreDiag (WaitQueueSpill sc p cap)) = True"
| "is_lost _ = False"

definition put_partition :: "scope_id \<Rightarrow> subgraph \<Rightarrow> nat \<Rightarrow> 's engine \<Rightarrow> 's engine" where
  "put_partition sc sg n eg =
     eg\<lparr>eg_store := (eg_store eg)\<lparr>gs_partitions := hm_put sc sg (gs_partitions (eg_store eg))\<rparr>,
        eg_next_node := n\<rparr>"

inductive act :: "'s engine_env \<Rightarrow> 's engine \<Rightarrow> 's engine \<Rightarrow> bool" for env where
  act_diag: "\<not> is_lost d \<Longrightarrow> act env eg (push_diag d eg)"
| act_absent: "act env eg (eg\<lparr>eg_absent := ws\<rparr>)"
| act_emit: "act env eg (emit_action env i eg)"
| act_touch: "act env eg (touch sc eg)"
| act_part: "sub_act (max_causes (gs_limits (eg_store eg))) (eg_next_node eg) (partition sc (eg_store eg)) n sg \<Longrightarrow>
     sc \<in> set (eg_touched eg) \<Longrightarrow> act env eg (put_partition sc sg n eg)"
| act_rollup: "rollup_in_partition (max_causes (gs_limits (eg_store eg))) cause sc
       (fold (child_confidence (eg_store eg) cause sc) scs conf_min) child t (Suc (eg_next_node eg))
       (partition sc (eg_store eg)) = (r, sg) \<Longrightarrow>
     sc \<in> set (eg_touched eg) \<Longrightarrow> act env eg (put_partition sc sg (nodes_after r (eg_next_node eg)) eg)"

abbreviation acts :: "'s engine_env \<Rightarrow> 's engine \<Rightarrow> 's engine \<Rightarrow> bool" where
  "acts env \<equiv> (act env)\<^sup>*\<^sup>*"

lemma act_touched: "act env eg eg' \<Longrightarrow> set (eg_touched eg) \<subseteq> set (eg_touched eg')"
  by (induction rule: act.induct) (auto simp: push_diag_def emit_action_def touch_def put_partition_def)

lemma acts_touched: "acts env eg eg' \<Longrightarrow> set (eg_touched eg) \<subseteq> set (eg_touched eg')"
  by (induction rule: rtranclp_induct) (use act_touched in blast)+

lemma act_limits: "act env eg eg' \<Longrightarrow> gs_limits (eg_store eg') = gs_limits (eg_store eg)"
  by (induction rule: act.induct) (auto simp: push_diag_def emit_action_def touch_def put_partition_def)

lemma acts_step: "acts env eg eg1 \<Longrightarrow> act env eg1 eg2 \<Longrightarrow> acts env eg eg2"
  by (rule rtranclp.rtrancl_into_rtrancl)

lemma acts_push: "acts env eg eg1 \<Longrightarrow> \<not> is_lost d \<Longrightarrow> acts env eg (push_diag d eg1)"
  by (blast intro: acts_step act_diag)

lemma acts_emit: "acts env eg eg1 \<Longrightarrow> acts env eg (emit_action env i eg1)"
  by (blast intro: acts_step act_emit)

lemma acts_put:
  assumes "acts env eg eg1" "sc \<in> set (eg_touched eg1)"
    and "sub_act (max_causes (gs_limits (eg_store eg1))) (eg_next_node eg1) (partition sc (eg_store eg1)) n sg"
  shows "acts env eg (put_partition sc sg n eg1)"
  using acts_step [OF assms(1) act_part [OF assms(3,2)]] .

lemma acts_snd: "acts env eg (snd p) \<Longrightarrow> p = (x, eg1) \<Longrightarrow> acts env eg eg1"
  by simp

lemma on_partition_put:
  "on_partition sc f eg =
     (case f (partition sc (eg_store eg)) of (x, sg) \<Rightarrow> (x, put_partition sc sg (eg_next_node eg) eg))"
  by (cases "f (partition sc (eg_store eg))") (simp add: on_partition_def partition_mut_def put_partition_def)

lemma put_partition_next [simp]:
  "(put_partition sc sg m eg)\<lparr>eg_next_node := n\<rparr> = put_partition sc sg n eg"
  "eg_next_node (put_partition sc sg m eg) = m"
  "eg_touched (put_partition sc sg m eg) = eg_touched eg"
  by (simp_all add: put_partition_def)

subsection \<open>The parts that fire no rule\<close>

lemma resolve_scope_path_acts: "acts env eg (snd (resolve_scope_path rule path name b eg))"
  by (auto simp: resolve_scope_path_def intro: acts_push split: list.split tail_scope.split)

lemma resolve_target_acts: "acts env eg (snd (resolve_target rule path bindings eg))"
  by (auto simp: resolve_target_def Let_def resolve_scope_path_acts split: option.split)

lemma eval_pred_acts: "acts env eg (snd (eval_pred env rule p bindings scope eg))"
  by (auto simp: eval_pred_def intro: acts_push split: sum.split)

lemma resolve_topo_arg_acts: "acts env eg (snd (resolve_topo_arg spec rule partial cand path eg))"
  by (auto simp: resolve_topo_arg_def Let_def resolve_scope_path_acts split: option.split)

lemma eval_topo_acts: "acts env eg (snd (eval_topo env spec func rule partial cand eg))"
proof -
  have "acts env eg (snd (case resolve_topo_arg spec rule partial cand p eg of
          (a, eg1) \<Rightarrow> (case resolve_topo_arg spec rule partial cand q eg1 of
             (b, eg2) \<Rightarrow> (case (a, b) of (Some a, Some b) \<Rightarrow> (ev_topo env f a b, eg2) | _ \<Rightarrow> (TUnknown, eg2)))))"
    for p q f
  proof -
    obtain a eg1 where r1: "resolve_topo_arg spec rule partial cand p eg = (a, eg1)" by force
    obtain b eg2 where r2: "resolve_topo_arg spec rule partial cand q eg1 = (b, eg2)" by force
    have "acts env eg eg2"
      by (rule rtranclp_trans [OF acts_snd [OF resolve_topo_arg_acts r1] acts_snd [OF resolve_topo_arg_acts r2]])
    then show ?thesis by (simp add: r1 r2 split: option.split)
  qed
  then show ?thesis by (simp add: eval_topo_def split: option.split list.split)
qed

lemma count_candidates_acts:
  "acts env eg (snd (count_candidates env spec func rule partial cands acc eg))"
proof (induction cands arbitrary: acc eg)
  case (Cons cand cands)
  obtain t eg' where e: "eval_topo env spec func rule partial cand eg = (t, eg')" by force
  then have a: "acts env eg eg'" by (rule acts_snd [OF eval_topo_acts])
  have "acts env eg (snd (count_candidates env spec func rule partial cands acc' eg'))" for acc'
    by (rule rtranclp_trans [OF a Cons.IH])
  with a e show ?case by (cases acc) (auto simp: Let_def split: t3.split)
qed simp

lemma resolve_correlate_acts:
  "acts env eg (snd (resolve_correlate env rule anchor scope spec partial eg))"
proof (cases "co_window spec")
  case (Calculable b f)
  let ?func = "topo_from_idx (tc_func_idx (co_topo spec))"
  let ?eg1 = "if ?func = None then push_diag (PredicateError (ru_id rule)
                (UnknownTopoFunction (tc_func_idx (co_topo spec)))) eg else eg"
  have d: "acts env eg ?eg1" by (auto intro: acts_push)
  obtain acc eg2 where c: "count_candidates env spec ?func rule partial
      (correlate_candidates (eg_store eg) scope anchor (co_source spec) b f) (0, None, False) ?eg1 = (acc, eg2)"
    by (rule prod.exhaust)
  have "acts env eg eg2" by (rule rtranclp_trans [OF d acts_snd [OF count_candidates_acts c]])
  then show ?thesis
    by (simp only: resolve_correlate_def Calculable window_proof.case Let_def c prod.case snd_conv)
qed (auto simp: resolve_correlate_def intro: acts_push)

lemma resolve_correlates_acts:
  "acts env eg (snd (resolve_correlates env rule anchor scope specs bindings eg))"
proof (induction specs arbitrary: bindings eg)
  case (Cons spec specs)
  obtain b eg' where e: "resolve_correlate env rule anchor scope spec bindings eg = (b, eg')" by force
  then have "acts env eg eg'" by (rule acts_snd [OF resolve_correlate_acts])
  from rtranclp_trans [OF this Cons.IH] show ?case by (simp add: e)
qed simp

lemma select_body_acts: "acts env eg (snd (select_body env rule bindings scope eg))"
proof (cases "ru_branches rule")
  case (Some bt)
  obtain t eg1 where e: "eval_pred env rule (br_cond bt) bindings scope eg = (t, eg1)" by force
  then have "acts env eg eg1" by (rule acts_snd [OF eval_pred_acts])
  with Some e show ?thesis by (auto simp: select_body_def split: option.split t3.split)
qed (simp add: select_body_def)

lemma run_prefix_acts:
  assumes "resolve_bindings env rule anchor scope eg = (bindings, eg1)"
    and "select_body env rule bindings scope (record_resolved_absent rule bindings anchor scope eg1) = (body, eg2)"
  shows "acts env eg eg2"
proof -
  have "acts env eg eg1"
    using assms(1) unfolding resolve_bindings_def by (rule acts_snd [OF resolve_correlates_acts])
  then have "acts env eg (record_resolved_absent rule bindings anchor scope eg1)"
    by (rule acts_step) (simp add: record_resolved_absent_def act_absent)
  moreover have "acts env (record_resolved_absent rule bindings anchor scope eg1) eg2"
    using assms(2) by (rule acts_snd [OF select_body_acts])
  ultimately show ?thesis by (rule rtranclp_trans)
qed

lemma synthesize_pair_acts:
  assumes "scope \<in> set (eg_touched eg)"
  shows "acts env eg (synthesize_pair env snap scope other eg)"
proof -
  let ?pair = "ordered_pair (cs_kind snap) other" and ?t = "cs_target snap"
  note put = acts_put [OF rtranclp.rtrancl_refl assms]
  obtain created sg where m: "mark_in_partition snap other ?pair (gs_watermark (eg_store eg)) (Suc (eg_next_node eg))
      (partition scope (eg_store eg)) = (created, sg)" by force
  note mark = put [OF sub_mark [OF m], of env]
  obtain sg' where r: "resolve_in_partition ?pair ?t (partition scope (eg_store eg)) = ((), sg')"
    by (cases "resolve_in_partition ?pair ?t (partition scope (eg_store eg))") simp
  have res: "acts env eg (put_partition scope sg' (eg_next_node eg) eg)"
    using put [OF sub_resolve, of env ?pair ?t] by (simp add: r)
  from mark have m2: "created \<Longrightarrow> acts env eg (emit_action env i (put_partition scope sg (Suc (Suc (eg_next_node eg))) eg))" for i
    by (auto intro: acts_emit)
  show ?thesis
    using mark m2 res by (simp add: synthesize_pair_def Let_def on_partition_put m r split: if_splits)
qed

lemma fold_acts:
  assumes "\<And>x eg. scope \<in> set (eg_touched eg) \<Longrightarrow> acts env eg (h x eg)" "scope \<in> set (eg_touched eg)"
  shows "acts env eg (fold h xs eg)"
  using assms(2)
proof (induction xs arbitrary: eg)
  case (Cons x xs)
  from assms(1) [OF Cons.prems] have a: "acts env eg (h x eg)" .
  with Cons.prems acts_touched have "scope \<in> set (eg_touched (h x eg))" by blast
  from rtranclp_trans [OF a Cons.IH [OF this]] show ?case by simp
qed simp

lemma synthesize_ambiguity_acts:
  assumes "scope \<in> set (eg_touched eg)"
  shows "acts env eg (synthesize_ambiguity env snap scope eg)"
proof -
  have "acts env e ((if cs_kind snap \<in> set (xg_causes g)
      then fold (synthesize_pair env snap scope) (filter (\<lambda>k. k \<noteq> cs_kind snap) (xg_causes g)) else id) e)"
    if "scope \<in> set (eg_touched e)" for g e
    using fold_acts [of scope env "synthesize_pair env snap scope", OF synthesize_pair_acts that] by simp
  from fold_acts [of scope env, OF this assms] show ?thesis by (simp add: synthesize_ambiguity_def)
qed

lemma exec_action_acts: "acts env eg (exec_action env rule kind arg path reason evidence bindings eg)"
proof (cases path)
  case (Some p)
  obtain target eg1 where r: "resolve_target rule p bindings eg = (target, eg1)" by force
  then have "acts env eg eg1" by (rule acts_snd [OF resolve_target_acts])
  then show ?thesis by (simp add: exec_action_def Some r acts_emit)
qed (simp add: exec_action_def acts_emit)

lemma resolve_target_touched:
  assumes "resolve_target rule path bindings eg = (t, eg1)" "scope \<in> set (eg_touched eg)"
  shows "acts env eg eg1" "scope \<in> set (eg_touched eg1)"
  using acts_snd [OF resolve_target_acts assms(1), of env] assms(2) acts_touched [of env eg eg1] by auto

lemma exec_supersede_acts:
  assumes "scope \<in> set (eg_touched eg)"
  shows "acts env eg (exec_supersede rule problem path bindings scope eg)"
proof -
  obtain t eg1 where r: "resolve_target rule path bindings eg = (t, eg1)" by force
  note a = resolve_target_touched(1) [OF r assms, of env] resolve_target_touched(2) [OF r assms]
  show ?thesis
  proof (cases t)
    case (Some target)
    obtain k sg where s: "supersede_problems problem target (partition scope (eg_store eg1)) = (k, sg)" by force
    from acts_put [OF a sub_supersede [of _ _ _ problem target]] s
    show ?thesis by (simp add: exec_supersede_def r Some on_partition_put s)
  qed (simp add: exec_supersede_def r a acts_push)
qed

lemma resolve_optional_target_touched:
  assumes "resolve_optional_target rule path bindings scope eg = (t, eg1)" "sc \<in> set (eg_touched eg)"
  shows "acts env eg eg1 \<and> sc \<in> set (eg_touched eg1)"
proof -
  have a: "acts env eg (snd (resolve_optional_target rule path bindings scope eg))"
  proof (cases path)
    case (Some p)
    obtain u eg2 where r: "resolve_target rule p bindings eg = (u, eg2)" by force
    from acts_snd [OF resolve_target_acts r] r show ?thesis
      by (auto simp: resolve_optional_target_def Some intro: acts_push split: option.split)
  qed (simp add: resolve_optional_target_def)
  from acts_touched [OF this] assms a show ?thesis by auto
qed

lemma exec_mark_ambiguous_acts:
  assumes "scope \<in> set (eg_touched eg)"
  shows "acts env eg (exec_mark_ambiguous env rule causes path bindings scope eg)"
proof -
  obtain t eg1 where r: "resolve_target rule path bindings eg = (t, eg1)" by force
  note a = resolve_target_touched(1) [OF r assms, of env] resolve_target_touched(2) [OF r assms]
  show ?thesis
  proof (cases t)
    case (Some target)
    obtain created sg where m: "ambiguity_entry (ordered_pair (fst causes) (snd causes)) target
        (Suc (eg_next_node eg1)) (partition scope (eg_store eg1)) = (created, sg)" by force
    from acts_emit [OF acts_put [OF a sub_ambiguity [OF m]]]
    show ?thesis by (cases created) (simp_all add: exec_mark_ambiguous_def r Some Let_def on_partition_put m)
  qed (simp add: exec_mark_ambiguous_def r a acts_push)
qed

subsection \<open>The handlers, given how nested rules run\<close>

text \<open>Two ways to run a step that agree and only act on the engine, whatever the budget up to
  \<open>n\<close>, once the rule's scope is touched.\<close>

definition cascading ::
    "'s engine_env \<Rightarrow> nat \<Rightarrow> scope_id \<Rightarrow> ('s engine \<times> nat \<Rightarrow> 's engine \<times> nat)
      \<Rightarrow> ('s engine \<times> nat \<Rightarrow> 's engine \<times> nat) \<Rightarrow> bool" where
  "cascading env n sc h h' \<longleftrightarrow>
     (\<forall>st. sc \<in> set (eg_touched (fst st)) \<longrightarrow> snd st \<le> n \<longrightarrow>
        acts env (fst st) (fst (h st)) \<and> snd (h st) \<le> snd st \<and> h' st = h st)"

lemma cascadingD:
  assumes "cascading env n sc h h'" "sc \<in> set (eg_touched (fst st))" "snd st \<le> n"
  shows "acts env (fst st) (fst (h st))" "snd (h st) \<le> snd st" "h' st = h st"
    "sc' \<in> set (eg_touched (fst st)) \<Longrightarrow> sc' \<in> set (eg_touched (fst (h st)))"
proof -
  show a: "acts env (fst st) (fst (h st))" and "snd (h st) \<le> snd st" "h' st = h st"
    using assms unfolding cascading_def by blast+
  show "sc' \<in> set (eg_touched (fst (h st)))" if "sc' \<in> set (eg_touched (fst st))"
    using acts_touched [OF a] that by blast
qed

text \<open>A step that starts with acts and goes on with a cascading step.\<close>

lemma cascading_after:
  assumes "cascading env n sc h h'" "acts env (fst st) eg" "sc \<in> set (eg_touched eg)" "snd st \<le> n"
  shows "acts env (fst st) (fst (h (eg, snd st))) \<and> snd (h (eg, snd st)) \<le> snd st
     \<and> h' (eg, snd st) = h (eg, snd st)"
  using cascadingD [OF assms(1), of "(eg, snd st)"] assms(2-) by (auto intro: rtranclp_trans)

lemma cascading_comp:
  assumes "cascading env n sc h h'" "cascading env n sc k k'"
  shows "cascading env n sc (\<lambda>st. k (h st)) (\<lambda>st. k' (h' st))"
  unfolding cascading_def
proof (intro allI impI)
  fix st :: "'a engine \<times> nat"
  assume "sc \<in> set (eg_touched (fst st))" "snd st \<le> n"
  note 1 = cascadingD [OF assms(1) this] and t = this
  from 1(4) [OF t(1)] 1(2) t(2) have "sc \<in> set (eg_touched (fst (h st)))" "snd (h st) \<le> n" by auto
  from cascadingD [OF assms(2) this] 1
  show "acts env (fst st) (fst (k (h st))) \<and> snd (k (h st)) \<le> snd st \<and> k' (h' st) = k (h st)"
    by (auto intro: rtranclp_trans)
qed

lemma cascading_fold:
  assumes "\<And>x. cascading env n sc (h x) (h' x)"
  shows "cascading env n sc (fold h xs) (fold h' xs)"
proof (induction xs)
  case (Cons x xs)
  from cascading_comp [OF assms Cons] show ?case by (simp add: comp_def)
qed (simp add: cascading_def)

lemma cascading_acts:
  assumes "\<And>eg. sc \<in> set (eg_touched eg) \<Longrightarrow> acts env eg (h eg)"
  shows "cascading env n sc (map_prod h id) (map_prod h id)"
  using assms by (auto simp: cascading_def)

text \<open>The end of \<open>infer\<close> and of the roll-up.\<close>

lemma after_infer_cascading:
  assumes k: "\<And>snap. cascading env n sc (k snap) (k' snap)"
    and a: "acts env eg0 (put_partition sc sg (nodes_after r (eg_next_node eg)) eg)"
    and t: "sc \<in> set (eg_touched eg)" "b \<le> n"
    and st: "st = (put_partition sc sg (eg_next_node eg) eg, b)"
  shows "acts env eg0 (fst (after_infer r sc k st)) \<and> snd (after_infer r sc k st) \<le> b
     \<and> after_infer r sc k' st = after_infer r sc k st"
proof (cases r)
  case (Inferred snap created)
  let ?e = "put_partition sc sg (nodes_after r (eg_next_node eg)) eg"
  from cascadingD [OF k, of "(?e, b)"] t
  have "acts env ?e (fst (k snap (?e, b)))" "snd (k snap (?e, b)) \<le> b" "k' snap (?e, b) = k snap (?e, b)" by simp_all
  moreover from this(1) a have "acts env eg0 (fst (k snap (?e, b)))" by (metis rtranclp_trans)
  moreover have "after_infer r sc h st = h snap (?e, b)" for h
    by (simp add: after_infer_def Inferred st)
  ultimately show ?thesis by simp
qed (use a st in \<open>auto simp: after_infer_def intro: acts_push\<close>)

locale cascade =
  fixes env :: "'s engine_env" and f g :: "'s firing" and n :: nat
  assumes fire: "cascading env n sc (f rule b sc) (g rule b sc)"
begin

lemma fire_decision: "cascading env n sc (fire_decision env f b sc rule) (fire_decision env g b sc rule)"
  unfolding cascading_def
proof (intro allI impI)
  fix st :: "'s engine \<times> nat"
  assume t: "sc \<in> set (eg_touched (fst st))" "snd st \<le> n"
  obtain p eg where e: "eval_pred env rule (an_predicate (ru_anchor rule)) [Bound b] sc (fst st) = (p, eg)" by force
  then have a: "acts env (fst st) eg" by (rule acts_snd [OF eval_pred_acts])
  with t acts_touched have "sc \<in> set (eg_touched eg)" by blast
  from cascading_after [OF fire a this t(2)] a
  show "acts env (fst st) (fst (fire_decision env f b sc rule st)) \<and> snd (fire_decision env f b sc rule st) \<le> snd st
      \<and> fire_decision env g b sc rule st = fire_decision env f b sc rule st"
    by (simp add: fire_decision_def e split: option.split t3.split)
qed

lemma fire_decisions: "cascading env n sc (fire_decisions env f key b sc) (fire_decisions env g key b sc)"
  unfolding fire_decisions_def by (rule cascading_fold [OF fire_decision])

lemma on_confidence_mutation:
  "cascading env n sc (on_confidence_mutation env f snap sc) (on_confidence_mutation env g snap sc)"
  unfolding on_confidence_mutation_def
  by (rule cascading_comp [OF fire_decisions cascading_acts [OF synthesize_ambiguity_acts]])

lemma rollup_cause_to_parent:
  "cascading env n sc (rollup_cause_to_parent env f cause target child) (rollup_cause_to_parent env g cause target child)"
  unfolding cascading_def
proof (intro allI impI)
  fix st :: "'s engine \<times> nat"
  assume t: "snd st \<le> n"
  let ?eg = "touch target (fst st)"
  let ?store = "eg_store (fst st)"
  obtain r sg where r: "rollup_in_partition (max_causes (gs_limits ?store)) cause target
      (fold (child_confidence ?store cause target) (eg_touched (fst st)) conf_min)
      (map_option cn_id (hm_get (sg_causes (partition child ?store)) (cause, target))) (gs_watermark ?store)
      (Suc (eg_next_node (fst st))) (partition target ?store) = (r, sg)" by force
  have touched: "target \<in> set (eg_touched ?eg)" and same: "eg_store ?eg = ?store" "eg_next_node ?eg = eg_next_node (fst st)"
    by (simp_all add: touch_def)
  have "act env ?eg (put_partition target sg (nodes_after r (eg_next_node ?eg)) ?eg)"
    using r touched by (intro act_rollup) (simp_all add: same)
  then have "acts env (fst st) (put_partition target sg (nodes_after r (eg_next_node ?eg)) ?eg)"
    by (blast intro: acts_step act_touch)
  from after_infer_cascading [OF on_confidence_mutation this touched t refl]
  show "acts env (fst st) (fst (rollup_cause_to_parent env f cause target child st))
      \<and> snd (rollup_cause_to_parent env f cause target child st) \<le> snd st
      \<and> rollup_cause_to_parent env g cause target child st = rollup_cause_to_parent env f cause target child st"
    by (simp add: rollup_cause_to_parent_def Let_def on_partition_put r same)
qed

lemma exec_infer:
  "cascading env n sc (exec_infer env f rule cause path w evidence prov bindings anchor sc)
     (exec_infer env g rule cause path w evidence prov bindings anchor sc)"
  unfolding cascading_def
proof (intro allI impI)
  fix st :: "'s engine \<times> nat"
  assume t: "sc \<in> set (eg_touched (fst st))" "snd st \<le> n"
  let ?h = "\<lambda>fire. exec_infer env fire rule cause path w evidence prov bindings anchor sc"
  obtain p eg where p: "resolve_target rule path bindings (fst st) = (p, eg)" by force
  note a = resolve_target_touched(1) [OF p t(1), of env] resolve_target_touched(2) [OF p t(1)]
  show "acts env (fst st) (fst (?h f st)) \<and> snd (?h f st) \<le> snd st \<and> ?h g st = ?h f st"
  proof (cases p)
    case (Some target)
    let ?key = "\<lparr>rp_key = \<lparr>pk_rule = pk_rule prov, pk_cause = pk_cause prov,
                                pk_target_hash = mix_target (pk_target_hash prov) (hash_key target)\<rparr>,
                      rp_window = window_id (bound_time anchor) (li_dedup_window (gs_limits (eg_store eg)))\<rparr>"
    obtain r sg where r: "infer_in_partition (max_causes (gs_limits (eg_store eg))) cause target w ?key
        (evidence_endpoints rule evidence bindings) (bound_time anchor) (Suc (eg_next_node eg))
        (partition sc (eg_store eg)) = (r, sg)" by force
    define k where "k fire snap st1 =
        (let st2 = on_confidence_mutation env fire snap sc st1
         in if sc \<noteq> target \<and> is_subsumed_by (si_type sc) (si_type target)
            then rollup_cause_to_parent env fire cause target sc st2 else st2)" for fire snap st1
    have k: "cascading env n sc (k f snap) (k g snap)" for snap
    proof (cases "sc \<noteq> target \<and> is_subsumed_by (si_type sc) (si_type target)")
      case True
      then show ?thesis
        using cascading_comp [OF on_confidence_mutation rollup_cause_to_parent]
        by (simp add: k_def [abs_def] Let_def)
    next
      case False
      then show ?thesis using on_confidence_mutation by (simp add: k_def [abs_def] Let_def if_not_P)
    qed
    have h: "?h fire st = after_infer r sc (k fire) (put_partition sc sg (eg_next_node eg) eg, snd st)" for fire
      by (simp add: exec_infer_def p Some Let_def on_partition_put r k_def [abs_def])
    from after_infer_cascading [OF k acts_put [OF a sub_infer [OF r]] a(2) t(2) refl]
    show ?thesis by (simp add: h)
  qed (simp add: exec_infer_def p a acts_push)
qed

lemma on_problem_emission:
  "cascading env n sc (on_problem_emission env f snap sc) (on_problem_emission env g snap sc)"
  unfolding on_problem_emission_def by (rule fire_decisions)

lemma exec_emit_problem:
  "cascading env n sc (exec_emit_problem env f rule problem path sev evidence sarif bindings sc)
     (exec_emit_problem env g rule problem path sev evidence sarif bindings sc)"
  unfolding cascading_def
proof (intro allI impI)
  fix st :: "'s engine \<times> nat"
  assume t: "sc \<in> set (eg_touched (fst st))" "snd st \<le> n"
  let ?h = "\<lambda>fire. exec_emit_problem env fire rule problem path sev evidence sarif bindings sc"
  obtain p eg where p: "resolve_optional_target rule path bindings sc (fst st) = (p, eg)" by force
  have a: "acts env (fst st) eg" "sc \<in> set (eg_touched eg)"
    using resolve_optional_target_touched [OF p t(1)] by blast+
  show "acts env (fst st) (fst (?h f st)) \<and> snd (?h f st) \<le> snd st \<and> ?h g st = ?h f st"
  proof (cases p)
    case (Some target)
    let ?wm = "gs_watermark (eg_store eg)" and ?node = "Suc (eg_next_node eg)"
    let ?p = "\<lparr>pn_id = ?node, pn_kind = problem, pn_target = target, pn_time = ?wm, pn_severity = sev,
                    pn_evidence = evidence_nodes rule evidence bindings, pn_sarif_id = sarif,
                    pn_superseded = False\<rparr>"
    obtain created sg where e: "emit_in_partition (ru_id rule) ?wm (eg_cooldown eg) ?p (partition sc (eg_store eg))
        = (created, sg)" by force
    note put = acts_put [OF a sub_emit [OF e]]
    show ?thesis
    proof (cases created)
      case True
      let ?st = "(put_partition sc sg ?node eg, snd st)"
      let ?snap = "\<lparr>ps_node = ?node, ps_kind = problem, ps_target = target, ps_time = ?wm\<rparr>"
      have h: "?h fire st = on_problem_emission env fire ?snap sc ?st" for fire
        using e True by (simp add: exec_emit_problem_def p Some Let_def on_partition_put)
      have "acts env (fst st) (put_partition sc sg ?node eg)" using put True by simp
      from cascading_after [OF on_problem_emission this _ t(2)] a(2)
      show ?thesis by (simp add: h)
    next
      case False
      have h: "?h fire st = (put_partition sc sg (eg_next_node eg) eg, snd st)" for fire
        using e False by (simp add: exec_emit_problem_def p Some Let_def on_partition_put)
      show ?thesis using put False by (simp add: h)
    qed
  qed (simp add: exec_emit_problem_def p a)
qed

lemma exec_intent:
  "cascading env n sc (exec_intent env f rule bindings anchor sc x) (exec_intent env g rule bindings anchor sc x)"
proof (cases x)
  case (InferCause cause target w evidence prov pii)
  then show ?thesis using exec_infer by (simp add: cascading_def)
next
  case (EmitProblem problem target sev evidence sarif pii)
  then show ?thesis using exec_emit_problem by (simp add: cascading_def)
next
  case (EmitAction kind arg target reason evidence)
  then show ?thesis
    using cascading_acts [OF exec_action_acts] by (simp add: cascading_def)
next
  case (SupersedeProblem problem target)
  then show ?thesis
    using cascading_acts [OF exec_supersede_acts] by (simp add: cascading_def)
next
  case (MarkAmbiguous causes target)
  then show ?thesis
    using cascading_acts [OF exec_mark_ambiguous_acts] by (simp add: cascading_def)
qed

lemma run_body:
  "cascading env n sc (run_body env f rule anchor sc) (run_body env g rule anchor sc)"
  unfolding cascading_def
proof (intro allI impI)
  fix st :: "'s engine \<times> nat"
  assume t: "sc \<in> set (eg_touched (fst st))" "snd st \<le> n"
  obtain bindings eg1 where b: "resolve_bindings env rule anchor sc (fst st) = (bindings, eg1)" by force
  obtain body eg2 where c: "select_body env rule bindings sc (record_resolved_absent rule bindings anchor sc eg1)
      = (body, eg2)" by force
  note a = run_prefix_acts [OF b c]
  with t acts_touched have "sc \<in> set (eg_touched eg2)" by blast
  from cascading_after [OF cascading_fold [OF exec_intent] a this t(2)]
  show "acts env (fst st) (fst (run_body env f rule anchor sc st)) \<and> snd (run_body env f rule anchor sc st) \<le> snd st
      \<and> run_body env g rule anchor sc st = run_body env f rule anchor sc st"
    by (simp add: run_body_def b c exec_intents_def)
qed

end

subsection \<open>The depth of a firing\<close>

text \<open>By induction on the budget: a depth beyond it is never reached.\<close>

lemma run_rule_cascading:
  "n < d \<Longrightarrow> cascading env n sc (run_rule env (Suc n) rule anchor sc) (run_rule env d rule anchor sc)"
proof (induction n arbitrary: d rule anchor sc)
  case 0
  then obtain d' where "d = Suc d'" by (cases d) auto
  then show ?case by (auto simp: cascading_def intro: acts_push)
next
  case (Suc n)
  then obtain d' where d: "d = Suc d'" "n < d'" by (cases d) auto
  have "cascade env (run_rule env (Suc n)) (run_rule env d') n"
    by (rule cascade.intro) (rule Suc.IH [OF d(2)])
  note run = cascade.run_body [OF this, of sc rule anchor]
  show ?case unfolding d cascading_def
  proof (intro allI impI)
    fix st :: "'a engine \<times> nat"
    assume t: "sc \<in> set (eg_touched (fst st))" "snd st \<le> Suc n"
    show "acts env (fst st) (fst (run_rule env (Suc (Suc n)) rule anchor sc st))
        \<and> snd (run_rule env (Suc (Suc n)) rule anchor sc st) \<le> snd st
        \<and> run_rule env (Suc d') rule anchor sc st = run_rule env (Suc (Suc n)) rule anchor sc st"
    proof (cases st)
      case (Pair eg b)
      show ?thesis
      proof (cases b)
        case 0
        then show ?thesis by (auto simp: Pair intro: acts_push)
      next
        case (Suc b')
        from cascadingD [OF run, of "(eg, b')"] t
        show ?thesis by (simp add: Pair Suc del: run_rule.simps(1))
      qed
    qed
  qed
qed

end
