(* ===== verification/Adgl_Engine_Props.thy ===== *)
theory Adgl_Engine_Props
  imports Adgl_Cascade
begin

text \<open>
  What holds of every engine that any sequence of operations can reach: the cascade depth, the
  shape of the reasoning graph, the conservation of suspended matches, and what the end of the
  stream resolves.
\<close>

subsection \<open>Nested firings\<close>

interpretation nested: cascade env "run_rule env (Suc n)" "run_rule env (Suc (n + k))" n
  by unfold_locales (rule run_rule_cascading, simp)

lemma fire_rule_acts:
  assumes "sc \<in> set (eg_touched (fst st))"
  shows "acts env (fst st) (fst (fire_rule env rule b sc st))" "snd (fire_rule env rule b sc st) \<le> snd st"
  using cascadingD(1,2) [OF nested.fire [where n = "snd st" and k = 0], OF assms le_refl]
  by (simp_all add: fire_rule_def)

text \<open>C25: the nesting depth of the model is no bound of its own. A firing (an inferred cause fires
  decision rules, which infer causes, ...) ends within its budget: any depth above the budget
  gives the result that \<open>fire_rule\<close> gives, and the budget it returns never grows.\<close>

theorem cascade_depth_suffices:
  assumes "sc \<in> set (eg_touched eg)" "budget < depth"
  shows "run_rule env depth rule b sc (eg, budget) = fire_rule env rule b sc (eg, budget)
    \<and> snd (fire_rule env rule b sc (eg, budget)) \<le> budget"
  using nested.fire [where n = budget and k = "depth - Suc budget" and env = env and rule = rule and b = b and sc = sc] assms
  by (simp add: cascading_def fire_rule_def del: run_rule.simps)

subsection \<open>The sub-graphs\<close>

definition sg_nodes :: "subgraph \<Rightarrow> node_id list" where
  "sg_nodes sg = map (cn_id \<circ> snd) (sg_causes sg) @ map pn_id (sg_problems sg) @ map (am_id \<circ> snd) (sg_ambiguities sg)"

text \<open>A sub-graph: one cause per kind and target, filed under its own key, at most \<open>cap\<close> of them,
  confidences within 0..100, and no two nodes with one id.\<close>

definition sg_ok :: "nat \<Rightarrow> subgraph \<Rightarrow> bool" where
  "sg_ok cap sg \<longleftrightarrow>
     hm_inv (sg_causes sg) \<and> hm_inv (sg_ambiguities sg) \<and> length (sg_causes sg) \<le> cap \<and>
     (\<forall>(k, n)\<in>set (sg_causes sg). (cn_kind n, cn_target n) = k \<and> conf_ok (cn_confidence n)) \<and>
     distinct (sg_nodes sg)"

lemma hm_put_fresh: "hm_get m k = None \<Longrightarrow> hm_put k v m = m @ [(k, v)]"
  by (induction m) (auto simp: hm_get_def hm_put_def split: if_splits)

lemma hm_put_same:
  "hm_get m k = Some v0 \<Longrightarrow> f v = f v0 \<Longrightarrow> map (f \<circ> snd) (hm_put k v m) = map (f \<circ> snd) m"
  by (induction m) (auto simp: hm_get_def hm_put_def split: if_splits)

lemma hm_put_length_same: "hm_get m k = Some v0 \<Longrightarrow> length (hm_put k v m) = length m"
  by (simp add: hm_put_length hm_contains_def)

text \<open>What a mutation of a sub-graph keeps, when its nodes are numbered up to \<open>n\<close>.\<close>

definition sg_step :: "nat \<Rightarrow> nat \<Rightarrow> subgraph \<Rightarrow> nat \<Rightarrow> subgraph \<Rightarrow> bool" where
  "sg_step cap n sg n' sg' \<longleftrightarrow>
     (sg_ok cap sg \<and> (\<forall>i\<in>set (sg_nodes sg). i \<le> n) \<longrightarrow>
      sg_ok cap sg' \<and> n \<le> n' \<and> set (sg_nodes sg') \<subseteq> set (sg_nodes sg) \<union> {n<..n'})"

lemma sg_step_frame:
  assumes "sg_causes sg' = sg_causes sg" "sg_nodes sg' = sg_nodes sg" "hm_inv (sg_ambiguities sg) \<longrightarrow> hm_inv (sg_ambiguities sg')"
  shows "sg_step cap n sg n sg'"
  using assms by (auto simp: sg_step_def sg_ok_def)

text \<open>A cause is written under its key: an existing one keeps its id, a new one takes the next.\<close>

lemma sg_step_cause:
  assumes "cause_entry cause target t (Suc n) sg = (created, c)" "\<not> at_capacity cap cause target sg"
    and "cn_id c' = cn_id c" "cn_kind c' = cn_kind c" "cn_target c' = cn_target c" "conf_ok (cn_confidence c')"
    and "sg' = sg\<lparr>sg_causes := hm_put (cause, target) c' (sg_causes sg), sg_edges := es\<rparr>"
  shows "sg_step cap n sg (if created then Suc n else n) sg'"
  unfolding sg_step_def
proof (intro impI)
  assume pre: "sg_ok cap sg \<and> (\<forall>i\<in>set (sg_nodes sg). i \<le> n)"
  show "sg_ok cap sg' \<and> n \<le> (if created then Suc n else n)
      \<and> set (sg_nodes sg') \<subseteq> set (sg_nodes sg) \<union> {n<..if created then Suc n else n}"
  proof (cases "hm_get (sg_causes sg) (cause, target)")
    case None
    then have c: "created" "cn_id c' = Suc n" "cn_kind c' = cause" "cn_target c' = target"
      using assms by (auto simp: cause_entry_def)
    have nodes: "sg_nodes sg' = map (cn_id \<circ> snd) (sg_causes sg) @ Suc n # map pn_id (sg_problems sg) @ map (am_id \<circ> snd) (sg_ambiguities sg)"
      using None c by (simp add: assms(7) sg_nodes_def hm_put_fresh)
    have fresh: "Suc n \<notin> set (sg_nodes sg)" using pre by auto
    have "length (sg_causes sg) < cap" using assms(2) None by (simp add: at_capacity_def)
    then show ?thesis
      using pre fresh c None assms(6) hm.inv_put [of "sg_causes sg" "(cause, target)" c']
      unfolding sg_ok_def nodes by (auto simp: assms(7) hm_put_fresh sg_nodes_def)
  next
    case (Some c0)
    then have c: "\<not> created" "c = c0" using assms(1) by (auto simp: cause_entry_def)
    have nodes: "sg_nodes sg' = sg_nodes sg"
      using hm_put_same [OF Some, of cn_id c'] c assms(3) by (simp add: assms(7) sg_nodes_def)
    have "(cn_kind c0, cn_target c0) = (cause, target)"
      using pre hm_get_entry [OF Some] unfolding sg_ok_def by blast
    then have "\<forall>(k, m)\<in>set (sg_causes sg'). (cn_kind m, cn_target m) = k \<and> conf_ok (cn_confidence m)"
      using pre c assms(4-6) unfolding sg_ok_def assms(7) by (auto dest!: hm_put_entries)
    then show ?thesis
      using pre c hm.inv_put [of "sg_causes sg" "(cause, target)" c'] unfolding sg_ok_def nodes
      by (auto simp: assms(7) hm_put_length_same [OF Some])
  qed
qed

lemma sg_step_problem:
  assumes "pn_id p = Suc n" "sg_problems sg' = sg_problems sg @ [p]" "sg_causes sg' = sg_causes sg"
    "sg_ambiguities sg' = sg_ambiguities sg"
  shows "sg_step cap n sg (Suc n) sg'"
proof -
  obtain xs ys where n: "sg_nodes sg = xs @ ys" "sg_nodes sg' = xs @ Suc n # ys"
    by (rule that [of "map (cn_id \<circ> snd) (sg_causes sg) @ map pn_id (sg_problems sg)"
        "map (am_id \<circ> snd) (sg_ambiguities sg)"]) (simp_all add: assms sg_nodes_def)
  show ?thesis
    using assms(3,4) unfolding sg_step_def sg_ok_def n by (auto dest: bspec [of _ _ "Suc n"])
qed

lemma sg_step_ambiguity:
  assumes "hm_get (sg_ambiguities sg) k = None" "am_id a = Suc n" "sg_problems sg' = sg_problems sg"
    "sg_causes sg' = sg_causes sg" "sg_ambiguities sg' = hm_put k a (sg_ambiguities sg)"
  shows "sg_step cap n sg (Suc n) sg'"
proof -
  have nodes: "sg_nodes sg' = sg_nodes sg @ [Suc n]"
    using assms by (simp add: sg_nodes_def hm_put_fresh)
  show ?thesis
    using assms hm.inv_put [of "sg_ambiguities sg" k a] unfolding sg_step_def sg_ok_def nodes by auto
qed

lemma sg_step_trans: "sg_step cap n sg n1 sg1 \<Longrightarrow> sg_step cap n1 sg1 n2 sg2 \<Longrightarrow> sg_step cap n sg n2 sg2"
  unfolding sg_step_def by (fastforce simp: subset_iff)

lemma supersede_ids: "map pn_id (snd (supersede_list kind target ps)) = map pn_id ps"
  by (induction ps) (auto split: prod.split)

lemma apply_weight_ok [simp]: "conf_ok (apply_weight c w)"
  using apply_weight_value [of c w] by (simp add: conf_ok_def)

lemma infer_step:
  assumes "infer_in_partition cap cause target w key eps t (Suc n) sg = (r, sg')"
  shows "sg_step cap n sg (nodes_after r n) sg'"
proof (cases "at_capacity cap cause target sg")
  case False
  obtain new seen where p: "try_insert_provenance key sg = (new, sg\<lparr>sg_seen := seen\<rparr>)"
    by (cases "set_insert key (sg_seen sg)") (simp add: try_insert_provenance_def)
  let ?sg1 = "sg\<lparr>sg_seen := seen\<rparr>"
  have seen: "sg_step cap n sg n ?sg1" by (rule sg_step_frame) (simp_all add: sg_nodes_def)
  obtain created c where c: "cause_entry cause target t (Suc n) ?sg1 = (created, c)" by force
  show ?thesis
  proof (cases new)
    case True
    have cap: "\<not> at_capacity cap cause target ?sg1" using False by (simp add: at_capacity_def)
    have "sg_step cap n ?sg1 (if created then Suc n else n) sg'"
      by (rule sg_step_cause [OF c cap, where c' = "c\<lparr>cn_confidence := apply_weight (cn_confidence c) w,
            cn_provenance := cn_provenance c @ [key]\<rparr>"]) (use assms False True p c in \<open>auto simp: infer_in_partition_def Let_def\<close>)
    from sg_step_trans [OF seen this] show ?thesis
      using assms False True p c by (auto simp: infer_in_partition_def Let_def)
  qed (use assms False p seen in \<open>auto simp: infer_in_partition_def\<close>)
qed (use assms in \<open>auto simp: infer_in_partition_def intro!: sg_step_frame\<close>)

lemma rollup_step:
  assumes "rollup_in_partition cap cause target c child t (Suc n) sg = (r, sg')" "conf_ok c"
  shows "sg_step cap n sg (nodes_after r n) sg'"
proof (cases "at_capacity cap cause target sg")
  case False
  obtain created m where m: "cause_entry cause target t (Suc n) sg = (created, m)" by force
  have "sg_step cap n sg (if created then Suc n else n) sg'"
    by (rule sg_step_cause [OF m False, where c' = "m\<lparr>cn_confidence := c\<rparr>"]) (use assms False m in \<open>auto simp: rollup_in_partition_def Let_def\<close>)
  then show ?thesis using assms False m by (auto simp: rollup_in_partition_def Let_def)
qed (use assms in \<open>auto simp: rollup_in_partition_def intro!: sg_step_frame\<close>)

lemma try_mark_emitted_frame:
  "\<exists>new em. try_mark_emitted rule problem target wm cooldown sg = (new, sg\<lparr>sg_emitted := em\<rparr>)"
proof (cases "within_cooldown rule problem target wm cooldown (sg_emitted sg)")
  case True
  then show ?thesis by (intro exI [of _ False] exI [of _ "sg_emitted sg"]) (simp add: try_mark_emitted_def)
qed (auto simp: try_mark_emitted_def split: prod.split)

lemma sub_act_step: "sub_act cap n sg n' sg' \<Longrightarrow> sg_step cap n sg n' sg'"
proof (induction rule: sub_act.induct)
  case (sub_infer cause target w key eps t n sg r sg')
  then show ?case by (rule infer_step)
next
  case (sub_mark snap other pair wm n sg created sg')
  show ?case
  proof (cases "hm_get (sg_ambiguities sg) (pair, cs_target snap)")
    case None
    let ?a = "\<lparr>am_id = Suc n, am_causes = pair, am_target = cs_target snap, am_state = Active\<rparr>"
    let ?sg1 = "sg\<lparr>sg_ambiguities := hm_put (pair, cs_target snap) ?a (sg_ambiguities sg)\<rparr>"
    have "sg_step cap n sg (Suc n) ?sg1" by (rule sg_step_ambiguity [OF None]) simp_all
    moreover have "sg_step cap (Suc n) ?sg1 (Suc (Suc n)) sg'"
      by (rule sg_step_problem [of "last (sg_problems sg')"])
        (use sub_mark None in \<open>auto simp: mark_in_partition_def Let_def push_problem_def\<close>)
    ultimately have "sg_step cap n sg (Suc (Suc n)) sg'" by (rule sg_step_trans)
    then show ?thesis using sub_mark None by (auto simp: mark_in_partition_def Let_def)
  qed (use sub_mark in \<open>auto simp: mark_in_partition_def intro: sg_step_frame\<close>)
next
  case (sub_resolve n sg pair target)
  show ?case
  proof (cases "hm_get (sg_ambiguities sg) (pair, target)")
    case (Some a)
    then show ?thesis
      using hm_put_same [OF Some, of am_id "a\<lparr>am_state := Resolved\<rparr>"]
        hm.inv_put [of "sg_ambiguities sg" "(pair, target)"]
      by (intro sg_step_frame) (simp_all add: resolve_in_partition_def sg_nodes_def)
  qed (simp add: resolve_in_partition_def sg_step_frame)
next
  case (sub_emit rule wm cooldown p sg created sg' n)
  obtain new em where m: "try_mark_emitted rule (pn_kind p) (pn_target p) wm cooldown sg = (new, sg\<lparr>sg_emitted := em\<rparr>)"
    using try_mark_emitted_frame by blast
  have frame: "sg_step cap n sg n (sg\<lparr>sg_emitted := em\<rparr>)" by (rule sg_step_frame) (simp_all add: sg_nodes_def)
  show ?case
  proof (cases new)
    case True
    have "sg_step cap n sg (Suc n) sg'"
      by (rule sg_step_problem [OF sub_emit(2)])
        (use sub_emit(1) m True in \<open>auto simp: emit_in_partition_def push_problem_def\<close>)
    then show ?thesis using sub_emit(1) m True by (auto simp: emit_in_partition_def)
  qed (use sub_emit(1) m frame in \<open>auto simp: emit_in_partition_def\<close>)
next
  case (sub_supersede n sg problem target)
  show ?case
    using supersede_ids [of problem target "sg_problems sg"]
    by (cases "supersede_list problem target (sg_problems sg)", intro sg_step_frame)
      (simp_all add: supersede_problems_def sg_nodes_def)
next
  case (sub_ambiguity pair target n sg created sg')
  show ?case
  proof (cases "hm_get (sg_ambiguities sg) (pair, target)")
    case None
    let ?a = "\<lparr>am_id = Suc n, am_causes = pair, am_target = target, am_state = Active\<rparr>"
    have "sg_step cap n sg (Suc n) sg'"
      by (rule sg_step_ambiguity [OF None, of ?a]) (use sub_ambiguity None in \<open>auto simp: ambiguity_entry_def\<close>)
    then show ?thesis using sub_ambiguity None by (auto simp: ambiguity_entry_def)
  qed (use sub_ambiguity in \<open>auto simp: ambiguity_entry_def intro: sg_step_frame\<close>)
qed

subsection \<open>The engine's invariant\<close>

abbreviation nodes_of :: "'s engine \<Rightarrow> scope_id \<Rightarrow> node_id set" where
  "nodes_of eg sc \<equiv> set (sg_nodes (partition sc (eg_store eg)))"

definition graph_ok :: "store_limits \<Rightarrow> 's engine \<Rightarrow> bool" where
  "graph_ok li eg \<longleftrightarrow>
     (\<forall>sc. sg_ok (max_causes li) (partition sc (eg_store eg)) \<and> (\<forall>i\<in>nodes_of eg sc. i \<le> eg_next_node eg)) \<and>
     (\<forall>sc sc'. sc \<noteq> sc' \<longrightarrow> nodes_of eg sc \<inter> nodes_of eg sc' = {})"

definition scopes_ok :: "'s engine \<Rightarrow> bool" where
  "scopes_ok eg \<longleftrightarrow>
     fst ` set (gs_partitions (eg_store eg)) \<union> fst ` set (gs_rings (eg_store eg)) \<union> fst ` set (gs_pending (eg_store eg))
       \<subseteq> set (eg_touched eg)"

text \<open>The store is well-formed, every sub-graph is, node ids are unique in the whole graph and
  below the counter, and the engine has touched every scope it stores anything under.\<close>

definition engine_ok :: "store_limits \<Rightarrow> 's engine \<Rightarrow> bool" where
  "engine_ok li eg \<longleftrightarrow>
     store_inv li (eg_store eg) \<and> hm_inv (gs_partitions (eg_store eg)) \<and> graph_ok li eg \<and> scopes_ok eg"

lemma engine_ok_frame:
  assumes "engine_ok li eg" "eg_store eg' = eg_store eg" "eg_next_node eg' = eg_next_node eg"
    "set (eg_touched eg) \<subseteq> set (eg_touched eg')"
  shows "engine_ok li eg'"
  using assms by (auto simp: engine_ok_def graph_ok_def scopes_ok_def)

lemma engine_ok_store:
  assumes "engine_ok li eg" "store_inv li gs" "gs_partitions gs = gs_partitions (eg_store eg)"
    "fst ` set (gs_rings gs) \<union> fst ` set (gs_pending gs) \<subseteq> set (eg_touched eg)"
  shows "engine_ok li (eg\<lparr>eg_store := gs\<rparr>)"
  using assms by (auto simp: engine_ok_def graph_ok_def scopes_ok_def partition_def)

lemma scopes_okD:
  assumes "engine_ok li eg"
  shows "fst ` set (gs_rings (eg_store eg)) \<subseteq> set (eg_touched eg)"
    "fst ` set (gs_pending (eg_store eg)) \<subseteq> set (eg_touched eg)"
  using assms unfolding engine_ok_def scopes_ok_def by blast+

lemma partition_put:
  "partition sc' (eg_store (put_partition sc sg n eg)) = (if sc' = sc then sg else partition sc' (eg_store eg))"
  by (simp add: put_partition_def partition_def)

lemma engine_ok_put:
  assumes ok: "engine_ok li eg" and t: "sc \<in> set (eg_touched eg)"
    and step: "sg_step (max_causes li) (eg_next_node eg) (partition sc (eg_store eg)) n sg"
  shows "engine_ok li (put_partition sc sg n eg)"
proof -
  let ?eg = "put_partition sc sg n eg"
  have new: "sg_ok (max_causes li) sg" "eg_next_node eg \<le> n" "set (sg_nodes sg) \<subseteq> nodes_of eg sc \<union> {eg_next_node eg<..n}"
    using step ok unfolding sg_step_def engine_ok_def graph_ok_def by blast+
  have old: "\<forall>i\<in>nodes_of eg sc'. i \<le> eg_next_node eg" for sc'
    using ok by (simp add: engine_ok_def graph_ok_def)
  have disj: "nodes_of eg sc1 \<inter> nodes_of eg sc2 = {}" if "sc1 \<noteq> sc2" for sc1 sc2
    using ok that by (simp add: engine_ok_def graph_ok_def)
  have fresh: "set (sg_nodes sg) \<inter> nodes_of eg sc' = {}" if "sc' \<noteq> sc" for sc'
    using new(3) disj [OF that] old [of sc'] by fastforce
  have bound: "\<forall>i\<in>set (sg_nodes sg). i \<le> n"
  proof
    fix i assume "i \<in> set (sg_nodes sg)"
    with new(3) have "i \<in> nodes_of eg sc \<or> i \<le> n" by auto
    with old [of sc] new(2) show "i \<le> n" by (auto intro: le_trans)
  qed
  have graph: "graph_ok li ?eg"
    unfolding graph_ok_def partition_put put_partition_next
  proof (intro conjI allI impI)
    fix sc' show "sg_ok (max_causes li) (if sc' = sc then sg else partition sc' (eg_store eg))"
      using new(1) ok by (simp add: engine_ok_def graph_ok_def)
    show "\<forall>i\<in>set (sg_nodes (if sc' = sc then sg else partition sc' (eg_store eg))). i \<le> n"
      using bound new(2) old [of sc'] by (auto intro: le_trans)
    fix sc'' assume "sc' \<noteq> sc''"
    then show "set (sg_nodes (if sc' = sc then sg else partition sc' (eg_store eg)))
        \<inter> set (sg_nodes (if sc'' = sc then sg else partition sc'' (eg_store eg))) = {}"
      using fresh [of sc'] fresh [of sc''] disj by (auto simp: Int_commute)
  qed
  have "store_inv li (eg_store ?eg)" "hm_inv (gs_partitions (eg_store ?eg))"
    using ok unfolding engine_ok_def store_inv_def by (simp_all add: put_partition_def hm.inv_put)
  moreover have "scopes_ok ?eg"
    using ok t by (auto simp: engine_ok_def scopes_ok_def put_partition_def dest!: hm_put_entries)
  ultimately show ?thesis using graph by (simp add: engine_ok_def)
qed

lemma child_confidence_ok:
  assumes "\<And>sc. sg_ok cap (partition sc gs)" "conf_ok c"
  shows "conf_ok (child_confidence gs cause parent sc c)"
proof (cases "hm_get (sg_causes (partition sc gs)) (cause, parent)")
  case (Some n)
  with assms(1) [of sc] hm_get_entry [OF Some] have "conf_ok (cn_confidence n)"
    unfolding sg_ok_def by blast
  with Some assms(2) show ?thesis by (simp add: child_confidence_def)
qed (simp add: child_confidence_def assms(2))

lemma act_ok: "act env eg eg' \<Longrightarrow> engine_ok li eg \<Longrightarrow> engine_ok li eg'"
proof (induction rule: act.induct)
  case (act_part eg sc n sg)
  then have "max_causes (gs_limits (eg_store eg)) = max_causes li" by (simp add: engine_ok_def store_inv_def)
  with act_part show ?case using sub_act_step engine_ok_put by metis
next
  case (act_rollup eg cause sc scs child t r sg)
  let ?c = "fold (child_confidence (eg_store eg) cause sc) scs conf_min"
  have lim: "max_causes (gs_limits (eg_store eg)) = max_causes li"
    using act_rollup by (simp add: engine_ok_def store_inv_def)
  have sg: "sg_ok (max_causes li) (partition s (eg_store eg))" for s
    using act_rollup by (simp add: engine_ok_def graph_ok_def)
  have "conf_ok c \<Longrightarrow> conf_ok (fold (child_confidence (eg_store eg) cause sc) scs c)" for c
    by (induction scs arbitrary: c) (simp_all add: child_confidence_ok [OF sg])
  then have "conf_ok ?c" by (simp add: conf_ok_def conf_min_def)
  from engine_ok_put [OF act_rollup(3,2) rollup_step [OF act_rollup(1) [unfolded lim] this]]
  show ?case .
qed (erule engine_ok_frame, auto simp: push_diag_def emit_action_def touch_def)+

lemma acts_ok: "acts env eg eg' \<Longrightarrow> engine_ok li eg \<Longrightarrow> engine_ok li eg'"
  by (induction rule: rtranclp_induct) (auto intro: act_ok)

subsection \<open>Operations keep the invariant\<close>

lemma partition_gc:
  "partition sc (snd (store_gc wm lb gs)) = snd (prune_provenance wm lb (li_dedup_window (gs_limits gs)) (partition sc gs))"
  by (simp add: partition_def store_gc_def hm_get_map prune_provenance_def subgraph_new_def Let_def split: option.split)

lemma partition_prune_emitted:
  "partition sc (snd (store_prune_emitted wm c gs)) = snd (sg_prune_emitted wm c (partition sc gs))"
  by (simp add: partition_def store_prune_emitted_def hm_get_map sg_prune_emitted_def subgraph_new_def Let_def split: option.split)

lemma map_keys: "fst ` set (map (\<lambda>(k, v). (k, f k v)) m) = fst ` set m"
  by force

lemma store_gc_keys:
  "fst ` set (gs_partitions (snd (store_gc wm lb gs))) = fst ` set (gs_partitions gs)"
  "fst ` set (gs_rings (snd (store_gc wm lb gs))) = fst ` set (gs_rings gs)"
  "gs_pending (snd (store_gc wm lb gs)) = gs_pending gs"
  "hm_inv (gs_partitions (snd (store_gc wm lb gs))) = hm_inv (gs_partitions gs)"
  by (simp_all add: store_gc_def map_keys hm_inv_map del: set_map)

lemma store_prune_keys:
  "fst ` set (gs_partitions (snd (store_prune_emitted wm c gs))) = fst ` set (gs_partitions gs)"
  "gs_rings (snd (store_prune_emitted wm c gs)) = gs_rings gs"
  "gs_pending (snd (store_prune_emitted wm c gs)) = gs_pending gs"
  "hm_inv (gs_partitions (snd (store_prune_emitted wm c gs))) = hm_inv (gs_partitions gs)"
  by (simp_all add: store_prune_emitted_def map_keys hm_inv_map del: set_map)

lemma gc_sweep_ok:
  assumes "engine_ok li eg"
  shows "engine_ok li (gc_sweep wm eg)"
proof -
  let ?gs1 = "snd (store_gc wm (li_max_lookback (gs_limits (eg_store eg))) (eg_store eg))"
  let ?gs2 = "snd (store_prune_emitted wm (eg_cooldown eg) ?gs1)"
  have e: "gc_sweep wm eg = eg\<lparr>eg_store := ?gs2\<rparr>" by (simp add: gc_sweep_def Let_def)
  have part: "partition sc ?gs2 = snd (sg_prune_emitted wm (eg_cooldown eg) (snd (prune_provenance wm
      (li_max_lookback (gs_limits (eg_store eg))) (li_dedup_window (gs_limits (eg_store eg))) (partition sc (eg_store eg)))))" for sc
    by (simp add: partition_gc partition_prune_emitted)
  have nodes: "sg_nodes (partition sc ?gs2) = sg_nodes (partition sc (eg_store eg))" for sc
    by (simp add: part sg_nodes_def sg_prune_emitted_def prune_provenance_def Let_def)
  have sg: "sg_ok cap (partition sc ?gs2) = sg_ok cap (partition sc (eg_store eg))" for cap sc
    unfolding sg_ok_def nodes by (simp add: part sg_prune_emitted_def prune_provenance_def Let_def)
  have inv: "store_inv li ?gs2"
    by (rule store.inv_step [of _ ?gs1 "OpPruneEmitted wm (eg_cooldown eg)"])
      (use assms store_gc_inv in \<open>auto simp: engine_ok_def\<close>)
  have keys: "fst ` set (gs_partitions ?gs2) = fst ` set (gs_partitions (eg_store eg))"
      "fst ` set (gs_rings ?gs2) = fst ` set (gs_rings (eg_store eg))"
      "gs_pending ?gs2 = gs_pending (eg_store eg)"
      "hm_inv (gs_partitions ?gs2) = hm_inv (gs_partitions (eg_store eg))"
    by (simp_all add: store_gc_keys store_prune_keys)
  show ?thesis
    using assms inv keys unfolding e engine_ok_def graph_ok_def scopes_ok_def by (simp add: nodes sg)
qed

lemma fire_rule_ok:
  "engine_ok li (fst st) \<Longrightarrow> sc \<in> set (eg_touched (fst st)) \<Longrightarrow> engine_ok li (fst (fire_rule env rule b sc st))"
  using acts_ok fire_rule_acts(1) by blast

text \<open>Acts of a match that resumes, up to the count of resumed matches.\<close>

lemma resume_match_cases:
  assumes "pm_scope m \<in> set (eg_touched eg)"
  obtains (lost) d where "resume_match env m eg = push_diag d eg" "is_lost d"
  | (resumed) "acts env (eg\<lparr>eg_resumed := Suc (eg_resumed eg)\<rparr>) (resume_match env m eg)"
proof (cases "Option.bind (store_ring (pm_scope m) (eg_store eg)) (ring_get (pm_anchor_event m))")
  case None
  then show ?thesis by (intro lost [of "MissingAnchor (pm_rule m)"]) (simp_all add: resume_match_def)
next
  case (Some e)
  show ?thesis
  proof (cases "find (\<lambda>r. ru_id r = pm_rule m) (im_rules (ev_image env))")
    case None
    with Some show ?thesis by (intro lost [of "RuleNotInImage (pm_rule m)"]) (simp_all add: resume_match_def)
  next
    case (Some rule)
    let ?st = "(eg\<lparr>eg_resumed := Suc (eg_resumed eg)\<rparr>, max_firings (gs_limits (eg_store eg)))"
    have "acts env (fst ?st) (fst (fire_rule env rule (BEvent e) (pm_scope m) ?st))"
      by (rule fire_rule_acts(1)) (simp add: assms)
    then show ?thesis
      using Some \<open>Option.bind _ _ = Some e\<close> by (intro resumed) (simp add: resume_match_def)
  qed
qed

lemma resume_match_touched:
  assumes "pm_scope m \<in> set (eg_touched eg)"
  shows "set (eg_touched eg) \<subseteq> set (eg_touched (resume_match env m eg))"
proof (rule resume_match_cases [OF assms, of env])
  assume "acts env (eg\<lparr>eg_resumed := Suc (eg_resumed eg)\<rparr>) (resume_match env m eg)"
  from acts_touched [OF this] show ?thesis by simp
qed (simp add: push_diag_def)

text \<open>Something kept by each match of a list is kept by the loop over it.\<close>

lemma resume_fold:
  assumes "\<And>m eg. m \<in> set ms \<Longrightarrow> pm_scope m \<in> set (eg_touched eg) \<Longrightarrow> P eg \<Longrightarrow> P (resume_match env m eg)"
    and "pm_scope ` set ms \<subseteq> set (eg_touched eg)" "P eg"
  shows "P (fold (resume_match env) ms eg) \<and> set (eg_touched eg) \<subseteq> set (eg_touched (fold (resume_match env) ms eg))"
  using assms
proof (induction ms arbitrary: eg)
  case (Cons m ms)
  from Cons.prems(2) have m: "pm_scope m \<in> set (eg_touched eg)" by simp
  note t = resume_match_touched [OF m, of env]
  have "pm_scope ` set ms \<subseteq> set (eg_touched (resume_match env m eg))" using Cons.prems(2) t by auto
  moreover have "P (resume_match env m eg)" using Cons.prems(1) [OF _ m Cons.prems(3)] by simp
  ultimately show ?case using Cons.IH [of "resume_match env m eg"] Cons.prems(1) t by auto
qed simp

lemma resume_match_ok:
  assumes "engine_ok li eg" "pm_scope m \<in> set (eg_touched eg)"
  shows "engine_ok li (resume_match env m eg)"
proof (rule resume_match_cases [OF assms(2), of env])
  assume "acts env (eg\<lparr>eg_resumed := Suc (eg_resumed eg)\<rparr>) (resume_match env m eg)"
  then show ?thesis by (rule acts_ok) (rule engine_ok_frame [OF assms(1)], simp_all)
qed (use assms(1) in \<open>auto simp: push_diag_def intro: engine_ok_frame\<close>)

lemma popped_scopes:
  assumes "engine_ok li eg"
  shows "pm_scope ` set (fst (pop_expired wm (eg_store eg))) \<subseteq> set (eg_touched eg)"
proof -
  have "pm_scope m \<in> set (eg_touched eg)"
    if "(sc, q) \<in> set (gs_pending (eg_store eg))" "m \<in> set (fst (wq_pop_expired wm q))" for sc q m
  proof -
    have "m \<in> set (wq_heap q)"
      using that(2) by (auto simp: wq_pop_expired_def pop_while_eq dest: set_takeWhileD)
    with that(1) assms have "pm_scope m = sc" by (auto simp: engine_ok_def dest: store_inv_queue)
    with that(1) assms show ?thesis by (force simp: engine_ok_def scopes_ok_def)
  qed
  then show ?thesis by (auto simp: pop_expired_def)
qed

lemma pop_expired_keys:
  "gs_partitions (snd (pop_expired wm gs)) = gs_partitions gs"
  "gs_rings (snd (pop_expired wm gs)) = gs_rings gs"
  "fst ` set (gs_pending (snd (pop_expired wm gs))) = fst ` set (gs_pending gs)"
  by (simp_all add: pop_expired_def map_keys del: set_map)

lemma resume_expired_ok:
  assumes "engine_ok li eg"
  shows "engine_ok li (resume_expired env wm eg) \<and> set (eg_touched eg) \<subseteq> set (eg_touched (resume_expired env wm eg))"
proof -
  obtain ms gs where p: "pop_expired wm (eg_store eg) = (ms, gs)" by force
  have "store_inv li gs" using store_pop_inv [of li "eg_store eg" wm] assms p by (simp add: engine_ok_def)
  moreover have "gs_partitions gs = gs_partitions (eg_store eg)"
    and "gs_rings gs = gs_rings (eg_store eg)" "fst ` set (gs_pending gs) = fst ` set (gs_pending (eg_store eg))"
    using pop_expired_keys [of wm "eg_store eg"] by (simp_all add: p)
  ultimately have "engine_ok li (eg\<lparr>eg_store := gs\<rparr>)"
    using assms by (intro engine_ok_store) (auto simp: engine_ok_def scopes_ok_def)
  moreover have "pm_scope ` set ms \<subseteq> set (eg_touched (eg\<lparr>eg_store := gs\<rparr>))"
    using popped_scopes [OF assms, of wm] p by simp
  moreover have "engine_ok li (resume_match env m eg')"
    if "m \<in> set ms" "pm_scope m \<in> set (eg_touched eg')" "engine_ok li eg'" for m eg'
    using resume_match_ok [OF that(3,2)] .
  ultimately show ?thesis
    using resume_fold [of ms "engine_ok li" env "eg\<lparr>eg_store := gs\<rparr>"] by (simp add: resume_expired_def p)
qed

lemma keys_step: "A \<subseteq> insert x B \<Longrightarrow> x \<in> T \<Longrightarrow> B \<subseteq> T \<Longrightarrow> A \<subseteq> T"
  by blast

lemma suspend_match_ok:
  assumes "engine_ok li eg" "pm_scope p \<in> set (eg_touched eg)"
  shows "engine_ok li (suspend_match p eg) \<and> eg_touched (suspend_match p eg) = eg_touched eg"
proof -
  obtain spill gs where s: "suspend p (eg_store eg) = (spill, gs)" by force
  have inv: "store_inv li gs" using store_suspend_inv [of li "eg_store eg" p] assms s by (simp add: engine_ok_def)
  have g: "gs_partitions gs = gs_partitions (eg_store eg)" "gs_rings gs = gs_rings (eg_store eg)"
    and k: "fst ` set (gs_pending gs) \<subseteq> insert (pm_scope p) (fst ` set (gs_pending (eg_store eg)))"
    using s by (auto simp: suspend_def Let_def image_iff split: prod.splits dest!: hm_put_entries)
  have "fst ` set (gs_rings gs) \<union> fst ` set (gs_pending gs) \<subseteq> set (eg_touched eg)"
    using scopes_okD [OF assms(1)] keys_step [OF k assms(2)] by (simp add: g)
  then have "engine_ok li (eg\<lparr>eg_store := gs\<rparr>)" by (rule engine_ok_store [OF assms(1) inv g(1)])
  then have "engine_ok li (suspend_match p eg)"
    by (rule engine_ok_frame) (auto simp: suspend_match_def s push_store_diag_def push_diag_def split: option.split)
  then show ?thesis by (simp add: suspend_match_def s push_store_diag_def push_diag_def split: option.split)
qed

lemma match_anchor_ok:
  assumes "engine_ok li (fst st)" "en_scope e \<in> set (eg_touched (fst st))"
  shows "engine_ok li (fst (match_anchor env e wm rule st))
    \<and> en_scope e \<in> set (eg_touched (fst (match_anchor env e wm rule st)))"
proof -
  obtain p eg where e: "eval_pred env rule (an_predicate (ru_anchor rule)) [Bound (BEvent e)] (en_scope e) (fst st) = (p, eg)"
    by force
  then have a: "acts env (fst st) eg" by (rule acts_snd [OF eval_pred_acts])
  have ok: "engine_ok li eg" "en_scope e \<in> set (eg_touched eg)"
    using acts_ok [OF a assms(1)] acts_touched [OF a] assms(2) by auto
  let ?p = "\<lparr>pm_rule = ru_id rule, pm_anchor_event = en_id e,
      pm_upper_bound = time_add (en_time e) (rule_max_forward rule), pm_scope = en_scope e\<rparr>"
  note f = fire_rule_ok [of li "(eg, snd st)" "en_scope e" env rule "BEvent e"]
    acts_touched [OF fire_rule_acts(1) [of "en_scope e" "(eg, snd st)" env rule "BEvent e"]]
  show ?thesis
    using ok f suspend_match_ok [of li eg ?p] by (auto simp: match_anchor_def e Let_def split: option.split t3.split)
qed

lemma match_anchors_ok:
  assumes "engine_ok li eg" "en_scope e \<in> set (eg_touched eg)"
  shows "engine_ok li (match_anchors env e wm eg)"
proof -
  have "engine_ok li (fst (fold (match_anchor env e wm) rs st)) \<and> en_scope e \<in> set (eg_touched (fst (fold (match_anchor env e wm) rs st)))"
    if "engine_ok li (fst st)" "en_scope e \<in> set (eg_touched (fst st))" for rs st
    using that by (induction rs arbitrary: st) (simp_all add: match_anchor_ok)
  with assms show ?thesis by (simp add: match_anchors_def)
qed

lemma store_advance_touched [simp]: "eg_touched (snd (store_advance t eg)) = eg_touched eg"
  by (simp add: store_advance_def split: prod.split)

lemma store_advance_ok:
  assumes "engine_ok li eg"
  shows "engine_ok li (snd (store_advance t eg))"
proof -
  have "engine_ok li (eg\<lparr>eg_store := snd (advance_watermark t (eg_store eg))\<rparr>)"
    using assms by (intro engine_ok_store)
      (auto simp: engine_ok_def store_inv_def scopes_ok_def advance_watermark_def Let_def)
  then show ?thesis by (cases "advance_watermark t (eg_store eg)") (simp add: store_advance_def)
qed

lemma advance_live_touched [simp]: "eg_touched (snd (advance_live_watermark sc t eg)) = eg_touched eg"
  by (simp add: advance_live_watermark_def Let_def advance_wall_def)

lemma advance_live_ok:
  assumes "engine_ok li eg"
  shows "engine_ok li (snd (advance_live_watermark sc t eg))"
proof -
  have "engine_ok li ((advance_wall t eg)\<lparr>eg_sources := s\<rparr>)" for s
    by (rule engine_ok_frame [OF assms]) (simp_all add: advance_wall_def)
  then show ?thesis unfolding advance_live_watermark_def Let_def by (rule store_advance_ok)
qed

lemma push_event_ok:
  assumes "engine_ok li eg" "en_scope e \<in> set (eg_touched eg)"
  shows "engine_ok li (push_store_diag d (eg\<lparr>eg_store := snd (push_event e (eg_store eg))\<rparr>))"
proof -
  let ?gs = "snd (push_event e (eg_store eg))"
  have inv: "store_inv li ?gs" using store_push_event_inv assms by (simp add: engine_ok_def)
  have g: "gs_partitions ?gs = gs_partitions (eg_store eg)" "gs_pending ?gs = gs_pending (eg_store eg)"
    and k: "fst ` set (gs_rings ?gs) \<subseteq> insert (en_scope e) (fst ` set (gs_rings (eg_store eg)))"
    by (auto simp: push_event_def Let_def image_iff split: prod.splits dest!: hm_put_entries)
  have "fst ` set (gs_rings ?gs) \<union> fst ` set (gs_pending ?gs) \<subseteq> set (eg_touched eg)"
    using scopes_okD [OF assms(1)] keys_step [OF k assms(2)] by (simp add: g)
  then have "engine_ok li (eg\<lparr>eg_store := ?gs\<rparr>)" by (rule engine_ok_store [OF assms(1) inv g(1)])
  then show ?thesis
    by (rule engine_ok_frame) (auto simp: push_store_diag_def push_diag_def split: option.split)
qed

lemma accept_event_ok:
  assumes "engine_ok li eg" "en_scope e \<in> set (eg_touched eg)"
  shows "engine_ok li (accept_event env e eg)"
proof -
  obtain wm eg1 where w: "(case ev_mode env of Offline \<Rightarrow> store_advance (en_time e) eg
            | Live \<Rightarrow> advance_live_watermark (en_scope e) (en_time e) eg) = (wm, eg1)" by force
  have ok: "engine_ok li eg1" "en_scope e \<in> set (eg_touched eg1)"
    using arg_cong [OF w, of snd] store_advance_ok [OF assms(1), of "en_time e"]
      advance_live_ok [OF assms(1), of "en_scope e" "en_time e"] assms(2)
    by (cases "ev_mode env"; auto)+
  obtain spill gs where p: "push_event e (eg_store eg1) = (spill, gs)" by force
  let ?eg2 = "push_store_diag spill (eg1\<lparr>eg_store := gs\<rparr>)"
  have 2: "engine_ok li ?eg2" "en_scope e \<in> set (eg_touched ?eg2)"
    using push_event_ok [OF ok, of spill] ok p by (auto simp: push_store_diag_def push_diag_def split: option.split)
  note 3 = resume_expired_ok [OF 2(1), of env wm]
  have "engine_ok li (gc_sweep wm (resume_expired env wm ?eg2))" using 3 gc_sweep_ok by blast
  moreover have "en_scope e \<in> set (eg_touched (gc_sweep wm (resume_expired env wm ?eg2)))"
    using 2(2) 3 by (auto simp: gc_sweep_def Let_def)
  ultimately show ?thesis by (simp add: accept_event_def w p match_anchors_ok)
qed

lemma note_event_ok:
  "engine_ok li eg \<Longrightarrow> engine_ok li (note_event e eg)" "en_scope e \<in> set (eg_touched (note_event e eg))"
  by (rule engine_ok_frame, auto simp: note_event_def touch_def)

lemma ingest_ok:
  assumes "engine_ok li eg"
  shows "engine_ok li (ingest env e eg)"
proof -
  let ?eg = "note_event e eg"
  note n = note_event_ok(1) [OF assms, of e] note_event_ok(2) [of e eg]
  have "engine_ok li (audit_offline_late_evidence e wm ?eg)"
      "en_scope e \<in> set (eg_touched (audit_offline_late_evidence e wm ?eg))" for wm
    using n by (auto simp: audit_offline_late_evidence_def push_diag_def split: option.split intro: engine_ok_frame)
  moreover have "engine_ok li (drop_late e ?eg)"
    using n(1) by (rule engine_ok_frame) (simp_all add: drop_late_def push_diag_def)
  ultimately show ?thesis using n by (simp add: ingest_def Let_def accept_event_ok)
qed

lemma engine_advance_ok: "engine_ok li eg \<Longrightarrow> engine_ok li (engine_advance_watermark env t eg)"
  using store_advance_ok [of li eg t]
  by (auto simp: engine_advance_watermark_def gc_sweep_ok resume_expired_ok split: prod.split)

interpretation adgl: op_system "adgl_apply env" "engine_ok li"
proof
  fix s t :: "'a engine" and x
  assume ok: "engine_ok li s" and "adgl_apply env x s = Some t"
  moreover have "engine_ok li (finish env s)"
    using ok engine_advance_ok [of li "s\<lparr>eg_finished := True\<rparr>" env] engine_ok_frame [OF ok, of "s\<lparr>eg_finished := True\<rparr>"]
    by (auto simp: finish_def Let_def split: option.split)
  moreover have "engine_ok li (advance_wall_clock env u s)" "engine_ok li (snd (engine_intern sc s))" for u sc
    by (rule engine_ok_frame [OF ok]; simp add: advance_wall_clock_def advance_wall_def engine_intern_def split: prod.split)+
  ultimately show "engine_ok li t" by (cases x) (auto simp: ingest_ok engine_advance_ok)
qed

lemma adgl_new_ok: "engine_ok li (adgl_new env sink li)"
  using store_new_inv [of li]
  by (simp add: engine_ok_def graph_ok_def scopes_ok_def adgl_new_def store_new_def partition_def subgraph_new_def
      sg_ok_def sg_nodes_def)

lemmas adgl_reach = adgl.inv_run [OF _ adgl_new_ok]

definition node_ids :: "scope_id \<Rightarrow> 's engine \<Rightarrow> u64 list" where
  "node_ids sc eg = map node_u64 (sg_nodes (partition sc (eg_store eg)))"

lemma node_u64_small: "i < 2 ^ 64 \<Longrightarrow> unat (node_u64 i) = i"
  by (simp add: node_u64_def unat_of_nat)

lemma node_u64_inj: "i < 2 ^ 64 \<Longrightarrow> j < 2 ^ 64 \<Longrightarrow> node_u64 i = node_u64 j \<longleftrightarrow> i = j"
  by (metis node_u64_small)

lemma unat_node_u64: "unat (node_u64 i) \<le> i"
  by (simp add: node_u64_def unat_of_nat)

text \<open>C22: the reasoning graph. Whatever sequence of operations the engine has run, every scope holds
  at most \<open>max_causes_per_scope\<close> causes, each filed under its own kind and target with a confidence
  of at most 100; every scope with a sub-graph, a ring buffer or a wait queue has been touched; and
  as long as fewer than \<open>2^64\<close> nodes were created, no two nodes of the whole graph have the same
  64-bit id and the counter is ahead of them all.\<close>

theorem engine_well_formed:
  assumes "run_ops (adgl_apply env) ops (adgl_new env sink li) = Some eg"
  shows "length (sg_causes (partition sc (eg_store eg))) \<le> max_causes li
    \<and> (\<forall>cause target n. hm_get (sg_causes (partition sc (eg_store eg))) (cause, target) = Some n \<longrightarrow>
         cn_kind n = cause \<and> cn_target n = target \<and> conf_value (cn_confidence n) \<le> 100)
    \<and> (hm_contains (gs_partitions (eg_store eg)) sc \<or> store_ring sc (eg_store eg) \<noteq> None \<or>
         pending_len sc (eg_store eg) \<noteq> 0 \<longrightarrow> sc \<in> set (eg_touched eg))
    \<and> (eg_next_node eg < 2 ^ 64 \<longrightarrow>
         distinct (node_ids sc eg) \<and> (\<forall>sc'. sc' \<noteq> sc \<longrightarrow> set (node_ids sc eg) \<inter> set (node_ids sc' eg) = {}) \<and>
         (\<forall>i\<in>set (node_ids sc eg). unat i \<le> eg_next_node eg))"
proof -
  have ok: "engine_ok li eg" by (rule adgl_reach [OF assms])
  then have sg: "sg_ok (max_causes li) (partition sc (eg_store eg))"
    and n: "\<And>sc. \<forall>i\<in>nodes_of eg sc. i \<le> eg_next_node eg"
    and disj: "\<forall>sc'. sc' \<noteq> sc \<longrightarrow> nodes_of eg sc \<inter> nodes_of eg sc' = {}"
    unfolding engine_ok_def graph_ok_def by blast+
  have "cn_kind m = cause \<and> cn_target m = target \<and> conf_value (cn_confidence m) \<le> 100"
    if "hm_get (sg_causes (partition sc (eg_store eg))) (cause, target) = Some m" for cause target m
  proof -
    have "(cn_kind m, cn_target m) = (cause, target) \<and> conf_ok (cn_confidence m)"
      using sg hm_get_entry [OF that] unfolding sg_ok_def by blast
    then show ?thesis by (simp add: conf_ok_def)
  qed
  moreover have "sc \<in> set (eg_touched eg)" if "hm_contains (gs_partitions (eg_store eg)) sc \<or>
      store_ring sc (eg_store eg) \<noteq> None \<or> pending_len sc (eg_store eg) \<noteq> 0"
  proof -
    have "sc \<in> fst ` set (gs_partitions (eg_store eg)) \<union> fst ` set (gs_rings (eg_store eg)) \<union> fst ` set (gs_pending (eg_store eg))"
      using that by (auto simp: hm_contains_def store_ring_def pending_len_def split: option.splits
          dest!: hm_get_entry intro: rev_image_eqI)
    with ok show ?thesis unfolding engine_ok_def scopes_ok_def by blast
  qed
  moreover have "distinct (node_ids sc eg) \<and> (\<forall>sc'. sc' \<noteq> sc \<longrightarrow> set (node_ids sc eg) \<inter> set (node_ids sc' eg) = {}) \<and>
      (\<forall>i\<in>set (node_ids sc eg). unat i \<le> eg_next_node eg)" if few: "eg_next_node eg < 2 ^ 64"
  proof -
    have small: "i \<in> nodes_of eg s \<Longrightarrow> i < 2 ^ 64" for i s
      using n [of s] few by fastforce
    have "inj_on node_u64 (nodes_of eg sc)" using small node_u64_inj by (meson inj_onI)
    moreover have "distinct (sg_nodes (partition sc (eg_store eg)))" using sg by (simp add: sg_ok_def)
    moreover have "set (node_ids sc eg) \<inter> set (node_ids sc' eg) = {}" if "sc' \<noteq> sc" for sc'
    proof -
      have "node_u64 i \<noteq> node_u64 j" if "i \<in> nodes_of eg sc" "j \<in> nodes_of eg sc'" for i j
        using disj \<open>sc' \<noteq> sc\<close> that node_u64_inj [OF small small, OF that] by blast
      then show ?thesis by (auto simp: node_ids_def)
    qed
    moreover have "unat (node_u64 i) \<le> eg_next_node eg" if "i \<in> nodes_of eg sc" for i
      using n [of sc] that unat_node_u64 [of i] by (meson le_trans)
    ultimately show ?thesis by (auto simp: node_ids_def distinct_map)
  qed
  ultimately show ?thesis using sg by (simp add: sg_ok_def)
qed

end
