(* ===== verification/Adgl_Engine_Run.thy ===== *)
theory Adgl_Engine_Run
  imports Adgl_Engine_Props
begin

text \<open>
  The life of a suspended match, over every run of the engine: none is lost without a
  diagnostic, and the end of the stream resolves them all. Then the watermark policies and the
  semantics of a correlation.
\<close>

subsection \<open>Conservation of suspended matches\<close>

definition waiting :: "'s engine \<Rightarrow> nat" where
  "waiting eg = sum_list (map (\<lambda>(sc, q). length (wq_heap q)) (gs_pending (eg_store eg)))"

definition lost_matches :: "'s engine \<Rightarrow> nat" where
  "lost_matches eg = length (filter is_lost (eg_diags eg))"

definition balance :: "'s engine \<Rightarrow> int" where
  "balance eg = int (eg_suspended eg) - int (eg_resumed eg) - int (lost_matches eg) - int (waiting eg)"

text \<open>What no act changes.\<close>

definition same_books :: "'s engine \<Rightarrow> 's engine \<Rightarrow> bool" where
  "same_books eg eg' \<longleftrightarrow>
     eg_suspended eg' = eg_suspended eg \<and> eg_resumed eg' = eg_resumed eg \<and> lost_matches eg' = lost_matches eg \<and>
     gs_pending (eg_store eg') = gs_pending (eg_store eg) \<and> eg_last_event eg' = eg_last_event eg \<and>
     eg_max_forward eg' = eg_max_forward eg"

lemma acts_books: "acts env eg eg' \<Longrightarrow> same_books eg eg'"
proof (induction rule: rtranclp_induct)
  case (step eg1 eg2)
  from step(2) have "same_books eg1 eg2"
    by (induction rule: act.induct)
      (simp_all add: same_books_def lost_matches_def push_diag_def emit_action_def touch_def put_partition_def)
  with step(3) show ?case by (simp add: same_books_def)
qed (simp add: same_books_def)

lemma books_balance: "same_books eg eg' \<Longrightarrow> balance eg' = balance eg"
  by (simp add: same_books_def balance_def waiting_def)

lemma sum_list_put:
  "hm_get m k = None \<Longrightarrow> sum_list (map (\<lambda>(k, v). f v) (hm_put k v m)) = sum_list (map (\<lambda>(k, v). f v) m) + (f v :: nat)"
  "hm_get m k = Some v0 \<Longrightarrow> sum_list (map (\<lambda>(k, v). f v) (hm_put k v m)) + f v0 = sum_list (map (\<lambda>(k, v). f v) m) + f v"
  by (simp add: hm_put_fresh) (induction m; auto simp: hm_get_def hm_put_def split: if_splits)

text \<open>A push grows the queue by one, or reports the match it drops.\<close>

lemma wq_push_books:
  assumes "wq_inv cap q" "wq_push p q = (spill, q')"
  shows "spill = None \<and> length (wq_heap q') = Suc (length (wq_heap q))
    \<or> (\<exists>sc d c. spill = Some (WaitQueueSpill sc d c)) \<and> length (wq_heap q') = length (wq_heap q)"
  using assms by (auto simp: wq_push_def wq_inv_def split: if_splits)

lemma suspend_balance:
  assumes "store_inv li (eg_store eg)"
  shows "balance (suspend_match p eg) = balance eg"
proof -
  let ?q = "case hm_get (gs_pending (eg_store eg)) (pm_scope p) of
      Some q \<Rightarrow> q | None \<Rightarrow> wq_new (pm_scope p) (max_pending (gs_limits (eg_store eg)))"
  have inv: "wq_inv (max_pending li) ?q"
    using assms store_inv_queue [OF assms hm_get_entry] wq_new_inv by (auto simp: store_inv_def split: option.split)
  obtain spill q' where w: "wq_push p ?q = (spill, q')" by force
  let ?eg = "eg\<lparr>eg_suspended := Suc (eg_suspended eg),
      eg_store := (eg_store eg)\<lparr>gs_pending := hm_put (pm_scope p) q' (gs_pending (eg_store eg))\<rparr>\<rparr>"
  have s: "suspend_match p eg = push_store_diag spill ?eg"
    by (simp add: suspend_match_def suspend_def Let_def w)
  have "waiting ?eg + length (wq_heap ?q) = waiting eg + length (wq_heap q')"
    unfolding waiting_def
    by (cases "hm_get (gs_pending (eg_store eg)) (pm_scope p)")
      (simp_all add: sum_list_put [where f = "\<lambda>q. length (wq_heap q)"] wq_new_def)
  then show ?thesis
    using wq_push_books [OF inv w] unfolding s
    by (auto simp: balance_def lost_matches_def waiting_def push_store_diag_def push_diag_def)
qed

lemma pop_balance:
  "int (length (fst (pop_expired wm (eg_store eg)))) = balance (eg\<lparr>eg_store := snd (pop_expired wm (eg_store eg))\<rparr>) - balance eg"
proof -
  have "length (concat (map (\<lambda>(sc, q). fst (wq_pop_expired wm q)) m))
      + sum_list (map (\<lambda>(sc, q). length (wq_heap q)) (map (\<lambda>(sc, q). (sc, snd (wq_pop_expired wm q))) m))
      = sum_list (map (\<lambda>(sc, q). length (wq_heap q)) m)" for m :: "(scope_id, wait_queue) hmap"
  proof (induction m)
    case (Cons kq m)
    have "length (takeWhile P xs) + length (dropWhile P xs) = length xs" for P and xs :: "pending_match list"
      by (metis length_append takeWhile_dropWhile_id)
    from this [of "\<lambda>p. pm_upper_bound p < wm" "wq_heap (snd kq)"] Cons show ?case by (cases kq) (simp add: wq_pop_expired_def pop_while_eq)
  qed simp
  from this [of "gs_pending (eg_store eg)"] show ?thesis
    by (simp add: balance_def waiting_def lost_matches_def pop_expired_def)
qed

lemma resume_match_balance:
  assumes "pm_scope m \<in> set (eg_touched eg)"
  shows "balance (resume_match env m eg) = balance eg - 1"
proof (rule resume_match_cases [OF assms, of env])
  assume "acts env (eg\<lparr>eg_resumed := Suc (eg_resumed eg)\<rparr>) (resume_match env m eg)"
  from books_balance [OF acts_books [OF this]] show ?thesis
    by (simp add: balance_def waiting_def lost_matches_def)
qed (simp add: balance_def waiting_def lost_matches_def push_diag_def)

lemma resume_fold_balance:
  "pm_scope ` set ms \<subseteq> set (eg_touched eg) \<Longrightarrow> balance (fold (resume_match env) ms eg) = balance eg - int (length ms)"
proof (induction ms arbitrary: eg)
  case (Cons m ms)
  then have m: "pm_scope m \<in> set (eg_touched eg)" by simp
  from resume_match_touched [OF m, of env] Cons.prems
  have "pm_scope ` set ms \<subseteq> set (eg_touched (resume_match env m eg))" by auto
  from Cons.IH [OF this] resume_match_balance [OF m, of env] show ?case by simp
qed simp

lemma resume_expired_balance:
  assumes "engine_ok li eg"
  shows "balance (resume_expired env wm eg) = balance eg"
proof -
  obtain ms gs where p: "pop_expired wm (eg_store eg) = (ms, gs)" by force
  have "pm_scope ` set ms \<subseteq> set (eg_touched (eg\<lparr>eg_store := gs\<rparr>))"
    using popped_scopes [OF assms, of wm] p by simp
  from resume_fold_balance [OF this, of env] pop_balance [of wm eg] p
  show ?thesis by (simp add: resume_expired_def)
qed

text \<open>Every pending match closes within the largest forward window after the latest event.\<close>

definition windows_ok :: "'s engine_env \<Rightarrow> 's engine \<Rightarrow> bool" where
  "windows_ok env eg \<longleftrightarrow>
     (\<forall>r\<in>set (im_rules (ev_image env)). rule_max_forward r \<le> eg_max_forward eg) \<and>
     (\<forall>(sc, q)\<in>set (gs_pending (eg_store eg)). \<forall>p\<in>set (wq_heap q).
        \<exists>t. eg_last_event eg = Some t \<and> pm_upper_bound p \<le> time_add t (eg_max_forward eg))"

definition run_ok :: "'s engine_env \<Rightarrow> store_limits \<Rightarrow> 's engine \<Rightarrow> bool" where
  "run_ok env li eg \<longleftrightarrow> engine_ok li eg \<and> balance eg = 0 \<and> windows_ok env eg"

definition seen_event :: "event_node \<Rightarrow> 's engine \<Rightarrow> bool" where
  "seen_event e eg \<longleftrightarrow> en_scope e \<in> set (eg_touched eg) \<and> (\<exists>t. eg_last_event eg = Some t \<and> en_time e \<le> t)"

lemma books_windows: "same_books eg eg' \<Longrightarrow> windows_ok env eg \<Longrightarrow> windows_ok env eg'"
  by (simp add: same_books_def windows_ok_def)

lemma acts_run:
  assumes "acts env eg eg'" "run_ok env li eg"
  shows "run_ok env li eg'"
  using assms acts_ok books_balance [OF acts_books [OF assms(1)]] books_windows [OF acts_books [OF assms(1)]]
  by (auto simp: run_ok_def)

lemma acts_seen: "acts env eg eg' \<Longrightarrow> seen_event e eg \<Longrightarrow> seen_event e eg'"
  using acts_touched acts_books by (fastforce simp: seen_event_def same_books_def)

lemma rules_for_image: "set (rules_for im key scope kind) \<subseteq> set (im_rules im)"
  by (auto simp: rules_for_def)

lemma suspend_windows:
  assumes "windows_ok env eg" "\<exists>t. eg_last_event eg = Some t \<and> pm_upper_bound p \<le> time_add t (eg_max_forward eg)"
  shows "windows_ok env (suspend_match p eg)"
proof -
  let ?q = "case hm_get (gs_pending (eg_store eg)) (pm_scope p) of
      Some q \<Rightarrow> q | None \<Rightarrow> wq_new (pm_scope p) (max_pending (gs_limits (eg_store eg)))"
  obtain spill q' where w: "wq_push p ?q = (spill, q')" by force
  have q: "set (wq_heap q') \<subseteq> insert p (set (wq_heap ?q))"
    using wq_push_contents [of p ?q] w by simp
  let ?ok = "\<lambda>p. \<exists>t. eg_last_event eg = Some t \<and> pm_upper_bound p \<le> time_add t (eg_max_forward eg)"
  have "\<forall>p\<in>set (wq_heap ?q). ?ok p"
    using assms(1) by (auto simp: windows_ok_def wq_new_def split: option.split dest!: hm_get_entry)
  with q assms(2) have "\<forall>p\<in>set (wq_heap q'). ?ok p" by blast
  then show ?thesis
    using assms(1)
    by (auto simp: windows_ok_def suspend_match_def suspend_def Let_def w push_store_diag_def push_diag_def
        split: option.split dest!: hm_put_entries)
qed

lemma time_add_mono: "t \<le> t' \<Longrightarrow> d \<le> d' \<Longrightarrow> time_add t d \<le> time_add t' d'"
  by (auto simp: time_add_def intro: i64_saturate_mono)

lemma match_anchor_run:
  assumes "run_ok env li (fst st)" "seen_event e (fst st)" "rule \<in> set (im_rules (ev_image env))"
  shows "run_ok env li (fst (match_anchor env e wm rule st)) \<and> seen_event e (fst (match_anchor env e wm rule st))"
proof -
  obtain p eg where e: "eval_pred env rule (an_predicate (ru_anchor rule)) [Bound (BEvent e)] (en_scope e) (fst st) = (p, eg)"
    by force
  then have a: "acts env (fst st) eg" by (rule acts_snd [OF eval_pred_acts])
  note ok = acts_run [OF a assms(1)] and sn = acts_seen [OF a assms(2)]
  show ?thesis
  proof (cases "p = Some TTrue")
    case True
    let ?up = "time_add (en_time e) (rule_max_forward rule)"
    let ?p = "\<lparr>pm_rule = ru_id rule, pm_anchor_event = en_id e, pm_upper_bound = ?up, pm_scope = en_scope e\<rparr>"
    show ?thesis
    proof (cases "wm < ?up")
      case susp: True
      have m: "match_anchor env e wm rule st = (suspend_match ?p eg, snd st)"
        using True susp by (simp add: match_anchor_def e)
      have sc: "pm_scope ?p \<in> set (eg_touched eg)" using sn by (simp add: seen_event_def)
      have "rule_max_forward rule \<le> eg_max_forward eg" using ok assms(3) by (simp add: run_ok_def windows_ok_def)
      with sn have "\<exists>t. eg_last_event eg = Some t \<and> pm_upper_bound ?p \<le> time_add t (eg_max_forward eg)"
        by (auto simp: seen_event_def time_add_mono)
      then have "windows_ok env (suspend_match ?p eg)"
        using ok suspend_windows unfolding run_ok_def by blast
      then have "run_ok env li (suspend_match ?p eg)"
        using ok suspend_match_ok [OF _ sc, of li] suspend_balance [of li eg ?p]
        by (simp add: run_ok_def engine_ok_def)
      moreover have "eg_last_event (suspend_match ?p eg) = eg_last_event eg"
        by (simp add: suspend_match_def push_store_diag_def push_diag_def split: prod.split option.split)
      ultimately show ?thesis
        using sn ok suspend_match_ok [OF _ sc, of li] by (simp add: m seen_event_def run_ok_def)
    next
      case False
      have m: "match_anchor env e wm rule st = fire_rule env rule (BEvent e) (en_scope e) (eg, snd st)"
        using True False by (simp add: match_anchor_def e)
      have "acts env eg (fst (match_anchor env e wm rule st))"
        using fire_rule_acts(1) [of "en_scope e" "(eg, snd st)"] sn by (simp add: m seen_event_def)
      with ok sn show ?thesis using acts_run acts_seen by blast
    qed
  next
    case False
    then have "match_anchor env e wm rule st = (eg, snd st)"
      by (auto simp: match_anchor_def e split: option.split t3.split)
    with ok sn show ?thesis by simp
  qed
qed

lemma match_anchors_run:
  assumes "run_ok env li eg" "seen_event e eg"
  shows "run_ok env li (match_anchors env e wm eg)"
proof -
  have "run_ok env li (fst (fold (match_anchor env e wm) rs st))"
    if "run_ok env li (fst st)" "seen_event e (fst st)" "set rs \<subseteq> set (im_rules (ev_image env))" for rs st
    using that by (induction rs arbitrary: st) (auto simp: match_anchor_run)
  with assms rules_for_image show ?thesis by (simp add: match_anchors_def)
qed

text \<open>Operations that leave pending matches, diagnostics of losses and the last event alone.\<close>

lemma run_ok_frame:
  assumes "run_ok env li eg" "engine_ok li eg'" "same_books eg eg'"
  shows "run_ok env li eg'"
  using assms books_balance books_windows unfolding run_ok_def by fastforce

lemma resume_fold_books:
  assumes "pm_scope ` set ms \<subseteq> set (eg_touched eg)"
  shows "gs_pending (eg_store (fold (resume_match env) ms eg)) = gs_pending (eg_store eg)
    \<and> eg_last_event (fold (resume_match env) ms eg) = eg_last_event eg
    \<and> eg_max_forward (fold (resume_match env) ms eg) = eg_max_forward eg"
proof -
  have "gs_pending (eg_store (resume_match env m eg')) = gs_pending (eg_store eg')
      \<and> eg_last_event (resume_match env m eg') = eg_last_event eg'
      \<and> eg_max_forward (resume_match env m eg') = eg_max_forward eg'"
    if "pm_scope m \<in> set (eg_touched eg')" for m eg'
  proof (rule resume_match_cases [OF that, of env])
    assume "acts env (eg'\<lparr>eg_resumed := Suc (eg_resumed eg')\<rparr>) (resume_match env m eg')"
    from acts_books [OF this] show ?thesis by (simp add: same_books_def)
  qed (simp add: push_diag_def)
  then show ?thesis
    using resume_fold [OF _ assms, of "\<lambda>eg'. gs_pending (eg_store eg') = gs_pending (eg_store eg)
        \<and> eg_last_event eg' = eg_last_event eg \<and> eg_max_forward eg' = eg_max_forward eg" env] by simp
qed

lemma resume_expired_pending:
  assumes "engine_ok li eg"
  shows "gs_pending (eg_store (resume_expired env wm eg)) = gs_pending (snd (pop_expired wm (eg_store eg)))"
    "eg_last_event (resume_expired env wm eg) = eg_last_event eg"
    "eg_max_forward (resume_expired env wm eg) = eg_max_forward eg"
proof -
  obtain ms gs where p: "pop_expired wm (eg_store eg) = (ms, gs)" by force
  have "pm_scope ` set ms \<subseteq> set (eg_touched (eg\<lparr>eg_store := gs\<rparr>))"
    using popped_scopes [OF assms, of wm] p by simp
  from resume_fold_books [OF this, of env]
  show "gs_pending (eg_store (resume_expired env wm eg)) = gs_pending (snd (pop_expired wm (eg_store eg)))"
    "eg_last_event (resume_expired env wm eg) = eg_last_event eg"
    "eg_max_forward (resume_expired env wm eg) = eg_max_forward eg"
    by (simp_all add: resume_expired_def p)
qed

lemma windowsD:
  "windows_ok env eg \<Longrightarrow> (sc, q) \<in> set (gs_pending (eg_store eg)) \<Longrightarrow> p \<in> set (wq_heap q) \<Longrightarrow>
   \<exists>t. eg_last_event eg = Some t \<and> pm_upper_bound p \<le> time_add t (eg_max_forward eg)"
  unfolding windows_ok_def by blast

lemma resume_expired_run:
  assumes "run_ok env li eg"
  shows "run_ok env li (resume_expired env wm eg)"
proof -
  have ok: "engine_ok li eg" using assms by (simp add: run_ok_def)
  note r = resume_expired_pending [OF ok, of env wm]
  have win: "windows_ok env eg" using assms by (simp add: run_ok_def)
  then have "windows_ok env (resume_expired env wm eg)"
    using windowsD [OF win] unfolding windows_ok_def r
    by (auto simp: pop_expired_def wq_pop_expired_def pop_while_eq dest!: set_dropWhileD)
  then show ?thesis
    using assms resume_expired_ok [OF ok] resume_expired_balance [OF ok] by (simp add: run_ok_def)
qed

lemma gc_sweep_books: "same_books eg (gc_sweep wm eg)"
  by (simp add: same_books_def gc_sweep_def Let_def lost_matches_def store_gc_keys store_prune_keys)

lemma gc_sweep_run: "run_ok env li eg \<Longrightarrow> run_ok env li (gc_sweep wm eg)"
  using gc_sweep_ok by (intro run_ok_frame [OF _ _ gc_sweep_books]) (auto simp: run_ok_def)

lemma store_advance_books: "same_books eg (snd (store_advance t eg))"
  by (simp add: same_books_def store_advance_def advance_watermark_def Let_def lost_matches_def)

lemma advance_live_books: "same_books eg (snd (advance_live_watermark sc t eg))"
  by (simp add: advance_live_watermark_def Let_def advance_wall_def same_books_def lost_matches_def
      store_advance_def advance_watermark_def)

lemma push_event_books:
  "same_books eg (push_store_diag (fst (push_event e (eg_store eg))) (eg\<lparr>eg_store := snd (push_event e (eg_store eg))\<rparr>))"
  by (auto simp: same_books_def push_event_def ring_push_def Let_def push_store_diag_def push_diag_def lost_matches_def
      split: prod.split option.split list.split)

lemma note_event_run:
  assumes "run_ok env li eg"
  shows "run_ok env li (note_event e eg) \<and> seen_event e (note_event e eg)"
proof -
  let ?t = "max (case eg_last_event eg of Some t \<Rightarrow> t | None \<Rightarrow> en_time e) (en_time e)"
  have b: "gs_pending (eg_store (note_event e eg)) = gs_pending (eg_store eg)"
    "eg_last_event (note_event e eg) = Some ?t" "eg_max_forward (note_event e eg) = eg_max_forward eg"
    "balance (note_event e eg) = balance eg"
    by (simp_all add: note_event_def touch_def balance_def waiting_def lost_matches_def)
  have "windows_ok env (note_event e eg)"
    unfolding windows_ok_def b
  proof (intro conjI ballI)
    show "rule_max_forward r \<le> eg_max_forward eg" if "r \<in> set (im_rules (ev_image env))" for r
      using assms that by (simp add: run_ok_def windows_ok_def)
    fix scq assume "scq \<in> set (gs_pending (eg_store eg))"
    then have old: "\<forall>p\<in>set (wq_heap (snd scq)). \<exists>t. eg_last_event eg = Some t \<and> pm_upper_bound p \<le> time_add t (eg_max_forward eg)"
      using assms by (auto simp: run_ok_def windows_ok_def)
    have "pm_upper_bound p \<le> time_add ?t (eg_max_forward eg)" if p: "p \<in> set (wq_heap (snd scq))" for p
    proof -
      from old p obtain t where "eg_last_event eg = Some t" "pm_upper_bound p \<le> time_add t (eg_max_forward eg)" by blast
      moreover from this have "time_add t (eg_max_forward eg) \<le> time_add ?t (eg_max_forward eg)" by (intro time_add_mono) auto
      ultimately show ?thesis by linarith
    qed
    then show "case scq of (sc, q) \<Rightarrow> \<forall>p\<in>set (wq_heap q). \<exists>t. Some ?t = Some t \<and> pm_upper_bound p \<le> time_add t (eg_max_forward eg)"
      by (cases scq) simp
  qed
  then show ?thesis
    using assms note_event_ok(1) [of li eg e] note_event_ok(2) [of e eg] b by (auto simp: run_ok_def seen_event_def)
qed

lemma accept_event_run:
  assumes "run_ok env li eg" "seen_event e eg"
  shows "run_ok env li (accept_event env e eg)"
proof -
  let ?adv = "case ev_mode env of Offline \<Rightarrow> store_advance (en_time e) eg
            | Live \<Rightarrow> advance_live_watermark (en_scope e) (en_time e) eg"
  obtain wm eg1 where w: "?adv = (wm, eg1)" by force
  have b: "same_books eg eg1" "eg_touched eg1 = eg_touched eg"
    using arg_cong [OF w, of snd] store_advance_books [of eg "en_time e"]
      advance_live_books [of eg "en_scope e" "en_time e"]
    by (cases "ev_mode env"; auto)+
  have e: "engine_ok li eg1"
    using arg_cong [OF w, of snd] store_advance_ok [of li eg "en_time e"] advance_live_ok [of li eg "en_scope e" "en_time e"] assms(1)
    by (cases "ev_mode env"; auto simp: run_ok_def)+
  from run_ok_frame [OF assms(1) e b(1)] have r1: "run_ok env li eg1" .
  have s1: "seen_event e eg1" using assms(2) b by (simp add: seen_event_def same_books_def)
  obtain spill gs where p: "push_event e (eg_store eg1) = (spill, gs)" by force
  let ?eg2 = "push_store_diag spill (eg1\<lparr>eg_store := gs\<rparr>)"
  have "en_scope e \<in> set (eg_touched eg1)" using s1 by (simp add: seen_event_def)
  with push_event_ok [OF e, of e spill] p have "engine_ok li ?eg2" by simp
  then have r2: "run_ok env li ?eg2"
    using run_ok_frame [OF r1] push_event_books [of eg1 e] p by simp
  have s2: "seen_event e ?eg2"
    using s1 by (simp add: seen_event_def push_store_diag_def push_diag_def split: option.split)
  let ?eg3 = "gc_sweep wm (resume_expired env wm ?eg2)"
  have r3: "run_ok env li ?eg3" using r2 resume_expired_run gc_sweep_run by blast
  have "engine_ok li ?eg2" using r2 by (simp add: run_ok_def)
  note rp = resume_expired_pending [OF this, of env wm] resume_expired_ok [OF this, of env wm]
  have s3: "seen_event e ?eg3"
    using s2 rp by (auto simp: seen_event_def gc_sweep_def Let_def)
  show ?thesis using match_anchors_run [OF r3 s3] by (simp add: accept_event_def w p)
qed

lemma ingest_run:
  assumes "run_ok env li eg"
  shows "run_ok env li (ingest env e eg)"
proof -
  let ?eg = "note_event e eg"
  have n: "run_ok env li ?eg" "seen_event e ?eg" using note_event_run [OF assms] by auto
  then have ok: "engine_ok li ?eg" by (simp add: run_ok_def)
  have "same_books ?eg (audit_offline_late_evidence e wm ?eg)" for wm
    by (simp add: same_books_def audit_offline_late_evidence_def push_diag_def lost_matches_def split: option.split)
  moreover have "engine_ok li (audit_offline_late_evidence e wm ?eg)" for wm
    by (rule engine_ok_frame [OF ok]) (simp_all add: audit_offline_late_evidence_def push_diag_def split: option.split)
  ultimately have "run_ok env li (audit_offline_late_evidence e wm ?eg)" for wm
    using run_ok_frame [OF n(1)] by blast
  moreover have "seen_event e (audit_offline_late_evidence e wm ?eg)" for wm
    using n(2) by (simp add: seen_event_def audit_offline_late_evidence_def push_diag_def split: option.split)
  moreover have "run_ok env li (drop_late e ?eg)"
  proof (rule run_ok_frame [OF n(1)])
    show "engine_ok li (drop_late e ?eg)"
      by (rule engine_ok_frame [OF ok]) (simp_all add: drop_late_def push_diag_def)
  qed (simp add: same_books_def drop_late_def push_diag_def lost_matches_def)
  ultimately show ?thesis using n by (simp add: ingest_def Let_def accept_event_run)
qed

lemma engine_advance_run:
  assumes "run_ok env li eg"
  shows "run_ok env li (engine_advance_watermark env t eg)"
proof -
  obtain wm eg1 where w: "store_advance t eg = (wm, eg1)" by force
  have "run_ok env li eg1"
    using run_ok_frame [OF assms, of "snd (store_advance t eg)"] store_advance_ok store_advance_books assms w
    unfolding run_ok_def by (metis snd_conv)
  then show ?thesis by (simp add: engine_advance_watermark_def w gc_sweep_run resume_expired_run)
qed

interpretation runs: op_system "adgl_apply env" "run_ok env li"
proof
  fix s t :: "'a engine" and x
  assume ok: "run_ok env li s" and "adgl_apply env x s = Some t"
  moreover have frame: "run_ok env li s'"
    if "engine_ok li s'" "same_books s s'" for s'
    using run_ok_frame [OF ok that] .
  have e: "engine_ok li s" using ok by (simp add: run_ok_def)
  have fin: "run_ok env li (s\<lparr>eg_finished := True\<rparr>)"
    by (rule frame) (rule engine_ok_frame [OF e], simp_all add: same_books_def lost_matches_def)
  have wall: "run_ok env li (advance_wall_clock env u s)" for u
    by (rule frame) (rule engine_ok_frame [OF e],
      simp_all add: advance_wall_clock_def advance_wall_def same_books_def lost_matches_def)
  have intern: "run_ok env li (snd (engine_intern sc s))" for sc
    by (rule frame) (rule engine_ok_frame [OF e],
      simp_all add: engine_intern_def same_books_def lost_matches_def split: prod.split)
  have "run_ok env li (finish env s)"
    using ok fin engine_advance_run by (auto simp: finish_def Let_def split: option.split)
  ultimately show "run_ok env li t"
    using wall intern by (cases x) (auto simp: ingest_run engine_advance_run)
qed

lemma fold_max_ge: "r \<in> set rs \<Longrightarrow> f r \<le> fold max (map f rs) (b :: int)"
proof -
  have mono: "c \<le> fold max (map f rs) c" for c rs
  proof (induction rs arbitrary: c)
    case (Cons x rs)
    from Cons [of "max (f x) c"] show ?case by simp
  qed simp
  show "r \<in> set rs \<Longrightarrow> f r \<le> fold max (map f rs) b"
  proof (induction rs arbitrary: b)
    case (Cons x rs)
    show ?case
    proof (cases "r = x")
      case True
      with mono [of "max (f x) b" rs] show ?thesis by simp
    qed (use Cons in simp)
  qed simp
qed

lemma adgl_new_run: "run_ok env li (adgl_new env sink li)"
  using adgl_new_ok [of li env sink]
  by (simp add: run_ok_def balance_def waiting_def lost_matches_def windows_ok_def adgl_new_def store_new_def fold_max_ge)

lemmas run_reach = runs.inv_run [OF _ adgl_new_run]

text \<open>C23: suspended matches are conserved. At every moment each match the engine ever suspended has
  been resumed, is waiting in a queue, or was reported by a diagnostic as lost (dropped by a full
  queue, or resumed when its anchor event or its rule was gone); none disappears silently.\<close>

theorem match_conservation:
  assumes "run_ops (adgl_apply env) ops (adgl_new env sink li) = Some eg"
  shows "eg_suspended eg = eg_resumed eg + lost_matches eg + waiting eg"
  using run_reach [OF assms] by (simp add: run_ok_def balance_def)

text \<open>C24: the end of the stream. After the first \<open>finish\<close> no match is waiting in any scope, whatever
  the engine processed before, provided the latest event plus the largest forward window does
  not reach the end of the 64-bit time line (there the close-out time saturates and matches stay
  waiting).\<close>

theorem finish_resolves_all:
  assumes run: "run_ops (adgl_apply env) ops (adgl_new env sink li) = Some eg" and first: "\<not> eg_finished eg"
    and room: "\<forall>t. eg_last_event eg = Some t \<longrightarrow> t + eg_max_forward eg < i64_max"
  shows "waiting (finish env eg) = 0 \<and> pending_len sc (eg_store (finish env eg)) = 0"
proof -
  have ok: "run_ok env li eg" by (rule run_reach [OF run])
  have none: "waiting eg' = 0 \<and> pending_len sc (eg_store eg') = 0"
    if "\<forall>(s, q)\<in>set (gs_pending (eg_store eg')). wq_heap q = []" for eg' :: "'a engine"
  proof -
    have "map (\<lambda>(s, q). length (wq_heap q)) (gs_pending (eg_store eg')) = map (\<lambda>_. 0) (gs_pending (eg_store eg'))"
      using that by auto
    then have "waiting eg' = 0" by (simp only: waiting_def) simp
    moreover have "pending_len sc (eg_store eg') = 0"
      using that by (auto simp: pending_len_def wq_len_def split: option.split dest!: hm_get_entry)
    ultimately show ?thesis by simp
  qed
  show ?thesis
  proof (cases "eg_last_event eg")
    case None
    then have "\<forall>(s, q)\<in>set (gs_pending (eg_store eg)). wq_heap q = []"
      using ok by (fastforce simp: run_ok_def windows_ok_def)
    then have "\<forall>(s, q)\<in>set (gs_pending (eg_store (finish env eg))). wq_heap q = []"
      using None first by (simp add: finish_def)
    then show ?thesis by (rule none)
  next
    case (Some t)
    let ?eg1 = "eg\<lparr>eg_finished := True\<rparr>" and ?stop = "time_add (time_add t (eg_max_forward eg)) 1"
    obtain wm eg2 where w: "store_advance ?stop ?eg1 = (wm, eg2)" by force
    have e2: "engine_ok li eg2"
      using store_advance_ok [of li ?eg1 ?stop] engine_ok_frame [of li eg ?eg1] ok w by (simp add: run_ok_def)
    have wm: "?stop \<le> wm" and pend: "gs_pending (eg_store eg2) = gs_pending (eg_store eg)"
      using w by (auto simp: store_advance_def advance_watermark_def Let_def)
    have late: "time_add t (eg_max_forward eg) < ?stop"
      using room Some by (auto simp: time_add_def i64_defs)
    have up: "pm_upper_bound p < wm" if "(s, q) \<in> set (gs_pending (eg_store eg2))" "p \<in> set (wq_heap q)" for s q p
      using ok that Some wm late unfolding pend run_ok_def windows_ok_def by fastforce
    have "gs_pending (eg_store (finish env eg)) = gs_pending (snd (pop_expired wm (eg_store eg2)))"
      using Some first w resume_expired_pending(1) [OF e2, of env wm]
      by (simp add: finish_def engine_advance_watermark_def gc_sweep_def Let_def store_gc_keys store_prune_keys)
    moreover have "\<forall>(s, q)\<in>set (gs_pending (snd (pop_expired wm (eg_store eg2)))). wq_heap q = []"
      using up by (auto simp: pop_expired_def wq_pop_expired_def pop_while_eq dropWhile_eq_Nil_conv)
    ultimately show ?thesis using none by simp
  qed
qed

subsection \<open>Garbage collection\<close>

text \<open>Acts leave the ring buffers alone.\<close>

lemma acts_rings: "acts env eg eg' \<Longrightarrow> gs_rings (eg_store eg') = gs_rings (eg_store eg)"
proof (induction rule: rtranclp_induct)
  case (step eg1 eg2)
  from step(2) have "gs_rings (eg_store eg2) = gs_rings (eg_store eg1)"
    by (induction rule: act.induct) (simp_all add: push_diag_def emit_action_def touch_def put_partition_def)
  with step(3) show ?case by simp
qed simp

lemma resume_expired_rings:
  assumes "engine_ok li eg"
  shows "gs_rings (eg_store (resume_expired env wm eg)) = gs_rings (eg_store eg)"
proof -
  obtain ms gs where p: "pop_expired wm (eg_store eg) = (ms, gs)" by force
  have sc: "pm_scope ` set ms \<subseteq> set (eg_touched (eg\<lparr>eg_store := gs\<rparr>))"
    using popped_scopes [OF assms, of wm] p by simp
  have "gs_rings (eg_store (resume_match env m eg')) = gs_rings (eg_store eg')"
    if "pm_scope m \<in> set (eg_touched eg')" for m eg'
  proof (rule resume_match_cases [OF that, of env])
    assume "acts env (eg'\<lparr>eg_resumed := Suc (eg_resumed eg')\<rparr>) (resume_match env m eg')"
    from acts_rings [OF this] show ?thesis by simp
  qed (simp add: push_diag_def)
  then have "gs_rings (eg_store (fold (resume_match env) ms (eg\<lparr>eg_store := gs\<rparr>))) = gs_rings gs"
    using resume_fold [OF _ sc, of "\<lambda>eg'. gs_rings (eg_store eg') = gs_rings gs" env] by simp
  moreover have "gs_rings gs = gs_rings (eg_store eg)" using p by (auto simp: pop_expired_def)
  ultimately show ?thesis by (simp add: resume_expired_def p)
qed

text \<open>The anchor event of a suspended match whose rule looks \<open>fwd\<close> ahead, as \<open>match_anchor\<close> builds it.\<close>

definition anchor_of :: "event_node \<Rightarrow> duration_ms \<Rightarrow> pending_match \<Rightarrow> bool" where
  "anchor_of e fwd p \<longleftrightarrow>
     pm_anchor_event p = en_id e \<and> pm_scope p = en_scope e \<and> pm_upper_bound p = time_add (en_time e) fwd"

text \<open>C36: collection never loses the anchor of a match that still waits. When a reachable engine
  advances its watermark (resumes what has expired, then collects), every match left in a wait
  queue whose anchor event was buffered before the step, and whose rule looks ahead no further than the
  configured lookback, still has that event in the ring of its scope afterwards.\<close>

theorem gc_keeps_pending_anchors:
  assumes run: "run_ops (adgl_apply env) ops (adgl_new env sink li) = Some eg"
    and p: "(sc, q) \<in> set (gs_pending (eg_store (engine_advance_watermark env t eg)))" "p \<in> set (wq_heap q)"
    and e: "store_ring (pm_scope p) (eg_store eg) = Some r" "e \<in> set (rb_buf r)" "i64_ok (en_time e)"
    and fwd: "anchor_of e fwd p" "0 \<le> fwd" "fwd \<le> li_max_lookback li"
  shows "\<exists>r'. store_ring (pm_scope p) (eg_store (engine_advance_watermark env t eg)) = Some r' \<and> e \<in> set (rb_buf r')"
proof -
  obtain wm eg1 where w: "store_advance t eg = (wm, eg1)" by force
  let ?eg2 = "resume_expired env wm eg1"
  have "engine_ok li eg" using run_reach [OF run] by (simp add: run_ok_def)
  then have ok: "engine_ok li eg1" using store_advance_ok w by (metis snd_conv)
  from resume_expired_ok [OF ok] have ok2: "engine_ok li ?eg2" by simp
  have rings: "gs_rings (eg_store ?eg2) = gs_rings (eg_store eg)"
    using resume_expired_rings [OF ok, of env wm] w
    by (auto simp: store_advance_def advance_watermark_def Let_def split: prod.splits)
  have adv: "engine_advance_watermark env t eg = gc_sweep wm ?eg2" by (simp add: engine_advance_watermark_def w)
  have "(sc, q) \<in> set (gs_pending (snd (pop_expired wm (eg_store eg1))))"
    using p(1) gc_sweep_books [of ?eg2 wm] resume_expired_pending(1) [OF ok, of env wm]
    by (simp add: adv same_books_def)
  then obtain q0 where q0: "(sc, q0) \<in> set (gs_pending (eg_store eg1))" "q = snd (wq_pop_expired wm q0)"
    by (auto simp: pop_expired_def)
  have "wq_inv (max_pending li) q0"
    using store_inv_queue [OF _ q0(1)] ok by (auto simp: engine_ok_def)
  with p(2) q0(2) have "wm \<le> pm_upper_bound p"
    by (auto simp: wq_inv_def wq_pop_expired_def pop_while_filter)
  then have wm: "wm \<le> time_add (en_time e) fwd" using fwd(1) by (simp add: anchor_of_def)
  have g: "hm_get (gs_rings (eg_store ?eg2)) (pm_scope p) = Some r" using e(1) by (simp add: rings store_ring_def)
  have "sorted (map en_time (rb_buf r))"
    using store_inv_ring [OF _ hm_get_entry [OF g]] ok2 by (auto simp: engine_ok_def ring_inv_def)
  moreover have "li_max_lookback (gs_limits (eg_store ?eg2)) = li_max_lookback li"
    using ok2 by (simp add: engine_ok_def store_inv_def)
  ultimately obtain r' where "hm_get (gs_rings (snd (store_gc wm (li_max_lookback (gs_limits (eg_store ?eg2))) (eg_store ?eg2))))
      (pm_scope p) = Some r'" "e \<in> set (rb_buf r')"
    using store_gc_keeps_anchor [OF g _ e(2,3) wm fwd(2)] fwd(3) by metis
  then show ?thesis by (simp add: adv gc_sweep_def Let_def store_ring_def store_prune_keys)
qed

subsection \<open>Examples\<close>

text \<open>One evidence rule with a forward window of 50 ms that asks for an observation.\<close>

definition demo_rule :: rule_instance where
  "demo_rule =
     \<lparr>ru_id = ''r1'', ru_kind = Evidence, ru_scope = Global,
      ru_anchor = \<lparr>an_binding = ''e'', an_source = AnchorEvent ''tcp.reset'', an_predicate = always_true\<rparr>,
      ru_correlates = [], ru_branches = None,
      ru_body = [EmitAction RequestObservation None (Some ''e'') None [''e'']],
      ru_annotations = \<lparr>va_max_backward = 0, va_max_forward = 50, va_target_scope = None\<rparr>\<rparr>"

definition demo_env :: "action_intent list engine_env" where
  "demo_env =
     \<lparr>ev_image = image_new 1 ''set'' [] [] [demo_rule] (''catalog'', ''1''),
      ev_topo = (\<lambda>f a b. TUnknown), ev_emit = (\<lambda>i m t s. s @ [i]), ev_mode = Offline\<rparr>"

definition demo_event :: event_node where
  "demo_event = event_new 7 ''tcp.reset'' 100 scope_global [] \<lparr>ev_frame = None, ev_source = None\<rparr>"

definition demo_adgl :: "action_intent list engine" where
  "demo_adgl = ingest demo_env demo_event (adgl_new demo_env [] store_limits_default)"

lemma demo_adgl_run:
  "run_ops (adgl_apply demo_env) [Ingest demo_event] (adgl_new demo_env [] store_limits_default) = Some demo_adgl"
  by (simp add: demo_adgl_def)

text \<open>The fields an ingested event sets before anything else fires, and nothing changes afterwards.\<close>

definition same_clock :: "'s engine \<Rightarrow> 's engine \<Rightarrow> bool" where
  "same_clock eg eg' \<longleftrightarrow>
     eg_last_event eg' = eg_last_event eg \<and> eg_finished eg' = eg_finished eg \<and> eg_max_forward eg' = eg_max_forward eg \<and>
     gs_watermark (eg_store eg') = gs_watermark (eg_store eg)"

lemma acts_clock: "acts env eg eg' \<Longrightarrow> same_clock eg eg'"
proof (induction rule: rtranclp_induct)
  case (step eg1 eg2)
  from step(2) have "same_clock eg1 eg2"
    by (induction rule: act.induct)
      (simp_all add: same_clock_def push_diag_def emit_action_def touch_def put_partition_def)
  with step(3) show ?case by (simp add: same_clock_def)
qed (simp add: same_clock_def)

lemma same_clock_trans: "same_clock a b \<Longrightarrow> same_clock b c \<Longrightarrow> same_clock a c"
  by (simp add: same_clock_def)

lemma match_anchor_clock:
  assumes "en_scope e \<in> set (eg_touched (fst st))"
  shows "same_clock (fst st) (fst (match_anchor env e wm rule st))
    \<and> en_scope e \<in> set (eg_touched (fst (match_anchor env e wm rule st)))"
proof -
  obtain p eg where e: "eval_pred env rule (an_predicate (ru_anchor rule)) [Bound (BEvent e)] (en_scope e) (fst st) = (p, eg)"
    by force
  then have a: "acts env (fst st) eg" by (rule acts_snd [OF eval_pred_acts])
  have t: "en_scope e \<in> set (eg_touched eg)" using acts_touched [OF a] assms by blast
  have f: "acts env (fst st) (fst (fire_rule env rule (BEvent e) (en_scope e) (eg, snd st)))"
    by (rule rtranclp_trans [OF a]) (use fire_rule_acts(1) [of "en_scope e" "(eg, snd st)"] t in simp)
  have s: "same_clock eg (suspend_match m eg) \<and> eg_touched (suspend_match m eg) = eg_touched eg" for m
    by (auto simp: same_clock_def suspend_match_def suspend_def Let_def push_store_diag_def push_diag_def
        split: prod.splits option.split)
  show ?thesis
    using t s acts_clock [OF f] acts_touched [OF f] assms same_clock_trans [OF acts_clock [OF a]] acts_clock [OF a]
    by (auto simp: match_anchor_def e Let_def split: option.split t3.split)
qed

lemma ingest_clock:
  assumes "engine_ok li eg" "ev_mode env = Offline"
  shows "same_clock (snd (store_advance (en_time e) (note_event e eg))) (ingest env e eg)"
proof -
  have fold: "same_clock eg' (match_anchors env e wm eg')" if "en_scope e \<in> set (eg_touched eg')" for eg' wm
  proof -
    have "same_clock (fst st) (fst (fold (match_anchor env e wm) rs st))"
      if "en_scope e \<in> set (eg_touched (fst st))" for st and rs
      using that
    proof (induction rs arbitrary: st)
      case (Cons r rs)
      from match_anchor_clock [OF Cons.prems, of env wm r] Cons.IH [of "match_anchor env e wm r st"]
      show ?case by (auto intro: same_clock_trans)
    qed (simp add: same_clock_def)
    from this [of "(eg', max_firings (gs_limits (eg_store eg')))"] that show ?thesis
      by (simp add: match_anchors_def)
  qed
  have acc: "same_clock (snd (store_advance (en_time e) eg')) (accept_event env e eg')"
    if ok: "engine_ok li eg'" and t: "en_scope e \<in> set (eg_touched eg')" for eg'
  proof -
    obtain wm eg1 where w: "store_advance (en_time e) eg' = (wm, eg1)" by force
    have 1: "engine_ok li eg1" "en_scope e \<in> set (eg_touched eg1)"
      using store_advance_ok [OF ok, of "en_time e"] w t
      by (auto simp: store_advance_def split: prod.splits)
    obtain spill gs where p: "push_event e (eg_store eg1) = (spill, gs)" by force
    let ?eg2 = "push_store_diag spill (eg1\<lparr>eg_store := gs\<rparr>)"
    have 2: "engine_ok li ?eg2" "same_clock eg1 ?eg2" "en_scope e \<in> set (eg_touched ?eg2)"
      using push_event_ok [OF 1, of spill] 1 p
      by (auto simp: same_clock_def push_event_def Let_def push_store_diag_def push_diag_def
          split: option.split prod.splits)
    obtain ms gs2 where q: "pop_expired wm (eg_store ?eg2) = (ms, gs2)" by force
    let ?eg3 = "?eg2\<lparr>eg_store := gs2\<rparr>"
    have wm: "gs_watermark gs2 = gs_watermark (eg_store ?eg2)" using q by (auto simp: pop_expired_def)
    have "pm_scope ` set ms \<subseteq> set (eg_touched ?eg3)" using popped_scopes [OF 2(1), of wm] q by simp
    moreover have "same_clock ?eg3 (resume_match env m eg'')"
      if "pm_scope m \<in> set (eg_touched eg'')" "same_clock ?eg3 eg''" for m eg''
    proof (rule resume_match_cases [OF that(1), of env])
      assume "acts env (eg''\<lparr>eg_resumed := Suc (eg_resumed eg'')\<rparr>) (resume_match env m eg'')"
      from acts_clock [OF this] that(2) show ?thesis by (simp add: same_clock_def)
    qed (use that(2) in \<open>simp add: same_clock_def push_diag_def\<close>)
    ultimately have 3: "same_clock ?eg2 (resume_expired env wm ?eg2)"
      using resume_fold [of ms "same_clock ?eg3" env ?eg3] wm
      by (simp add: resume_expired_def q same_clock_def)
    let ?eg4 = "gc_sweep wm (resume_expired env wm ?eg2)"
    have "en_scope e \<in> set (eg_touched ?eg4)"
      using resume_expired_ok [OF 2(1), of env wm] 2(3) by (auto simp: gc_sweep_def Let_def)
    from fold [OF this, of wm] have "same_clock ?eg4 (accept_event env e eg')"
      by (simp add: accept_event_def assms(2) w p)
    moreover have "same_clock (resume_expired env wm ?eg2) ?eg4"
      by (simp add: same_clock_def gc_sweep_def store_gc_def store_prune_emitted_def Let_def)
    ultimately show ?thesis using 2(2) 3 w by (auto intro: same_clock_trans)
  qed
  let ?eg = "note_event e eg"
  let ?au = "audit_offline_late_evidence e (gs_watermark (eg_store ?eg)) ?eg"
  have au: "same_clock (snd (store_advance (en_time e) ?eg)) (snd (store_advance (en_time e) ?au))
      \<and> eg_touched ?au = eg_touched ?eg"
    by (simp add: same_clock_def store_advance_def advance_watermark_def Let_def audit_offline_late_evidence_def push_diag_def split: option.split)
  have "engine_ok li ?au"
    by (rule engine_ok_frame [OF note_event_ok(1) [OF assms(1), of e]])
      (simp_all add: audit_offline_late_evidence_def push_diag_def split: option.split)
  with acc [of ?au] acc [OF note_event_ok(1) [OF assms(1)] note_event_ok(2)] au note_event_ok(2) [of e eg]
  show ?thesis using assms(2) by (auto simp: ingest_def Let_def intro: same_clock_trans)
qed

lemma demo_adgl_clock:
  "eg_last_event demo_adgl = Some 100" "\<not> eg_finished demo_adgl" "eg_max_forward demo_adgl = 50"
  using ingest_clock [OF adgl_new_ok [of store_limits_default demo_env "[]"], of demo_env demo_event]
  by (simp_all add: demo_adgl_def same_clock_def store_advance_def advance_watermark_def Let_def note_event_def touch_def adgl_new_def demo_env_def demo_event_def
      event_new_def image_new_def demo_rule_def rule_max_forward_def)

theorem cascade_depth_suffices_witness:
  "let eg = note_event demo_event (adgl_new demo_env [] store_limits_default)
   in run_rule demo_env 70 demo_rule (BEvent demo_event) (en_scope demo_event) (eg, 64)
     = fire_rule demo_env demo_rule (BEvent demo_event) (en_scope demo_event) (eg, 64)"
  unfolding Let_def by (rule conjunct1, rule cascade_depth_suffices, rule note_event_ok(2)) simp

text \<open>The demonstration event is buffered and its match waits until 150.\<close>

definition demo_pending :: pending_match where
  "demo_pending = \<lparr>pm_rule = ''r1'', pm_anchor_event = 7, pm_upper_bound = 150, pm_scope = scope_global\<rparr>"

definition demo_ring :: ring_buffer where
  "demo_ring = \<lparr>rb_buf = [demo_event], rb_scope = scope_global, rb_capacity = 4096\<rparr>"

definition demo_waiting :: wait_queue where
  "demo_waiting = \<lparr>wq_heap = [demo_pending], wq_scope = scope_global, wq_capacity = 1024\<rparr>"

lemma demo_rules: "rules_for (ev_image demo_env) (AnchorEvent ''tcp.reset'') Global Evidence = [demo_rule]"
  by code_simp

lemma demo_anchor_true: "eval_predicate (an_predicate (ru_anchor demo_rule)) ctx = Inr TTrue"
  by (simp add: demo_rule_def eval_predicate_def always_true_def set_reg_def get_reg_def max_slots_def t3_of_bool_def)

lemma demo_adgl_store:
  "eg_store demo_adgl = \<lparr>gs_partitions = [], gs_rings = [(scope_global, demo_ring)], gs_watermark = 100,
     gs_pending = [(scope_global, demo_waiting)], gs_limits = store_limits_default\<rparr>"
proof -
  have env: "ev_mode demo_env = Offline" by (simp add: demo_env_def)
  have e: "en_time demo_event = 100" "en_id demo_event = 7" "en_type demo_event = ''tcp.reset''" "en_scope demo_event = scope_global"
    "si_type scope_global = Global"
    by (simp_all add: demo_event_def event_new_def scope_global_def)
  have r: "rule_max_forward demo_rule = 50" "ru_id demo_rule = ''r1''" by (simp_all add: demo_rule_def rule_max_forward_def)
  have lim: "max_ring_events store_limits_default = 4096" "max_pending store_limits_default = 1024"
    "li_max_lookback store_limits_default = 60000"
    by (simp_all add: store_limits_default_def dur_def duration_from_millis_def)
  let ?eg = "note_event demo_event (adgl_new demo_env [] store_limits_default)"
  have n: "eg_store ?eg = store_new store_limits_default" by (simp add: note_event_def touch_def adgl_new_def)
  have l: "\<not> is_late demo_event ?eg" by (simp add: is_late_def n store_new_def)
  define eg1 where "eg1 = ?eg\<lparr>eg_store := \<lparr>gs_partitions = [], gs_rings = [(scope_global, demo_ring)], gs_watermark = 100,
     gs_pending = [], gs_limits = store_limits_default\<rparr>\<rparr>"
  have push: "push_event demo_event ((eg_store ?eg)\<lparr>gs_watermark := 100\<rparr>) = (None, eg_store eg1)"
    by (simp add: n store_new_def push_event_def e ring_new_def ring_push_def insert_after_def hm_put_def demo_ring_def eg1_def
       lim hm_get_def)
  have adv: "store_advance 100 ?eg = (100, ?eg\<lparr>eg_store := (eg_store ?eg)\<lparr>gs_watermark := 100\<rparr>\<rparr>)"
    by (simp add: store_advance_def advance_watermark_def n store_new_def i64_defs)
  have gc: "gc_sweep 100 (resume_expired demo_env 100 eg1) = eg1"
    by (simp add: eg1_def resume_expired_def pop_expired_def gc_sweep_def store_gc_def store_prune_emitted_def ring_gc_def
       demo_ring_def e time_sub_def lim i64_defs)
  have "demo_adgl = match_anchors demo_env demo_event 100 eg1"
    using l push adv gc
    by (simp add: demo_adgl_def ingest_def Let_def accept_event_def env e push_store_diag_def eg1_def)
  moreover have "\<dots> = suspend_match demo_pending eg1"
    by (simp add: match_anchors_def e demo_rules match_anchor_def eval_pred_def demo_anchor_true r time_add_def i64_defs Let_def demo_pending_def)
  moreover have "eg_store (suspend_match demo_pending eg1) = (eg_store eg1)\<lparr>gs_pending := [(scope_global, demo_waiting)]\<rparr>"
    by (simp add: suspend_match_def suspend_def eg1_def hm_get_def wq_new_def wq_push_def insert_after_def hm_put_def
       demo_waiting_def demo_pending_def push_store_diag_def lim Let_def)
  ultimately show ?thesis by (simp add: eg1_def)
qed
lemma demo_adgl_advanced:
  "gs_pending (eg_store (engine_advance_watermark demo_env 120 demo_adgl)) = [(scope_global, demo_waiting)]"
  by (simp add: engine_advance_watermark_def store_advance_def demo_adgl_store advance_watermark_def Let_def gc_sweep_def store_prune_keys store_gc_def
   resume_expired_def pop_expired_def wq_pop_expired_def demo_waiting_def demo_pending_def)
theorem engine_well_formed_witness:
  "length (sg_causes (partition scope_global (eg_store demo_adgl))) \<le> 256 \<and> scope_global \<in> set (eg_touched demo_adgl)"
proof -
  have "store_ring scope_global (eg_store demo_adgl) \<noteq> None"
    by (simp add: demo_adgl_store store_ring_def hm_get_def)
  with engine_well_formed [OF demo_adgl_run, of scope_global] show ?thesis
    by (simp add: store_limits_default_def)
qed

theorem match_conservation_witness:
  "eg_suspended demo_adgl = eg_resumed demo_adgl + lost_matches demo_adgl + waiting demo_adgl"
  by (rule match_conservation [OF demo_adgl_run])

theorem finish_resolves_all_witness: "pending_len scope_global (eg_store (finish demo_env demo_adgl)) = 0"
  using finish_resolves_all [OF demo_adgl_run] demo_adgl_clock by (simp add: i64_defs)

theorem gc_keeps_pending_anchors_witness:
  "\<exists>r. store_ring scope_global (eg_store (engine_advance_watermark demo_env 120 demo_adgl)) = Some r \<and> demo_event \<in> set (rb_buf r)"
proof -
  have p: "(scope_global, demo_waiting) \<in> set (gs_pending (eg_store (engine_advance_watermark demo_env 120 demo_adgl)))"
    "demo_pending \<in> set (wq_heap demo_waiting)"
    by (simp add: demo_adgl_advanced, simp add: demo_waiting_def)
  have e: "store_ring (pm_scope demo_pending) (eg_store demo_adgl) = Some demo_ring" "demo_event \<in> set (rb_buf demo_ring)"
    "i64_ok (en_time demo_event)" "anchor_of demo_event 50 demo_pending" "(0::int) \<le> 50" "50 \<le> li_max_lookback store_limits_default"
    by (simp add: demo_adgl_store demo_pending_def store_ring_def hm_get_def, simp add: demo_ring_def,
        simp_all add: demo_event_def event_new_def i64_defs anchor_of_def demo_pending_def time_add_def
          store_limits_default_def dur_def duration_from_millis_def)
  show ?thesis using gc_keeps_pending_anchors [OF demo_adgl_run p e] by (simp add: demo_pending_def)
qed

end
