(* ===== verification/Adgl_Semantics.thy ===== *)
theory Adgl_Semantics
  imports Adgl_Engine_Run
begin

text \<open>
  What the engine's operations mean: a correlation counts the candidates whose topology check is
  true, a weight is applied once per provenance key, the offline watermark is the latest event
  time.
\<close>

subsection \<open>Correlation\<close>

text \<open>Resolving a path may add a diagnostic; its answer depends on the interner only.\<close>

lemma resolve_scope_path_pure:
  "eg_interner (snd (resolve_scope_path rule path name b eg)) = eg_interner eg"
  "eg_interner eg' = eg_interner eg \<Longrightarrow>
   fst (resolve_scope_path rule path name b eg') = fst (resolve_scope_path rule path name b eg)"
  by (auto simp: resolve_scope_path_def push_diag_def split: list.split tail_scope.split)

lemma resolve_topo_arg_pure:
  "eg_interner (snd (resolve_topo_arg spec rule partial cand path eg)) = eg_interner eg"
  "eg_interner eg' = eg_interner eg \<Longrightarrow>
   fst (resolve_topo_arg spec rule partial cand path eg') = fst (resolve_topo_arg spec rule partial cand path eg)"
  by (auto simp: resolve_topo_arg_def Let_def resolve_scope_path_pure(1) split: option.split
      intro: resolve_scope_path_pure(2))

lemma eval_topo_eq:
  "eval_topo env spec (Some f) rule partial cand eg =
     (case tc_args (co_topo spec) of
        [p, q] \<Rightarrow>
          (let r1 = resolve_topo_arg spec rule partial cand p eg;
               r2 = resolve_topo_arg spec rule partial cand q (snd r1)
           in (if fst r1 = None \<or> fst r2 = None then TUnknown else ev_topo env f (the (fst r1)) (the (fst r2)), snd r2))
      | _ \<Rightarrow> (TUnknown, eg))"
proof -
  have "(case resolve_topo_arg spec rule partial cand p eg of
          (a, eg1) \<Rightarrow> (case resolve_topo_arg spec rule partial cand q eg1 of
             (b, eg2) \<Rightarrow> (case (a, b) of (Some a, Some b) \<Rightarrow> (ev_topo env f a b, eg2) | _ \<Rightarrow> (TUnknown, eg2))))
      = (let r1 = resolve_topo_arg spec rule partial cand p eg;
             r2 = resolve_topo_arg spec rule partial cand q (snd r1)
         in (if fst r1 = None \<or> fst r2 = None then TUnknown else ev_topo env f (the (fst r1)) (the (fst r2)), snd r2))"
    for p q
  proof -
    obtain a eg1 where r1: "resolve_topo_arg spec rule partial cand p eg = (a, eg1)" by force
    obtain b eg2 where r2: "resolve_topo_arg spec rule partial cand q eg1 = (b, eg2)" by force
    show ?thesis by (simp add: r1 r2 Let_def split: option.split)
  qed
  then show ?thesis by (simp add: eval_topo_def split: list.split)
qed

lemma eval_topo_pure:
  "eg_interner (snd (eval_topo env spec func rule partial cand eg)) = eg_interner eg"
  "eg_interner eg' = eg_interner eg \<Longrightarrow>
   fst (eval_topo env spec func rule partial cand eg') = fst (eval_topo env spec func rule partial cand eg)"
proof -
  show "eg_interner (snd (eval_topo env spec func rule partial cand eg)) = eg_interner eg"
  proof (cases func)
    case (Some f)
    show ?thesis unfolding Some eval_topo_eq by (auto simp: Let_def resolve_topo_arg_pure(1) split: list.split)
  qed (simp add: eval_topo_def)
  assume e: "eg_interner eg' = eg_interner eg"
  have 1: "fst (resolve_topo_arg spec rule partial cand p eg') = fst (resolve_topo_arg spec rule partial cand p eg)" for p
    by (rule resolve_topo_arg_pure(2) [OF e])
  have 2: "fst (resolve_topo_arg spec rule partial cand q (snd (resolve_topo_arg spec rule partial cand p eg')))
      = fst (resolve_topo_arg spec rule partial cand q (snd (resolve_topo_arg spec rule partial cand p eg)))" for p q
    by (rule resolve_topo_arg_pure(2)) (simp add: resolve_topo_arg_pure(1) e)
  show "fst (eval_topo env spec func rule partial cand eg') = fst (eval_topo env spec func rule partial cand eg)"
  proof (cases func)
    case (Some f)
    show ?thesis unfolding Some eval_topo_eq by (auto simp: Let_def 1 2 split: list.split)
  qed (simp add: eval_topo_def)
qed

definition correlate_truth ::
    "'s engine_env \<Rightarrow> correlate_spec \<Rightarrow> rule_instance \<Rightarrow> binding list \<Rightarrow> 's engine \<Rightarrow> bound \<Rightarrow> t3" where
  "correlate_truth env spec rule partial eg cand =
     fst (eval_topo env spec (topo_from_idx (tc_func_idx (co_topo spec))) rule partial cand eg)"

text \<open>The binding by counting all candidates, without stopping early.\<close>

definition counted_binding :: "nat \<Rightarrow> (bound \<Rightarrow> t3) \<Rightarrow> bound list \<Rightarrow> binding" where
  "counted_binding min_match truth cands =
     (let found = filter (\<lambda>c. truth c = TTrue) cands in
      if min_match \<le> length found then (case found of [] \<Rightarrow> Unbound | c # _ \<Rightarrow> Bound c)
      else if TUnknown \<in> truth ` set cands then Unbound else Absent)"

lemma count_candidates_spec:
  assumes "\<And>c eg'. eg_interner eg' = eg_interner eg \<Longrightarrow> fst (eval_topo env spec func rule partial c eg') = truth c"
    and "co_min_match spec \<le> 255" "n < max 1 (co_min_match spec)" "w = None \<longleftrightarrow> n = 0"
  shows "binding_of_count (co_min_match spec) (fst (count_candidates env spec func rule partial cands (n, w, u) eg))
    = (let found = filter (\<lambda>c. truth c = TTrue) cands in
       if co_min_match spec \<le> n + length found
       then (case w of Some c \<Rightarrow> Bound c | None \<Rightarrow> (case found of [] \<Rightarrow> Unbound | c # _ \<Rightarrow> Bound c))
       else if u \<or> TUnknown \<in> truth ` set cands then Unbound else Absent)"
  using assms
proof (induction cands arbitrary: n w u eg)
  case Nil
  then show ?case by (auto simp: binding_of_count_def split: option.split)
next
  case (Cons c cands)
  obtain t eg' where e: "eval_topo env spec func rule partial c eg = (t, eg')" by force
  have t: "truth c = t" using Cons.prems(1) [of eg c] e by simp
  have i: "eg_interner eg' = eg_interner eg" using eval_topo_pure(1) [of env spec func rule partial c eg] e by simp
  note IH = Cons.IH [of eg', unfolded i, OF Cons.prems(1,2)]
  show ?case
  proof (cases t)
    case TTrue
    show ?thesis
    proof (cases "co_min_match spec \<le> Suc n")
      case True
      then show ?thesis
        using Cons.prems(2-4) e t TTrue
        by (auto simp: Let_def binding_of_count_def min_def split: option.split)
    next
      case False
      then have "min (Suc n) 255 = Suc n" using Cons.prems(2) by simp
      then show ?thesis
        using False Cons.prems(4) e t TTrue IH [of "Suc n" "Some (case w of None \<Rightarrow> c | Some w \<Rightarrow> w)" u]
        by (auto simp: Let_def split: option.splits)
    qed
  next
    case TFalse
    with Cons.prems(3,4) e t IH [of n w u] show ?thesis by simp
  next
    case TUnknown
    with Cons.prems(3,4) e t IH [of n w True] show ?thesis by simp
  qed
qed

text \<open>C26: correlation. The binding of a correlate with a calculable window is decided by counting: it
  is bound to the first candidate whose topology check is true when at least \<open>min_match\<close> are, it
  is unbound when some check was unknown, and absent only when every check was definite. That the
  code stops counting early, and counts in a saturating byte, makes no difference.\<close>

theorem correlate_counts:
  assumes "co_window spec = Calculable lb fwd" "co_min_match spec \<le> 255"
  shows "fst (resolve_correlate env rule anchor scope spec partial eg)
    = counted_binding (co_min_match spec) (correlate_truth env spec rule partial eg)
        (correlate_candidates (eg_store eg) scope anchor (co_source spec) lb fwd)"
proof -
  let ?func = "topo_from_idx (tc_func_idx (co_topo spec))"
  let ?eg1 = "if ?func = None then push_diag (PredicateError (ru_id rule)
                (UnknownTopoFunction (tc_func_idx (co_topo spec)))) eg else eg"
  let ?cands = "correlate_candidates (eg_store eg) scope anchor (co_source spec) lb fwd"
  have i: "eg_interner ?eg1 = eg_interner eg" by (simp add: push_diag_def)
  have "fst (eval_topo env spec ?func rule partial c eg') = correlate_truth env spec rule partial eg c"
    if "eg_interner eg' = eg_interner ?eg1" for c eg'
    unfolding correlate_truth_def by (rule eval_topo_pure(2)) (use that i in simp)
  note c = count_candidates_spec [of ?eg1 env spec ?func rule partial, OF this assms(2), of 0 None ?cands False]
  have "fst (resolve_correlate env rule anchor scope spec partial eg)
      = binding_of_count (co_min_match spec) (fst (count_candidates env spec ?func rule partial ?cands (0, None, False) ?eg1))"
    by (simp only: resolve_correlate_def assms(1) window_proof.case Let_def) (simp only: fst_conv split: prod.split, simp)
  also have "\<dots> = counted_binding (co_min_match spec) (correlate_truth env spec rule partial eg) ?cands"
    using c unfolding counted_binding_def Let_def by simp
  finally show ?thesis .
qed

text \<open>An event after the anchor whose topology check is unknown: the correlate is unbound, not absent.\<close>

definition demo_spec :: correlate_spec where
  "demo_spec = \<lparr>co_binding = ''x'', co_source = CorrEvent ''tcp.reset'',
     co_topo = \<lparr>tc_func = ''same_session'', tc_func_idx = 0, tc_args = [''e'', ''x'']\<rparr>, co_window = Calculable 0 50, co_min_match = 1\<rparr>"

definition demo_later :: event_node where
  "demo_later = demo_event\<lparr>en_id := 8, en_time := 120\<rparr>"

theorem correlate_counts_witness:
  "fst (resolve_correlate demo_env demo_rule (BEvent demo_event) scope_global demo_spec [Bound (BEvent demo_event)]
     ((adgl_new demo_env [] store_limits_default)
        \<lparr>eg_store := snd (push_event demo_later (store_new store_limits_default))\<rparr>)) = Unbound"
proof -
  let ?eg = "(adgl_new demo_env [] store_limits_default)
        \<lparr>eg_store := snd (push_event demo_later (store_new store_limits_default))\<rparr>"
  have cands: "correlate_candidates (eg_store ?eg) scope_global (BEvent demo_event) (CorrEvent ''tcp.reset'') 0 50
      = [BEvent demo_later]"
    by (simp add: correlate_candidates_def event_candidates_def store_ring_def push_event_def store_new_def ring_new_def
        ring_push_def insert_after_def demo_later_def demo_event_def event_new_def scan_window_def time_add_def time_sub_def
        i64_defs store_limits_default_def)
  have unknown: "correlate_truth demo_env demo_spec demo_rule [Bound (BEvent demo_event)] ?eg c = TUnknown" for c
    by (simp add: correlate_truth_def eval_topo_def demo_env_def split: option.split list.split prod.split)
  have w: "co_window demo_spec = Calculable 0 50" "co_min_match demo_spec \<le> 255" by (simp_all add: demo_spec_def)
  have "counted_binding (co_min_match demo_spec)
      (correlate_truth demo_env demo_spec demo_rule [Bound (BEvent demo_event)] ?eg)
      (correlate_candidates (eg_store ?eg) scope_global (BEvent demo_event) (co_source demo_spec) 0 50) = Unbound"
    using cands by (simp add: counted_binding_def unknown) (simp add: demo_spec_def)
  then show ?thesis by (subst correlate_counts [OF w])
qed

subsection \<open>One weight per provenance key\<close>

lemma sub_act_seen: "sub_act cap n sg n' sg' \<Longrightarrow> set (sg_seen sg) \<subseteq> set (sg_seen sg')"
proof (induction rule: sub_act.induct)
  case (sub_infer cause target w key eps t n sg r sg')
  then show ?case
    by (auto simp: infer_in_partition_def try_insert_provenance_def set_insert_def Let_def
        split: if_splits prod.splits bool.splits)
qed (auto simp: mark_in_partition_def resolve_in_partition_def emit_in_partition_def try_mark_emitted_def push_problem_def
    supersede_problems_def ambiguity_entry_def Let_def split: option.splits prod.splits if_splits bool.splits)

lemma act_seen:
  "act env eg eg' \<Longrightarrow> set (sg_seen (partition sc (eg_store eg))) \<subseteq> set (sg_seen (partition sc (eg_store eg')))"
proof (induction rule: act.induct)
  case (act_part eg s n sg)
  from sub_act_seen [OF act_part(1)] show ?case by (simp add: partition_put)
next
  case (act_rollup eg cause s scs child t r sg)
  from act_rollup(1) have "sg_seen sg = sg_seen (partition s (eg_store eg))"
    by (auto simp: rollup_in_partition_def Let_def split: if_splits prod.splits)
  then show ?case by (simp add: partition_put)
qed (simp_all add: push_diag_def emit_action_def touch_def)

lemma acts_seen_keys:
  "acts env eg eg' \<Longrightarrow> has_provenance key (partition sc (eg_store eg)) \<Longrightarrow> has_provenance key (partition sc (eg_store eg'))"
proof (induction rule: rtranclp_induct)
  case (step eg1 eg2)
  from act_seen [OF step(2), of sc] step show ?case by (auto simp: has_provenance_def)
qed

text \<open>C27: deduplication across a cascade. Once a weight has been applied for a provenance key (rule,
  cause, target and time window) in a scope, no number of further firings makes it count again:
  the same inference finds its key, and leaves causes, confidences and edges as they are.\<close>

theorem weight_applied_once:
  assumes first: "infer_in_partition cap cause target w key eps t n (partition sc (eg_store eg)) = (Inferred snap created, sg)"
    and later: "acts env (put_partition sc sg m eg) eg'"
    and again: "infer_in_partition cap' cause' target' w' key eps' t' n' (partition sc (eg_store eg')) = (r, sg')"
  shows "sg_causes sg' = sg_causes (partition sc (eg_store eg')) \<and> sg_edges sg' = sg_edges (partition sc (eg_store eg'))
    \<and> (\<forall>snap created. r \<noteq> Inferred snap created)"
proof -
  have "has_provenance key sg"
    using first by (auto simp: infer_in_partition_def try_insert_provenance_def set_insert_def has_provenance_def Let_def
        split: if_splits prod.splits bool.splits)
  then have "has_provenance key (partition sc (eg_store eg'))"
    by (intro acts_seen_keys [OF later]) (simp add: partition_put)
  with again show ?thesis
    by (auto simp: infer_in_partition_def try_insert_provenance_def set_insert_def has_provenance_def split: if_splits)
qed

theorem weight_applied_once_witness:
  "let infer = infer_in_partition 256 ''C'' scope_global (Weight 40) (demo_key 3) [] 100 1;
       eg = put_partition scope_global (snd (infer subgraph_new)) 1 (adgl_new demo_env [] store_limits_default);
       eg' = push_diag (RuleFiringsExceeded scope_global) eg
   in sg_causes (snd (infer (partition scope_global (eg_store eg')))) = sg_causes (partition scope_global (eg_store eg'))"
proof -
  let ?infer = "infer_in_partition 256 ''C'' scope_global (Weight 40) (demo_key 3) [] 100 1"
  let ?eg = "adgl_new demo_env [] store_limits_default"
  let ?eg' = "push_diag (RuleFiringsExceeded scope_global) (put_partition scope_global (snd (?infer subgraph_new)) 1 ?eg)"
  have p: "partition scope_global (eg_store ?eg) = subgraph_new"
    by (simp add: adgl_new_def store_new_def partition_def)
  obtain snap created sg where first: "?infer (partition scope_global (eg_store ?eg)) = (Inferred snap created, sg)"
    by (cases "?infer subgraph_new")
      (auto simp: p infer_in_partition_def at_capacity_def subgraph_new_def try_insert_provenance_def set_insert_def
        cause_entry_def Let_def)
  have later: "acts demo_env (put_partition scope_global sg 1 ?eg) ?eg'"
    using first by (simp add: p acts_push)
  obtain r sg' where again: "?infer (partition scope_global (eg_store ?eg')) = (r, sg')" by force
  from weight_applied_once [OF first later again] again show ?thesis by (simp add: Let_def)
qed

subsection \<open>The offline watermark\<close>

text \<open>C28: offline, the watermark is the latest event time: after any sequence of ingested events, in
  any order, it is the maximum of their times (and its initial value on no events), whatever rules
  they fired.\<close>

theorem offline_watermark_latest:
  assumes "ev_mode env = Offline" "run_ops (adgl_apply env) (map Ingest es) (adgl_new env sink li) = Some eg"
  shows "gs_watermark (eg_store eg) = fold max (map en_time es) i64_min"
proof -
  have "gs_watermark (eg_store eg') = fold max (map en_time es) (gs_watermark (eg_store eg0))"
    if "engine_ok li eg0" "run_ops (adgl_apply env) (map Ingest es) eg0 = Some eg'" for eg0 eg' es
    using that
  proof (induction es arbitrary: eg0)
    case (Cons e es)
    have "gs_watermark (eg_store (ingest env e eg0)) = max (en_time e) (gs_watermark (eg_store eg0))"
      using ingest_clock [OF Cons.prems(1) assms(1), of e]
      by (simp add: same_clock_def store_advance_def advance_watermark_def Let_def note_event_def touch_def max.commute)
    with Cons.IH [OF ingest_ok [OF Cons.prems(1)]] Cons.prems(2) show ?case by simp
  qed simp
  from this [OF adgl_new_ok assms(2)] show ?thesis by (simp add: adgl_new_def store_new_def)
qed

theorem offline_watermark_latest_witness: "gs_watermark (eg_store demo_adgl) = 100"
proof -
  have "run_ops (adgl_apply demo_env) (map Ingest [demo_event]) (adgl_new demo_env [] store_limits_default) = Some demo_adgl"
    using demo_adgl_run by simp
  from offline_watermark_latest [OF _ this] show ?thesis
    by (simp add: demo_env_def demo_event_def event_new_def i64_defs)
qed

end
