(* ===== verification/Adgl_Ast.thy ===== *)
theory Adgl_Ast
  imports Adgl_Catalog
begin

text \<open>
  Diagnostics with source spans (crates/ndsl-diag/src/lib.rs) and the abstract syntax of ADGL
  rulesets (crates/airpulse\_dsl-syntax/src/ast.rs), the input of the verifier: declarations,
  evidence and decision rules, correlate blocks, statements and expressions. A struct is a record
  with the source's fields in their order, an enum a datatype with the source's variants;
  identifiers and string literals are byte strings, integer literals the \<open>i64\<close> they carry.
\<close>

subsection \<open>Diagnostics (ndsl-diag)\<close>

record span =
  sp_start :: nat
  sp_stop :: nat

definition span_new :: "nat \<Rightarrow> nat \<Rightarrow> span" where
  "span_new start stop = \<lparr>sp_start = start, sp_stop = max stop start\<rparr>"

definition span_unknown :: span where
  "span_unknown = \<lparr>sp_start = 0, sp_stop = 0\<rparr>"

datatype diag_severity = DiagError | DiagWarning | DiagNote

record diagnostic =
  dg_severity :: diag_severity
  dg_code :: string
  dg_message :: string
  dg_span :: span

type_synonym diag_buffer = "diagnostic list"

definition diag_error :: "string \<Rightarrow> string \<Rightarrow> span \<Rightarrow> diagnostic" where
  "diag_error code message sp = \<lparr>dg_severity = DiagError, dg_code = code, dg_message = message, dg_span = sp\<rparr>"

definition diag_warning :: "string \<Rightarrow> string \<Rightarrow> span \<Rightarrow> diagnostic" where
  "diag_warning code message sp = \<lparr>dg_severity = DiagWarning, dg_code = code, dg_message = message, dg_span = sp\<rparr>"

definition diag_note :: "string \<Rightarrow> string \<Rightarrow> span \<Rightarrow> diagnostic" where
  "diag_note code message sp = \<lparr>dg_severity = DiagNote, dg_code = code, dg_message = message, dg_span = sp\<rparr>"

definition has_errors :: "diag_buffer \<Rightarrow> bool" where
  "has_errors ds = list_ex (\<lambda>d. dg_severity d = DiagError) ds"

lemma has_errors_simps [simp]:
  "\<not> has_errors []"
  "has_errors (d # ds) \<longleftrightarrow> dg_severity d = DiagError \<or> has_errors ds"
  "has_errors (ds @ es) \<longleftrightarrow> has_errors ds \<or> has_errors es"
  by (simp_all add: has_errors_def)

lemma has_errors_concat [simp]: "has_errors (concat dss) \<longleftrightarrow> (\<exists>ds\<in>set dss. has_errors ds)"
  by (induction dss) auto

lemma diag_severity [simp]:
  "dg_severity (diag_error c m sp) = DiagError"
  "dg_severity (diag_warning c m sp) = DiagWarning"
  by (simp_all add: diag_error_def diag_warning_def)

subsection \<open>Tokens with spans\<close>

record ident =
  id_name :: string
  id_span :: span

record kind_ident =
  ki_segments :: "ident list"
  ki_span :: span

record string_lit =
  sl_value :: string
  sl_span :: span

record int_lit =
  il_value :: int
  il_span :: span

record duration_lit =
  dl_millis :: int
  dl_span :: span

subsection \<open>Expressions\<close>

datatype adgl_unop = UnNot

datatype adgl_binop =
    BinOr | BinAnd | BinEq | BinNe | BinLt | BinLe | BinGt | BinGe | BinIn
  | BinAdd | BinSub | BinMul | BinDiv | BinRem

datatype adgl_expr = Expr (ex_kind: expr_kind) (ex_span: span)
and expr_kind =
    XInt int_lit
  | XDuration duration_lit
  | XString string_lit
  | XIdent ident
  | XBool bool
  | XPresent ident
  | XAbsent ident
  | XUnary adgl_unop adgl_expr
  | XBinary adgl_binop adgl_expr adgl_expr
  | XField adgl_expr ident
  | XCall adgl_expr "adgl_expr list"
  | XIndex adgl_expr adgl_expr

subsection \<open>Anchors and correlates\<close>

record anchor_block =
  ab_binding :: ident
  ab_event_type :: kind_ident
  ab_predicate :: "adgl_expr option"
  ab_span :: span

record cause_anchor =
  cn_binding :: ident
  cn_cause :: ident
  cn_predicate :: adgl_expr
  cn_span :: span

record problem_anchor =
  pn_binding :: ident
  pn_problem :: ident
  pn_predicate :: "adgl_expr option"
  pn_span :: span

datatype decision_anchor = OnCause cause_anchor | OnProblem problem_anchor

record min_match_clause =
  mm_count :: int
  mm_span :: span

datatype ast_source = SourceEvent kind_ident | SourceProblem ident | SourceCause ident

record topo_predicate =
  tp_name :: ident
  tp_args :: "adgl_expr list"
  tp_span :: span

record time_window =
  tw_probe :: adgl_expr
  tw_start :: adgl_expr
  tw_stop :: adgl_expr
  tw_span :: span

record correlate_block =
  cb_binding :: ident
  cb_source :: ast_source
  cb_topo :: topo_predicate
  cb_time :: time_window
  cb_min_match :: "min_match_clause option"
  cb_span :: span

subsection \<open>Statements\<close>

datatype infer_field =
    InferTarget adgl_expr span
  | InferWeight int span
  | InferEvidence "ident list" span

record infer_stmt =
  is_cause :: ident
  is_fields :: "infer_field list"
  is_span :: span

fun weight_field :: "infer_field \<Rightarrow> (int \<times> span) option" where
  "weight_field (InferWeight v sp) = Some (v, sp)"
| "weight_field _ = None"

datatype emit_field =
    EmitTarget adgl_expr span
  | EmitSeverity severity span
  | EmitEvidence "ident list" span
  | EmitSarifId string_lit span

record emit_stmt =
  em_problem :: ident
  em_fields :: "emit_field list"
  em_span :: span

datatype action_name = Known action_kind | Custom ident

datatype action_field =
    ActionTarget adgl_expr span
  | ActionReason string_lit span
  | ActionEvidence "ident list" span

record action_stmt =
  ac_action :: action_name
  ac_arg :: "kind_ident option"
  ac_fields :: "action_field list"
  ac_span :: span

datatype adgl_stmt = StInfer infer_stmt | StEmit emit_stmt | StAction action_stmt

record if_else_block =
  ie_condition :: adgl_expr
  ie_then :: "adgl_stmt list"
  ie_else :: "adgl_stmt list option"
  ie_span :: span

subsection \<open>Rules and rulesets\<close>

record evidence_rule =
  ev_name :: ident
  ev_doc :: "string option"
  ev_scope :: scope_type
  ev_anchor :: anchor_block
  ev_correlates :: "correlate_block list"
  ev_if_else :: "if_else_block option"
  ev_body :: "adgl_stmt list"
  ev_span :: span

record decision_rule =
  de_name :: ident
  de_doc :: "string option"
  de_scope :: scope_type
  de_anchor :: decision_anchor
  de_correlates :: "correlate_block list"
  de_if_else :: "if_else_block option"
  de_body :: "adgl_stmt list"
  de_span :: span

datatype rule_decl = EvidenceDecl evidence_rule | DecisionDecl decision_rule

record requires_decl =
  rq_capabilities :: "string_lit list"
  rq_span :: span

record exclusive_decl =
  me_idents :: "ident list"
  me_span :: span

datatype adgl_decl = Requires requires_decl | MutuallyExclusive exclusive_decl

record ruleset_header =
  rh_version :: string_lit
  rh_decls :: "adgl_decl list"
  rh_span :: span

record ruleset =
  rs_name :: string_lit
  rs_doc :: "string option"
  rs_header :: ruleset_header
  rs_rules :: "rule_decl list"
  rs_span :: span

text \<open>The parts both kinds of rule share; the verifier's phases match on the kind and then read
  them.\<close>

fun decl_name :: "rule_decl \<Rightarrow> ident" where
  "decl_name (EvidenceDecl e) = ev_name e"
| "decl_name (DecisionDecl d) = de_name d"

fun decl_kind :: "rule_decl \<Rightarrow> rule_kind" where
  "decl_kind (EvidenceDecl e) = Evidence"
| "decl_kind (DecisionDecl d) = Decision"

fun decl_scope :: "rule_decl \<Rightarrow> scope_type" where
  "decl_scope (EvidenceDecl e) = ev_scope e"
| "decl_scope (DecisionDecl d) = de_scope d"

fun decl_correlates :: "rule_decl \<Rightarrow> correlate_block list" where
  "decl_correlates (EvidenceDecl e) = ev_correlates e"
| "decl_correlates (DecisionDecl d) = de_correlates d"

fun decl_if_else :: "rule_decl \<Rightarrow> if_else_block option" where
  "decl_if_else (EvidenceDecl e) = ev_if_else e"
| "decl_if_else (DecisionDecl d) = de_if_else d"

fun decl_body :: "rule_decl \<Rightarrow> adgl_stmt list" where
  "decl_body (EvidenceDecl e) = ev_body e"
| "decl_body (DecisionDecl d) = de_body d"

fun decl_span :: "rule_decl \<Rightarrow> span" where
  "decl_span (EvidenceDecl e) = ev_span e"
| "decl_span (DecisionDecl d) = de_span d"

text \<open>The binding the anchor names.\<close>

fun anchor_binding :: "rule_decl \<Rightarrow> ident" where
  "anchor_binding (EvidenceDecl e) = ab_binding (ev_anchor e)"
| "anchor_binding (DecisionDecl d) =
     (case de_anchor d of OnCause c \<Rightarrow> cn_binding c | OnProblem p \<Rightarrow> pn_binding p)"

fun anchor_predicate :: "rule_decl \<Rightarrow> adgl_expr option" where
  "anchor_predicate (EvidenceDecl e) = ab_predicate (ev_anchor e)"
| "anchor_predicate (DecisionDecl d) =
     (case de_anchor d of OnCause c \<Rightarrow> Some (cn_predicate c) | OnProblem p \<Rightarrow> pn_predicate p)"

end
