(* ===== verification/Adgl_Check.thy ===== *)
theory Adgl_Check
  imports Adgl_Ast
begin

text \<open>
  The checks of the ADGL verifier (crates/airpulse\_dsl-verify/src/lib.rs, phases 1 to 5): the
  binding environment of a rule, catalog resolution, name resolution and typing, calls in pure
  positions, capabilities and target scopes. The verifier pushes diagnostics on one buffer; here
  each check returns the diagnostics it pushes, in their order, and the caller appends them.
\<close>

subsection \<open>Names and binding environments\<close>

definition kind_ident_name :: "kind_ident \<Rightarrow> string" where
  "kind_ident_name k =
     (case map id_name (ki_segments k) of
        [] \<Rightarrow> []
      | s # ss \<Rightarrow> s @ concat (map (\<lambda>t. ''.'' @ t) ss))"

definition ast_action_name :: "action_stmt \<Rightarrow> string" where
  "ast_action_name a = (case ac_action a of Known k \<Rightarrow> action_str k | Custom i \<Rightarrow> id_name i)"

text \<open>\<open>BindingTy\<close> has the variants of the catalog's \<open>EventOrBindingType\<close>.\<close>

record rule_env =
  re_scope :: scope_type
  re_bindings :: "(string, binding_type) hmap"
  re_index :: "(string, nat) hmap"

definition correlate_binding_ty :: "correlate_block \<Rightarrow> binding_type option" where
  "correlate_binding_ty c =
     (case cb_source c of
        SourceEvent k \<Rightarrow> Some (EventOf (kind_ident_name k))
      | SourceCause k \<Rightarrow> Some (CauseOf (id_name k))
      | SourceProblem k \<Rightarrow> Some (ProblemOf (id_name k)))"

definition anchor_binding_ty :: "rule_decl \<Rightarrow> binding_type" where
  "anchor_binding_ty r =
     (case r of
        EvidenceDecl e \<Rightarrow> EventOf (kind_ident_name (ab_event_type (ev_anchor e)))
      | DecisionDecl d \<Rightarrow>
          (case de_anchor d of
             OnCause c \<Rightarrow> CauseOf (id_name (cn_cause c))
           | OnProblem p \<Rightarrow> ProblemOf (id_name (pn_problem p))))"

text \<open>Correlate \<open>i\<close> gets the index \<open>(i + 1) as u8\<close>; a later binding of a name replaces an earlier
  one.\<close>

definition bind_correlate :: "nat \<times> correlate_block \<Rightarrow> rule_env \<Rightarrow> rule_env" where
  "bind_correlate ic env =
     (let name = id_name (cb_binding (snd ic)) in
      case correlate_binding_ty (snd ic) of
        Some b \<Rightarrow> env\<lparr>re_bindings := hm_put name b (re_bindings env),
                     re_index := hm_put name ((fst ic + 1) mod 256) (re_index env)\<rparr>
      | None \<Rightarrow> env)"

definition for_rule :: "rule_decl \<Rightarrow> rule_env" where
  "for_rule r =
     (let name = id_name (anchor_binding r) in
      fold bind_correlate (enumerate 0 (decl_correlates r))
        \<lparr>re_scope = decl_scope r, re_bindings = hm_put name (anchor_binding_ty r) [],
         re_index = hm_put name 0 []\<rparr>)"

text \<open>\<open>gather_rule_statements\<close>: the body, then both branches.\<close>

definition gather_rule_statements :: "rule_decl \<Rightarrow> adgl_stmt list" where
  "gather_rule_statements r =
     decl_body r @
     (case decl_if_else r of
        None \<Rightarrow> []
      | Some ie \<Rightarrow> ie_then ie @ (case ie_else ie of None \<Rightarrow> [] | Some b \<Rightarrow> b))"

subsection \<open>Phase 1: catalog resolution\<close>

definition event_diags :: "kind_ident \<Rightarrow> diag_buffer" where
  "event_diags k =
     (if resolve_event (kind_ident_name k) = None
      then [diag_error ''ADGL0201'' ''unknown event type'' (ki_span k)] else [])"

definition cause_diags :: "ident \<Rightarrow> diag_buffer" where
  "cause_diags i =
     (if resolve_cause (id_name i) = None then [diag_error ''ADGL0202'' ''unknown cause kind'' (id_span i)] else [])"

definition problem_diags :: "ident \<Rightarrow> diag_buffer" where
  "problem_diags i =
     (if resolve_problem (id_name i) = None
      then [diag_error ''ADGL0203'' ''unknown problem kind'' (id_span i)] else [])"

definition source_diags :: "correlate_block \<Rightarrow> diag_buffer" where
  "source_diags c =
     (case cb_source c of
        SourceEvent k \<Rightarrow> event_diags k
      | SourceCause i \<Rightarrow> cause_diags i
      | SourceProblem i \<Rightarrow> problem_diags i)"

definition anchor_diags :: "rule_decl \<Rightarrow> diag_buffer" where
  "anchor_diags r =
     (case r of
        EvidenceDecl e \<Rightarrow> event_diags (ab_event_type (ev_anchor e))
      | DecisionDecl d \<Rightarrow>
          (case de_anchor d of
             OnCause c \<Rightarrow> cause_diags (cn_cause c)
           | OnProblem p \<Rightarrow> problem_diags (pn_problem p)))"

definition evidence_diags :: "rule_env \<Rightarrow> ident list \<Rightarrow> span \<Rightarrow> diag_buffer" where
  "evidence_diags env ids sp =
     concat (map (\<lambda>i. if hm_contains (re_bindings env) (id_name i) then []
                      else [diag_error ''ADGL0209'' ''unknown evidence binding'' sp]) ids)"

definition kind_arg_diags ::
    "string \<Rightarrow> string \<Rightarrow> string \<Rightarrow> string list \<Rightarrow> action_stmt \<Rightarrow> diag_buffer" where
  "kind_arg_diags code missing unknown kinds a =
     (case ac_arg a of
        None \<Rightarrow> [diag_error code missing (ac_span a)]
      | Some arg \<Rightarrow>
          if kind_ident_name arg \<in> set kinds then [] else [diag_error code unknown (ki_span arg)])"

definition binding_arg_diags :: "rule_env \<Rightarrow> action_stmt \<Rightarrow> diag_buffer" where
  "binding_arg_diags env a =
     (case ac_arg a of
        None \<Rightarrow> [diag_error ''ADGL0209'' ''missing suppress_symptom binding argument'' (ac_span a)]
      | Some arg \<Rightarrow>
          (case ki_segments arg of
             [s] \<Rightarrow>
               (case hm_get (re_bindings env) (id_name s) of
                  Some (ProblemOf p) \<Rightarrow> []
                | _ \<Rightarrow> [diag_error ''ADGL0209'' ''suppress_symptom argument must be a ProblemRef binding'' (ki_span arg)])
           | _ \<Rightarrow> [diag_error ''ADGL0209'' ''suppress_symptom argument must be a ProblemRef binding'' (ki_span arg)]))"

definition action_diags :: "rule_env \<Rightarrow> action_stmt \<Rightarrow> diag_buffer" where
  "action_diags env a =
     (case resolve_action (ast_action_name a) of
        None \<Rightarrow> [diag_error ''ADGL0206'' ''unknown action kind'' (ac_span a)]
      | Some schema \<Rightarrow>
          (case as_arg schema of
             ObservationKind \<Rightarrow>
               kind_arg_diags ''ADGL0207'' ''missing observation kind argument'' ''unknown observation kind''
                 observation_kinds a
           | CheckKind \<Rightarrow>
               kind_arg_diags ''ADGL0208'' ''missing check kind argument'' ''unknown check kind'' check_kinds a
           | ProblemRefBinding \<Rightarrow> binding_arg_diags env a
           | NoArg \<Rightarrow>
               (if ac_arg a \<noteq> None then [diag_error ''ADGL0206'' ''action does not accept argument'' (ac_span a)]
                else [])))"

fun stmt_catalog_diags :: "rule_env \<Rightarrow> adgl_stmt \<Rightarrow> diag_buffer" where
  "stmt_catalog_diags env (StInfer i) =
     cause_diags (is_cause i) @
     concat (map (\<lambda>f. case f of InferEvidence ids sp \<Rightarrow> evidence_diags env ids sp | _ \<Rightarrow> []) (is_fields i))"
| "stmt_catalog_diags env (StEmit e) =
     problem_diags (em_problem e) @
     concat (map (\<lambda>f. case f of EmitEvidence ids sp \<Rightarrow> evidence_diags env ids sp | _ \<Rightarrow> []) (em_fields e))"
| "stmt_catalog_diags env (StAction a) = action_diags env a"

definition validate_stmt_catalog :: "rule_decl \<Rightarrow> adgl_stmt list \<Rightarrow> diag_buffer" where
  "validate_stmt_catalog r stmts = concat (map (stmt_catalog_diags (for_rule r)) stmts)"

definition phase01_catalog_resolution :: "ruleset \<Rightarrow> diag_buffer" where
  "phase01_catalog_resolution rs =
     concat (map (\<lambda>r. anchor_diags r @ concat (map source_diags (decl_correlates r)) @
       validate_stmt_catalog r (gather_rule_statements r)) (rs_rules rs))"

subsection \<open>Phase 2: names and types\<close>

definition is_numeric_type :: "field_type \<Rightarrow> bool" where
  "is_numeric_type t = (t = FInt \<or> t = FConfidence)"

definition is_int_list_type :: "field_type \<Rightarrow> bool" where
  "is_int_list_type t = (t = FIntList)"

definition reject_intlist :: "span \<Rightarrow> diagnostic" where
  "reject_intlist sp = diag_error ''ADGL0213'' ''IntList fields are evidence-only until list predicate IR exists'' sp"

definition types_compatible_for_ordering :: "field_type \<Rightarrow> field_type \<Rightarrow> bool" where
  "types_compatible_for_ordering l r =
     (is_numeric_type l \<and> is_numeric_type r \<or>
      l = FString \<and> r = FString \<or> l = FSeverity \<and> r = FSeverity)"

fun is_scope_id_type :: "field_type \<Rightarrow> bool" where
  "is_scope_id_type (FScopeId s) = True"
| "is_scope_id_type _ = False"

definition types_compatible_for_equality :: "field_type \<Rightarrow> field_type \<Rightarrow> bool" where
  "types_compatible_for_equality l r =
     (types_compatible_for_ordering l r \<or>
      is_scope_id_type l \<and> is_scope_id_type r \<or> l = FScopeIdList \<and> r = FScopeIdList \<or>
      l = FNodeIdList \<and> r = FNodeIdList \<or> l = FSarifId \<and> r = FSarifId)"

definition binary_op_diags ::
    "adgl_binop \<Rightarrow> field_type \<Rightarrow> field_type \<Rightarrow> span \<Rightarrow> span \<Rightarrow> diag_buffer" where
  "binary_op_diags op lt rt sp rsp =
     (if is_int_list_type lt \<or> is_int_list_type rt then [reject_intlist sp] else []) @
     (if op \<in> {BinEq, BinNe} then
        (if types_compatible_for_equality lt rt then []
         else [diag_error ''ADGL0210'' ''comparison operand type mismatch'' sp])
      else if op \<in> {BinLt, BinLe, BinGt, BinGe} then
        (if types_compatible_for_ordering lt rt then []
         else [diag_error ''ADGL0210'' ''ordered comparison requires compatible scalar types'' sp])
      else if op = BinIn then
        (if rt = FScopeIdList then []
         else [diag_error ''ADGL0210'' ''`in` RHS must be a ScopeIdList'' rsp])
      else if op \<in> {BinAdd, BinSub, BinMul, BinDiv, BinRem} then
        (if is_numeric_type lt \<and> is_numeric_type rt then []
         else [diag_error ''ADGL0210'' ''arithmetic operands must be numeric'' sp])
      else [])"

definition dotted :: "string \<Rightarrow> string \<Rightarrow> string" where
  "dotted a b = a @ ''.'' @ b"

fun infer_expr_type :: "rule_env \<Rightarrow> adgl_expr \<Rightarrow> field_type option \<times> diag_buffer" where
  "infer_expr_type env (Expr (XInt i) sp) = (Some FInt, [])"
| "infer_expr_type env (Expr (XDuration d) sp) = (Some FInt, [])"
| "infer_expr_type env (Expr (XString s) sp) = (Some FString, [])"
| "infer_expr_type env (Expr (XBool b) sp) = (Some FInt, [])"
| "infer_expr_type env (Expr (XIdent i) sp) =
     (if hm_contains (re_bindings env) (id_name i) then (Some FNodeIdList, [])
      else (None, [diag_error ''ADGL0209'' ''unknown identifier'' (id_span i)]))"
| "infer_expr_type env (Expr (XPresent i) sp) =
     (if hm_contains (re_bindings env) (id_name i) then (Some FInt, [])
      else (None, [diag_error ''ADGL0209'' ''unknown correlate binding'' (id_span i)]))"
| "infer_expr_type env (Expr (XAbsent i) sp) =
     (if hm_contains (re_bindings env) (id_name i) then (Some FInt, [])
      else (None, [diag_error ''ADGL0209'' ''unknown correlate binding'' (id_span i)]))"
| "infer_expr_type env (Expr (XUnary op e) sp) = infer_expr_type env e"
| "infer_expr_type env (Expr (XBinary op l r) sp) =
     (let (lt, dl) = infer_expr_type env l; (rt, dr) = infer_expr_type env r in
      (Some FInt, dl @ dr @
         (case (lt, rt) of (Some a, Some b) \<Rightarrow> binary_op_diags op a b sp (ex_span r) | _ \<Rightarrow> [])))"
| "infer_expr_type env (Expr (XField b f) sp) =
     (case ex_kind b of
        XIdent i \<Rightarrow>
          (case hm_get (re_bindings env) (id_name i) of
             None \<Rightarrow> (None, [diag_error ''ADGL0209'' ''unknown binding'' (id_span i)])
           | Some ty \<Rightarrow>
               (case resolve_metric_path ty (dotted (id_name i) (id_name f)) of
                  Some (idx, t) \<Rightarrow> if is_int_list_type t then (None, [reject_intlist sp]) else (Some t, [])
                | None \<Rightarrow> (None, [diag_error ''ADGL0209'' ''unknown metric path field'' (id_span f)])))
      | _ \<Rightarrow> (None, [diag_error ''ADGL0209'' ''invalid field access base'' (ex_span b)]))"
| "infer_expr_type env (Expr (XCall c args) sp) =
     (None, [diag_error ''ADGL0501'' ''effectful/topology calls are disallowed in pure expressions'' sp])"
| "infer_expr_type env (Expr (XIndex b i) sp) =
     (let (bt, db) = infer_expr_type env b; (it, di) = infer_expr_type env i in
      (None, db @ (case bt of Some t \<Rightarrow> if is_int_list_type t then [reject_intlist sp] else [] | None \<Rightarrow> []) @ di))"

fun stmt_exprs :: "adgl_stmt \<Rightarrow> adgl_expr list" where
  "stmt_exprs (StInfer i) = concat (map (\<lambda>f. case f of InferTarget e sp \<Rightarrow> [e] | _ \<Rightarrow> []) (is_fields i))"
| "stmt_exprs (StEmit m) = concat (map (\<lambda>f. case f of EmitTarget e sp \<Rightarrow> [e] | _ \<Rightarrow> []) (em_fields m))"
| "stmt_exprs (StAction a) = concat (map (\<lambda>f. case f of ActionTarget e sp \<Rightarrow> [e] | _ \<Rightarrow> []) (ac_fields a))"

definition collect_stmt_exprs :: "adgl_stmt list \<Rightarrow> adgl_expr list" where
  "collect_stmt_exprs stmts = concat (map stmt_exprs stmts)"

definition window_exprs :: "correlate_block \<Rightarrow> adgl_expr list" where
  "window_exprs c = [tw_probe (cb_time c), tw_start (cb_time c), tw_stop (cb_time c)]"

definition rule_exprs :: "rule_decl \<Rightarrow> adgl_expr list" where
  "rule_exprs r =
     (case anchor_predicate r of None \<Rightarrow> [] | Some p \<Rightarrow> [p]) @
     concat (map (\<lambda>c. window_exprs c @ tp_args (cb_topo c)) (decl_correlates r)) @
     collect_stmt_exprs (decl_body r) @
     (case decl_if_else r of
        None \<Rightarrow> []
      | Some ie \<Rightarrow> ie_condition ie # collect_stmt_exprs (ie_then ie) @
          (case ie_else ie of None \<Rightarrow> [] | Some b \<Rightarrow> collect_stmt_exprs b))"

text \<open>\<open>find_map\<close> over the fields of a statement: the first field that has a value.\<close>

fun find_map :: "('a \<Rightarrow> 'b option) \<Rightarrow> 'a list \<Rightarrow> 'b option" where
  "find_map f [] = None"
| "find_map f (x # xs) = (case f x of None \<Rightarrow> find_map f xs | Some y \<Rightarrow> Some y)"

fun infer_target :: "infer_field \<Rightarrow> adgl_expr option" where
  "infer_target (InferTarget e sp) = Some e"
| "infer_target _ = None"

fun emit_target :: "emit_field \<Rightarrow> adgl_expr option" where
  "emit_target (EmitTarget e sp) = Some e"
| "emit_target _ = None"

fun action_target :: "action_field \<Rightarrow> adgl_expr option" where
  "action_target (ActionTarget e sp) = Some e"
| "action_target _ = None"

fun target_allowed :: "field_type \<Rightarrow> action_target_type \<Rightarrow> bool" where
  "target_allowed t TargetScope = is_scope_id_type t"
| "target_allowed t TargetScopeList = (t = FScopeIdList)"

definition validate_action_target_types :: "rule_env \<Rightarrow> action_stmt \<Rightarrow> diag_buffer" where
  "validate_action_target_types env a =
     (case resolve_action (ast_action_name a) of
        None \<Rightarrow> []
      | Some schema \<Rightarrow>
          (case find_map action_target (ac_fields a) of
             Some e \<Rightarrow>
               (case infer_expr_type env e of
                  (None, ds) \<Rightarrow> ds
                | (Some t, ds) \<Rightarrow> ds @
                    (if list_ex (target_allowed t) (as_targets schema) then []
                     else [diag_error ''ADGL0210'' ''action target type is incompatible with action contract''
                             (ex_span e)]))
           | None \<Rightarrow>
               (if as_targets schema \<noteq> [] \<and> as_kind schema \<noteq> SuppressSymptom
                then [diag_error ''ADGL0210'' ''action requires a target field'' (ac_span a)] else [])))"

fun stmt_type_diags :: "rule_env \<Rightarrow> adgl_stmt \<Rightarrow> diag_buffer" where
  "stmt_type_diags env (StInfer i) =
     (if list_ex (\<lambda>f. infer_target f \<noteq> None) (is_fields i) then []
      else [diag_error ''ADGL0210'' ''infer requires an explicit target field'' (is_span i)]) @
     concat (map (\<lambda>f. case weight_field f of
         Some (w, sp) \<Rightarrow>
           if w < - 128 \<or> w > 127 \<or> \<not> (- 100 \<le> w \<and> w \<le> 100)
           then [diag_error ''ADGL0205'' ''weight must be within [-100, 100]'' sp] else []
       | None \<Rightarrow> []) (is_fields i))"
| "stmt_type_diags env (StAction a) = validate_action_target_types env a"
| "stmt_type_diags env (StEmit m) = []"

definition phase02_name_and_typecheck :: "ruleset \<Rightarrow> diag_buffer" where
  "phase02_name_and_typecheck rs =
     concat (map (\<lambda>r. let env = for_rule r in
       concat (map (\<lambda>e. snd (infer_expr_type env e)) (rule_exprs r)) @
       concat (map (stmt_type_diags env) (gather_rule_statements r))) (rs_rules rs))"

subsection \<open>Phase 3: calls in pure positions\<close>

fun check_no_calls :: "adgl_expr \<Rightarrow> diag_buffer" where
  "check_no_calls (Expr (XCall c args) sp) =
     [diag_error ''ADGL0501'' ''calls are not allowed in pure expression positions'' sp]"
| "check_no_calls (Expr (XUnary op e) sp) = check_no_calls e"
| "check_no_calls (Expr (XBinary op l r) sp) = check_no_calls l @ check_no_calls r"
| "check_no_calls (Expr (XField b f) sp) = check_no_calls b"
| "check_no_calls (Expr (XIndex b i) sp) = check_no_calls b @ check_no_calls i"
| "check_no_calls (Expr _ sp) = []"

definition phase03_effect_in_pure :: "ruleset \<Rightarrow> diag_buffer" where
  "phase03_effect_in_pure rs =
     concat (map (\<lambda>r.
       (case anchor_predicate r of None \<Rightarrow> [] | Some p \<Rightarrow> check_no_calls p) @
       concat (map (\<lambda>c. check_no_calls (tw_start (cb_time c)) @ check_no_calls (tw_stop (cb_time c)))
         (decl_correlates r)) @
       (case decl_if_else r of None \<Rightarrow> [] | Some ie \<Rightarrow> check_no_calls (ie_condition ie))) (rs_rules rs))"

subsection \<open>Phase 4: capabilities\<close>

definition phase04_capability :: "ruleset \<Rightarrow> diag_buffer" where
  "phase04_capability rs =
     concat (map (\<lambda>d. case d of
         Requires rq \<Rightarrow>
           concat (map (\<lambda>c. if capability_for (sl_value c) = None
             then [diag_error ''ADGL0430'' ''unknown capability'' (sl_span c)] else []) (rq_capabilities rq))
       | MutuallyExclusive g \<Rightarrow> []) (rh_decls (rs_header rs)))"

subsection \<open>Phase 5: scopes and targets\<close>

text \<open>The scope of a target path: the type of a scope field of an event, or the only valid scope
  of a cause or problem.\<close>

definition only_scope :: "scope_type list \<Rightarrow> scope_type option" where
  "only_scope ss = (case ss of [s] \<Rightarrow> Some s | _ \<Rightarrow> None)"

definition infer_target_scope_expr :: "rule_env \<Rightarrow> adgl_expr \<Rightarrow> scope_type option" where
  "infer_target_scope_expr env e =
     (case ex_kind e of
        XField b f \<Rightarrow>
          (case ex_kind b of
             XIdent i \<Rightarrow>
               (case hm_get (re_bindings env) (id_name i) of
                  None \<Rightarrow> None
                | Some (EventOf t) \<Rightarrow>
                    (case resolve_metric_path (EventOf t) (dotted (id_name i) (id_name f)) of
                       Some (idx, FScopeId s) \<Rightarrow> Some s
                     | _ \<Rightarrow> None)
                | Some (CauseOf k) \<Rightarrow>
                    (if id_name f = ''target''
                     then Option.bind (resolve_cause k) (\<lambda>c. only_scope (ca_scopes c)) else None)
                | Some (ProblemOf k) \<Rightarrow>
                    (if id_name f = ''target''
                     then Option.bind (resolve_problem k) (\<lambda>p. only_scope (pb_scopes p)) else None))
           | _ \<Rightarrow> None)
      | _ \<Rightarrow> None)"

definition infer_target_scope_from_infer :: "rule_env \<Rightarrow> infer_stmt \<Rightarrow> scope_type option" where
  "infer_target_scope_from_infer env i =
     find_map (\<lambda>f. Option.bind (infer_target f) (infer_target_scope_expr env)) (is_fields i)"

definition infer_target_scope_from_emit :: "rule_env \<Rightarrow> emit_stmt \<Rightarrow> scope_type option" where
  "infer_target_scope_from_emit env m =
     find_map (\<lambda>f. Option.bind (emit_target f) (infer_target_scope_expr env)) (em_fields m)"

text \<open>\<open>unwrap_or\<close>.\<close>

definition unwrap_or :: "'a \<Rightarrow> 'a option \<Rightarrow> 'a" where
  "unwrap_or d x = (case x of Some v \<Rightarrow> v | None \<Rightarrow> d)"

definition scope_diags ::
    "scope_type \<Rightarrow> scope_type \<Rightarrow> scope_type list option \<Rightarrow> string \<Rightarrow> string \<Rightarrow> span \<Rightarrow> diag_buffer" where
  "scope_diags rule_scope target valid code message sp =
     (if is_subsumed_by rule_scope target then []
      else [diag_error ''ADGL0210'' ''target scope not compatible with rule scope'' sp]) @
     (case valid of
        Some ss \<Rightarrow> if target \<in> set ss then [] else [diag_error code message sp]
      | None \<Rightarrow> [])"

fun stmt_scope_diags :: "rule_env \<Rightarrow> adgl_stmt \<Rightarrow> diag_buffer" where
  "stmt_scope_diags env (StInfer i) =
     scope_diags (re_scope env) (unwrap_or (re_scope env) (infer_target_scope_from_infer env i))
       (map_option ca_scopes (resolve_cause (id_name (is_cause i))))
       ''ADGL0211'' ''cause is invalid for target scope'' (is_span i)"
| "stmt_scope_diags env (StEmit m) =
     scope_diags (re_scope env) (unwrap_or (re_scope env) (infer_target_scope_from_emit env m))
       (map_option pb_scopes (resolve_problem (id_name (em_problem m))))
       ''ADGL0212'' ''problem is invalid for target scope'' (em_span m)"
| "stmt_scope_diags env (StAction a) = []"

definition phase05_scope_target :: "ruleset \<Rightarrow> diag_buffer" where
  "phase05_scope_target rs =
     concat (map (\<lambda>r. concat (map (stmt_scope_diags (for_rule r)) (gather_rule_statements r))) (rs_rules rs))"

end
