(* ===== verification/Adgl_Phases.thy ===== *)
theory Adgl_Phases
  imports Adgl_Check
begin

text \<open>
  The checks of the ADGL verifier over whole rulesets (crates/airpulse\_dsl-verify/src/lib.rs,
  phases 6 to 12): time windows, topology signatures, acyclicity of the rule dependencies,
  exclusivity groups, the separation of evidence and decision rules, limits and privacy.

  Window offsets are \<open>i64\<close> additions, subtractions and a negation without an overflow check of
  their own: with \<open>chk\<close> (a debug build, overflow checks on) an overflow is a panic, the outer \<open>None\<close>;
  without it (the release profile) the value wraps.
\<close>

subsection \<open>Phase 6: time windows\<close>

definition i64_wrap :: "int \<Rightarrow> int" where
  "i64_wrap x = (x + 2 ^ 63) mod 2 ^ 64 - 2 ^ 63"

lemma i64_wrap_id: "i64_ok x \<Longrightarrow> i64_wrap x = x"
  by (simp add: i64_wrap_def i64_defs)

lemma i64_wrap_ok: "i64_ok (i64_wrap x)"
proof -
  have "(x + 2 ^ 63) mod 2 ^ 64 < 2 ^ 64" "0 \<le> (x + 2 ^ 63) mod 2 ^ 64" by simp_all
  then show ?thesis by (simp add: i64_wrap_def i64_defs)
qed

record verify_config =
  vc_max_lookback :: int
  vc_dedup :: int

definition verify_config_default :: verify_config where
  "verify_config_default = \<lparr>vc_max_lookback = 60000, vc_dedup = 1000\<rparr>"

definition is_binding_time_probe :: "adgl_expr \<Rightarrow> string \<Rightarrow> bool" where
  "is_binding_time_probe e binding =
     (case ex_kind e of
        XField b f \<Rightarrow>
          (case ex_kind b of XIdent i \<Rightarrow> id_name i = binding \<and> id_name f = ''time'' | _ \<Rightarrow> False)
      | _ \<Rightarrow> False)"

text \<open>One arithmetic operation on \<open>i64\<close>, given its exact result.\<close>

definition i64_result :: "bool \<Rightarrow> int \<Rightarrow> int option" where
  "i64_result chk x = (if i64_ok x then Some x else if chk then None else Some (i64_wrap x))"

fun as_anchor_offset :: "bool \<Rightarrow> string \<Rightarrow> adgl_expr \<Rightarrow> int option option" where
  "as_anchor_offset chk anchor (Expr (XField b f) sp) =
     Some (case ex_kind b of
        XIdent i \<Rightarrow> if id_name i = anchor \<and> id_name f = ''time'' then Some 0 else None
      | _ \<Rightarrow> None)"
| "as_anchor_offset chk anchor (Expr (XBinary op l r) sp) =
     (if op \<in> {BinAdd, BinSub} then
        (case as_anchor_offset chk anchor l of
           None \<Rightarrow> None
         | Some None \<Rightarrow> Some None
         | Some (Some lhs) \<Rightarrow>
             (case ex_kind r of
                XDuration d \<Rightarrow>
                  map_option Some
                    (i64_result chk (if op = BinAdd then lhs + dl_millis d else lhs - dl_millis d))
              | _ \<Rightarrow> Some None))
      else Some None)"
| "as_anchor_offset chk anchor (Expr _ sp) = Some None"

definition calculable_window ::
    "bool \<Rightarrow> string \<Rightarrow> adgl_expr \<Rightarrow> adgl_expr \<Rightarrow> (int \<times> int) option option" where
  "calculable_window chk anchor start stop =
     (case as_anchor_offset chk anchor start of
        None \<Rightarrow> None
      | Some None \<Rightarrow> Some None
      | Some (Some b) \<Rightarrow>
          (case as_anchor_offset chk anchor stop of
             None \<Rightarrow> None
           | Some None \<Rightarrow> Some None
           | Some (Some f) \<Rightarrow>
               if b > 0 \<or> f < 0 then Some None
               else map_option (\<lambda>nb. Some (nb, f)) (i64_result chk (- b))))"

definition correlate_window :: "bool \<Rightarrow> rule_decl \<Rightarrow> correlate_block \<Rightarrow> (int \<times> int) option option" where
  "correlate_window chk r c =
     calculable_window chk (id_name (anchor_binding r)) (tw_start (cb_time c)) (tw_stop (cb_time c))"

fun rule_forward :: "bool \<Rightarrow> rule_decl \<Rightarrow> correlate_block list \<Rightarrow> int \<Rightarrow> int option" where
  "rule_forward chk r [] m = Some m"
| "rule_forward chk r (c # cs) m =
     (case correlate_window chk r c of
        None \<Rightarrow> None
      | Some w \<Rightarrow> rule_forward chk r cs (case w of Some (b, f) \<Rightarrow> max m f | None \<Rightarrow> m))"

fun rules_forward :: "bool \<Rightarrow> rule_decl list \<Rightarrow> int \<Rightarrow> int option" where
  "rules_forward chk [] m = Some m"
| "rules_forward chk (r # rs) m =
     (case rule_forward chk r (decl_correlates r) m of None \<Rightarrow> None | Some m1 \<Rightarrow> rules_forward chk rs m1)"

definition ruleset_max_forward_window_ms :: "bool \<Rightarrow> ruleset \<Rightarrow> int option" where
  "ruleset_max_forward_window_ms chk rs = rules_forward chk (rs_rules rs) 0"

definition temporal_diags ::
    "bool \<Rightarrow> int \<Rightarrow> rule_decl \<Rightarrow> correlate_block \<Rightarrow> diag_buffer option" where
  "temporal_diags chk allowed r c =
     map_option (\<lambda>w.
       (if is_binding_time_probe (tw_probe (cb_time c)) (id_name (cb_binding c)) then []
        else [diag_error ''ADGL0413'' ''malformed window probe, expected <binding>.time'' (tw_span (cb_time c))]) @
       (case w of
          Some (b, f) \<Rightarrow>
            (if b > allowed \<or> f > allowed
             then [diag_error ''ADGL0412'' ''window exceeds MAX_LOOKBACK'' (tw_span (cb_time c))] else [])
        | None \<Rightarrow> [diag_error ''ADGL0411'' ''non calculable window expression'' (tw_span (cb_time c))]))
       (correlate_window chk r c)"

fun correlates_temporal :: "bool \<Rightarrow> int \<Rightarrow> rule_decl \<Rightarrow> correlate_block list \<Rightarrow> diag_buffer option" where
  "correlates_temporal chk allowed r [] = Some []"
| "correlates_temporal chk allowed r (c # cs) =
     (case temporal_diags chk allowed r c of
        None \<Rightarrow> None
      | Some ds \<Rightarrow> map_option ((@) ds) (correlates_temporal chk allowed r cs))"

fun rules_temporal :: "bool \<Rightarrow> int \<Rightarrow> rule_decl list \<Rightarrow> diag_buffer option" where
  "rules_temporal chk allowed [] = Some []"
| "rules_temporal chk allowed (r # rs) =
     (case correlates_temporal chk allowed r (decl_correlates r) of
        None \<Rightarrow> None
      | Some ds \<Rightarrow> map_option ((@) ds) (rules_temporal chk allowed rs))"

definition allowed_window_ms :: "verify_config \<Rightarrow> int \<Rightarrow> int" where
  "allowed_window_ms cfg slack = i64_saturate (vc_max_lookback cfg - slack)"

definition phase06_temporal :: "bool \<Rightarrow> verify_config \<Rightarrow> ruleset \<Rightarrow> diag_buffer option" where
  "phase06_temporal chk cfg rs =
     (case ruleset_max_forward_window_ms chk rs of
        None \<Rightarrow> None
      | Some slack \<Rightarrow> rules_temporal chk (allowed_window_ms cfg slack) (rs_rules rs))"

text \<open>The release profile never panics here, and phase 6 has visited every window: when it ends,
  no window computation overflows, so no later one does.\<close>

definition windows_compute :: "bool \<Rightarrow> ruleset \<Rightarrow> bool" where
  "windows_compute chk rs \<longleftrightarrow>
     list_all (\<lambda>r. list_all (\<lambda>c. correlate_window chk r c \<noteq> None) (decl_correlates r)) (rs_rules rs)"

lemma i64_result_release: "i64_result False x = Some (i64_wrap x)"
  by (simp add: i64_result_def i64_wrap_id)

lemma as_anchor_offset_release: "\<exists>y. as_anchor_offset chk anchor e = Some y" if "\<not> chk"
  using that
  by (induction chk anchor e rule: as_anchor_offset.induct)
    (auto simp: i64_result_release split: option.splits expr_kind.splits)

lemma correlate_window_release: "correlate_window False r c \<noteq> None"
proof -
  obtain x y where "as_anchor_offset False (id_name (anchor_binding r)) (tw_start (cb_time c)) = Some x"
    "as_anchor_offset False (id_name (anchor_binding r)) (tw_stop (cb_time c)) = Some y"
    using as_anchor_offset_release by blast
  then show ?thesis by (simp add: correlate_window_def calculable_window_def i64_result_release split: option.split)
qed

lemma windows_compute_release: "windows_compute False rs"
  by (simp add: windows_compute_def list_all_iff correlate_window_release)

lemma rule_forward_iff:
  "rule_forward chk r cs m \<noteq> None \<longleftrightarrow> list_all (\<lambda>c. correlate_window chk r c \<noteq> None) cs"
  by (induction cs arbitrary: m) (auto split: option.splits)

lemma rules_forward_iff:
  "rules_forward chk rs m \<noteq> None \<longleftrightarrow>
     list_all (\<lambda>r. list_all (\<lambda>c. correlate_window chk r c \<noteq> None) (decl_correlates r)) rs"
proof (induction rs arbitrary: m)
  case (Cons r rs)
  then show ?case using rule_forward_iff [of chk r "decl_correlates r" m] by (auto split: option.splits)
qed simp

lemma correlates_temporal_iff:
  "correlates_temporal chk allowed r cs \<noteq> None \<longleftrightarrow> list_all (\<lambda>c. correlate_window chk r c \<noteq> None) cs"
  by (induction cs) (auto simp: temporal_diags_def split: option.splits)

lemma rules_temporal_iff:
  "rules_temporal chk allowed rs \<noteq> None \<longleftrightarrow>
     list_all (\<lambda>r. list_all (\<lambda>c. correlate_window chk r c \<noteq> None) (decl_correlates r)) rs"
proof (induction rs)
  case (Cons r rs)
  then show ?case using correlates_temporal_iff [of chk allowed r "decl_correlates r"] by (auto split: option.splits)
qed simp

lemma phase06_iff: "phase06_temporal chk cfg rs \<noteq> None \<longleftrightarrow> windows_compute chk rs"
  using rules_forward_iff [of chk "rs_rules rs" 0] rules_temporal_iff [of chk _ "rs_rules rs"]
  by (auto simp: phase06_temporal_def ruleset_max_forward_window_ms_def windows_compute_def split: option.splits)

subsection \<open>Phase 7: topology signatures\<close>

definition scope_args :: "rule_env \<Rightarrow> adgl_expr list \<Rightarrow> scope_type list" where
  "scope_args env args = List.map_filter (infer_target_scope_expr env) args"

definition topo_diags :: "rule_env \<Rightarrow> correlate_block \<Rightarrow> diag_buffer" where
  "topo_diags env c =
     (let topo = cb_topo c in
      case resolve_topo_fn (id_name (tp_name topo)) of
        None \<Rightarrow> [diag_error ''ADGL0420'' ''unknown topology function'' (id_span (tp_name topo))]
      | Some fn \<Rightarrow>
          (if tf_arity fn \<noteq> length (tp_args topo)
           then [diag_error ''ADGL0421'' ''topology function arity mismatch'' (tp_span topo)] else []) @
          concat (map (\<lambda>a. if infer_target_scope_expr env a = None
            then [diag_error ''ADGL0421'' ''topology args must be scope-id paths'' (ex_span a)] else [])
            (tp_args topo)) @
          (let scopes = scope_args env (tp_args topo) in
           if id_name (tp_name topo) = ''upstream_of'' \<and> length scopes = 2 \<and> scopes ! 0 \<noteq> scopes ! 1
           then [diag_error ''ADGL0421'' ''upstream_of requires same scope type for both args'' (tp_span topo)]
           else []))"

definition phase07_topology_signatures :: "ruleset \<Rightarrow> diag_buffer" where
  "phase07_topology_signatures rs =
     concat (map (\<lambda>r. concat (map (topo_diags (for_rule r)) (decl_correlates r))) (rs_rules rs))"

subsection \<open>Phase 8: acyclic rule dependencies\<close>

text \<open>\<open>cause_anchor_rules\<close> and \<open>problem_anchor_rules\<close>: the decision rules anchored at a cause or a
  problem, by their positions.\<close>

type_synonym anchor_rules = "(string, nat list) hmap \<times> (string, nat list) hmap"

definition index_anchor :: "nat \<times> rule_decl \<Rightarrow> anchor_rules \<Rightarrow> anchor_rules" where
  "index_anchor ir maps =
     (case snd ir of
        EvidenceDecl e \<Rightarrow> maps
      | DecisionDecl d \<Rightarrow>
          (case de_anchor d of
             OnCause c \<Rightarrow> (entry_push (id_name (cn_cause c)) (fst ir) (fst maps), snd maps)
           | OnProblem p \<Rightarrow> (fst maps, entry_push (id_name (pn_problem p)) (fst ir) (snd maps))))"

definition anchor_rules_of :: "rule_decl list \<Rightarrow> anchor_rules" where
  "anchor_rules_of rules = fold index_anchor (enumerate 0 rules) ([], [])"

fun stmt_targets :: "anchor_rules \<Rightarrow> adgl_stmt \<Rightarrow> nat list" where
  "stmt_targets maps (StInfer i) = unwrap_or [] (hm_get (fst maps) (id_name (is_cause i)))"
| "stmt_targets maps (StEmit m) = unwrap_or [] (hm_get (snd maps) (id_name (em_problem m)))"
| "stmt_targets maps (StAction a) = []"

definition rule_edges :: "rule_decl list \<Rightarrow> nat list list" where
  "rule_edges rules =
     (let maps = anchor_rules_of rules in
      map (\<lambda>r. concat (map (stmt_targets maps) (gather_rule_statements r))) rules)"

text \<open>The depth-first search over node colours: 0 not visited, 1 on the stack, 2 done. \<open>dfs_succs\<close>
  is the loop of \<open>dfs_cycle\<close> over the successors of a node, which calls \<open>dfs_cycle\<close> on those not
  visited. Edges stay within the rules; outside them the source would index out of bounds.\<close>

definition unvisited :: "nat list \<Rightarrow> nat" where
  "unvisited state = length (filter (\<lambda>c. c = 0) state)"

function dfs_succs :: "nat list list \<Rightarrow> nat list \<Rightarrow> nat list \<Rightarrow> bool \<times> nat list" where
  "dfs_succs edges [] state = (False, state)"
| "dfs_succs edges (n # ns) state =
     (if \<not> n < length state then (False, state)
      else if state ! n = 1 then (True, state)
      else if state ! n = 0 then
        (case dfs_succs edges (edges ! n) (state[n := 1]) of
           (True, state') \<Rightarrow> (True, state')
         | (False, state') \<Rightarrow> dfs_succs edges ns (state'[n := 2]))
      else dfs_succs edges ns state)"
  by pat_completeness auto

lemma unvisited_update: "n < length xs \<Longrightarrow> xs ! n = 0 \<Longrightarrow> c \<noteq> 0 \<Longrightarrow> unvisited (xs[n := c]) < unvisited xs"
proof (induction xs arbitrary: n)
  case (Cons x xs)
  then show ?case by (cases n) (auto simp: unvisited_def)
qed simp

lemma unvisited_update_le: "c \<noteq> 0 \<Longrightarrow> unvisited (xs[n := c]) \<le> unvisited xs"
  by (induction xs arbitrary: n) (auto simp: unvisited_def split: nat.split)

lemma dfs_succs_unvisited:
  "dfs_succs_dom (edges, ns, state) \<Longrightarrow> unvisited (snd (dfs_succs edges ns state)) \<le> unvisited state"
proof (induction rule: dfs_succs.pinduct)
  case (2 edges n ns state)
  show ?case
  proof (cases "n < length state \<and> state ! n = 0")
    case True
    obtain c st' where s: "dfs_succs edges (edges ! n) (state[n := 1]) = (c, st')" by force
    have le: "unvisited st' \<le> unvisited state"
      using "2.IH"(1) True s unvisited_update [of n state 1] by (simp add: order.trans less_imp_le)
    show ?thesis
    proof (cases c)
      case True
      with le s \<open>n < length state \<and> state ! n = 0\<close> "2.hyps" show ?thesis by (simp add: dfs_succs.psimps)
    next
      case False
      have "unvisited (snd (dfs_succs edges ns (st'[n := 2]))) \<le> unvisited (st'[n := 2])"
        using "2.IH"(2) [OF _ _ _ s [symmetric]] True False by simp
      also have "\<dots> \<le> unvisited state" using le unvisited_update_le [of 2 st' n] by simp
      finally show ?thesis using True False s "2.hyps" by (simp add: dfs_succs.psimps)
    qed
  next
    case False
    with 2 show ?thesis by (auto simp: dfs_succs.psimps)
  qed
qed (simp add: dfs_succs.psimps)

termination dfs_succs
proof (relation "measures [\<lambda>(edges, ns, state). unvisited state, \<lambda>(edges, ns, state). length ns]", goal_cases)
  case (2 edges n ns state)
  then show ?case by (simp add: unvisited_update)
next
  case (3 edges n ns state p st')
  then have "unvisited (st'[n := 2]) \<le> unvisited (state[n := 1])"
    using dfs_succs_unvisited [of edges "edges ! n" "state[n := 1]"] unvisited_update_le [of 2 st' n]
    by (metis One_nat_def order.trans snd_conv zero_neq_numeral)
  with 3 unvisited_update [of n state 1] show ?case by simp
qed auto

definition dfs_cycle :: "nat \<Rightarrow> nat list list \<Rightarrow> nat list \<Rightarrow> bool \<times> nat list" where
  "dfs_cycle node edges state =
     (case dfs_succs edges (edges ! node) (state[node := 1]) of
        (True, state') \<Rightarrow> (True, state')
      | (False, state') \<Rightarrow> (False, state'[node := 2]))"

fun cycle_from :: "nat list list \<Rightarrow> nat list \<Rightarrow> nat list \<Rightarrow> bool" where
  "cycle_from edges [] state = False"
| "cycle_from edges (i # is) state =
     (if state ! i = 0 then
        (case dfs_cycle i edges state of
           (True, state') \<Rightarrow> True
         | (False, state') \<Rightarrow> cycle_from edges is state')
      else cycle_from edges is state)"

definition has_cycle :: "nat list list \<Rightarrow> bool" where
  "has_cycle edges = cycle_from edges [0..<length edges] (replicate (length edges) 0)"

definition phase08_acyclicity :: "ruleset \<Rightarrow> diag_buffer" where
  "phase08_acyclicity rs =
     (if has_cycle (rule_edges (rs_rules rs))
      then [diag_error ''ADGL0410'' ''cyclic rule dependency detected'' (rs_span rs)] else [])"

subsection \<open>Phase 9: exclusivity groups\<close>

definition group_schemas :: "exclusive_decl \<Rightarrow> diag_buffer \<times> (string, scope_type list) hmap" where
  "group_schemas g =
     fold (\<lambda>i (ds, m). case resolve_cause (id_name i) of
         None \<Rightarrow> (ds @ [diag_error ''ADGL0202'' ''unknown cause in exclusivity group'' (id_span i)], m)
       | Some schema \<Rightarrow> (ds, hm_put (id_name i) (ca_scopes schema) m)) (me_idents g) ([], [])"

definition ordered_pair :: "string \<Rightarrow> string \<Rightarrow> string \<times> string" where
  "ordered_pair a b = (if a \<le> b then (a, b) else (b, a))"

text \<open>The pairs of the two nested loops, in their order.\<close>

fun index_pairs :: "'a list \<Rightarrow> ('a \<times> 'a) list" where
  "index_pairs [] = []"
| "index_pairs (x # xs) = map (\<lambda>y. (x, y)) xs @ index_pairs xs"

definition pair_step ::
    "(string, scope_type list) hmap \<Rightarrow> span \<Rightarrow> string \<times> string
      \<Rightarrow> diag_buffer \<times> (string \<times> string) list \<Rightarrow> diag_buffer \<times> (string \<times> string) list" where
  "pair_step scopes sp ab st =
     (let pair = ordered_pair (fst ab) (snd ab) in
      (fst st @
         (if pair \<in> set (snd st) then [diag_error ''ADGL0440'' ''overlapping exclusivity pair'' sp] else []) @
         (case (hm_get scopes (fst ab), hm_get scopes (snd ab)) of
            (Some sa, Some sb) \<Rightarrow>
              (if list_ex (\<lambda>s. s \<in> set sb) sa then []
               else [diag_warning ''ADGL0502'' ''redundant exclusivity pair has no common scope'' sp])
          | _ \<Rightarrow> []),
       if pair \<in> set (snd st) then snd st else pair # snd st))"

definition group_step ::
    "adgl_decl \<Rightarrow> diag_buffer \<times> (string \<times> string) list \<Rightarrow> diag_buffer \<times> (string \<times> string) list" where
  "group_step d st =
     (case d of
        Requires rq \<Rightarrow> st
      | MutuallyExclusive g \<Rightarrow>
          (let (ds, scopes) = group_schemas g in
           fold (pair_step scopes (me_span g)) (index_pairs (map id_name (me_idents g)))
             (fst st @
                (if length (me_idents g) > 8
                 then [diag_error ''ADGL0441'' ''mutually_exclusive group is too large'' (me_span g)] else []) @ ds,
              snd st)))"

definition phase09_exclusivity :: "ruleset \<Rightarrow> diag_buffer" where
  "phase09_exclusivity rs = fst (fold group_step (rh_decls (rs_header rs)) ([], []))"

subsection \<open>Phase 10: evidence and decision rules\<close>

fun bipartite_diag :: "rule_decl \<Rightarrow> adgl_stmt \<Rightarrow> diag_buffer" where
  "bipartite_diag (EvidenceDecl e) (StEmit m) =
     [diag_error ''ADGL0450'' ''evidence rule cannot emit Problem'' (ev_span e)]"
| "bipartite_diag (DecisionDecl d) (StInfer i) =
     [diag_error ''ADGL0450'' ''decision rule cannot infer Cause'' (de_span d)]"
| "bipartite_diag _ _ = []"

definition phase10_bipartite :: "ruleset \<Rightarrow> diag_buffer" where
  "phase10_bipartite rs =
     concat (map (\<lambda>r. concat (map (bipartite_diag r) (gather_rule_statements r))) (rs_rules rs))"

subsection \<open>Phase 11: limits\<close>

fun expr_depth :: "adgl_expr \<Rightarrow> nat" where
  "expr_depth (Expr (XUnary op e) sp) = 1 + expr_depth e"
| "expr_depth (Expr (XBinary op l r) sp) = 1 + max (expr_depth l) (expr_depth r)"
| "expr_depth (Expr (XField b f) sp) = 1 + expr_depth b"
| "expr_depth (Expr (XCall c args) sp) = 1 + fold max (map expr_depth args) (expr_depth c)"
| "expr_depth (Expr (XIndex b i) sp) = 1 + max (expr_depth b) (expr_depth i)"
| "expr_depth (Expr _ sp) = 1"

text \<open>The expressions \<open>max_expr_depth_rule\<close> visits: those of phase 2 without the topology
  arguments.\<close>

definition depth_exprs :: "rule_decl \<Rightarrow> adgl_expr list" where
  "depth_exprs r =
     (case anchor_predicate r of None \<Rightarrow> [] | Some p \<Rightarrow> [p]) @
     concat (map window_exprs (decl_correlates r)) @
     collect_stmt_exprs (decl_body r) @
     (case decl_if_else r of
        None \<Rightarrow> []
      | Some ie \<Rightarrow> ie_condition ie # collect_stmt_exprs (ie_then ie) @
          (case ie_else ie of None \<Rightarrow> [] | Some b \<Rightarrow> collect_stmt_exprs b))"

definition max_expr_depth_rule :: "rule_decl \<Rightarrow> nat" where
  "max_expr_depth_rule r = fold (\<lambda>e m. max m (expr_depth e)) (depth_exprs r) 0"

definition requires_count :: "ruleset \<Rightarrow> nat" where
  "requires_count rs =
     sum_list (map (\<lambda>d. case d of Requires rq \<Rightarrow> length (rq_capabilities rq) | MutuallyExclusive g \<Rightarrow> 0)
       (rh_decls (rs_header rs)))"

definition rule_limit_diags :: "rule_decl \<Rightarrow> diag_buffer" where
  "rule_limit_diags r =
     (if length (decl_correlates r) > 8
      then [diag_error ''ADGL0204'' ''too many correlate blocks'' (decl_span r)] else []) @
     (if length (gather_rule_statements r) > 16
      then [diag_error ''ADGL0205'' ''too many infer/emit/action intents'' (decl_span r)] else []) @
     (if max_expr_depth_rule r > 64
      then [diag_error ''ADGL0103'' ''nesting exceeds supported maximum'' (decl_span r)] else [])"

definition phase11_dos_limits :: "verify_config \<Rightarrow> ruleset \<Rightarrow> diag_buffer" where
  "phase11_dos_limits cfg rs =
     (if vc_dedup cfg < 1
      then [diag_error ''ADGL0503'' ''dedup window must be at least 1ms'' (rs_span rs)] else []) @
     (if requires_count rs > 32
      then [diag_error ''ADGL0105'' ''too many requires entries'' (rs_span rs)] else []) @
     concat (map rule_limit_diags (rs_rules rs))"

subsection \<open>Phase 12: private fields\<close>

text \<open>The set of \<open>binding.field\<close> paths of the private fields of event bindings, of all rules.\<close>

definition binding_pii :: "string \<times> binding_type \<Rightarrow> string list" where
  "binding_pii bt =
     (case snd bt of
        EventOf t \<Rightarrow>
          (case resolve_event t of
             Some schema \<Rightarrow> map (\<lambda>f. dotted (fst bt) (fs_name f)) (filter fs_pii (es_fields schema))
           | None \<Rightarrow> [])
      | _ \<Rightarrow> [])"

definition phase12_privacy_annotations :: "ruleset \<Rightarrow> string list" where
  "phase12_privacy_annotations rs =
     concat (map (\<lambda>r. concat (map binding_pii (re_bindings (for_rule r)))) (rs_rules rs))"

end
