(* ===== verification/Adgl_Acyclic.thy ===== *)
theory Adgl_Acyclic
  imports Adgl_Phases
begin

text \<open>
  The depth-first search of phase 8 decides acyclicity: it reports a cycle exactly when the rule
  dependencies have one. The invariant is the usual one of the three colours: successors of done
  nodes are done and done nodes lie on no cycle; nodes on the stack all reach the node whose
  successors the loop is visiting.
\<close>

definition edge_rel :: "nat list list \<Rightarrow> (nat \<times> nat) set" where
  "edge_rel edges = {(a, b). a < length edges \<and> b \<in> set (edges ! a)}"

definition edges_ok :: "nat list list \<Rightarrow> bool" where
  "edges_ok edges = list_all (list_all (\<lambda>n. n < length edges)) edges"

lemma edges_ok_succ: "edges_ok edges \<Longrightarrow> n < length edges \<Longrightarrow> list_all (\<lambda>m. m < length edges) (edges ! n)"
  by (simp add: edges_ok_def list_all_length)

definition shade :: "nat \<Rightarrow> nat list \<Rightarrow> nat set" where
  "shade c state = {i. i < length state \<and> state ! i = c}"

lemma shade_update:
  "n < length state \<Longrightarrow> shade c (state[n := d]) = (if c = d then insert n (shade c state) else shade c state - {n})"
  by (auto simp: shade_def nth_list_update)

definition dfs_inv :: "nat list list \<Rightarrow> nat list \<Rightarrow> bool" where
  "dfs_inv edges state \<longleftrightarrow>
     length state = length edges \<and> set state \<subseteq> {0, 1, 2} \<and>
     edge_rel edges `` shade 2 state \<subseteq> shade 2 state \<and>
     (\<forall>b\<in>shade 2 state. (b, b) \<notin> (edge_rel edges)\<^sup>+)"

lemma dfs_inv_push: "dfs_inv edges state \<Longrightarrow> n < length state \<Longrightarrow> state ! n = 0 \<Longrightarrow> dfs_inv edges (state[n := 1])"
proof -
  assume a: "dfs_inv edges state" "n < length state" "state ! n = 0"
  then have "shade 2 (state[n := 1]) = shade 2 state" by (simp add: shade_update) (auto simp: shade_def)
  moreover have "set (state[n := 1]) \<subseteq> insert 1 (set state)" by (rule set_update_subset_insert)
  ultimately show ?thesis using a(1) unfolding dfs_inv_def by auto
qed

lemma dfs_inv_pop:
  assumes "dfs_inv edges state" "n < length state" "state ! n = 1" "set (edges ! n) \<subseteq> shade 2 state"
  shows "dfs_inv edges (state[n := 2])"
proof -
  let ?E = "edge_rel edges"
  have closed: "?E `` shade 2 state \<subseteq> shade 2 state" using assms(1) by (simp add: dfs_inv_def)
  have n: "n \<notin> shade 2 state" using assms(3) by (simp add: shade_def)
  have succ: "?E `` {n} \<subseteq> shade 2 state" using assms(4) by (auto simp: edge_rel_def)
  have "(n, n) \<notin> ?E\<^sup>+"
  proof
    assume "(n, n) \<in> ?E\<^sup>+"
    then obtain m where m: "(n, m) \<in> ?E" "(m, n) \<in> ?E\<^sup>*" by (meson tranclD)
    have "m \<in> shade 2 state" using m(1) succ by auto
    with m(2) closed have "n \<in> shade 2 state" by (induction rule: rtrancl_induct) auto
    with n show False ..
  qed
  moreover have "set (state[n := 2]) \<subseteq> insert 2 (set state)" by (rule set_update_subset_insert)
  ultimately show ?thesis using assms(1,2) closed succ unfolding dfs_inv_def by (auto simp: shade_update)
qed

text \<open>A visit that finds no cycle finishes all the nodes it was given and leaves the stack as it
  was.\<close>

lemma dfs_succs_done:
  assumes "edges_ok edges" "dfs_inv edges state" "list_all (\<lambda>n. n < length edges) ns"
    and "dfs_succs edges ns state = (False, state')"
  shows "dfs_inv edges state' \<and> shade 1 state' = shade 1 state \<and> shade 2 state \<subseteq> shade 2 state'
    \<and> set ns \<subseteq> shade 2 state'"
  using assms
proof (induction edges ns state arbitrary: state' rule: dfs_succs.induct)
  case (2 edges n ns state)
  have n: "n < length state" "n < length edges" using "2.prems" by (simp_all add: dfs_inv_def)
  then have "state ! n \<in> {0, 1, 2}" using "2.prems"(2) nth_mem [of n state] unfolding dfs_inv_def by blast
  moreover have "state ! n \<noteq> 1" using "2.prems"(4) n by auto
  ultimately consider "state ! n = 0" | "state ! n = 2" by auto
  then show ?case
  proof cases
    case 1
    then obtain st where st: "dfs_succs edges (edges ! n) (state[n := 1]) = (False, st)"
      and rest: "dfs_succs edges ns (st[n := 2]) = (False, state')"
      using "2.prems"(4) n(1) by (auto split: prod.splits bool.splits)
    have "\<not> \<not> n < length state" "state ! n \<noteq> 1" using n 1 by simp_all
    from "2.IH"(1) [OF this 1 "2.prems"(1) dfs_inv_push [OF "2.prems"(2) n(1) 1]
        edges_ok_succ [OF "2.prems"(1) n(2)] st]
    have ih: "dfs_inv edges st" "shade 1 st = shade 1 (state[n := 1])" "shade 2 (state[n := 1]) \<subseteq> shade 2 st"
      "set (edges ! n) \<subseteq> shade 2 st" by simp_all
    have "shade 2 (state[n := 1]) = shade 2 state" using n(1) 1 by (simp add: shade_update) (simp add: shade_def)
    with ih n(1) have IH1: "dfs_inv edges st" "shade 1 st = insert n (shade 1 state)"
      "shade 2 state \<subseteq> shade 2 st" "set (edges ! n) \<subseteq> shade 2 st"
      by (simp_all add: shade_update)
    have nst: "n < length st" "st ! n = 1" using IH1(1,2) n by (auto simp: dfs_inv_def shade_def)
    have "dfs_inv edges (st[n := 2])" by (rule dfs_inv_pop [OF IH1(1) nst IH1(4)])
    moreover have "n \<notin> shade 1 state" using 1 by (simp add: shade_def)
    ultimately have IH2: "dfs_inv edges state' \<and> shade 1 state' = shade 1 (st[n := 2])
        \<and> shade 2 (st[n := 2]) \<subseteq> shade 2 state' \<and> set ns \<subseteq> shade 2 state'"
      using "2.IH"(2) [OF _ _ 1 st [symmetric] refl "2.prems"(1) _ _ rest] "2.prems"(3) n 1 by simp
    with IH1 nst \<open>n \<notin> shade 1 state\<close> show ?thesis by (auto simp: shade_update)
  next
    case 2
    with "2.prems" n have "dfs_succs edges ns state = (False, state')" by simp
    with "2.IH"(3) "2.prems" n 2 have "dfs_inv edges state' \<and> shade 1 state' = shade 1 state
        \<and> shade 2 state \<subseteq> shade 2 state' \<and> set ns \<subseteq> shade 2 state'" by simp
    with n 2 show ?thesis by (auto simp: shade_def)
  qed
qed auto

text \<open>A visit that reports a cycle has found one.\<close>

lemma dfs_succs_found:
  assumes "edges_ok edges" "dfs_inv edges state" "list_all (\<lambda>n. n < length edges) ns"
    and "set ns \<subseteq> edge_rel edges `` {v}" "\<forall>g\<in>shade 1 state. (g, v) \<in> (edge_rel edges)\<^sup>*"
    and "dfs_succs edges ns state = (True, state')"
  shows "\<not> acyclic (edge_rel edges)"
  using assms
proof (induction edges ns state arbitrary: v state' rule: dfs_succs.induct)
  case (2 edges n ns state)
  let ?E = "edge_rel edges"
  have n: "n < length state" "n < length edges" "(v, n) \<in> ?E" using 2 by (auto simp: dfs_inv_def)
  consider "state ! n = 0" | "state ! n = 1" | "state ! n \<noteq> 0" "state ! n \<noteq> 1" by blast
  then show ?case
  proof cases
    case 1
    obtain c st where st: "dfs_succs edges (edges ! n) (state[n := 1]) = (c, st)" by force
    have push: "dfs_inv edges (state[n := 1])" by (rule dfs_inv_push [OF "2.prems"(2) n(1) 1])
    have reach: "\<forall>g\<in>shade 1 (state[n := 1]). (g, n) \<in> ?E\<^sup>*"
      using "2.prems"(5) n(1,3) by (auto simp: shade_update intro: rtrancl.rtrancl_into_rtrancl)
    have sub: "set (edges ! n) \<subseteq> ?E `` {n}" using n by (auto simp: edge_rel_def)
    show ?thesis
    proof (cases c)
      case True
      with st have "dfs_succs edges (edges ! n) (state[n := 1]) = (True, st)" by simp
      from "2.IH"(1) [OF _ _ 1 "2.prems"(1) push edges_ok_succ [OF "2.prems"(1) n(2)] sub reach this]
      show ?thesis using n 1 by simp
    next
      case False
      with st have st: "dfs_succs edges (edges ! n) (state[n := 1]) = (False, st)" by simp
      with "2.prems" n 1 have rest: "dfs_succs edges ns (st[n := 2]) = (True, state')" by simp
      have dn: "dfs_inv edges st \<and> shade 1 st = shade 1 (state[n := 1]) \<and> shade 2 (state[n := 1]) \<subseteq> shade 2 st
        \<and> set (edges ! n) \<subseteq> shade 2 st"
        using dfs_succs_done [OF "2.prems"(1) push edges_ok_succ [OF "2.prems"(1) n(2)] st] .
      have nst: "n < length st" "st ! n = 1" using dn n by (auto simp: dfs_inv_def shade_update shade_def)
      have pop: "dfs_inv edges (st[n := 2])" using dfs_inv_pop dn nst by blast
      have "\<forall>g\<in>shade 1 (st[n := 2]). (g, v) \<in> ?E\<^sup>*"
        using "2.prems"(5) dn nst n by (auto simp: shade_update)
      from "2.IH"(2) [OF _ _ 1 st [symmetric] refl "2.prems"(1) pop _ _ this rest] "2.prems" n 1
      show ?thesis by simp
    qed
  next
    case 2
    then have "(n, v) \<in> ?E\<^sup>*" using "2.prems"(5) n by (auto simp: shade_def)
    with n(3) have "(v, v) \<in> ?E\<^sup>+" by (meson rtrancl_into_trancl2)
    then show ?thesis by (auto simp: acyclic_def)
  next
    case 3
    with "2.prems" "2.IH"(3) [of v state'] n show ?thesis by simp
  qed
qed simp

lemma dfs_cycle_done:
  assumes "edges_ok edges" "dfs_inv edges state" "i < length edges" "state ! i = 0" "shade 1 state = {}"
    and "dfs_cycle i edges state = (False, state')"
  shows "dfs_inv edges state' \<and> shade 1 state' = {} \<and> insert i (shade 2 state) \<subseteq> shade 2 state'"
proof -
  have i: "i < length state" using assms by (simp add: dfs_inv_def)
  obtain st where st: "dfs_succs edges (edges ! i) (state[i := 1]) = (False, st)" "state' = st[i := 2]"
    using assms(6) by (auto simp: dfs_cycle_def split: prod.splits bool.splits)
  have dn: "dfs_inv edges st \<and> shade 1 st = shade 1 (state[i := 1]) \<and> shade 2 (state[i := 1]) \<subseteq> shade 2 st
      \<and> set (edges ! i) \<subseteq> shade 2 st"
    using dfs_succs_done [OF assms(1) dfs_inv_push [OF assms(2) i assms(4)] edges_ok_succ [OF assms(1,3)] st(1)] .
  have nst: "i < length st" "st ! i = 1" using dn i by (auto simp: dfs_inv_def shade_update shade_def)
  have "i \<notin> shade 2 state" using assms(4) by (simp add: shade_def)
  with dn nst i assms(5) dfs_inv_pop [of edges st i] show ?thesis unfolding st(2) by (auto simp: shade_update)
qed

lemma dfs_cycle_found:
  assumes "edges_ok edges" "dfs_inv edges state" "i < length edges" "state ! i = 0" "shade 1 state = {}"
    and "dfs_cycle i edges state = (True, state')"
  shows "\<not> acyclic (edge_rel edges)"
proof -
  have i: "i < length state" using assms by (simp add: dfs_inv_def)
  have st: "dfs_succs edges (edges ! i) (state[i := 1]) = (True, state')"
    using assms(6) by (auto simp: dfs_cycle_def split: prod.splits bool.splits)
  show ?thesis
    by (rule dfs_succs_found [OF assms(1) dfs_inv_push [OF assms(2) i assms(4)] edges_ok_succ [OF assms(1,3)] _ _ st,
          where v = i])
      (use assms(3,5) i in \<open>auto simp: edge_rel_def shade_update\<close>)
qed

lemma cycle_from_correct:
  assumes "edges_ok edges" "dfs_inv edges state" "shade 1 state = {}" "list_all (\<lambda>i. i < length edges) is"
  shows "(cycle_from edges is state \<longrightarrow> \<not> acyclic (edge_rel edges)) \<and>
    (\<not> cycle_from edges is state \<longrightarrow> (\<forall>i\<in>shade 2 state \<union> set is. (i, i) \<notin> (edge_rel edges)\<^sup>+))"
  using assms(2-)
proof (induction "is" arbitrary: state)
  case Nil
  then show ?case by (simp add: dfs_inv_def)
next
  case (Cons i "is")
  show ?case
  proof (cases "state ! i = 0")
    case True
    obtain c st where st: "dfs_cycle i edges state = (c, st)" by force
    show ?thesis
    proof (cases c)
      case found: True
      with st True dfs_cycle_found [OF assms(1) Cons.prems(1) _ True Cons.prems(2)] Cons.prems(3) show ?thesis by auto
    next
      case False
      have "i < length edges" using Cons.prems(3) by simp
      from dfs_cycle_done [OF assms(1) Cons.prems(1) this True Cons.prems(2)] st False
      have dn: "dfs_inv edges st" "shade 1 st = {}" "insert i (shade 2 state) \<subseteq> shade 2 st" by simp_all
      from False st True have c: "cycle_from edges (i # is) state = cycle_from edges is st" by simp
      have "list_all (\<lambda>i. i < length edges) is" using Cons.prems(3) by simp
      from Cons.IH [OF dn(1,2) this] have IH: "(cycle_from edges is st \<longrightarrow> \<not> acyclic (edge_rel edges)) \<and>
          (\<not> cycle_from edges is st \<longrightarrow> (\<forall>i\<in>shade 2 st \<union> set is. (i, i) \<notin> (edge_rel edges)\<^sup>+))" .
      have "shade 2 state \<union> set (i # is) \<subseteq> shade 2 st \<union> set is" using dn(3) by auto
      with IH show ?thesis unfolding c by blast
    qed
  next
    case False
    have i: "i < length state" using Cons.prems(1,3) by (simp add: dfs_inv_def)
    then have "state ! i \<in> {0, 1, 2}" using Cons.prems(1) nth_mem [of i state] unfolding dfs_inv_def by blast
    moreover have "state ! i \<noteq> 1" using Cons.prems(2) i by (auto simp: shade_def)
    ultimately have "shade 2 state \<union> set (i # is) = shade 2 state \<union> set is"
      using False i by (auto simp: shade_def)
    with False Cons.IH [OF Cons.prems(1,2)] Cons.prems(3) show ?thesis by simp
  qed
qed

lemma has_cycle_iff:
  assumes "edges_ok edges"
  shows "has_cycle edges \<longleftrightarrow> \<not> acyclic (edge_rel edges)"
proof -
  let ?st = "replicate (length edges) (0 :: nat)"
  have "dfs_inv edges ?st" "shade 1 ?st = {}" by (auto simp: dfs_inv_def shade_def)
  from cycle_from_correct [OF assms this, of "[0..<length edges]"]
  have found: "has_cycle edges \<Longrightarrow> \<not> acyclic (edge_rel edges)"
    and clear: "\<not> has_cycle edges \<Longrightarrow> \<forall>i<length edges. (i, i) \<notin> (edge_rel edges)\<^sup>+"
    by (auto simp: has_cycle_def list_all_iff)
  have "(i, i) \<in> (edge_rel edges)\<^sup>+ \<Longrightarrow> i < length edges" for i
    by (auto simp: edge_rel_def dest: tranclD)
  with clear have "\<not> has_cycle edges \<Longrightarrow> acyclic (edge_rel edges)" by (auto simp: acyclic_def)
  with found show ?thesis by blast
qed

text \<open>C21: the acyclicity check decides acyclicity. \<open>has_cycle\<close> answers \<open>true\<close> exactly when some rule
  can reach itself along the dependency edges, for every graph whose edges stay inside it; it
  always terminates.\<close>

theorem has_cycle_decides: "edges_ok edges \<Longrightarrow> has_cycle edges \<longleftrightarrow> \<not> acyclic (edge_rel edges)"
  by (rule has_cycle_iff)

theorem has_cycle_decides_witness: "\<not> acyclic (edge_rel [[1], [2, 1], [0]])"
proof -
  have "edges_ok [[1], [2, 1], [0]]" "has_cycle [[1], [2, 1], [0]]" by code_simp+
  then show ?thesis using has_cycle_decides by blast
qed

subsection \<open>The edges of a ruleset\<close>

lemma anchor_rules_range:
  "(\<And>k v. hm_get (fst maps) k = Some v \<or> hm_get (snd maps) k = Some v \<Longrightarrow> list_all (\<lambda>n. n < m) v) \<Longrightarrow>
   (\<And>p. p \<in> set irs \<Longrightarrow> fst p < m) \<Longrightarrow>
   hm_get (fst (fold index_anchor irs maps)) k = Some v \<or> hm_get (snd (fold index_anchor irs maps)) k = Some v \<Longrightarrow>
   list_all (\<lambda>n. n < m) v"
proof (induction irs arbitrary: maps)
  case Nil
  then show ?case by (metis fold_simps(1))
next
  case (Cons ir irs)
  show ?case
  proof (rule Cons.IH [of "index_anchor ir maps"])
    fix k v
    assume "hm_get (fst (index_anchor ir maps)) k = Some v \<or> hm_get (snd (index_anchor ir maps)) k = Some v"
    with Cons.prems(1) [of k] Cons.prems(2) [of ir] show "list_all (\<lambda>n. n < m) v"
      by (auto simp: index_anchor_def entry_push_def split: rule_decl.splits decision_anchor.splits if_splits
          option.splits)
  qed (use Cons.prems in auto)
qed

lemma rule_edges_ok: "edges_ok (rule_edges rules)"
proof -
  have r: "list_all (\<lambda>n. n < length rules) v"
    if "hm_get (fst (anchor_rules_of rules)) k = Some v \<or> hm_get (snd (anchor_rules_of rules)) k = Some v" for k v
    using that unfolding anchor_rules_of_def
    by (rule anchor_rules_range [rotated -1]) (auto simp: hm_get_def in_set_enumerate_eq)
  have "list_all (\<lambda>n. n < length rules) (stmt_targets (anchor_rules_of rules) s)" for s
    using r by (cases s) (auto simp: unwrap_or_def split: option.split)
  then show ?thesis by (auto simp: edges_ok_def rule_edges_def list_all_iff Let_def)
qed

end
