(* ===== verification/Adgl_Lower.thy ===== *)
theory Adgl_Lower
  imports Adgl_Acyclic
begin

text \<open>
  Lowering (crates/airpulse\_dsl-verify/src/lib.rs, from \<open>lower_to_image\<close>): expressions compile to
  predicate opcodes over slot registers, statements to intents, rules to rule instances, and
  \<open>verify_with_config\<close> runs the twelve phases and lowers a ruleset without errors.

  A lowering step returns its value, if it has one, and the diagnostics it pushes. The one panic,
  the \<open>expect\<close> on a negative minimum match count, is the outer \<open>None\<close>.
\<close>

subsection \<open>Expressions\<close>

definition slot_new :: "nat \<Rightarrow> slot_idx option" where
  "slot_new n = (if n < max_slots then Some (SlotIdx n) else None)"

text \<open>\<open>SlotAllocator\<close>: a \<open>u8\<close> counter with \<open>saturating_add\<close>.\<close>

definition slot_alloc :: "span \<Rightarrow> nat \<Rightarrow> nat \<times> nat \<times> diag_buffer" where
  "slot_alloc sp next_slot =
     (let next_slot' = min 255 (next_slot + 1) in
      if slot_new next_slot = None
      then (0, next_slot', [diag_error ''ADGL0205'' ''predicate exceeded max slots'' sp])
      else (next_slot, next_slot', []))"

type_synonym code_state = "pred_op list \<times> nat"

text \<open>Allocate a destination and push one opcode on it.\<close>

definition emit_op :: "span \<Rightarrow> (slot_idx \<Rightarrow> pred_op) \<Rightarrow> code_state \<Rightarrow> nat option \<times> code_state \<times> diag_buffer" where
  "emit_op sp mk st =
     (case slot_alloc sp (snd st) of
        (dst, next_slot', ds) \<Rightarrow>
          (case slot_new dst of
             None \<Rightarrow> (None, (fst st, next_slot'), ds)
           | Some d \<Rightarrow> (Some dst, (fst st @ [mk d], next_slot'), ds)))"

definition duration_or_default :: "int \<Rightarrow> duration_ms" where
  "duration_or_default ms = unwrap_or 0 (duration_from_millis ms)"

text \<open>String literals are hashed over their bytes.\<close>

definition str_bytes :: "string \<Rightarrow> u8 list" where
  "str_bytes s = map of_char s"

definition binding_index :: "rule_env \<Rightarrow> string \<Rightarrow> nat" where
  "binding_index env name = unwrap_or 0 (hm_get (re_index env) name)"

fun load_field_op :: "binding_type \<Rightarrow> nat \<Rightarrow> nat \<Rightarrow> slot_idx \<Rightarrow> pred_op" where
  "load_field_op (EventOf t) b f d = PLoadEventField b f d"
| "load_field_op (CauseOf k) b f d = PLoadCauseField b f d"
| "load_field_op (ProblemOf p) b f d = PLoadProblemField b f d"

text \<open>The opcode of a binary operator; \<open>in\<close> has none.\<close>

fun binary_op :: "adgl_binop \<Rightarrow> slot_idx \<Rightarrow> slot_idx \<Rightarrow> slot_idx \<Rightarrow> pred_op option" where
  "binary_op BinOr l r d = Some (POr l r d)"
| "binary_op BinAnd l r d = Some (PAnd l r d)"
| "binary_op BinEq l r d = Some (PCmpEq l r d)"
| "binary_op BinNe l r d = Some (PCmpNe l r d)"
| "binary_op BinLt l r d = Some (PCmpLt l r d)"
| "binary_op BinLe l r d = Some (PCmpLe l r d)"
| "binary_op BinGt l r d = Some (PCmpGt l r d)"
| "binary_op BinGe l r d = Some (PCmpGe l r d)"
| "binary_op BinIn l r d = None"
| "binary_op BinAdd l r d = Some (PAdd l r d)"
| "binary_op BinSub l r d = Some (PSub l r d)"
| "binary_op BinMul l r d = Some (PMul l r d)"
| "binary_op BinDiv l r d = Some (PDiv l r d)"
| "binary_op BinRem l r d = Some (PMod l r d)"

fun compile_expr ::
    "rule_env \<Rightarrow> adgl_expr \<Rightarrow> code_state \<Rightarrow> nat option \<times> code_state \<times> diag_buffer" where
  "compile_expr env (Expr (XInt i) sp) st = emit_op sp (PLoadConst (il_value i)) st"
| "compile_expr env (Expr (XDuration d) sp) st = emit_op sp (PLoadDuration (duration_or_default (dl_millis d))) st"
| "compile_expr env (Expr (XString s) sp) st = emit_op sp (PLoadConst (stable_string_i64 (str_bytes (sl_value s)))) st"
| "compile_expr env (Expr (XBool b) sp) st = emit_op sp (PLoadConst (if b then 1 else 0)) st"
| "compile_expr env (Expr (XIdent i) sp) st =
     (if id_name i = ''scope'' then emit_op sp PLoadScopeKey st
      else (None, st, [diag_error ''ADGL0501'' ''bare identifier is not a predicate value'' (id_span i)]))"
| "compile_expr env (Expr (XPresent i) sp) st = emit_op sp (PPresent (binding_index env (id_name i))) st"
| "compile_expr env (Expr (XAbsent i) sp) st = emit_op sp (PAbsent (binding_index env (id_name i))) st"
| "compile_expr env (Expr (XField b f) sp) st =
     (case ex_kind b of
        XIdent i \<Rightarrow>
          (case hm_get (re_bindings env) (id_name i) of
             None \<Rightarrow> (None, st, [diag_error ''ADGL0209'' ''unknown binding'' (id_span i)])
           | Some ty \<Rightarrow>
               (case resolve_metric_path ty (dotted (id_name i) (id_name f)) of
                  None \<Rightarrow> (None, st, [])
                | Some (idx, t) \<Rightarrow>
                    if is_int_list_type t then (None, st, [reject_intlist sp])
                    else emit_op sp (load_field_op ty (binding_index env (id_name i)) idx) st))
      | _ \<Rightarrow> (None, st, [diag_error ''ADGL0501'' ''field access base must be a binding'' sp]))"
| "compile_expr env (Expr (XUnary op e) sp) st =
     (case compile_expr env e st of
        (None, st1, ds) \<Rightarrow> (None, st1, ds)
      | (Some src, st1, ds) \<Rightarrow>
          (case emit_op sp (PNot (SlotIdx src)) st1 of (r, st2, ds2) \<Rightarrow> (r, st2, ds @ ds2)))"
| "compile_expr env (Expr (XBinary op l r) sp) st =
     (case compile_expr env l st of
        (None, st1, ds1) \<Rightarrow> (None, st1, ds1)
      | (Some lhs, st1, ds1) \<Rightarrow>
          (case compile_expr env r st1 of
             (None, st2, ds2) \<Rightarrow> (None, st2, ds1 @ ds2)
           | (Some rhs, st2, ds2) \<Rightarrow>
               (case binary_op op (SlotIdx lhs) (SlotIdx rhs) (SlotIdx 0) of
                  None \<Rightarrow>
                    (case slot_alloc sp (snd st2) of
                       (dst, next_slot, ds3) \<Rightarrow> (None, (fst st2, next_slot), ds1 @ ds2 @ ds3 @ [reject_intlist sp]))
                | Some _ \<Rightarrow>
                    (case emit_op sp (\<lambda>d. the (binary_op op (SlotIdx lhs) (SlotIdx rhs) d)) st2 of
                       (dst, st3, ds3) \<Rightarrow> (dst, st3, ds1 @ ds2 @ ds3)))))"
| "compile_expr env (Expr (XCall c args) sp) st =
     (None, st, [diag_error ''ADGL0501'' ''calls are not allowed in pure positions'' sp])"
| "compile_expr env (Expr (XIndex b i) sp) st =
     (None, st, [diag_error ''ADGL0501'' ''indexing is not supported in predicates'' sp])"

definition compile_predicate :: "rule_env \<Rightarrow> adgl_expr \<Rightarrow> predicate \<times> diag_buffer" where
  "compile_predicate env e =
     (case compile_expr env e ([], 0) of
        (r, st, ds) \<Rightarrow>
          (\<lparr>pd_ops = fst st, pd_result = unwrap_or (SlotIdx 0) (slot_new (unwrap_or 0 r))\<rparr>, ds))"

subsection \<open>Correlates\<close>

definition metric_path_from_expr :: "adgl_expr \<Rightarrow> metric_path option" where
  "metric_path_from_expr e =
     (case ex_kind e of
        XField b f \<Rightarrow> (case ex_kind b of XIdent i \<Rightarrow> Some (dotted (id_name i) (id_name f)) | _ \<Rightarrow> None)
      | XIdent i \<Rightarrow> Some (id_name i)
      | _ \<Rightarrow> None)"

fun lower_topo_args :: "adgl_expr list \<Rightarrow> metric_path list option \<times> diag_buffer" where
  "lower_topo_args [] = (Some [], [])"
| "lower_topo_args (a # as) =
     (case metric_path_from_expr a of
        None \<Rightarrow> (None, [diag_error ''ADGL0421'' ''topology arg must be a metric path'' (ex_span a)])
      | Some p \<Rightarrow> (case lower_topo_args as of (ps, ds) \<Rightarrow> (map_option ((#) p) ps, ds)))"

fun lower_source :: "ast_source \<Rightarrow> correlate_source" where
  "lower_source (SourceEvent k) = CorrEvent (kind_ident_name k)"
| "lower_source (SourceCause i) = CorrCause (id_name i)"
| "lower_source (SourceProblem i) = CorrProblem (id_name i)"

definition lower_window :: "bool \<Rightarrow> rule_decl \<Rightarrow> correlate_block \<Rightarrow> window_proof option" where
  "lower_window chk r c =
     map_option (\<lambda>w. case w of
        Some (b, f) \<Rightarrow> Calculable (duration_or_default b) (duration_or_default f)
      | None \<Rightarrow> RuntimeCheck) (correlate_window chk r c)"

text \<open>The minimum match count; a negative count is a panic.\<close>

definition lower_min_match :: "min_match_clause option \<Rightarrow> (nat option \<times> diag_buffer) option" where
  "lower_min_match m =
     (case m of
        None \<Rightarrow> Some (Some 1, [])
      | Some cl \<Rightarrow>
          if mm_count cl = 0
          then Some (None, [diag_error ''ADGL0504'' ''min match count must be at least 1'' (mm_span cl)])
          else if mm_count cl > 32
          then Some (None, [diag_error ''ADGL0505'' ''min match count exceeds maximum of 32 per correlate'' (mm_span cl)])
          else if mm_count cl < 0 then None
          else Some (Some (nat (mm_count cl)), []))"

definition lower_correlate ::
    "bool \<Rightarrow> rule_decl \<Rightarrow> correlate_block \<Rightarrow> (correlate_spec option \<times> diag_buffer) option" where
  "lower_correlate chk r c =
     (case resolve_topo_fn (id_name (tp_name (cb_topo c))) of
        None \<Rightarrow> Some (None, [])
      | Some fn \<Rightarrow>
          (case lower_topo_args (tp_args (cb_topo c)) of
             (None, ds) \<Rightarrow> Some (None, ds)
           | (Some args, ds) \<Rightarrow>
               (case lower_window chk r c of
                  None \<Rightarrow> None
                | Some w \<Rightarrow>
                    (case lower_min_match (cb_min_match c) of
                       None \<Rightarrow> None
                     | Some (None, ds2) \<Rightarrow> Some (None, ds @ ds2)
                     | Some (Some m, ds2) \<Rightarrow>
                         Some (Some \<lparr>co_binding = id_name (cb_binding c), co_source = lower_source (cb_source c),
                                 co_topo = \<lparr>tc_func = id_name (tp_name (cb_topo c)), tc_func_idx = tf_idx fn,
                                   tc_args = args\<rparr>,
                                 co_window = w, co_min_match = m\<rparr>, ds @ ds2)))))"

fun lower_correlates ::
    "bool \<Rightarrow> rule_decl \<Rightarrow> correlate_block list \<Rightarrow> (correlate_spec list option \<times> diag_buffer) option" where
  "lower_correlates chk r [] = Some (Some [], [])"
| "lower_correlates chk r (c # cs) =
     (case lower_correlate chk r c of
        None \<Rightarrow> None
      | Some (None, ds) \<Rightarrow> Some (None, ds)
      | Some (Some x, ds) \<Rightarrow>
          (case lower_correlates chk r cs of
             None \<Rightarrow> None
           | Some (xs, ds2) \<Rightarrow> Some (map_option ((#) x) xs, ds @ ds2)))"

subsection \<open>Statements\<close>

fun infer_evidence :: "infer_field \<Rightarrow> symbol list option" where
  "infer_evidence (InferEvidence ids sp) = Some (map id_name ids)"
| "infer_evidence _ = None"

fun emit_evidence :: "emit_field \<Rightarrow> symbol list option" where
  "emit_evidence (EmitEvidence ids sp) = Some (map id_name ids)"
| "emit_evidence _ = None"

fun emit_severity :: "emit_field \<Rightarrow> severity option" where
  "emit_severity (EmitSeverity s sp) = Some s"
| "emit_severity _ = None"

fun emit_sarif :: "emit_field \<Rightarrow> sarif_id option" where
  "emit_sarif (EmitSarifId s sp) = Some (sl_value s)"
| "emit_sarif _ = None"

fun action_evidence :: "action_field \<Rightarrow> symbol list option" where
  "action_evidence (ActionEvidence ids sp) = Some (map id_name ids)"
| "action_evidence _ = None"

fun action_reason :: "action_field \<Rightarrow> string option" where
  "action_reason (ActionReason s sp) = Some (sl_value s)"
| "action_reason _ = None"

text \<open>The private paths of the evidence bindings, collected in a \<open>BTreeSet\<close>.\<close>

definition starts_with :: "string \<Rightarrow> string \<Rightarrow> bool" where
  "starts_with s p = (take (length p) s = p)"

definition evidence_pii :: "string list \<Rightarrow> symbol list \<Rightarrow> metric_path list" where
  "evidence_pii pii ev =
     sort (remdups (concat (map (\<lambda>s. filter (\<lambda>p. starts_with p (dotted s [])) pii) ev)))"

definition infer_weight :: "infer_stmt \<Rightarrow> int" where
  "infer_weight i = unwrap_or 0 (find_map (\<lambda>f. map_option fst (weight_field f)) (is_fields i))"

definition lower_infer :: "string list \<Rightarrow> rule_id \<Rightarrow> infer_stmt \<Rightarrow> intent option \<times> diag_buffer" where
  "lower_infer pii rule i =
     (case find_map (\<lambda>f. Option.bind (infer_target f) metric_path_from_expr) (is_fields i) of
        None \<Rightarrow> (None, [diag_error ''ADGL0210'' ''infer requires an explicit target field'' (is_span i)])
      | Some target \<Rightarrow>
          let w = infer_weight i in
          if w < - 128 \<or> w > 127
          then (None, [diag_error ''ADGL0205'' ''weight out of i8 range'' (is_span i)])
          else
            (case weight_new (word_of_int w) of
               None \<Rightarrow> (None, [diag_error ''ADGL0205'' ''weight out of allowed range [-100,100]'' (is_span i)])
             | Some weight \<Rightarrow>
                 (let ev = unwrap_or [] (find_map infer_evidence (is_fields i));
                      cause = id_name (is_cause i) in
                  (Some (InferCause cause target weight ev
                     \<lparr>pk_rule = rule, pk_cause = cause, pk_target_hash = stable_hash_u64 (str_bytes target)\<rparr>
                     (evidence_pii pii ev)), []))))"

definition lower_emit :: "string list \<Rightarrow> emit_stmt \<Rightarrow> intent" where
  "lower_emit pii m =
     (let schema = resolve_problem (id_name (em_problem m));
          ev = unwrap_or [] (find_map emit_evidence (em_fields m)) in
      EmitProblem (id_name (em_problem m))
        (find_map (\<lambda>f. Option.bind (emit_target f) metric_path_from_expr) (em_fields m))
        (case find_map emit_severity (em_fields m) of
           Some s \<Rightarrow> s
         | None \<Rightarrow> unwrap_or Medium (Option.bind schema pb_severity))
        ev
        (case find_map emit_sarif (em_fields m) of
           Some s \<Rightarrow> s
         | None \<Rightarrow> unwrap_or ''unknown'' (map_option pb_sarif schema))
        (evidence_pii pii ev))"

definition lower_suppress ::
    "rule_env \<Rightarrow> action_stmt \<Rightarrow> string option \<Rightarrow> symbol list \<Rightarrow> intent list option \<times> diag_buffer" where
  "lower_suppress env a reason ev =
     (case ac_arg a of
        None \<Rightarrow> (None, [diag_error ''ADGL0209'' ''suppress_symptom requires binding arg'' (ac_span a)])
      | Some arg \<Rightarrow>
          (case ki_segments arg of
             [s] \<Rightarrow>
               (case hm_get (re_bindings env) (id_name s) of
                  Some (ProblemOf p) \<Rightarrow>
                    (let target = dotted (id_name s) ''target'' in
                     (Some [SupersedeProblem p target,
                        EmitAction SuppressSymptom (Some (id_name s)) (Some target) reason ev], []))
                | _ \<Rightarrow> (None, [diag_error ''ADGL0209'' ''suppress_symptom arg must be ProblemRef binding'' (ki_span arg)]))
           | _ \<Rightarrow> (None, [diag_error ''ADGL0209'' ''suppress_symptom arg must be one binding'' (ki_span arg)])))"

definition lower_action :: "rule_env \<Rightarrow> action_stmt \<Rightarrow> intent list option \<times> diag_buffer" where
  "lower_action env a =
     (case resolve_action (ast_action_name a) of
        None \<Rightarrow> (None, [])
      | Some known \<Rightarrow>
          (let reason = find_map action_reason (ac_fields a);
               ev = unwrap_or [] (find_map action_evidence (ac_fields a)) in
           if as_kind known = SuppressSymptom then lower_suppress env a reason ev
           else (Some [EmitAction (as_kind known) (map_option kind_ident_name (ac_arg a))
                   (find_map (\<lambda>f. Option.bind (action_target f) metric_path_from_expr) (ac_fields a)) reason ev], [])))"

fun lower_stmt :: "rule_env \<Rightarrow> string list \<Rightarrow> rule_id \<Rightarrow> adgl_stmt \<Rightarrow> intent list option \<times> diag_buffer" where
  "lower_stmt env pii rule (StInfer i) =
     (case lower_infer pii rule i of (x, ds) \<Rightarrow> (map_option (\<lambda>it. [it]) x, ds))"
| "lower_stmt env pii rule (StEmit m) = (Some [lower_emit pii m], [])"
| "lower_stmt env pii rule (StAction a) = lower_action env a"

text \<open>A statement that does not lower is left out.\<close>

fun lower_stmts :: "rule_env \<Rightarrow> string list \<Rightarrow> rule_id \<Rightarrow> adgl_stmt list \<Rightarrow> intent list \<times> diag_buffer" where
  "lower_stmts env pii rule [] = ([], [])"
| "lower_stmts env pii rule (s # ss) =
     (case lower_stmt env pii rule s of
        (x, ds) \<Rightarrow> (case lower_stmts env pii rule ss of (xs, ds2) \<Rightarrow> (unwrap_or [] x @ xs, ds @ ds2)))"

subsection \<open>Rules\<close>

fun contains_present_absent :: "adgl_expr \<Rightarrow> bool" where
  "contains_present_absent (Expr (XPresent i) sp) = True"
| "contains_present_absent (Expr (XAbsent i) sp) = True"
| "contains_present_absent (Expr (XUnary op e) sp) = contains_present_absent e"
| "contains_present_absent (Expr (XBinary op l r) sp) = (contains_present_absent l \<or> contains_present_absent r)"
| "contains_present_absent (Expr (XField b f) sp) = contains_present_absent b"
| "contains_present_absent (Expr (XCall c args) sp) =
     (contains_present_absent c \<or> list_ex id (map contains_present_absent args))"
| "contains_present_absent (Expr (XIndex b i) sp) = (contains_present_absent b \<or> contains_present_absent i)"
| "contains_present_absent (Expr _ sp) = False"

fun lower_anchor_source :: "rule_decl \<Rightarrow> anchor_source" where
  "lower_anchor_source (EvidenceDecl e) = AnchorEvent (kind_ident_name (ab_event_type (ev_anchor e)))"
| "lower_anchor_source (DecisionDecl d) =
     (case de_anchor d of
        OnCause c \<Rightarrow> AnchorCause (id_name (cn_cause c))
      | OnProblem p \<Rightarrow> AnchorProblem (id_name (pn_problem p)))"

definition lower_anchor :: "rule_env \<Rightarrow> rule_decl \<Rightarrow> anchor_spec \<times> diag_buffer" where
  "lower_anchor env r =
     (case (case anchor_predicate r of
              None \<Rightarrow> (always_true, [])
            | Some e \<Rightarrow> compile_predicate env e) of
        (p, ds) \<Rightarrow>
          (\<lparr>an_binding = id_name (anchor_binding r), an_source = lower_anchor_source r, an_predicate = p\<rparr>, ds))"

text \<open>\<open>.max().unwrap_or_default()\<close> over the calculable windows.\<close>

definition max_or_default :: "int list \<Rightarrow> int" where
  "max_or_default xs = (case xs of [] \<Rightarrow> 0 | x # ys \<Rightarrow> fold max ys x)"

definition window_backs :: "correlate_spec list \<Rightarrow> int list" where
  "window_backs cs =
     List.map_filter (\<lambda>c. case co_window c of Calculable b f \<Rightarrow> Some b | RuntimeCheck \<Rightarrow> None) cs"

definition window_forwards :: "correlate_spec list \<Rightarrow> int list" where
  "window_forwards cs =
     List.map_filter (\<lambda>c. case co_window c of Calculable b f \<Rightarrow> Some f | RuntimeCheck \<Rightarrow> None) cs"

definition lower_branches ::
    "rule_env \<Rightarrow> string list \<Rightarrow> rule_id \<Rightarrow> if_else_block option \<Rightarrow> branch_table option \<times> diag_buffer" where
  "lower_branches env pii rule ie =
     (case ie of
        None \<Rightarrow> (None, [])
      | Some b \<Rightarrow>
          (case compile_predicate env (ie_condition b) of (cond, ds1) \<Rightarrow>
           case lower_stmts env pii rule (ie_then b) of (then_body, ds2) \<Rightarrow>
           case lower_stmts env pii rule (unwrap_or [] (ie_else b)) of (else_body, ds3) \<Rightarrow>
             (Some \<lparr>br_cond = cond, br_then = then_body,
                br_else = (if else_body = [] then None else Some else_body),
                br_unknown =
                  (if contains_present_absent (ie_condition b)
                   then [EmitAction RequestTopology None None None []] else [])\<rparr>,
              ds1 @ ds2 @ ds3)))"

definition lower_rule :: "bool \<Rightarrow> string list \<Rightarrow> rule_decl \<Rightarrow> (rule_instance option \<times> diag_buffer) option" where
  "lower_rule chk pii r =
     (let env = for_rule r; rid = id_name (decl_name r) in
      case lower_anchor env r of (anchor, ds1) \<Rightarrow>
      case lower_correlates chk r (decl_correlates r) of
        None \<Rightarrow> None
      | Some (None, ds2) \<Rightarrow> Some (None, ds1 @ ds2)
      | Some (Some correlates, ds2) \<Rightarrow>
          (case lower_stmts env pii rid (decl_body r) of (body, ds3) \<Rightarrow>
           case lower_branches env pii rid (decl_if_else r) of (branches, ds4) \<Rightarrow>
             Some (Some \<lparr>ru_id = rid, ru_kind = decl_kind r, ru_scope = decl_scope r, ru_anchor = anchor,
                     ru_correlates = correlates, ru_branches = branches, ru_body = body,
                     ru_annotations = \<lparr>va_max_backward = max_or_default (window_backs correlates),
                       va_max_forward = max_or_default (window_forwards correlates),
                       va_target_scope = Some (decl_scope r)\<rparr>\<rparr>,
                   ds1 @ ds2 @ ds3 @ ds4)))"

fun lower_rules :: "bool \<Rightarrow> string list \<Rightarrow> rule_decl list \<Rightarrow> (rule_instance list \<times> diag_buffer) option" where
  "lower_rules chk pii [] = Some ([], [])"
| "lower_rules chk pii (r # rs) =
     (case lower_rule chk pii r of
        None \<Rightarrow> None
      | Some (x, ds) \<Rightarrow>
          (case lower_rules chk pii rs of
             None \<Rightarrow> None
           | Some (xs, ds2) \<Rightarrow> Some ((case x of Some i \<Rightarrow> i # xs | None \<Rightarrow> xs), ds @ ds2)))"

subsection \<open>The program image\<close>

text \<open>\<open>split('.')\<close> and \<open>parse::<u8>()\<close>, which takes an optional plus sign and decimal digits.\<close>

fun split_dots :: "string \<Rightarrow> string list" where
  "split_dots [] = [[]]"
| "split_dots (c # cs) =
     (if c = CHR ''.'' then [] # split_dots cs
      else (case split_dots cs of [] \<Rightarrow> [[c]] | p # ps \<Rightarrow> (c # p) # ps))"

definition is_digit :: "char \<Rightarrow> bool" where
  "is_digit c = (48 \<le> (of_char c :: nat) \<and> (of_char c :: nat) \<le> 57)"

definition parse_u8 :: "string \<Rightarrow> nat option" where
  "parse_u8 s =
     (let ds = (case s of c # cs \<Rightarrow> if c = CHR ''+'' then cs else s | [] \<Rightarrow> s);
          v = foldl (\<lambda>a c. 10 * a + (of_char c - 48)) (0 :: nat) ds in
      if ds = [] \<or> \<not> list_all is_digit ds \<or> v > 255 then None else Some v)"

definition nth_or :: "'a \<Rightarrow> nat \<Rightarrow> 'a list \<Rightarrow> 'a" where
  "nth_or d i xs = (if i < length xs then xs ! i else d)"

definition parse_version :: "string \<Rightarrow> u32" where
  "parse_version v =
     (let parts = List.map_filter parse_u8 (split_dots v) in
      pack_version (of_nat (nth_or 1 0 parts)) (of_nat (nth_or 0 1 parts)) (of_nat (nth_or 0 2 parts)))"

definition catalog_ref :: "string \<times> string" where
  "catalog_ref = (''airpulse.catalog'', ''1.3'')"

definition lowered_requires :: "ruleset \<Rightarrow> string list" where
  "lowered_requires rs =
     concat (map (\<lambda>d. case d of Requires rq \<Rightarrow> map sl_value (rq_capabilities rq) | MutuallyExclusive g \<Rightarrow> [])
       (rh_decls (rs_header rs)))"

definition lowered_exclusivity :: "ruleset \<Rightarrow> exclusivity_group list" where
  "lowered_exclusivity rs =
     concat (map (\<lambda>d. case d of Requires rq \<Rightarrow> []
       | MutuallyExclusive g \<Rightarrow> [\<lparr>xg_causes = map id_name (me_idents g)\<rparr>]) (rh_decls (rs_header rs)))"

definition lower_to_image :: "bool \<Rightarrow> ruleset \<Rightarrow> string list \<Rightarrow> (program_image \<times> diag_buffer) option" where
  "lower_to_image chk rs pii =
     (case lower_rules chk pii (rs_rules rs) of
        None \<Rightarrow> None
      | Some (rules, ds) \<Rightarrow>
          Some (image_new (unat (parse_version (sl_value (rh_version (rs_header rs))))) (sl_value (rs_name rs))
                  (lowered_requires rs) (lowered_exclusivity rs) rules catalog_ref, ds))"

subsection \<open>Verification\<close>

record verified_program =
  vp_image :: program_image
  vp_judgements :: "string list"

definition conservative_judgements :: "string list" where
  "conservative_judgements =
     [''Treats non-comparison arithmetic predicates as integer-only and rejects unresolved cases.'',
      ''Treats call expressions in pure predicate/window positions as ADGL0501 regardless of callee name.'',
      ''Infers cause/problem target scope from catalog valid scopes only when unambiguous.'',
      ''Requires explicit metric-path style target expressions for lowering.'']"

definition phase_diags :: "bool \<Rightarrow> verify_config \<Rightarrow> ruleset \<Rightarrow> diag_buffer option" where
  "phase_diags chk cfg rs =
     map_option (\<lambda>ds6.
       phase01_catalog_resolution rs @ phase02_name_and_typecheck rs @ phase03_effect_in_pure rs @
       phase04_capability rs @ phase05_scope_target rs @ ds6 @
       phase07_topology_signatures rs @ phase08_acyclicity rs @ phase09_exclusivity rs @
       phase10_bipartite rs @ phase11_dos_limits cfg rs)
     (phase06_temporal chk cfg rs)"

text \<open>\<open>chk\<close> is the build profile: whether an overflowing window offset panics.\<close>

definition verify_with_config ::
    "bool \<Rightarrow> ruleset \<Rightarrow> verify_config \<Rightarrow> (diag_buffer + verified_program) option" where
  "verify_with_config chk rs cfg =
     (case phase_diags chk cfg rs of
        None \<Rightarrow> None
      | Some ds \<Rightarrow>
          if has_errors ds then Some (Inl ds)
          else
            (case lower_to_image chk rs (phase12_privacy_annotations rs) of
               None \<Rightarrow> None
             | Some (im, ds2) \<Rightarrow>
                 if has_errors (ds @ ds2) then Some (Inl (ds @ ds2))
                 else Some (Inr \<lparr>vp_image = im, vp_judgements = conservative_judgements\<rparr>)))"

definition verify_default :: "bool \<Rightarrow> ruleset \<Rightarrow> (diag_buffer + verified_program) option" where
  "verify_default chk rs = verify_with_config chk rs verify_config_default"

end
