(* ===== verification/Adgl_Compile_Correct.thy ===== *)
theory Adgl_Compile_Correct
  imports Adgl_Lower
begin

text \<open>
  The predicate compiler is correct: a reference evaluator gives expressions a meaning directly,
  over bindings and three-valued logic, and the opcodes \<open>compile_expr\<close> emits compute it, in
  registers below the sixteen of the interpreter, errors included. An expression that type-checks
  without an error compiles to a value or to an error diagnostic, never to a silent default.
\<close>

subsection \<open>The reference evaluator\<close>

fun eval_binop :: "adgl_binop \<Rightarrow> slot \<Rightarrow> slot \<Rightarrow> correlate_error + slot" where
  "eval_binop BinOr a b =
     try_bind (as_truth a ''OR'') (\<lambda>x. try_bind (as_truth b ''OR'') (\<lambda>y. Inr (STruth (t3_or x y))))"
| "eval_binop BinAnd a b =
     try_bind (as_truth a ''AND'') (\<lambda>x. try_bind (as_truth b ''AND'') (\<lambda>y. Inr (STruth (t3_and x y))))"
| "eval_binop BinEq a b = cmp a b ''CMP_EQ'' (\<lambda>x y. x = y)"
| "eval_binop BinNe a b = cmp a b ''CMP_NE'' (\<lambda>x y. x \<noteq> y)"
| "eval_binop BinLt a b = cmp a b ''CMP_LT'' (\<lambda>x y. x < y)"
| "eval_binop BinLe a b = cmp a b ''CMP_LE'' (\<lambda>x y. x \<le> y)"
| "eval_binop BinGt a b = cmp a b ''CMP_GT'' (\<lambda>x y. y < x)"
| "eval_binop BinGe a b = cmp a b ''CMP_GE'' (\<lambda>x y. y \<le> x)"
| "eval_binop BinIn a b = Inl (TypeMismatch ''IN'')"
| "eval_binop BinAdd a b = arith a b ''ADD'' (\<lambda>x y. checked (i64_checked (x + y)))"
| "eval_binop BinSub a b = arith a b ''SUB'' (\<lambda>x y. checked (i64_checked (x - y)))"
| "eval_binop BinMul a b = arith a b ''MUL'' (\<lambda>x y. checked (i64_checked (x * y)))"
| "eval_binop BinDiv a b =
     arith a b ''DIV'' (\<lambda>x y. if y = 0 then Inl DivisionByZero else checked (checked_div x y))"
| "eval_binop BinRem a b =
     arith a b ''MOD'' (\<lambda>x y. if y = 0 then Inl DivisionByZero else checked (checked_rem x y))"

fun load_field :: "binding_type \<Rightarrow> binding \<Rightarrow> nat \<Rightarrow> correlate_error + slot" where
  "load_field (EventOf t) b f = load_event_field b f"
| "load_field (CauseOf k) b f = load_cause_field b f"
| "load_field (ProblemOf p) b f = load_problem_field b f"

text \<open>The value of \<open>binding.field\<close>: the field of the catalog schema of the binding's type, read from
  what is bound at the binding's index.\<close>

definition eval_field :: "rule_env \<Rightarrow> pred_ctx \<Rightarrow> string \<Rightarrow> string \<Rightarrow> correlate_error + slot" where
  "eval_field env ctx b f =
     (case hm_get (re_bindings env) b of
        None \<Rightarrow> Inl (TypeMismatch b)
      | Some ty \<Rightarrow>
          (case resolve_metric_path ty (dotted b f) of
             None \<Rightarrow> Inl (TypeMismatch f)
           | Some (idx, t) \<Rightarrow>
               try_bind (ctx_binding ctx (binding_index env b)) (\<lambda>x. load_field ty x idx)))"

fun eval_expr :: "rule_env \<Rightarrow> pred_ctx \<Rightarrow> adgl_expr \<Rightarrow> correlate_error + slot" where
  "eval_expr env ctx (Expr (XInt i) sp) = Inr (SInt (il_value i))"
| "eval_expr env ctx (Expr (XDuration d) sp) = Inr (SInt (duration_or_default (dl_millis d)))"
| "eval_expr env ctx (Expr (XString s) sp) = Inr (SInt (stable_string_i64 (str_bytes (sl_value s))))"
| "eval_expr env ctx (Expr (XBool b) sp) = Inr (SInt (if b then 1 else 0))"
| "eval_expr env ctx (Expr (XIdent i) sp) =
     (if id_name i = ''scope'' then Inr (SInt (scope_key_i64 (px_scope ctx))) else Inl (TypeMismatch (id_name i)))"
| "eval_expr env ctx (Expr (XPresent i) sp) =
     try_bind (ctx_binding ctx (binding_index env (id_name i))) (\<lambda>x. Inr (STruth (present_of x)))"
| "eval_expr env ctx (Expr (XAbsent i) sp) =
     try_bind (ctx_binding ctx (binding_index env (id_name i))) (\<lambda>x. Inr (STruth (absent_of x)))"
| "eval_expr env ctx (Expr (XField b f) sp) =
     (case ex_kind b of
        XIdent i \<Rightarrow> eval_field env ctx (id_name i) (id_name f)
      | _ \<Rightarrow> Inl (TypeMismatch (id_name f)))"
| "eval_expr env ctx (Expr (XUnary op e) sp) =
     try_bind (eval_expr env ctx e) (\<lambda>v. try_bind (as_truth v ''NOT'') (\<lambda>t. Inr (STruth (t3_not t))))"
| "eval_expr env ctx (Expr (XBinary op l r) sp) =
     try_bind (eval_expr env ctx l) (\<lambda>a. try_bind (eval_expr env ctx r) (\<lambda>b. eval_binop op a b))"
| "eval_expr env ctx (Expr (XCall c args) sp) = Inl (TypeMismatch ''CALL'')"
| "eval_expr env ctx (Expr (XIndex b i) sp) = Inl (TypeMismatch ''INDEX'')"

subsection \<open>One opcode\<close>

lemma slot_new_Some: "slot_new n = Some s \<longleftrightarrow> n < max_slots \<and> s = SlotIdx n"
  by (auto simp: slot_new_def)

lemma emit_op_cases:
  "(n < max_slots \<and> emit_op sp mk (ops, n) = (Some n, (ops @ [mk (SlotIdx n)], n + 1), [])) \<or>
   (\<exists>r st ds. emit_op sp mk (ops, n) = (r, st, ds) \<and> has_errors ds)"
  by (auto simp: emit_op_def slot_alloc_def slot_new_def max_slots_def Let_def)

lemma emit_op_ok:
  assumes "emit_op sp mk st = (r, st', ds)" "\<not> has_errors ds"
  shows "snd st < max_slots \<and> r = Some (snd st) \<and> st' = (fst st @ [mk (SlotIdx (snd st))], snd st + 1)"
  using assms emit_op_cases [of "snd st" sp mk "fst st"] by auto

lemma eval_ops_append:
  "eval_ops ctx (xs @ ys) slots = try_bind (eval_ops ctx xs slots) (eval_ops ctx ys)"
proof (induction xs arbitrary: slots)
  case (Cons x xs)
  then show ?case by (cases "op_value ctx slots x") auto
qed simp

text \<open>Code that computes a value: from register \<open>n\<close> up to \<open>n'\<close>, the result in \<open>r\<close>.\<close>

definition op_within :: "nat \<Rightarrow> nat \<Rightarrow> pred_op \<Rightarrow> bool" where
  "op_within n n' i \<longleftrightarrow> list_all (\<lambda>s. n \<le> slot_index s \<and> slot_index s < n') (op_dst i # op_reads i)"

definition computes ::
    "pred_ctx \<Rightarrow> pred_op list \<Rightarrow> nat \<Rightarrow> nat \<Rightarrow> nat \<Rightarrow> correlate_error + slot \<Rightarrow> bool" where
  "computes ctx code n n' r v \<longleftrightarrow>
     n \<le> r \<and> r < n' \<and> n' \<le> max_slots \<and> list_all (op_within n n') code \<and>
     (\<forall>slots. length slots = max_slots \<longrightarrow>
        (case v of
           Inl e \<Rightarrow> eval_ops ctx code slots = Inl e
         | Inr x \<Rightarrow> \<exists>slots'. eval_ops ctx code slots = Inr slots' \<and> length slots' = max_slots \<and>
             slots' ! r = x \<and> (\<forall>i<n. slots' ! i = slots ! i)))"

lemma op_within_mono: "op_within a b i \<Longrightarrow> a' \<le> a \<Longrightarrow> b \<le> b' \<Longrightarrow> op_within a' b' i"
  by (auto simp: op_within_def list_all_iff)

lemma op_within_code_mono: "list_all (op_within a b) is \<Longrightarrow> a' \<le> a \<Longrightarrow> b \<le> b' \<Longrightarrow> list_all (op_within a' b') is"
  by (auto simp: list_all_iff intro: op_within_mono)

lemma computes_op:
  assumes "n < max_slots" "op_dst (mk (SlotIdx n)) = SlotIdx n" "op_reads (mk (SlotIdx n)) = []"
    and "\<And>slots. op_value ctx slots (mk (SlotIdx n)) = v"
  shows "computes ctx [mk (SlotIdx n)] n (n + 1) n v"
  using assms by (cases v) (auto simp: computes_def op_within_def set_reg_def)

lemma computes_unary:
  assumes "computes ctx code n n1 r a" "n1 < max_slots"
    and "op_dst i = SlotIdx n1" "op_reads i = [SlotIdx r]"
    and "\<And>slots. op_value ctx slots i = f (slots ! r)"
  shows "computes ctx (code @ [i]) n (n1 + 1) n1 (try_bind a f)"
proof -
  have r: "n \<le> r" "r < n1" and code: "list_all (op_within n n1) code" using assms(1) by (auto simp: computes_def)
  have "case try_bind a f of Inl e \<Rightarrow> eval_ops ctx (code @ [i]) slots = Inl e
      | Inr x \<Rightarrow> \<exists>slots'. eval_ops ctx (code @ [i]) slots = Inr slots' \<and> length slots' = max_slots \<and>
          slots' ! n1 = x \<and> (\<forall>j<n. slots' ! j = slots ! j)"
    if len: "length slots = max_slots" for slots
  proof (cases a)
    case (Inl e)
    with assms(1) len have "eval_ops ctx code slots = Inl e" by (simp add: computes_def)
    with Inl show ?thesis by (simp add: eval_ops_append)
  next
    case (Inr x)
    with assms(1) len obtain s1 where s1: "eval_ops ctx code slots = Inr s1" "length s1 = max_slots" "s1 ! r = x"
      "\<forall>j<n. s1 ! j = slots ! j" by (auto simp: computes_def)
    then show ?thesis
      using Inr assms(2-5) r by (cases "f x") (auto simp: eval_ops_append set_reg_def)
  qed
  with r assms(2-4) op_within_code_mono [OF code] show ?thesis by (auto simp: computes_def op_within_def)
qed

lemma computes_binary:
  assumes l: "computes ctx c1 n n1 rl a" and rr: "computes ctx c2 n1 n2 rr b" and "n2 < max_slots"
    and "op_dst i = SlotIdx n2" "op_reads i = [SlotIdx rl, SlotIdx rr]"
    and "\<And>slots. op_value ctx slots i = f (slots ! rl) (slots ! rr)"
  shows "computes ctx (c1 @ c2 @ [i]) n (n2 + 1) n2 (try_bind a (\<lambda>x. try_bind b (f x)))"
proof -
  have r: "n \<le> rl" "rl < n1" "n1 \<le> rr" "rr < n2" and code: "list_all (op_within n n1) c1" "list_all (op_within n1 n2) c2"
    using l rr by (auto simp: computes_def)
  have "case try_bind a (\<lambda>x. try_bind b (f x)) of Inl e \<Rightarrow> eval_ops ctx (c1 @ c2 @ [i]) slots = Inl e
      | Inr x \<Rightarrow> \<exists>slots'. eval_ops ctx (c1 @ c2 @ [i]) slots = Inr slots' \<and> length slots' = max_slots \<and>
          slots' ! n2 = x \<and> (\<forall>j<n. slots' ! j = slots ! j)"
    if len: "length slots = max_slots" for slots
  proof (cases a)
    case (Inl e)
    with l len have "eval_ops ctx c1 slots = Inl e" by (simp add: computes_def)
    with Inl show ?thesis by (simp add: eval_ops_append)
  next
    case x: (Inr x)
    with l len obtain s1 where s1: "eval_ops ctx c1 slots = Inr s1" "length s1 = max_slots" "s1 ! rl = x"
      "\<forall>j<n. s1 ! j = slots ! j" by (auto simp: computes_def)
    show ?thesis
    proof (cases b)
      case (Inl e)
      with rr s1(2) have "eval_ops ctx c2 s1 = Inl e" by (simp add: computes_def)
      with Inl x s1 show ?thesis by (simp add: eval_ops_append)
    next
      case (Inr y)
      with rr s1(2) obtain s2 where s2: "eval_ops ctx c2 s1 = Inr s2" "length s2 = max_slots" "s2 ! rr = y"
        "\<forall>j<n1. s2 ! j = s1 ! j" by (auto simp: computes_def)
      then have "s2 ! rl = x" "\<forall>j<n. s2 ! j = slots ! j" using s1 r by auto
      with s1 s2 x Inr assms(3-6) r show ?thesis by (cases "f x y") (auto simp: eval_ops_append set_reg_def)
    qed
  qed
  with r assms(3-5) op_within_code_mono [OF code(1)] op_within_code_mono [OF code(2)] show ?thesis
    by (auto simp: computes_def op_within_def)
qed

subsection \<open>Expressions\<close>

lemma binary_op_spec:
  "binary_op op l r d = Some i \<Longrightarrow> op_dst i = d \<and> op_reads i = [l, r] \<and>
   op_value ctx slots i = eval_binop op (get_reg slots l) (get_reg slots r)"
  by (cases op) auto

lemma binary_op_defined: "binary_op op l r d = None \<longleftrightarrow> op = BinIn"
  by (cases op) auto

lemma load_field_spec:
  "op_dst (load_field_op ty b f d) = d" "op_reads (load_field_op ty b f d) = []"
  "op_value ctx slots (load_field_op ty b f d) = try_bind (ctx_binding ctx b) (\<lambda>x. load_field ty x f)"
  by (cases ty; simp)+

lemma emit_computes:
  assumes "emit_op sp mk st = (Some r, st', ds)" "\<not> has_errors ds"
    and "\<And>d. op_dst (mk d) = d" "\<And>d. op_reads (mk d) = []" "\<And>d slots. op_value ctx slots (mk d) = v"
  shows "\<exists>code. fst st' = fst st @ code \<and> computes ctx code (snd st) (snd st') r v"
proof -
  from emit_op_ok [OF assms(1,2)] have e: "snd st < max_slots" "r = snd st"
    "st' = (fst st @ [mk (SlotIdx (snd st))], snd st + 1)" by auto
  with computes_op [of "snd st" mk ctx v] assms(3-) show ?thesis by auto
qed

lemma compile_expr_computes:
  assumes "compile_expr env e st = (Some r, st', ds)" "\<not> has_errors ds"
  shows "\<exists>code. fst st' = fst st @ code \<and> computes ctx code (snd st) (snd st') r (eval_expr env ctx e)"
  using assms
proof (induction env e st arbitrary: r st' ds rule: compile_expr.induct)
  case (5 env i sp st)
  then show ?case
    using emit_computes [of sp PLoadScopeKey st r st' ds ctx "Inr (SInt (scope_key_i64 (px_scope ctx)))"]
    by (auto split: if_splits)
next
  case (8 env b f sp st)
  then obtain i ty idx t where
    f: "ex_kind b = XIdent i" "hm_get (re_bindings env) (id_name i) = Some ty"
      "resolve_metric_path ty (dotted (id_name i) (id_name f)) = Some (idx, t)"
      "emit_op sp (load_field_op ty (binding_index env (id_name i)) idx) st = (Some r, st', ds)"
    by (auto split: expr_kind.splits option.splits if_splits)
  from emit_computes [OF f(4) "8.prems"(2) load_field_spec] f show ?case by (simp add: eval_field_def)
next
  case (9 env op e sp st)
  then obtain src st1 ds1 ds2 where
    c: "compile_expr env e st = (Some src, st1, ds1)" "emit_op sp (PNot (SlotIdx src)) st1 = (Some r, st', ds2)"
      "ds = ds1 @ ds2"
    by (auto split: prod.splits option.splits)
  from "9.IH" [OF c(1)] "9.prems"(2) c(3) obtain code where
    code: "fst st1 = fst st @ code" "computes ctx code (snd st) (snd st1) src (eval_expr env ctx e)" by auto
  from emit_op_ok [OF c(2)] "9.prems"(2) c(3) have e: "snd st1 < max_slots" "r = snd st1"
    "st' = (fst st1 @ [PNot (SlotIdx src) (SlotIdx (snd st1))], snd st1 + 1)" by auto
  from computes_unary [OF code(2) e(1), of "PNot (SlotIdx src) (SlotIdx (snd st1))"
      "\<lambda>v. try_bind (as_truth v ''NOT'') (\<lambda>t. Inr (STruth (t3_not t)))"] code(1) e
  show ?case by (simp add: get_reg_def)
next
  case (10 env op l r' sp st)
  then obtain lhs st1 ds1 rhs st2 ds2 i0 ds3 where
    c: "compile_expr env l st = (Some lhs, st1, ds1)" "compile_expr env r' st1 = (Some rhs, st2, ds2)"
      "binary_op op (SlotIdx lhs) (SlotIdx rhs) (SlotIdx 0) = Some i0"
      "emit_op sp (\<lambda>d. the (binary_op op (SlotIdx lhs) (SlotIdx rhs) d)) st2 = (Some r, st', ds3)"
      "ds = ds1 @ ds2 @ ds3"
    by (auto split: prod.splits option.splits)
  from "10.IH"(1) [OF c(1)] "10.prems"(2) c(5) obtain c1 where
    c1: "fst st1 = fst st @ c1" "computes ctx c1 (snd st) (snd st1) lhs (eval_expr env ctx l)" by auto
  from "10.IH"(2) [OF c(1) [symmetric] refl refl c(2)] "10.prems"(2) c(5) obtain c2 where
    c2: "fst st2 = fst st1 @ c2" "computes ctx c2 (snd st1) (snd st2) rhs (eval_expr env ctx r')" by auto
  from emit_op_ok [OF c(4)] "10.prems"(2) c(5) have e: "snd st2 < max_slots" "r = snd st2"
    "st' = (fst st2 @ [the (binary_op op (SlotIdx lhs) (SlotIdx rhs) (SlotIdx (snd st2)))], snd st2 + 1)" by auto
  from c(3) have "op \<noteq> BinIn" using binary_op_defined [of op "SlotIdx lhs" "SlotIdx rhs" "SlotIdx 0"] by auto
  then obtain i where i: "binary_op op (SlotIdx lhs) (SlotIdx rhs) (SlotIdx (snd st2)) = Some i"
    using binary_op_defined [of op "SlotIdx lhs" "SlotIdx rhs" "SlotIdx (snd st2)"] by auto
  from computes_binary [OF c1(2) c2(2) e(1), of i "eval_binop op"] binary_op_spec [OF i] c1(1) c2(1) e i
  show ?case by (simp add: get_reg_def)
qed (auto intro!: emit_computes)

text \<open>The predicate compiler is correct. A predicate that compiles without an error diagnostic
  evaluates, on every binding vector, scope and topology, to exactly what the reference evaluator
  gives for the source expression: the same truth value, or the same evaluation error.\<close>

theorem compiled_predicate_evaluates:
  assumes "compile_expr env e ([], 0) = (Some r, st, ds)" "\<not> has_errors ds"
  shows "eval_predicate (fst (compile_predicate env e)) ctx
    = try_bind (eval_expr env ctx e) (\<lambda>v. as_truth v ''RESULT'')"
proof -
  from compile_expr_computes [OF assms, of ctx] have
    c: "computes ctx (fst st) 0 (snd st) r (eval_expr env ctx e)" by auto
  then have r: "r < max_slots" by (auto simp: computes_def)
  have p: "fst (compile_predicate env e) = \<lparr>pd_ops = fst st, pd_result = SlotIdx r\<rparr>"
    using assms(1) r by (simp add: compile_predicate_def unwrap_or_def slot_new_def)
  show ?thesis
  proof (cases "eval_expr env ctx e")
    case (Inl x)
    with c have "eval_ops ctx (fst st) (replicate max_slots Empty) = Inl x" by (simp add: computes_def)
    with Inl show ?thesis by (simp add: p eval_predicate_def)
  next
    case (Inr v)
    have "length (replicate max_slots Empty) = max_slots" by simp
    with c Inr obtain s where "eval_ops ctx (fst st) (replicate max_slots Empty) = Inr s" "s ! r = v"
      unfolding computes_def by fastforce
    with Inr show ?thesis by (simp add: p eval_predicate_def get_reg_def)
  qed
qed

lemma compiled_predicate_ok:
  assumes "compile_expr env e ([], 0) = (Some r, st, ds)" "\<not> has_errors ds"
  shows "predicate_ok (fst (compile_predicate env e))"
proof -
  from compile_expr_computes [OF assms, of undefined] have
    "computes undefined (fst st) 0 (snd st) r (eval_expr env undefined e)" by auto
  then have "r < max_slots" "snd st \<le> max_slots" "list_all (op_within 0 (snd st)) (fst st)"
    by (auto simp: computes_def)
  moreover from this have "list_all (op_within 0 max_slots) (fst st)"
    using op_within_code_mono [of 0 "snd st" "fst st" 0 max_slots] by simp
  ultimately show ?thesis
    using assms(1) by (auto simp: predicate_ok_def compile_predicate_def unwrap_or_def slot_new_def
        op_within_def list_all_iff)
qed

subsection \<open>Types\<close>

text \<open>Without an error from the type checker and from the compiler there is a value.\<close>

lemma typed_compiles:
  assumes "\<not> has_errors (snd (infer_expr_type env e))" "compile_expr env e st = (r, st', ds)" "\<not> has_errors ds"
  shows "r \<noteq> None"
  using assms
proof (induction env e st arbitrary: r st' ds rule: compile_expr.induct)
  case (8 env b f sp st)
  then show ?case
    by (auto simp: reject_intlist_def dest!: emit_op_ok split: expr_kind.splits option.splits if_splits)
next
  case (9 env op e sp st)
  obtain r1 st1 ds1 where c: "compile_expr env e st = (r1, st1, ds1)" by (metis prod_cases3)
  with "9.prems"(2,3) have "\<not> has_errors ds1" by (auto split: option.splits prod.splits)
  with "9.IH" [OF _ c] "9.prems"(1) obtain src where "r1 = Some src" by auto
  with c "9.prems"(2,3) show ?case by (auto dest!: emit_op_ok split: prod.splits)
next
  case (10 env op l r' sp st)
  have t: "\<not> has_errors (snd (infer_expr_type env l))" "\<not> has_errors (snd (infer_expr_type env r'))"
    using "10.prems"(1) by (auto split: prod.splits)
  obtain r1 st1 ds1 where c: "compile_expr env l st = (r1, st1, ds1)" by (metis prod_cases3)
  with "10.prems"(2,3) have "\<not> has_errors ds1" by (auto split: option.splits prod.splits)
  with "10.IH"(1) [OF t(1) c] obtain lhs where l: "r1 = Some lhs" by auto
  obtain r2 st2 ds2 where c2: "compile_expr env r' st1 = (r2, st2, ds2)" by (metis prod_cases3)
  with c l "10.prems"(2,3) have "\<not> has_errors ds2" by (auto split: option.splits prod.splits)
  with "10.IH"(2) [OF c [symmetric] _ refl t(2) c2] l obtain rhs where "r2 = Some rhs" by auto
  with c l c2 "10.prems"(2,3) show ?case
    by (auto simp: reject_intlist_def dest!: emit_op_ok split: prod.splits option.splits)
qed (auto dest!: emit_op_ok split: if_splits)

end
