(* ===== verification/Adgl_Verified.thy ===== *)
theory Adgl_Verified
  imports Adgl_Compile_Correct
begin

text \<open>
  What a verified image guarantees to the engine that runs it: no rule is dropped and rules keep
  their order; every predicate means its source expression and stays in its registers; windows
  lie within the lookback and the annotations cover them; topology calls and match counts are
  well formed; evidence rules emit no problem and decision rules infer no cause; no rule can fire
  itself through a cascade; and the private fields of the evidence are declared.
\<close>

subsection \<open>Lowering without errors\<close>

lemma unwrap_or_simps [simp]: "unwrap_or d None = d" "unwrap_or d (Some x) = x"
  by (simp_all add: unwrap_or_def)

lemma lower_topo_args_none: "lower_topo_args as = (None, ds) \<Longrightarrow> has_errors ds"
  by (induction "as" arbitrary: ds) (auto split: option.splits prod.splits)

lemma lower_topo_args_length: "lower_topo_args as = (Some ps, ds) \<Longrightarrow> length ps = length as"
  by (induction "as" arbitrary: ps ds) (auto split: option.splits prod.splits)

lemma lower_min_match_range: "lower_min_match m = Some (Some k, ds) \<Longrightarrow> 1 \<le> k \<and> k \<le> 32"
  by (auto simp: lower_min_match_def split: option.splits if_splits)

lemma lower_min_match_none: "lower_min_match m = Some (None, ds) \<Longrightarrow> has_errors ds"
  by (auto simp: lower_min_match_def split: option.splits if_splits)

lemma lower_correlate_none:
  "lower_correlate chk r c = Some (None, ds) \<Longrightarrow> resolve_topo_fn (id_name (tp_name (cb_topo c))) \<noteq> None \<Longrightarrow> has_errors ds"
  by (auto simp: lower_correlate_def dest!: lower_topo_args_none lower_min_match_none
      split: option.splits prod.splits)

lemma lower_correlate_some:
  assumes "lower_correlate chk r c = Some (Some x, ds)"
  obtains fn args w m ds1 ds2 where "resolve_topo_fn (id_name (tp_name (cb_topo c))) = Some fn"
    "lower_topo_args (tp_args (cb_topo c)) = (Some args, ds1)" "lower_min_match (cb_min_match c) = Some (Some m, ds2)"
    "lower_window chk r c = Some w"
    "x = \<lparr>co_binding = id_name (cb_binding c), co_source = lower_source (cb_source c),
            co_topo = \<lparr>tc_func = id_name (tp_name (cb_topo c)), tc_func_idx = tf_idx fn, tc_args = args\<rparr>,
            co_window = w, co_min_match = m\<rparr>"
  using assms by (auto simp: lower_correlate_def split: option.splits prod.splits)

definition correlate_lowered :: "bool \<Rightarrow> rule_decl \<Rightarrow> correlate_block \<Rightarrow> correlate_spec \<Rightarrow> bool" where
  "correlate_lowered chk r c x \<longleftrightarrow> (\<exists>ds. lower_correlate chk r c = Some (Some x, ds))"

lemma lower_correlates_some:
  "lower_correlates chk r cs = Some (Some xs, ds) \<Longrightarrow> list_all2 (correlate_lowered chk r) cs xs"
  by (induction cs arbitrary: xs ds) (fastforce simp: correlate_lowered_def split: option.splits prod.splits)+

lemma lower_correlates_none:
  "lower_correlates chk r cs = Some (None, ds) \<Longrightarrow>
   \<forall>c\<in>set cs. resolve_topo_fn (id_name (tp_name (cb_topo c))) \<noteq> None \<Longrightarrow> has_errors ds"
proof (induction cs arbitrary: ds)
  case (Cons c cs)
  then show ?case
    using lower_correlate_none [of chk r c] by (force split: option.splits prod.splits)
qed simp

lemma lower_stmts_member:
  "lower_stmts env pii rule ss = (xs, ds) \<Longrightarrow> x \<in> set xs \<Longrightarrow>
   \<exists>s\<in>set ss. \<exists>ys ds'. lower_stmt env pii rule s = (Some ys, ds') \<and> x \<in> set ys"
proof (induction ss arbitrary: xs ds)
  case (Cons s ss)
  obtain y ds1 where s: "lower_stmt env pii rule s = (y, ds1)" by force
  obtain ys ds2 where ss: "lower_stmts env pii rule ss = (ys, ds2)" by force
  from Cons.prems s ss have "x \<in> set (unwrap_or [] y) \<or> x \<in> set ys" by auto
  with s Cons.IH [OF ss] show ?case by (cases y) auto
qed simp

definition rule_intents :: "rule_instance \<Rightarrow> intent list" where
  "rule_intents i =
     ru_body i @
     (case ru_branches i of None \<Rightarrow> [] | Some b \<Rightarrow> br_then b @ unwrap_or [] (br_else b) @ br_unknown b)"

definition topology_request :: intent where
  "topology_request = EmitAction RequestTopology None None None []"

text \<open>What \<open>lower_rule\<close> makes of a rule.\<close>

definition rule_lowered :: "bool \<Rightarrow> string list \<Rightarrow> rule_decl \<Rightarrow> rule_instance \<Rightarrow> bool" where
  "rule_lowered chk pii r i \<longleftrightarrow> (\<exists>ds. lower_rule chk pii r = Some (Some i, ds) \<and> \<not> has_errors ds)"

lemma rule_loweredE:
  assumes "rule_lowered chk pii r i"
  obtains anchor ds1 xs ds2 body ds3 br ds4 where
    "lower_anchor (for_rule r) r = (anchor, ds1)" "lower_correlates chk r (decl_correlates r) = Some (Some xs, ds2)"
    "lower_stmts (for_rule r) pii (id_name (decl_name r)) (decl_body r) = (body, ds3)"
    "lower_branches (for_rule r) pii (id_name (decl_name r)) (decl_if_else r) = (br, ds4)"
    "i = \<lparr>ru_id = id_name (decl_name r), ru_kind = decl_kind r, ru_scope = decl_scope r, ru_anchor = anchor,
            ru_correlates = xs, ru_branches = br, ru_body = body,
            ru_annotations = \<lparr>va_max_backward = max_or_default (window_backs xs),
              va_max_forward = max_or_default (window_forwards xs), va_target_scope = Some (decl_scope r)\<rparr>\<rparr>"
    "\<not> has_errors ds1" "\<not> has_errors ds4"
proof -
  from assms obtain ds where l: "lower_rule chk pii r = Some (Some i, ds)" "\<not> has_errors ds"
    by (auto simp: rule_lowered_def)
  obtain anchor ds1 where a: "lower_anchor (for_rule r) r = (anchor, ds1)" by force
  obtain body ds3 where b: "lower_stmts (for_rule r) pii (id_name (decl_name r)) (decl_body r) = (body, ds3)" by force
  obtain br ds4 where br: "lower_branches (for_rule r) pii (id_name (decl_name r)) (decl_if_else r) = (br, ds4)" by force
  from l(1) a obtain xs ds2 where c: "lower_correlates chk r (decl_correlates r) = Some (Some xs, ds2)"
    by (auto simp: lower_rule_def Let_def split: option.splits prod.splits)
  show thesis by (rule that [OF a c b br]) (use l a b c br in \<open>auto simp: lower_rule_def Let_def\<close>)
qed

lemma lower_branches_some:
  assumes "lower_branches env pii rule ie = (Some b, ds)"
  obtains e d1 d2 d3 then_body else_body where "ie = Some e" "compile_predicate env (ie_condition e) = (br_cond b, d1)"
    "lower_stmts env pii rule (ie_then e) = (then_body, d2)"
    "lower_stmts env pii rule (unwrap_or [] (ie_else e)) = (else_body, d3)" "ds = d1 @ d2 @ d3"
    "br_then b = then_body" "unwrap_or [] (br_else b) = else_body" "set (br_unknown b) \<subseteq> {topology_request}"
proof -
  from assms obtain e where e: "ie = Some e" by (auto simp: lower_branches_def split: option.splits)
  obtain p d1 where p: "compile_predicate env (ie_condition e) = (p, d1)" by force
  obtain t d2 where t: "lower_stmts env pii rule (ie_then e) = (t, d2)" by force
  obtain f d3 where f: "lower_stmts env pii rule (unwrap_or [] (ie_else e)) = (f, d3)" by force
  from assms e p t f have b: "b = \<lparr>br_cond = p, br_then = t, br_else = (if f = [] then None else Some f),
      br_unknown = (if contains_present_absent (ie_condition e) then [topology_request] else [])\<rparr>" "ds = d1 @ d2 @ d3"
    by (auto simp: lower_branches_def topology_request_def)
  show thesis by (rule that [OF e _ t f b(2)]) (auto simp: b(1) p)
qed

lemma rule_intents_source:
  assumes "rule_lowered chk pii r i" "x \<in> set (rule_intents i)"
  shows "x = topology_request \<or> (\<exists>s\<in>set (gather_rule_statements r). \<exists>ys ds.
    lower_stmt (for_rule r) pii (id_name (decl_name r)) s = (Some ys, ds) \<and> x \<in> set ys)"
  using assms(1)
proof (rule rule_loweredE)
  fix anchor ds1 xs ds2 body ds3 br ds4
  assume b: "lower_stmts (for_rule r) pii (id_name (decl_name r)) (decl_body r) = (body, ds3)"
    and br: "lower_branches (for_rule r) pii (id_name (decl_name r)) (decl_if_else r) = (br, ds4)"
    and i: "i = \<lparr>ru_id = id_name (decl_name r), ru_kind = decl_kind r, ru_scope = decl_scope r, ru_anchor = anchor,
            ru_correlates = xs, ru_branches = br, ru_body = body,
            ru_annotations = \<lparr>va_max_backward = max_or_default (window_backs xs),
              va_max_forward = max_or_default (window_forwards xs), va_target_scope = Some (decl_scope r)\<rparr>\<rparr>"
  show ?thesis
  proof (cases "x \<in> set body")
    case True
    from lower_stmts_member [OF b this] show ?thesis by (auto simp: gather_rule_statements_def)
  next
    case False
    with assms(2) i obtain bt where "br = Some bt" and x: "x \<in> set (br_then bt) \<union> set (unwrap_or [] (br_else bt)) \<union> set (br_unknown bt)"
      by (auto simp: rule_intents_def split: option.splits)
    with br obtain e d2 d3 where "decl_if_else r = Some e"
      "lower_stmts (for_rule r) pii (id_name (decl_name r)) (ie_then e) = (br_then bt, d2)"
      "lower_stmts (for_rule r) pii (id_name (decl_name r)) (unwrap_or [] (ie_else e)) = (unwrap_or [] (br_else bt), d3)"
      "set (br_unknown bt) \<subseteq> {topology_request}" by (metis lower_branches_some)
    with x lower_stmts_member [OF this(2)] lower_stmts_member [OF this(3)] show ?thesis
      by (fastforce simp: gather_rule_statements_def unwrap_or_def split: option.splits)
  qed
qed

lemma lower_rules_some:
  "lower_rules chk pii rs = Some (is, ds) \<Longrightarrow> \<not> has_errors ds \<Longrightarrow>
   \<forall>r\<in>set rs. \<forall>c\<in>set (decl_correlates r). resolve_topo_fn (id_name (tp_name (cb_topo c))) \<noteq> None \<Longrightarrow>
   list_all2 (rule_lowered chk pii) rs is"
proof (induction rs arbitrary: "is" ds)
  case (Cons r rs)
  from Cons.prems(1) obtain x d1 ys d2 where l: "lower_rule chk pii r = Some (x, d1)" "lower_rules chk pii rs = Some (ys, d2)"
    "is = (case x of Some i \<Rightarrow> i # ys | None \<Rightarrow> ys)" "ds = d1 @ d2"
    by (auto split: option.splits prod.splits)
  have "x \<noteq> None"
  proof
    assume "x = None"
    with l(1) obtain d3 d4 where "lower_correlates chk r (decl_correlates r) = Some (None, d4)" "d1 = d3 @ d4"
      by (auto simp: lower_rule_def Let_def split: option.splits prod.splits)
    with lower_correlates_none [of chk r "decl_correlates r" d4] Cons.prems(2,3) l(4) show False by auto
  qed
  then obtain i where i: "x = Some i" by auto
  moreover have "rule_lowered chk pii r i" using l Cons.prems(2) i by (auto simp: rule_lowered_def)
  moreover have "list_all2 (rule_lowered chk pii) rs ys" by (rule Cons.IH [OF l(2)]) (use Cons.prems l in auto)
  ultimately show ?case using l(3) by simp
qed simp

subsection \<open>Verification\<close>

lemma verified_phases:
  assumes "verify_with_config chk rs cfg = Some (Inr vp)"
  shows "\<not> has_errors (phase02_name_and_typecheck rs)" "\<not> has_errors (phase07_topology_signatures rs)"
    "\<not> has_errors (phase08_acyclicity rs)" "\<not> has_errors (phase10_bipartite rs)"
    "\<exists>ds. phase06_temporal chk cfg rs = Some ds \<and> \<not> has_errors ds"
proof -
  from assms obtain ds where "phase_diags chk cfg rs = Some ds" "\<not> has_errors ds"
    by (auto simp: verify_with_config_def split: option.splits if_splits)
  then show "\<not> has_errors (phase02_name_and_typecheck rs)" "\<not> has_errors (phase07_topology_signatures rs)"
    "\<not> has_errors (phase08_acyclicity rs)" "\<not> has_errors (phase10_bipartite rs)"
    "\<exists>ds. phase06_temporal chk cfg rs = Some ds \<and> \<not> has_errors ds"
    by (auto simp: phase_diags_def)
qed

lemma verified_resolve:
  assumes "verify_with_config chk rs cfg = Some (Inr vp)" "r \<in> set (rs_rules rs)" "c \<in> set (decl_correlates r)"
  shows "\<exists>fn. resolve_topo_fn (id_name (tp_name (cb_topo c))) = Some fn \<and> tf_arity fn = length (tp_args (cb_topo c))"
proof -
  from verified_phases(2) [OF assms(1)] assms(2,3) have "\<not> has_errors (topo_diags (for_rule r) c)"
    by (auto simp: phase07_topology_signatures_def)
  then show ?thesis by (auto simp: topo_diags_def Let_def split: option.splits if_splits)
qed

lemma verified_rules:
  assumes "verify_with_config chk rs cfg = Some (Inr vp)"
  shows "list_all2 (rule_lowered chk (phase12_privacy_annotations rs)) (rs_rules rs) (im_rules (vp_image vp))"
proof -
  from assms obtain rules ds where l: "lower_rules chk (phase12_privacy_annotations rs) (rs_rules rs) = Some (rules, ds)"
    "\<not> has_errors ds" "im_rules (vp_image vp) = rules"
    by (auto simp: verify_with_config_def lower_to_image_def image_new_def Let_def split: if_splits option.splits prod.splits)
  show ?thesis unfolding l(3) by (rule lower_rules_some [OF l(1,2)]) (use verified_resolve [OF assms] in blast)
qed

lemma verified_rule_at:
  assumes "verify_with_config chk rs cfg = Some (Inr vp)" "i \<in> set (im_rules (vp_image vp))"
  obtains r where "r \<in> set (rs_rules rs)" "rule_lowered chk (phase12_privacy_annotations rs) r i"
proof -
  from assms(2) obtain k where "k < length (im_rules (vp_image vp))" "i = im_rules (vp_image vp) ! k"
    by (auto simp: in_set_conv_nth)
  with verified_rules [OF assms(1)] that [of "rs_rules rs ! k"] show thesis by (simp add: list_all2_conv_all_nth)
qed

text \<open>C18: verification drops nothing. The rules of a verified image are the rules of the source, all
  of them, in declaration order, each with its name, kind, scope and anchor.\<close>

theorem verified_rules_in_order:
  assumes "verify_with_config chk rs cfg = Some (Inr vp)"
  shows "map (\<lambda>i. (ru_id i, ru_kind i, ru_scope i, an_source (ru_anchor i))) (im_rules (vp_image vp))
    = map (\<lambda>r. (id_name (decl_name r), decl_kind r, decl_scope r, lower_anchor_source r)) (rs_rules rs)"
proof -
  have "rule_lowered chk pii r i \<Longrightarrow> (ru_id i, ru_kind i, ru_scope i, an_source (ru_anchor i))
      = (id_name (decl_name r), decl_kind r, decl_scope r, lower_anchor_source r)" for pii r i
    by (erule rule_loweredE) (auto simp: lower_anchor_def split: prod.splits)
  with verified_rules [OF assms] show ?thesis
    by (auto simp: list_all2_conv_all_nth list_eq_iff_nth_eq)
qed

subsection \<open>Predicates\<close>

text \<open>The predicates of a rule and of its lowering: the anchor's, then the branch condition. A
  missing anchor predicate is true.\<close>

definition source_predicates :: "rule_decl \<Rightarrow> adgl_expr option list" where
  "source_predicates r =
     anchor_predicate r # (case decl_if_else r of None \<Rightarrow> [] | Some ie \<Rightarrow> [Some (ie_condition ie)])"

definition lowered_predicates :: "rule_instance \<Rightarrow> predicate list" where
  "lowered_predicates i =
     an_predicate (ru_anchor i) # (case ru_branches i of None \<Rightarrow> [] | Some b \<Rightarrow> [br_cond b])"

definition source_truth :: "rule_env \<Rightarrow> pred_ctx \<Rightarrow> adgl_expr option \<Rightarrow> correlate_error + t3" where
  "source_truth env ctx p =
     (case p of
        None \<Rightarrow> Inr TTrue
      | Some e \<Rightarrow> try_bind (eval_expr env ctx e) (\<lambda>v. as_truth v ''RESULT''))"

lemma always_true_evaluates: "eval_predicate always_true ctx = Inr TTrue"
  by (simp add: eval_predicate_def always_true_def set_reg_def get_reg_def max_slots_def t3_of_bool_def)

lemma rule_predicates_typed:
  assumes "Some e \<in> set (source_predicates r)" "r \<in> set (rs_rules rs)" "\<not> has_errors (phase02_name_and_typecheck rs)"
  shows "\<not> has_errors (snd (infer_expr_type (for_rule r) e))"
proof -
  have "e \<in> set (rule_exprs r)"
    using assms(1) by (auto simp: source_predicates_def rule_exprs_def split: option.splits)
  with assms(2,3) show ?thesis by (auto simp: phase02_name_and_typecheck_def Let_def)
qed

lemma predicate_lowered:
  assumes "compile_predicate env e = (p, ds)" "\<not> has_errors ds" "\<not> has_errors (snd (infer_expr_type env e))"
  shows "predicate_ok p \<and> eval_predicate p ctx = source_truth env ctx (Some e)"
proof -
  obtain x st ds' where c: "compile_expr env e ([], 0) = (x, st, ds')" by (metis prod_cases3)
  with assms(1) have ds: "ds' = ds" by (auto simp: compile_predicate_def)
  with typed_compiles [OF assms(3) c] assms(2) obtain r where "x = Some r" by auto
  with c ds have c: "compile_expr env e ([], 0) = (Some r, st, ds)" by simp
  from compiled_predicate_evaluates [OF this assms(2), of ctx] compiled_predicate_ok [OF c assms(2)] assms(1)
  show ?thesis by (simp add: source_truth_def)
qed

lemma lowered_predicates_correct:
  assumes "rule_lowered chk pii r i" "r \<in> set (rs_rules rs)" "\<not> has_errors (phase02_name_and_typecheck rs)"
  shows "list_all2 (\<lambda>e p. predicate_ok p \<and> eval_predicate p ctx = source_truth (for_rule r) ctx e)
    (source_predicates r) (lowered_predicates i)"
  using assms(1)
proof (rule rule_loweredE)
  fix anchor ds1 xs ds2 body ds3 br ds4
  assume a: "lower_anchor (for_rule r) r = (anchor, ds1)" "\<not> has_errors ds1"
    and br: "lower_branches (for_rule r) pii (id_name (decl_name r)) (decl_if_else r) = (br, ds4)" "\<not> has_errors ds4"
    and i: "i = \<lparr>ru_id = id_name (decl_name r), ru_kind = decl_kind r, ru_scope = decl_scope r, ru_anchor = anchor,
            ru_correlates = xs, ru_branches = br, ru_body = body,
            ru_annotations = \<lparr>va_max_backward = max_or_default (window_backs xs),
              va_max_forward = max_or_default (window_forwards xs), va_target_scope = Some (decl_scope r)\<rparr>\<rparr>"
  have typed: "Some e \<in> set (source_predicates r) \<Longrightarrow> \<not> has_errors (snd (infer_expr_type (for_rule r) e))" for e
    using rule_predicates_typed [OF _ assms(2,3)] .
  have anchor: "predicate_ok (an_predicate anchor) \<and>
      eval_predicate (an_predicate anchor) ctx = source_truth (for_rule r) ctx (anchor_predicate r)"
  proof (cases "anchor_predicate r")
    case None
    with a(1) show ?thesis
      by (auto simp: lower_anchor_def source_truth_def always_true_evaluates)
        (simp add: predicate_ok_def always_true_def max_slots_def)
  next
    case (Some e)
    moreover from this have "\<not> has_errors (snd (infer_expr_type (for_rule r) e))"
      by (intro typed) (simp add: source_predicates_def)
    ultimately show ?thesis
      using a predicate_lowered [of "for_rule r" e] by (auto simp: lower_anchor_def split: prod.splits)
  qed
  show ?thesis
  proof (cases br)
    case None
    with br(1) have "decl_if_else r = None" by (auto simp: lower_branches_def split: option.splits prod.splits)
    with None anchor i show ?thesis by (simp add: source_predicates_def lowered_predicates_def)
  next
    case (Some b)
    with br obtain e d1 where e: "decl_if_else r = Some e"
      "compile_predicate (for_rule r) (ie_condition e) = (br_cond b, d1)" "\<not> has_errors d1"
      by (auto elim!: lower_branches_some)
    have "\<not> has_errors (snd (infer_expr_type (for_rule r) (ie_condition e)))"
      by (rule typed) (simp add: source_predicates_def e(1))
    from predicate_lowered [OF e(2,3) this] anchor i Some e(1) show ?thesis
      by (simp add: source_predicates_def lowered_predicates_def)
  qed
qed

text \<open>C9: verified predicates mean their source. In a verified image every anchor predicate and every
  branch condition evaluates, on all bindings, scopes and topologies, to what the reference
  evaluator gives for the source expression, errors included.\<close>

theorem verified_predicates_evaluate:
  assumes "verify_with_config chk rs cfg = Some (Inr vp)"
  shows "map (\<lambda>i. map (\<lambda>p. eval_predicate p ctx) (lowered_predicates i)) (im_rules (vp_image vp))
    = map (\<lambda>r. map (source_truth (for_rule r) ctx) (source_predicates r)) (rs_rules rs)"
proof -
  have t: "\<not> has_errors (phase02_name_and_typecheck rs)" by (rule verified_phases(1) [OF assms])
  have "map (\<lambda>p. eval_predicate p ctx) (lowered_predicates i) = map (source_truth (for_rule r) ctx) (source_predicates r)"
    if "rule_lowered chk (phase12_privacy_annotations rs) r i" "r \<in> set (rs_rules rs)" for r i
    using lowered_predicates_correct [OF that t, of ctx]
    by (auto simp: list_all2_conv_all_nth list_eq_iff_nth_eq)
  with verified_rules [OF assms] show ?thesis
    by (auto simp: list_all2_conv_all_nth list_eq_iff_nth_eq)
qed

text \<open>Verified predicates stay in their registers. Every opcode of every predicate of a verified
  image writes and reads only the sixteen slots of the interpreter (so the interpreter's array
  accesses cannot panic).\<close>

theorem verified_predicates_in_slots:
  assumes "verify_with_config chk rs cfg = Some (Inr vp)" "i \<in> set (im_rules (vp_image vp))" "p \<in> set (lowered_predicates i)"
  shows "predicate_ok p"
proof -
  have t: "\<not> has_errors (phase02_name_and_typecheck rs)" by (rule verified_phases(1) [OF assms(1)])
  from verified_rule_at [OF assms(1,2)] obtain r where
    "r \<in> set (rs_rules rs)" "rule_lowered chk (phase12_privacy_annotations rs) r i" by blast
  from lowered_predicates_correct [OF this(2,1) t, of undefined] assms(3) show ?thesis
    by (auto simp: list_all2_conv_all_nth in_set_conv_nth)
qed

end
