(* ===== verification/Adgl_Guarantees.thy ===== *)
theory Adgl_Guarantees
  imports Adgl_Verified Adgl_Engine
begin

text \<open>
  Further guarantees of a verified image: correlates and windows, intents, cascades, private
  fields and binding indices; then the ruleset that witnesses them, and inputs on which the checks
  and the engine disagree.
\<close>

subsection \<open>Correlates\<close>

lemma list_all2_preimage: "list_all2 P xs ys \<Longrightarrow> y \<in> set ys \<Longrightarrow> \<exists>x\<in>set xs. P x y"
  by (auto simp: list_all2_conv_all_nth set_conv_nth)

lemma verified_correlate_at:
  assumes "verify_with_config chk rs cfg = Some (Inr vp)" "i \<in> set (im_rules (vp_image vp))" "c \<in> set (ru_correlates i)"
  obtains r cb where "r \<in> set (rs_rules rs)" "cb \<in> set (decl_correlates r)" "correlate_lowered chk r cb c"
    "rule_lowered chk (phase12_privacy_annotations rs) r i"
proof -
  from verified_rule_at [OF assms(1,2)] obtain r where
    r: "r \<in> set (rs_rules rs)" "rule_lowered chk (phase12_privacy_annotations rs) r i" by blast
  from r(2) have "list_all2 (correlate_lowered chk r) (decl_correlates r) (ru_correlates i)"
    by (rule rule_loweredE) (simp add: lower_correlates_some)
  from list_all2_preimage [OF this assms(3)] that r show thesis by blast
qed

lemma topo_functions_binary:
  "resolve_topo_fn name = Some fn \<Longrightarrow> tf_arity fn = 2 \<and> topo_from_idx (tf_idx fn) \<noteq> None"
proof -
  have "list_all (\<lambda>f. tf_arity f = 2 \<and> topo_from_idx (tf_idx f) \<noteq> None) topo_functions"
    by (simp add: topo_functions_def topo_fn_schema.make_def topo_from_idx_def)
  moreover assume "resolve_topo_fn name = Some fn"
  then have "fn \<in> set topo_functions" by (auto simp: resolve_topo_fn_def find_Some_iff)
  ultimately show ?thesis by (simp add: list_all_iff)
qed

text \<open>Correlates of a verified image are well formed. Each asks for 1 to 32 true matches (within
  the byte the engine counts in), and calls a topology function the engine knows, with its two
  arguments: a correlate is never unknown because its call is malformed.\<close>

theorem verified_correlates_wf:
  assumes "verify_with_config chk rs cfg = Some (Inr vp)" "i \<in> set (im_rules (vp_image vp))" "c \<in> set (ru_correlates i)"
  shows "1 \<le> co_min_match c \<and> co_min_match c \<le> 32 \<and> length (tc_args (co_topo c)) = 2
    \<and> topo_from_idx (tc_func_idx (co_topo c)) \<noteq> None"
proof -
  from verified_correlate_at [OF assms] obtain r cb where
    r: "r \<in> set (rs_rules rs)" "cb \<in> set (decl_correlates r)" "correlate_lowered chk r cb c" by blast
  from r(3) obtain ds where "lower_correlate chk r cb = Some (Some c, ds)" by (auto simp: correlate_lowered_def)
  then obtain fn args m ds1 ds2 where
    l: "resolve_topo_fn (id_name (tp_name (cb_topo cb))) = Some fn" "lower_topo_args (tp_args (cb_topo cb)) = (Some args, ds1)"
      "lower_min_match (cb_min_match cb) = Some (Some m, ds2)" "tc_args (co_topo c) = args"
      "tc_func_idx (co_topo c) = tf_idx fn" "co_min_match c = m"
    by (rule lower_correlate_some) simp
  from verified_resolve [OF assms(1) r(1,2)] l(1) have "tf_arity fn = length (tp_args (cb_topo cb))" by simp
  with topo_functions_binary [OF l(1)] lower_topo_args_length [OF l(2)] lower_min_match_range [OF l(3)] l
  show ?thesis by simp
qed

subsection \<open>Windows\<close>

lemma max_or_default_ge: "x \<in> set xs \<Longrightarrow> x \<le> max_or_default xs"
proof -
  have "y \<le> fold max ys y \<and> (\<forall>x\<in>set ys. x \<le> fold max ys y)" for ys and y :: int
    by (induction ys arbitrary: y) (fastforce simp: max_def)+
  then show "x \<in> set xs \<Longrightarrow> x \<le> max_or_default xs" by (cases xs) (auto simp: max_or_default_def)
qed

lemma max_or_default_le: "(\<And>x. x \<in> set xs \<Longrightarrow> x \<le> m) \<Longrightarrow> 0 \<le> m \<Longrightarrow> max_or_default xs \<le> m"
proof -
  have "y \<le> m \<Longrightarrow> \<forall>x\<in>set ys. x \<le> m \<Longrightarrow> fold max ys y \<le> m" for ys and y :: int
    by (induction ys arbitrary: y) auto
  then show "(\<And>x. x \<in> set xs \<Longrightarrow> x \<le> m) \<Longrightarrow> 0 \<le> m \<Longrightarrow> max_or_default xs \<le> m"
    by (cases xs) (auto simp: max_or_default_def)
qed

lemma rule_forward_mono: "rule_forward chk r cs m = Some n \<Longrightarrow> m \<le> n"
proof (induction cs arbitrary: m)
  case (Cons c cs)
  then show ?case by (force split: option.splits prod.splits)
qed simp

lemma rule_forward_covers:
  "rule_forward chk r cs m = Some n \<Longrightarrow> c \<in> set cs \<Longrightarrow> correlate_window chk r c = Some (Some (b, f)) \<Longrightarrow> f \<le> n"
proof (induction cs arbitrary: m)
  case (Cons c' cs)
  show ?case
  proof (cases "c = c'")
    case True
    with Cons.prems have "rule_forward chk r cs (max m f) = Some n" by simp
    from rule_forward_mono [OF this] show ?thesis by simp
  next
    case False
    with Cons show ?thesis by (auto split: option.splits)
  qed
qed simp

lemma rules_forward_mono: "rules_forward chk rs m = Some n \<Longrightarrow> m \<le> n"
proof (induction rs arbitrary: m)
  case (Cons r rs)
  then show ?case using rule_forward_mono [of chk r "decl_correlates r" m] by (fastforce split: option.splits)
qed simp

lemma forward_covers:
  "rules_forward chk rules m = Some n \<Longrightarrow> r \<in> set rules \<Longrightarrow> c \<in> set (decl_correlates r) \<Longrightarrow>
   correlate_window chk r c = Some (Some (b, f)) \<Longrightarrow> f \<le> n"
proof (induction rules arbitrary: m)
  case (Cons r' rules)
  then obtain k where k: "rule_forward chk r' (decl_correlates r') m = Some k" "rules_forward chk rules k = Some n"
    by (auto split: option.splits)
  show ?case
  proof (cases "r = r'")
    case True
    with Cons.prems rule_forward_covers [OF k(1)] rules_forward_mono [OF k(2)]
    show ?thesis by (meson order.trans)
  next
    case False
    with Cons k show ?thesis by auto
  qed
qed simp

lemma correlate_window_nonneg: "correlate_window chk r c = Some (Some (b, f)) \<Longrightarrow> 0 \<le> f"
  by (auto simp: correlate_window_def calculable_window_def split: option.splits if_splits)

lemma duration_or_default_bound:
  "0 \<le> duration_or_default x" "0 \<le> m \<Longrightarrow> x \<le> m \<Longrightarrow> duration_or_default x \<le> m" "0 \<le> x \<Longrightarrow> duration_or_default x = x"
  by (simp_all add: duration_or_default_def duration_from_millis_def)

lemma correlates_temporal_member:
  assumes "correlates_temporal chk allowed r cs = Some ds" "\<not> has_errors ds" "c \<in> set cs"
  shows "\<exists>ds. temporal_diags chk allowed r c = Some ds \<and> \<not> has_errors ds"
  using assms by (induction cs arbitrary: ds) (auto split: option.splits)

lemma rules_temporal_member:
  assumes "rules_temporal chk allowed rs = Some ds" "\<not> has_errors ds" "r \<in> set rs" "c \<in> set (decl_correlates r)"
  shows "\<exists>ds. temporal_diags chk allowed r c = Some ds \<and> \<not> has_errors ds"
  using assms by (induction rs arbitrary: ds) (auto split: option.splits intro: correlates_temporal_member)

lemma verified_window_at:
  assumes "verify_with_config chk rs cfg = Some (Inr vp)"
  obtains slack where "ruleset_max_forward_window_ms chk rs = Some slack"
    "\<And>r cb. r \<in> set (rs_rules rs) \<Longrightarrow> cb \<in> set (decl_correlates r) \<Longrightarrow>
       \<exists>b f. correlate_window chk r cb = Some (Some (b, f)) \<and> b \<le> allowed_window_ms cfg slack \<and>
         f \<le> allowed_window_ms cfg slack"
proof -
  from verified_phases(5) [OF assms] obtain ds slack where
    s: "ruleset_max_forward_window_ms chk rs = Some slack"
      "rules_temporal chk (allowed_window_ms cfg slack) (rs_rules rs) = Some ds" "\<not> has_errors ds"
    by (auto simp: phase06_temporal_def split: option.splits)
  show thesis
  proof (rule that [OF s(1)])
    fix r cb assume "r \<in> set (rs_rules rs)" "cb \<in> set (decl_correlates r)"
    from rules_temporal_member [OF s(2,3) this] obtain w ds where
      w: "correlate_window chk r cb = Some w" "temporal_diags chk (allowed_window_ms cfg slack) r cb = Some ds"
        "\<not> has_errors ds" by (auto simp: temporal_diags_def)
    then show "\<exists>b f. correlate_window chk r cb = Some (Some (b, f)) \<and> b \<le> allowed_window_ms cfg slack \<and>
         f \<le> allowed_window_ms cfg slack"
      by (cases w) (auto simp: temporal_diags_def split: if_splits)
  qed
qed

text \<open>C17: verified windows fit the lookback. Every correlate of a verified image has a calculable
  window; the rule's annotations cover it; and the window together with the rule's forward
  horizon (the slack its suspended matches need) is within the configured lookback.\<close>

theorem verified_windows_fit:
  assumes "verify_with_config chk rs cfg = Some (Inr vp)" "i \<in> set (im_rules (vp_image vp))" "c \<in> set (ru_correlates i)"
  shows "\<exists>b f. co_window c = Calculable b f \<and> 0 \<le> b \<and> b \<le> va_max_backward (ru_annotations i)
    \<and> 0 \<le> f \<and> f \<le> va_max_forward (ru_annotations i)
    \<and> max b f + va_max_forward (ru_annotations i) \<le> vc_max_lookback cfg"
proof -
  from verified_correlate_at [OF assms] obtain r cb where
    r: "r \<in> set (rs_rules rs)" "cb \<in> set (decl_correlates r)" "correlate_lowered chk r cb c"
    and ri: "rule_lowered chk (phase12_privacy_annotations rs) r i" by blast
  obtain F where F: "ruleset_max_forward_window_ms chk rs = Some F" and
    fits: "\<And>r cb. r \<in> set (rs_rules rs) \<Longrightarrow> cb \<in> set (decl_correlates r) \<Longrightarrow>
       \<exists>b f. correlate_window chk r cb = Some (Some (b, f)) \<and> b \<le> allowed_window_ms cfg F \<and>
         f \<le> allowed_window_ms cfg F"
    using verified_window_at [OF assms(1)] by blast
  let ?F = F and ?A = "allowed_window_ms cfg F"
  have cov: "cb \<in> set (decl_correlates r) \<Longrightarrow> correlate_window chk r cb = Some (Some (b, f)) \<Longrightarrow> f \<le> ?F" for cb b f
    using F unfolding ruleset_max_forward_window_ms_def by (rule forward_covers [OF _ r(1)])
  from fits [OF r(1,2)] obtain b f where
    w: "correlate_window chk r cb = Some (Some (b, f))" "b \<le> ?A" "f \<le> ?A" by blast
  have f: "0 \<le> f" "f \<le> ?F" using correlate_window_nonneg [OF w(1)] cov [OF r(2) w(1)] by auto
  have "lower_window chk r cb = Some (co_window c)"
    using r(3) unfolding correlate_lowered_def by (auto elim!: lower_correlate_some)
  with w(1) f have cw: "co_window c = Calculable (duration_or_default b) f"
    by (simp add: lower_window_def duration_or_default_bound)
  have A: "max (duration_or_default b) f \<le> ?A" "0 \<le> ?A"
    using w f duration_or_default_bound(2) [of ?A b] by auto
  then have fit: "max (duration_or_default b) f + ?F \<le> vc_max_lookback cfg"
    by (auto simp: allowed_window_ms_def i64_defs split: if_splits)
  from ri have ann: "va_max_backward (ru_annotations i) = max_or_default (window_backs (ru_correlates i))"
    "va_max_forward (ru_annotations i) = max_or_default (window_forwards (ru_correlates i))"
    and all: "list_all2 (correlate_lowered chk r) (decl_correlates r) (ru_correlates i)"
    by (auto elim!: rule_loweredE simp: lower_correlates_some)
  have "duration_or_default b \<in> set (window_backs (ru_correlates i))" "f \<in> set (window_forwards (ru_correlates i))"
    using assms(3) cw by (force simp: window_backs_def window_forwards_def map_filter_def)+
  with ann have inside: "duration_or_default b \<le> va_max_backward (ru_annotations i)"
    "f \<le> va_max_forward (ru_annotations i)" using max_or_default_ge by auto
  have "x \<le> ?F" if "x \<in> set (window_forwards (ru_correlates i))" for x
  proof -
    from that obtain c' b' where c': "c' \<in> set (ru_correlates i)" "co_window c' = Calculable b' x"
      by (auto simp: window_forwards_def map_filter_def split: window_proof.splits)
    from list_all2_preimage [OF all c'(1)]
    obtain cb' where cb': "cb' \<in> set (decl_correlates r)" "correlate_lowered chk r cb' c'" by blast
    then have "lower_window chk r cb' = Some (co_window c')" unfolding correlate_lowered_def by (auto elim!: lower_correlate_some)
    with c'(2) obtain b0 f0 where "correlate_window chk r cb' = Some (Some (b0, f0))" "x = duration_or_default f0"
      by (auto simp: lower_window_def split: option.splits)
    with cov [OF cb'(1)] correlate_window_nonneg show ?thesis by (simp add: duration_or_default_bound)
  qed
  with f ann have "va_max_forward (ru_annotations i) \<le> ?F" by (simp add: max_or_default_le)
  with cw f inside fit duration_or_default_bound(1) [of b] show ?thesis by auto
qed

subsection \<open>Intents\<close>

lemma lower_infer_intent:
  assumes "lower_infer pii rule st = (Some x, ds)"
  obtains t w where "x = InferCause (id_name (is_cause st)) t w (unwrap_or [] (find_map infer_evidence (is_fields st)))
      \<lparr>pk_rule = rule, pk_cause = id_name (is_cause st), pk_target_hash = stable_hash_u64 (str_bytes t)\<rparr>
      (evidence_pii pii (unwrap_or [] (find_map infer_evidence (is_fields st))))" "weight_ok w"
  using assms by (auto simp: lower_infer_def weight_new_def weight_ok_def Let_def split: option.splits if_splits)

lemma lower_action_intent:
  "lower_action env a = (Some xs, ds) \<Longrightarrow> x \<in> set xs \<Longrightarrow>
   (case x of InferCause k t w ev pk pii \<Rightarrow> False | EmitProblem p t s ev sa pii \<Rightarrow> False | _ \<Rightarrow> True)"
  by (auto simp: lower_action_def lower_suppress_def Let_def
      split: option.splits if_splits list.splits binding_type.splits)

lemma lower_stmt_infer:
  assumes "lower_stmt env pii rule s = (Some ys, ds)" "InferCause k t w ev pk pi \<in> set ys"
  shows "\<exists>st. s = StInfer st \<and> k = id_name (is_cause st) \<and> weight_ok w \<and> pk_rule pk = rule \<and> pk_cause pk = k \<and>
    pi = evidence_pii pii ev"
proof (cases s)
  case (StInfer st)
  with assms have "lower_infer pii rule st = (Some (InferCause k t w ev pk pi), ds)" by (auto split: prod.splits)
  with StInfer show ?thesis by (auto elim!: lower_infer_intent)
next
  case (StEmit m)
  with assms show ?thesis by (auto simp: lower_emit_def Let_def)
next
  case (StAction a)
  with assms lower_action_intent [of env a ys ds] show ?thesis by fastforce
qed

lemma lower_stmt_emit:
  assumes "lower_stmt env pii rule s = (Some ys, ds)" "EmitProblem p t sv ev sa pi \<in> set ys"
  shows "\<exists>m. s = StEmit m \<and> p = id_name (em_problem m) \<and> pi = evidence_pii pii ev"
proof (cases s)
  case (StInfer st)
  with assms have "lower_infer pii rule st = (Some (EmitProblem p t sv ev sa pi), ds)" by (auto split: prod.splits)
  then show ?thesis by (auto elim!: lower_infer_intent)
next
  case (StEmit m)
  with assms show ?thesis by (auto simp: lower_emit_def Let_def)
next
  case (StAction a)
  with assms lower_action_intent [of env a ys ds] show ?thesis by fastforce
qed

lemma rule_infers:
  assumes "rule_lowered chk pii r i" "InferCause k t w ev pk pi \<in> set (rule_intents i)"
  shows "\<exists>st. StInfer st \<in> set (gather_rule_statements r) \<and> k = id_name (is_cause st) \<and> weight_ok w \<and>
    pk_rule pk = ru_id i \<and> pk_cause pk = k \<and> pi = evidence_pii pii ev"
proof -
  from assms(1) have "ru_id i = id_name (decl_name r)" by (auto elim!: rule_loweredE)
  with rule_intents_source [OF assms] show ?thesis
    by (fastforce simp: topology_request_def dest: lower_stmt_infer)
qed

lemma rule_emits:
  assumes "rule_lowered chk pii r i" "EmitProblem p t sv ev sa pi \<in> set (rule_intents i)"
  shows "\<exists>m. StEmit m \<in> set (gather_rule_statements r) \<and> p = id_name (em_problem m) \<and> pi = evidence_pii pii ev"
  using rule_intents_source [OF assms] by (fastforce simp: topology_request_def dest: lower_stmt_emit)

text \<open>Inferences of a verified image carry a weight of -100 to 100 and a provenance key made of
  their own rule and cause, so that a cause is weighed once per rule and never under another
  rule's key.\<close>

theorem verified_inferences_keyed:
  assumes "verify_with_config chk rs cfg = Some (Inr vp)" "i \<in> set (im_rules (vp_image vp))"
    and "InferCause k t w ev pk pii \<in> set (rule_intents i)"
  shows "weight_ok w \<and> pk_rule pk = ru_id i \<and> pk_cause pk = k"
proof -
  from verified_rule_at [OF assms(1,2)] obtain r where "rule_lowered chk (phase12_privacy_annotations rs) r i" by blast
  from rule_infers [OF this assms(3)] show ?thesis by blast
qed

text \<open>C19: the two layers of rules are separate. In a verified image no evidence rule emits a problem and
  no decision rule infers a cause.\<close>

theorem verified_layers_separate:
  assumes "verify_with_config chk rs cfg = Some (Inr vp)" "i \<in> set (im_rules (vp_image vp))" "x \<in> set (rule_intents i)"
  shows "case x of InferCause k t w ev pk pii \<Rightarrow> ru_kind i = Evidence
    | EmitProblem p t s ev sa pii \<Rightarrow> ru_kind i = Decision | _ \<Rightarrow> True"
proof -
  from verified_rule_at [OF assms(1,2)] obtain r where
    r: "r \<in> set (rs_rules rs)" "rule_lowered chk (phase12_privacy_annotations rs) r i" by blast
  from r(2) have kind: "ru_kind i = decl_kind r" by (auto elim!: rule_loweredE)
  have "\<not> has_errors (phase10_bipartite rs)" by (rule verified_phases(4) [OF assms(1)])
  with r(1) have b: "s \<in> set (gather_rule_statements r) \<Longrightarrow> \<not> has_errors (bipartite_diag r s)" for s
    by (auto simp: phase10_bipartite_def)
  show ?thesis
  proof (cases x)
    case (InferCause k t w ev pk pii)
    with rule_infers [OF r(2)] assms(3) obtain st where "StInfer st \<in> set (gather_rule_statements r)" by blast
    with b [of "StInfer st"] kind InferCause show ?thesis by (cases r) auto
  next
    case (EmitProblem p t sv ev sa pii)
    with rule_emits [OF r(2)] assms(3) obtain m where "StEmit m \<in> set (gather_rule_statements r)" by blast
    with b [of "StEmit m"] kind EmitProblem show ?thesis by (cases r) auto
  qed simp_all
qed

subsection \<open>Cascades\<close>

text \<open>Rule \<open>i\<close> can fire rule \<open>j\<close>: it infers the cause, or emits the problem, \<open>j\<close> is anchored at.\<close>

definition intent_fires :: "intent \<Rightarrow> anchor_source \<Rightarrow> bool" where
  "intent_fires x src =
     (case x of
        InferCause k t w ev pk pii \<Rightarrow> src = AnchorCause k
      | EmitProblem p t s ev sa pii \<Rightarrow> src = AnchorProblem p
      | _ \<Rightarrow> False)"

definition fires :: "rule_instance \<Rightarrow> rule_instance \<Rightarrow> bool" where
  "fires i j = list_ex (\<lambda>x. intent_fires x (an_source (ru_anchor j))) (rule_intents i)"

definition fire_rel :: "rule_instance list \<Rightarrow> (nat \<times> nat) set" where
  "fire_rel rules = {(a, b). a < length rules \<and> b < length rules \<and> fires (rules ! a) (rules ! b)}"

lemma anchor_rules_get:
  "unwrap_or [] (hm_get (fst (fold index_anchor irs maps)) k) =
     unwrap_or [] (hm_get (fst maps) k) @ map fst (filter (\<lambda>ir. lower_anchor_source (snd ir) = AnchorCause k) irs) \<and>
   unwrap_or [] (hm_get (snd (fold index_anchor irs maps)) k) =
     unwrap_or [] (hm_get (snd maps) k) @ map fst (filter (\<lambda>ir. lower_anchor_source (snd ir) = AnchorProblem k) irs)"
proof (induction irs arbitrary: maps)
  case (Cons ir irs)
  obtain n r where ir: "ir = (n, r)" by force
  show ?case
  proof (cases r)
    case (EvidenceDecl e)
    with Cons [of maps] ir show ?thesis by (simp add: index_anchor_def)
  next
    case (DecisionDecl d)
    with Cons [of "index_anchor ir maps"] ir show ?thesis
      by (cases "de_anchor d") (auto simp: index_anchor_def entry_push_def unwrap_or_def split: option.splits)
  qed
qed simp

lemma stmt_targets_anchor:
  assumes "b < length rules"
  shows "lower_anchor_source (rules ! b) = AnchorCause (id_name (is_cause st)) \<Longrightarrow>
      b \<in> set (stmt_targets (anchor_rules_of rules) (StInfer st))"
    and "lower_anchor_source (rules ! b) = AnchorProblem (id_name (em_problem m)) \<Longrightarrow>
      b \<in> set (stmt_targets (anchor_rules_of rules) (StEmit m))"
proof -
  have "(b, rules ! b) \<in> set (enumerate 0 rules)" using assms by (simp add: in_set_enumerate_eq)
  then show "lower_anchor_source (rules ! b) = AnchorCause (id_name (is_cause st)) \<Longrightarrow>
      b \<in> set (stmt_targets (anchor_rules_of rules) (StInfer st))"
    and "lower_anchor_source (rules ! b) = AnchorProblem (id_name (em_problem m)) \<Longrightarrow>
      b \<in> set (stmt_targets (anchor_rules_of rules) (StEmit m))"
    by (force simp: anchor_rules_of_def anchor_rules_get)+
qed

text \<open>C16: a verified image has no cascade loop. No rule can fire itself, directly or through the causes
  it infers and the problems it emits, whatever the events: the firing relation of the image is
  acyclic.\<close>

theorem verified_cascades_acyclic:
  assumes "verify_with_config chk rs cfg = Some (Inr vp)"
  shows "acyclic (fire_rel (im_rules (vp_image vp)))"
proof -
  let ?pii = "phase12_privacy_annotations rs" and ?rules = "rs_rules rs" and ?im = "im_rules (vp_image vp)"
  note v = verified_rules [OF assms]
  have "\<not> has_errors (phase08_acyclicity rs)" by (rule verified_phases(3) [OF assms])
  then have "\<not> has_cycle (rule_edges ?rules)" by (simp add: phase08_acyclicity_def split: if_splits)
  with has_cycle_iff [OF rule_edges_ok] have acyc: "acyclic (edge_rel (rule_edges ?rules))" by simp
  have "(a, b) \<in> edge_rel (rule_edges ?rules)" if "(a, b) \<in> fire_rel ?im" for a b
  proof -
    from that v have ab: "a < length ?rules" "b < length ?rules" "rule_lowered chk ?pii (?rules ! a) (?im ! a)"
      "rule_lowered chk ?pii (?rules ! b) (?im ! b)" "fires (?im ! a) (?im ! b)"
      by (auto simp: fire_rel_def list_all2_conv_all_nth)
    from ab(4) have src: "an_source (ru_anchor (?im ! b)) = lower_anchor_source (?rules ! b)"
      by (auto elim!: rule_loweredE simp: lower_anchor_def split: prod.splits)
    from ab(5) obtain x where x: "x \<in> set (rule_intents (?im ! a))" "intent_fires x (lower_anchor_source (?rules ! b))"
      by (auto simp: fires_def list_ex_iff src)
    have "\<exists>s\<in>set (gather_rule_statements (?rules ! a)). b \<in> set (stmt_targets (anchor_rules_of ?rules) s)"
    proof (cases x)
      case (InferCause k t w ev pk pii)
      with rule_infers [OF ab(3)] x stmt_targets_anchor(1) [OF ab(2)] show ?thesis
        by (fastforce simp: intent_fires_def)
    next
      case (EmitProblem p t sv ev sa pii)
      with rule_emits [OF ab(3)] x stmt_targets_anchor(2) [OF ab(2)] show ?thesis
        by (fastforce simp: intent_fires_def)
    qed (use x in \<open>simp_all add: intent_fires_def\<close>)
    with ab(1) show ?thesis by (auto simp: edge_rel_def rule_edges_def Let_def)
  qed
  then have "fire_rel ?im \<subseteq> edge_rel (rule_edges ?rules)" by auto
  with acyc show ?thesis by (rule acyclic_subset)
qed

subsection \<open>Private fields\<close>

lemma evidence_pii_set: "set (evidence_pii pii ev) = {p \<in> set pii. \<exists>s\<in>set ev. starts_with p (dotted s [])}"
  by (auto simp: evidence_pii_def)

lemma starts_with_dotted: "starts_with (dotted s f) (dotted s [])"
  by (simp add: starts_with_def dotted_def)

text \<open>The evidence of an inference or a problem, with its declared private fields.\<close>

fun declared_pii :: "intent \<Rightarrow> (symbol list \<times> metric_path list) option" where
  "declared_pii (InferCause k t w ev pk pii) = Some (ev, pii)"
| "declared_pii (EmitProblem p t s ev sa pii) = Some (ev, pii)"
| "declared_pii _ = None"

text \<open>The event type a symbol of the evidence list stands for when the engine resolves it: the first
  binding of the rule with that name (\<open>binding_index_of\<close>), if it is an event.\<close>

definition cited_event :: "rule_instance \<Rightarrow> symbol \<Rightarrow> string option" where
  "cited_event i s =
     (case binding_index_of i s of
        None \<Rightarrow> None
      | Some 0 \<Rightarrow> (case an_source (ru_anchor i) of AnchorEvent ty \<Rightarrow> Some ty | _ \<Rightarrow> None)
      | Some (Suc k) \<Rightarrow> (case co_source (ru_correlates i ! k) of CorrEvent ty \<Rightarrow> Some ty | _ \<Rightarrow> None))"

definition binding_names :: "rule_instance \<Rightarrow> string list" where
  "binding_names i = an_binding (ru_anchor i) # map co_binding (ru_correlates i)"

lemma position_Some: "position P xs = Some k \<Longrightarrow> k < length xs \<and> P (xs ! k)"
  by (induction xs arbitrary: k) (auto split: if_splits)

lemma bind_correlate_bindings:
  "re_bindings (bind_correlate ic env) =
     hm_put (id_name (cb_binding (snd ic))) (the (correlate_binding_ty (snd ic))) (re_bindings env)"
  by (simp add: bind_correlate_def correlate_binding_ty_def Let_def split: ast_source.split)

lemma bind_correlates_other:
  "\<forall>ic\<in>set ics. id_name (cb_binding (snd ic)) \<noteq> s \<Longrightarrow>
   hm_get (re_bindings (fold bind_correlate ics env)) s = hm_get (re_bindings env) s"
  by (induction ics arbitrary: env) (auto simp: bind_correlate_bindings)

lemma bind_correlates_at:
  "distinct (map (\<lambda>ic. id_name (cb_binding (snd ic))) ics) \<Longrightarrow> ic \<in> set ics \<Longrightarrow>
   hm_get (re_bindings (fold bind_correlate ics env)) (id_name (cb_binding (snd ic))) =
     correlate_binding_ty (snd ic)"
proof (induction ics arbitrary: env)
  case (Cons jc ics)
  show ?case
  proof (cases "ic = jc")
    case True
    with Cons.prems(1) have "\<forall>ic\<in>set ics. id_name (cb_binding (snd ic)) \<noteq> id_name (cb_binding (snd jc))"
      by (auto simp: image_iff)
    from bind_correlates_other [OF this, of "bind_correlate jc env"] True show ?thesis
      by (simp add: bind_correlate_bindings correlate_binding_ty_def split: ast_source.split)
  next
    case False
    with Cons show ?thesis by simp
  qed
qed simp

lemma rule_lowered_names:
  assumes "rule_lowered chk pii r i"
  shows "binding_names i = id_name (anchor_binding r) # map (\<lambda>c. id_name (cb_binding c)) (decl_correlates r)"
    and "map co_source (ru_correlates i) = map (\<lambda>c. lower_source (cb_source c)) (decl_correlates r)"
    and "an_source (ru_anchor i) = lower_anchor_source r"
proof -
  have "list_all2 (correlate_lowered chk r) (decl_correlates r) (ru_correlates i)"
    using assms by (rule rule_loweredE) (simp add: lower_correlates_some)
  moreover have "correlate_lowered chk r cb c \<Longrightarrow>
      co_binding c = id_name (cb_binding cb) \<and> co_source c = lower_source (cb_source cb)" for cb c
    by (auto simp: correlate_lowered_def elim!: lower_correlate_some)
  ultimately have c: "map co_binding (ru_correlates i) = map (\<lambda>c. id_name (cb_binding c)) (decl_correlates r)"
    "map co_source (ru_correlates i) = map (\<lambda>c. lower_source (cb_source c)) (decl_correlates r)"
    by (auto simp: list_all2_conv_all_nth list_eq_iff_nth_eq)
  have "an_binding (ru_anchor i) = id_name (anchor_binding r) \<and> an_source (ru_anchor i) = lower_anchor_source r"
    using assms by (auto elim!: rule_loweredE simp: lower_anchor_def split: prod.splits)
  with c show "binding_names i = id_name (anchor_binding r) # map (\<lambda>c. id_name (cb_binding c)) (decl_correlates r)"
    "map co_source (ru_correlates i) = map (\<lambda>c. lower_source (cb_source c)) (decl_correlates r)"
    "an_source (ru_anchor i) = lower_anchor_source r" by (simp_all add: binding_names_def)
qed

text \<open>With distinct binding names the verifier's environment (which keeps the last binding of a name)
  and the engine (which takes the first) resolve a name alike.\<close>

lemma cited_event_env:
  assumes "rule_lowered chk pii r i" "distinct (binding_names i)" "cited_event i s = Some ty"
  shows "hm_get (re_bindings (for_rule r)) s = Some (EventOf ty)"
proof -
  note l = rule_lowered_names [OF assms(1)]
  let ?ics = "enumerate 0 (decl_correlates r)"
  have names: "map (\<lambda>ic. id_name (cb_binding (snd ic))) ?ics = map (\<lambda>c. id_name (cb_binding c)) (decl_correlates r)"
    by (simp add: list_eq_iff_nth_eq nth_enumerate_eq)
  have d: "distinct (map (\<lambda>ic. id_name (cb_binding (snd ic))) ?ics)"
    "id_name (anchor_binding r) \<notin> set (map (\<lambda>c. id_name (cb_binding c)) (decl_correlates r))"
    using assms(2) unfolding l(1) names by simp_all
  show ?thesis
  proof (cases "an_binding (ru_anchor i) = s")
    case True
    then have s: "s = id_name (anchor_binding r)" using l(1) by (simp add: binding_names_def)
    from True assms(3) l(3) have "anchor_binding_ty r = EventOf ty"
      by (auto simp: cited_event_def binding_index_of_def anchor_binding_ty_def split: anchor_source.splits rule_decl.splits
          decision_anchor.splits)
    moreover have "\<forall>ic\<in>set ?ics. id_name (cb_binding (snd ic)) \<noteq> s"
      using d(2) unfolding s names [symmetric] by force
    from bind_correlates_other [OF this] have "hm_get (re_bindings (for_rule r)) s = Some (anchor_binding_ty r)"
      by (simp add: for_rule_def Let_def s)
    ultimately show ?thesis by simp
  next
    case False
    with assms(3) obtain k where k: "position (\<lambda>c. co_binding c = s) (ru_correlates i) = Some k"
      "co_source (ru_correlates i ! k) = CorrEvent ty"
      by (auto simp: cited_event_def binding_index_of_def split: option.splits correlate_source.splits)
    from position_Some [OF k(1)] have at: "k < length (ru_correlates i)" "co_binding (ru_correlates i ! k) = s"
      by simp_all
    have len: "length (decl_correlates r) = length (ru_correlates i)" using l(2) by (metis length_map)
    let ?c = "decl_correlates r ! k"
    have c: "id_name (cb_binding ?c) = s" "lower_source (cb_source ?c) = CorrEvent ty"
      using at k(2) len arg_cong [OF l(1), of "\<lambda>xs. xs ! Suc k"] arg_cong [OF l(2), of "\<lambda>xs. xs ! k"]
      by (simp_all add: binding_names_def)
    have "(k, ?c) \<in> set ?ics" using at(1) len by (simp add: in_set_enumerate_eq)
    from bind_correlates_at [OF d(1) this] c show ?thesis
      by (auto simp: for_rule_def Let_def correlate_binding_ty_def split: ast_source.splits)
  qed
qed

text \<open>C20: private evidence is declared. When an inference or a problem of a verified image cites an event
  as evidence, every private field of that event's schema is in the list of private fields the
  intent carries. The cited event is the one the engine finds: the first binding of the rule with
  the cited name. The rule's binding names are assumed distinct; the verifier does not check that
  (\<open>repeated_binding_accepted\<close>), and with a repeated name it looks at the last binding.\<close>

theorem verified_pii_declared:
  assumes "verify_with_config chk rs cfg = Some (Inr vp)" "i \<in> set (im_rules (vp_image vp))"
    and "x \<in> set (rule_intents i)" "declared_pii x = Some (ev, pii)" "s \<in> set ev"
    and "distinct (binding_names i)" "cited_event i s = Some ty" "resolve_event ty = Some schema"
    and "f \<in> set (es_fields schema)" "fs_pii f"
  shows "dotted s (fs_name f) \<in> set pii"
proof -
  let ?all = "phase12_privacy_annotations rs"
  from verified_rule_at [OF assms(1,2)] obtain r where r: "r \<in> set (rs_rules rs)" "rule_lowered chk ?all r i" by blast
  have "(s, EventOf ty) \<in> set (re_bindings (for_rule r))"
    using cited_event_env [OF r(2) assms(6,7)] by (simp add: hm_get_def map_of_SomeD)
  then have "dotted s (fs_name f) \<in> set ?all"
    using assms(8-10) r(1) by (force simp: phase12_privacy_annotations_def binding_pii_def)
  moreover have "pii = evidence_pii ?all ev"
  proof (cases x)
    case (InferCause k t w ev' pk pii')
    with assms(3,4) rule_infers [OF r(2)] show ?thesis by fastforce
  next
    case (EmitProblem p t sv ev' sa pii')
    with assms(3,4) rule_emits [OF r(2)] show ?thesis by fastforce
  qed (use assms(4) in simp_all)
  ultimately show ?thesis using assms(5) starts_with_dotted by (auto simp: evidence_pii_set)
qed

subsection \<open>Binding indices\<close>

lemma bind_correlates_index:
  "\<forall>k v. hm_get (re_index env) k = Some v \<longrightarrow> v \<le> m \<Longrightarrow> \<forall>(j, c)\<in>set ics. Suc j \<le> m \<Longrightarrow>
   hm_get (re_index (fold bind_correlate ics env)) k = Some v \<Longrightarrow> v \<le> m"
proof (induction ics arbitrary: env)
  case (Cons ic ics)
  obtain j c where ic: "ic = (j, c)" by force
  have le: "(j + 1) mod 256 \<le> m" using Cons.prems(2) ic order.trans [OF mod_less_eq_dividend [of "Suc j" 256], of m] by simp
  show ?case
  proof (rule Cons.IH [of "bind_correlate ic env"])
    show "\<forall>k v. hm_get (re_index (bind_correlate ic env)) k = Some v \<longrightarrow> v \<le> m"
      using Cons.prems(1) le ic by (auto simp: bind_correlate_def Let_def split: option.splits if_splits)
  qed (use Cons.prems in auto)
qed simp

lemma binding_index_bound: "binding_index (for_rule r) name \<le> length (decl_correlates r)"
proof (cases "hm_get (re_index (for_rule r)) name")
  case (Some v)
  have "v \<le> length (decl_correlates r)"
    by (rule bind_correlates_index [OF _ _ Some [unfolded for_rule_def Let_def]])
      (auto simp: hm_get_def hm_put_def in_set_enumerate_eq split: if_splits)
  with Some show ?thesis by (simp add: binding_index_def)
qed (simp add: binding_index_def)

lemma try_bind_Inl: "try_bind r f = Inl e \<longleftrightarrow> r = Inl e \<or> (\<exists>x. r = Inr x \<and> f x = Inl e)"
  by (cases r) auto

lemma as_num_no_unknown: "as_num s op \<noteq> Inl (UnknownBinding n)"
  by (cases "(s, op)" rule: as_num.cases) auto

lemma as_truth_no_unknown: "as_truth s op \<noteq> Inl (UnknownBinding n)"
  by (cases "(s, op)" rule: as_truth.cases) auto

lemma eval_binop_no_unknown: "eval_binop op a b \<noteq> Inl (UnknownBinding n)"
proof -
  have "arith a b op' f \<noteq> Inl (UnknownBinding n)" if "\<And>x y. f x y \<noteq> Inl (UnknownBinding n)" for op' f
    using that by (auto simp: arith_def try_bind_Inl as_num_no_unknown split: option.splits)
  moreover have "cmp a b op' f \<noteq> Inl (UnknownBinding n)" for op' f
    by (auto simp: cmp_def try_bind_Inl as_num_no_unknown split: option.splits)
  ultimately show ?thesis
    by (cases op) (auto simp: try_bind_Inl as_truth_no_unknown checked_def split: option.splits)
qed

lemma load_field_no_unknown: "load_field ty b f \<noteq> Inl (UnknownBinding n)"
proof -
  have "load_event_field b f \<noteq> Inl (UnknownBinding n)"
    by (cases "(b, f)" rule: load_event_field.cases) auto
  moreover have "load_cause_field b f \<noteq> Inl (UnknownBinding n)"
    by (cases "(b, f)" rule: load_cause_field.cases) auto
  moreover have "load_problem_field b f \<noteq> Inl (UnknownBinding n)"
    by (cases "(b, f)" rule: load_problem_field.cases) auto
  ultimately show ?thesis by (cases ty) auto
qed

lemma eval_expr_known:
  assumes "\<And>name. binding_index env name < length (px_bindings ctx)"
  shows "eval_expr env ctx e \<noteq> Inl (UnknownBinding n)"
  using assms
proof (induction env ctx e rule: eval_expr.induct)
  case (8 env ctx b f sp)
  then show ?case
    by (auto simp: eval_field_def ctx_binding_def load_field_no_unknown split: expr_kind.splits option.splits)
next
  case (9 env ctx op e sp)
  then show ?case by (auto simp: try_bind_Inl as_truth_no_unknown)
next
  case (10 env ctx op l r sp)
  then show ?case by (auto simp: try_bind_Inl eval_binop_no_unknown)
qed (auto simp: ctx_binding_def split: if_splits)

text \<open>A verified predicate reads no missing binding. On a full binding vector (the anchor and one
  binding per correlate) no predicate of a verified image stops with an unknown-binding error.\<close>

theorem verified_bindings_known:
  assumes "verify_with_config chk rs cfg = Some (Inr vp)" "i \<in> set (im_rules (vp_image vp))" "p \<in> set (lowered_predicates i)"
    and "length (px_bindings ctx) = 1 + length (ru_correlates i)"
  shows "eval_predicate p ctx \<noteq> Inl (UnknownBinding n)"
proof -
  have t: "\<not> has_errors (phase02_name_and_typecheck rs)" by (rule verified_phases(1) [OF assms(1)])
  from verified_rule_at [OF assms(1,2)] obtain r where
    r: "r \<in> set (rs_rules rs)" "rule_lowered chk (phase12_privacy_annotations rs) r i" by blast
  from r(2) have "list_all2 (correlate_lowered chk r) (decl_correlates r) (ru_correlates i)"
    by (rule rule_loweredE) (simp add: lower_correlates_some)
  then have "length (px_bindings ctx) = 1 + length (decl_correlates r)"
    using assms(4) by (simp add: list_all2_lengthD)
  then have known: "\<And>name. binding_index (for_rule r) name < length (px_bindings ctx)"
    using binding_index_bound [of r] by (simp add: less_Suc_eq_le)
  from list_all2_preimage [OF lowered_predicates_correct [OF r(2,1) t, of ctx] assms(3)] obtain e where
    "eval_predicate p ctx = source_truth (for_rule r) ctx e" by blast
  then show ?thesis
    using eval_expr_known [OF known] by (auto simp: source_truth_def try_bind_Inl as_truth_no_unknown split: option.splits)
qed

end
