(* ===== verification/Adgl_Verify_Demo.thy ===== *)
theory Adgl_Verify_Demo
  imports Adgl_Guarantees Adgl_Engine
begin

text \<open>
  A ruleset that the verifier accepts, with one evidence and one decision rule: it witnesses that
  the guarantees apply. Then inputs on which the checks accept what the engine cannot evaluate, or
  reject what the compiler supports.
\<close>

subsection \<open>An accepted ruleset\<close>

definition at_span :: span where "at_span = \<lparr>sp_start = 0, sp_stop = 1\<rparr>"

definition an_ident :: "string \<Rightarrow> ident" where "an_ident s = \<lparr>id_name = s, id_span = at_span\<rparr>"

definition a_string :: "string \<Rightarrow> string_lit" where "a_string s = \<lparr>sl_value = s, sl_span = at_span\<rparr>"

definition x_expr :: "expr_kind \<Rightarrow> adgl_expr" where "x_expr k = Expr k at_span"

definition x_int :: "int \<Rightarrow> adgl_expr" where "x_int i = x_expr (XInt \<lparr>il_value = i, il_span = at_span\<rparr>)"

definition x_ms :: "int \<Rightarrow> adgl_expr" where "x_ms i = x_expr (XDuration \<lparr>dl_millis = i, dl_span = at_span\<rparr>)"

definition x_field :: "string \<Rightarrow> string \<Rightarrow> adgl_expr" where
  "x_field b f = x_expr (XField (x_expr (XIdent (an_ident b))) (an_ident f))"

definition x_bin :: "adgl_binop \<Rightarrow> adgl_expr \<Rightarrow> adgl_expr \<Rightarrow> adgl_expr" where
  "x_bin op l r = x_expr (XBinary op l r)"

definition ast_kind :: "string list \<Rightarrow> kind_ident" where
  "ast_kind ss = \<lparr>ki_segments = map an_ident ss, ki_span = at_span\<rparr>"

definition ptb_correlate :: correlate_block where
  "ptb_correlate =
     \<lparr>cb_binding = an_ident ''ptb'', cb_source = SourceEvent (ast_kind [''icmp'', ''ptb'']),
      cb_topo = \<lparr>tp_name = an_ident ''same_session'', tp_args = [x_field ''rtx'' ''target'', x_field ''ptb'' ''target''],
                 tp_span = at_span\<rparr>,
      cb_time = \<lparr>tw_probe = x_field ''ptb'' ''time'',
                 tw_start = x_bin BinSub (x_field ''rtx'' ''time'') (x_ms 500),
                 tw_stop = x_bin BinAdd (x_field ''rtx'' ''time'') (x_ms 1000), tw_span = at_span\<rparr>,
      cb_min_match = None, cb_span = at_span\<rparr>"

definition blackhole_rule :: evidence_rule where
  "blackhole_rule =
     \<lparr>ev_name = an_ident ''pmtud'', ev_doc = None, ev_scope = Session,
      ev_anchor = \<lparr>ab_binding = an_ident ''rtx'', ab_event_type = ast_kind [''tcp'', ''retransmission_burst''],
                   ab_predicate = Some (x_bin BinGt (x_field ''rtx'' ''segment_size'') (x_int 1400)), ab_span = at_span\<rparr>,
      ev_correlates = [ptb_correlate],
      ev_if_else = Some \<lparr>ie_condition = x_expr (XAbsent (an_ident ''ptb'')),
        ie_then = [StInfer \<lparr>is_cause = an_ident ''PmtudBlackhole'',
          is_fields = [InferTarget (x_field ''rtx'' ''target'') at_span, InferWeight 60 at_span,
            InferEvidence [an_ident ''rtx''] at_span], is_span = at_span\<rparr>],
        ie_else = None, ie_span = at_span\<rparr>,
      ev_body = [], ev_span = at_span\<rparr>"

definition report_rule :: decision_rule where
  "report_rule =
     \<lparr>de_name = an_ident ''report'', de_doc = None, de_scope = Session,
      de_anchor = OnCause \<lparr>cn_binding = an_ident ''c'', cn_cause = an_ident ''PmtudBlackhole'',
        cn_predicate = x_bin BinGe (x_field ''c'' ''confidence'') (x_int 80), cn_span = at_span\<rparr>,
      de_correlates = [], de_if_else = None,
      de_body = [StEmit \<lparr>em_problem = an_ident ''XlIcmpTcpMss'',
        em_fields = [EmitTarget (x_field ''c'' ''target'') at_span, EmitEvidence [an_ident ''c''] at_span],
        em_span = at_span\<rparr>], de_span = at_span\<rparr>"

definition demo_ruleset :: ruleset where
  "demo_ruleset =
     \<lparr>rs_name = a_string ''demo'', rs_doc = None,
      rs_header = \<lparr>rh_version = a_string ''1.2'', rh_decls = [Requires \<lparr>rq_capabilities = [a_string ''topology''],
        rq_span = at_span\<rparr>], rh_span = at_span\<rparr>,
      rs_rules = [EvidenceDecl blackhole_rule, DecisionDecl report_rule], rs_span = at_span\<rparr>"

definition demo_program :: verified_program where
  "demo_program = projr (the (verify_default True demo_ruleset))"

definition pmtud_inference :: intent where
  "pmtud_inference =
     InferCause ''PmtudBlackhole'' ''rtx.target'' (Weight 60) [''rtx'']
       \<lparr>pk_rule = ''pmtud'', pk_cause = ''PmtudBlackhole'', pk_target_hash = 5819305550543994576\<rparr>
       [''rtx.dst_ip'', ''rtx.src_ip'']"

definition lowered_ptb :: correlate_spec where
  "lowered_ptb =
     \<lparr>co_binding = ''ptb'', co_source = CorrEvent ''icmp.ptb'',
      co_topo = \<lparr>tc_func = ''same_session'', tc_func_idx = 0, tc_args = [''rtx.target'', ''ptb.target'']\<rparr>,
      co_window = Calculable 500 1000, co_min_match = 1\<rparr>"

definition lowered_pmtud :: rule_instance where
  "lowered_pmtud =
     \<lparr>ru_id = ''pmtud'', ru_kind = Evidence, ru_scope = Session,
      ru_anchor = \<lparr>an_binding = ''rtx'', an_source = AnchorEvent ''tcp.retransmission_burst'',
        an_predicate = \<lparr>pd_ops = [PLoadEventField 0 0 (SlotIdx 0), PLoadConst 1400 (SlotIdx 1),
            PCmpGt (SlotIdx 0) (SlotIdx 1) (SlotIdx 2)], pd_result = SlotIdx 2\<rparr>\<rparr>,
      ru_correlates = [lowered_ptb],
      ru_branches = Some \<lparr>br_cond = \<lparr>pd_ops = [PAbsent 1 (SlotIdx 0)], pd_result = SlotIdx 0\<rparr>,
        br_then = [pmtud_inference], br_else = None, br_unknown = [topology_request]\<rparr>,
      ru_body = [],
      ru_annotations = \<lparr>va_max_backward = 500, va_max_forward = 1000, va_target_scope = Some Session\<rparr>\<rparr>"

definition lowered_report :: rule_instance where
  "lowered_report =
     \<lparr>ru_id = ''report'', ru_kind = Decision, ru_scope = Session,
      ru_anchor = \<lparr>an_binding = ''c'', an_source = AnchorCause ''PmtudBlackhole'',
        an_predicate = \<lparr>pd_ops = [PLoadCauseField 0 2 (SlotIdx 0), PLoadConst 80 (SlotIdx 1),
            PCmpGe (SlotIdx 0) (SlotIdx 1) (SlotIdx 2)], pd_result = SlotIdx 2\<rparr>\<rparr>,
      ru_correlates = [], ru_branches = None,
      ru_body = [EmitProblem ''XlIcmpTcpMss'' (Some ''c.target'') Medium [''c''] ''l3_pmtud_blackhole'' []],
      ru_annotations = \<lparr>va_max_backward = 0, va_max_forward = 0, va_target_scope = Some Session\<rparr>\<rparr>"

lemma demo_accepted:
  "(case verify_default True demo_ruleset of
      Some (Inr vp) \<Rightarrow> im_rules (vp_image vp) = [lowered_pmtud, lowered_report] | _ \<Rightarrow> False)"
  by code_simp

lemma demo_verified:
  "verify_with_config True demo_ruleset verify_config_default = Some (Inr demo_program)"
  "im_rules (vp_image demo_program) = [lowered_pmtud, lowered_report]"
  using demo_accepted by (auto simp: demo_program_def verify_default_def split: option.splits sum.splits)

lemma demo_members:
  "lowered_pmtud \<in> set (im_rules (vp_image demo_program))"
  "lowered_ptb \<in> set (ru_correlates lowered_pmtud)" "pmtud_inference \<in> set (rule_intents lowered_pmtud)"
  by (simp_all add: demo_verified(2)) (simp_all add: lowered_pmtud_def rule_intents_def)

theorem verified_rules_in_order_witness:
  "map (\<lambda>i. (ru_id i, ru_kind i, ru_scope i, an_source (ru_anchor i))) (im_rules (vp_image demo_program))
   = [(''pmtud'', Evidence, Session, AnchorEvent ''tcp.retransmission_burst''),
      (''report'', Decision, Session, AnchorCause ''PmtudBlackhole'')]"
  unfolding verified_rules_in_order [OF demo_verified(1)] by code_simp

text \<open>The condition \<open>absent(ptb)\<close> while the correlate is unbound.\<close>

theorem verified_predicates_evaluate_witness:
  "map (\<lambda>i. map (\<lambda>p. eval_predicate p (demo_ctx Unbound)) (lowered_predicates i)) (im_rules (vp_image demo_program))
   = [[Inr TUnknown, Inl (UnknownBinding 1)], [Inr TUnknown]]"
  unfolding verified_predicates_evaluate [OF demo_verified(1)] by code_simp

theorem verified_predicates_in_slots_witness: "predicate_ok (an_predicate (ru_anchor lowered_pmtud))"
  by (rule verified_predicates_in_slots [OF demo_verified(1) demo_members(1)]) (simp add: lowered_predicates_def)

theorem verified_correlates_wf_witness: "topo_from_idx (tc_func_idx (co_topo lowered_ptb)) \<noteq> None"
  using verified_correlates_wf [OF demo_verified(1) demo_members(1,2)] by simp

theorem verified_windows_fit_witness: "max 500 1000 + va_max_forward (ru_annotations lowered_pmtud) \<le> 60000"
  using verified_windows_fit [OF demo_verified(1) demo_members(1,2)]
  by (simp add: lowered_ptb_def verify_config_default_def)

theorem verified_inferences_keyed_witness: "weight_ok (Weight 60)"
  using verified_inferences_keyed [OF demo_verified(1) demo_members(1) demo_members(3) [unfolded pmtud_inference_def]]
  by simp

theorem verified_layers_separate_witness: "ru_kind lowered_pmtud = Evidence"
  using verified_layers_separate [OF demo_verified(1) demo_members(1,3)] by (simp add: pmtud_inference_def)

theorem verified_cascades_acyclic_witness:
  "acyclic (fire_rel [lowered_pmtud, lowered_report]) \<and> (0, 1) \<in> fire_rel [lowered_pmtud, lowered_report]"
proof -
  have "fires lowered_pmtud lowered_report" by code_simp
  then show ?thesis
    using verified_cascades_acyclic [OF demo_verified(1)] by (simp add: demo_verified(2) fire_rel_def)
qed

theorem verified_pii_declared_witness: "dotted ''rtx'' ''dst_ip'' \<in> set (snd (the (declared_pii pmtud_inference)))"
proof -
  let ?schema = "the (resolve_event ''tcp.retransmission_burst'')"
  have ev: "resolve_event ''tcp.retransmission_burst'' = Some ?schema"
    "fs_name (es_fields ?schema ! 5) = ''dst_ip'' \<and> fs_pii (es_fields ?schema ! 5) \<and> 5 < length (es_fields ?schema)"
    by code_simp+
  have b: "distinct (binding_names lowered_pmtud)"
    "cited_event lowered_pmtud ''rtx'' = Some ''tcp.retransmission_burst''"
    by code_simp+
  have x: "declared_pii pmtud_inference = Some ([''rtx''], snd (the (declared_pii pmtud_inference)))"
    by (simp add: pmtud_inference_def)
  have "dotted ''rtx'' (fs_name (es_fields ?schema ! 5)) \<in> set (snd (the (declared_pii pmtud_inference)))"
    by (rule verified_pii_declared [OF demo_verified(1) demo_members(1,3) x _ b ev(1)]) (use ev in simp_all)
  with ev(2) show ?thesis by simp
qed

theorem verified_bindings_known_witness:
  "eval_predicate \<lparr>pd_ops = [PAbsent 1 (SlotIdx 0)], pd_result = SlotIdx 0\<rparr>
     \<lparr>px_bindings = [Unbound, Absent], px_scope = scope_global, px_interner = [], px_topo = (\<lambda>f a b. TUnknown)\<rparr>
   \<noteq> Inl (UnknownBinding 1)"
  by (rule verified_bindings_known [OF demo_verified(1) demo_members(1)])
    (simp_all add: lowered_predicates_def lowered_pmtud_def)

subsection \<open>Where the checks and the engine disagree\<close>

definition blackhole_variant :: "adgl_expr \<Rightarrow> adgl_expr \<Rightarrow> adgl_expr \<Rightarrow> correlate_block list \<Rightarrow> ruleset" where
  "blackhole_variant anchor condition target extra =
     demo_ruleset\<lparr>rs_rules := [EvidenceDecl (blackhole_rule
       \<lparr>ev_anchor := (ev_anchor blackhole_rule)\<lparr>ab_predicate := Some anchor\<rparr>,
        ev_correlates := ptb_correlate # extra,
        ev_if_else := Some \<lparr>ie_condition = condition,
          ie_then = [StInfer \<lparr>is_cause = an_ident ''PmtudBlackhole'', is_fields = [InferTarget target at_span],
            is_span = at_span\<rparr>], ie_else = None, ie_span = at_span\<rparr>\<rparr>)]\<rparr>"

definition x_absent :: "string \<Rightarrow> adgl_expr" where "x_absent b = x_expr (XAbsent (an_ident b))"

definition x_true :: adgl_expr where "x_true = x_expr (XBool True)"

definition accepted_with :: "bool \<Rightarrow> ruleset \<Rightarrow> (rule_instance \<Rightarrow> bool) \<Rightarrow> bool" where
  "accepted_with chk rs P =
     (case verify_default chk rs of Some (Inr vp) \<Rightarrow> list_all P (im_rules (vp_image vp)) | _ \<Rightarrow> False)"

text \<open>An anchor predicate may name a correlate, but the engine evaluates it on the anchor alone: the
  rule is accepted and can never fire.\<close>

lemma anchor_predicate_reads_correlate:
  "accepted_with True (blackhole_variant (x_absent ''ptb'') x_true (x_field ''rtx'' ''target'') [])
     (\<lambda>i. an_predicate (ru_anchor i) = \<lparr>pd_ops = [PAbsent 1 (SlotIdx 0)], pd_result = SlotIdx 0\<rparr>)"
  "length (px_bindings ctx) = 1 \<Longrightarrow>
   eval_predicate \<lparr>pd_ops = [PAbsent 1 (SlotIdx 0)], pd_result = SlotIdx 0\<rparr> ctx = Inl (UnknownBinding 1)"
  by code_simp (simp add: eval_predicate_def ctx_binding_def)

text \<open>A comparison has the type \<open>Int\<close> for the checker, but its value is a truth value, which the
  interpreter does not compare: \<open>absent(ptb) == true\<close> is accepted and fails on every input.\<close>

lemma truth_value_compared:
  "accepted_with True (blackhole_variant x_true (x_bin BinEq (x_absent ''ptb'') x_true) (x_field ''rtx'' ''target'') [])
     (\<lambda>i. map_option br_cond (ru_branches i) = Some
        \<lparr>pd_ops = [PAbsent 1 (SlotIdx 0), PLoadConst 1 (SlotIdx 1), PCmpEq (SlotIdx 0) (SlotIdx 1) (SlotIdx 2)],
         pd_result = SlotIdx 2\<rparr>)"
  "eval_predicate
     \<lparr>pd_ops = [PAbsent 1 (SlotIdx 0), PLoadConst 1 (SlotIdx 1), PCmpEq (SlotIdx 0) (SlotIdx 1) (SlotIdx 2)],
      pd_result = SlotIdx 2\<rparr>
     \<lparr>px_bindings = [b, Absent], px_scope = sc, px_interner = m, px_topo = t\<rparr> = Inl (TypeMismatch ''CMP_EQ'')"
  by code_simp
    (simp add: eval_predicate_def ctx_binding_def absent_of_def cmp_def set_reg_def get_reg_def max_slots_def
      eval_nat_numeral)

text \<open>Offsets are added without an overflow check: a window that reaches \<open>2^63\<close> ms back is accepted in
  a release build, and its lookback becomes zero; a debug build panics.\<close>

definition huge_window :: correlate_block where
  "huge_window = ptb_correlate\<lparr>cb_binding := an_ident ''far'',
     cb_time := \<lparr>tw_probe = x_field ''far'' ''time'',
       tw_start = x_bin BinSub (x_bin BinSub (x_field ''rtx'' ''time'') (x_ms 9223372036854775807)) (x_ms 1),
       tw_stop = x_field ''rtx'' ''time'', tw_span = at_span\<rparr>\<rparr>"

lemma huge_window_accepted:
  "accepted_with False (blackhole_variant x_true x_true (x_field ''rtx'' ''target'') [huge_window])
     (\<lambda>i. map co_window (ru_correlates i) = [Calculable 500 1000, Calculable 0 0])"
  "verify_default True (blackhole_variant x_true x_true (x_field ''rtx'' ''target'') [huge_window]) = None"
  by code_simp+

text \<open>A target that is not a scope is accepted: it counts as one of the rule's own scope.\<close>

lemma non_scope_target_accepted:
  "accepted_with True (blackhole_variant x_true x_true (x_field ''rtx'' ''segment_size'') [])
     (\<lambda>i. list_all (\<lambda>x. case x of InferCause k t w ev pk pii \<Rightarrow> t = ''rtx.segment_size'' | _ \<Rightarrow> False) (rule_intents i))"
  by code_simp

text \<open>Binding names may repeat. Predicates then read the last binding of the name, targets and
  evidence the first.\<close>

lemma repeated_binding_accepted:
  "accepted_with True (blackhole_variant x_true (x_absent ''ptb'') (x_field ''ptb'' ''target'') [ptb_correlate])
     (\<lambda>i. map_option (\<lambda>b. pd_ops (br_cond b)) (ru_branches i) = Some [PAbsent 2 (SlotIdx 0)]
        \<and> binding_index_of i ''ptb'' = Some 1)"
  by code_simp

text \<open>The identifier \<open>scope\<close> compiles to the scope key, but the type checker rejects it.\<close>

lemma scope_identifier_rejected:
  "verify_default True (blackhole_variant x_true (x_expr (XIdent (an_ident ''scope''))) (x_field ''rtx'' ''target'') [])
   = Some (Inl [diag_error ''ADGL0209'' ''unknown identifier'' at_span])"
  "fst (compile_expr (for_rule (EvidenceDecl blackhole_rule)) (x_expr (XIdent (an_ident ''scope''))) ([], 0)) = Some 0"
  by code_simp+

end
