(* ===== verification/Adgl_Token.thy ===== *)
theory Adgl_Token
  imports Adgl_Ast
begin

text \<open>
  The token model of the ADGL front end: trivia (crates/ndsl-trivia/src/lib.rs), tokens, parse
  errors and the near-miss suggestions of crates/airpulse\_dsl-syntax/src/parser.rs. Text is UTF-8:
  a \<open>string\<close> is its bytes, \<open>utf8_chars\<close> its characters.
\<close>

subsection \<open>Characters\<close>

text \<open>The number of bytes of the character whose first byte is given (\<open>char::len_utf8\<close>).\<close>

definition utf8_len :: "char \<Rightarrow> nat" where
  "utf8_len c = (let b = of_char c :: nat in
     if b < 128 then 1 else if b < 224 then 2 else if b < 240 then 3 else 4)"

lemma utf8_len_pos [simp]: "0 < utf8_len c"
  by (simp add: utf8_len_def Let_def)

text \<open>\<open>str::chars\<close>; a character is its bytes.\<close>

function utf8_chars :: "string \<Rightarrow> string list" where
  "utf8_chars s = (case s of [] \<Rightarrow> [] | c # _ \<Rightarrow> take (utf8_len c) s # utf8_chars (drop (utf8_len c) s))"
  by pat_completeness auto
termination by (relation "measure length") auto

declare utf8_chars.simps [simp del]

lemma utf8_chars_simps [simp]:
  "utf8_chars [] = []"
  "utf8_chars (c # s) = take (utf8_len c) (c # s) # utf8_chars (drop (utf8_len c) (c # s))"
  by (subst utf8_chars.simps; simp)+

lemma concat_utf8_chars: "concat (utf8_chars s) = s"
proof (induction s rule: utf8_chars.induct)
  case (1 s)
  then show ?case by (cases s) auto
qed

definition is_ascii_digit :: "char \<Rightarrow> bool" where
  "is_ascii_digit c = (let b = of_char c :: nat in 48 \<le> b \<and> b \<le> 57)"

definition is_ascii_alphabetic :: "char \<Rightarrow> bool" where
  "is_ascii_alphabetic c = (let b = of_char c :: nat in 65 \<le> b \<and> b \<le> 90 \<or> 97 \<le> b \<and> b \<le> 122)"

definition is_ascii_hexdigit :: "char \<Rightarrow> bool" where
  "is_ascii_hexdigit c = (let b = of_char c :: nat in
     48 \<le> b \<and> b \<le> 57 \<or> 65 \<le> b \<and> b \<le> 70 \<or> 97 \<le> b \<and> b \<le> 102)"

definition is_ident_start :: "char \<Rightarrow> bool" where
  "is_ident_start c = (is_ascii_alphabetic c \<or> c = CHR ''_'')"

definition is_ident_continue :: "char \<Rightarrow> bool" where
  "is_ident_continue c = (is_ascii_alphabetic c \<or> is_ascii_digit c \<or> c = CHR ''_'')"

text \<open>\<open>char::to_digit\<close>: the value of a digit in a radix of at most 16.\<close>

definition to_digit :: "nat \<Rightarrow> char \<Rightarrow> nat option" where
  "to_digit radix c = (let b = of_char c :: nat;
     v = (if 48 \<le> b \<and> b \<le> 57 then b - 48
          else if 97 \<le> b \<and> b \<le> 122 then b - 87
          else if 65 \<le> b \<and> b \<le> 90 then b - 55 else 36) in
     if v < radix then Some v else None)"

text \<open>The decimal digits of a number, as \<open>to_string\<close> writes them.\<close>

fun nat_digits :: "nat \<Rightarrow> string" where
  "nat_digits n = (if n < 10 then [char_of (n + 48)]
                   else nat_digits (n div 10) @ [char_of (n mod 10 + 48)])"

declare nat_digits.simps [simp del]

definition int_str :: "int \<Rightarrow> string" where
  "int_str i = (if i < 0 then CHR ''-'' # nat_digits (nat (- i)) else nat_digits (nat i))"

subsection \<open>Trivia (ndsl-trivia)\<close>

datatype trivia_kind = LineComment | DocComment | BlockComment | Whitespace | Newline

record trivia =
  tv_kind :: trivia_kind
  tv_span :: span
  tv_text :: string

definition has_prefix :: "string \<Rightarrow> string \<Rightarrow> bool" where
  "has_prefix s pre = (take (length pre) s = pre)"

definition classify_line_comment :: "string \<Rightarrow> trivia_kind" where
  "classify_line_comment text =
     (if has_prefix text ''///'' \<and> \<not> has_prefix text ''////'' then DocComment else LineComment)"

definition strip_prefix :: "string \<Rightarrow> string \<Rightarrow> string option" where
  "strip_prefix pre s = (if has_prefix s pre then Some (drop (length pre) s) else None)"

definition unwrap_or_str :: "string option \<Rightarrow> string \<Rightarrow> string" where
  "unwrap_or_str m d = (case m of Some x \<Rightarrow> x | None \<Rightarrow> d)"

definition strip_doc_prefix :: "string \<Rightarrow> string" where
  "strip_doc_prefix text =
     (let rest = unwrap_or_str (strip_prefix ''///'' text) text
      in unwrap_or_str (strip_prefix '' '' rest) rest)"

text \<open>\<open>lines.join("\n")\<close>.\<close>

fun join_lines :: "string list \<Rightarrow> string" where
  "join_lines [] = []"
| "join_lines [l] = l"
| "join_lines (l # ls) = l @ CHR 0x0A # join_lines ls"

definition docs_from_leading :: "trivia list \<Rightarrow> string option" where
  "docs_from_leading ts =
     (let lns = map (\<lambda>t. strip_doc_prefix (tv_text t)) (filter (\<lambda>t. tv_kind t = DocComment) ts)
      in if lns = [] then None else Some (join_lines lns))"

record trivia_bag =
  tb_leading :: "trivia list"
  tb_trailing :: "trivia list"

definition trivia_bag_new :: trivia_bag where
  "trivia_bag_new = \<lparr>tb_leading = [], tb_trailing = []\<rparr>"

definition attach_leading :: "trivia_bag \<Rightarrow> trivia \<Rightarrow> trivia_bag" where
  "attach_leading b t = b\<lparr>tb_leading := tb_leading b @ [t]\<rparr>"

definition attach_trailing :: "trivia_bag \<Rightarrow> trivia \<Rightarrow> trivia_bag" where
  "attach_trailing b t = b\<lparr>tb_trailing := tb_trailing b @ [t]\<rparr>"

subsection \<open>Tokens and parse errors\<close>

datatype token_kind =
    TIdent string | TString string | TInt int | TDuration int
  | TLBrace | TRBrace | TLParen | TRParen | TLBracket | TRBracket
  | TColon | TComma | TDot | TEq | TPlus | TMinus | TStar | TSlash | TPercent | TBang
  | TLt | TLe | TGt | TGe | TEqEq | TNe | TAndAnd | TOrOr
  | TKw string | TEof

record token =
  tk_kind :: token_kind
  tk_span :: span
  tk_leading :: "trivia list"

record parse_err =
  pe_code :: string
  pe_message :: string
  pe_expected :: string
  pe_found :: "string option"
  pe_help :: "string option"
  pe_span :: span

definition parse_err_new :: "string \<Rightarrow> string \<Rightarrow> string \<Rightarrow> span \<Rightarrow> parse_err" where
  "parse_err_new code message expected sp =
     \<lparr>pe_code = code, pe_message = message, pe_expected = expected,
      pe_found = None, pe_help = None, pe_span = sp\<rparr>"

definition with_found :: "parse_err \<Rightarrow> string \<Rightarrow> parse_err" where
  "with_found e f = e\<lparr>pe_found := Some f\<rparr>"

definition with_help :: "parse_err \<Rightarrow> string \<Rightarrow> parse_err" where
  "with_help e h = e\<lparr>pe_help := Some h\<rparr>"

definition keywords_list :: "string list" where
  "keywords_list =
    [''ruleset'', ''version'', ''requires'', ''mutually_exclusive'', ''evidence'', ''decision'',
     ''scope'', ''anchor'', ''correlate'', ''having'', ''infer'', ''emit'', ''action'', ''if'',
     ''else'', ''present'', ''absent'', ''and'', ''or'', ''not'', ''Cause'', ''Problem'',
     ''event'', ''in'', ''true'', ''false'']"

definition keyword_static :: "string \<Rightarrow> string" where
  "keyword_static s = (if s \<in> set keywords_list then s else ''unknown'')"

definition diag_of :: "parse_err \<Rightarrow> diagnostic" where
  "diag_of e =
     (let msg = (case pe_found e of
          Some f \<Rightarrow> pe_message e @ '' (expected: '' @ pe_expected e @ '', found: '' @ f @ '')''
        | None \<Rightarrow> pe_message e @ '' (expected: '' @ pe_expected e @ '')'');
       msg' = (case pe_help e of Some h \<Rightarrow> msg @ ''; '' @ h | None \<Rightarrow> msg)
     in diag_error (pe_code e) msg' (pe_span e))"

definition diag_from_err :: "parse_err \<Rightarrow> diag_buffer" where
  "diag_from_err e = [diag_of e]"

fun describe_token_kind :: "token_kind \<Rightarrow> string" where
  "describe_token_kind (TIdent s) = s"
| "describe_token_kind (TString s) = ''string literal''"
| "describe_token_kind (TInt v) = int_str v"
| "describe_token_kind (TDuration ms) = int_str ms @ ''ms''"
| "describe_token_kind TLBrace = ''{''"
| "describe_token_kind TRBrace = ''}''"
| "describe_token_kind TLParen = ''(''"
| "describe_token_kind TRParen = '')''"
| "describe_token_kind TLBracket = ''[''"
| "describe_token_kind TRBracket = '']''"
| "describe_token_kind TColon = '':''"
| "describe_token_kind TComma = '',''"
| "describe_token_kind TDot = ''.''"
| "describe_token_kind TEq = ''=''"
| "describe_token_kind TPlus = ''+''"
| "describe_token_kind TMinus = ''-''"
| "describe_token_kind TStar = ''*''"
| "describe_token_kind TSlash = ''/''"
| "describe_token_kind TPercent = ''%''"
| "describe_token_kind TBang = ''!''"
| "describe_token_kind TLt = ''<''"
| "describe_token_kind TLe = ''<=''"
| "describe_token_kind TGt = ''>''"
| "describe_token_kind TGe = ''>=''"
| "describe_token_kind TEqEq = ''==''"
| "describe_token_kind TNe = ''!=''"
| "describe_token_kind TAndAnd = ''&&''"
| "describe_token_kind TOrOr = ''||''"
| "describe_token_kind (TKw k) = k"
| "describe_token_kind TEof = ''end of input''"

subsection \<open>Near misses\<close>

text \<open>
  The inner loop of \<open>levenshtein\<close>: \<open>prev\<close> from index \<open>j\<close> on, \<open>c\<close> the entry \<open>cur[j]\<close>, the result
  the entries of \<open>cur\<close> from \<open>j + 1\<close> on.
\<close>

fun lev_row :: "'a \<Rightarrow> 'a list \<Rightarrow> nat list \<Rightarrow> nat \<Rightarrow> nat list" where
  "lev_row ca (cb # bs) (p # q # prev) c =
     (let v = min (min (q + 1) (c + 1)) (p + (if ca \<noteq> cb then 1 else 0))
      in v # lev_row ca bs (q # prev) v)"
| "lev_row _ _ _ _ = []"

text \<open>The outer loop: \<open>i\<close> counts the rows done.\<close>

fun lev_rows :: "'a list \<Rightarrow> 'a list \<Rightarrow> nat \<Rightarrow> nat list \<Rightarrow> nat list" where
  "lev_rows [] b i prev = prev"
| "lev_rows (ca # a) b i prev = lev_rows a b (i + 1) ((i + 1) # lev_row ca b prev (i + 1))"

definition levenshtein :: "string \<Rightarrow> string \<Rightarrow> nat" where
  "levenshtein a b =
     (if a = b then 0
      else if a = [] then length (utf8_chars b)
      else if b = [] then length (utf8_chars a)
      else let b' = utf8_chars b in lev_rows (utf8_chars a) b' 0 [0..<length b' + 1] ! length b')"

text \<open>\<open>str::trim\<close>, on ASCII white space.\<close>

definition is_white :: "char \<Rightarrow> bool" where
  "is_white c = (let b = of_char c :: nat in b = 32 \<or> 9 \<le> b \<and> b \<le> 13)"

definition trim_str :: "string \<Rightarrow> string" where
  "trim_str s = rev (dropWhile is_white (rev (dropWhile is_white s)))"

text \<open>One candidate of the loop of \<open>suggest_near_miss\<close>.\<close>

definition near_step :: "string \<Rightarrow> string \<Rightarrow> (string \<times> nat) option \<Rightarrow> (string \<times> nat) option" where
  "near_step found cand best =
     (let d = levenshtein found cand in
      if d = 0 \<or> d > 2 then best
      else if (case best of
                 None \<Rightarrow> True
               | Some (prev, prev_d) \<Rightarrow> d < prev_d \<or> d = prev_d \<and> length cand < length prev)
      then Some (cand, d) else best)"

definition suggest_near_miss :: "string \<Rightarrow> string list \<Rightarrow> string option" where
  "suggest_near_miss found cands =
     (let f = trim_str found in
      if f = [] \<or> f = ''end of input'' then None
      else map_option fst (fold (near_step f) cands None))"

definition help_did_you_mean :: "string \<Rightarrow> string" where
  "help_did_you_mean cand = ''did you mean `'' @ cand @ ''`?''"

end
