(* ===== verification/Adgl_Edit.thy ===== *)
theory Adgl_Edit
  imports Adgl_Token
begin

text \<open>
  The two-row \<open>levenshtein\<close> of the parser's suggestions against the meaning of the distance: the
  least number of single-character insertions, deletions and substitutions from one word to the
  other. Between them stands the textbook recursion on lists.
\<close>

inductive one_edit :: "'a list \<Rightarrow> 'a list \<Rightarrow> bool" where
  insert_char: "one_edit (p @ s) (p @ c # s)"
| delete_char: "one_edit (p @ c # s) (p @ s)"
| change_char: "one_edit (p @ c # s) (p @ d # s)"

definition edit_distance :: "'a list \<Rightarrow> 'a list \<Rightarrow> nat" where
  "edit_distance xs ys = (LEAST n. (one_edit ^^ n) xs ys)"

fun ed :: "'a list \<Rightarrow> 'a list \<Rightarrow> nat" where
  "ed [] ys = length ys"
| "ed xs [] = length xs"
| "ed (x # xs) (y # ys) =
     min (min (ed xs (y # ys) + 1) (ed (x # xs) ys + 1)) (ed xs ys + (if x \<noteq> y then 1 else 0))"

lemma ed_Nil [simp]: "ed xs [] = length xs"
  by (cases xs) simp_all

subsection \<open>The recursion is the distance\<close>

lemma one_edit_Cons: "one_edit xs ys \<Longrightarrow> one_edit (c # xs) (c # ys)"
proof (induction rule: one_edit.induct)
  case (insert_char p s d)
  then show ?case using one_edit.insert_char [of "c # p" s d] by simp
next
  case (delete_char p d s)
  then show ?case using one_edit.delete_char [of "c # p" d s] by simp
next
  case (change_char p d s e)
  then show ?case using one_edit.change_char [of "c # p" d s e] by simp
qed

lemma edits_Cons: "(one_edit ^^ n) xs ys \<Longrightarrow> (one_edit ^^ n) (c # xs) (c # ys)"
  by (induction n arbitrary: ys) (auto intro: one_edit_Cons)

lemma edits_delete: "(one_edit ^^ n) xs ys \<Longrightarrow> (one_edit ^^ Suc n) (c # xs) ys"
  by (rule relpowp_Suc_I2) (use delete_char [of "[]" c xs] in simp)

lemma edits_insert: "(one_edit ^^ n) xs ys \<Longrightarrow> (one_edit ^^ Suc n) xs (c # ys)"
  using insert_char [of "[]" ys c] by (auto intro: relpowp_Suc_I)

lemma edits_change: "(one_edit ^^ n) xs ys \<Longrightarrow> (one_edit ^^ Suc n) (c # xs) (d # ys)"
  by (rule relpowp_Suc_I2 [OF _ edits_Cons]) (use change_char [of "[]" c xs d] in simp)

lemma ed_edits: "(one_edit ^^ ed xs ys) xs ys"
proof (induction xs ys rule: ed.induct)
  case (1 ys)
  then show ?case
  proof (induction ys)
    case (Cons y ys)
    then show ?case using edits_insert [of "length ys" "[]" ys y] by simp
  qed simp
next
  case (2 x xs)
  have "(one_edit ^^ length zs) zs []" for zs :: "'a list"
  proof (induction zs)
    case (Cons z zs)
    then show ?case using edits_delete [of "length zs" zs "[]" z] by simp
  qed simp
  from this [of "x # xs"] show ?case by simp
next
  case (3 x xs y ys)
  have three: "m = Suc i \<or> m = Suc j \<or> m = k + c" if "m = min (min (i + 1) (j + 1)) (k + c)" for m i j k c :: nat
    using that by (simp add: min_def split: if_splits)
  have "ed (x # xs) (y # ys) = Suc (ed xs (y # ys)) \<or> ed (x # xs) (y # ys) = Suc (ed (x # xs) ys)
      \<or> ed (x # xs) (y # ys) = ed xs ys + (if x \<noteq> y then 1 else 0)"
    by (rule three) (rule ed.simps)
  then show ?case
  proof (elim disjE)
    assume e: "ed (x # xs) (y # ys) = Suc (ed xs (y # ys))"
    show ?thesis unfolding e by (rule edits_delete [OF "3.IH"(1)])
  next
    assume e: "ed (x # xs) (y # ys) = Suc (ed (x # xs) ys)"
    show ?thesis unfolding e by (rule edits_insert [OF "3.IH"(2)])
  next
    assume e: "ed (x # xs) (y # ys) = ed xs ys + (if x \<noteq> y then 1 else 0)"
    show ?thesis
    proof (cases "x = y")
      case True
      then have e': "ed (x # xs) (y # ys) = ed xs ys" using e by simp
      show ?thesis unfolding e' using edits_Cons [OF "3.IH"(3)] True by simp
    next
      case False
      then have e': "ed (x # xs) (y # ys) = Suc (ed xs ys)" using e by simp
      show ?thesis unfolding e' by (rule edits_change [OF "3.IH"(3)])
    qed
  qed
qed

lemma ed_insert_head: "ed xs (y # ys) \<le> ed xs ys + 1"
  by (cases xs) auto

lemma ed_delete_head: "ed (x # xs) ys \<le> ed xs ys + 1"
  by (cases ys) auto

lemma ed_shorter: "ed xs ys \<le> ed (x # xs) ys + 1"
proof (induction ys)
  case (Cons y ys)
  then show ?case using ed_insert_head [of xs y ys] by (auto simp: min_def split: if_splits)
qed simp

lemma ed_close_Cons:
  assumes "\<And>ys. ed u ys \<le> ed v ys + 1"
  shows "ed (a # u) ys \<le> ed (a # v) ys + 1"
proof (induction ys)
  case Nil
  then show ?case using assms [of "[]"] by simp
next
  case (Cons y ys)
  then show ?case using assms [of "y # ys"] assms [of ys] by (auto simp: min_def split: if_splits)
qed

lemma ed_close_prefix:
  "(\<And>ys. ed u ys \<le> ed v ys + 1) \<Longrightarrow> ed (p @ u) ys \<le> ed (p @ v) ys + 1"
proof (induction p arbitrary: ys)
  case (Cons a p)
  have "ed (p @ u) ys \<le> ed (p @ v) ys + 1" for ys using Cons by blast
  then show ?case using ed_close_Cons [of "p @ u" "p @ v"] by simp
qed simp

lemma ed_change_head: "ed (c # s) ys \<le> ed (d # s) ys + 1"
proof (induction ys)
  case (Cons y ys)
  then show ?case by (auto simp: min_def split: if_splits)
qed simp

lemma ed_one_edit: "one_edit xs zs \<Longrightarrow> ed xs ys \<le> ed zs ys + 1"
proof (induction rule: one_edit.induct)
  case (insert_char p s c)
  show ?case by (rule ed_close_prefix) (rule ed_shorter)
next
  case (delete_char p c s)
  show ?case by (rule ed_close_prefix) (rule ed_delete_head)
next
  case (change_char p c s d)
  show ?case by (rule ed_close_prefix) (rule ed_change_head)
qed

lemma ed_refl: "ed xs xs = 0"
  by (induction xs) auto

lemma ed_least: "(one_edit ^^ n) xs ys \<Longrightarrow> ed xs ys \<le> n"
proof (induction n arbitrary: xs)
  case 0
  then show ?case by (simp add: ed_refl)
next
  case (Suc n)
  then obtain zs where "one_edit xs zs" "(one_edit ^^ n) zs ys" by (meson relpowp_Suc_D2)
  with Suc.IH [of zs] ed_one_edit [of xs zs ys] show ?case by simp
qed

lemma ed_distance: "ed xs ys = edit_distance xs ys"
  unfolding edit_distance_def using ed_edits ed_least by (metis Least_equality)

lemma one_edit_rev: "one_edit xs ys \<Longrightarrow> one_edit (rev xs) (rev ys)"
proof (induction rule: one_edit.induct)
  case (insert_char p s c)
  show ?case using one_edit.insert_char [of "rev s" "rev p" c] by simp
next
  case (delete_char p c s)
  show ?case using one_edit.delete_char [of "rev s" c "rev p"] by simp
next
  case (change_char p c s d)
  show ?case using one_edit.change_char [of "rev s" c "rev p" d] by simp
qed

lemma edits_rev: "(one_edit ^^ n) xs ys \<Longrightarrow> (one_edit ^^ n) (rev xs) (rev ys)"
  by (induction n arbitrary: ys) (auto intro: one_edit_rev)

lemma ed_rev: "ed (rev xs) (rev ys) = ed xs ys"
proof -
  have "ed (rev us) (rev vs) \<le> ed us vs" for us vs :: "'a list"
    using ed_least [OF edits_rev [OF ed_edits]] .
  from this [of xs ys] this [of "rev xs" "rev ys"] show ?thesis by simp
qed

subsection \<open>The rows of the table\<close>

text \<open>The row of the table for the reversed prefix \<open>u\<close>, from the reversed prefix \<open>w\<close> on.\<close>

fun row :: "'a list \<Rightarrow> 'a list \<Rightarrow> 'a list \<Rightarrow> nat list" where
  "row u w [] = [ed u w]"
| "row u w (b # bs) = ed u w # row u (b # w) bs"

lemma row_Cons: "\<exists>ns. row u w bs = ed u w # ns"
  by (cases bs) auto

lemma lev_row_row: "ed (ca # u) w # lev_row ca bs (row u w bs) (ed (ca # u) w) = row (ca # u) w bs"
proof (induction bs arbitrary: w)
  case (Cons b bs)
  obtain ns where ns: "row u (b # w) bs = ed u (b # w) # ns" using row_Cons by blast
  show ?case using Cons.IH [of "b # w"] by (simp add: ns Let_def)
qed simp

lemma lev_rows_row: "lev_rows a b (length u) (row u [] b) = row (rev a @ u) [] b"
proof (induction a arbitrary: u)
  case (Cons ca a)
  have "Suc (length u) # lev_row ca b (row u [] b) (Suc (length u)) = row (ca # u) [] b"
    using lev_row_row [of ca u "[]" b] by simp
  then show ?case using Cons.IH [of "ca # u"] by simp
qed simp

lemma row_first: "row [] w b = [length w..<length w + length b + 1]"
proof (induction b arbitrary: w)
  case (Cons c b)
  have "[length w..<length w + length (c # b) + 1] = length w # [length (c # w)..<length (c # w) + length b + 1]"
    by (subst upt_conv_Cons) simp_all
  then show ?case using Cons.IH [of "c # w"] by simp
qed simp

lemma row_last: "row u w b ! length b = ed u (rev b @ w)"
  by (induction b arbitrary: w) simp_all

lemma lev_table: "lev_rows a b 0 [0..<length b + 1] ! length b = ed a b"
proof -
  have "lev_rows a b 0 [0..<length b + 1] = row (rev a) [] b"
    using lev_rows_row [of a b "[]"] row_first [of "[]" b] by simp
  then show ?thesis by (simp add: row_last ed_rev)
qed

text \<open>
  C15: \<open>levenshtein\<close> is the edit distance: the least number of insertions, deletions and
  substitutions of a character that lead from one text to the other.
\<close>

theorem levenshtein_is_distance:
  "levenshtein a b = edit_distance (utf8_chars a) (utf8_chars b)"
proof -
  have "levenshtein a b = ed (utf8_chars a) (utf8_chars b)"
    using lev_table [of "utf8_chars a" "utf8_chars b"]
    by (simp add: levenshtein_def ed_refl Let_def)
  then show ?thesis by (simp add: ed_distance)
qed

text \<open>
  A token of one character is within two edits of every keyword of two: the parser suggests \<open>if\<close>
  for an opening brace.
\<close>

theorem brace_suggests_if: "suggest_near_miss ''{'' keywords_list = Some ''if''"
  by code_simp

end
