(* ===== verification/Adgl_Lexer.thy ===== *)
theory Adgl_Lexer
  imports Adgl_Token
begin

text \<open>
  The lexer of crates/airpulse\_dsl-syntax/src/parser.rs. A lexer holds the byte position and the
  rest of the source from there (\<open>rest()\<close>); \<open>tw\<close> is winnow's \<open>take_while(1.., pred)\<close>, the one
  function of another package it calls: it returns the longest prefix whose characters satisfy the
  predicate, and fails when that is empty.
\<close>

record lexer =
  lx_pos :: nat
  lx_rest :: string
  lx_pending :: "trivia list"

type_synonym run_taker = "(char \<Rightarrow> bool) \<Rightarrow> string \<Rightarrow> string option"

definition takes_runs :: "run_taker \<Rightarrow> bool" where
  "takes_runs tw = (\<forall>p s. tw p s = (if takeWhile p s = [] then None else Some (takeWhile p s)))"

definition lexer_new :: "string \<Rightarrow> lexer" where
  "lexer_new src = \<lparr>lx_pos = 0, lx_rest = src, lx_pending = []\<rparr>"

definition lx_eof :: "lexer \<Rightarrow> bool" where
  "lx_eof lx = (lx_rest lx = [])"

definition lx_advance :: "nat \<Rightarrow> lexer \<Rightarrow> lexer" where
  "lx_advance n lx = lx\<lparr>lx_pos := lx_pos lx + n, lx_rest := drop n (lx_rest lx)\<rparr>"

definition peek_char :: "lexer \<Rightarrow> string option" where
  "peek_char lx = (case lx_rest lx of [] \<Rightarrow> None | c # _ \<Rightarrow> Some (take (utf8_len c) (lx_rest lx)))"

definition bump_char :: "lexer \<Rightarrow> string option \<times> lexer" where
  "bump_char lx = (case peek_char lx of None \<Rightarrow> (None, lx) | Some ch \<Rightarrow> (Some ch, lx_advance (length ch) lx))"

definition trivia_before_next_token :: "lexer \<Rightarrow> trivia list \<times> lexer" where
  "trivia_before_next_token lx = (lx_pending lx, lx\<lparr>lx_pending := []\<rparr>)"

definition push_trivia :: "trivia_kind \<Rightarrow> nat \<Rightarrow> lexer \<Rightarrow> lexer" where
  "push_trivia k n lx = (let lx' = lx_advance n lx in
     lx'\<lparr>lx_pending := lx_pending lx @
       [\<lparr>tv_kind = k, tv_span = span_new (lx_pos lx) (lx_pos lx'), tv_text = take n (lx_rest lx)\<rparr>]\<rparr>)"

lemma lx_simps [simp]:
  "lx_pos (lx_advance n lx) = lx_pos lx + n"
  "lx_rest (lx_advance n lx) = drop n (lx_rest lx)"
  "lx_pending (lx_advance n lx) = lx_pending lx"
  "lx_pos (push_trivia k n lx) = lx_pos lx + n"
  "lx_rest (push_trivia k n lx) = drop n (lx_rest lx)"
  by (simp_all add: lx_advance_def push_trivia_def Let_def)

subsection \<open>White space and comments\<close>

definition is_skip :: "char \<Rightarrow> bool" where
  "is_skip c = (c = CHR '' '' \<or> c = CHR 0x09 \<or> c = CHR 0x0D \<or> c = CHR 0x0A)"

text \<open>What precedes the closing \<open>*/\<close>, or everything.\<close>

fun comment_body :: "string \<Rightarrow> string" where
  "comment_body (a # b # s) =
     (if a = CHR ''*'' \<and> b = CHR ''/'' then [] else a # comment_body (b # s))"
| "comment_body s = s"

lemma length_comment_body: "length (comment_body s) \<le> length s"
  by (induction s rule: comment_body.induct) auto

lemma line_comment_nonempty:
  "has_prefix r ''//'' \<Longrightarrow> 0 < length (takeWhile (\<lambda>c. c \<noteq> CHR 0x0A) r)"
  by (cases r) (auto simp: has_prefix_def)

lemma has_prefix_nonempty: "has_prefix r p \<Longrightarrow> p \<noteq> [] \<Longrightarrow> r \<noteq> []"
  by (auto simp: has_prefix_def)

lemma has_prefix_length: "has_prefix r p \<Longrightarrow> length p \<le> length r"
  by (metis length_take min.cobounded1 has_prefix_def)

function skip_loop :: "lexer \<Rightarrow> parse_err + lexer" where
  "skip_loop lx =
     (let n = length (takeWhile is_skip (lx_rest lx)); lx1 = lx_advance n lx; r = lx_rest lx1 in
      if has_prefix r ''//'' then
        (let t = takeWhile (\<lambda>c. c \<noteq> CHR 0x0A) r
         in skip_loop (push_trivia (classify_line_comment t) (length t) lx1))
      else if has_prefix r ''/*'' then
        (let m = 2 + length (comment_body (drop 2 r)) in
         if drop m r = [] then
           Inl (parse_err_new ''ADGL0106'' ''unclosed block comment'' ''closing */''
                  (span_new (lx_pos lx1) (lx_pos lx1 + 2)))
         else skip_loop (push_trivia BlockComment (m + 2) lx1))
      else if n > 0 then skip_loop lx1 else Inr lx1)"
  by pat_completeness auto

termination
proof (relation "measure (\<lambda>lx. length (lx_rest lx))", goal_cases)
  case 1
  then show ?case by simp
next
  case (2 lx n lx1 r t)
  then have "r \<noteq> []" using has_prefix_nonempty by blast
  moreover have "0 < length t" using line_comment_nonempty [of r] 2(4,5) by simp
  ultimately show ?case using 2 by (auto simp: Let_def intro!: diff_less)
next
  case (3 lx n lx1 r m)
  then have "r \<noteq> []" using has_prefix_nonempty by blast
  with 3 show ?case by (auto simp: Let_def)
next
  case (4 lx n lx1 r)
  then show ?case by (auto simp: Let_def) 
    (metis diff_less length_greater_0_conv list.size(3) takeWhile.simps(1))
qed

declare skip_loop.simps [simp del]

definition skip_ws_and_comments :: "lexer \<Rightarrow> parse_err + lexer" where
  "skip_ws_and_comments lx = skip_loop (lx\<lparr>lx_pending := []\<rparr>)"

subsection \<open>Tokens\<close>

definition mk_token :: "token_kind \<Rightarrow> nat \<Rightarrow> lexer \<Rightarrow> token \<times> lexer" where
  "mk_token k start lx = (\<lparr>tk_kind = k, tk_span = span_new start (lx_pos lx), tk_leading = []\<rparr>, lx)"

definition take_run :: "run_taker \<Rightarrow> string \<Rightarrow> (char \<Rightarrow> bool) \<Rightarrow> unit + string" where
  "take_run tw inp p = (case tw p inp of Some r \<Rightarrow> Inr r | None \<Rightarrow> Inl ())"

definition builtin_idents :: "string list" where
  "builtin_idents = [''__watermark'', ''__scope'', ''__confidence'', ''__ruleset_version'']"

definition lex_ident_or_kw :: "run_taker \<Rightarrow> nat \<Rightarrow> lexer \<Rightarrow> parse_err + token \<times> lexer" where
  "lex_ident_or_kw tw start lx =
     (case take_run tw (lx_rest lx) is_ident_continue of
        Inl _ \<Rightarrow> Inl (parse_err_new ''ADGL0100'' ''malformed identifier'' ''identifier''
                        (span_new start (start + 1)))
      | Inr parsed \<Rightarrow>
          if length parsed > 255 then
            Inl (parse_err_new ''ADGL0101'' ''identifier exceeds 255 bytes''
                   ''identifier length <= 255'' (span_new start (start + length parsed)))
          else if has_prefix parsed ''__'' \<and> parsed \<notin> set builtin_idents then
            Inl (parse_err_new ''ADGL0104'' (''identifier prefix '' @ [CHR 0x27] @ ''__'' @ [CHR 0x27] @ '' is reserved'')
                   ''builtin identifier'' (span_new start (start + length parsed)))
          else Inr (mk_token (if parsed \<in> set keywords_list then TKw (keyword_static parsed) else TIdent parsed)
                      start (lx_advance (length parsed) lx)))"

function trim_start_matches :: "string \<Rightarrow> string \<Rightarrow> string" where
  "trim_start_matches p s =
     (if p \<noteq> [] \<and> has_prefix s p then trim_start_matches p (drop (length p) s) else s)"
  by pat_completeness auto
termination
proof (relation "measure (\<lambda>(p, s). length s)", goal_cases)
  case (2 p s)
  then have "0 < length p" "length p \<le> length s" using has_prefix_length by auto
  then have "length s - length p < length s" by linarith
  then show ?case by simp
qed simp

declare trim_start_matches.simps [simp del]

text \<open>\<open>i64::from_str_radix\<close> on text without a sign.\<close>

definition i64_from_radix :: "nat \<Rightarrow> string \<Rightarrow> int option" where
  "i64_from_radix radix s =
     (if s = [] \<or> list_ex (\<lambda>c. to_digit radix c = None) s then None
      else let v = fold (\<lambda>c acc. acc * radix + the (to_digit radix c)) s 0
           in if v < 2 ^ 63 then Some (int v) else None)"

text \<open>The lexeme of a number and its radix.\<close>

definition number_lexeme :: "string \<Rightarrow> string \<times> nat" where
  "number_lexeme rest =
     (if has_prefix rest ''0x'' \<or> has_prefix rest ''0X''
      then (take 2 rest @ takeWhile (\<lambda>c. is_ascii_hexdigit c \<or> c = CHR ''_'') (drop 2 rest), 16)
      else if has_prefix rest ''0b'' \<or> has_prefix rest ''0B''
      then (take 2 rest @ takeWhile (\<lambda>c. c = CHR ''0'' \<or> c = CHR ''1'' \<or> c = CHR ''_'') (drop 2 rest), 2)
      else (takeWhile (\<lambda>c. is_ascii_digit c \<or> c = CHR ''_'') rest, 10))"

definition number_value :: "string \<Rightarrow> nat \<Rightarrow> int option" where
  "number_value lexeme radix =
     (let digits = filter (\<lambda>c. c \<noteq> CHR ''_'') lexeme in
      if radix = 10 then i64_from_radix 10 digits
      else i64_from_radix radix
             (trim_start_matches ''0B'' (trim_start_matches ''0b''
               (trim_start_matches ''0X'' (trim_start_matches ''0x'' digits)))))"

definition starts_ident_continue :: "string \<Rightarrow> nat \<Rightarrow> bool" where
  "starts_ident_continue s i = (case drop i s of [] \<Rightarrow> False | c # _ \<Rightarrow> is_ident_continue c)"

definition lex_number_or_duration :: "nat \<Rightarrow> lexer \<Rightarrow> parse_err + token \<times> lexer" where
  "lex_number_or_duration start lx =
     (let rest = lx_rest lx; (lexeme, radix) = number_lexeme rest; stop = length lexeme in
      if stop = 0 then
        Inl (parse_err_new ''ADGL0100'' ''malformed number'' ''integer literal'' (span_new start (start + 1)))
      else (case number_value lexeme radix of
        None \<Rightarrow> Inl (parse_err_new ''ADGL0100'' ''integer literal out of range'' ''i64 integer literal''
                       (span_new start (start + stop)))
      | Some v \<Rightarrow>
          let unit_rest = drop stop rest in
          if has_prefix unit_rest ''ms'' then Inr (mk_token (TDuration v) start (lx_advance (stop + 2) lx))
          else if has_prefix unit_rest ''s'' \<and> \<not> starts_ident_continue unit_rest 1 then
            Inr (mk_token (TDuration (i64_saturate (v * 1000))) start (lx_advance (stop + 1) lx))
          else if has_prefix unit_rest ''min'' then
            Inr (mk_token (TDuration (i64_saturate (v * 60000))) start (lx_advance (stop + 3) lx))
          else if has_prefix unit_rest ''m'' then
            Inl (parse_err_new ''ADGL0110'' ''malformed duration unit'' ''duration unit: ms, s, min''
                   (span_new start (start + stop + length (concat (take 3 (utf8_chars unit_rest))))))
          else Inr (mk_token (TInt v) start (lx_advance stop lx))))"

text \<open>\<open>u8::from_str_radix\<close> on two characters: a leading plus sign is accepted.\<close>

definition hex_byte :: "string \<Rightarrow> string \<Rightarrow> nat option" where
  "hex_byte hi lo =
     (case (hi, lo) of
        ([h], [l]) \<Rightarrow>
          (case to_digit 16 l of
             None \<Rightarrow> None
           | Some b \<Rightarrow> if h = CHR ''+'' then Some b
                       else (case to_digit 16 h of None \<Rightarrow> None | Some a \<Rightarrow> Some (16 * a + b)))
      | _ \<Rightarrow> None)"

text \<open>\<open>b as char\<close>, a code point below 256, as UTF-8.\<close>

definition latin1_utf8 :: "nat \<Rightarrow> string" where
  "latin1_utf8 b = (if b < 128 then [char_of b] else [char_of (192 + b div 64), char_of (128 + b mod 64)])"

text \<open>What an escape stands for, after the backslash.\<close>

definition lex_escape :: "nat \<Rightarrow> lexer \<Rightarrow> parse_err + string \<times> lexer" where
  "lex_escape start lx =
     (case bump_char lx of
        (None, lx1) \<Rightarrow> Inl (parse_err_new ''ADGL0100'' ''unterminated string'' ''closing quote''
                              (span_new start (lx_pos lx1)))
      | (Some ch, lx1) \<Rightarrow>
          if ch = ''n'' then Inr ([CHR 0x0A], lx1)
          else if ch = ''t'' then Inr ([CHR 0x09], lx1)
          else if ch = ''r'' then Inr ([CHR 0x0D], lx1)
          else if ch = ''0'' then Inr ([CHR 0x00], lx1)
          else if ch = [CHR 0x22] then Inr ([CHR 0x22], lx1)
          else if ch = [CHR 0x5C] then Inr ([CHR 0x5C], lx1)
          else if ch = ''x'' then
            (let incomplete = (\<lambda>lx. parse_err_new ''ADGL0100'' ''incomplete hex escape'' ''two hex digits''
                                     (span_new start (lx_pos lx))) in
             case bump_char lx1 of
               (None, lx2) \<Rightarrow> Inl (incomplete lx2)
             | (Some hi, lx2) \<Rightarrow>
                 (case bump_char lx2 of
                    (None, lx3) \<Rightarrow> Inl (incomplete lx3)
                  | (Some lo, lx3) \<Rightarrow>
                      (case hex_byte hi lo of
                         None \<Rightarrow> Inl (parse_err_new ''ADGL0100'' ''invalid hex escape'' [CHR 0x5C, CHR ''x'', CHR ''H'', CHR ''H'']
                                        (span_new start (lx_pos lx3)))
                       | Some b \<Rightarrow> Inr (latin1_utf8 b, lx3))))
          else Inl (parse_err_new ''ADGL0100'' (''unknown escape '' @ [CHR 0x27, CHR 0x5C] @ ch @ [CHR 0x27])
                      ''valid string escape'' (span_new start (lx_pos lx1))))"

lemma bump_char_shorter: "bump_char lx = (Some ch, lx') \<Longrightarrow> length (lx_rest lx') < length (lx_rest lx)"
  by (auto simp: bump_char_def peek_char_def split: list.splits intro!: diff_less)

lemma bump_char_not_longer: "bump_char lx = (m, lx') \<Longrightarrow> length (lx_rest lx') \<le> length (lx_rest lx)"
  by (auto simp: bump_char_def peek_char_def split: list.splits)

lemma lex_escape_shorter:
  "lex_escape start lx = Inr (esc, lx') \<Longrightarrow> length (lx_rest lx') < length (lx_rest lx)"
  by (auto simp: lex_escape_def Let_def split: prod.splits option.splits if_splits
      dest!: bump_char_shorter)

text \<open>The loop of \<open>lex_string\<close>, after the opening quote.\<close>

function lex_string_loop :: "nat \<Rightarrow> lexer \<Rightarrow> string \<Rightarrow> parse_err + token \<times> lexer" where
  "lex_string_loop start lx out =
     (case bump_char lx of
        (None, lx1) \<Rightarrow> Inl (parse_err_new ''ADGL0100'' ''unterminated string'' ''closing quote''
                              (span_new start (lx_pos lx1)))
      | (Some ch, lx1) \<Rightarrow>
          if ch = [CHR 0x22] then Inr (mk_token (TString out) start lx1)
          else if ch = [CHR 0x5C] then
            (case lex_escape start lx1 of
               Inl e \<Rightarrow> Inl e
             | Inr (esc, lx2) \<Rightarrow> lex_string_loop start lx2 (out @ esc))
          else lex_string_loop start lx1 (out @ ch))"
  by pat_completeness auto
termination
proof (relation "measure (\<lambda>(start, lx, out). length (lx_rest lx))", goal_cases)
  case (2 start lx out m lx1 ch y esc lx2)
  then show ?case using bump_char_shorter [of lx ch lx1] lex_escape_shorter by fastforce
next
  case (3 start lx out m lx1 ch)
  then show ?case using bump_char_shorter [of lx ch lx1] by simp
qed simp

declare lex_string_loop.simps [simp del]

definition lex_string :: "nat \<Rightarrow> lexer \<Rightarrow> parse_err + token \<times> lexer" where
  "lex_string start lx = lex_string_loop start (snd (bump_char lx)) []"

definition two_char_tokens :: "(string \<times> token_kind) list" where
  "two_char_tokens = [(''&&'', TAndAnd), (''||'', TOrOr), (''=='', TEqEq), (''!='', TNe), (''<='', TLe), (''>='', TGe)]"

definition one_char_tokens :: "(char \<times> token_kind) list" where
  "one_char_tokens =
    [(CHR ''{'', TLBrace), (CHR ''}'', TRBrace), (CHR ''('', TLParen), (CHR '')'', TRParen),
     (CHR ''['', TLBracket), (CHR '']'', TRBracket), (CHR '':'', TColon), (CHR '','', TComma),
     (CHR ''.'', TDot), (CHR ''='', TEq), (CHR ''+'', TPlus), (CHR ''-'', TMinus), (CHR ''*'', TStar),
     (CHR ''/'', TSlash), (CHR ''%'', TPercent), (CHR ''!'', TBang), (CHR ''<'', TLt), (CHR ''>'', TGt)]"

definition next_token :: "run_taker \<Rightarrow> lexer \<Rightarrow> parse_err + token \<times> lexer" where
  "next_token tw lx =
     (let start = lx_pos lx; rest = lx_rest lx in
      case find (\<lambda>(s, k). has_prefix rest s) two_char_tokens of
        Some (s, k) \<Rightarrow> Inr (mk_token k start (lx_advance 2 lx))
      | None \<Rightarrow>
          (case rest of
             [] \<Rightarrow> Inr (mk_token TEof start lx)
           | c # _ \<Rightarrow>
               (case map_of one_char_tokens c of
                  Some k \<Rightarrow> Inr (mk_token k start (lx_advance 1 lx))
                | None \<Rightarrow>
                    if c = CHR 0x22 then lex_string start lx
                    else if is_ascii_digit c then lex_number_or_duration start lx
                    else if is_ident_start c then lex_ident_or_kw tw start lx
                    else Inl (parse_err_new ''ADGL0100'' ''unexpected character'' ''token''
                                (span_new start (lx_pos (snd (bump_char lx))))))))"

subsection \<open>The tokenizer\<close>

definition max_source :: nat where
  "max_source = 4 * 1024 * 1024"

definition max_nesting :: nat where
  "max_nesting = 64"

text \<open>The bracket depth after a token; \<open>None\<close> when it exceeds the limit.\<close>

definition nest :: "token_kind \<Rightarrow> nat \<Rightarrow> nat option" where
  "nest k depth =
     (if k \<in> {TLBrace, TLParen, TLBracket} then if depth + 1 > max_nesting then None else Some (depth + 1)
      else if k \<in> {TRBrace, TRParen, TRBracket} then Some (depth - 1)
      else Some depth)"

text \<open>The loop of \<open>tokenize\<close>; \<open>None\<close> is a loop that does not end.\<close>

partial_function (option) tok_loop ::
  "run_taker \<Rightarrow> lexer \<Rightarrow> nat \<Rightarrow> token list \<Rightarrow> (parse_err + token list) option" where
  "tok_loop tw lx depth out =
     (if lx_eof lx then Some (Inr out)
      else case skip_ws_and_comments lx of
        Inl e \<Rightarrow> Some (Inl e)
      | Inr lx1 \<Rightarrow>
          if lx_eof lx1 then Some (Inr out)
          else let (leading, lx2) = trivia_before_next_token lx1 in
            (case next_token tw lx2 of
               Inl e \<Rightarrow> Some (Inl e)
             | Inr (tok, lx3) \<Rightarrow>
                 (case nest (tk_kind tok) depth of
                    None \<Rightarrow> Some (Inl (parse_err_new ''ADGL0103'' ''nesting depth exceeds 64''
                                         ''nesting depth <= 64'' (tk_span tok)))
                  | Some depth' \<Rightarrow> tok_loop tw lx3 depth' (out @ [tok\<lparr>tk_leading := leading\<rparr>]))))"

declare tok_loop.simps [code]

definition eof_token :: "string \<Rightarrow> token" where
  "eof_token src = \<lparr>tk_kind = TEof, tk_span = span_new (length src) (length src), tk_leading = []\<rparr>"

definition tokenize :: "run_taker \<Rightarrow> string \<Rightarrow> (parse_err + token list) option" where
  "tokenize tw src =
     (if length src > max_source then
        Some (Inl (parse_err_new ''ADGL0102'' ''source exceeds 4 MiB limit'' ''input <= 4 MiB''
                     (span_new 0 (length src))))
      else map_option (map_sum id (\<lambda>out. out @ [eof_token src])) (tok_loop tw (lexer_new src) 0 []))"

end
