(* ===== verification/Adgl_Parser.thy ===== *)
theory Adgl_Parser
  imports Adgl_Lexer
begin

text \<open>
  The parser state of crates/airpulse\_dsl-syntax/src/parser.rs (\<open>ParserState\<close>), its primitives and
  the expression ladder. A parser maps a state to what it parsed and the state after, or to an
  error and the state at the error (recovery continues from there), or is stuck: it would panic,
  or not return. Loops and recursions carry a bound, the number of tokens; that they never
  exhaust it is proved in \<open>Adgl_Parser_Total\<close>.
\<close>

subsection \<open>State and outcomes\<close>

record pstate =
  ps_tokens :: "token list"
  ps_idx :: nat
  ps_brace_depth :: nat
  ps_recover :: bool
  ps_diags :: diag_buffer

datatype 'a outcome = Parsed 'a pstate | Rejected parse_err pstate | Stuck

type_synonym 'a parser = "pstate \<Rightarrow> 'a outcome"

definition pstate_new :: "token list \<Rightarrow> pstate" where
  "pstate_new ts = \<lparr>ps_tokens = ts, ps_idx = 0, ps_brace_depth = 0, ps_recover = False, ps_diags = []\<rparr>"

definition p_return :: "'a \<Rightarrow> 'a parser" where
  "p_return x s = Parsed x s"

definition p_fail :: "parse_err \<Rightarrow> 'a parser" where
  "p_fail e s = Rejected e s"

definition p_stuck :: "'a parser" where
  "p_stuck s = Stuck"

text \<open>The operator \<open>?\<close>.\<close>

definition p_bind :: "'a parser \<Rightarrow> ('a \<Rightarrow> 'b parser) \<Rightarrow> 'b parser" where
  "p_bind p f s = (case p s of Parsed x s' \<Rightarrow> f x s' | Rejected e s' \<Rightarrow> Rejected e s' | Stuck \<Rightarrow> Stuck)"

definition peek_token :: "pstate \<Rightarrow> token" where
  "peek_token s = ps_tokens s ! min (ps_idx s) (length (ps_tokens s) - 1)"

definition peek_kind :: "pstate \<Rightarrow> token_kind" where
  "peek_kind s = tk_kind (peek_token s)"

definition peek_span :: "pstate \<Rightarrow> span" where
  "peek_span s = tk_span (peek_token s)"

definition next_state :: "pstate \<Rightarrow> pstate" where
  "next_state s =
     (if ps_idx s + 1 < length (ps_tokens s) then
        s\<lparr>ps_brace_depth := (case peek_kind s of
              TLBrace \<Rightarrow> ps_brace_depth s + 1
            | TRBrace \<Rightarrow> ps_brace_depth s - 1
            | _ \<Rightarrow> ps_brace_depth s),
          ps_idx := ps_idx s + 1\<rparr>
      else s)"

definition p_next :: "unit parser" where
  "p_next s = Parsed () (next_state s)"

definition p_peek :: "token parser" where
  "p_peek s = Parsed (peek_token s) s"

text \<open>A branch on the kind of the next token.\<close>

definition p_if :: "(token_kind \<Rightarrow> bool) \<Rightarrow> 'a parser \<Rightarrow> 'a parser \<Rightarrow> 'a parser" where
  "p_if c p q s = (if c (peek_kind s) then p s else q s)"

definition prev_end :: "nat parser" where
  "prev_end s =
     Parsed (if ps_idx s = 0 then 0 else sp_stop (tk_span (ps_tokens s ! (ps_idx s - 1)))) s"

definition record_error :: "parse_err \<Rightarrow> pstate \<Rightarrow> pstate" where
  "record_error e s = s\<lparr>ps_diags := ps_diags s @ [diag_of e]\<rparr>"

subsection \<open>Consuming tokens\<close>

definition p_err :: "string \<Rightarrow> string \<Rightarrow> string \<Rightarrow> pstate \<Rightarrow> parse_err" where
  "p_err code message expected s = parse_err_new code message expected (peek_span s)"

definition help_if :: "string option \<Rightarrow> parse_err \<Rightarrow> parse_err" where
  "help_if m e = (case m of Some c \<Rightarrow> with_help e (help_did_you_mean c) | None \<Rightarrow> e)"

definition quoted :: "string \<Rightarrow> string" where
  "quoted w = [CHR 0x27] @ w @ [CHR 0x27]"

definition consume_kw :: "string \<Rightarrow> span parser" where
  "consume_kw kw s =
     (if peek_kind s = TKw kw then Parsed (peek_span s) (next_state s)
      else let found = describe_token_kind (peek_kind s);
               err = with_found (p_err ''ADGL0100'' (''expected keyword '' @ quoted kw) kw s) found
           in Rejected (help_if (case suggest_near_miss found [kw] of
                                   Some c \<Rightarrow> Some c
                                 | None \<Rightarrow> suggest_near_miss found keywords_list) err) s)"

definition consume_word_exact :: "string \<Rightarrow> span parser" where
  "consume_word_exact w s =
     (if peek_kind s = TIdent w \<or> peek_kind s = TKw w then Parsed (peek_span s) (next_state s)
      else let found = describe_token_kind (peek_kind s);
               err = with_found (p_err ''ADGL0100'' (''expected '' @ quoted w) w s) found
           in Rejected (help_if (suggest_near_miss found [w]) err) s)"

definition colon_help :: string where
  "colon_help = ''expected `:` after field name''"

definition consume_kind :: "string \<Rightarrow> (token_kind \<Rightarrow> bool) \<Rightarrow> token parser" where
  "consume_kind expected pred s =
     (if pred (peek_kind s) then Parsed (peek_token s) (next_state s)
      else let found = describe_token_kind (peek_kind s);
               err = with_found (p_err ''ADGL0100'' ''unexpected token'' expected s) found
           in Rejected (if expected = '':'' then with_help err colon_help
                        else help_if (suggest_near_miss found keywords_list) err) s)"

definition consume_punct :: "token_kind \<Rightarrow> string \<Rightarrow> span parser" where
  "consume_punct k expected s =
     (if peek_kind s = k then Parsed (peek_span s) (next_state s)
      else let found = describe_token_kind (peek_kind s);
               err = with_found (p_err ''ADGL0100'' ''unexpected token'' expected s) found
           in Rejected
                (if expected = ''}'' then
                   help_if (suggest_near_miss found
                     [''evidence'', ''decision'', ''mutually_exclusive'', ''requires'', ''version'']) err
                 else if expected = '':'' then with_help err colon_help
                 else if expected = ''='' then with_help err ''expected `=` in assignment''
                 else help_if (suggest_near_miss found keywords_list) err) s)"

subsection \<open>Loops\<close>

text \<open>The bound of a loop or a recursion: the number of tokens.\<close>

definition p_fuel :: "pstate \<Rightarrow> nat" where
  "p_fuel s = length (ps_tokens s)"

text \<open>\<open>while c(self.peek_kind()) { acc.push(p()?) }\<close>.\<close>

fun p_while_loop :: "nat \<Rightarrow> (token_kind \<Rightarrow> bool) \<Rightarrow> 'a parser \<Rightarrow> 'a list \<Rightarrow> 'a list parser" where
  "p_while_loop n c p acc s =
     (if c (peek_kind s) then
        if n = 0 then Stuck else p_bind p (\<lambda>x. p_while_loop (n - 1) c p (acc @ [x])) s
      else Parsed acc s)"

declare p_while_loop.simps [simp del]

definition p_while :: "(token_kind \<Rightarrow> bool) \<Rightarrow> 'a parser \<Rightarrow> 'a list \<Rightarrow> 'a list parser" where
  "p_while c p acc s = p_while_loop (p_fuel s) c p acc s"

text \<open>Items separated by commas: \<open>acc.push(p()?); while Comma { next; acc.push(p()?) }\<close>.\<close>

definition p_comma_list :: "'a parser \<Rightarrow> 'a list parser" where
  "p_comma_list p = p_bind p (\<lambda>x. p_while (\<lambda>k. k = TComma) (p_bind p_next (\<lambda>_. p)) [x])"

definition p_list_until :: "token_kind \<Rightarrow> 'a parser \<Rightarrow> 'a list parser" where
  "p_list_until close p = p_if (\<lambda>k. k = close) (p_return []) (p_comma_list p)"

subsection \<open>Words and literals\<close>

definition is_word :: "token_kind \<Rightarrow> bool" where
  "is_word k = (case k of TIdent _ \<Rightarrow> True | TKw _ \<Rightarrow> True | _ \<Rightarrow> False)"

definition soft_keywords :: "string list" where
  "soft_keywords = [''event'', ''Cause'', ''Problem'']"

definition parse_string_lit :: "string_lit parser" where
  "parse_string_lit =
     p_bind (consume_kind ''string literal'' (\<lambda>k. case k of TString _ \<Rightarrow> True | _ \<Rightarrow> False)) (\<lambda>tok.
       case tk_kind tok of
         TString v \<Rightarrow> p_return \<lparr>sl_value = v, sl_span = tk_span tok\<rparr>
       | _ \<Rightarrow> p_fail (parse_err_new ''ADGL0100'' ''expected string literal'' ''string literal'' (tk_span tok)))"

definition parse_ident_any :: "ident parser" where
  "parse_ident_any =
     p_bind (consume_kind ''identifier'' is_word) (\<lambda>tok.
       case tk_kind tok of
         TIdent w \<Rightarrow> p_return \<lparr>id_name = w, id_span = tk_span tok\<rparr>
       | TKw w \<Rightarrow>
           if w \<in> set soft_keywords then p_return \<lparr>id_name = w, id_span = tk_span tok\<rparr>
           else p_fail (parse_err_new ''ADGL0100'' ''reserved keyword is not allowed here''
                          ''identifier (non-keyword)'' (tk_span tok))
       | _ \<Rightarrow> p_stuck)"

definition parse_word_any :: "(string \<times> span) parser" where
  "parse_word_any =
     p_bind (consume_kind ''identifier or keyword'' is_word) (\<lambda>tok.
       case tk_kind tok of
         TIdent w \<Rightarrow> p_return (w, tk_span tok)
       | TKw w \<Rightarrow> p_return (w, tk_span tok)
       | _ \<Rightarrow> p_stuck)"

definition parse_ident_non_kw :: "ident parser" where
  "parse_ident_non_kw =
     p_bind (consume_kind ''identifier'' (\<lambda>k. case k of TIdent _ \<Rightarrow> True | _ \<Rightarrow> False)) (\<lambda>tok.
       case tk_kind tok of
         TIdent w \<Rightarrow> p_return \<lparr>id_name = w, id_span = tk_span tok\<rparr>
       | _ \<Rightarrow> p_fail (parse_err_new ''ADGL0100'' ''expected identifier'' ''identifier'' (tk_span tok)))"

subsection \<open>The expression ladder\<close>

text \<open>
  One loop serves the five left-associative levels: the source spells it out in each. \<open>e\<close> is the
  parser of nested expressions, in parentheses, brackets and argument lists.
\<close>

definition binary_expr :: "adgl_binop \<Rightarrow> adgl_expr \<Rightarrow> adgl_expr \<Rightarrow> adgl_expr" where
  "binary_expr op l r = Expr (XBinary op l r) (span_new (sp_start (ex_span l)) (sp_stop (ex_span r)))"

fun binary_loop :: "nat \<Rightarrow> (token_kind \<Rightarrow> adgl_binop option) \<Rightarrow> adgl_expr parser \<Rightarrow> adgl_expr \<Rightarrow> adgl_expr parser" where
  "binary_loop n ops sub left s =
     (case ops (peek_kind s) of
        None \<Rightarrow> Parsed left s
      | Some op \<Rightarrow>
          if n = 0 then Stuck
          else p_bind p_next (\<lambda>_. p_bind sub (\<lambda>right.
                 binary_loop (n - 1) ops sub (binary_expr op left right))) s)"

declare binary_loop.simps [simp del]

definition binary_level :: "(token_kind \<Rightarrow> adgl_binop option) \<Rightarrow> adgl_expr parser \<Rightarrow> adgl_expr parser" where
  "binary_level ops sub = p_bind sub (\<lambda>left s. binary_loop (p_fuel s) ops sub left s)"

definition or_op :: "token_kind \<Rightarrow> adgl_binop option" where
  "or_op k = (if k = TOrOr \<or> k = TKw ''or'' then Some BinOr else None)"

definition and_op :: "token_kind \<Rightarrow> adgl_binop option" where
  "and_op k = (if k = TAndAnd \<or> k = TKw ''and'' then Some BinAnd else None)"

fun equality_op :: "token_kind \<Rightarrow> adgl_binop option" where
  "equality_op TEqEq = Some BinEq"
| "equality_op TNe = Some BinNe"
| "equality_op TLt = Some BinLt"
| "equality_op TLe = Some BinLe"
| "equality_op TGt = Some BinGt"
| "equality_op TGe = Some BinGe"
| "equality_op (TKw k) = (if k = ''in'' then Some BinIn else None)"
| "equality_op _ = None"

fun additive_op :: "token_kind \<Rightarrow> adgl_binop option" where
  "additive_op TPlus = Some BinAdd"
| "additive_op TMinus = Some BinSub"
| "additive_op _ = None"

fun multiplicative_op :: "token_kind \<Rightarrow> adgl_binop option" where
  "multiplicative_op TStar = Some BinMul"
| "multiplicative_op TSlash = Some BinDiv"
| "multiplicative_op TPercent = Some BinRem"
| "multiplicative_op _ = None"

definition parse_paren_expr_list :: "adgl_expr parser \<Rightarrow> adgl_expr list parser" where
  "parse_paren_expr_list e =
     p_bind (consume_punct TLParen ''('') (\<lambda>_.
     p_bind (p_list_until TRParen e) (\<lambda>args.
     p_bind (consume_punct TRParen '')'') (\<lambda>_. p_return args)))"

text \<open>\<open>present(id)\<close> and \<open>absent(id)\<close>.\<close>

definition parse_presence :: "(ident \<Rightarrow> expr_kind) \<Rightarrow> nat \<Rightarrow> adgl_expr parser" where
  "parse_presence mk start =
     p_bind p_next (\<lambda>_.
     p_bind (consume_punct TLParen ''('') (\<lambda>_.
     p_bind parse_ident_any (\<lambda>i.
     p_bind (consume_punct TRParen '')'') (\<lambda>stop.
     p_return (Expr (mk i) (span_new start (sp_stop stop)))))))"

definition primary_error :: "token \<Rightarrow> parse_err" where
  "primary_error tok =
     with_help (with_found (parse_err_new ''ADGL0100'' ''expected expression primary''
       ''literal | identifier | (expr)'' (tk_span tok)) (describe_token_kind (tk_kind tok)))
       ''start an expression with a literal, identifier, or `(`''"

definition parse_primary :: "adgl_expr parser \<Rightarrow> adgl_expr parser" where
  "parse_primary e =
     p_bind p_peek (\<lambda>tok. let sp = tk_span tok; leaf = (\<lambda>x. p_bind p_next (\<lambda>_. p_return (Expr x sp))) in
       case tk_kind tok of
         TInt v \<Rightarrow> leaf (XInt \<lparr>il_value = v, il_span = sp\<rparr>)
       | TDuration v \<Rightarrow> leaf (XDuration \<lparr>dl_millis = v, dl_span = sp\<rparr>)
       | TString v \<Rightarrow> leaf (XString \<lparr>sl_value = v, sl_span = sp\<rparr>)
       | TKw k \<Rightarrow>
           if k = ''true'' then leaf (XBool True)
           else if k = ''false'' then leaf (XBool False)
           else if k = ''present'' then parse_presence XPresent (sp_start sp)
           else if k = ''absent'' then parse_presence XAbsent (sp_start sp)
           else if k \<in> set soft_keywords then leaf (XIdent \<lparr>id_name = k, id_span = sp\<rparr>)
           else p_fail (primary_error tok)
       | TIdent w \<Rightarrow> leaf (XIdent \<lparr>id_name = w, id_span = sp\<rparr>)
       | TLParen \<Rightarrow>
           p_bind p_next (\<lambda>_. p_bind e (\<lambda>x. p_bind (consume_punct TRParen '')'') (\<lambda>_. p_return x)))
       | _ \<Rightarrow> p_fail (primary_error tok))"

text \<open>One round of the loop of \<open>parse_postfix\<close>, when the next token opens a suffix.\<close>

definition parse_suffix :: "adgl_expr parser \<Rightarrow> adgl_expr \<Rightarrow> adgl_expr parser" where
  "parse_suffix e x =
     p_if (\<lambda>k. k = TDot)
       (p_bind p_next (\<lambda>_. p_bind parse_ident_any (\<lambda>f.
          p_return (Expr (XField x f) (span_new (sp_start (ex_span x)) (sp_stop (id_span f)))))))
     (p_if (\<lambda>k. k = TLParen)
       (p_bind (parse_paren_expr_list e) (\<lambda>args. p_bind prev_end (\<lambda>stop.
          p_return (Expr (XCall x args) (span_new (sp_start (ex_span x)) stop)))))
       (p_bind p_next (\<lambda>_. p_bind e (\<lambda>i. p_bind (consume_punct TRBracket '']'') (\<lambda>stop.
          p_return (Expr (XIndex x i) (span_new (sp_start (ex_span x)) (sp_stop stop))))))))"

definition opens_suffix :: "token_kind \<Rightarrow> bool" where
  "opens_suffix k = (k = TDot \<or> k = TLParen \<or> k = TLBracket)"

fun postfix_loop :: "nat \<Rightarrow> adgl_expr parser \<Rightarrow> adgl_expr \<Rightarrow> adgl_expr parser" where
  "postfix_loop n e x s =
     (if opens_suffix (peek_kind s) then
        if n = 0 then Stuck else p_bind (parse_suffix e x) (\<lambda>y. postfix_loop (n - 1) e y) s
      else Parsed x s)"

declare postfix_loop.simps [simp del]

definition parse_postfix :: "adgl_expr parser \<Rightarrow> adgl_expr parser" where
  "parse_postfix e = p_bind (parse_primary e) (\<lambda>x s. postfix_loop (p_fuel s) e x s)"

text \<open>\<open>parse_unary\<close> calls itself once for every negation; \<open>n\<close> bounds that depth.\<close>

fun unary_depth :: "nat \<Rightarrow> adgl_expr parser \<Rightarrow> adgl_expr parser" where
  "unary_depth n e s =
     (if peek_kind s = TBang \<or> peek_kind s = TKw ''not'' then
        if n = 0 then Stuck
        else p_bind p_next (\<lambda>_. p_bind (unary_depth (n - 1) e) (\<lambda>inner.
               p_return (Expr (XUnary UnNot inner)
                 (span_new (sp_start (peek_span s)) (sp_stop (ex_span inner)))))) s
      else parse_postfix e s)"

declare unary_depth.simps [simp del]

definition parse_unary :: "adgl_expr parser \<Rightarrow> adgl_expr parser" where
  "parse_unary e s = unary_depth (p_fuel s) e s"

definition parse_multiplicative :: "adgl_expr parser \<Rightarrow> adgl_expr parser" where
  "parse_multiplicative e = binary_level multiplicative_op (parse_unary e)"

definition parse_additive_with :: "adgl_expr parser \<Rightarrow> adgl_expr parser" where
  "parse_additive_with e = binary_level additive_op (parse_multiplicative e)"

definition parse_equality :: "adgl_expr parser \<Rightarrow> adgl_expr parser" where
  "parse_equality e = binary_level equality_op (parse_additive_with e)"

definition parse_logic_and :: "adgl_expr parser \<Rightarrow> adgl_expr parser" where
  "parse_logic_and e = binary_level and_op (parse_equality e)"

definition parse_logic_or :: "adgl_expr parser \<Rightarrow> adgl_expr parser" where
  "parse_logic_or e = binary_level or_op (parse_logic_and e)"

text \<open>\<open>parse_expr\<close>, with the depth of nested expressions bounded by \<open>n\<close>.\<close>

fun expr_at_depth :: "nat \<Rightarrow> adgl_expr parser" where
  "expr_at_depth n s = (if n = 0 then Stuck else parse_logic_or (expr_at_depth (n - 1)) s)"

declare expr_at_depth.simps [simp del]

definition parse_expr :: "adgl_expr parser" where
  "parse_expr s = expr_at_depth (p_fuel s) s"

definition parse_additive :: "adgl_expr parser" where
  "parse_additive s = parse_additive_with (expr_at_depth (p_fuel s)) s"

text \<open>\<open>parse_expression\<close>: \<open>None\<close> is a panic or a run that does not end.\<close>

definition parse_expression :: "run_taker \<Rightarrow> string \<Rightarrow> (diag_buffer + adgl_expr) option" where
  "parse_expression tw src =
     (case tokenize tw src of
        None \<Rightarrow> None
      | Some (Inl e) \<Rightarrow> Some (Inl (diag_from_err e))
      | Some (Inr ts) \<Rightarrow>
          (case parse_expr (pstate_new ts) of
             Stuck \<Rightarrow> None
           | Rejected e s \<Rightarrow> Some (Inl (diag_from_err e))
           | Parsed x s \<Rightarrow>
               if peek_kind s \<noteq> TEof
               then Some (Inl (diag_from_err (p_err ''ADGL0100'' ''unexpected trailing tokens'' ''end of input'' s)))
               else Some (Inr x)))"

end
