(* ===== verification/Adgl_Productions.thy ===== *)
theory Adgl_Productions
  imports Adgl_Parser
begin

text \<open>
  The declaration, rule and statement productions of crates/airpulse\_dsl-syntax/src/parser.rs,
  error recovery, and \<open>parse_ruleset\<close>, in the order of the source from the leaves up.
\<close>

abbreviation p_then :: "'a parser \<Rightarrow> 'b parser \<Rightarrow> 'b parser" where
  "p_then p q \<equiv> p_bind p (\<lambda>_. q)"

subsection \<open>Names\<close>

definition parse_ref_list :: "ident list parser" where
  "parse_ref_list =
     p_then (consume_punct TLBracket ''['')
     (p_bind (p_list_until TRBracket parse_ident_any) (\<lambda>refs.
      p_then (consume_punct TRBracket '']'') (p_return refs)))"

definition scope_of_name :: "string \<Rightarrow> scope_type option" where
  "scope_of_name w =
     map_of [(''Session'', Session), (''Port'', Port), (''ClientMac'', ClientMac), (''Vlan'', Vlan),
             (''AccessPoint'', AccessPoint), (''Global'', Global)] w"

definition parse_scope_type :: "scope_type parser" where
  "parse_scope_type =
     p_bind parse_ident_any (\<lambda>i.
       case scope_of_name (id_name i) of
         Some sc \<Rightarrow> p_return sc
       | None \<Rightarrow> p_fail (parse_err_new ''ADGL0100'' ''invalid scope type''
                   ''Session | Port | ClientMac | Vlan | AccessPoint | Global'' (id_span i)))"

definition severity_of_name :: "string \<Rightarrow> severity option" where
  "severity_of_name w =
     map_of [(''Critical'', Critical), (''High'', High), (''Medium'', Medium), (''Low'', Low),
             (''Recommended'', Recommended), (''Optional'', Optional)] w"

definition parse_severity :: "severity parser" where
  "parse_severity =
     p_bind parse_ident_any (\<lambda>i.
       case severity_of_name (id_name i) of
         Some sv \<Rightarrow> p_return sv
       | None \<Rightarrow> p_fail (parse_err_new ''ADGL0100'' ''invalid severity''
                   ''Critical | High | Medium | Low | Recommended | Optional'' (id_span i)))"

definition parse_segment :: "ident parser" where
  "parse_segment = p_bind parse_word_any (\<lambda>(w, sp). p_return \<lparr>id_name = w, id_span = sp\<rparr>)"

definition parse_kind_ident :: "kind_ident parser" where
  "parse_kind_ident =
     p_bind parse_segment (\<lambda>first.
     p_bind (p_while (\<lambda>k. k = TDot) (p_then p_next parse_segment) [first]) (\<lambda>segs.
     p_return \<lparr>ki_segments = segs,
       ki_span = span_new (sp_start (id_span first)) (sp_stop (id_span (last segs)))\<rparr>))"

definition parse_kind_ident_in_parens :: "kind_ident parser" where
  "parse_kind_ident_in_parens =
     p_then (consume_punct TLParen ''('')
     (p_bind parse_kind_ident (\<lambda>k.
      p_then (consume_punct TRParen '')'') (p_return k)))"

text \<open>\<open>"(" Ident ")"\<close>.\<close>

definition parse_ident_in_parens :: "ident parser" where
  "parse_ident_in_parens =
     p_then (consume_punct TLParen ''('')
     (p_bind parse_ident_non_kw (\<lambda>i.
      p_then (consume_punct TRParen '')'') (p_return i)))"

text \<open>The end of the last item, or a default (\<open>refs.last().map(..).unwrap_or(..)\<close>).\<close>

definition last_stop :: "('a \<Rightarrow> span) \<Rightarrow> 'a list \<Rightarrow> nat \<Rightarrow> nat" where
  "last_stop f xs d = (if xs = [] then d else sp_stop (f (last xs)))"

subsection \<open>Statements\<close>

definition signed_weight :: "span \<Rightarrow> int \<Rightarrow> infer_field parser" where
  "signed_weight key_span sign =
     p_bind (consume_kind ''integer'' (\<lambda>k. case k of TInt _ \<Rightarrow> True | _ \<Rightarrow> False)) (\<lambda>tok.
       p_return (InferWeight (case tk_kind tok of TInt v \<Rightarrow> i64_saturate (sign * v) | _ \<Rightarrow> 0)
                   (span_new (sp_start key_span) (sp_stop (tk_span tok)))))"

definition sign_error :: "'a parser" where
  "sign_error s = Rejected (p_err ''ADGL0100'' ''weight requires explicit sign''
                     (quoted ''+'' @ '' or '' @ quoted ''-'' @ '' before integer literal'') s) s"

definition parse_infer_field :: "infer_field parser" where
  "parse_infer_field =
     p_bind parse_word_any (\<lambda>(key, key_span).
     p_then (consume_punct TColon '':'')
     (if key = ''target'' then
        p_bind parse_expr (\<lambda>x. p_return (InferTarget x (span_new (sp_start key_span) (sp_stop (ex_span x)))))
      else if key = ''weight'' then
        p_if (\<lambda>k. k = TPlus) (p_then p_next (signed_weight key_span 1))
          (p_if (\<lambda>k. k = TMinus) (p_then p_next (signed_weight key_span (-1))) sign_error)
      else if key = ''evidence'' then
        p_bind parse_ref_list (\<lambda>refs. p_return (InferEvidence refs
          (span_new (sp_start key_span) (last_stop id_span refs (sp_stop key_span)))))
      else p_fail (parse_err_new ''ADGL0100'' ''unknown infer field'' ''target | weight | evidence'' key_span)))"

definition parse_infer_stmt :: "infer_stmt parser" where
  "parse_infer_stmt =
     p_bind (consume_kw ''infer'') (\<lambda>start.
     p_then (consume_kw ''Cause'')
     (p_bind parse_ident_in_parens (\<lambda>cause.
      p_then (consume_punct TLBrace ''{'')
      (p_bind (p_list_until TRBrace parse_infer_field) (\<lambda>fs.
       p_bind (consume_punct TRBrace ''}'') (\<lambda>stop.
       p_return \<lparr>is_cause = cause, is_fields = fs, is_span = span_new (sp_start start) (sp_stop stop)\<rparr>))))))"

definition parse_emit_field :: "emit_field parser" where
  "parse_emit_field =
     p_bind parse_word_any (\<lambda>(key, key_span).
     p_then (consume_punct TColon '':'')
     (if key = ''target'' then
        p_bind parse_expr (\<lambda>x. p_return (EmitTarget x (span_new (sp_start key_span) (sp_stop (ex_span x)))))
      else if key = ''severity'' then
        p_bind parse_severity (\<lambda>sv. p_bind prev_end (\<lambda>stop.
          p_return (EmitSeverity sv (span_new (sp_start key_span) stop))))
      else if key = ''evidence'' then
        p_bind parse_ref_list (\<lambda>refs. p_return (EmitEvidence refs
          (span_new (sp_start key_span) (last_stop id_span refs (sp_stop key_span)))))
      else if key = ''sarif_id'' then
        p_bind parse_string_lit (\<lambda>v. p_return (EmitSarifId v
          (span_new (sp_start key_span) (sp_stop (sl_span v)))))
      else p_fail (parse_err_new ''ADGL0100'' ''unknown emit field''
                     ''target | severity | evidence | sarif_id'' key_span)))"

definition parse_emit_stmt :: "emit_stmt parser" where
  "parse_emit_stmt =
     p_bind (consume_kw ''emit'') (\<lambda>start.
     p_then (consume_kw ''Problem'')
     (p_bind parse_ident_in_parens (\<lambda>problem.
      p_then (consume_punct TLBrace ''{'')
      (p_bind (p_list_until TRBrace parse_emit_field) (\<lambda>fs.
       p_bind (consume_punct TRBrace ''}'') (\<lambda>stop.
       p_return \<lparr>em_problem = problem, em_fields = fs, em_span = span_new (sp_start start) (sp_stop stop)\<rparr>))))))"

definition action_of_ident :: "ident \<Rightarrow> action_name" where
  "action_of_ident i =
     (case map_of [(''request_observation'', RequestObservation), (''run_check'', RunCheck),
                   (''suppress_symptom'', SuppressSymptom), (''mark_ambiguous'', MarkAmbiguousAct),
                   (''request_topology'', RequestTopology)] (id_name i) of
        Some a \<Rightarrow> Known a
      | None \<Rightarrow> Custom i)"

definition parse_action_field :: "action_field parser" where
  "parse_action_field =
     p_bind parse_word_any (\<lambda>(key, key_span).
     p_then (consume_punct TColon '':'')
     (if key = ''target'' then
        p_bind parse_expr (\<lambda>x. p_return (ActionTarget x (span_new (sp_start key_span) (sp_stop (ex_span x)))))
      else if key = ''reason'' then
        p_bind parse_string_lit (\<lambda>v. p_return (ActionReason v
          (span_new (sp_start key_span) (sp_stop (sl_span v)))))
      else if key = ''evidence'' then
        p_bind parse_ref_list (\<lambda>refs. p_return (ActionEvidence refs
          (span_new (sp_start key_span) (last_stop id_span refs (sp_stop key_span)))))
      else p_fail (parse_err_new ''ADGL0100'' ''unknown action field'' ''target | reason | evidence'' key_span)))"

definition parse_action_stmt :: "action_stmt parser" where
  "parse_action_stmt =
     p_bind (consume_kw ''action'') (\<lambda>start.
     p_bind parse_ident_any (\<lambda>i.
     p_bind (p_if (\<lambda>k. k = TLParen) (p_bind parse_kind_ident_in_parens (\<lambda>k. p_return (Some k)))
               (p_return None)) (\<lambda>arg.
     p_then (consume_punct TLBrace ''{'')
     (p_bind (p_list_until TRBrace parse_action_field) (\<lambda>fs.
      p_bind (consume_punct TRBrace ''}'') (\<lambda>stop.
      p_return \<lparr>ac_action = action_of_ident i, ac_arg = arg, ac_fields = fs,
        ac_span = span_new (sp_start start) (sp_stop stop)\<rparr>))))))"

fun stmt_span :: "adgl_stmt \<Rightarrow> span" where
  "stmt_span (StInfer s) = is_span s"
| "stmt_span (StEmit s) = em_span s"
| "stmt_span (StAction s) = ac_span s"

definition stmt_error :: "'a parser" where
  "stmt_error s =
     (let found = describe_token_kind (peek_kind s);
          err = with_found (p_err ''ADGL0100'' ''unexpected statement'' ''infer | emit | action'' s) found
      in Rejected (help_if (suggest_near_miss found [''infer'', ''emit'', ''action'', ''if'']) err) s)"

definition parse_stmt_any :: "adgl_stmt parser" where
  "parse_stmt_any =
     p_if (\<lambda>k. k = TKw ''infer'') (p_bind parse_infer_stmt (\<lambda>x. p_return (StInfer x)))
     (p_if (\<lambda>k. k = TKw ''emit'') (p_bind parse_emit_stmt (\<lambda>x. p_return (StEmit x)))
     (p_if (\<lambda>k. k = TKw ''action'') (p_bind parse_action_stmt (\<lambda>x. p_return (StAction x)))
        stmt_error))"

definition layer_error :: "string \<Rightarrow> string \<Rightarrow> string \<Rightarrow> string \<Rightarrow> span \<Rightarrow> parse_err" where
  "layer_error message expected found hint sp =
     with_help (with_found (parse_err_new ''ADGL0450'' message expected sp) found) hint"

definition parse_stmt_in_rule :: "bool \<Rightarrow> adgl_stmt parser" where
  "parse_stmt_in_rule evidence =
     p_bind parse_stmt_any (\<lambda>st.
       case st of
         StEmit _ \<Rightarrow>
           if evidence
           then p_fail (layer_error ''emit is not allowed in evidence rule body'' ''infer | action''
                          ''emit'' ''move `emit` into a decision rule'' (stmt_span st))
           else p_return st
       | StInfer _ \<Rightarrow>
           if evidence then p_return st
           else p_fail (layer_error ''infer is not allowed in decision rule body'' ''emit | action''
                          ''infer'' ''move `infer` into an evidence rule'' (stmt_span st))
       | _ \<Rightarrow> p_return st)"

definition in_block :: "token_kind \<Rightarrow> bool" where
  "in_block k = (k \<noteq> TRBrace \<and> k \<noteq> TEof)"

text \<open>\<open>"{" { Stmt } "}"\<close>.\<close>

definition parse_stmt_block :: "adgl_stmt list parser" where
  "parse_stmt_block =
     p_then (consume_punct TLBrace ''{'')
     (p_bind (p_while in_block parse_stmt_any []) (\<lambda>body.
      p_then (consume_punct TRBrace ''}'') (p_return body)))"

definition parse_if_else_block :: "if_else_block parser" where
  "parse_if_else_block =
     p_bind (consume_kw ''if'') (\<lambda>start.
     p_bind parse_expr (\<lambda>condition.
     p_bind parse_stmt_block (\<lambda>then_body.
     p_bind (p_if (\<lambda>k. k = TKw ''else'')
               (p_then (consume_kw ''else'') (p_bind parse_stmt_block (\<lambda>b. p_return (Some b))))
               (p_return None)) (\<lambda>else_body.
     p_return \<lparr>ie_condition = condition, ie_then = then_body, ie_else = else_body,
       ie_span = span_new (sp_start start)
         (case else_body of
            Some b \<Rightarrow> last_stop stmt_span b (sp_stop (ex_span condition))
          | None \<Rightarrow> sp_stop (ex_span condition))\<rparr>))))"

subsection \<open>Anchors and correlates\<close>

text \<open>\<open>[ "{" [ Expr ] "}" ]\<close>.\<close>

definition parse_optional_predicate :: "adgl_expr option parser" where
  "parse_optional_predicate =
     p_if (\<lambda>k. k = TLBrace)
       (p_then p_next
        (p_bind (p_if (\<lambda>k. k = TRBrace) (p_return None) (p_bind parse_expr (\<lambda>x. p_return (Some x)))) (\<lambda>pr.
         p_then (consume_punct TRBrace ''}'') (p_return pr))))
       (p_return None)"

definition predicate_stop :: "adgl_expr option \<Rightarrow> nat \<Rightarrow> nat" where
  "predicate_stop pr d = (case pr of Some x \<Rightarrow> sp_stop (ex_span x) | None \<Rightarrow> d)"

definition parse_anchor_block :: "anchor_block parser" where
  "parse_anchor_block =
     p_bind (consume_kw ''anchor'') (\<lambda>start.
     p_bind parse_ident_non_kw (\<lambda>binding.
     p_then (consume_punct TColon '':'')
     (p_then (consume_kw ''event'')
     (p_bind parse_kind_ident_in_parens (\<lambda>event_type.
      p_bind parse_optional_predicate (\<lambda>pr.
      p_return \<lparr>ab_binding = binding, ab_event_type = event_type, ab_predicate = pr,
        ab_span = span_new (sp_start start) (predicate_stop pr (sp_stop (ki_span event_type)))\<rparr>))))))"

definition anchor_error :: "'a parser" where
  "anchor_error s =
     (let found = describe_token_kind (peek_kind s);
          hint = (case suggest_near_miss found [''Cause'', ''Problem''] of
                    Some c \<Rightarrow> help_did_you_mean c
                  | None \<Rightarrow> ''use Cause(Name) or Problem(Name)'')
      in Rejected (with_help (with_found (p_err ''ADGL0100'' ''expected Cause(...) or Problem(...)''
                     ''Cause/Problem anchor'' s) found) hint) s)"

definition parse_decision_anchor :: "decision_anchor parser" where
  "parse_decision_anchor =
     p_then (consume_kw ''anchor'')
     (p_bind parse_ident_non_kw (\<lambda>binding.
      p_then (consume_punct TColon '':'')
      (p_if (\<lambda>k. k = TKw ''Cause'')
        (p_bind (consume_kw ''Cause'') (\<lambda>start.
         p_bind parse_ident_in_parens (\<lambda>cause.
         p_then (consume_punct TLBrace ''{'')
         (p_bind parse_expr (\<lambda>pr.
          p_bind (consume_punct TRBrace ''}'') (\<lambda>stop.
          p_return (OnCause \<lparr>cn_binding = binding, cn_cause = cause, cn_predicate = pr,
            cn_span = span_new (sp_start start) (sp_stop stop)\<rparr>)))))))
      (p_if (\<lambda>k. k = TKw ''Problem'')
        (p_bind (consume_kw ''Problem'') (\<lambda>start.
         p_bind parse_ident_in_parens (\<lambda>problem.
         p_bind parse_optional_predicate (\<lambda>pr.
         p_return (OnProblem \<lparr>pn_binding = binding, pn_problem = problem, pn_predicate = pr,
           pn_span = span_new (sp_start start) (predicate_stop pr (sp_stop (id_span problem)))\<rparr>)))))
        anchor_error))))"

definition parse_optional_min_match :: "min_match_clause option parser" where
  "parse_optional_min_match =
     p_if (\<lambda>k. k \<noteq> TKw ''having'') (p_return None)
     (p_then (consume_kw ''having'')
     (p_then (consume_punct TColon '':'')
     (p_then (consume_word_exact ''count'')
     (p_then (consume_punct TGe ''>='')
     (p_bind (consume_kind ''integer'' (\<lambda>k. case k of TInt _ \<Rightarrow> True | _ \<Rightarrow> False)) (\<lambda>tok.
        let lit = (case tk_kind tok of TInt v \<Rightarrow> v | _ \<Rightarrow> 0) in
        if lit < 0
        then p_fail (parse_err_new ''ADGL0100'' ''min match count must be a non-negative integer literal''
                       ''non-negative integer literal'' (tk_span tok))
        else p_return (Some \<lparr>mm_count = lit, mm_span = tk_span tok\<rparr>)))))))"

definition source_error :: "'a parser" where
  "source_error s = Rejected (p_err ''ADGL0100'' ''invalid correlate source''
                       ''event(...) | Problem(...) | Cause(...)'' s) s"

definition parse_correlate_source :: "ast_source parser" where
  "parse_correlate_source =
     p_if (\<lambda>k. k = TKw ''event'')
       (p_then (consume_kw ''event'') (p_bind parse_kind_ident_in_parens (\<lambda>k. p_return (SourceEvent k))))
     (p_if (\<lambda>k. k = TKw ''Problem'')
       (p_then (consume_kw ''Problem'') (p_bind parse_ident_in_parens (\<lambda>i. p_return (SourceProblem i))))
     (p_if (\<lambda>k. k = TKw ''Cause'')
       (p_then (consume_kw ''Cause'') (p_bind parse_ident_in_parens (\<lambda>i. p_return (SourceCause i))))
        source_error))"

definition parse_topo_predicate :: "topo_predicate parser" where
  "parse_topo_predicate =
     p_bind parse_ident_non_kw (\<lambda>name.
     p_bind (parse_paren_expr_list parse_expr) (\<lambda>args.
     p_return \<lparr>tp_name = name, tp_args = args,
       tp_span = span_new (sp_start (id_span name)) (last_stop ex_span args (sp_stop (id_span name)))\<rparr>))"

definition parse_time_window :: "time_window parser" where
  "parse_time_window =
     p_bind parse_additive (\<lambda>probe.
     p_then (consume_kw ''in'')
     (p_then (consume_punct TLBracket ''['')
     (p_bind parse_expr (\<lambda>lo.
      p_then (consume_punct TComma '','')
      (p_bind parse_expr (\<lambda>hi.
       p_bind (consume_punct TRBracket '']'') (\<lambda>stop.
       p_return \<lparr>tw_probe = probe, tw_start = lo, tw_stop = hi,
         tw_span = span_new (sp_start (ex_span probe)) (sp_stop stop)\<rparr>)))))))"

definition parse_correlate_block :: "correlate_block parser" where
  "parse_correlate_block =
     p_bind (consume_kw ''correlate'') (\<lambda>start.
     p_bind parse_ident_non_kw (\<lambda>binding.
     p_then (consume_punct TColon '':'')
     (p_bind parse_correlate_source (\<lambda>source.
      p_then (consume_punct TLBrace ''{'')
      (p_then (consume_word_exact ''topo'')
      (p_then (consume_punct TColon '':'')
      (p_bind parse_topo_predicate (\<lambda>topo.
       p_then (consume_word_exact ''time'')
       (p_then (consume_punct TColon '':'')
       (p_bind parse_time_window (\<lambda>time.
        p_bind parse_optional_min_match (\<lambda>min_match.
        p_bind (consume_punct TRBrace ''}'') (\<lambda>stop.
        p_return \<lparr>cb_binding = binding, cb_source = source, cb_topo = topo, cb_time = time,
          cb_min_match = min_match, cb_span = span_new (sp_start start) (sp_stop stop)\<rparr>)))))))))))))"

subsection \<open>Rules\<close>

definition docs_here :: "string option parser" where
  "docs_here s = Parsed (docs_from_leading (tk_leading (peek_token s))) s"

text \<open>The parts an evidence rule and a decision rule share, after the anchor.\<close>

definition parse_correlates :: "correlate_block list parser" where
  "parse_correlates = p_while (\<lambda>k. k = TKw ''correlate'') parse_correlate_block []"

definition parse_optional_if :: "if_else_block option parser" where
  "parse_optional_if =
     p_if (\<lambda>k. k = TKw ''if'') (p_bind parse_if_else_block (\<lambda>b. p_return (Some b))) (p_return None)"

definition parse_scope_header :: "scope_type parser" where
  "parse_scope_header =
     p_then (consume_punct TLBrace ''{'')
     (p_then (consume_kw ''scope'') (p_then (consume_punct TColon '':'') parse_scope_type))"

definition parse_evidence_rule :: "evidence_rule parser" where
  "parse_evidence_rule =
     p_bind docs_here (\<lambda>doc.
     p_bind (consume_kw ''evidence'') (\<lambda>start.
     p_bind parse_ident_non_kw (\<lambda>name.
     p_bind parse_scope_header (\<lambda>scope.
     p_bind parse_anchor_block (\<lambda>anchor.
     p_bind parse_correlates (\<lambda>correlates.
     p_bind parse_optional_if (\<lambda>if_else.
     p_bind (p_while in_block (parse_stmt_in_rule True) []) (\<lambda>body.
     p_bind (consume_punct TRBrace ''}'') (\<lambda>stop.
     p_return \<lparr>ev_name = name, ev_doc = doc, ev_scope = scope, ev_anchor = anchor,
       ev_correlates = correlates, ev_if_else = if_else, ev_body = body,
       ev_span = span_new (sp_start start) (sp_stop stop)\<rparr>)))))))))"

definition parse_decision_rule :: "decision_rule parser" where
  "parse_decision_rule =
     p_bind docs_here (\<lambda>doc.
     p_bind (consume_kw ''decision'') (\<lambda>start.
     p_bind parse_ident_non_kw (\<lambda>name.
     p_bind parse_scope_header (\<lambda>scope.
     p_bind parse_decision_anchor (\<lambda>anchor.
     p_bind parse_correlates (\<lambda>correlates.
     p_bind parse_optional_if (\<lambda>if_else.
     p_bind (p_while in_block (parse_stmt_in_rule False) []) (\<lambda>body.
     p_bind (consume_punct TRBrace ''}'') (\<lambda>stop.
     p_return \<lparr>de_name = name, de_doc = doc, de_scope = scope, de_anchor = anchor,
       de_correlates = correlates, de_if_else = if_else, de_body = body,
       de_span = span_new (sp_start start) (sp_stop stop)\<rparr>)))))))))"

subsection \<open>Declarations\<close>

definition max_requires :: nat where
  "max_requires = 32"

definition too_many_requires :: "'a parser" where
  "too_many_requires s = Rejected (p_err ''ADGL0105'' ''too many requires entries'' ''at most 32 entries'' s) s"

definition parse_requires_decl :: "requires_decl parser" where
  "parse_requires_decl =
     p_bind (consume_kw ''requires'') (\<lambda>start.
     p_then (consume_punct TEq ''='')
     (p_then (consume_punct TLBracket ''['')
     (p_bind (p_list_until TRBracket parse_string_lit) (\<lambda>caps.
      if length caps > max_requires then too_many_requires
      else p_bind (consume_punct TRBracket '']'') (\<lambda>stop.
        p_return \<lparr>rq_capabilities = caps, rq_span = span_new (sp_start start) (sp_stop stop)\<rparr>)))))"

definition parse_mutually_exclusive_decl :: "exclusive_decl parser" where
  "parse_mutually_exclusive_decl =
     p_bind (consume_kw ''mutually_exclusive'') (\<lambda>start.
     p_then (consume_punct TLParen ''('')
     (p_bind (p_comma_list parse_ident_any) (\<lambda>ids.
      p_bind (consume_punct TRParen '')'') (\<lambda>stop.
      p_return \<lparr>me_idents = ids, me_span = span_new (sp_start start) (sp_stop stop)\<rparr>))))"

subsection \<open>Recovery\<close>

definition is_sync_keyword :: "string \<Rightarrow> bool" where
  "is_sync_keyword kw = (kw \<in> set [''evidence'', ''decision'', ''mutually_exclusive'', ''version'', ''requires''])"

definition is_sync_token :: "token_kind \<Rightarrow> bool" where
  "is_sync_token k = (case k of TKw w \<Rightarrow> is_sync_keyword w | _ \<Rightarrow> False)"

text \<open>The loop of \<open>resync_decl_or_rule\<close>; the members of a ruleset are at brace depth 1.\<close>

fun resync_loop :: "nat \<Rightarrow> pstate \<Rightarrow> pstate option" where
  "resync_loop n s =
     (let k = peek_kind s; d = ps_brace_depth s in
      if k = TEof then Some s
      else if is_sync_token k \<and> d = 1 then Some s
      else if k = TRBrace \<and> d = 1 then Some s
      else if k = TRBrace \<and> d = 2 then Some (next_state s)
      else if n = 0 then None else resync_loop (n - 1) (next_state s))"

declare resync_loop.simps [simp del]

definition resync_decl_or_rule :: "pstate \<Rightarrow> pstate option" where
  "resync_decl_or_rule s =
     map_option (\<lambda>s'.
       if ps_idx s' = ps_idx s then
         let k = peek_kind s' in
         if k = TEof then s'
         else if is_sync_token k then s'
         else if k = TRBrace \<and> ps_brace_depth s' \<le> 1 then s'
         else next_state s'
       else s') (resync_loop (p_fuel s) s)"

definition recover_item :: "'a parser \<Rightarrow> 'a option parser" where
  "recover_item p s =
     (case p s of
        Parsed x s' \<Rightarrow> Parsed (Some x) s'
      | Rejected e s' \<Rightarrow>
          if ps_recover s' then
            (case resync_decl_or_rule (record_error e s') of None \<Rightarrow> Stuck | Some s'' \<Rightarrow> Parsed None s'')
          else Rejected e s'
      | Stuck \<Rightarrow> Stuck)"

subsection \<open>Rulesets\<close>

definition the_somes :: "'a option list \<Rightarrow> 'a list" where
  "the_somes xs = List.map_filter id xs"

definition parse_decl_item :: "adgl_decl option parser" where
  "parse_decl_item =
     p_if (\<lambda>k. k = TKw ''requires'')
       (recover_item (p_bind parse_requires_decl (\<lambda>d. p_return (Requires d))))
       (recover_item (p_bind parse_mutually_exclusive_decl (\<lambda>d. p_return (MutuallyExclusive d))))"

definition is_decl_kw :: "token_kind \<Rightarrow> bool" where
  "is_decl_kw k = (k = TKw ''requires'' \<or> k = TKw ''mutually_exclusive'')"

fun decl_item_span :: "adgl_decl \<Rightarrow> span" where
  "decl_item_span (Requires r) = rq_span r"
| "decl_item_span (MutuallyExclusive m) = me_span m"

definition parse_ruleset_header :: "ruleset_header parser" where
  "parse_ruleset_header =
     p_bind p_peek (\<lambda>tok.
     p_then (consume_kw ''version'')
     (p_then (consume_punct TEq ''='')
     (p_bind parse_string_lit (\<lambda>version.
      p_bind (p_while is_decl_kw parse_decl_item []) (\<lambda>items.
      let decls = the_somes items in
      p_return \<lparr>rh_version = version, rh_decls = decls,
        rh_span = span_new (sp_start (tk_span tok))
          (last_stop decl_item_span decls (sp_stop (sl_span version)))\<rparr>)))))"

definition parse_rule_item :: "rule_decl option parser" where
  "parse_rule_item =
     p_if (\<lambda>k. k = TKw ''evidence'')
       (recover_item (p_bind parse_evidence_rule (\<lambda>r. p_return (EvidenceDecl r))))
       (recover_item (p_bind parse_decision_rule (\<lambda>r. p_return (DecisionDecl r))))"

definition is_rule_kw :: "token_kind \<Rightarrow> bool" where
  "is_rule_kw k = (k = TKw ''evidence'' \<or> k = TKw ''decision'')"

definition trailing_error :: "'a parser" where
  "trailing_error s = Rejected (p_err ''ADGL0100'' ''unexpected tokens after ruleset'' ''end of input'' s) s"

definition parse_ruleset_prod :: "ruleset parser" where
  "parse_ruleset_prod =
     p_bind docs_here (\<lambda>doc.
     p_bind (consume_kw ''ruleset'') (\<lambda>start.
     p_bind parse_string_lit (\<lambda>name.
     p_then (consume_punct TLBrace ''{'')
     (p_bind parse_ruleset_header (\<lambda>header.
      p_bind (p_while is_rule_kw parse_rule_item []) (\<lambda>items.
      p_bind (consume_punct TRBrace ''}'') (\<lambda>stop.
      p_if (\<lambda>k. k \<noteq> TEof) trailing_error
        (p_return \<lparr>rs_name = name, rs_doc = doc, rs_header = header, rs_rules = the_somes items,
           rs_span = span_new (sp_start start) (sp_stop stop)\<rparr>))))))))"

text \<open>\<open>parse_ruleset\<close>: \<open>None\<close> is a panic or a run that does not end.\<close>

definition parse_ruleset :: "run_taker \<Rightarrow> string \<Rightarrow> (diag_buffer + ruleset) option" where
  "parse_ruleset tw src =
     (case tokenize tw src of
        None \<Rightarrow> None
      | Some (Inl e) \<Rightarrow> Some (Inl (diag_from_err e))
      | Some (Inr ts) \<Rightarrow>
          (case parse_ruleset_prod ((pstate_new ts)\<lparr>ps_recover := True\<rparr>) of
             Stuck \<Rightarrow> None
           | Parsed rs s \<Rightarrow> if ps_diags s = [] then Some (Inr rs) else Some (Inl (ps_diags s))
           | Rejected e s \<Rightarrow> Some (Inl (ps_diags (record_error e s)))))"

end
