(* ===== verification/Adgl_Lexer_Props.thy ===== *)
theory Adgl_Lexer_Props
  imports Adgl_Lexer
begin

text \<open>
  What the lexer of ADGL guarantees: it ends on every source, the spans of its tokens lie in the
  source in order, every identifier, keyword and punctuation token spells the text at its span,
  and the end of input comes last and once. Two lexemes it misreads close the theory.
\<close>

subsection \<open>Positions\<close>

definition lex_at :: "string \<Rightarrow> lexer \<Rightarrow> bool" where
  "lex_at src lx \<longleftrightarrow> lx_pos lx \<le> length src \<and> lx_rest lx = drop (lx_pos lx) src"

lemma lex_at_new: "lex_at src (lexer_new src)"
  by (simp add: lex_at_def lexer_new_def)

lemma lex_at_advance: "lex_at src lx \<Longrightarrow> n \<le> length (lx_rest lx) \<Longrightarrow> lex_at src (lx_advance n lx)"
  by (auto simp: lex_at_def add.commute)

lemma lex_at_push: "lex_at src lx \<Longrightarrow> n \<le> length (lx_rest lx) \<Longrightarrow> lex_at src (push_trivia k n lx)"
  by (auto simp: lex_at_def add.commute)

lemma lex_at_pending [simp]: "lex_at src (lx\<lparr>lx_pending := p\<rparr>) = lex_at src lx"
  by (simp add: lex_at_def)

lemma lex_at_eof: "lex_at src lx \<Longrightarrow> lx_eof lx \<longleftrightarrow> lx_pos lx = length src"
  by (auto simp: lex_at_def lx_eof_def)

text \<open>A step of the lexer: it stays on the source and does not go back.\<close>

definition lex_step :: "string \<Rightarrow> lexer \<Rightarrow> lexer \<Rightarrow> bool" where
  "lex_step src lx lx' \<longleftrightarrow> (lex_at src lx \<longrightarrow> lex_at src lx' \<and> lx_pos lx \<le> lx_pos lx')"

lemma lex_step_trans: "lex_step src a b \<Longrightarrow> lex_step src b c \<Longrightarrow> lex_step src a c"
  by (auto simp: lex_step_def)

lemma lex_step_refl: "lex_step src a a"
  by (simp add: lex_step_def)

lemma lex_step_advance: "n \<le> length (lx_rest lx) \<Longrightarrow> lex_step src lx (lx_advance n lx)"
  by (simp add: lex_step_def lex_at_advance)

lemma lex_step_push: "n \<le> length (lx_rest lx) \<Longrightarrow> lex_step src lx (push_trivia k n lx)"
  by (simp add: lex_step_def lex_at_push)

lemma lex_step_pending: "lex_step src lx (lx\<lparr>lx_pending := p\<rparr>)"
  by (simp add: lex_step_def)

lemma lex_step_bump: "bump_char lx = (m, lx') \<Longrightarrow> lex_step src lx lx'"
  by (auto simp: bump_char_def peek_char_def lex_step_refl split: list.splits intro!: lex_step_advance)

lemma comment_body_stop:
  "drop (length (comment_body s)) s = [] \<or> 2 \<le> length (drop (length (comment_body s)) s)"
  by (induction s rule: comment_body.induct) auto

lemma skip_loop_step: "skip_loop lx = Inr lx' \<Longrightarrow> lex_step src lx lx'"
proof (induction lx arbitrary: lx' rule: skip_loop.induct)
  case (1 lx)
  define n where "n = length (takeWhile is_skip (lx_rest lx))"
  define lx1 where "lx1 = lx_advance n lx"
  define r where "r = lx_rest lx1"
  define t where "t = takeWhile (\<lambda>c. c \<noteq> CHR 0x0A) r"
  define m where "m = 2 + length (comment_body (drop 2 r))"
  note IH = "1.IH" [OF n_def lx1_def r_def]
  have first: "lex_step src lx lx1"
    unfolding lx1_def n_def by (rule lex_step_advance) (rule length_takeWhile_le)
  have eq: "skip_loop lx =
      (if has_prefix r ''//'' then skip_loop (push_trivia (classify_line_comment t) (length t) lx1)
       else if has_prefix r ''/*'' then
         (if drop m r = [] then
           Inl (parse_err_new ''ADGL0106'' ''unclosed block comment'' ''closing */''
                  (span_new (lx_pos lx1) (lx_pos lx1 + 2)))
         else skip_loop (push_trivia BlockComment (m + 2) lx1))
       else if n > 0 then skip_loop lx1 else Inr lx1)"
    by (subst skip_loop.simps) (simp only: Let_def n_def lx1_def r_def t_def m_def)
  consider (line) "has_prefix r ''//''"
    | (block) "\<not> has_prefix r ''//''" "has_prefix r ''/*''" "drop m r \<noteq> []"
    | (white) "\<not> has_prefix r ''//''" "\<not> has_prefix r ''/*''" "0 < n"
    | (stay) "lx' = lx1"
    using "1.prems" by (auto simp: eq split: if_splits)
  then show ?case
  proof cases
    case line
    then have "lex_step src (push_trivia (classify_line_comment t) (length t) lx1) lx'"
      using IH(1) [OF line t_def] "1.prems" by (simp add: eq)
    moreover have "lex_step src lx1 (push_trivia (classify_line_comment t) (length t) lx1)"
      by (rule lex_step_push) (simp add: t_def r_def length_takeWhile_le)
    ultimately show ?thesis using first lex_step_trans by blast
  next
    case block
    then have "lex_step src (push_trivia BlockComment (m + 2) lx1) lx'"
      using IH(2) [OF block(1,2) m_def block(3)] "1.prems" by (simp add: eq)
    moreover have "m + 2 \<le> length r"
      using block(3) comment_body_stop [of "drop 2 r"] by (auto simp: m_def)
    then have "lex_step src lx1 (push_trivia BlockComment (m + 2) lx1)"
      by (intro lex_step_push) (simp add: r_def)
    ultimately show ?thesis using first lex_step_trans by blast
  next
    case white
    then show ?thesis using IH(3) [OF white] "1.prems" first lex_step_trans by (simp add: eq)
  qed (simp add: first)
qed

lemma skip_ws_step: "skip_ws_and_comments lx = Inr lx' \<Longrightarrow> lex_step src lx lx'"
  unfolding skip_ws_and_comments_def
  using skip_loop_step lex_step_pending lex_step_trans by blast

subsection \<open>Tokens\<close>

text \<open>
  The text at a span, and what a token must spell: identifiers, keywords and punctuation are
  described by their own text.
\<close>

definition text_at :: "string \<Rightarrow> span \<Rightarrow> string" where
  "text_at src sp = take (sp_stop sp - sp_start sp) (drop (sp_start sp) src)"

definition spelled :: "string \<Rightarrow> token \<Rightarrow> bool" where
  "spelled src t \<longleftrightarrow>
     (case tk_kind t of
        TString _ \<Rightarrow> take 1 (text_at src (tk_span t)) = [CHR 0x22]
      | TInt _ \<Rightarrow> is_ascii_digit (hd (text_at src (tk_span t)))
      | TDuration _ \<Rightarrow> is_ascii_digit (hd (text_at src (tk_span t)))
      | TKw k \<Rightarrow> k \<in> set keywords_list \<and> text_at src (tk_span t) = k
      | TIdent s \<Rightarrow> s \<notin> set keywords_list \<and> length s \<le> 255 \<and> text_at src (tk_span t) = s
      | TEof \<Rightarrow> False
      | k \<Rightarrow> text_at src (tk_span t) = describe_token_kind k)"

text \<open>A token read at \<open>lx\<close>, leaving the lexer at \<open>lx'\<close>.\<close>

definition token_read :: "string \<Rightarrow> lexer \<Rightarrow> token \<Rightarrow> lexer \<Rightarrow> bool" where
  "token_read src lx tok lx' \<longleftrightarrow>
     lex_at src lx' \<and> lx_pos lx < lx_pos lx' \<and>
     tk_span tok = \<lparr>sp_start = lx_pos lx, sp_stop = lx_pos lx'\<rparr> \<and> spelled src tok"

lemma text_read:
  assumes "lex_at src lx" "n \<le> length (lx_rest lx)"
  shows "text_at src \<lparr>sp_start = lx_pos lx, sp_stop = lx_pos lx + n\<rparr> = take n (lx_rest lx)"
  using assms by (auto simp: text_at_def lex_at_def)

lemma mk_token_read:
  assumes "lex_at src lx" "0 < n" "n \<le> length (lx_rest lx)"
    and "mk_token k (lx_pos lx) (lx_advance n lx) = (tok, lx')"
    and "spelled src \<lparr>tk_kind = k, tk_span = \<lparr>sp_start = lx_pos lx, sp_stop = lx_pos lx + n\<rparr>, tk_leading = []\<rparr>"
  shows "token_read src lx tok lx'"
  using assms by (auto simp: mk_token_def token_read_def span_new_def lex_at_advance)

lemma takeWhile_prefix: "take (length (takeWhile P s)) s = takeWhile P s"
  by (metis append_eq_conv_conj takeWhile_dropWhile_id)

lemma lex_ident_read:
  assumes tw: "takes_runs tw" and at: "lex_at src lx"
    and lex: "lex_ident_or_kw tw (lx_pos lx) lx = Inr (tok, lx')"
  shows "token_read src lx tok lx'"
proof -
  define w where "w = takeWhile is_ident_continue (lx_rest lx)"
  have w: "w \<noteq> []" "take_run tw (lx_rest lx) is_ident_continue = Inr w"
    using lex tw by (auto simp: lex_ident_or_kw_def take_run_def takes_runs_def w_def split: if_splits)
  have sl: "text_at src \<lparr>sp_start = lx_pos lx, sp_stop = lx_pos lx + length w\<rparr> = w"
    using text_read [OF at] length_takeWhile_le takeWhile_prefix unfolding w_def by metis
  have len: "0 < length w" "length w \<le> length (lx_rest lx)"
    using w(1) length_takeWhile_le unfolding w_def by auto
  have mk: "mk_token (if w \<in> set keywords_list then TKw (keyword_static w) else TIdent w)
        (lx_pos lx) (lx_advance (length w) lx) = (tok, lx')" and short: "length w \<le> 255"
    using lex by (auto simp: lex_ident_or_kw_def w(2) split: if_splits)
  show ?thesis
    by (rule mk_token_read [OF at len mk]) (auto simp: spelled_def sl keyword_static_def short)
qed

lemma number_lexeme_prefix:
  assumes "number_lexeme rest = (lexeme, radix)" "is_ascii_digit (hd rest)" "rest \<noteq> []"
  shows "lexeme \<noteq> []" "\<exists>suf. rest = lexeme @ suf"
proof -
  have take2: "take 2 r @ takeWhile P (drop 2 r) @ dropWhile P (drop 2 r) = r" for r :: string and P
    by simp
  show "\<exists>suf. rest = lexeme @ suf"
    using assms(1) take2 unfolding number_lexeme_def
    by (auto split: if_splits) (metis append.assoc take2 takeWhile_dropWhile_id)+
  show "lexeme \<noteq> []"
    using assms by (cases rest) (auto simp: number_lexeme_def has_prefix_def split: if_splits)
qed

lemma has_prefix_drop_length:
  "has_prefix (drop n s) p \<Longrightarrow> p \<noteq> [] \<Longrightarrow> n + length p \<le> length s"
  using has_prefix_length [of "drop n s" p] by (cases "n \<le> length s") auto

lemma lex_number_read:
  assumes at: "lex_at src lx" and digit: "is_ascii_digit (hd (lx_rest lx))" "lx_rest lx \<noteq> []"
    and lex: "lex_number_or_duration (lx_pos lx) lx = Inr (tok, lx')"
  shows "token_read src lx tok lx'"
proof -
  obtain lexeme radix where nl: "number_lexeme (lx_rest lx) = (lexeme, radix)" by fastforce
  note pre = number_lexeme_prefix [OF nl digit]
  then have pos: "0 < length lexeme" and le: "length lexeme \<le> length (lx_rest lx)" by auto
  have hd: "is_ascii_digit (hd (text_at src \<lparr>sp_start = lx_pos lx, sp_stop = lx_pos lx + n\<rparr>))"
    if "0 < n" "n \<le> length (lx_rest lx)" for n
    using that text_read [OF at that(2)] digit by (simp add: hd_take)
  define u where "u = drop (length lexeme) (lx_rest lx)"
  have unit: "0 < length lexeme + length p \<and> length lexeme + length p \<le> length (lx_rest lx)"
    if "has_prefix u p" "p \<noteq> []" for p
    using has_prefix_drop_length that unfolding u_def by fastforce
  note units = unit [of "''ms''"] unit [of "''s''"] unit [of "''min''"]
  obtain v where v: "number_value lexeme radix = Some v"
    using lex pos by (auto simp: lex_number_or_duration_def nl Let_def split: option.splits)
  have "(\<exists>n. 0 < n \<and> n \<le> length (lx_rest lx) \<and>
          (\<exists>k. mk_token k (lx_pos lx) (lx_advance n lx) = (tok, lx') \<and> (\<exists>v. k = TInt v \<or> k = TDuration v)))"
  proof -
    consider "has_prefix u ''ms''" "mk_token (TDuration v) (lx_pos lx) (lx_advance (length lexeme + 2) lx) = (tok, lx')"
      | "has_prefix u ''s''" "mk_token (TDuration (i64_saturate (v * 1000))) (lx_pos lx) (lx_advance (length lexeme + 1) lx) = (tok, lx')"
      | "has_prefix u ''min''" "mk_token (TDuration (i64_saturate (v * 60000))) (lx_pos lx) (lx_advance (length lexeme + 3) lx) = (tok, lx')"
      | "mk_token (TInt v) (lx_pos lx) (lx_advance (length lexeme) lx) = (tok, lx')"
      using lex pos by (simp add: lex_number_or_duration_def nl Let_def v u_def [symmetric] split: if_splits)
    then show ?thesis
    proof cases
      case 1
      then show ?thesis using units(1) by (intro exI [of _ "length lexeme + 2"]) auto
    next
      case 2
      then show ?thesis using units(2) by (intro exI [of _ "length lexeme + 1"]) auto
    next
      case 3
      then show ?thesis using units(3) by (intro exI [of _ "length lexeme + 3"]) auto
    next
      case 4
      then show ?thesis using pos le by (intro exI [of _ "length lexeme"]) auto
    qed
  qed
  then obtain n k where "0 < n" "n \<le> length (lx_rest lx)"
      "mk_token k (lx_pos lx) (lx_advance n lx) = (tok, lx')" "\<exists>v. k = TInt v \<or> k = TDuration v"
    by blast
  then show ?thesis
    by (intro mk_token_read [OF at]) (auto simp: spelled_def hd)
qed

lemma lex_escape_step: "lex_escape start lx = Inr (esc, lx') \<Longrightarrow> lex_step src lx lx'"
  by (auto simp: lex_escape_def Let_def split: prod.splits option.splits if_splits
      dest!: lex_step_bump [of _ _ _ src] intro: lex_step_trans)

lemma lex_string_loop_step:
  "lex_string_loop start lx out = Inr (tok, lx') \<Longrightarrow>
     lex_step src lx lx' \<and> (\<exists>s. (tok, lx') = mk_token (TString s) start lx')"
proof (induction start lx out rule: lex_string_loop.induct)
  case (1 start lx out)
  obtain m lx1 where b: "bump_char lx = (m, lx1)" by fastforce
  note step = lex_step_bump [OF b, of src]
  show ?case
  proof (cases m)
    case None
    then show ?thesis using "1.prems" by (subst (asm) lex_string_loop.simps) (simp add: b)
  next
    case (Some ch)
    consider "ch = [CHR 0x22]"
      | "ch = [CHR 0x5C]" "ch \<noteq> [CHR 0x22]" | "ch \<noteq> [CHR 0x22]" "ch \<noteq> [CHR 0x5C]" by blast
    then show ?thesis
    proof cases
      case 1
      then have "(tok, lx') = mk_token (TString out) start lx1"
        using "1.prems" by (subst (asm) lex_string_loop.simps) (simp add: b Some)
      then show ?thesis using step by (auto simp: mk_token_def)
    next
      case 2
      then obtain esc lx2 where e: "lex_escape start lx1 = Inr (esc, lx2)"
          "lex_string_loop start lx2 (out @ esc) = Inr (tok, lx')"
        using "1.prems" by (subst (asm) lex_string_loop.simps) (auto simp: b Some split: sum.splits)
      then show ?thesis
        using "1.IH"(1) [OF b [symmetric] Some 2(2,1) e(1) refl e(2)] step
          lex_escape_step [OF e(1)] lex_step_trans by blast
    next
      case 3
      then have "lex_string_loop start lx1 (out @ ch) = Inr (tok, lx')"
        using "1.prems" by (subst (asm) lex_string_loop.simps) (simp add: b Some)
      then show ?thesis
        using "1.IH"(2) [OF b [symmetric] Some 3] step lex_step_trans by blast
    qed
  qed
qed

lemma lex_string_read:
  assumes at: "lex_at src lx" and quote: "lx_rest lx = CHR 0x22 # rest"
    and lex: "lex_string (lx_pos lx) lx = Inr (tok, lx')"
  shows "token_read src lx tok lx'"
proof -
  have b: "bump_char lx = (Some [CHR 0x22], lx_advance 1 lx)"
    by (simp add: bump_char_def peek_char_def quote utf8_len_def Let_def)
  from lex have "lex_step src (lx_advance 1 lx) lx'"
    and "\<exists>s. (tok, lx') = mk_token (TString s) (lx_pos lx) lx'"
    unfolding lex_string_def b snd_conv by (simp_all add: lex_string_loop_step)
  then obtain s where at': "lex_at src lx'" and le: "lx_pos lx + 1 \<le> lx_pos lx'"
    and mk: "(tok, lx') = mk_token (TString s) (lx_pos lx) lx'"
    using lex_at_advance [OF at, of 1] by (auto simp: lex_step_def quote)
  have "text_at src \<lparr>sp_start = lx_pos lx, sp_stop = lx_pos lx'\<rparr> = take (lx_pos lx' - lx_pos lx) (lx_rest lx)"
    using at by (simp add: text_at_def lex_at_def)
  then have "take 1 (text_at src \<lparr>sp_start = lx_pos lx, sp_stop = lx_pos lx'\<rparr>) = [CHR 0x22]"
    using le by (simp add: quote take_Cons')
  then show ?thesis
    using mk at' le by (auto simp: mk_token_def token_read_def span_new_def spelled_def)
qed

lemma two_char_described: "(s, k) \<in> set two_char_tokens \<Longrightarrow> length s = 2 \<and>
   (text_at src sp = s \<longrightarrow> spelled src \<lparr>tk_kind = k, tk_span = sp, tk_leading = []\<rparr>)"
  by (auto simp: two_char_tokens_def spelled_def)

lemma one_char_described: "(c, k) \<in> set one_char_tokens \<Longrightarrow>
   (text_at src sp = [c] \<longrightarrow> spelled src \<lparr>tk_kind = k, tk_span = sp, tk_leading = []\<rparr>)"
  by (auto simp: one_char_tokens_def spelled_def)

lemma next_token_read:
  assumes tw: "takes_runs tw" and at: "lex_at src lx" and more: "\<not> lx_eof lx"
    and lex: "next_token tw lx = Inr (tok, lx')"
  shows "token_read src lx tok lx'"
proof (cases "find (\<lambda>(s, k). has_prefix (lx_rest lx) s) two_char_tokens")
  case (Some p)
  obtain s k where p: "p = (s, k)" by fastforce
  have pre: "has_prefix (lx_rest lx) s" and mem: "(s, k) \<in> set two_char_tokens"
    using Some by (auto simp: p find_Some_iff in_set_conv_nth)
  note d = two_char_described [OF mem, of src]
  have len: "2 \<le> length (lx_rest lx)" using has_prefix_length [OF pre] d by simp
  have "text_at src \<lparr>sp_start = lx_pos lx, sp_stop = lx_pos lx + 2\<rparr> = s"
    using text_read [OF at len] pre d by (simp add: has_prefix_def)
  moreover have "mk_token k (lx_pos lx) (lx_advance 2 lx) = (tok, lx')"
    using lex by (simp add: next_token_def Let_def Some p)
  ultimately show ?thesis using d by (intro mk_token_read [OF at _ len]) auto
next
  case None
  obtain c cs where rest: "lx_rest lx = c # cs" using more by (cases "lx_rest lx") (auto simp: lx_eof_def)
  show ?thesis
  proof (cases "map_of one_char_tokens c")
    case (Some k)
    have len: "1 \<le> length (lx_rest lx)" by (simp add: rest)
    have "text_at src \<lparr>sp_start = lx_pos lx, sp_stop = lx_pos lx + 1\<rparr> = [c]"
      using text_read [OF at len] by (simp add: rest)
    moreover have "mk_token k (lx_pos lx) (lx_advance 1 lx) = (tok, lx')"
      using lex by (simp add: next_token_def Let_def None [unfolded rest] rest Some)
    ultimately show ?thesis using one_char_described [OF map_of_SomeD [OF Some], of src]
      by (intro mk_token_read [OF at _ len]) auto
  next
    case n2: None
    have lex': "(if c = CHR 0x22 then lex_string (lx_pos lx) lx
        else if is_ascii_digit c then lex_number_or_duration (lx_pos lx) lx
        else if is_ident_start c then lex_ident_or_kw tw (lx_pos lx) lx
        else Inl (parse_err_new ''ADGL0100'' ''unexpected character'' ''token''
               (span_new (lx_pos lx) (lx_pos (snd (bump_char lx)))))) = Inr (tok, lx')"
      using lex by (simp add: next_token_def Let_def None [unfolded rest] rest n2)
    show ?thesis
      using lex' lex_string_read [OF at] lex_number_read [OF at] lex_ident_read [OF tw at]
      by (auto simp: rest split: if_splits)
  qed
qed

subsection \<open>The tokenizer\<close>

definition tokens_upto :: "string \<Rightarrow> nat \<Rightarrow> token list \<Rightarrow> bool" where
  "tokens_upto src p out \<longleftrightarrow>
     sorted_wrt (\<lambda>a b. sp_stop (tk_span a) \<le> sp_start (tk_span b)) out \<and>
     (\<forall>t\<in>set out. sp_start (tk_span t) < sp_stop (tk_span t) \<and> sp_stop (tk_span t) \<le> p \<and> spelled src t)"

lemma spelled_leading [simp]: "spelled src (t\<lparr>tk_leading := l\<rparr>) = spelled src t"
  by (cases "tk_kind t") (simp_all add: spelled_def)

lemma tokens_upto_snoc:
  assumes "tokens_upto src p out" "p \<le> lx_pos lx" "token_read src lx tok lx'"
  shows "tokens_upto src (lx_pos lx') (out @ [tok\<lparr>tk_leading := l\<rparr>])"
proof -
  have sp: "tk_span tok = \<lparr>sp_start = lx_pos lx, sp_stop = lx_pos lx'\<rparr>" "lx_pos lx < lx_pos lx'" "spelled src tok"
    using assms(3) by (simp_all add: token_read_def)
  have "sp_stop (tk_span t) \<le> lx_pos lx \<and> sp_stop (tk_span t) \<le> lx_pos lx'" if "t \<in> set out" for t
  proof -
    have "sp_stop (tk_span t) \<le> p" using assms(1) that unfolding tokens_upto_def by blast
    with assms(2) sp(2) show ?thesis by linarith
  qed
  then show ?thesis
    using assms(1) sp by (simp add: tokens_upto_def sorted_wrt_append)
qed

lemma tokens_upto_mono: "tokens_upto src p out \<Longrightarrow> p \<le> q \<Longrightarrow> tokens_upto src q out"
  unfolding tokens_upto_def using order_trans by blast

lemma tok_loop_result:
  assumes "takes_runs tw" "lex_at src lx" "tokens_upto src (lx_pos lx) out"
  shows "\<exists>r. tok_loop tw lx depth out = Some r \<and> (\<forall>ts. r = Inr ts \<longrightarrow> tokens_upto src (length src) ts)"
  using assms(2,3)
proof (induction "length src - lx_pos lx" arbitrary: lx depth out rule: less_induct)
  case less
  note fin = tokens_upto_mono [OF less.prems(2), of "length src"]
  have fin': "tokens_upto src (length src) out" using fin less.prems(1) by (simp add: lex_at_def)
  show ?case
  proof (cases "lx_eof lx")
    case True
    then show ?thesis by (subst tok_loop.simps) (simp add: fin')
  next
    case False
    note step1 = False
    show ?thesis
    proof (cases "skip_ws_and_comments lx")
      case (Inl e)
      then show ?thesis by (subst tok_loop.simps) (simp add: False)
    next
      case (Inr lx1)
      have at1: "lex_at src lx1" and le1: "lx_pos lx \<le> lx_pos lx1"
        using skip_ws_step [OF Inr, of src] less.prems(1) by (auto simp: lex_step_def)
      define lx2 where "lx2 = lx1\<lparr>lx_pending := []\<rparr>"
      have at2: "lex_at src lx2" and eof2: "lx_eof lx2 = lx_eof lx1" and le2: "lx_pos lx \<le> lx_pos lx2"
        using at1 le1 by (simp_all add: lx2_def lx_eof_def)
      show ?thesis
      proof (cases "lx_eof lx1 \<or> (\<exists>e. next_token tw lx2 = Inl e)")
        case True
        then show ?thesis
          by (subst tok_loop.simps)
            (auto simp: step1 Inr fin' trivia_before_next_token_def lx2_def [symmetric])
      next
        case False
        then obtain tok lx3 where tok: "next_token tw lx2 = Inr (tok, lx3)"
          by (cases "next_token tw lx2") auto
        have rd: "token_read src lx2 tok lx3"
          using next_token_read [OF assms(1) at2 _ tok] False eof2 by simp
        have less': "length src - lx_pos lx3 < length src - lx_pos lx" and at3: "lex_at src lx3"
          using rd le2 by (auto simp: token_read_def lex_at_def)
        have up: "tokens_upto src (lx_pos lx3) (out @ [tok\<lparr>tk_leading := lx_pending lx1\<rparr>])"
          by (rule tokens_upto_snoc [OF less.prems(2) le2 rd])
        show ?thesis
        proof (cases "nest (tk_kind tok) depth")
          case None
          then show ?thesis using False
            by (subst tok_loop.simps)
              (simp add: step1 Inr trivia_before_next_token_def lx2_def [symmetric] tok)
        next
          case (Some d)
          then show ?thesis using False less.hyps [OF less' at3 up, of d]
            by (subst tok_loop.simps)
              (simp add: step1 Inr trivia_before_next_token_def lx2_def [symmetric] tok)
        qed
      qed
    qed
  qed
qed

text \<open>The token stream the parser starts on: the end of input comes last and once.\<close>

definition token_stream :: "token list \<Rightarrow> bool" where
  "token_stream ts \<longleftrightarrow> ts \<noteq> [] \<and> tk_kind (last ts) = TEof \<and> (\<forall>t\<in>set (butlast ts). tk_kind t \<noteq> TEof)"

lemma tokenize_result:
  assumes "takes_runs tw"
  shows "\<exists>r. tokenize tw src = Some r \<and>
    (\<forall>ts. r = Inr ts \<longrightarrow> token_stream ts \<and> (\<exists>out. ts = out @ [eof_token src] \<and> tokens_upto src (length src) out))"
proof (cases "length src > max_source")
  case True
  then show ?thesis by (simp add: tokenize_def)
next
  case False
  obtain r where r: "tok_loop tw (lexer_new src) 0 [] = Some r"
      "\<forall>ts. r = Inr ts \<longrightarrow> tokens_upto src (length src) ts"
    using tok_loop_result [OF assms lex_at_new, of src "[]" 0] by (auto simp: tokens_upto_def)
  have "tk_kind t \<noteq> TEof" if "tokens_upto src (length src) out" "t \<in> set out" for t out
    using that by (auto simp: tokens_upto_def spelled_def)
  then show ?thesis using False r
    by (cases r) (auto simp: tokenize_def token_stream_def eof_token_def)
qed

text \<open>A stand-in for winnow's function that meets its contract.\<close>

definition reference_runs :: run_taker where
  "reference_runs p s = (let r = takeWhile p s in if r = [] then None else Some r)"

lemma reference_runs_ok: "takes_runs reference_runs"
  by (simp add: takes_runs_def reference_runs_def Let_def)

text \<open>
  C14: The tokenizer ends on every source, and when it accepts, the spans of its tokens follow one
  another inside the source, each is nonempty, every identifier, keyword and punctuation token is
  the text at its span (an identifier is not a keyword and has at most 255 bytes), and the end of
  input is the last token and no other.
\<close>

theorem tokens_cover_source:
  assumes "takes_runs tw"
  shows "(\<exists>e. tokenize tw src = Some (Inl e)) \<or>
    (\<exists>out. tokenize tw src = Some (Inr (out @ [eof_token src])) \<and>
        sorted_wrt (\<lambda>a b. sp_stop (tk_span a) \<le> sp_start (tk_span b)) out \<and>
        (\<forall>t\<in>set out. sp_start (tk_span t) < sp_stop (tk_span t) \<and>
           sp_stop (tk_span t) \<le> length src \<and> spelled src t))"
proof -
  obtain r where r: "tokenize tw src = Some r" and ts: "\<And>ts. r = Inr ts \<Longrightarrow>
      \<exists>out. ts = out @ [eof_token src] \<and> tokens_upto src (length src) out"
    using tokenize_result [OF assms, of src] by blast
  show ?thesis
    using r ts by (cases r) (auto simp: tokens_upto_def)
qed

lemma tokens_cover_source_witness:
  "map_option (map_sum id (map tk_kind)) (tokenize reference_runs '' ap>=5s'') =
     Some (Inr [TIdent ''ap'', TGe, TDuration 5000, TEof]) \<and>
   ((\<exists>e. tokenize reference_runs '' ap>=5s'' = Some (Inl e)) \<or>
    (\<exists>out. tokenize reference_runs '' ap>=5s'' = Some (Inr (out @ [eof_token '' ap>=5s''])) \<and>
        sorted_wrt (\<lambda>a b. sp_stop (tk_span a) \<le> sp_start (tk_span b)) out \<and>
        (\<forall>t\<in>set out. sp_start (tk_span t) < sp_stop (tk_span t) \<and>
           sp_stop (tk_span t) \<le> length '' ap>=5s'' \<and> spelled '' ap>=5s'' t)))"
  by (rule conjI [OF _ tokens_cover_source [OF reference_runs_ok]]) code_simp

subsection \<open>Lexemes that are misread\<close>

text \<open>
  The prefixes of both radices are stripped one after the other, and \<open>0b\<close> may begin the digits of
  a hexadecimal number: \<open>0x0b1\<close> is read as 1, while \<open>0x0c1\<close> is read as 193.
\<close>

theorem hex_digits_stripped:
  "map_option (map_sum id (map tk_kind)) (tokenize reference_runs ''0x0b1 0x0c1'') =
     Some (Inr [TInt 1, TInt 193, TEof])"
  by code_simp

text \<open>\<open>u8::from_str_radix\<close> accepts a sign: an escape \<open>\x+f\<close> is byte 15 instead of an error.\<close>

theorem signed_escape_accepted:
  "map_option (map_sum id (map tk_kind))
     (tokenize reference_runs [CHR 0x22, CHR 0x5C, CHR ''x'', CHR ''+'', CHR ''f'', CHR 0x22]) =
     Some (Inr [TString [CHR 0x0F], TEof])"
  by code_simp

end
