(* ===== verification/Adgl_Parser_Total.thy ===== *)
theory Adgl_Parser_Total
  imports Adgl_Parser Adgl_Lexer_Props
begin

text \<open>
  The contract every parser of the ADGL front end meets: on a token stream it neither panics nor
  runs out of its bound, it keeps the tokens, and it moves forward. \<open>runs m K a b p\<close> states it for
  the states with at most \<open>m\<close> tokens left whose next token satisfies \<open>K\<close>: at least \<open>a\<close> tokens are
  consumed when \<open>p\<close> succeeds, at least \<open>b\<close> when it fails. The rules collected in \<open>parser_ok\<close>
  follow the structure of the parsers.
\<close>

named_theorems parser_ok "introduction rules for the contract of parsers"

definition p_inv :: "pstate \<Rightarrow> bool" where
  "p_inv s \<longleftrightarrow> token_stream (ps_tokens s) \<and> ps_idx s < length (ps_tokens s)"

definition tokens_left :: "pstate \<Rightarrow> nat" where
  "tokens_left s = length (ps_tokens s) - ps_idx s"

definition p_ext :: "nat \<Rightarrow> pstate \<Rightarrow> pstate \<Rightarrow> bool" where
  "p_ext a s s' \<longleftrightarrow> p_inv s' \<and> ps_tokens s' = ps_tokens s \<and> ps_recover s' = ps_recover s \<and>
     ps_idx s + a \<le> ps_idx s' \<and> (\<exists>ds. ps_diags s' = ps_diags s @ ds \<and> list_all (\<lambda>d. dg_severity d = DiagError) ds)"

definition runs :: "nat \<Rightarrow> (token_kind \<Rightarrow> bool) \<Rightarrow> nat \<Rightarrow> nat \<Rightarrow> 'a parser \<Rightarrow> bool" where
  "runs m K a b p \<longleftrightarrow>
     (\<forall>s. p_inv s \<and> tokens_left s \<le> m \<and> K (peek_kind s) \<longrightarrow>
       (case p s of Parsed x s' \<Rightarrow> p_ext a s s' | Rejected e s' \<Rightarrow> p_ext b s s' | Stuck \<Rightarrow> False))"

abbreviation good :: "nat \<Rightarrow> (token_kind \<Rightarrow> bool) \<Rightarrow> 'a parser \<Rightarrow> bool" where
  "good m K p \<equiv> runs m K 0 0 p"

abbreviation eats :: "nat \<Rightarrow> (token_kind \<Rightarrow> bool) \<Rightarrow> 'a parser \<Rightarrow> bool" where
  "eats m K p \<equiv> runs m K 1 0 p"

abbreviation moves :: "nat \<Rightarrow> (token_kind \<Rightarrow> bool) \<Rightarrow> 'a parser \<Rightarrow> bool" where
  "moves m K p \<equiv> runs m K 1 1 p"

abbreviation any_kind :: "token_kind \<Rightarrow> bool" where
  "any_kind \<equiv> \<lambda>_. True"

lemma runsI:
  assumes "\<And>s. p_inv s \<Longrightarrow> tokens_left s \<le> m \<Longrightarrow> K (peek_kind s) \<Longrightarrow>
    (case p s of Parsed x s' \<Rightarrow> p_ext a s s' | Rejected e s' \<Rightarrow> p_ext b s s' | Stuck \<Rightarrow> False)"
  shows "runs m K a b p"
  using assms by (simp add: runs_def)

lemma runsD:
  assumes "runs m K a b p" "p_inv s" "tokens_left s \<le> m" "K (peek_kind s)"
  obtains x s' where "p s = Parsed x s'" "p_ext a s s'"
    | e s' where "p s = Rejected e s'" "p_ext b s s'"
  using assms unfolding runs_def by (cases "p s") force+

lemma p_ext_refl: "p_inv s \<Longrightarrow> p_ext 0 s s"
  by (simp add: p_ext_def)

lemma p_ext_trans: "p_ext a s t \<Longrightarrow> p_ext b t u \<Longrightarrow> p_ext (a + b) s u"
  by (auto simp: p_ext_def)

lemma p_ext_weaken: "p_ext a s t \<Longrightarrow> b \<le> a \<Longrightarrow> p_ext b s t"
  by (auto simp: p_ext_def)

lemma p_ext_left: "p_ext a s t \<Longrightarrow> p_inv t \<and> tokens_left t + a \<le> tokens_left s"
  by (auto simp: p_ext_def p_inv_def tokens_left_def)

lemma tokens_left_pos: "p_inv s \<Longrightarrow> 0 < tokens_left s"
  by (simp add: p_inv_def tokens_left_def)

lemma runs_zero: "runs 0 K a b p"
  using tokens_left_pos by (force simp: runs_def)

lemma runs_weaken:
  assumes "runs m K a b p" "m' \<le> m" "\<And>k. K' k \<Longrightarrow> K k" "a' \<le> a" "b' \<le> b"
  shows "runs m' K' a' b' p"
proof (rule runsI)
  fix s assume s: "p_inv s" "tokens_left s \<le> m'" "K' (peek_kind s)"
  then have "tokens_left s \<le> m" using assms(2) by simp
  from runsD [OF assms(1) s(1) this assms(3) [OF s(3)]]
  show "case p s of Parsed x s' \<Rightarrow> p_ext a' s s' | Rejected e s' \<Rightarrow> p_ext b' s s' | Stuck \<Rightarrow> False"
    by cases (use assms(4,5) p_ext_weaken in auto)
qed

lemma runs_bind:
  assumes p: "runs m K a b p" and f: "\<And>x. runs (m - a) any_kind a' b' (f x)"
  shows "runs m K (a + a') (min b (a + b')) (p_bind p f)"
proof (rule runsI)
  fix s assume s: "p_inv s" "tokens_left s \<le> m" "K (peek_kind s)"
  show "case p_bind p f s of Parsed x s' \<Rightarrow> p_ext (a + a') s s'
      | Rejected e s' \<Rightarrow> p_ext (min b (a + b')) s s' | Stuck \<Rightarrow> False"
  proof (cases "p s")
    case (Parsed x t)
    then have st: "p_ext a s t" using runsD [OF p s] by auto
    have t: "p_inv t" "tokens_left t \<le> m - a" using p_ext_left [OF st] s(2) by auto
    have tu: "case f x t of Parsed y u \<Rightarrow> p_ext a' t u | Rejected e u \<Rightarrow> p_ext b' t u | Stuck \<Rightarrow> False"
      using f [of x] t by (simp add: runs_def)
    have "p_ext (min b (a + b')) s u" if "p_ext b' t u" for u
      by (rule p_ext_weaken [OF p_ext_trans [OF st that]]) simp
    then show ?thesis using tu p_ext_trans [OF st] by (simp add: p_bind_def Parsed split: outcome.splits)
  next
    case (Rejected e t)
    then have "p_ext b s t" using runsD [OF p s] by auto
    then have "p_ext (min b (a + b')) s t" by (rule p_ext_weaken) simp
    then show ?thesis by (simp add: p_bind_def Rejected)
  next
    case Stuck
    then show ?thesis using runsD [OF p s] by auto
  qed
qed

text \<open>The two ways a sequence consumes: in its first part, or in its second.\<close>

lemma good_bind [parser_ok]: "good m K p \<Longrightarrow> (\<And>x. good m any_kind (f x)) \<Longrightarrow> good m K (p_bind p f)"
  using runs_bind [of m K 0 0 p 0 0 f] by simp

lemma good_bind_eats: "eats m K p \<Longrightarrow> (\<And>x. good (m - 1) any_kind (f x)) \<Longrightarrow> good m K (p_bind p f)"
  using runs_bind [of m K 1 0 p 0 0 f] runs_weaken [of m K "1 + 0" "min 0 (1 + 0)" "p_bind p f" m K 0 0] by simp

lemma eats_bind: "eats m K p \<Longrightarrow> (\<And>x. good (m - 1) any_kind (f x)) \<Longrightarrow> eats m K (p_bind p f)"
  using runs_bind [of m K 1 0 p 0 0 f] by simp

lemma eats_bind_later: "good m K p \<Longrightarrow> (\<And>x. eats m any_kind (f x)) \<Longrightarrow> eats m K (p_bind p f)"
  using runs_bind [of m K 0 0 p 1 0 f] by simp

lemma moves_bind: "moves m K p \<Longrightarrow> (\<And>x. good (m - 1) any_kind (f x)) \<Longrightarrow> moves m K (p_bind p f)"
  using runs_bind [of m K 1 1 p 0 0 f] by simp

lemma eats_good: "eats m K p \<Longrightarrow> good m K p"
  by (erule runs_weaken) auto

lemma moves_eats: "moves m K p \<Longrightarrow> eats m K p"
  by (erule runs_weaken) auto

lemma good_any: "good m any_kind p \<Longrightarrow> good m K p"
  by (erule runs_weaken) auto

lemma eats_any: "eats m any_kind p \<Longrightarrow> eats m K p"
  by (erule runs_weaken) auto

lemma runs_less: "runs m K a b p \<Longrightarrow> runs (m - 1) K a b p"
  by (erule runs_weaken) auto

lemma runs_if [parser_ok]:
  "runs m (\<lambda>k. K k \<and> c k) a b p \<Longrightarrow> runs m (\<lambda>k. K k \<and> \<not> c k) a b q \<Longrightarrow> runs m K a b (p_if c p q)"
  by (simp add: runs_def p_if_def)

lemma runs_fuel [parser_ok]:
  assumes "\<And>n. runs (min m n) K a b (p n)"
  shows "runs m K a b (\<lambda>s. p (p_fuel s) s)"
proof (rule runsI)
  fix s assume s: "p_inv s" "tokens_left s \<le> m" "K (peek_kind s)"
  have "tokens_left s \<le> min m (p_fuel s)" using s(2) by (simp add: tokens_left_def p_fuel_def)
  from runsD [OF assms s(1) this s(3)]
  show "case p (p_fuel s) s of Parsed x s' \<Rightarrow> p_ext a s s' | Rejected e s' \<Rightarrow> p_ext b s s' | Stuck \<Rightarrow> False"
    by cases simp_all
qed

subsection \<open>The primitives\<close>

lemma good_return [parser_ok]: "good m K (p_return x)"
  by (simp add: runs_def p_return_def p_ext_refl)

lemma good_fail [parser_ok]: "runs m K a 0 (p_fail e)"
  by (simp add: runs_def p_fail_def p_ext_refl)

lemma good_prev_end [parser_ok]: "good m K prev_end"
  by (simp add: runs_def prev_end_def p_ext_refl)

lemma next_state_ext:
  assumes "p_inv s"
  shows "p_ext 0 s (next_state s)" and "peek_kind s \<noteq> TEof \<Longrightarrow> p_ext 1 s (next_state s)"
proof -
  show "p_ext 0 s (next_state s)" using assms by (auto simp: next_state_def p_ext_def p_inv_def)
  assume k: "peek_kind s \<noteq> TEof"
  have "ps_idx s + 1 < length (ps_tokens s)"
  proof (rule ccontr)
    assume "\<not> ps_idx s + 1 < length (ps_tokens s)"
    then have "ps_idx s = length (ps_tokens s) - 1" using assms unfolding p_inv_def by linarith
    then have "peek_kind s = tk_kind (last (ps_tokens s))"
      using assms by (simp add: peek_kind_def peek_token_def p_inv_def token_stream_def last_conv_nth)
    with k assms show False by (simp add: p_inv_def token_stream_def)
  qed
  then show "p_ext 1 s (next_state s)" using assms by (auto simp: next_state_def p_ext_def p_inv_def)
qed

lemma good_next [parser_ok]: "good m K p_next"
  by (simp add: runs_def p_next_def next_state_ext)

lemma moves_to_next:
  assumes "\<And>s. K (peek_kind s) \<Longrightarrow> (\<exists>x. p s = Parsed x (next_state s)) \<and> peek_kind s \<noteq> TEof"
  shows "moves m K p"
proof (rule runsI)
  fix s assume "p_inv s" "K (peek_kind s)"
  with assms next_state_ext(2)
  show "case p s of Parsed x s' \<Rightarrow> p_ext 1 s s' | Rejected e s' \<Rightarrow> p_ext 1 s s' | Stuck \<Rightarrow> False"
    by fastforce
qed

lemma moves_next: "\<not> K TEof \<Longrightarrow> moves m K p_next"
  by (rule moves_to_next) (auto simp: p_next_def)

lemma runs_peek:
  assumes "\<And>tok. runs m (\<lambda>k. K k \<and> k = tk_kind tok) a b (f tok)"
  shows "runs m K a b (p_bind p_peek f)"
proof (rule runsI)
  fix s assume s: "p_inv s" "tokens_left s \<le> m" "K (peek_kind s)"
  have "K (peek_kind s) \<and> peek_kind s = tk_kind (peek_token s)" using s by (simp add: peek_kind_def)
  from runsD [OF assms s(1,2) this]
  show "case p_bind p_peek f s of Parsed x s' \<Rightarrow> p_ext a s s' | Rejected e s' \<Rightarrow> p_ext b s s' | Stuck \<Rightarrow> False"
    by cases (simp_all add: p_bind_def p_peek_def)
qed

text \<open>A parser that either takes the next token, which is not the end of input, or rejects it.\<close>

lemma eats_take:
  assumes "\<And>s. (\<exists>x. p s = Parsed x (next_state s) \<and> peek_kind s \<noteq> TEof) \<or> (\<exists>e. p s = Rejected e s)"
  shows "eats m K p"
proof (rule runsI)
  fix s assume "p_inv s"
  with assms [of s] show "case p s of Parsed x s' \<Rightarrow> p_ext 1 s s' | Rejected e s' \<Rightarrow> p_ext 0 s s' | Stuck \<Rightarrow> False"
    using next_state_ext p_ext_refl by auto
qed

lemma eats_kw [parser_ok]: "eats m K (consume_kw kw)"
  by (rule eats_take) (simp add: consume_kw_def Let_def)

lemma moves_kw: "(\<And>k. K k \<Longrightarrow> k = TKw kw) \<Longrightarrow> moves m K (consume_kw kw)"
  by (rule moves_to_next) (fastforce simp: consume_kw_def)

lemma eats_word [parser_ok]: "eats m K (consume_word_exact w)"
  by (rule eats_take) (auto simp: consume_word_exact_def Let_def)

lemma eats_kind: "\<not> pred TEof \<Longrightarrow> eats m K (consume_kind expected pred)"
  by (rule eats_take) (auto simp: consume_kind_def Let_def)

lemma eats_punct [parser_ok]: "k \<noteq> TEof \<Longrightarrow> eats m K (consume_punct k expected)"
  by (rule eats_take) (simp add: consume_punct_def Let_def)

text \<open>A token that was consumed by kind has that kind.\<close>

lemma eats_kind_bind:
  assumes "\<not> pred TEof" "\<And>tok. pred (tk_kind tok) \<Longrightarrow> good m any_kind (f tok)"
  shows "eats m K (p_bind (consume_kind expected pred) f)"
proof -
  define g where "g tok = (if pred (tk_kind tok) then f tok else p_fail undefined)" for tok
  have "p_bind (consume_kind expected pred) f = p_bind (consume_kind expected pred) g"
    by (rule ext) (simp add: p_bind_def consume_kind_def Let_def g_def peek_kind_def)
  moreover have "eats m K (p_bind (consume_kind expected pred) g)"
  proof (rule eats_bind [OF eats_kind [of pred, OF assms(1)]])
    show "good (m - 1) any_kind (g x)" for x
      by (cases "pred (tk_kind x)") (simp_all only: g_def if_True if_False runs_less [OF assms(2)] good_fail)
  qed
  ultimately show ?thesis by simp
qed

lemma eats_string_lit [parser_ok]: "eats m K parse_string_lit"
  unfolding parse_string_lit_def
  by (rule eats_kind_bind) (auto split: token_kind.splits intro!: parser_ok)

lemma eats_ident_any [parser_ok]: "eats m K parse_ident_any"
  unfolding parse_ident_any_def
  by (rule eats_kind_bind) (auto simp: is_word_def split: token_kind.splits intro!: parser_ok)

lemma eats_word_any [parser_ok]: "eats m K parse_word_any"
  unfolding parse_word_any_def
  by (rule eats_kind_bind) (auto simp: is_word_def split: token_kind.splits intro!: parser_ok)

lemma eats_ident_non_kw [parser_ok]: "eats m K parse_ident_non_kw"
  unfolding parse_ident_non_kw_def
  by (rule eats_kind_bind) (auto split: token_kind.splits intro!: parser_ok)

subsection \<open>Loops\<close>

lemma good_while_loop:
  assumes "eats m c p"
  shows "good (min m n) any_kind (p_while_loop n c p acc)"
proof (induction n arbitrary: acc)
  case 0
  then show ?case by (simp add: runs_zero)
next
  case (Suc n)
  have "good (min m (Suc n)) c (p_bind p (\<lambda>x. p_while_loop n c p (acc @ [x])))"
  proof (rule good_bind_eats)
    show "eats (min m (Suc n)) c p" by (rule runs_weaken [OF assms]) auto
    show "good (min m (Suc n) - 1) any_kind (p_while_loop n c p (acc @ [x]))" for x
      by (rule runs_weaken [OF Suc.IH]) auto
  qed
  then show ?case
    unfolding runs_def by (subst p_while_loop.simps) (simp add: p_ext_refl)
qed

lemma good_while_entered: "eats m c p \<Longrightarrow> good m any_kind (p_while c p acc)"
  unfolding p_while_def by (rule runs_fuel) (rule good_while_loop)

lemma good_while [parser_ok]: "eats m any_kind p \<Longrightarrow> good m any_kind (p_while c p acc)"
  by (rule good_while_entered, rule eats_any)

lemma eats_comma_list [parser_ok]: "eats m any_kind p \<Longrightarrow> eats m any_kind (p_comma_list p)"
  unfolding p_comma_list_def
  by (rule eats_bind, assumption)
    (intro good_while eats_bind_later good_next runs_less)

lemma good_list_until [parser_ok]: "eats m any_kind p \<Longrightarrow> good m any_kind (p_list_until close p)"
  unfolding p_list_until_def
  by (rule runs_if) (rule good_return, rule good_any, rule eats_good, rule eats_comma_list)

subsection \<open>The expression ladder\<close>

lemma good_binary_loop:
  assumes "eats m any_kind sub"
  shows "good (min m n) any_kind (binary_loop n ops sub left)"
proof (induction n arbitrary: left)
  case 0
  then show ?case by (simp add: runs_zero)
next
  case (Suc n)
  have step: "good (min m (Suc n)) any_kind (p_bind p_next (\<lambda>_. p_bind sub (\<lambda>right.
      binary_loop n ops sub (binary_expr op left right))))" for op
  proof (rule good_bind [OF good_next], rule good_bind_eats)
    show "eats (min m (Suc n)) any_kind sub" by (rule runs_weaken [OF assms]) auto
    show "good (min m (Suc n) - 1) any_kind (binary_loop n ops sub (binary_expr op left right))" for right
      by (rule runs_weaken [OF Suc.IH]) auto
  qed
  have "binary_loop (Suc n) ops sub left s =
      (case ops (peek_kind s) of None \<Rightarrow> Parsed left s | Some op \<Rightarrow>
        p_bind p_next (\<lambda>_. p_bind sub (\<lambda>right. binary_loop n ops sub (binary_expr op left right))) s)" for s
    by (subst binary_loop.simps) (simp split: option.split)
  then show ?case using step unfolding runs_def by (auto simp: p_ext_refl split: option.splits)
qed

lemma eats_binary_level [parser_ok]: "eats m any_kind sub \<Longrightarrow> eats m any_kind (binary_level ops sub)"
  unfolding binary_level_def
proof (rule eats_bind, assumption, rule runs_fuel)
  fix left n assume "eats m any_kind sub"
  then show "good (min (m - 1) n) any_kind (binary_loop n ops sub left)"
    by (rule good_binary_loop [OF runs_less])
qed

lemmas parser_good = good_bind good_return good_prev_end good_next
  eats_good [OF eats_kw] eats_good [OF eats_word] eats_good [OF eats_punct]
  eats_good [OF eats_string_lit] eats_good [OF eats_ident_any] eats_good [OF eats_word_any]
  eats_good [OF eats_ident_non_kw]

lemma runs_cond: "(c \<Longrightarrow> runs m K a b p) \<Longrightarrow> (\<not> c \<Longrightarrow> runs m K a b q) \<Longrightarrow> runs m K a b (if c then p else q)"
  by simp

lemma eats_next_bind: "\<not> K TEof \<Longrightarrow> (\<And>x. good (m - 1) any_kind (f x)) \<Longrightarrow> eats m K (p_bind p_next f)"
  by (rule eats_bind [OF moves_eats [OF moves_next]])

lemma eats_paren_expr_list:
  "eats (m - 1) any_kind e \<Longrightarrow> eats m K (parse_paren_expr_list e)"
  unfolding parse_paren_expr_list_def
  by (rule eats_bind [OF eats_punct]) (simp, intro parser_good good_list_until, assumption, simp)

lemma eats_presence: "\<not> K TEof \<Longrightarrow> eats m K (parse_presence mk start)"
  unfolding parse_presence_def
  by (rule eats_next_bind, assumption) (intro parser_good; simp)

lemma eats_leaf: "\<not> K TEof \<Longrightarrow> eats m K (p_bind p_next (\<lambda>_. p_return x))"
  by (rule eats_next_bind, assumption) (rule good_return)

lemma eats_primary:
  assumes "eats (m - 1) any_kind e"
  shows "eats m any_kind (parse_primary e)"
proof -
  have paren: "eats m K (p_bind p_next (\<lambda>_. p_bind e (\<lambda>x.
      p_bind (consume_punct TRParen '')'') (\<lambda>_. p_return x))))" if "\<not> K TEof" for K
    by (rule eats_next_bind, fact) (intro parser_good eats_good [OF assms]; simp)
  show ?thesis
    unfolding parse_primary_def
  proof (rule runs_peek, goal_cases)
    case (1 tok)
    show ?case
      by (cases "tk_kind tok"; simp only: Let_def token_kind.case; (intro runs_cond)?)
        (rule eats_leaf eats_presence good_fail paren; simp)+
  qed
qed

lemma eats_suffix:
  assumes "eats (m - 1) any_kind e"
  shows "eats m opens_suffix (parse_suffix e x)"
  unfolding parse_suffix_def
proof (intro runs_if eats_next_bind eats_bind [OF eats_paren_expr_list [OF assms]])
qed (intro parser_good eats_good [OF assms] | simp add: opens_suffix_def)+

lemma good_postfix_loop:
  assumes "eats (m - 1) any_kind e"
  shows "good (min m n) any_kind (postfix_loop n e x)"
proof (induction n arbitrary: x)
  case 0
  then show ?case by (simp add: runs_zero)
next
  case (Suc n)
  have "good (min m (Suc n)) opens_suffix (p_bind (parse_suffix e x) (\<lambda>y. postfix_loop n e y))"
  proof (rule good_bind_eats)
    show "eats (min m (Suc n)) opens_suffix (parse_suffix e x)"
      by (rule runs_weaken [OF eats_suffix [OF assms]]) auto
    show "good (min m (Suc n) - 1) any_kind (postfix_loop n e y)" for y
      by (rule runs_weaken [OF Suc.IH]) auto
  qed
  moreover have "postfix_loop (Suc n) e x s = (if opens_suffix (peek_kind s) then
      p_bind (parse_suffix e x) (\<lambda>y. postfix_loop n e y) s else Parsed x s)" for s
    by (subst postfix_loop.simps) simp
  ultimately show ?case
    unfolding runs_def by (simp add: p_ext_refl)
qed

lemma eats_postfix:
  assumes "eats (m - 1) any_kind e"
  shows "eats m any_kind (parse_postfix e)"
  unfolding parse_postfix_def
  by (rule eats_bind [OF eats_primary [OF assms]], rule runs_fuel)
    (rule good_postfix_loop [OF runs_less [OF assms]])

lemma eats_unary_depth:
  assumes "eats (m - 1) any_kind e"
  shows "eats (min m n) any_kind (unary_depth n e)"
proof (induction n)
  case 0
  then show ?case by (simp add: runs_zero)
next
  case (Suc n)
  define neg where "neg k \<longleftrightarrow> k = TBang \<or> k = TKw ''not''" for k
  have step: "eats (min m (Suc n)) neg (p_bind p_next (\<lambda>_. p_bind (unary_depth n e) (\<lambda>inner.
      p_return (Expr (XUnary UnNot inner) (g inner)))))" for g
  proof (rule eats_bind [OF moves_eats [OF moves_next]], simp add: neg_def,
      intro good_bind good_return eats_good)
    show "eats (min m (Suc n) - 1) any_kind (unary_depth n e)"
      by (rule runs_weaken [OF Suc.IH]) auto
  qed
  have post: "eats (min m (Suc n)) any_kind (parse_postfix e)"
    by (rule runs_weaken [OF eats_postfix [OF assms]]) auto
  have "unary_depth (Suc n) e s = (if neg (peek_kind s) then
      p_bind p_next (\<lambda>_. p_bind (unary_depth n e) (\<lambda>inner. p_return (Expr (XUnary UnNot inner)
        (span_new (sp_start (peek_span s)) (sp_stop (ex_span inner)))))) s
      else parse_postfix e s)" for s
    by (subst unary_depth.simps) (simp add: neg_def)
  then show ?case
    using step post unfolding runs_def by simp
qed

lemma eats_unary: "eats (m - 1) any_kind e \<Longrightarrow> eats m any_kind (parse_unary e)"
  unfolding parse_unary_def by (rule runs_fuel) (rule eats_unary_depth)

lemma eats_additive_with: "eats (m - 1) any_kind e \<Longrightarrow> eats m any_kind (parse_additive_with e)"
  unfolding parse_additive_with_def parse_multiplicative_def by (intro eats_binary_level eats_unary)

lemma eats_logic_or: "eats (m - 1) any_kind e \<Longrightarrow> eats m any_kind (parse_logic_or e)"
  unfolding parse_logic_or_def parse_logic_and_def parse_equality_def
  by (intro eats_binary_level eats_additive_with)

lemma eats_expr_at_depth: "eats n any_kind (expr_at_depth n)"
proof (induction n)
  case 0
  then show ?case by (simp add: runs_zero)
next
  case (Suc n)
  have "expr_at_depth (Suc n) = parse_logic_or (expr_at_depth n)" by (rule ext) (subst expr_at_depth.simps, simp)
  then show ?case using eats_logic_or [of "Suc n" "expr_at_depth n"] Suc by simp
qed

lemma eats_expr [parser_ok]: "eats m K parse_expr"
  unfolding parse_expr_def
  by (rule eats_any, rule runs_fuel) (rule runs_weaken [OF eats_expr_at_depth], auto)

lemma eats_additive [parser_ok]: "eats m K parse_additive"
  unfolding parse_additive_def
  by (rule eats_any, rule runs_fuel)
    (rule eats_additive_with, rule runs_weaken [OF eats_expr_at_depth], auto)

lemma p_inv_new: "token_stream ts \<Longrightarrow> p_inv (pstate_new ts)"
  by (simp add: p_inv_def pstate_new_def token_stream_def)

end
