(* ===== verification/Adgl_Parses.thy ===== *)
theory Adgl_Parses
  imports Adgl_Productions Adgl_Parser_Total
begin

text \<open>
  Every production of the ADGL grammar meets the contract of \<open>Adgl_Parser_Total\<close>; recovery moves
  past the failed item; so \<open>parse_expression\<close> and \<open>parse_ruleset\<close> return on every source, with
  a tree or with diagnostics.
\<close>

lemma runs_option [parser_ok]:
  "(\<And>x. runs m K a b (f x)) \<Longrightarrow> runs m K a b g \<Longrightarrow> runs m K a b (case v of None \<Rightarrow> g | Some x \<Rightarrow> f x)"
  by (cases v) auto

lemma runs_prod [parser_ok]: "(\<And>x y. runs m K a b (f x y)) \<Longrightarrow> runs m K a b (case v of (x, y) \<Rightarrow> f x y)"
  by (cases v) auto

lemma good_reject: "(\<And>s. p s = Rejected (g s) s) \<Longrightarrow> runs m K a 0 p"
  by (simp add: runs_def p_ext_refl)

lemma good_errors [parser_ok]:
  "runs m K a 0 sign_error" "runs m K a 0 stmt_error" "runs m K a 0 anchor_error"
  "runs m K a 0 source_error" "runs m K a 0 too_many_requires" "runs m K a 0 trailing_error"
  by (rule good_reject, simp add: sign_error_def stmt_error_def anchor_error_def source_error_def
      too_many_requires_def trailing_error_def Let_def; rule refl)+

lemma good_docs_here: "good m K docs_here"
  by (simp add: runs_def docs_here_def p_ext_refl)

text \<open>The rules for sequences, and what the parts of a sequence do.\<close>

lemmas seq_rules = good_bind good_return good_prev_end good_next good_docs_here good_fail good_errors
  runs_if runs_cond runs_option runs_prod
  good_while good_list_until

lemmas part_rules = eats_kw eats_word eats_punct eats_string_lit eats_ident_any eats_word_any
  eats_ident_non_kw eats_expr eats_additive

lemmas good_parts = part_rules [THEN eats_good]

subsection \<open>Names and statements\<close>

lemma eats_ref_list: "eats m K parse_ref_list"
  unfolding parse_ref_list_def
  by (rule eats_bind [OF eats_punct], simp) (intro seq_rules good_parts part_rules; simp)

lemma eats_scope_type: "eats m K parse_scope_type"
  unfolding parse_scope_type_def
  by (rule eats_bind [OF eats_ident_any]) (intro seq_rules)

lemma eats_severity: "eats m K parse_severity"
  unfolding parse_severity_def
  by (rule eats_bind [OF eats_ident_any]) (intro seq_rules)

lemma eats_segment: "eats m K parse_segment"
  unfolding parse_segment_def
  by (rule eats_bind [OF eats_word_any]) (intro seq_rules)

lemma eats_kind_ident: "eats m K parse_kind_ident"
  unfolding parse_kind_ident_def
  by (rule eats_bind [OF eats_segment])
    (intro seq_rules eats_bind_later [OF good_next] eats_segment)

lemma eats_kind_ident_in_parens: "eats m K parse_kind_ident_in_parens"
  unfolding parse_kind_ident_in_parens_def
  by (rule eats_bind [OF eats_punct], simp) (intro seq_rules good_parts eats_good [OF eats_kind_ident]; simp)

lemma eats_ident_in_parens: "eats m K parse_ident_in_parens"
  unfolding parse_ident_in_parens_def
  by (rule eats_bind [OF eats_punct], simp) (intro seq_rules good_parts; simp)

lemma good_infer_weight: "good m K (signed_weight sp i)"
  unfolding signed_weight_def
  by (rule eats_good, rule eats_kind_bind, simp) (intro seq_rules)

lemmas name_goods = eats_ref_list [THEN eats_good] eats_scope_type [THEN eats_good]
  eats_severity [THEN eats_good] eats_kind_ident_in_parens [THEN eats_good]
  eats_ident_in_parens [THEN eats_good] good_infer_weight

lemma eats_infer_field: "eats m K parse_infer_field"
  unfolding parse_infer_field_def
  by (rule eats_bind [OF eats_word_any]) (intro seq_rules good_parts name_goods; simp)

lemma eats_emit_field: "eats m K parse_emit_field"
  unfolding parse_emit_field_def
  by (rule eats_bind [OF eats_word_any]) (intro seq_rules good_parts name_goods; simp)

lemma eats_action_field: "eats m K parse_action_field"
  unfolding parse_action_field_def
  by (rule eats_bind [OF eats_word_any]) (intro seq_rules good_parts name_goods; simp)

lemma eats_infer_stmt: "eats m K parse_infer_stmt"
  unfolding parse_infer_stmt_def
  by (rule eats_bind [OF eats_kw]) (intro seq_rules good_parts name_goods eats_infer_field; simp)

lemma eats_emit_stmt: "eats m K parse_emit_stmt"
  unfolding parse_emit_stmt_def
  by (rule eats_bind [OF eats_kw]) (intro seq_rules good_parts name_goods eats_emit_field; simp)

lemma eats_action_stmt: "eats m K parse_action_stmt"
  unfolding parse_action_stmt_def
  by (rule eats_bind [OF eats_kw]) (intro seq_rules good_parts name_goods eats_action_field; simp)

lemma eats_stmt_any: "eats m K parse_stmt_any"
  unfolding parse_stmt_any_def
  by (intro runs_if good_errors eats_bind [OF eats_infer_stmt] eats_bind [OF eats_emit_stmt]
      eats_bind [OF eats_action_stmt] good_return)

lemma eats_stmt_in_rule: "eats m K (parse_stmt_in_rule b)"
  unfolding parse_stmt_in_rule_def
proof (rule eats_bind [OF eats_stmt_any], goal_cases)
  case (1 st)
  show ?case by (cases st; simp only: adgl_stmt.case; intro seq_rules)
qed

lemma eats_stmt_block: "eats m K parse_stmt_block"
  unfolding parse_stmt_block_def
  by (rule eats_bind [OF eats_punct], simp) (intro seq_rules good_parts eats_stmt_any; simp)

lemma eats_if_else: "eats m K parse_if_else_block"
  unfolding parse_if_else_block_def
  by (rule eats_bind [OF eats_kw]) (intro seq_rules good_parts eats_good [OF eats_stmt_block])

subsection \<open>Anchors, correlates and rules\<close>

lemma good_optional_predicate: "good m K parse_optional_predicate"
  unfolding parse_optional_predicate_def
  by (intro seq_rules good_parts; simp)

lemma good_anchor_block: "good m K parse_anchor_block"
  unfolding parse_anchor_block_def
  by (intro seq_rules good_parts name_goods good_optional_predicate; simp)

lemma good_decision_anchor: "good m K parse_decision_anchor"
  unfolding parse_decision_anchor_def
  by (intro seq_rules good_parts name_goods good_optional_predicate; simp)

lemma good_min_match: "good m K parse_optional_min_match"
  unfolding parse_optional_min_match_def Let_def
  by (intro seq_rules good_parts eats_good [OF eats_kind]; simp)

lemma good_correlate_source: "good m K parse_correlate_source"
  unfolding parse_correlate_source_def
  by (intro seq_rules good_parts name_goods)

lemma good_topo_predicate: "good m K parse_topo_predicate"
  unfolding parse_topo_predicate_def
  by (intro seq_rules good_parts eats_good [OF eats_paren_expr_list] eats_expr)

lemma good_time_window: "good m K parse_time_window"
  unfolding parse_time_window_def
  by (intro seq_rules good_parts; simp)

lemma eats_correlate_block: "eats m K parse_correlate_block"
  unfolding parse_correlate_block_def
  by (rule eats_bind [OF eats_kw])
    (intro seq_rules good_parts good_correlate_source good_topo_predicate good_time_window
      good_min_match; simp)

lemma good_scope_header: "good m K parse_scope_header"
  unfolding parse_scope_header_def
  by (intro seq_rules good_parts name_goods; simp)

lemmas rule_goods = good_scope_header good_anchor_block good_decision_anchor eats_correlate_block
  eats_stmt_in_rule eats_good [OF eats_if_else]

lemma good_correlates: "good m K parse_correlates"
  unfolding parse_correlates_def by (rule good_any, rule good_while, rule eats_correlate_block)

lemma good_optional_if: "good m K parse_optional_if"
  unfolding parse_optional_if_def by (intro seq_rules rule_goods)

text \<open>A rule or declaration that is entered at its keyword moves even when it fails.\<close>

lemma moves_docs_bind:
  assumes "\<And>doc. moves m K (f doc)"
  shows "moves m K (p_bind docs_here f)"
  using assms unfolding runs_def by (simp add: p_bind_def docs_here_def)

lemma moves_evidence_rule: "moves m (\<lambda>k. K k \<and> k = TKw ''evidence'') parse_evidence_rule"
  unfolding parse_evidence_rule_def
  by (rule moves_docs_bind, rule moves_bind [OF moves_kw], simp)
    (intro seq_rules good_parts rule_goods good_correlates good_optional_if good_any [OF good_while]; simp)

lemma moves_decision_rule: "moves m (\<lambda>k. K k \<and> k = TKw ''decision'') parse_decision_rule"
  unfolding parse_decision_rule_def
  by (rule moves_docs_bind, rule moves_bind [OF moves_kw], simp)
    (intro seq_rules good_parts rule_goods good_correlates good_optional_if good_any [OF good_while]; simp)

lemma moves_requires_decl: "moves m (\<lambda>k. K k \<and> k = TKw ''requires'') parse_requires_decl"
  unfolding parse_requires_decl_def
  by (rule moves_bind [OF moves_kw], simp) (intro seq_rules good_parts part_rules; simp)

lemma moves_exclusive_decl:
  "moves m (\<lambda>k. K k \<and> k = TKw ''mutually_exclusive'') parse_mutually_exclusive_decl"
  unfolding parse_mutually_exclusive_decl_def
  by (rule moves_bind [OF moves_kw], simp)
    (intro seq_rules good_parts part_rules eats_good [OF eats_comma_list]; simp)

subsection \<open>Recovery and the ruleset\<close>

lemma record_error_ext: "p_ext a s s' \<Longrightarrow> p_ext a s (record_error e s')"
  by (auto simp: p_ext_def record_error_def p_inv_def diag_of_def Let_def)

lemma resync_loop_ext:
  assumes "p_inv s" "tokens_left s \<le> n"
  shows "\<exists>s'. resync_loop n s = Some s' \<and> p_ext 0 s s'"
  using assms
proof (induction n arbitrary: s)
  case 0
  then show ?case using tokens_left_pos [of s] by simp
next
  case (Suc n)
  show ?case
  proof (cases "peek_kind s = TEof")
    case True
    then show ?thesis using Suc.prems by (subst resync_loop.simps) (simp add: Let_def p_ext_refl)
  next
    case False
    have ext: "p_ext 1 s (next_state s)" by (rule next_state_ext(2) [OF Suc.prems(1) False])
    then obtain s' where s': "resync_loop n (next_state s) = Some s'" "p_ext 0 (next_state s) s'"
      using Suc.IH [of "next_state s"] Suc.prems(2) p_ext_left [OF ext] by auto
    have "p_ext 0 s s'" using p_ext_weaken [OF p_ext_trans [OF ext s'(2)]] by simp
    moreover have "p_ext 0 s (next_state s)" by (rule p_ext_weaken [OF ext]) simp
    ultimately show ?thesis
      using s'(1) False p_ext_refl [OF Suc.prems(1)] by (subst resync_loop.simps) (simp add: Let_def)
  qed
qed

lemma resync_ext:
  assumes "p_inv s"
  shows "\<exists>s'. resync_decl_or_rule s = Some s' \<and> p_ext 0 s s'"
proof -
  obtain t where t: "resync_loop (p_fuel s) s = Some t" "p_ext 0 s t"
    using resync_loop_ext [OF assms, of "p_fuel s"] by (auto simp: tokens_left_def p_fuel_def)
  have "p_ext 0 s (next_state t)"
    using p_ext_trans [OF t(2) next_state_ext(1)] p_ext_left [OF t(2)] by simp
  with t show ?thesis by (simp add: resync_decl_or_rule_def Let_def)
qed

text \<open>An item that moves on failure is consumed by recovery: the loops over items make progress.\<close>

lemma moves_recover_item:
  assumes "moves m K p"
  shows "moves m K (recover_item p)"
proof (rule runsI)
  fix s assume s: "p_inv s" "tokens_left s \<le> m" "K (peek_kind s)"
  from assms s have r: "case p s of Parsed x s' \<Rightarrow> p_ext 1 s s' | Rejected e s' \<Rightarrow> p_ext 1 s s' | Stuck \<Rightarrow> False"
    unfolding runs_def by blast
  show "case recover_item p s of Parsed x s' \<Rightarrow> p_ext 1 s s' | Rejected e s' \<Rightarrow> p_ext 1 s s' | Stuck \<Rightarrow> False"
  proof (cases "p s")
    case (Rejected e t)
    with r have ext: "p_ext 1 s t" by simp
    then have rec: "p_ext 1 s (record_error e t)" by (rule record_error_ext)
    then obtain u where u: "resync_decl_or_rule (record_error e t) = Some u" "p_ext 0 (record_error e t) u"
      using resync_ext p_ext_left by blast
    have "p_ext 1 s u" using p_ext_trans [OF rec u(2)] by simp
    with ext u(1) show ?thesis by (simp add: recover_item_def Rejected)
  qed (use r in \<open>simp_all add: recover_item_def\<close>)
qed

lemma moves_map: "moves m K p \<Longrightarrow> moves m K (p_bind p (\<lambda>x. p_return (f x)))"
  by (rule moves_bind) (auto intro: good_return)

lemma moves_cond_kind:
  assumes "moves m (\<lambda>k. K k \<and> k = a) p" "moves m (\<lambda>k. K k \<and> k = b) q"
  shows "moves m (\<lambda>k. K k \<and> (k = a \<or> k = b)) (p_if (\<lambda>k. k = a) p q)"
  by (rule runs_if) (rule runs_weaken [OF assms(1)] runs_weaken [OF assms(2)]; auto)+

lemma good_decl_items: "good m any_kind (p_while is_decl_kw parse_decl_item [])"
proof (rule good_while_entered, rule moves_eats)
  have "moves m (\<lambda>k. True \<and> (k = TKw ''requires'' \<or> k = TKw ''mutually_exclusive'')) parse_decl_item"
    unfolding parse_decl_item_def
    by (intro moves_cond_kind moves_recover_item moves_map moves_requires_decl moves_exclusive_decl)
  then show "moves m is_decl_kw parse_decl_item" by (simp add: is_decl_kw_def [abs_def])
qed

lemma good_rule_items: "good m any_kind (p_while is_rule_kw parse_rule_item [])"
proof (rule good_while_entered, rule moves_eats)
  have "moves m (\<lambda>k. True \<and> (k = TKw ''evidence'' \<or> k = TKw ''decision'')) parse_rule_item"
    unfolding parse_rule_item_def
    by (intro moves_cond_kind moves_recover_item moves_map moves_evidence_rule moves_decision_rule)
  then show "moves m is_rule_kw parse_rule_item" by (simp add: is_rule_kw_def [abs_def])
qed

lemma good_ruleset_header: "good m K parse_ruleset_header"
proof -
  have "good m (\<lambda>k. K k \<and> k = tk_kind tok) (p_then (consume_kw ''version'')
     (p_then (consume_punct TEq ''='')
     (p_bind parse_string_lit (\<lambda>version.
      p_bind (p_while is_decl_kw parse_decl_item []) (\<lambda>items. p_return (f version items))))))" for tok f
    by (intro good_bind good_return good_parts good_decl_items; simp)
  then show ?thesis unfolding parse_ruleset_header_def Let_def by (rule runs_peek)
qed

lemma good_ruleset: "good m K parse_ruleset_prod"
  unfolding parse_ruleset_prod_def
  by (intro seq_rules good_parts good_rule_items good_ruleset_header; simp)

lemma p_inv_recovering: "p_inv (s\<lparr>ps_recover := r\<rparr>) = p_inv s"
  by (simp add: p_inv_def)

lemma parse_ruleset_result:
  assumes "takes_runs tw"
  shows "\<exists>r. parse_ruleset tw src = Some r \<and> (\<forall>ds. r = Inl ds \<longrightarrow> has_errors ds)"
proof -
  obtain t where t: "tokenize tw src = Some t" "\<And>ts. t = Inr ts \<Longrightarrow> token_stream ts"
    using tokenize_result [OF assms, of src] by blast
  show ?thesis
  proof (cases t)
    case (Inl e)
    then show ?thesis using t(1)
      by (simp add: parse_ruleset_def diag_from_err_def diag_of_def Let_def)
  next
    case (Inr ts)
    define s where "s = (pstate_new ts)\<lparr>ps_recover := True\<rparr>"
    have inv: "p_inv s" using t(2) [OF Inr] by (simp add: s_def p_inv_recovering p_inv_new)
    have run: "case parse_ruleset_prod s of Parsed x s' \<Rightarrow> p_ext 0 s s' | Rejected e s' \<Rightarrow> p_ext 0 s s' | Stuck \<Rightarrow> False"
      using good_ruleset [of "tokens_left s" any_kind] inv unfolding runs_def by blast
    have errs: "ps_diags s' \<noteq> [] \<Longrightarrow> has_errors (ps_diags s')" if "p_ext 0 s s'" for s'
      using that by (cases "ps_diags s'") (auto simp: p_ext_def s_def pstate_new_def)
    show ?thesis
    proof (cases "parse_ruleset_prod s")
      case (Parsed rs s')
      then show ?thesis using run errs t(1) Inr by (simp add: parse_ruleset_def s_def)
    next
      case (Rejected e s')
      then show ?thesis using t(1) Inr
        by (simp add: parse_ruleset_def s_def record_error_def diag_of_def Let_def)
    next
      case Stuck
      then show ?thesis using run by simp
    qed
  qed
qed

end
