(* ===== verification/Adgl_Unparse.thy ===== *)
theory Adgl_Unparse
  imports Adgl_Parses
begin

text \<open>
  The expression grammar as a printer: \<open>unparse\<close> writes an expression with the parentheses that
  precedence and left associativity require and no others. The levels of the parser's ladder are
  numbered, and the statements that \<open>Adgl_Roundtrip\<close> proves of them are set up.
\<close>

subsection \<open>Printing\<close>

fun binop_level :: "adgl_binop \<Rightarrow> nat" where
  "binop_level BinOr = 0"
| "binop_level BinAnd = 1"
| "binop_level BinAdd = 3"
| "binop_level BinSub = 3"
| "binop_level BinMul = 4"
| "binop_level BinDiv = 4"
| "binop_level BinRem = 4"
| "binop_level _ = 2"

fun binop_token :: "adgl_binop \<Rightarrow> token_kind" where
  "binop_token BinOr = TOrOr"
| "binop_token BinAnd = TAndAnd"
| "binop_token BinEq = TEqEq"
| "binop_token BinNe = TNe"
| "binop_token BinLt = TLt"
| "binop_token BinLe = TLe"
| "binop_token BinGt = TGt"
| "binop_token BinGe = TGe"
| "binop_token BinIn = TKw ''in''"
| "binop_token BinAdd = TPlus"
| "binop_token BinSub = TMinus"
| "binop_token BinMul = TStar"
| "binop_token BinDiv = TSlash"
| "binop_token BinRem = TPercent"

text \<open>The level of the ladder an expression belongs to: 5 is unary, 6 postfix and primary.\<close>

fun expr_level :: "adgl_expr \<Rightarrow> nat" where
  "expr_level (Expr (XBinary op l r) sp) = binop_level op"
| "expr_level (Expr (XUnary op x) sp) = 5"
| "expr_level _ = 6"

definition parens :: "bool \<Rightarrow> token_kind list \<Rightarrow> token_kind list" where
  "parens b ks = (if b then TLParen # ks @ [TRParen] else ks)"

fun commas :: "token_kind list list \<Rightarrow> token_kind list" where
  "commas [] = []"
| "commas [ks] = ks"
| "commas (ks # kss) = ks @ TComma # commas kss"

fun unparse :: "adgl_expr \<Rightarrow> token_kind list" where
  "unparse (Expr (XInt i) sp) = [TInt (il_value i)]"
| "unparse (Expr (XDuration d) sp) = [TDuration (dl_millis d)]"
| "unparse (Expr (XString v) sp) = [TString (sl_value v)]"
| "unparse (Expr (XIdent i) sp) = [TIdent (id_name i)]"
| "unparse (Expr (XBool b) sp) = [TKw (if b then ''true'' else ''false'')]"
| "unparse (Expr (XPresent i) sp) = [TKw ''present'', TLParen, TIdent (id_name i), TRParen]"
| "unparse (Expr (XAbsent i) sp) = [TKw ''absent'', TLParen, TIdent (id_name i), TRParen]"
| "unparse (Expr (XUnary op x) sp) = TBang # parens (expr_level x < 5) (unparse x)"
| "unparse (Expr (XBinary op l r) sp) =
     parens (expr_level l < binop_level op) (unparse l) @ binop_token op #
     parens (expr_level r < binop_level op + 1) (unparse r)"
| "unparse (Expr (XField b f) sp) = parens (expr_level b < 6) (unparse b) @ [TDot, TIdent (id_name f)]"
| "unparse (Expr (XCall c args) sp) =
     parens (expr_level c < 6) (unparse c) @ TLParen # commas (map unparse args) @ [TRParen]"
| "unparse (Expr (XIndex b i) sp) =
     parens (expr_level b < 6) (unparse b) @ TLBracket # unparse i @ [TRBracket]"

abbreviation print_at :: "nat \<Rightarrow> adgl_expr \<Rightarrow> token_kind list" where
  "print_at n x \<equiv> parens (expr_level x < n) (unparse x)"

text \<open>An expression without its spans.\<close>

definition erase_ident :: "ident \<Rightarrow> ident" where
  "erase_ident i = i\<lparr>id_span := span_unknown\<rparr>"

fun erase :: "adgl_expr \<Rightarrow> adgl_expr" where
  "erase (Expr (XInt i) sp) = Expr (XInt (i\<lparr>il_span := span_unknown\<rparr>)) span_unknown"
| "erase (Expr (XDuration d) sp) = Expr (XDuration (d\<lparr>dl_span := span_unknown\<rparr>)) span_unknown"
| "erase (Expr (XString v) sp) = Expr (XString (v\<lparr>sl_span := span_unknown\<rparr>)) span_unknown"
| "erase (Expr (XIdent i) sp) = Expr (XIdent (erase_ident i)) span_unknown"
| "erase (Expr (XBool b) sp) = Expr (XBool b) span_unknown"
| "erase (Expr (XPresent i) sp) = Expr (XPresent (erase_ident i)) span_unknown"
| "erase (Expr (XAbsent i) sp) = Expr (XAbsent (erase_ident i)) span_unknown"
| "erase (Expr (XUnary op x) sp) = Expr (XUnary op (erase x)) span_unknown"
| "erase (Expr (XBinary op l r) sp) = Expr (XBinary op (erase l) (erase r)) span_unknown"
| "erase (Expr (XField b f) sp) = Expr (XField (erase b) (erase_ident f)) span_unknown"
| "erase (Expr (XCall c args) sp) = Expr (XCall (erase c) (map erase args)) span_unknown"
| "erase (Expr (XIndex b i) sp) = Expr (XIndex (erase b) (erase i)) span_unknown"

lemma erase_ident_eq: "erase_ident i = erase_ident j \<longleftrightarrow> id_name i = id_name j"
  by (cases i; cases j) (simp add: erase_ident_def)

subsection \<open>Reading token kinds\<close>

definition reads :: "pstate \<Rightarrow> token_kind list \<Rightarrow> bool" where
  "reads s ks \<longleftrightarrow> p_inv s \<and> map tk_kind (drop (ps_idx s) (ps_tokens s)) = ks"

lemma reads_length: "reads s ks \<Longrightarrow> length ks = tokens_left s"
  by (auto simp: reads_def tokens_left_def)

lemma reads_fuel: "reads s ks \<Longrightarrow> length ks \<le> p_fuel s"
  by (auto simp: reads_def p_fuel_def)

lemma reads_peek: "reads s (k # ks) \<Longrightarrow> peek_kind s = k"
  unfolding reads_def peek_kind_def peek_token_def p_inv_def
  by (metis Cons_nth_drop_Suc One_nat_def Suc_leI Suc_pred diff_is_0_eq' length_greater_0_conv
      list.inject list.simps(9) min.absorb1 nat_less_le not_less_eq_eq token_stream_def)

lemma reads_hd: "reads s (ks @ ls) \<Longrightarrow> ks \<noteq> [] \<Longrightarrow> peek_kind s = hd ks"
  using reads_peek [of s "hd ks" "tl ks @ ls"] by (cases ks) simp_all

lemma reads_next: "reads s (k # ks) \<Longrightarrow> ks \<noteq> [] \<Longrightarrow> reads (next_state s) ks"
proof -
  assume s: "reads s (k # ks)" "ks \<noteq> []"
  have inv: "p_inv s" using s(1) by (simp add: reads_def)
  have len: "ps_idx s + 1 < length (ps_tokens s)"
    using reads_length [OF s(1)] s(2) by (cases ks) (simp_all add: tokens_left_def)
  have "map tk_kind (drop (Suc (ps_idx s)) (ps_tokens s)) = ks"
    using s(1) by (metis drop_Suc drop_map list.sel(3) reads_def tl_drop)
  with len inv show "reads (next_state s) ks"
    by (simp add: reads_def next_state_def p_inv_def)
qed

lemma reads_punct:
  "reads s (k # ks) \<Longrightarrow> ks \<noteq> [] \<Longrightarrow> \<exists>sp. consume_punct k e s = Parsed sp (next_state s)"
  by (simp add: consume_punct_def reads_peek)

lemma reads_ident:
  "reads s (TIdent w # ks) \<Longrightarrow> \<exists>i. parse_ident_any s = Parsed i (next_state s) \<and> id_name i = w"
  using reads_peek [of s "TIdent w" ks]
  by (simp add: parse_ident_any_def p_bind_def consume_kind_def is_word_def p_return_def peek_kind_def)

text \<open>A parser reads the expression \<open>x\<close> at a state and leaves \<open>rest\<close>.\<close>

definition parses_as :: "adgl_expr parser \<Rightarrow> pstate \<Rightarrow> adgl_expr \<Rightarrow> token_kind list \<Rightarrow> bool" where
  "parses_as p s x rest \<longleftrightarrow> (\<exists>y t. p s = Parsed y t \<and> erase y = erase x \<and> reads t rest)"

lemma parses_asE:
  assumes "parses_as p s x rest"
  obtains y t where "p s = Parsed y t" "erase y = erase x" "reads t rest"
  using assms by (auto simp: parses_as_def)

subsection \<open>The ladder by level\<close>

definition ops_at :: "nat \<Rightarrow> token_kind \<Rightarrow> adgl_binop option" where
  "ops_at n = [or_op, and_op, equality_op, additive_op, multiplicative_op] ! n"

definition ladder :: "nat \<Rightarrow> adgl_expr parser \<Rightarrow> adgl_expr parser" where
  "ladder n e = [parse_logic_or e, parse_logic_and e, parse_equality e, parse_additive_with e,
     parse_multiplicative e, parse_unary e, parse_postfix e] ! n"

lemma less_five: "n < 5 \<Longrightarrow> n = 0 \<or> n = 1 \<or> n = 2 \<or> n = 3 \<or> n = (4 :: nat)"
  by linarith

lemma ladder_step: "n < 5 \<Longrightarrow> ladder n e = binary_level (ops_at n) (ladder (n + 1) e)"
  using less_five [of n]
  by (auto simp: ladder_def ops_at_def parse_logic_or_def parse_logic_and_def parse_equality_def
      parse_additive_with_def parse_multiplicative_def)

lemma ladder_ends: "ladder 5 e = parse_unary e" "ladder 6 e = parse_postfix e"
  by (simp_all add: ladder_def)

lemma ladder_expr: "0 < n \<Longrightarrow> expr_at_depth n = ladder 0 (expr_at_depth (n - 1))"
  by (rule ext, subst expr_at_depth.simps) (simp add: ladder_def)

text \<open>A token that continues no level from \<open>n\<close> up.\<close>

definition quiet :: "nat \<Rightarrow> token_kind \<Rightarrow> bool" where
  "quiet n k \<longleftrightarrow> (\<forall>i. n \<le> i \<and> i < 5 \<longrightarrow> ops_at i k = None) \<and> \<not> opens_suffix k"

lemma quiet_mono: "quiet m k \<Longrightarrow> m \<le> n \<Longrightarrow> quiet n k"
  by (auto simp: quiet_def)

lemma quiet_closers: "quiet n TRParen" "quiet n TRBracket" "quiet n TComma" "quiet n TEof"
  using less_five by (fastforce simp: quiet_def opens_suffix_def ops_at_def or_op_def and_op_def)+

lemma quiet_binop: "quiet (binop_level op + 1) (binop_token op)"
  unfolding quiet_def
proof (intro conjI allI impI)
  fix i assume "binop_level op + 1 \<le> i \<and> i < 5"
  then show "ops_at i (binop_token op) = None"
    using less_five [of i] by (cases op) (auto simp: ops_at_def and_op_def)
qed (cases op; simp add: opens_suffix_def)

lemma ops_at_binop: "ops_at (binop_level op) (binop_token op) = Some op"
  by (cases op) (simp_all add: ops_at_def or_op_def and_op_def)

lemma binop_level_less: "binop_level op < 5"
  by (cases op) simp_all

lemma expr_level_le: "expr_level x \<le> 6"
proof (cases x)
  case (Expr k sp)
  have "binop_level op \<le> 6" for op using binop_level_less [of op] by simp
  with Expr show ?thesis by (cases k) auto
qed

subsection \<open>The three statements\<close>

text \<open>Level \<open>n\<close> of the ladder reads \<open>x\<close> printed for it.\<close>

definition main :: "nat \<Rightarrow> adgl_expr \<Rightarrow> bool" where
  "main n x \<longleftrightarrow>
     (\<forall>d s rest. reads s (print_at n x @ rest) \<and> rest \<noteq> [] \<and> quiet n (hd rest) \<and> tokens_left s \<le> d + 1
        \<longrightarrow> parses_as (ladder n (expr_at_depth d)) s x rest)"

lemma mainD:
  assumes "main n x" "reads s (print_at n x @ rest)" "rest \<noteq> []" "quiet n (hd rest)" "tokens_left s \<le> d + 1"
  obtains y t where "ladder n (expr_at_depth d) s = Parsed y t" "erase y = erase x" "reads t rest"
  using assms unfolding main_def parses_as_def by blast

text \<open>Before a token that only level \<open>n\<close> itself continues, it reaches its loop with \<open>x\<close> read.\<close>

definition chain :: "nat \<Rightarrow> adgl_expr \<Rightarrow> bool" where
  "chain n x \<longleftrightarrow>
     (\<forall>d s rest. reads s (print_at n x @ rest) \<and> rest \<noteq> [] \<and> quiet (n + 1) (hd rest) \<and> tokens_left s \<le> d + 1
        \<longrightarrow> (\<exists>y t m. ladder n (expr_at_depth d) s = binary_loop m (ops_at n) (ladder (n + 1) (expr_at_depth d)) y t
              \<and> erase y = erase x \<and> reads t rest \<and> length rest \<le> m))"

definition post :: "adgl_expr \<Rightarrow> bool" where
  "post x \<longleftrightarrow>
     (\<forall>d s rest. reads s (print_at 6 x @ rest) \<and> rest \<noteq> [] \<and> tokens_left s \<le> d + 1
        \<longrightarrow> (\<exists>y t m. parse_postfix (expr_at_depth d) s = postfix_loop m (expr_at_depth d) y t
              \<and> erase y = erase x \<and> reads t rest \<and> length rest \<le> m))"

lemma binary_loop_quiet:
  assumes "ops k = None" "reads t (k # ks)"
  shows "binary_loop m ops sub y t = Parsed y t"
  using assms by (subst binary_loop.simps) (simp add: reads_peek)

lemma chain_main:
  assumes "chain n x" "n < 5"
  shows "main n x"
  unfolding main_def
proof (intro allI impI, elim conjE)
  fix d s rest
  assume s: "reads s (print_at n x @ rest)" "rest \<noteq> []" "quiet n (hd rest)" "tokens_left s \<le> d + 1"
  then obtain y t m where loop: "ladder n (expr_at_depth d) s = binary_loop m (ops_at n) (ladder (n + 1) (expr_at_depth d)) y t"
      "erase y = erase x" "reads t rest"
    using assms(1) quiet_mono [OF s(3), of "n + 1"] unfolding chain_def by fastforce
  moreover have "ops_at n (hd rest) = None" using s(3) assms(2) by (simp add: quiet_def)
  ultimately show "parses_as (ladder n (expr_at_depth d)) s x rest"
    using binary_loop_quiet [of "ops_at n" "hd rest" t "tl rest"] s(2) by (simp add: parses_as_def)
qed

text \<open>One level down, when the level adds nothing to the printed form.\<close>

lemma descend:
  assumes "main (n + 1) x" "n < 5" "expr_level x \<noteq> n"
  shows "chain n x"
  unfolding chain_def
proof (intro allI impI, elim conjE)
  fix d s rest
  assume s: "reads s (print_at n x @ rest)" "rest \<noteq> []" "quiet (n + 1) (hd rest)" "tokens_left s \<le> d + 1"
  have "print_at n x = print_at (n + 1) x" using assms(3) by (auto simp: parens_def)
  then have "parses_as (ladder (n + 1) (expr_at_depth d)) s x rest"
    using assms(1) s unfolding main_def by metis
  then obtain y t where y: "ladder (n + 1) (expr_at_depth d) s = Parsed y t" "erase y = erase x" "reads t rest"
    by (rule parses_asE)
  have "ladder n (expr_at_depth d) s = binary_loop (p_fuel t) (ops_at n) (ladder (n + 1) (expr_at_depth d)) y t"
    using y(1) by (simp add: ladder_step [OF assms(2)] binary_level_def p_bind_def)
  with y reads_fuel [OF y(3)]
  show "\<exists>y t m. ladder n (expr_at_depth d) s = binary_loop m (ops_at n) (ladder (n + 1) (expr_at_depth d)) y t
      \<and> erase y = erase x \<and> reads t rest \<and> length rest \<le> m" by blast
qed

lemma post_main:
  assumes "post x"
  shows "main 6 x"
  unfolding main_def
proof (intro allI impI, elim conjE)
  fix d s rest
  assume s: "reads s (print_at 6 x @ rest)" "rest \<noteq> []" "quiet 6 (hd rest)" "tokens_left s \<le> d + 1"
  then obtain y t m where loop: "parse_postfix (expr_at_depth d) s = postfix_loop m (expr_at_depth d) y t"
      "erase y = erase x" "reads t rest"
    using assms unfolding post_def by blast
  have "\<not> opens_suffix (peek_kind t)"
    using s(2,3) reads_peek [of t "hd rest" "tl rest"] loop(3) by (simp add: quiet_def)
  then have "postfix_loop m (expr_at_depth d) y t = Parsed y t" by (subst postfix_loop.simps) simp
  with loop show "parses_as (ladder 6 (expr_at_depth d)) s x rest" by (simp add: parses_as_def ladder_ends)
qed

end
