(* ===== verification/Adgl_Roundtrip.thy ===== *)
theory Adgl_Roundtrip
  imports Adgl_Unparse
begin

text \<open>
  The expression parser reads back every printed expression, spans aside; and the depth of its
  recursion, which the nesting limit of the tokenizer does not bound.
\<close>

subsection \<open>The steps\<close>

text \<open>Nested expressions are read at a smaller depth, which suffices for the fewer tokens left.\<close>

lemma main_nested:
  assumes "main 0 x" "reads s (unparse x @ rest)" "rest \<noteq> []" "quiet 0 (hd rest)" "tokens_left s \<le> d"
  shows "parses_as (expr_at_depth d) s x rest"
proof -
  have "0 < d" using assms(5) tokens_left_pos [of s] assms(2) by (simp add: reads_def)
  then show ?thesis
    using assms unfolding main_def ladder_expr [OF \<open>0 < d\<close>] by (simp add: parens_def)
qed

lemma leaf_post:
  assumes "expr_level x = 6"
    and leaf: "\<And>e s rest. reads s (unparse x @ rest) \<Longrightarrow> rest \<noteq> [] \<Longrightarrow> parses_as (parse_primary e) s x rest"
  shows "post x"
  unfolding post_def
proof (intro allI impI, elim conjE)
  fix d s rest
  assume "reads s (print_at 6 x @ rest)" "rest \<noteq> []"
  then have "parses_as (parse_primary (expr_at_depth d)) s x rest"
    using leaf assms(1) by (simp add: parens_def)
  then obtain y t where y: "parse_primary (expr_at_depth d) s = Parsed y t" "erase y = erase x" "reads t rest"
    by (rule parses_asE)
  then have "parse_postfix (expr_at_depth d) s = postfix_loop (p_fuel t) (expr_at_depth d) y t"
    by (simp add: parse_postfix_def p_bind_def)
  with y reads_fuel [OF y(3)]
  show "\<exists>y t m. parse_postfix (expr_at_depth d) s = postfix_loop m (expr_at_depth d) y t
      \<and> erase y = erase x \<and> reads t rest \<and> length rest \<le> m" by blast
qed

lemma primary_token:
  assumes "reads s (k # rest)"
  shows "tk_kind (peek_token s) = k"
  using reads_peek [OF assms] by (simp add: peek_kind_def)

lemma presence_accepts:
  assumes "reads s (TKw w # TLParen # TIdent v # TRParen # rest)" "rest \<noteq> []"
    and "parse_primary e s = parse_presence mk start s"
    and "\<And>i sp. id_name i = v \<Longrightarrow> erase (Expr (mk i) sp) = erase x"
  shows "parses_as (parse_primary e) s x rest"
proof -
  have s1: "reads (next_state s) (TLParen # TIdent v # TRParen # rest)" using reads_next [OF assms(1)] by simp
  have s2: "reads (next_state (next_state s)) (TIdent v # TRParen # rest)" using reads_next [OF s1] by simp
  have s3: "reads (next_state (next_state (next_state s))) (TRParen # rest)" using reads_next [OF s2] by simp
  have s4: "reads (next_state (next_state (next_state (next_state s)))) rest"
    using reads_next [OF s3] assms(2) by simp
  obtain sp1 where 1: "consume_punct TLParen ''('' (next_state s) = Parsed sp1 (next_state (next_state s))"
    using reads_punct [OF s1] by auto
  obtain i where 2: "parse_ident_any (next_state (next_state s)) = Parsed i (next_state (next_state (next_state s)))"
      "id_name i = v"
    using reads_ident [OF s2] by auto
  obtain sp2 where 3: "consume_punct TRParen '')'' (next_state (next_state (next_state s)))
      = Parsed sp2 (next_state (next_state (next_state (next_state s))))"
    using reads_punct [OF s3] assms(2) by auto
  show ?thesis
    using 1 2 3 s4 assms(3,4)
    by (simp add: parses_as_def parse_presence_def p_bind_def p_next_def p_return_def)
qed

lemma paren_post:
  assumes "main 0 x" "expr_level x < 6"
  shows "post x"
  unfolding post_def
proof (intro allI impI, elim conjE)
  fix d s rest
  assume "reads s (print_at 6 x @ rest)" and rest: "rest \<noteq> []" and left: "tokens_left s \<le> d + 1"
  then have s: "reads s (TLParen # unparse x @ TRParen # rest)" using assms(2) by (simp add: parens_def)
  have s1: "reads (next_state s) (unparse x @ TRParen # rest)" using reads_next [OF s] by simp
  have "tokens_left (next_state s) \<le> d" using reads_length [OF s] reads_length [OF s1] left by simp
  then have "parses_as (expr_at_depth d) (next_state s) x (TRParen # rest)"
    using main_nested [OF assms(1) s1] quiet_closers by simp
  then obtain y t where y: "expr_at_depth d (next_state s) = Parsed y t" "erase y = erase x" "reads t (TRParen # rest)"
    by (rule parses_asE)
  obtain sp where close: "consume_punct TRParen '')'' t = Parsed sp (next_state t)"
    using reads_punct [OF y(3) rest] by blast
  have t': "reads (next_state t) rest" using reads_next [OF y(3) rest] .
  have "parse_primary (expr_at_depth d) s = Parsed y (next_state t)"
    using y(1) close primary_token [OF s]
    by (simp add: parse_primary_def p_bind_def p_peek_def p_next_def p_return_def Let_def)
  then have "parse_postfix (expr_at_depth d) s = postfix_loop (p_fuel (next_state t)) (expr_at_depth d) y (next_state t)"
    by (simp add: parse_postfix_def p_bind_def)
  with y(2) t' reads_fuel [OF t']
  show "\<exists>y t m. parse_postfix (expr_at_depth d) s = postfix_loop m (expr_at_depth d) y t
      \<and> erase y = erase x \<and> reads t rest \<and> length rest \<le> m" by blast
qed

text \<open>A suffix read after its base: the loop goes on with one step less.\<close>

lemma suffix_post:
  assumes base: "post b" and "expr_level x = 6" and px: "unparse x = print_at 6 b @ k # ks"
    and k: "opens_suffix k"
    and step: "\<And>d y t rest. erase y = erase b \<Longrightarrow> reads t (k # ks @ rest) \<Longrightarrow> rest \<noteq> [] \<Longrightarrow>
        tokens_left t \<le> d + 1 \<Longrightarrow> parses_as (parse_suffix (expr_at_depth d) y) t x rest"
  shows "post x"
  unfolding post_def
proof (intro allI impI, elim conjE)
  fix d s rest
  assume s: "reads s (print_at 6 x @ rest)" and rest: "rest \<noteq> []" and left: "tokens_left s \<le> d + 1"
  then have s': "reads s (print_at 6 b @ k # ks @ rest)" using assms(2) px by (simp add: parens_def)
  then obtain y t m where loop: "parse_postfix (expr_at_depth d) s = postfix_loop m (expr_at_depth d) y t"
      "erase y = erase b" and t: "reads t (k # ks @ rest)" and m: "length (k # ks @ rest) \<le> m"
    using base left unfolding post_def by (metis list.discI)
  have "tokens_left t \<le> d + 1" using reads_length [OF t] reads_length [OF s'] left by simp
  from step [OF loop(2) t rest this]
  obtain z u where z: "parse_suffix (expr_at_depth d) y t = Parsed z u" "erase z = erase x" "reads u rest"
    by (rule parses_asE)
  have "postfix_loop m (expr_at_depth d) y t = postfix_loop (m - 1) (expr_at_depth d) z u"
    using m k z(1) reads_peek [OF t] by (subst postfix_loop.simps) (simp add: p_bind_def)
  moreover have "length rest \<le> m - 1" using m by simp
  ultimately show "\<exists>y t m. parse_postfix (expr_at_depth d) s = postfix_loop m (expr_at_depth d) y t
      \<and> erase y = erase x \<and> reads t rest \<and> length rest \<le> m" using loop(1) z(2,3) by metis
qed

lemma field_post:
  assumes "post b"
  shows "post (Expr (XField b f) sp)"
proof (rule suffix_post [OF assms, where k = TDot and ks = "[TIdent (id_name f)]"])
  fix d y t rest
  assume y: "erase y = erase b" and t: "reads t (TDot # [TIdent (id_name f)] @ rest)" and rest: "rest \<noteq> []"
  have t1: "reads (next_state t) (TIdent (id_name f) # rest)" using reads_next [OF t] by simp
  obtain i where i: "parse_ident_any (next_state t) = Parsed i (next_state (next_state t))" "id_name i = id_name f"
    using reads_ident [OF t1] by blast
  have "erase_ident i = erase_ident f" using i(2) by (simp add: erase_ident_eq)
  then show "parses_as (parse_suffix (expr_at_depth d) y) t (Expr (XField b f) sp) rest"
    using i reads_next [OF t1 rest] reads_peek [OF t] y
    by (simp add: parses_as_def parse_suffix_def p_if_def p_bind_def p_next_def p_return_def)
qed (simp_all add: opens_suffix_def)

lemma index_post:
  assumes "post b" "main 0 i"
  shows "post (Expr (XIndex b i) sp)"
proof (rule suffix_post [OF assms(1), where k = TLBracket and ks = "unparse i @ [TRBracket]"])
  fix d y t rest
  assume y: "erase y = erase b" and t: "reads t (TLBracket # (unparse i @ [TRBracket]) @ rest)"
    and rest: "rest \<noteq> []" and left: "tokens_left t \<le> d + 1"
  have t1: "reads (next_state t) (unparse i @ TRBracket # rest)" using reads_next [OF t] by simp
  have "tokens_left (next_state t) \<le> d" using reads_length [OF t] reads_length [OF t1] left by simp
  from main_nested [OF assms(2) t1 _ _ this]
  obtain z u where z: "expr_at_depth d (next_state t) = Parsed z u" "erase z = erase i" "reads u (TRBracket # rest)"
    using quiet_closers by (auto elim: parses_asE)
  obtain sp' where close: "consume_punct TRBracket '']'' u = Parsed sp' (next_state u)"
    using reads_punct [OF z(3) rest] by blast
  show "parses_as (parse_suffix (expr_at_depth d) y) t (Expr (XIndex b i) sp) rest"
    using z(1,2) close reads_next [OF z(3) rest] reads_peek [OF t] y
    by (simp add: parses_as_def parse_suffix_def p_if_def p_bind_def p_next_def p_return_def)
qed (simp_all add: opens_suffix_def)

text \<open>The first token of a printed expression.\<close>

lemma hd_parens: "ks \<noteq> [] \<Longrightarrow> hd (parens b ks) = (if b then TLParen else hd ks)" "ks \<noteq> [] \<Longrightarrow> parens b ks \<noteq> []"
  by (simp_all add: parens_def)

lemma unparse_hd:
  "unparse x \<noteq> [] \<and> hd (unparse x) \<noteq> TRParen \<and>
   (expr_level x = 6 \<longrightarrow> hd (unparse x) \<noteq> TBang \<and> hd (unparse x) \<noteq> TKw ''not'')"
proof (induction x rule: unparse.induct)
  case (9 op l r sp)
  then show ?case using binop_level_less [of op] by (auto simp: hd_parens)
next
  case (10 b f sp)
  then show ?case using expr_level_le [of b] by (auto simp: hd_parens)
next
  case (11 c args sp)
  then show ?case using expr_level_le [of c] by (auto simp: hd_parens)
next
  case (12 b i sp)
  then show ?case using expr_level_le [of b] by (auto simp: hd_parens)
qed simp_all

lemma length_args: "length xs \<le> length (concat (map ((#) TComma) xs))"
  by (induction xs) simp_all

lemma commas_Cons: "commas (ks # kss) = ks @ concat (map ((#) TComma) kss)"
  by (induction kss arbitrary: ks) auto

lemma args_loop:
  assumes "\<forall>x\<in>set args. main 0 x" "reads t (concat (map ((#) TComma) (map unparse args)) @ TRParen # rest)"
    and "length args \<le> m" "tokens_left t \<le> d"
  shows "\<exists>ys u. p_while_loop m (\<lambda>k. k = TComma) (p_then p_next (expr_at_depth d)) acc t = Parsed (acc @ ys) u
    \<and> map erase ys = map erase args \<and> reads u (TRParen # rest)"
  using assms
proof (induction args arbitrary: t m acc)
  case Nil
  then show ?case using reads_peek [of t TRParen rest] by (subst p_while_loop.simps) simp
next
  case (Cons x args)
  define more where "more = concat (map ((#) TComma) (map unparse args)) @ TRParen # rest"
  have t: "reads t (TComma # unparse x @ more)" using Cons.prems(2) by (simp add: more_def)
  have t1: "reads (next_state t) (unparse x @ more)" using reads_next [OF t] by (simp add: more_def)
  have q: "more \<noteq> []" "quiet 0 (hd more)" using quiet_closers by (cases args; simp add: more_def)+
  have "tokens_left (next_state t) \<le> d" using reads_length [OF t] reads_length [OF t1] Cons.prems(4) by simp
  from main_nested [OF _ t1 q this] Cons.prems(1)
  obtain y u where y: "expr_at_depth d (next_state t) = Parsed y u" "erase y = erase x" "reads u more"
    by (auto elim: parses_asE)
  have left: "tokens_left u \<le> d"
    using reads_length [OF t] reads_length [OF y(3)] Cons.prems(4) by simp
  obtain ys v where ys: "p_while_loop (m - 1) (\<lambda>k. k = TComma) (p_then p_next (expr_at_depth d)) (acc @ [y]) u
      = Parsed ((acc @ [y]) @ ys) v" "map erase ys = map erase args" "reads v (TRParen # rest)"
  proof -
    have m: "length args \<le> m - 1" using Cons.prems(3) by simp
    have "\<forall>x\<in>set args. main 0 x" using Cons.prems(1) by simp
    from Cons.IH [OF this y(3) [unfolded more_def] m left, of "acc @ [y]"] that show ?thesis by blast
  qed
  have "p_while_loop m (\<lambda>k. k = TComma) (p_then p_next (expr_at_depth d)) acc t = Parsed (acc @ y # ys) v"
    using Cons.prems(3) reads_peek [OF t] y(1) ys(1)
    by (subst p_while_loop.simps) (simp add: p_bind_def p_next_def)
  with y(2) ys(2,3) show ?case by force
qed

lemma args_list:
  assumes "\<forall>x\<in>set args. main 0 x" "reads t (commas (map unparse args) @ TRParen # rest)" "tokens_left t \<le> d"
  shows "\<exists>ys u. p_list_until TRParen (expr_at_depth d) t = Parsed ys u
    \<and> map erase ys = map erase args \<and> reads u (TRParen # rest)"
proof (cases args)
  case Nil
  then show ?thesis using assms(2) reads_peek [of t TRParen rest]
    by (simp add: p_list_until_def p_if_def p_return_def)
next
  case (Cons x args')
  define more where "more = concat (map ((#) TComma) (map unparse args')) @ TRParen # rest"
  have t: "reads t (unparse x @ more)" using assms(2) Cons commas_Cons [of "unparse x" "map unparse args'"] by (simp add: more_def)
  have q: "more \<noteq> []" "quiet 0 (hd more)" using quiet_closers by (cases args'; simp add: more_def)+
  obtain y u where y: "expr_at_depth d t = Parsed y u" "erase y = erase x" "reads u more"
    using main_nested [OF _ t q assms(3)] assms(1) Cons by (auto elim: parses_asE)
  have left: "tokens_left u \<le> d"
    using reads_length [OF t] reads_length [OF y(3)] assms(3) by simp
  have "length args' \<le> length more" using length_args [of "map unparse args'"] by (simp add: more_def)
  then have fuel: "length args' \<le> p_fuel u" using reads_fuel [OF y(3)] by simp
  obtain ys v where ys: "p_while_loop (p_fuel u) (\<lambda>k. k = TComma) (p_then p_next (expr_at_depth d)) [y] u
      = Parsed ([y] @ ys) v" "map erase ys = map erase args'" "reads v (TRParen # rest)"
    using args_loop [OF _ y(3) [unfolded more_def] fuel left, of "[y]"] assms(1) Cons by auto
  have "peek_kind t \<noteq> TRParen"
    using reads_hd [OF t] unparse_hd [of x] by simp
  then have "p_list_until TRParen (expr_at_depth d) t = Parsed (y # ys) v"
    using y(1) ys(1) by (simp add: p_list_until_def p_if_def p_comma_list_def p_while_def p_bind_def)
  with y(2) ys(2,3) Cons show ?thesis by auto
qed
lemma call_post:
  assumes "post c" "\<forall>x\<in>set args. main 0 x"
  shows "post (Expr (XCall c args) sp)"
proof (rule suffix_post [OF assms(1), where k = TLParen and ks = "commas (map unparse args) @ [TRParen]"])
  fix d y t rest
  assume y: "erase y = erase c" and t: "reads t (TLParen # (commas (map unparse args) @ [TRParen]) @ rest)"
    and rest: "rest \<noteq> []" and left: "tokens_left t \<le> d + 1"
  have t1: "reads (next_state t) (commas (map unparse args) @ TRParen # rest)" using reads_next [OF t] by simp
  have "tokens_left (next_state t) \<le> d" using reads_length [OF t] reads_length [OF t1] left by simp
  from args_list [OF assms(2) t1 this]
  obtain ys u where ys: "p_list_until TRParen (expr_at_depth d) (next_state t) = Parsed ys u"
      "map erase ys = map erase args" "reads u (TRParen # rest)" by blast
  obtain sp1 where enter: "consume_punct TLParen ''('' t = Parsed sp1 (next_state t)"
    using reads_punct [OF t] by auto
  obtain sp2 where close: "consume_punct TRParen '')'' u = Parsed sp2 (next_state u)"
    using reads_punct [OF ys(3) rest] by blast
  show "parses_as (parse_suffix (expr_at_depth d) y) t (Expr (XCall c args) sp) rest"
    using ys(1,2) enter close reads_next [OF ys(3) rest] reads_peek [OF t] y
    by (simp add: parses_as_def parse_suffix_def p_if_def p_bind_def p_return_def parse_paren_expr_list_def
        prev_end_def)
qed (simp_all add: opens_suffix_def)

text \<open>The bound of \<open>unary_depth\<close> does not matter once it covers the tokens left.\<close>

lemma unary_fuel:
  "p_inv s \<Longrightarrow> tokens_left s \<le> m \<Longrightarrow> tokens_left s \<le> n \<Longrightarrow> unary_depth m e s = unary_depth n e s"
proof (induction m arbitrary: s n)
  case 0
  then show ?case using tokens_left_pos [of s] by simp
next
  case (Suc m)
  have n: "n \<noteq> 0" using Suc.prems tokens_left_pos [of s] by simp
  show ?case
  proof (cases "peek_kind s = TBang \<or> peek_kind s = TKw ''not''")
    case True
    then have "peek_kind s \<noteq> TEof" by auto
    then have ext: "p_ext 1 s (next_state s)" using next_state_ext(2) Suc.prems(1) by blast
    then have "unary_depth m e (next_state s) = unary_depth (n - 1) e (next_state s)"
      using p_ext_left [OF ext] Suc.prems by (intro Suc.IH) auto
    then show ?thesis
      using True n by (subst (1 2) unary_depth.simps) (simp add: p_bind_def p_next_def)
  next
    case False
    then show ?thesis by (subst (1 2) unary_depth.simps) simp
  qed
qed

lemma unary_main:
  assumes "main 5 x"
  shows "main 5 (Expr (XUnary op x) sp)"
  unfolding main_def
proof (intro allI impI, elim conjE)
  fix d s rest
  assume "reads s (print_at 5 (Expr (XUnary op x) sp) @ rest)"
    and rest: "rest \<noteq> []" "quiet 5 (hd rest)" and left: "tokens_left s \<le> d + 1"
  then have s: "reads s (TBang # print_at 5 x @ rest)" by (simp add: parens_def)
  have s1: "reads (next_state s) (print_at 5 x @ rest)" using reads_next [OF s] rest by simp
  have "tokens_left (next_state s) \<le> d + 1" using reads_length [OF s] reads_length [OF s1] left by simp
  then obtain y t where y: "parse_unary (expr_at_depth d) (next_state s) = Parsed y t" "erase y = erase x" "reads t rest"
    using mainD [OF assms s1 rest] by (auto simp: ladder_ends)
  have fuel: "p_fuel (next_state s) = p_fuel s" by (simp add: p_fuel_def next_state_def)
  have len: "tokens_left (next_state s) \<le> p_fuel s - 1" "p_fuel s \<noteq> 0"
    using reads_length [OF s] reads_length [OF s1] reads_fuel [OF s] by simp_all
  have "unary_depth (p_fuel s - 1) (expr_at_depth d) (next_state s) = Parsed y t"
    using y(1) unary_fuel [of "next_state s" "p_fuel s - 1" "p_fuel s" "expr_at_depth d"] s1 len fuel
    by (simp add: parse_unary_def reads_def)
  then show "parses_as (ladder 5 (expr_at_depth d)) s (Expr (XUnary op x) sp) rest"
    using y(2,3) len(2) reads_peek [OF s]
    by (cases op) (simp add: parses_as_def ladder_ends parse_unary_def unary_depth.simps [of "p_fuel s"] p_bind_def
        p_next_def p_return_def)
qed

lemma binary_chain:
  assumes l: "chain (binop_level op) l" and r: "main (binop_level op + 1) r"
  shows "chain (binop_level op) (Expr (XBinary op l r) sp)"
  unfolding chain_def
proof (intro allI impI, elim conjE)
  let ?n = "binop_level op"
  fix d s rest
  assume "reads s (print_at ?n (Expr (XBinary op l r) sp) @ rest)" and rest: "rest \<noteq> []" "quiet (?n + 1) (hd rest)"
    and left: "tokens_left s \<le> d + 1"
  then have s: "reads s (print_at ?n l @ binop_token op # print_at (?n + 1) r @ rest)"
    by (simp add: parens_def)
  let ?E = "expr_at_depth d"
  obtain y t m where loop: "ladder ?n ?E s = binary_loop m (ops_at ?n) (ladder (?n + 1) ?E) y t"
      "erase y = erase l" and t: "reads t (binop_token op # print_at (?n + 1) r @ rest)"
      and m: "length (binop_token op # print_at (?n + 1) r @ rest) \<le> m"
    using l s left quiet_binop [of op] unfolding chain_def by (metis list.discI list.sel(1))
  have t1: "reads (next_state t) (print_at (?n + 1) r @ rest)" using reads_next [OF t] rest by simp
  have "tokens_left (next_state t) \<le> d + 1"
    using reads_length [OF s] reads_length [OF t1] left by simp
  then obtain z u where z: "ladder (?n + 1) ?E (next_state t) = Parsed z u" "erase z = erase r" "reads u rest"
    using mainD [OF r t1 rest] by blast
  have "binary_loop m (ops_at ?n) (ladder (?n + 1) ?E) y t
      = binary_loop (m - 1) (ops_at ?n) (ladder (?n + 1) ?E) (binary_expr op y z) u"
    using m z(1) reads_peek [OF t] by (subst binary_loop.simps) (simp add: ops_at_binop p_bind_def p_next_def)
  moreover have "length rest \<le> m - 1" using m by simp
  moreover have "erase (binary_expr op y z) = erase (Expr (XBinary op l r) sp)"
    using loop(2) z(2) by (simp add: binary_expr_def)
  ultimately show "\<exists>y t m. ladder ?n ?E s = binary_loop m (ops_at ?n) (ladder (?n + 1) ?E) y t
      \<and> erase y = erase (Expr (XBinary op l r) sp) \<and> reads t rest \<and> length rest \<le> m"
    using loop(1) z(3) by metis
qed

subsection \<open>All levels\<close>

lemma descend_all:
  assumes "main k x" "k \<le> 5" "\<And>n. j \<le> n \<Longrightarrow> n < k \<Longrightarrow> expr_level x \<noteq> n"
  shows "j \<le> n \<Longrightarrow> n < k \<Longrightarrow> chain n x \<and> main n x"
proof (induction "k - n" arbitrary: n)
  case (Suc i)
  have "main (n + 1) x"
  proof (cases "n + 1 = k")
    case False
    then show ?thesis using Suc(1) [of "n + 1"] Suc.prems Suc(2) by auto
  qed (use assms(1) in simp)
  then have "chain n x" using Suc.prems assms(2,3) by (intro descend) auto
  then show ?case using chain_main Suc.prems assms(2) by simp
qed simp

lemma main_unary_level:
  assumes "main 6 x" "expr_level x \<noteq> 5"
  shows "main 5 x"
  unfolding main_def
proof (intro allI impI, elim conjE)
  fix d s rest
  assume s: "reads s (print_at 5 x @ rest)" "rest \<noteq> []" "quiet 5 (hd rest)" "tokens_left s \<le> d + 1"
  have eq: "print_at 5 x = print_at 6 x" using assms(2) by (auto simp: parens_def)
  have ne: "print_at 6 x \<noteq> []" "hd (print_at 6 x) \<noteq> TBang" "hd (print_at 6 x) \<noteq> TKw ''not''"
    using unparse_hd [of x] expr_level_le [of x] by (auto simp: hd_parens)
  have "peek_kind s = hd (print_at 6 x)"
    by (rule reads_hd [OF s(1) [unfolded eq] ne(1)])
  then have "parse_unary (expr_at_depth d) s = parse_postfix (expr_at_depth d) s"
    using ne by (simp add: parse_unary_def unary_depth.simps [of "p_fuel s"])
  then show "parses_as (ladder 5 (expr_at_depth d)) s x rest"
    using assms(1) s quiet_mono [OF s(3), of 6] unfolding main_def eq by (simp add: ladder_ends parses_as_def)
qed

definition all_levels :: "adgl_expr \<Rightarrow> bool" where
  "all_levels x \<longleftrightarrow> (\<forall>n\<le>6. main n x) \<and> (\<forall>n<5. chain n x) \<and> post x"

lemma all_levels_post:
  assumes "post x" "expr_level x = 6"
  shows "all_levels x"
proof -
  have m6: "main 6 x" by (rule post_main [OF assms(1)])
  have m5: "main 5 x" using main_unary_level [OF m6] assms(2) by simp
  have low: "chain n x \<and> main n x" if "n < 5" for n
    using descend_all [OF m5, of 0 n] assms(2) that by simp
  have "main n x" if "n \<le> 6" for n
    using that low m5 m6 by (cases "n < 5") (auto simp: le_Suc_eq numeral_eq_Suc)
  with low assms(1) show ?thesis by (simp add: all_levels_def)
qed

lemma all_levels_unary:
  assumes "main 5 x" "expr_level x = 5"
  shows "all_levels x"
proof -
  have low: "chain n x \<and> main n x" if "n < 5" for n
    using descend_all [OF assms(1), of 0 n] assms(2) that by simp
  then have p: "post x" using paren_post assms(2) by simp
  have "main n x" if "n \<le> 6" for n
    using that low assms(1) post_main [OF p] by (cases "n < 5") (auto simp: le_Suc_eq numeral_eq_Suc)
  with low p show ?thesis by (simp add: all_levels_def)
qed

lemma all_levels_binary:
  assumes "chain k x" "expr_level x = k" "k < 5"
  shows "all_levels x"
proof -
  have mk: "main k x" by (rule chain_main [OF assms(1,3)])
  have low: "chain n x \<and> main n x" if "n < k" for n
    using descend_all [OF mk, of 0 n] assms(2,3) that by simp
  have "main 0 x" using low mk by (cases "k = 0") auto
  then have p: "post x" using paren_post assms(2,3) by simp
  have m6: "main 6 x" by (rule post_main [OF p])
  have m5: "main 5 x" using main_unary_level [OF m6] assms(2,3) by simp
  have high: "chain n x \<and> main n x" if "k < n" "n < 5" for n
    using descend_all [OF m5, of "k + 1" n] assms(2) that by simp
  have c: "chain n x \<and> main n x" if "n < 5" for n
    using low [of n] high [of n] assms(1) mk that by (cases n k rule: linorder_cases) auto
  have "main n x" if "n \<le> 6" for n
    using that c m5 m6 by (cases "n < 5") (auto simp: le_Suc_eq numeral_eq_Suc)
  with c p show ?thesis by (simp add: all_levels_def)
qed

lemma main_leaf:
  assumes "expr_level x = 6" "\<And>e s rest. reads s (unparse x @ rest) \<Longrightarrow> rest \<noteq> [] \<Longrightarrow> parses_as (parse_primary e) s x rest"
  shows "all_levels x"
  by (rule all_levels_post [OF leaf_post [OF assms] assms(1)])

lemma token_leaf:
  assumes "expr_level x = 6" "unparse x = [k]"
    and "\<And>e s. peek_kind s = k \<Longrightarrow> parse_primary e s = p_bind p_next (\<lambda>_. p_return (g (peek_span s))) s"
    and "\<And>sp. erase (g sp) = erase x"
  shows "all_levels x"
proof (rule main_leaf [OF assms(1)])
  fix e s rest
  assume "reads s (unparse x @ rest)" and rest: "rest \<noteq> []"
  then have s: "reads s (k # rest)" by (simp add: assms(2))
  show "parses_as (parse_primary e) s x rest"
    using assms(3) [OF reads_peek [OF s]] reads_next [OF s rest]
    by (simp add: parses_as_def p_bind_def p_next_def p_return_def assms(4))
qed

lemma presence_leaf:
  assumes "expr_level x = 6" "unparse x = [TKw w, TLParen, TIdent v, TRParen]"
    and "\<And>e s. peek_kind s = TKw w \<Longrightarrow> parse_primary e s = parse_presence mk (sp_start (peek_span s)) s"
    and "\<And>i sp. id_name i = v \<Longrightarrow> erase (Expr (mk i) sp) = erase x"
  shows "all_levels x"
proof (rule main_leaf [OF assms(1)])
  fix e s rest
  assume "reads s (unparse x @ rest)" and rest: "rest \<noteq> []"
  then have s: "reads s (TKw w # TLParen # TIdent v # TRParen # rest)" by (simp add: assms(2))
  show "parses_as (parse_primary e) s x rest"
    by (rule presence_accepts [OF s rest assms(3) [OF reads_peek [OF s]] assms(4)])
qed

lemmas primary_defs = parse_primary_def p_bind_def p_peek_def Let_def peek_kind_def peek_span_def

lemma unparse_all: "all_levels x"
proof (induction x rule: unparse.induct)
  case (1 i sp)
  show ?case
    by (rule token_leaf [where k = "TInt (il_value i)" and g = "\<lambda>sp. Expr (XInt \<lparr>il_value = il_value i, il_span = sp\<rparr>) sp"])
      (simp_all add: primary_defs erase_ident_eq)
next
  case (2 d sp)
  show ?case
    by (rule token_leaf [where k = "TDuration (dl_millis d)" and g = "\<lambda>sp. Expr (XDuration \<lparr>dl_millis = dl_millis d, dl_span = sp\<rparr>) sp"])
      (simp_all add: primary_defs erase_ident_eq)
next
  case (3 v sp)
  show ?case
    by (rule token_leaf [where k = "TString (sl_value v)" and g = "\<lambda>sp. Expr (XString \<lparr>sl_value = sl_value v, sl_span = sp\<rparr>) sp"])
      (simp_all add: primary_defs erase_ident_eq)
next
  case (4 i sp)
  show ?case
    by (rule token_leaf [where k = "TIdent (id_name i)" and g = "\<lambda>sp. Expr (XIdent \<lparr>id_name = id_name i, id_span = sp\<rparr>) sp"])
      (simp_all add: primary_defs erase_ident_eq)
next
  case (5 b sp)
  show ?case
    by (rule token_leaf [where k = "TKw (if b then ''true'' else ''false'')" and g = "\<lambda>sp. Expr (XBool b) sp"])
      (cases b; simp add: primary_defs)+
next
  case (6 i sp)
  show ?case
    by (rule presence_leaf [where w = "''present''" and mk = XPresent and v = "id_name i"])
      (simp_all add: primary_defs erase_ident_eq)
next
  case (7 i sp)
  show ?case
    by (rule presence_leaf [where w = "''absent''" and mk = XAbsent and v = "id_name i"])
      (simp_all add: primary_defs erase_ident_eq)
next
  case (8 op x sp)
  then show ?case by (intro all_levels_unary unary_main) (simp_all add: all_levels_def)
next
  case (9 op l r sp)
  have "chain (binop_level op) l" "main (binop_level op + 1) r"
    using 9 binop_level_less [of op] by (simp_all add: all_levels_def)
  then show ?case
    using binop_level_less [of op] by (intro all_levels_binary [OF binary_chain]) simp_all
next
  case (10 b f sp)
  then show ?case by (intro all_levels_post field_post) (simp_all add: all_levels_def)
next
  case (11 c args sp)
  then show ?case by (intro all_levels_post call_post) (simp_all add: all_levels_def)
next
  case (12 b i sp)
  then show ?case by (intro all_levels_post index_post) (simp_all add: all_levels_def)
qed

lemma unparse_no_eof: "TEof \<notin> set (unparse x)"
proof (induction x rule: unparse.induct)
  case (9 op l r sp)
  then show ?case by (cases op) (auto simp: parens_def)
next
  case (11 c args sp)
  have "set (commas kss) \<subseteq> insert TComma (\<Union> (set ` set kss))" for kss
    by (induction kss rule: commas.induct) auto
  with 11 show ?case by (auto simp: parens_def) fastforce
qed (auto simp: parens_def)

lemma unparse_reads:
  assumes "map tk_kind ts = unparse x @ [TEof]"
  shows "reads (pstate_new ts) (unparse x @ [TEof])"
proof -
  have "ts \<noteq> []" using assms by auto
  moreover have "map tk_kind (butlast ts) = unparse x" using assms by (metis butlast_snoc map_butlast)
  then have "tk_kind t \<noteq> TEof" if "t \<in> set (butlast ts)" for t
    using that unparse_no_eof [of x] by (metis image_eqI list.set_map)
  moreover have "tk_kind (last ts) = TEof" using assms \<open>ts \<noteq> []\<close> by (metis last_map last_snoc)
  ultimately have "token_stream ts" by (simp add: token_stream_def)
  then show ?thesis using assms p_inv_new by (simp add: reads_def pstate_new_def)
qed

text \<open>From the tokens of a printed expression the parser returns it and stops at the end.\<close>

lemma unparse_parsed:
  assumes "map tk_kind ts = unparse x @ [TEof]"
  shows "\<exists>y s. parse_expr (pstate_new ts) = Parsed y s \<and> erase y = erase x \<and> peek_kind s = TEof"
proof -
  have "parses_as (expr_at_depth (p_fuel (pstate_new ts))) (pstate_new ts) x [TEof]"
    using main_nested [OF _ unparse_reads [OF assms]] unparse_all [of x] quiet_closers
    by (simp add: all_levels_def tokens_left_def p_fuel_def)
  then show ?thesis using reads_peek by (auto simp: parses_as_def parse_expr_def)
qed

text \<open>So the printed form determines the expression: precedence and associativity are unambiguous.\<close>

lemma unparse_injective: "unparse x = unparse y \<Longrightarrow> erase x = erase y"
proof -
  assume eq: "unparse x = unparse y"
  define ts where "ts = map (\<lambda>k. \<lparr>tk_kind = k, tk_span = span_unknown, tk_leading = []\<rparr>) (unparse x @ [TEof])"
  have "map tk_kind ts = unparse x @ [TEof]" by (simp add: ts_def comp_def)
  from unparse_parsed [OF this] unparse_parsed [OF this [unfolded eq]] show ?thesis by auto
qed

subsection \<open>Depth of recursion\<close>

text \<open>
  The tokenizer bounds the nesting of brackets, but \<open>parse_unary\<close> calls itself once for every
  negation: a chain of \<open>n\<close> of them, in which no bracket occurs, needs a recursion of depth \<open>n\<close>.
\<close>

lemma negations_nest_freely: "foldr (\<lambda>k d. Option.bind d (nest k)) (replicate n TBang) (Some 0) = Some 0"
  by (induction n) (simp_all add: nest_def)

theorem negation_depth_unbounded:
  "reads s (replicate n TBang @ rest) \<Longrightarrow> rest \<noteq> [] \<Longrightarrow> m < n \<Longrightarrow> unary_depth m e s = Stuck"
proof (induction n arbitrary: s m)
  case (Suc n)
  have s: "reads s (TBang # replicate n TBang @ rest)" using Suc.prems(1) by simp
  show ?case
  proof (cases "m = 0")
    case True
    then show ?thesis using reads_peek [OF s] by (subst unary_depth.simps) simp
  next
    case False
    have "unary_depth (m - 1) e (next_state s) = Stuck"
      using reads_next [OF s] Suc.prems(2,3) False by (intro Suc.IH) auto
    then show ?thesis
      using reads_peek [OF s] False by (subst unary_depth.simps) (simp add: p_bind_def p_next_def)
  qed
qed simp

end
