(* ===== verification/Adgl_Render.thy ===== *)
theory Adgl_Render
  imports Adgl_Roundtrip
begin

text \<open>
  The round trip through text: tokens are written with a space after each, the lexer reads them
  back, and so \<open>parse_expression\<close> recovers a printed expression from its text.
\<close>

subsection \<open>Writing tokens\<close>

fun escape_char :: "char \<Rightarrow> string" where
  "escape_char c = (if c = CHR 0x22 \<or> c = CHR 0x5C then [CHR 0x5C, c] else [c])"

definition escape :: "string \<Rightarrow> string" where
  "escape v = concat (map escape_char v)"

fun token_text :: "token_kind \<Rightarrow> string" where
  "token_text (TString v) = CHR 0x22 # escape v @ [CHR 0x22]"
| "token_text (TInt i) = nat_digits (nat i)"
| "token_text (TDuration i) = nat_digits (nat i) @ ''ms''"
| "token_text k = describe_token_kind k"

definition is_ascii :: "char \<Rightarrow> bool" where
  "is_ascii c \<longleftrightarrow> (of_char c :: nat) < 128"

definition ident_ok :: "string \<Rightarrow> bool" where
  "ident_ok w \<longleftrightarrow> w \<noteq> [] \<and> is_ident_start (hd w) \<and> list_all is_ident_continue w \<and> length w \<le> 255
     \<and> w \<notin> set keywords_list \<and> (has_prefix w ''__'' \<longrightarrow> w \<in> set builtin_idents)"

fun writable :: "token_kind \<Rightarrow> bool" where
  "writable (TIdent w) = ident_ok w"
| "writable (TKw w) = (w \<in> set keywords_list)"
| "writable (TString v) = list_all is_ascii v"
| "writable (TInt i) = (0 \<le> i \<and> i < 2 ^ 63)"
| "writable (TDuration i) = (0 \<le> i \<and> i < 2 ^ 63)"
| "writable TEof = False"
| "writable _ = True"

definition token_texts :: "token_kind list \<Rightarrow> string" where
  "token_texts ks = concat (map (\<lambda>k. token_text k @ '' '') ks)"

subsection \<open>Numbers\<close>

lemma to_digit_decimal: "(n :: nat) < 10 \<Longrightarrow> to_digit 10 (char_of (n + 48)) = Some n"
  by (simp add: to_digit_def Let_def of_char_of)

lemma is_ascii_digit_char: "(n :: nat) < 10 \<Longrightarrow> is_ascii_digit (char_of (n + 48))"
  by (simp add: is_ascii_digit_def Let_def of_char_of)

lemma nat_digits_digits: "list_all is_ascii_digit (nat_digits n)"
  by (induction n rule: nat_digits.induct) (subst nat_digits.simps, simp add: is_ascii_digit_char)

lemma nat_digits_nonempty: "nat_digits n \<noteq> []"
  by (subst nat_digits.simps) simp

lemma nat_digits_valid: "\<not> list_ex (\<lambda>c. to_digit 10 c = None) (nat_digits n)"
  by (induction n rule: nat_digits.induct) (subst nat_digits.simps, simp add: to_digit_decimal)

lemma nat_digits_value: "fold (\<lambda>c acc. acc * 10 + the (to_digit 10 c)) (nat_digits n) 0 = n"
proof (induction n rule: nat_digits.induct)
  case (1 n)
  then show ?case by (subst nat_digits.simps) (simp add: to_digit_decimal)
qed

lemma i64_from_digits: "n < 2 ^ 63 \<Longrightarrow> i64_from_radix 10 (nat_digits n) = Some (int n)"
  by (simp add: i64_from_radix_def Let_def nat_digits_nonempty nat_digits_valid nat_digits_value)

lemma digit_cases: "is_ascii_digit c \<Longrightarrow> c \<in> set ''0123456789''"
proof -
  assume "is_ascii_digit c"
  then have b: "48 \<le> (of_char c :: nat) \<and> (of_char c :: nat) \<le> 57" by (simp add: is_ascii_digit_def Let_def)
  have c: "c = char_of (of_char c :: nat)" by simp
  from b have "(of_char c :: nat) \<in> set [48..<58]" unfolding set_upt atLeastLessThan_iff by linarith
  then have "char_of (of_char c :: nat) \<in> set (map char_of [48..<(58::nat)])"
    unfolding set_map by (rule imageI)
  also have "map char_of [48..<(58::nat)] = ''0123456789''" by code_simp
  finally show ?thesis using c by simp
qed

lemma digit_not:
  assumes "is_ascii_digit c"
  shows "c \<notin> set ''_xXbB'' \<and> c \<noteq> CHR 0x22 \<and> map_of one_char_tokens c = None \<and> \<not> is_skip c"
proof -
  have "list_all (\<lambda>c. c \<notin> set ''_xXbB'' \<and> c \<noteq> CHR 0x22 \<and> map_of one_char_tokens c = None \<and> \<not> is_skip c) ''0123456789''"
    by code_simp
  with digit_cases [OF assms] show ?thesis unfolding list_all_iff by blast
qed

lemma number_lexeme_digits:
  assumes "c = CHR '' '' \<or> c = CHR ''m''"
  shows "number_lexeme (nat_digits n @ c # rest) = (nat_digits n, 10)"
proof -
  define ds where "ds = nat_digits n"
  have d: "list_all is_ascii_digit ds" "ds \<noteq> []" by (simp_all add: ds_def nat_digits_digits nat_digits_nonempty)
  then obtain a as where ds: "ds = a # as" by (cases ds) auto
  have "\<not> has_prefix (ds @ c # rest) [CHR ''0'', p]" if "p \<in> {CHR ''x'', CHR ''X'', CHR ''b'', CHR ''B''}" for p
    using d(1) assms that digit_not by (cases as) (auto simp: has_prefix_def ds)
  moreover have "takeWhile (\<lambda>c. is_ascii_digit c \<or> c = CHR ''_'') (ds @ c # rest) = ds"
    using d(1) assms by (subst takeWhile_append2) (auto simp: list_all_iff is_ascii_digit_def)
  ultimately show ?thesis unfolding ds_def [symmetric] by (simp add: number_lexeme_def)
qed

lemma number_value_digits: "n < 2 ^ 63 \<Longrightarrow> number_value (nat_digits n) 10 = Some (int n)"
proof -
  have "filter (\<lambda>c. c \<noteq> CHR ''_'') (nat_digits n) = nat_digits n"
    using nat_digits_digits [of n] digit_not by (auto simp: filter_id_conv list_all_iff)
  then show "n < 2 ^ 63 \<Longrightarrow> number_value (nat_digits n) 10 = Some (int n)"
    by (simp add: number_value_def Let_def i64_from_digits)
qed

text \<open>A token was read, and the space after its text is next.\<close>

definition lexed :: "token_kind \<Rightarrow> string \<Rightarrow> parse_err + token \<times> lexer \<Rightarrow> bool" where
  "lexed k rest r \<longleftrightarrow> (\<exists>tok lx'. r = Inr (tok, lx') \<and> tk_kind tok = k \<and> lx_rest lx' = CHR '' '' # rest)"

lemma lexed_mk: "drop n (lx_rest lx) = CHR '' '' # rest \<Longrightarrow> lexed k rest (Inr (mk_token k start (lx_advance n lx)))"
  by (simp add: lexed_def mk_token_def)

lemma lex_int:
  assumes "lx_rest lx = nat_digits n @ CHR '' '' # rest" "n < 2 ^ 63"
  shows "lexed (TInt (int n)) rest (lex_number_or_duration start lx)"
  using assms number_lexeme_digits [of "CHR '' ''" n rest] nat_digits_nonempty [of n]
  by (simp add: lex_number_or_duration_def number_value_digits has_prefix_def Let_def lexed_mk)

lemma lex_duration:
  assumes "lx_rest lx = nat_digits n @ ''ms '' @ rest" "n < 2 ^ 63"
  shows "lexed (TDuration (int n)) rest (lex_number_or_duration start lx)"
  using assms number_lexeme_digits [of "CHR ''m''" n "''s '' @ rest"] nat_digits_nonempty [of n]
  by (simp add: lex_number_or_duration_def number_value_digits has_prefix_def Let_def lexed_mk)

subsection \<open>Strings and words\<close>

lemma bump_ascii:
  assumes "lx_rest lx = c # r" "is_ascii c"
  shows "bump_char lx = (Some [c], lx_advance 1 lx)"
  using assms by (simp add: bump_char_def peek_char_def utf8_len_def is_ascii_def Let_def)

lemma lex_string_text:
  assumes "lx_rest lx = escape v @ CHR 0x22 # CHR '' '' # rest" "list_all is_ascii v"
  shows "lexed (TString (out @ v)) rest (lex_string_loop start lx out)"
  using assms
proof (induction v arbitrary: lx out)
  case Nil
  then have "bump_char lx = (Some [CHR 0x22], lx_advance 1 lx)"
    by (intro bump_ascii) (simp_all add: escape_def is_ascii_def)
  then show ?case using Nil by (subst lex_string_loop.simps) (simp add: lexed_mk escape_def)
next
  case (Cons c v)
  show ?case
  proof (cases "c = CHR 0x22 \<or> c = CHR 0x5C")
    case True
    have rest: "lx_rest lx = CHR 0x5C # c # escape v @ CHR 0x22 # CHR '' '' # rest"
      using Cons.prems(1) True by (simp add: escape_def)
    have b1: "bump_char lx = (Some [CHR 0x5C], lx_advance 1 lx)"
      using rest by (intro bump_ascii) (simp_all add: is_ascii_def)
    have b2: "bump_char (lx_advance 1 lx) = (Some [c], lx_advance 1 (lx_advance 1 lx))"
      using rest True by (intro bump_ascii) (auto simp: is_ascii_def)
    have "lex_escape start (lx_advance 1 lx) = Inr ([c], lx_advance 1 (lx_advance 1 lx))"
      unfolding lex_escape_def b2 using True by auto
    moreover have "lexed (TString ((out @ [c]) @ v)) rest
        (lex_string_loop start (lx_advance 1 (lx_advance 1 lx)) (out @ [c]))"
      using rest Cons.prems(2) by (intro Cons.IH) simp_all
    ultimately show ?thesis by (subst lex_string_loop.simps) (simp add: b1)
  next
    case False
    have rest: "lx_rest lx = c # escape v @ CHR 0x22 # CHR '' '' # rest"
      using Cons.prems(1) False by (simp add: escape_def)
    have b1: "bump_char lx = (Some [c], lx_advance 1 lx)"
      using rest Cons.prems(2) by (intro bump_ascii) simp_all
    have "lexed (TString ((out @ [c]) @ v)) rest (lex_string_loop start (lx_advance 1 lx) (out @ [c]))"
      using rest Cons.prems(2) by (intro Cons.IH) simp_all
    then show ?thesis using False by (subst lex_string_loop.simps) (simp add: b1)
  qed
qed

lemma takeWhile_word: "list_all is_ident_continue w \<Longrightarrow> takeWhile is_ident_continue (w @ CHR '' '' # rest) = w"
  by (subst takeWhile_append2)
    (auto simp: list_all_iff is_ident_continue_def is_ascii_alphabetic_def is_ascii_digit_def)

lemma lex_word:
  assumes "takes_runs tw" "lx_rest lx = w @ CHR '' '' # rest" "w \<noteq> []" "list_all is_ident_continue w" "length w \<le> 255"
    and "has_prefix w ''__'' \<longrightarrow> w \<in> set builtin_idents"
  shows "lexed (if w \<in> set keywords_list then TKw (keyword_static w) else TIdent w) rest (lex_ident_or_kw tw start lx)"
proof -
  have "take_run tw (lx_rest lx) is_ident_continue = Inr w"
    using assms(1-4) takeWhile_word by (simp add: take_run_def takes_runs_def)
  then show ?thesis using assms(2,5,6) by (auto simp: lex_ident_or_kw_def lexed_mk)
qed

lemma keywords_ok:
  "list_all (\<lambda>w. w \<noteq> [] \<and> is_ident_start (hd w) \<and> list_all is_ident_continue w \<and> length w \<le> 255 \<and> \<not> has_prefix w ''__'')
     keywords_list"
  by code_simp

subsection \<open>One token\<close>

lemma ident_start_not:
  assumes "is_ident_start c"
  shows "c \<noteq> CHR 0x22 \<and> \<not> is_ascii_digit c \<and> map_of one_char_tokens c = None \<and> \<not> is_skip c
    \<and> c \<notin> set ''&|=!<>/''"
proof -
  let ?cs = "CHR ''_'' # map char_of ([65..<91] @ [97..<(123 :: nat)])"
  have "c \<in> set ?cs"
  proof (cases "c = CHR ''_''")
    case False
    then have "65 \<le> (of_char c :: nat) \<and> (of_char c :: nat) \<le> 90 \<or> 97 \<le> (of_char c :: nat) \<and> (of_char c :: nat) \<le> 122"
      using assms by (simp add: is_ident_start_def is_ascii_alphabetic_def Let_def)
    then have "(of_char c :: nat) \<in> set ([65..<91] @ [97..<(123 :: nat)])"
      unfolding set_append set_upt Un_iff atLeastLessThan_iff by linarith
    then have "char_of (of_char c :: nat) \<in> set (map char_of ([65..<91] @ [97..<(123 :: nat)]))"
      unfolding set_map by (rule imageI)
    then show ?thesis by simp
  qed simp
  moreover have "list_all (\<lambda>c. c \<noteq> CHR 0x22 \<and> \<not> is_ascii_digit c \<and> map_of one_char_tokens c = None \<and> \<not> is_skip c
      \<and> c \<notin> set ''&|=!<>/'') ?cs"
    by code_simp
  ultimately show ?thesis unfolding list_all_iff by blast
qed

lemma no_two_char:
  assumes "c \<notin> set ''&|=!<>''"
  shows "find (\<lambda>(s, k). has_prefix (c # r) s) two_char_tokens = None"
  using assms by (auto simp: find_None_iff two_char_tokens_def has_prefix_def)

lemma next_token_word:
  assumes "takes_runs tw" "lx_rest lx = w @ CHR '' '' # rest" "w \<noteq> []" "is_ident_start (hd w)"
  shows "next_token tw lx = lex_ident_or_kw tw (lx_pos lx) lx"
proof -
  obtain c cs where w: "w = c # cs" using assms(3) by (cases w) auto
  have "is_ident_start c" using assms(4) w by simp
  then show ?thesis
    using ident_start_not [of c] no_two_char [of c "cs @ CHR '' '' # rest"] assms(2)
    by (simp add: next_token_def Let_def w)
qed

lemma next_token_number:
  assumes "lx_rest lx = nat_digits n @ r"
  shows "next_token tw lx = lex_number_or_duration (lx_pos lx) lx"
proof -
  obtain c cs where ds: "nat_digits n = c # cs" using nat_digits_nonempty [of n] by (cases "nat_digits n") auto
  then have c: "is_ascii_digit c" using nat_digits_digits [of n] by simp
  have "c \<notin> set ''&|=!<>''" using digit_cases [OF c] by auto
  then show ?thesis
    using digit_not [OF c] c no_two_char [of c "cs @ r"] assms by (simp add: next_token_def Let_def ds)
qed

lemma next_token_text:
  assumes tw: "takes_runs tw" and k: "writable k" and rest: "lx_rest lx = token_text k @ CHR '' '' # rest"
  shows "lexed k rest (next_token tw lx)"
proof -
  have kw: "w \<noteq> [] \<and> is_ident_start (hd w) \<and> list_all is_ident_continue w \<and> length w \<le> 255 \<and> \<not> has_prefix w ''__''"
    if "w \<in> set keywords_list" for w
    using keywords_ok that unfolding list_all_iff by blast
  show ?thesis
  proof (cases k)
    case (TIdent w)
    then have w: "ident_ok w" "lx_rest lx = w @ CHR '' '' # rest" using k rest by simp_all
    then show ?thesis
      using lex_word [OF tw w(2), of "lx_pos lx"] next_token_word [OF tw w(2)] TIdent by (simp add: ident_ok_def)
  next
    case (TKw w)
    then have w: "w \<in> set keywords_list" "lx_rest lx = w @ CHR '' '' # rest" using k rest by simp_all
    then show ?thesis
      using lex_word [OF tw w(2), of "lx_pos lx"] next_token_word [OF tw w(2)] kw [OF w(1)] TKw
      by (simp add: keyword_static_def)
  next
    case (TString v)
    then have r: "lx_rest lx = CHR 0x22 # escape v @ CHR 0x22 # CHR '' '' # rest" using rest by simp
    have b: "bump_char lx = (Some [CHR 0x22], lx_advance 1 lx)"
      using r by (intro bump_ascii) (simp_all add: is_ascii_def)
    have "next_token tw lx = lex_string_loop (lx_pos lx) (lx_advance 1 lx) []"
      using no_two_char [of "CHR 0x22"] r b
      by (simp add: next_token_def Let_def one_char_tokens_def lex_string_def)
    then show ?thesis
      using lex_string_text [of "lx_advance 1 lx" v rest "[]" "lx_pos lx"] r TString k by simp
  next
    case (TInt i)
    then have i: "lx_rest lx = nat_digits (nat i) @ CHR '' '' # rest" "nat i < 2 ^ 63" "int (nat i) = i"
      using rest k by auto
    then show ?thesis using lex_int [OF i(1,2)] next_token_number [OF i(1)] TInt by metis
  next
    case (TDuration i)
    then have i: "lx_rest lx = nat_digits (nat i) @ ''ms '' @ rest" "nat i < 2 ^ 63" "int (nat i) = i"
      using rest k by auto
    then show ?thesis using lex_duration [OF i(1,2)] next_token_number [OF i(1)] TDuration by metis
  qed (use k rest in \<open>simp_all add: next_token_def Let_def two_char_tokens_def one_char_tokens_def
      has_prefix_def lexed_mk\<close>)
qed

text \<open>The first character of a token's text starts no white space and no comment.\<close>

lemma token_text_hd:
  assumes "writable k"
  shows "\<exists>c cs. token_text k = c # cs \<and> \<not> is_skip c \<and> (c = CHR ''/'' \<longrightarrow> cs = [])"
proof (cases k)
  case (TIdent w)
  then obtain c cs where w: "w = c # cs" "is_ident_start c" using assms by (cases w) (auto simp: ident_ok_def)
  then show ?thesis using ident_start_not [OF w(2)] TIdent by simp
next
  case (TKw w)
  then have "w \<noteq> [] \<and> is_ident_start (hd w)" using keywords_ok assms unfolding list_all_iff by auto
  then obtain c cs where w: "w = c # cs" "is_ident_start c" by (cases w) auto
  then show ?thesis using ident_start_not [OF w(2)] TKw by simp
next
  case (TInt i)
  obtain c cs where ds: "nat_digits (nat i) = c # cs" using nat_digits_nonempty by (cases "nat_digits (nat i)") auto
  then have "is_ascii_digit c" using nat_digits_digits [of "nat i"] by simp
  then show ?thesis using digit_not [of c] digit_cases [of c] ds TInt by auto
next
  case (TDuration i)
  obtain c cs where ds: "nat_digits (nat i) = c # cs" using nat_digits_nonempty by (cases "nat_digits (nat i)") auto
  then have "is_ascii_digit c" using nat_digits_digits [of "nat i"] by simp
  then show ?thesis using digit_not [of c] digit_cases [of c] ds TDuration by auto
qed (use assms in \<open>simp_all add: is_skip_def\<close>)

lemma skip_stops:
  assumes "\<And>c cs. lx_rest lx = c # cs \<Longrightarrow> \<not> is_skip c \<and> (c = CHR ''/'' \<longrightarrow> hd (cs @ '' '') \<noteq> CHR ''/'' \<and> hd (cs @ '' '') \<noteq> CHR ''*'')"
  shows "skip_loop lx = Inr (lx_advance 0 lx)"
proof -
  have tw: "takeWhile is_skip (lx_rest lx) = []" using assms by (cases "lx_rest lx") auto
  have "\<not> has_prefix (lx_rest lx) ''//''" "\<not> has_prefix (lx_rest lx) ''/*''"
    using assms by (cases "lx_rest lx"; cases "tl (lx_rest lx)"; force simp: has_prefix_def)+
  then show ?thesis by (subst skip_loop.simps) (simp add: tw Let_def)
qed

subsection \<open>Token lists and expressions\<close>

lemma texts_start:
  assumes "list_all writable ks" "token_texts ks = c # cs"
  shows "\<not> is_skip c \<and> (c = CHR ''/'' \<longrightarrow> hd (cs @ '' '') \<noteq> CHR ''/'' \<and> hd (cs @ '' '') \<noteq> CHR ''*'')"
proof (cases ks)
  case Nil
  then show ?thesis using assms(2) by (simp add: token_texts_def)
next
  case (Cons k ks')
  obtain b bs where b: "token_text k = b # bs" "\<not> is_skip b" "b = CHR ''/'' \<longrightarrow> bs = []"
    using token_text_hd [of k] assms(1) Cons by auto
  have "c = b" "cs = bs @ CHR '' '' # token_texts ks'"
    using assms(2) b(1) Cons by (simp_all add: token_texts_def)
  with b show ?thesis by auto
qed

lemma skip_texts:
  assumes "list_all writable ks" "lx_rest lx = sp @ token_texts ks" "sp = [] \<or> sp = '' ''"
  shows "\<exists>lx'. skip_ws_and_comments lx = Inr lx' \<and> lx_rest lx' = token_texts ks"
proof -
  have stop: "skip_loop l = Inr (lx_advance 0 l)" if "lx_rest l = token_texts ks" for l
    by (rule skip_stops) (use texts_start [OF assms(1)] that in auto)
  define l where "l = lx\<lparr>lx_pending := []\<rparr>"
  have l: "lx_rest l = sp @ token_texts ks" using assms(2) by (simp add: l_def)
  show ?thesis
  proof (cases "sp = []")
    case True
    then show ?thesis using stop [of l] l by (simp add: skip_ws_and_comments_def l_def [symmetric])
  next
    case False
    then have r: "lx_rest l = CHR '' '' # token_texts ks" using assms(3) l by simp
    have none: "takeWhile is_skip (token_texts ks) = []"
      using texts_start [OF assms(1)] by (cases "token_texts ks") auto
    have "\<not> has_prefix (token_texts ks) ''//''" "\<not> has_prefix (token_texts ks) ''/*''"
      using texts_start [OF assms(1)]
      by (cases "token_texts ks"; cases "tl (token_texts ks)"; force simp: has_prefix_def)+
    then have "skip_loop l = skip_loop (lx_advance 1 l)"
      using r none by (subst skip_loop.simps) (simp add: is_skip_def Let_def)
    then show ?thesis using stop [of "lx_advance 1 l"] r by (simp add: skip_ws_and_comments_def l_def [symmetric])
  qed
qed

text \<open>The bracket depth after a list of tokens, if the limit holds throughout.\<close>

fun nest_all :: "nat \<Rightarrow> token_kind list \<Rightarrow> nat option" where
  "nest_all d [] = Some d"
| "nest_all d (k # ks) = Option.bind (nest k d) (\<lambda>d'. nest_all d' ks)"

lemma tok_loop_texts:
  assumes "takes_runs tw" "list_all writable ks" "nest_all d ks \<noteq> None"
    and "lx_rest lx = sp @ token_texts ks" "sp = [] \<or> sp = '' ''"
  shows "\<exists>ts. tok_loop tw lx d out = Some (Inr (out @ ts)) \<and> map tk_kind ts = ks"
  using assms(2-5)
proof (induction ks arbitrary: d lx sp out)
  case Nil
  obtain lx' where "skip_ws_and_comments lx = Inr lx'" "lx_rest lx' = []"
    using skip_texts [OF Nil.prems(1,3,4)] by (auto simp: token_texts_def)
  then show ?case by (subst tok_loop.simps) (simp add: lx_eof_def)
next
  case (Cons k ks)
  obtain lx1 where skip: "skip_ws_and_comments lx = Inr lx1" "lx_rest lx1 = token_texts (k # ks)"
    using skip_texts [OF Cons.prems(1,3,4)] by blast
  have k: "writable k" and ks: "list_all writable ks" using Cons.prems(1) by simp_all
  obtain c cs where c: "token_text k = c # cs" using token_text_hd [OF k] by blast
  define lx2 where "lx2 = lx1\<lparr>lx_pending := []\<rparr>"
  have r2: "lx_rest lx2 = token_text k @ CHR '' '' # token_texts ks"
    using skip(2) by (simp add: lx2_def token_texts_def)
  obtain tok lx3 where tok: "next_token tw lx2 = Inr (tok, lx3)" "tk_kind tok = k"
      "lx_rest lx3 = '' '' @ token_texts ks"
    using next_token_text [OF assms(1) k r2] by (auto simp: lexed_def)
  obtain d' where d': "nest k d = Some d'" "nest_all d' ks \<noteq> None"
    using Cons.prems(2) by (cases "nest k d") auto
  have eof: "\<not> lx_eof lx" "\<not> lx_eof lx1"
    using Cons.prems(3) skip(2) c by (auto simp: lx_eof_def token_texts_def)
  obtain ts where ts: "tok_loop tw lx3 d' (out @ [tok\<lparr>tk_leading := lx_pending lx1\<rparr>])
      = Some (Inr ((out @ [tok\<lparr>tk_leading := lx_pending lx1\<rparr>]) @ ts))" "map tk_kind ts = ks"
    using Cons.IH [OF ks d'(2) tok(3)] by blast
  have "tok_loop tw lx d out = Some (Inr (out @ tok\<lparr>tk_leading := lx_pending lx1\<rparr> # ts))"
    using ts(1) by (subst tok_loop.simps)
      (simp add: eof skip(1) trivia_before_next_token_def lx2_def [symmetric] tok(1,2) d'(1))
  then show ?case using ts(2) tok(2) by (intro exI [of _ "tok\<lparr>tk_leading := lx_pending lx1\<rparr> # ts"]) simp
qed

lemma tokenize_texts:
  assumes "takes_runs tw" "list_all writable ks" "nest_all 0 ks \<noteq> None" "length (token_texts ks) \<le> max_source"
  shows "\<exists>ts. tokenize tw (token_texts ks) = Some (Inr ts) \<and> map tk_kind ts = ks @ [TEof]"
proof -
  obtain ts where "tok_loop tw (lexer_new (token_texts ks)) 0 [] = Some (Inr ts)" "map tk_kind ts = ks"
    using tok_loop_texts [OF assms(1-3), of "lexer_new (token_texts ks)" "[]" "[]"] by (auto simp: lexer_new_def)
  then show ?thesis using assms(4) by (simp add: tokenize_def eof_token_def)
qed

text \<open>
  C11: An expression survives the trip through text: when its identifiers, numbers and strings can
  be written, its brackets nest at most 64 deep and the text stays under 4 MiB, \<open>parse_expression\<close>
  on the printed text returns it, spans aside.
\<close>

theorem expression_roundtrip:
  assumes "takes_runs tw" "list_all writable (unparse x)" "nest_all 0 (unparse x) \<noteq> None"
    and "length (token_texts (unparse x)) \<le> max_source"
  shows "\<exists>y. parse_expression tw (token_texts (unparse x)) = Some (Inr y) \<and> erase y = erase x"
proof -
  obtain ts where ts: "tokenize tw (token_texts (unparse x)) = Some (Inr ts)" "map tk_kind ts = unparse x @ [TEof]"
    using tokenize_texts [OF assms] by blast
  then obtain y s where "parse_expr (pstate_new ts) = Parsed y s" "erase y = erase x" "peek_kind s = TEof"
    using unparse_parsed by blast
  then show ?thesis using ts(1) by (simp add: parse_expression_def)
qed

definition sample_expr :: adgl_expr where
  "sample_expr = Expr (XBinary BinAnd
     (Expr (XBinary BinGe (Expr (XField (Expr (XIdent \<lparr>id_name = ''ap'', id_span = span_unknown\<rparr>) span_unknown)
                                       \<lparr>id_name = ''rssi'', id_span = span_unknown\<rparr>) span_unknown)
        (Expr (XInt \<lparr>il_value = 30, il_span = span_unknown\<rparr>) span_unknown)) span_unknown)
     (Expr (XUnary UnNot (Expr (XPresent \<lparr>id_name = ''c'', id_span = span_unknown\<rparr>) span_unknown)) span_unknown))
     span_unknown"

lemma expression_roundtrip_witness:
  "token_texts (unparse sample_expr) = ''ap . rssi >= 30 && ! present ( c ) '' \<and>
   (\<exists>y. parse_expression reference_runs (token_texts (unparse sample_expr)) = Some (Inr y) \<and> erase y = erase sample_expr)"
proof
  show "token_texts (unparse sample_expr) = ''ap . rssi >= 30 && ! present ( c ) ''" by code_simp
  have "list_all writable (unparse sample_expr)" "nest_all 0 (unparse sample_expr) \<noteq> None"
    "length (token_texts (unparse sample_expr)) \<le> max_source"
    by code_simp+
  then show "\<exists>y. parse_expression reference_runs (token_texts (unparse sample_expr)) = Some (Inr y) \<and> erase y = erase sample_expr"
    by (rule expression_roundtrip [OF reference_runs_ok])
qed

end
