(* ===== verification/Adgl_Source.thy ===== *)
theory Adgl_Source
  imports Adgl_Parses Adgl_Guarantees
begin

text \<open>
  The ADGL front end as a whole: what the parser promises about the trees it returns, and
  \<open>verify_source_with_config\<close> of crates/airpulse\_dsl-verify/src/lib.rs, which parses, verifies and
  lowers a text. On every text it returns an image or error diagnostics: of the two panics of the
  verifier, a negative match count is excluded by the grammar, and an overflowing window offset
  exists in a debug build only (\<open>chk\<close>).
\<close>

definition verify_source_with_config ::
    "bool \<Rightarrow> run_taker \<Rightarrow> string \<Rightarrow> verify_config \<Rightarrow> (diag_buffer + verified_program) option" where
  "verify_source_with_config chk tw src cfg =
     (case parse_ruleset tw src of
        None \<Rightarrow> None
      | Some (Inl ds) \<Rightarrow> Some (Inl ds)
      | Some (Inr rs) \<Rightarrow> verify_with_config chk rs cfg)"

definition verify_source :: "bool \<Rightarrow> run_taker \<Rightarrow> string \<Rightarrow> (diag_buffer + verified_program) option" where
  "verify_source chk tw src = verify_source_with_config chk tw src verify_config_default"

subsection \<open>What a parser returns\<close>

definition yields :: "('a \<Rightarrow> bool) \<Rightarrow> 'a parser \<Rightarrow> bool" where
  "yields Q p \<longleftrightarrow> (\<forall>s x s'. p s = Parsed x s' \<longrightarrow> Q x)"

lemma yields_any: "yields (\<lambda>_. True) p"
  by (simp add: yields_def)

lemma yields_return: "Q x \<Longrightarrow> yields Q (p_return x)"
  by (simp add: yields_def p_return_def)

lemma yields_fail: "yields Q (p_fail e)"
  by (simp add: yields_def p_fail_def)

lemma yields_reject: "(\<And>s. p s = Rejected (g s) s) \<Longrightarrow> yields Q p"
  by (simp add: yields_def)

lemma yields_bind: "yields P p \<Longrightarrow> (\<And>x. P x \<Longrightarrow> yields Q (f x)) \<Longrightarrow> yields Q (p_bind p f)"
proof (unfold yields_def, intro allI impI)
  fix s y s'
  assume p: "\<forall>s x s'. p s = Parsed x s' \<longrightarrow> P x" and f: "\<And>x. P x \<Longrightarrow> \<forall>s y s'. f x s = Parsed y s' \<longrightarrow> Q y"
    and "p_bind p f s = Parsed y s'"
  then obtain x t where x: "p s = Parsed x t" "f x t = Parsed y s'"
    by (cases "p s") (simp_all add: p_bind_def)
  from p x(1) have "P x" by blast
  from f [OF this] x(2) show "Q y" by blast
qed

lemma yields_then: "(\<And>x. yields Q (f x)) \<Longrightarrow> yields Q (p_bind p f)"
  by (rule yields_bind [OF yields_any])

lemma yields_if: "yields Q p \<Longrightarrow> yields Q q \<Longrightarrow> yields Q (p_if c p q)"
  by (simp add: yields_def p_if_def)

lemma yields_cond: "(c \<Longrightarrow> yields Q p) \<Longrightarrow> (\<not> c \<Longrightarrow> yields Q q) \<Longrightarrow> yields Q (if c then p else q)"
  by simp

lemma yields_while_loop:
  "yields Q p \<Longrightarrow> list_all Q acc \<Longrightarrow> yields (list_all Q) (p_while_loop n c p acc)"
proof (induction n arbitrary: acc)
  case 0
  then show ?case unfolding yields_def by (subst p_while_loop.simps) auto
next
  case (Suc n)
  have "yields (list_all Q) (p_bind p (\<lambda>x. p_while_loop n c p (acc @ [x])))"
    using Suc by (intro yields_bind [OF Suc.prems(1)]) simp
  then show ?case using Suc.prems(2) unfolding yields_def by (subst p_while_loop.simps) auto
qed

lemma yields_while: "yields Q p \<Longrightarrow> yields (list_all Q) (p_while c p [])"
  using yields_while_loop [of Q p "[]"] unfolding yields_def p_while_def by simp

lemma yields_recover: "yields Q p \<Longrightarrow> yields (pred_option Q) (recover_item p)"
  by (auto simp: yields_def recover_item_def split: outcome.splits if_splits option.splits)

lemma yields_map: "yields (\<lambda>x. Q (f x)) p \<Longrightarrow> yields Q (p_bind p (\<lambda>x. p_return (f x)))"
  by (rule yields_bind, assumption, rule yields_return)

lemma list_all_somes: "list_all (pred_option Q) xs \<Longrightarrow> list_all Q (the_somes xs)"
  by (induction xs) (auto simp: the_somes_def List.map_filter_simps split: option.splits)

subsection \<open>What the grammar rules out\<close>

definition min_match_ok :: "min_match_clause option \<Rightarrow> bool" where
  "min_match_ok m = pred_option (\<lambda>c. 0 \<le> mm_count c) m"

definition is_emit :: "adgl_stmt \<Rightarrow> bool" where
  "is_emit st = (case st of StEmit _ \<Rightarrow> True | _ \<Rightarrow> False)"

definition is_infer :: "adgl_stmt \<Rightarrow> bool" where
  "is_infer st = (case st of StInfer _ \<Rightarrow> True | _ \<Rightarrow> False)"

fun body_layered :: "rule_decl \<Rightarrow> bool" where
  "body_layered (EvidenceDecl e) = list_all (\<lambda>st. \<not> is_emit st) (ev_body e)"
| "body_layered (DecisionDecl d) = list_all (\<lambda>st. \<not> is_infer st) (de_body d)"

definition rule_parsed :: "rule_decl \<Rightarrow> bool" where
  "rule_parsed r \<longleftrightarrow> list_all (\<lambda>c. min_match_ok (cb_min_match c)) (decl_correlates r) \<and> body_layered r"

fun decl_parsed :: "adgl_decl \<Rightarrow> bool" where
  "decl_parsed (Requires r) = (length (rq_capabilities r) \<le> max_requires)"
| "decl_parsed (MutuallyExclusive m) = True"

definition ruleset_parsed :: "ruleset \<Rightarrow> bool" where
  "ruleset_parsed rs \<longleftrightarrow> list_all rule_parsed (rs_rules rs) \<and> list_all decl_parsed (rh_decls (rs_header rs))"

lemma yields_min_match: "yields min_match_ok parse_optional_min_match"
  unfolding parse_optional_min_match_def Let_def
  by (intro yields_if yields_then yields_cond yields_fail yields_return) (simp_all add: min_match_ok_def)

lemma yields_correlate_block: "yields (\<lambda>c. min_match_ok (cb_min_match c)) parse_correlate_block"
  unfolding parse_correlate_block_def
  by ((rule yields_bind [OF yields_min_match] | rule yields_then)+, rule yields_return) simp

lemma yields_correlates: "yields (list_all (\<lambda>c. min_match_ok (cb_min_match c))) parse_correlates"
  unfolding parse_correlates_def by (rule yields_while [OF yields_correlate_block])

lemma yields_evidence_stmt: "yields (\<lambda>st. \<not> is_emit st) (parse_stmt_in_rule True)"
  unfolding parse_stmt_in_rule_def
proof (rule yields_then)
  fix st
  show "yields (\<lambda>st. \<not> is_emit st) (case st of
         StEmit _ \<Rightarrow>
           if True
           then p_fail (layer_error ''emit is not allowed in evidence rule body'' ''infer | action''
                          ''emit'' ''move `emit` into a decision rule'' (stmt_span st))
           else p_return st
       | StInfer _ \<Rightarrow>
           if True then p_return st
           else p_fail (layer_error ''infer is not allowed in decision rule body'' ''emit | action''
                          ''infer'' ''move `infer` into an evidence rule'' (stmt_span st))
       | _ \<Rightarrow> p_return st)"
    by (cases st) (auto intro!: yields_fail yields_return simp: is_emit_def)
qed

lemma yields_decision_stmt: "yields (\<lambda>st. \<not> is_infer st) (parse_stmt_in_rule False)"
  unfolding parse_stmt_in_rule_def
proof (rule yields_then)
  fix st
  show "yields (\<lambda>st. \<not> is_infer st) (case st of
         StEmit _ \<Rightarrow>
           if False
           then p_fail (layer_error ''emit is not allowed in evidence rule body'' ''infer | action''
                          ''emit'' ''move `emit` into a decision rule'' (stmt_span st))
           else p_return st
       | StInfer _ \<Rightarrow>
           if False then p_return st
           else p_fail (layer_error ''infer is not allowed in decision rule body'' ''emit | action''
                          ''infer'' ''move `infer` into an evidence rule'' (stmt_span st))
       | _ \<Rightarrow> p_return st)"
    by (cases st) (auto intro!: yields_fail yields_return simp: is_infer_def)
qed

lemma yields_evidence_rule: "yields (\<lambda>r. rule_parsed (EvidenceDecl r)) parse_evidence_rule"
  unfolding parse_evidence_rule_def
  by ((rule yields_bind [OF yields_correlates] yields_bind [OF yields_while [OF yields_evidence_stmt]]
        | rule yields_then)+, rule yields_return)
    (simp add: rule_parsed_def)

lemma yields_decision_rule: "yields (\<lambda>r. rule_parsed (DecisionDecl r)) parse_decision_rule"
  unfolding parse_decision_rule_def
  by ((rule yields_bind [OF yields_correlates] yields_bind [OF yields_while [OF yields_decision_stmt]]
        | rule yields_then)+, rule yields_return)
    (simp add: rule_parsed_def)

lemma yields_rule_item: "yields (pred_option rule_parsed) parse_rule_item"
  unfolding parse_rule_item_def
  by (intro yields_if yields_recover yields_map yields_evidence_rule yields_decision_rule)

lemma yields_requires: "yields (\<lambda>r. decl_parsed (Requires r)) parse_requires_decl"
  unfolding parse_requires_decl_def
  by (intro yields_then yields_cond yields_return yields_reject [of too_many_requires])
    (simp_all add: too_many_requires_def)

lemma yields_decl_item: "yields (pred_option decl_parsed) parse_decl_item"
  unfolding parse_decl_item_def
  by (intro yields_if yields_recover yields_map yields_requires) (simp add: yields_any)

lemma yields_header: "yields (\<lambda>h. list_all decl_parsed (rh_decls h)) parse_ruleset_header"
  unfolding parse_ruleset_header_def Let_def
  by (rule yields_then, rule yields_then, rule yields_then, rule yields_then,
      rule yields_bind [OF yields_while [OF yields_decl_item]], rule yields_return)
    (simp add: list_all_somes)

lemma yields_ruleset: "yields ruleset_parsed parse_ruleset_prod"
  unfolding parse_ruleset_prod_def
  by (rule yields_then, rule yields_then, rule yields_then, rule yields_then,
      rule yields_bind [OF yields_header], rule yields_bind [OF yields_while [OF yields_rule_item]],
      rule yields_then, rule yields_if, rule yields_reject [of _ "\<lambda>s. p_err ''ADGL0100'' ''unexpected tokens after ruleset'' ''end of input'' s"])
    (auto simp: trailing_error_def ruleset_parsed_def list_all_somes intro!: yields_return)

lemma parse_ruleset_parsed: "parse_ruleset tw src = Some (Inr rs) \<Longrightarrow> ruleset_parsed rs"
  using yields_ruleset by (auto simp: parse_ruleset_def yields_def split: option.splits sum.splits outcome.splits if_splits)

subsection \<open>From text to image\<close>






text \<open>
  C13: What acceptance promises to the phases behind the parser. A ruleset the parser accepts has
  only non-negative match counts in its correlates, at most 32 capabilities in every \<open>requires\<close>, no
  \<open>emit\<close> among the statements after the optional \<open>if\<close> of an evidence rule and no \<open>infer\<close> among those
  of a decision rule. The branches of the \<open>if\<close> are not restricted by the grammar; the layering
  phase judges them (\<open>verified_layers_separate\<close>).
\<close>

theorem accepted_ruleset_parsed:
  assumes "parse_ruleset tw src = Some (Inr rs)"
  shows "list_all rule_parsed (rs_rules rs) \<and> list_all decl_parsed (rh_decls (rs_header rs))"
  using parse_ruleset_parsed [OF assms] by (simp add: ruleset_parsed_def)

definition sample_source :: string where
  "sample_source = ''ruleset '' @ [CHR 0x22, CHR ''d'', CHR 0x22] @ ''{version='' @ [CHR 0x22, CHR ''1'', CHR 0x22] @
     '' requires=['' @ [CHR 0x22, CHR ''t'', CHR 0x22] @ '']}''"

lemma sample_accepted:
  "(case parse_ruleset reference_runs sample_source of
      Some (Inr rs) \<Rightarrow> map decl_item_span (rh_decls (rs_header rs)) = [\<lparr>sp_start = 24, sp_stop = 38\<rparr>] | _ \<Rightarrow> False)"
  by code_simp

lemma accepted_ruleset_parsed_witness:
  "\<exists>rs. parse_ruleset reference_runs sample_source = Some (Inr rs) \<and> length (rh_decls (rs_header rs)) = 1 \<and>
     list_all rule_parsed (rs_rules rs) \<and> list_all decl_parsed (rh_decls (rs_header rs))"
proof -
  obtain rs where rs: "parse_ruleset reference_runs sample_source = Some (Inr rs)"
      "map decl_item_span (rh_decls (rs_header rs)) = [\<lparr>sp_start = 24, sp_stop = 38\<rparr>]"
    using sample_accepted by (auto split: option.splits sum.splits)
  from rs(2) have "length (rh_decls (rs_header rs)) = 1" by (metis length_Cons length_map list.size(3) One_nat_def)
  with rs(1) accepted_ruleset_parsed [OF rs(1)] show ?thesis by blast
qed

end
