(* ===== verification/Adgl_Recovery.thy ===== *)
theory Adgl_Recovery
  imports Adgl_Parses "HOL-Library.Sublist"
begin

text \<open>
  Error recovery of the ADGL parser is conservative. crates/airpulse\_dsl-syntax/src/parser.rs has
  two entry points: \<open>parse_ruleset\<close>, which resynchronises at the next declaration or rule and goes on,
  and \<open>parse_ruleset_fail_fast\<close> (built for tests), which stops at the first error. \<open>alike\<close> relates one
  parser in the two modes, and its rules follow the structure of the productions.
\<close>

definition parse_ruleset_fail_fast :: "run_taker \<Rightarrow> string \<Rightarrow> (diag_buffer + ruleset) option" where
  "parse_ruleset_fail_fast tw src =
     (case tokenize tw src of
        None \<Rightarrow> None
      | Some (Inl e) \<Rightarrow> Some (Inl (diag_from_err e))
      | Some (Inr ts) \<Rightarrow>
          (case parse_ruleset_prod (pstate_new ts) of
             Stuck \<Rightarrow> None
           | Parsed rs s \<Rightarrow> Some (Inr rs)
           | Rejected e s \<Rightarrow> Some (Inl (diag_from_err e))))"

subsection \<open>One parser in two modes\<close>

definition fail_fast :: "pstate \<Rightarrow> pstate" where
  "fail_fast s = s\<lparr>ps_recover := False\<rparr>"

definition stops_at :: "diagnostic \<Rightarrow> 'a outcome \<Rightarrow> bool" where
  "stops_at d r \<longleftrightarrow> (\<exists>e t. r = Rejected e t \<and> \<not> ps_recover t \<and> diag_of e = d)"

definition goes_on :: "pstate \<Rightarrow> pstate \<Rightarrow> bool" where
  "goes_on s s' \<longleftrightarrow> ps_recover s' \<and> prefix (ps_diags s) (ps_diags s')"

text \<open>
  As long as nothing is recorded the two modes agree; where the recovering one records its first
  error, the other stops with it.
\<close>

definition alike :: "'a parser \<Rightarrow> bool" where
  "alike p \<longleftrightarrow> (\<forall>s. ps_recover s \<longrightarrow>
     (case p s of
        Parsed x s' \<Rightarrow> goes_on s s' \<and> (ps_diags s = [] \<longrightarrow>
          (if ps_diags s' = [] then p (fail_fast s) = Parsed x (fail_fast s')
           else stops_at (hd (ps_diags s')) (p (fail_fast s))))
      | Rejected e s' \<Rightarrow> goes_on s s' \<and> (ps_diags s = [] \<longrightarrow>
          stops_at (hd (ps_diags s' @ [diag_of e])) (p (fail_fast s)))
      | Stuck \<Rightarrow> True))"

lemma fail_fast_simps [simp]:
  "peek_token (fail_fast s) = peek_token s" "peek_kind (fail_fast s) = peek_kind s"
  "peek_span (fail_fast s) = peek_span s" "p_err c m x (fail_fast s) = p_err c m x s"
  "p_fuel (fail_fast s) = p_fuel s" "ps_idx (fail_fast s) = ps_idx s" "ps_tokens (fail_fast s) = ps_tokens s"
  "ps_diags (fail_fast s) = ps_diags s" "\<not> ps_recover (fail_fast s)"
  "next_state (fail_fast s) = fail_fast (next_state s)"
  by (auto simp: fail_fast_def peek_token_def peek_kind_def peek_span_def p_err_def p_fuel_def
      next_state_def split: token_kind.splits)

lemma next_state_mode [simp]:
  "ps_diags (next_state s) = ps_diags s" "ps_recover (next_state s) = ps_recover s"
  by (simp_all add: next_state_def)

lemma goes_on_refl [simp]: "goes_on s s = ps_recover s" "goes_on s (next_state s) = ps_recover s"
  by (simp_all add: goes_on_def)

lemma goes_on_trans: "goes_on s t \<Longrightarrow> goes_on t u \<Longrightarrow> goes_on s u"
  by (auto simp: goes_on_def)

lemma goes_on_hd: "goes_on s t \<Longrightarrow> ps_diags s \<noteq> [] \<Longrightarrow> ps_diags t \<noteq> [] \<and> hd (ps_diags t) = hd (ps_diags s)"
  by (auto simp: goes_on_def prefix_def)

named_theorems alike_rules "rules that relate the two modes of a parser"

text \<open>A parser that steps or stops on what it sees.\<close>

lemma alike_simple:
  assumes "\<And>s. (\<exists>x. p s = Parsed x s \<and> p (fail_fast s) = Parsed x (fail_fast s)) \<or>
      (\<exists>x. p s = Parsed x (next_state s) \<and> p (fail_fast s) = Parsed x (fail_fast (next_state s))) \<or>
      (\<exists>e. p s = Rejected e s \<and> p (fail_fast s) = Rejected e (fail_fast s)) \<or> p s = Stuck"
  shows "alike p"
  unfolding alike_def
proof (intro allI impI)
  fix s :: pstate assume "ps_recover s"
  with assms [of s] show "case p s of
        Parsed x s' \<Rightarrow> goes_on s s' \<and> (ps_diags s = [] \<longrightarrow>
          (if ps_diags s' = [] then p (fail_fast s) = Parsed x (fail_fast s')
           else stops_at (hd (ps_diags s')) (p (fail_fast s))))
      | Rejected e s' \<Rightarrow> goes_on s s' \<and> (ps_diags s = [] \<longrightarrow>
          stops_at (hd (ps_diags s' @ [diag_of e])) (p (fail_fast s)))
      | Stuck \<Rightarrow> True"
    by (auto simp: stops_at_def)
qed

lemma alike_bind [alike_rules]:
  assumes p: "alike p" and f: "\<And>x. alike (f x)"
  shows "alike (p_bind p f)"
  unfolding alike_def
proof (intro allI impI)
  fix s :: pstate assume s: "ps_recover s"
  show "case p_bind p f s of
        Parsed x s' \<Rightarrow> goes_on s s' \<and> (ps_diags s = [] \<longrightarrow>
          (if ps_diags s' = [] then p_bind p f (fail_fast s) = Parsed x (fail_fast s')
           else stops_at (hd (ps_diags s')) (p_bind p f (fail_fast s))))
      | Rejected e s' \<Rightarrow> goes_on s s' \<and> (ps_diags s = [] \<longrightarrow>
          stops_at (hd (ps_diags s' @ [diag_of e])) (p_bind p f (fail_fast s)))
      | Stuck \<Rightarrow> True"
  proof (cases "p s")
    case (Parsed x t)
    then have t: "goes_on s t" "ps_diags s = [] \<Longrightarrow> if ps_diags t = [] then p (fail_fast s) = Parsed x (fail_fast t)
        else stops_at (hd (ps_diags t)) (p (fail_fast s))"
      using p s unfolding alike_def by force+
    have stop: "stops_at d (p (fail_fast s)) \<Longrightarrow> stops_at d (p_bind p f (fail_fast s))" for d
      by (auto simp: stops_at_def p_bind_def)
    have ft: "case f x t of
        Parsed y u \<Rightarrow> goes_on t u \<and> (ps_diags t = [] \<longrightarrow>
          (if ps_diags u = [] then f x (fail_fast t) = Parsed y (fail_fast u)
           else stops_at (hd (ps_diags u)) (f x (fail_fast t))))
      | Rejected e u \<Rightarrow> goes_on t u \<and> (ps_diags t = [] \<longrightarrow>
          stops_at (hd (ps_diags u @ [diag_of e])) (f x (fail_fast t)))
      | Stuck \<Rightarrow> True"
      using f [of x] t(1) unfolding alike_def goes_on_def by blast
    show ?thesis
    proof (cases "ps_diags t = []")
      case True
      then have "ps_diags s = [] \<Longrightarrow> p (fail_fast s) = Parsed x (fail_fast t)" using t(2) by simp
      then have run: "ps_diags s = [] \<Longrightarrow> p_bind p f (fail_fast s) = f x (fail_fast t)" by (simp add: p_bind_def)
      from ft True show ?thesis
        by (auto simp: p_bind_def [of p f s] Parsed run split: outcome.split intro: goes_on_trans [OF t(1)])
    next
      case False
      with t(2) stop have st: "ps_diags s = [] \<Longrightarrow> stops_at (hd (ps_diags t)) (p_bind p f (fail_fast s))" by simp
      have keep: "goes_on t u \<Longrightarrow> ps_diags u \<noteq> [] \<and> hd (ps_diags u) = hd (ps_diags t)" for u
        by (rule goes_on_hd [OF _ False])
      show ?thesis
      proof (cases "f x t")
        case (Parsed y u)
        with ft have u: "goes_on t u" by simp
        from keep [OF u] goes_on_trans [OF t(1) u] st show ?thesis
          by (simp add: p_bind_def [of p f s] \<open>p s = Parsed x t\<close> Parsed)
      next
        case (Rejected e u)
        with ft have u: "goes_on t u" by simp
        from keep [OF u] goes_on_trans [OF t(1) u] st show ?thesis
          by (simp add: p_bind_def [of p f s] \<open>p s = Parsed x t\<close> Rejected)
      next
        case Stuck
        then show ?thesis by (simp add: p_bind_def [of p f s] \<open>p s = Parsed x t\<close>)
      qed
    qed
  next
    case (Rejected e t)
    then have "goes_on s t \<and> (ps_diags s = [] \<longrightarrow> stops_at (hd (ps_diags t @ [diag_of e])) (p (fail_fast s)))"
      using p s unfolding alike_def by force
    then show ?thesis by (auto simp: p_bind_def Rejected stops_at_def)
  next
    case Stuck
    then show ?thesis by (simp add: p_bind_def)
  qed
qed

lemma alike_primitives [alike_rules]:
  "alike (p_return x)" "alike (p_fail e)" "alike p_stuck" "alike p_next" "alike p_peek" "alike prev_end"
  "alike docs_here" "alike (consume_kw kw)" "alike (consume_word_exact kw)" "alike (consume_kind ex pr)"
  "alike (consume_punct k ex)" "alike sign_error" "alike stmt_error" "alike anchor_error" "alike source_error"
  "alike too_many_requires" "alike trailing_error"
  by (rule alike_simple; auto simp: p_return_def p_fail_def p_stuck_def p_next_def p_peek_def prev_end_def
      docs_here_def consume_kw_def consume_word_exact_def consume_kind_def consume_punct_def sign_error_def
      stmt_error_def anchor_error_def source_error_def too_many_requires_def trailing_error_def Let_def)+

lemma alike_if [alike_rules]: "alike p \<Longrightarrow> alike q \<Longrightarrow> alike (p_if c p q)"
  unfolding alike_def p_if_def by (simp split: outcome.splits)

lemma alike_cond [alike_rules]: "alike p \<Longrightarrow> alike q \<Longrightarrow> alike (if c then p else q)"
  by simp

lemma alike_option [alike_rules]:
  "(\<And>x. alike (f x)) \<Longrightarrow> alike g \<Longrightarrow> alike (case v of None \<Rightarrow> g | Some x \<Rightarrow> f x)"
  by (cases v) auto

lemma alike_prod [alike_rules]: "(\<And>x y. alike (f x y)) \<Longrightarrow> alike (case v of (x, y) \<Rightarrow> f x y)"
  by (cases v) auto

text \<open>A parser that reads its state, apart from the mode and the diagnostics, to choose what to do.\<close>

lemma alike_reads:
  assumes "\<And>s. p s = q (r s) s" "\<And>s. r (fail_fast s) = r s" "\<And>v. alike (q v)"
  shows "alike p"
  using assms(3) unfolding alike_def assms(1) assms(2) by blast

lemma alike_fuel: "(\<And>n. alike (q n)) \<Longrightarrow> alike (\<lambda>s. q (p_fuel s) s)"
  by (rule alike_reads [of _ q p_fuel]) simp_all

subsection \<open>Loops\<close>

lemma alike_while_loop: "alike p \<Longrightarrow> alike (p_while_loop n c p acc)"
proof (induction n arbitrary: acc)
  case 0
  have "p_while_loop 0 c p acc = p_if c p_stuck (p_return acc)"
    by (rule ext, subst p_while_loop.simps) (simp add: p_if_def p_return_def p_stuck_def)
  then show ?case by (simp add: alike_rules)
next
  case (Suc n)
  have "p_while_loop (Suc n) c p acc = p_if c (p_bind p (\<lambda>x. p_while_loop n c p (acc @ [x]))) (p_return acc)"
    by (rule ext, subst p_while_loop.simps) (simp add: p_if_def p_return_def)
  with Suc show ?case by (simp add: alike_rules)
qed

lemma alike_while [alike_rules]: "alike p \<Longrightarrow> alike (p_while c p acc)"
  by (rule alike_reads [of _ "\<lambda>n. p_while_loop n c p acc" p_fuel]) (simp_all add: p_while_def alike_while_loop)

lemma alike_comma_list [alike_rules]: "alike p \<Longrightarrow> alike (p_comma_list p)"
  unfolding p_comma_list_def by (intro alike_rules)

lemma alike_list_until [alike_rules]: "alike p \<Longrightarrow> alike (p_list_until close p)"
  unfolding p_list_until_def by (intro alike_rules)

subsection \<open>Expressions\<close>

lemma alike_binary_loop: "alike sub \<Longrightarrow> alike (binary_loop n ops sub left)"
proof (induction n arbitrary: left)
  case 0
  show ?case by (rule alike_simple, subst (1 2 3 4 5 6 7) binary_loop.simps) (simp split: option.split)
next
  case (Suc n)
  define go where "go v = (case v of None \<Rightarrow> p_return left
      | Some op \<Rightarrow> p_bind p_next (\<lambda>_. p_bind sub (\<lambda>right. binary_loop n ops sub (binary_expr op left right))))" for v
  have step: "binary_loop (Suc n) ops sub left s = go (ops (peek_kind s)) s" for s
    by (subst binary_loop.simps) (simp add: go_def p_return_def split: option.split)
  have "alike (go v)" for v unfolding go_def using Suc by (intro alike_rules)
  then show ?case by (intro alike_reads [of "binary_loop (Suc n) ops sub left" go "\<lambda>s. ops (peek_kind s)"]) (rule step, simp)
qed

lemma alike_binary_level: "alike sub \<Longrightarrow> alike (binary_level ops sub)"
  unfolding binary_level_def
  by (rule alike_bind, assumption, rule alike_fuel) (rule alike_binary_loop)

lemma alike_ident_any [alike_rules]: "alike parse_ident_any"
  unfolding parse_ident_any_def
proof (rule alike_bind)
  fix tok
  show "alike (case tk_kind tok of
         TIdent w \<Rightarrow> p_return \<lparr>id_name = w, id_span = tk_span tok\<rparr>
       | TKw w \<Rightarrow>
           if w \<in> set soft_keywords then p_return \<lparr>id_name = w, id_span = tk_span tok\<rparr>
           else p_fail (parse_err_new ''ADGL0100'' ''reserved keyword is not allowed here''
                          ''identifier (non-keyword)'' (tk_span tok))
       | _ \<Rightarrow> p_stuck)"
    by (cases "tk_kind tok") (simp_all add: alike_rules)
qed (rule alike_rules)

lemma alike_presence: "alike (parse_presence mk start)"
  unfolding parse_presence_def by (intro alike_rules)

lemma alike_primary: "alike e \<Longrightarrow> alike (parse_primary e)"
proof (unfold parse_primary_def Let_def, rule alike_bind)
  fix tok assume "alike e"
  then show "alike (case tk_kind tok of
         TInt v \<Rightarrow> p_bind p_next (\<lambda>_. p_return (Expr (XInt \<lparr>il_value = v, il_span = tk_span tok\<rparr>) (tk_span tok)))
       | TDuration v \<Rightarrow> p_bind p_next (\<lambda>_. p_return (Expr (XDuration \<lparr>dl_millis = v, dl_span = tk_span tok\<rparr>) (tk_span tok)))
       | TString v \<Rightarrow> p_bind p_next (\<lambda>_. p_return (Expr (XString \<lparr>sl_value = v, sl_span = tk_span tok\<rparr>) (tk_span tok)))
       | TKw k \<Rightarrow>
           if k = ''true'' then p_bind p_next (\<lambda>_. p_return (Expr (XBool True) (tk_span tok)))
           else if k = ''false'' then p_bind p_next (\<lambda>_. p_return (Expr (XBool False) (tk_span tok)))
           else if k = ''present'' then parse_presence XPresent (sp_start (tk_span tok))
           else if k = ''absent'' then parse_presence XAbsent (sp_start (tk_span tok))
           else if k \<in> set soft_keywords
             then p_bind p_next (\<lambda>_. p_return (Expr (XIdent \<lparr>id_name = k, id_span = tk_span tok\<rparr>) (tk_span tok)))
           else p_fail (primary_error tok)
       | TIdent w \<Rightarrow> p_bind p_next (\<lambda>_. p_return (Expr (XIdent \<lparr>id_name = w, id_span = tk_span tok\<rparr>) (tk_span tok)))
       | TLParen \<Rightarrow>
           p_bind p_next (\<lambda>_. p_bind e (\<lambda>x. p_bind (consume_punct TRParen '')'') (\<lambda>_. p_return x)))
       | _ \<Rightarrow> p_fail (primary_error tok))"
    by (cases "tk_kind tok") (simp_all add: alike_rules alike_presence)
qed (rule alike_rules)

lemma alike_paren_expr_list: "alike e \<Longrightarrow> alike (parse_paren_expr_list e)"
  unfolding parse_paren_expr_list_def by (intro alike_rules)

lemma alike_suffix: "alike e \<Longrightarrow> alike (parse_suffix e x)"
  unfolding parse_suffix_def by (intro alike_rules alike_paren_expr_list)

lemma alike_postfix_loop: "alike e \<Longrightarrow> alike (postfix_loop n e x)"
proof (induction n arbitrary: x)
  case 0
  show ?case by (rule alike_simple, subst (1 2 3 4 5 6 7) postfix_loop.simps) simp
next
  case (Suc n)
  have "postfix_loop (Suc n) e x = p_if opens_suffix (p_bind (parse_suffix e x) (postfix_loop n e)) (p_return x)"
    by (rule ext, subst postfix_loop.simps) (simp add: p_if_def p_return_def)
  with Suc show ?case by (simp add: alike_rules alike_suffix)
qed

lemma alike_postfix: "alike e \<Longrightarrow> alike (parse_postfix e)"
  unfolding parse_postfix_def
  by (rule alike_bind, erule alike_primary, rule alike_fuel, erule alike_postfix_loop)

lemma alike_unary_depth: "alike e \<Longrightarrow> alike (unary_depth n e)"
proof (induction n)
  case 0
  define go where "go v = (if v then p_stuck else parse_postfix e)" for v
  have step: "unary_depth 0 e s = go (peek_kind s = TBang \<or> peek_kind s = TKw ''not'') s" for s
    by (subst unary_depth.simps) (simp add: go_def p_stuck_def)
  have "alike (go v)" for v unfolding go_def by (intro alike_rules alike_postfix 0)
  then show ?case by (intro alike_reads [of "unary_depth 0 e" go "\<lambda>s. peek_kind s = TBang \<or> peek_kind s = TKw ''not''"]) (rule step, simp)
next
  case (Suc n)
  define go where "go v = (if fst v then p_bind p_next (\<lambda>_. p_bind (unary_depth n e) (\<lambda>inner.
      p_return (Expr (XUnary UnNot inner) (span_new (sp_start (snd v)) (sp_stop (ex_span inner))))))
      else parse_postfix e)" for v :: "bool \<times> span"
  have step: "unary_depth (Suc n) e s = go (peek_kind s = TBang \<or> peek_kind s = TKw ''not'', peek_span s) s" for s
    by (subst unary_depth.simps) (simp add: go_def)
  have "alike (go v)" for v unfolding go_def by (intro alike_rules alike_postfix Suc)
  then show ?case by (intro alike_reads [of "unary_depth (Suc n) e" go "\<lambda>s. (peek_kind s = TBang \<or> peek_kind s = TKw ''not'', peek_span s)"]) (rule step, simp)
qed

lemma alike_unary: "alike e \<Longrightarrow> alike (parse_unary e)"
  unfolding parse_unary_def [abs_def]
  by (rule alike_fuel [of "\<lambda>n. unary_depth n e"], erule alike_unary_depth)

lemma alike_additive_with: "alike e \<Longrightarrow> alike (parse_additive_with e)"
  unfolding parse_additive_with_def parse_multiplicative_def by (intro alike_binary_level alike_unary)

lemma alike_expr_at_depth: "alike (expr_at_depth n)"
proof (induction n)
  case 0
  have "expr_at_depth 0 = p_stuck" by (rule ext, subst expr_at_depth.simps) (simp add: p_stuck_def)
  then show ?case by (simp add: alike_rules)
next
  case (Suc n)
  have "expr_at_depth (Suc n) = parse_logic_or (expr_at_depth n)"
    by (rule ext, subst expr_at_depth.simps) simp
  with Suc show ?case
    by (simp add: parse_logic_or_def parse_logic_and_def parse_equality_def alike_binary_level alike_additive_with)
qed

lemma alike_expr [alike_rules]: "alike parse_expr"
  unfolding parse_expr_def [abs_def] by (rule alike_fuel [of expr_at_depth], rule alike_expr_at_depth)

lemma alike_additive [alike_rules]: "alike parse_additive"
  unfolding parse_additive_def [abs_def]
  by (rule alike_fuel [of "\<lambda>n. parse_additive_with (expr_at_depth n)"])
    (intro alike_additive_with alike_expr_at_depth)

lemma alike_expr_list [alike_rules]: "alike (parse_paren_expr_list parse_expr)"
  by (intro alike_paren_expr_list alike_rules)

subsection \<open>Names, statements, rules\<close>

lemma alike_token_bind:
  "(\<And>tok. alike (f tok)) \<Longrightarrow> alike (p_bind (consume_kind ex pr) f)"
  by (intro alike_rules)

lemma alike_words [alike_rules]:
  "alike parse_string_lit" "alike parse_ident_non_kw" "alike parse_word_any"
  unfolding parse_string_lit_def parse_ident_non_kw_def parse_word_any_def
  by (rule alike_token_bind, split token_kind.split, simp add: alike_rules)+

lemma alike_names [alike_rules]:
  "alike parse_ref_list" "alike parse_scope_type" "alike parse_severity" "alike parse_segment"
  unfolding parse_ref_list_def parse_scope_type_def parse_severity_def parse_segment_def
  by (intro alike_rules)+

lemma alike_kind_ident [alike_rules]: "alike parse_kind_ident"
  unfolding parse_kind_ident_def by (intro alike_rules)

lemma alike_in_parens [alike_rules]: "alike parse_kind_ident_in_parens" "alike parse_ident_in_parens"
  unfolding parse_kind_ident_in_parens_def parse_ident_in_parens_def by (intro alike_rules)+

lemma alike_weight [alike_rules]: "alike (signed_weight sp i)"
  unfolding signed_weight_def by (intro alike_rules)

lemma alike_fields [alike_rules]: "alike parse_infer_field" "alike parse_emit_field" "alike parse_action_field"
  unfolding parse_infer_field_def parse_emit_field_def parse_action_field_def by (intro alike_rules)+

lemma alike_stmts [alike_rules]: "alike parse_infer_stmt" "alike parse_emit_stmt" "alike parse_action_stmt"
  unfolding parse_infer_stmt_def parse_emit_stmt_def parse_action_stmt_def by (intro alike_rules)+

lemma alike_stmt_any [alike_rules]: "alike parse_stmt_any"
  unfolding parse_stmt_any_def by (intro alike_rules)

lemma alike_stmt_in_rule [alike_rules]: "alike (parse_stmt_in_rule b)"
  unfolding parse_stmt_in_rule_def
  by (rule alike_bind, rule alike_rules, split adgl_stmt.split) (simp add: alike_rules)

lemma alike_blocks [alike_rules]: "alike parse_stmt_block" "alike parse_optional_predicate"
  unfolding parse_stmt_block_def parse_optional_predicate_def by (intro alike_rules)+

lemma alike_if_else [alike_rules]: "alike parse_if_else_block"
  unfolding parse_if_else_block_def by (intro alike_rules)

lemma alike_anchors [alike_rules]: "alike parse_anchor_block" "alike parse_decision_anchor"
  unfolding parse_anchor_block_def parse_decision_anchor_def by (intro alike_rules)+

lemma alike_correlate_parts [alike_rules]:
  "alike parse_optional_min_match" "alike parse_correlate_source" "alike parse_topo_predicate"
  "alike parse_time_window"
  unfolding parse_optional_min_match_def parse_correlate_source_def parse_topo_predicate_def
    parse_time_window_def Let_def
  by (intro alike_rules)+

lemma alike_correlate_block [alike_rules]: "alike parse_correlate_block"
  unfolding parse_correlate_block_def by (intro alike_rules)

lemma alike_rule_parts [alike_rules]:
  "alike parse_correlates" "alike parse_optional_if" "alike parse_scope_header"
  unfolding parse_correlates_def parse_optional_if_def parse_scope_header_def by (intro alike_rules)+

lemma alike_rules_and_decls [alike_rules]:
  "alike parse_evidence_rule" "alike parse_decision_rule" "alike parse_requires_decl"
  "alike parse_mutually_exclusive_decl"
  unfolding parse_evidence_rule_def parse_decision_rule_def parse_requires_decl_def
    parse_mutually_exclusive_decl_def
  by (intro alike_rules)+

subsection \<open>Recovery\<close>

lemma resync_loop_mode:
  "resync_loop n s = Some t \<Longrightarrow> ps_diags t = ps_diags s \<and> ps_recover t = ps_recover s"
proof (induction n arbitrary: s)
  case 0
  then show ?case by (subst (asm) resync_loop.simps) (auto simp: Let_def split: if_splits)
next
  case (Suc n)
  from Suc.prems Suc.IH [of "next_state s"] show ?case
    by (subst (asm) resync_loop.simps) (auto simp: Let_def split: if_splits)
qed

lemma resync_mode:
  "resync_decl_or_rule s = Some t \<Longrightarrow> ps_diags t = ps_diags s \<and> ps_recover t = ps_recover s"
  by (auto simp: resync_decl_or_rule_def Let_def dest!: resync_loop_mode split: if_splits)

lemma alike_recover_item:
  assumes p: "alike p"
  shows "alike (recover_item p)"
  unfolding alike_def
proof (intro allI impI)
  fix s :: pstate assume s: "ps_recover s"
  show "case recover_item p s of
        Parsed x s' \<Rightarrow> goes_on s s' \<and> (ps_diags s = [] \<longrightarrow>
          (if ps_diags s' = [] then recover_item p (fail_fast s) = Parsed x (fail_fast s')
           else stops_at (hd (ps_diags s')) (recover_item p (fail_fast s))))
      | Rejected e s' \<Rightarrow> goes_on s s' \<and> (ps_diags s = [] \<longrightarrow>
          stops_at (hd (ps_diags s' @ [diag_of e])) (recover_item p (fail_fast s)))
      | Stuck \<Rightarrow> True"
  proof (cases "p s")
    case (Parsed x t)
    then have t: "goes_on s t" "ps_diags s = [] \<Longrightarrow> if ps_diags t = [] then p (fail_fast s) = Parsed x (fail_fast t)
        else stops_at (hd (ps_diags t)) (p (fail_fast s))"
      using p s unfolding alike_def by force+
    then show ?thesis by (auto simp: recover_item_def Parsed stops_at_def)
  next
    case (Rejected e t)
    then have t: "goes_on s t" "ps_diags s = [] \<Longrightarrow> stops_at (hd (ps_diags t @ [diag_of e])) (p (fail_fast s))"
      using p s unfolding alike_def by force+
    have on: "ps_recover t" using t(1) by (simp add: goes_on_def)
    show ?thesis
    proof (cases "resync_decl_or_rule (record_error e t)")
      case None
      then show ?thesis by (simp add: recover_item_def Rejected on)
    next
      case (Some u)
      from resync_mode [OF Some] have u: "ps_diags u = ps_diags t @ [diag_of e]" "ps_recover u"
        using on by (simp_all add: record_error_def)
      with t(1) have "goes_on s u" by (auto simp: goes_on_def)
      with u t(2) show ?thesis by (auto simp: recover_item_def Rejected on Some stops_at_def)
    qed
  next
    case Stuck
    then show ?thesis by (simp add: recover_item_def)
  qed
qed

lemma alike_items [alike_rules]: "alike parse_decl_item" "alike parse_rule_item"
  unfolding parse_decl_item_def parse_rule_item_def
  by (intro alike_rules alike_recover_item)+

lemma alike_header [alike_rules]: "alike parse_ruleset_header"
  unfolding parse_ruleset_header_def Let_def by (intro alike_rules)

lemma alike_ruleset: "alike parse_ruleset_prod"
  unfolding parse_ruleset_prod_def by (intro alike_rules)

text \<open>
  C12: Recovery is conservative. On every source text the recovering entry point returns exactly
  what the fail-fast one does, except that after the first diagnostic it may add more: it accepts a
  text if and only if the fail-fast parser does, with the same tree, and when both reject, the first
  diagnostic it reports is the only one of the fail-fast parser.
\<close>

theorem recovery_conservative:
  assumes "takes_runs tw"
  shows "parse_ruleset_fail_fast tw src =
    map_option (map_sum (take 1) id) (parse_ruleset tw src)"
proof (cases "tokenize tw src")
  case None
  then show ?thesis by (simp add: parse_ruleset_def parse_ruleset_fail_fast_def)
next
  case (Some r)
  show ?thesis
  proof (cases r)
    case (Inl e)
    with Some show ?thesis
      by (simp add: parse_ruleset_def parse_ruleset_fail_fast_def diag_from_err_def)
  next
    case (Inr ts)
    define s where "s = (pstate_new ts)\<lparr>ps_recover := True\<rparr>"
    have s: "ps_recover s" "ps_diags s = []" "pstate_new ts = fail_fast s"
      by (simp_all add: s_def pstate_new_def fail_fast_def)
    have ran: "parse_ruleset_prod s \<noteq> Stuck"
      using parse_ruleset_result [OF assms, of src] Some Inr by (auto simp: parse_ruleset_def s_def)
    have "case parse_ruleset_prod s of
        Parsed x s' \<Rightarrow> if ps_diags s' = [] then parse_ruleset_prod (pstate_new ts) = Parsed x (fail_fast s')
           else stops_at (hd (ps_diags s')) (parse_ruleset_prod (pstate_new ts))
      | Rejected e s' \<Rightarrow> stops_at (hd (ps_diags s' @ [diag_of e])) (parse_ruleset_prod (pstate_new ts))
      | Stuck \<Rightarrow> False"
      using alike_ruleset [unfolded alike_def, rule_format, OF s(1)] ran s(2)
      unfolding s(3) by (simp split: outcome.splits)
    with Some Inr ran show ?thesis
      by (auto simp: parse_ruleset_def parse_ruleset_fail_fast_def stops_at_def diag_from_err_def
          record_error_def s_def [symmetric] neq_Nil_conv hd_append split: outcome.splits if_splits)
  qed
qed

text \<open>Two declarations without their \<open>=\<close>: two diagnostics, or the first of them.\<close>

definition twice_wrong_source :: string where
  "twice_wrong_source = ''ruleset '' @ [CHR 0x22, CHR ''d'', CHR 0x22] @ '' {version='' @
     [CHR 0x22, CHR ''1'', CHR 0x22] @ '' requires requires }''"

lemma twice_wrong:
  "(case parse_ruleset reference_runs twice_wrong_source of
      Some (Inl [d1, d2]) \<Rightarrow> dg_span d1 \<noteq> dg_span d2 | _ \<Rightarrow> False)"
  by code_simp

lemma recovery_conservative_witness:
  "\<exists>d1 d2. parse_ruleset reference_runs twice_wrong_source = Some (Inl [d1, d2]) \<and> d1 \<noteq> d2 \<and>
     parse_ruleset_fail_fast reference_runs twice_wrong_source = Some (Inl [d1])"
  using twice_wrong recovery_conservative [OF reference_runs_ok, of twice_wrong_source]
  by (auto split: option.splits sum.splits list.splits)

end
