(* ===== verification/Spec2Isabelle.thy ===== *)
theory Spec2Isabelle
  imports Bytecode_Stream Bytecode_Safety Compile_Safety Compile_Release Compile_Clobber
    Efsm_Props Reassembly Continuation Runner_Props Adgl_Semantics Adgl_Verify_Demo
    Adgl_Edit Adgl_Render Adgl_Source Adgl_Recovery
begin

text \<open>
  A verification library for the n-fdl workspace (Rust, src/crates): N-FDL, a language for binary
  network formats that is compiled to bytecode and run on packets and streams, and ADGL, a rule
  language whose engine correlates the resulting events over time.

  \<^bold>\<open>How the parts interact.\<close> A parsed protocol (\<open>Nfdl_Ast\<close>) is compiled (\<open>Nfdl_Expr\<close>,
  \<open>Nfdl_Compile\<close>) to a bytecode program (\<open>Bytecode\<close>). The runner (\<open>Runner\<close>) chooses the root
  message, runs the program on a datagram, reads the fields out of the slots, derives the flow
  key and feeds the protocol's state machines (\<open>Efsm\<close>), which keep one session per flow
  (\<open>Session\<close>). A TCP stream first passes the reassembler (\<open>Reassembly\<close>); a stream may also be
  parsed as it arrives, through continuations (\<open>Continuation\<close>). On the ADGL side events enter
  per-scope rings of the graph store (\<open>Adgl_Ring\<close>, \<open>Adgl_Store\<close>); a rule of the program image
  (\<open>Adgl_Ir\<close>) whose window is still open waits in a queue; predicates over bound events are run
  by a register interpreter (\<open>Adgl_Predicate\<close>) that may ask the topology (\<open>Adgl_Topology\<close>).
  The engine (\<open>Adgl_Engine\<close>, \<open>Adgl_Intents\<close>, \<open>Adgl_Pipeline\<close>) ties these together: it advances
  the watermark, resumes the matches whose window closed, matches anchors, correlates, and
  executes the intents of the rule, which mutate the sub-graphs and may fire further rules;
  names of fields are looked up in the catalog (\<open>Adgl_Catalog\<close>), actions go to a sink
  (\<open>Adgl_Sink\<close>). The image comes from text: the lexer (\<open>Adgl_Lexer\<close>) cuts the source into
  tokens, the parser (\<open>Adgl_Parser\<close>, \<open>Adgl_Productions\<close>) builds the tree (\<open>Adgl_Ast\<close>) and
  recovers from errors to report several at once, the verifier checks the tree in twelve phases
  (\<open>Adgl_Check\<close>, \<open>Adgl_Phases\<close>) and lowers it to the image (\<open>Adgl_Lower\<close>); \<open>verify_source\<close>
  (\<open>Adgl_Source\<close>) composes them.

  \<^bold>\<open>Theories and sources.\<close>
  \<^item> \<open>Prelude\<close>, \<open>Hash_Map\<close>, \<open>Op_System\<close>, \<open>Stream_Machine\<close>: machine integers and their
    profile-dependent arithmetic; the contract of \<open>HashMap\<close> as a locale with an association
    list as its model; components driven by sequences of operations; suspendable machines.
    The locales are interpreted on the models (the session database, the engines, the ring, the
    queue, the store, the interpreter).
  \<^item> \<open>Bytecode\<close>, \<open>Bytecode_Stream\<close>, \<open>Bytecode_Safety\<close>: crates/nfdl-bytecode/src/lib.rs, one
    definition per instruction (\<open>exec_*\<close>), the loop \<open>interpret_vm\<close>, \<open>run\<close>, \<open>run_stream\<close>,
    \<open>resume\<close>. Resuming equals parsing at once; limits; absence of panics; build profiles.
  \<^item> \<open>Nfdl_Ast\<close>: crates/nfdl-syntax/src/ast.rs. \<open>Nfdl_Expr\<close>, \<open>Nfdl_Compile\<close>, with \<open>Expr_Correct\<close>,
    \<open>Compile_Safety\<close>, \<open>Compile_Release\<close>, \<open>Compile_Clobber\<close>:
    crates/nfdl-runtime/src/integration.rs. Compiled expressions compute what \<open>eval_expr\<close>
    computes; what the dev profile compiles the release profile compiles to the same program, which
    is well-formed (the 16-bit slot counter did not overflow); and three protocols that are
    miscompiled.
  \<^item> \<open>Session\<close>, \<open>Efsm\<close>, \<open>Efsm_Props\<close>, \<open>Reassembly\<close>, \<open>Runner\<close>, \<open>Runner_Props\<close>, \<open>Continuation\<close>:
    the files of crates/nfdl-runtime/src with these names. Capacity, eviction in the order of the
    last uses, timers,
    prefix delivery and completeness of reassembly, flow keys, root message, reachability.
  \<^item> \<open>Adgl_Types\<close>: crates/airpulse_dsl-types/src. \<open>Adgl_Ir\<close>: crates/airpulse_dsl-ir/src.
    \<open>Adgl_Ring\<close>, \<open>Adgl_Store\<close>: crates/airpulse_dsl-store/src. \<open>Adgl_Predicate\<close>,
    \<open>Adgl_Topology\<close>: predicate.rs, binding.rs, interner.rs, topology.rs of
    crates/airpulse_dsl-evaluator/src. Three-valued logic, saturating confidence and time,
    window scans, wait queues, deduplication ledgers, the upstream search.
  \<^item> \<open>Adgl_Catalog\<close>: crates/airpulse_dsl-catalog/src, every table and lookup. \<open>Adgl_Sink\<close>: sink.rs
    and diag.rs of the evaluator. \<open>Adgl_Engine\<close> (state, name resolution, correlation),
    \<open>Adgl_Intents\<close> (intents, roll-up, ambiguity, \<open>run_rule\<close>), \<open>Adgl_Pipeline\<close> (watermarks,
    resumption, \<open>ingest\<close>, \<open>finish\<close>): its engine.rs. \<open>Adgl_Cascade\<close> breaks every handler into
    atomic acts, \<open>Adgl_Engine_Props\<close> proves the invariant of the reasoning graph over them,
    \<open>Adgl_Engine_Run\<close> the conservation, the anchors and the final resolution of suspended matches,
    \<open>Adgl_Semantics\<close> what correlation, deduplication and the offline watermark mean.
  \<^item> \<open>Adgl_Ast\<close>: crates/airpulse_dsl-syntax/src/ast.rs and the diagnostics of crates/ndsl-diag.
    \<open>Adgl_Check\<close> (phases 1 to 5), \<open>Adgl_Phases\<close> (phases 6 to 12), \<open>Adgl_Lower\<close> (predicate
    compiler, lowering, \<open>verify_with_config\<close>): crates/airpulse_dsl-verify/src/lib.rs.
    \<open>Adgl_Acyclic\<close> proves the cycle search exact, \<open>Adgl_Compile_Correct\<close> the predicate compiler
    against a reference evaluator, \<open>Adgl_Verified\<close> and \<open>Adgl_Guarantees\<close> what a verified image
    guarantees to the engine; \<open>Adgl_Verify_Demo\<close> has an accepted ruleset, and inputs on which
    the checks and the engine disagree.

  \<^item> \<open>Adgl_Token\<close>, \<open>Adgl_Lexer\<close>, \<open>Adgl_Parser\<close> (primitives and the expression ladder),
    \<open>Adgl_Productions\<close> (declarations, rules, statements, recovery):
    crates/airpulse_dsl-syntax/src/parser.rs, with the trivia of crates/ndsl-trivia.
    \<open>Adgl_Lexer_Props\<close> has the spans of the tokens and the lexemes that are misread;
    \<open>Adgl_Parser_Total\<close> and \<open>Adgl_Parses\<close> a contract every production keeps (it consumes
    tokens, it never reaches a bound), so that parsing ends; \<open>Adgl_Unparse\<close>, \<open>Adgl_Roundtrip\<close>,
    \<open>Adgl_Render\<close> that printed expressions are read back; \<open>Adgl_Edit\<close> the edit distance behind
    the suggestions; \<open>Adgl_Source\<close> the totality of the whole front end; \<open>Adgl_Recovery\<close> that the
    recovering entry point agrees with the fail-fast one. The one function of
    another package, winnow's \<open>take_while\<close>, is the parameter \<open>tw\<close>; the hypothesis \<open>takes_runs tw\<close>
    is its documented behaviour, and \<open>reference_runs\<close> satisfies it.

  \<^bold>\<open>Conventions.\<close> A field of a Rust struct is a record field with a short prefix; \<open>u8\<close> .. \<open>u64\<close>
  are words where the code computes on them; lengths, indices and counters that cannot reach
  their bound are \<open>nat\<close>; \<open>i64\<close> times are \<open>int\<close> with the saturation or the overflow check
  written out (\<open>i64_saturate\<close>, \<open>i64_checked\<close>). A panic is \<open>None\<close>, or the outcome \<open>Panicked\<close> of the
  interpreter; an error is a value of an error datatype in a sum. The parameter \<open>chk\<close> is the
  profile's \<open>overflow-checks\<close>: with it an overflow panics, without it wraps; in the verifier it
  governs the window offsets (\<open>as_anchor_offset\<close>). The parameter \<open>ord\<close> is the order in which a \<open>HashMap\<close>
  of state machines is visited, which the library leaves open. The engine's node counter is the
  count of nodes created; the ids the source stores are its 64-bit images (\<open>node_u64\<close>), and statements
  about ids say so. The call stack is not modelled: recursion is unbounded. A \<open>BTreeMap\<close> or
  \<open>BTreeSet\<close> is a list in key order, a \<open>HashMap\<close> an association list with distinct keys.

  \<^bold>\<open>Termination and fuel.\<close> No definition has fuel but for a bound that is the code's own: the
  interpreter stops at \<open>max_instructions\<close>, message references are inlined to \<open>max_ref_depth\<close>, the
  upstream search stops at \<open>max_hops\<close>, the collection of messages after each has been visited.
  The one added depth, that of nested rule firings in \<open>run_rule\<close>, is one more than the firing
  budget of the code, and \<open>cascade_depth_suffices\<close> shows that any larger depth computes the same.
  The loops and the recursion of the parser are bounded by the number of tokens, with the outcome
  \<open>Stuck\<close> when the bound is reached; \<open>parse_ruleset_result\<close> shows that it never is, as each round
  consumes a token. The loop of the tokenizer is a \<open>partial_function\<close>, shown to end.

  \<^bold>\<open>Not modelled.\<close> The lexer and parser of N-FDL, the formatter, the lints and the command line
  tools (text processing around the core); the snapshots and SARIF reports of the engine; of the
  ADGL front end the loader of include files and the entry points on files (file I/O) and the
  rendering of diagnostics; the plugin loader (dynamic libraries) and the Z3 backend (an
  external solver); \<open>Confidence::to_legacy\<close>, which is floating point.
\<close>

end
